(* ===== verification/Zs_Prelude.thy ===== *)
theory Zs_Prelude
  imports Main "HOL-Library.Word"
begin

text \<open>
  Shared vocabulary of the zero-schema development: the result type of fallible and panicking
  Rust code, the environment a schema is compiled against (target ABI and the two third-party
  functions the runtime calls), \<open>usize\<close> arithmetic with its overflow checks, and the list lemmas on
  byte spans (\<open>slice\<close>, \<open>overwrite\<close>) that every component uses.
\<close>

named_theorems zs_layout_simps \<open>sizes, alignments and offsets of wire forms\<close>
named_theorems zs_span_simps \<open>reading a byte span after a write to it\<close>

type_synonym byte = "8 word"
type_synonym usize = nat

section \<open>Results\<close>

text \<open>
  A Rust computation returns, returns an error, or panics: \<open>unreachable!\<close>, an out-of-range slice
  index and a length mismatch in \<open>copy_from_slice\<close> are all \<open>Panic\<close>.
\<close>

datatype ('e, 'a) res = Ok 'a | Err 'e | Panic

fun and_then :: "('e, 'a) res \<Rightarrow> ('a \<Rightarrow> ('e, 'b) res) \<Rightarrow> ('e, 'b) res" where
  "and_then (Ok x) f = f x"
| "and_then (Err e) f = Err e"
| "and_then Panic f = Panic"

fun map_err :: "('e \<Rightarrow> 'f) \<Rightarrow> ('e, 'a) res \<Rightarrow> ('f, 'a) res" where
  "map_err f (Ok x) = Ok x"
| "map_err f (Err e) = Err (f e)"
| "map_err f Panic = Panic"

text \<open>\<open>match r { Ok(x) => x, Err(_) => unreachable!(..) }\<close>\<close>

fun or_unreachable :: "('e, 'a) res \<Rightarrow> ('f, 'a) res" where
  "or_unreachable (Ok x) = Ok x"
| "or_unreachable (Err e) = Panic"
| "or_unreachable Panic = Panic"

fun is_ok :: "('e, 'a) res \<Rightarrow> bool" where
  "is_ok (Ok x) = True"
| "is_ok _ = False"

lemma and_then_Ok_iff [simp]: "and_then r f = Ok y \<longleftrightarrow> (\<exists>x. r = Ok x \<and> f x = Ok y)"
  by (cases r) auto

lemma and_then_Err_iff [simp]:
  "and_then r f = Err e \<longleftrightarrow> r = Err e \<or> (\<exists>x. r = Ok x \<and> f x = Err e)"
  by (cases r) auto

lemma and_then_Panic_iff [simp]: "and_then r f = Panic \<longleftrightarrow> r = Panic \<or> (\<exists>x. r = Ok x \<and> f x = Panic)"
  by (cases r) auto

lemma map_err_iffs [simp]:
  "map_err f r = Ok x \<longleftrightarrow> r = Ok x"
  "map_err f r = Panic \<longleftrightarrow> r = Panic"
  "map_err f r = Err e' \<longleftrightarrow> (\<exists>e. r = Err e \<and> e' = f e)"
  by (cases r; auto)+

lemma or_unreachable_iffs [simp]:
  "or_unreachable r = Ok x \<longleftrightarrow> r = Ok x"
  "or_unreachable r = Panic \<longleftrightarrow> \<not> is_ok r"
  "or_unreachable r \<noteq> Err e"
  by (cases r; auto)+

lemma is_ok_iff: "is_ok r \<longleftrightarrow> (\<exists>x. r = Ok x)"
  by (cases r) auto

lemma is_okE: "is_ok r \<Longrightarrow> (\<And>x. r = Ok x \<Longrightarrow> P) \<Longrightarrow> P"
  by (cases r) auto

lemma res_Err_if: "r \<noteq> Ok () \<Longrightarrow> r \<noteq> Panic \<Longrightarrow> \<exists>e. r = Err e"
  by (cases r) auto

text \<open>A \<open>for\<close> loop whose body may leave with \<open>?\<close>: the first failing step decides the result.\<close>

fun for_each :: "('a \<Rightarrow> ('e, unit) res) \<Rightarrow> 'a list \<Rightarrow> ('e, unit) res" where
  "for_each f [] = Ok ()"
| "for_each f (x # xs) = and_then (f x) (\<lambda>_. for_each f xs)"

lemma for_each_Ok [simp]: "for_each f xs = Ok () \<longleftrightarrow> (\<forall>x \<in> set xs. f x = Ok ())"
  by (induction xs) auto

lemma for_each_Panic: "for_each f xs = Panic \<Longrightarrow> \<exists>x \<in> set xs. f x = Panic"
  by (induction xs) auto

lemma for_each_Err_first:
  assumes "i < length xs" and "\<And>j. j < i \<Longrightarrow> f (xs ! j) = Ok ()" and "f (xs ! i) = Err e"
  shows "for_each f xs = Err e"
  using assms
proof (induction xs arbitrary: i)
  case Nil
  then show ?case by simp
next
  case (Cons x xs)
  show ?case
  proof (cases i)
    case 0
    with Cons.prems(3) show ?thesis by simp
  next
    case (Suc k)
    have "f (xs ! j) = Ok ()" if "j < k" for j
      using Cons.prems(2) [of "Suc j"] that Suc by simp
    moreover have "f x = Ok ()"
      using Cons.prems(2) [of 0] Suc by simp
    ultimately show ?thesis
      using Cons.IH [of k] Cons.prems(1,3) Suc by simp
  qed
qed

lemma for_each_cong [fundef_cong]:
  "xs = ys \<Longrightarrow> (\<And>x. x \<in> set ys \<Longrightarrow> f x = g x) \<Longrightarrow> for_each f xs = for_each g ys"
  by (induction ys arbitrary: xs) auto

lemma for_each_enumerate_Ok:
  "for_each (\<lambda>(k, v). f k v) (enumerate 0 vs) = Ok () \<longleftrightarrow> (\<forall>k < length vs. f k (vs ! k) = Ok ())"
proof -
  have "set (enumerate 0 vs) = (\<lambda>k. (k, vs ! k)) ` {..<length vs}"
    by (auto simp: in_set_enumerate_eq)
  then show ?thesis by (simp add: lessThan_def)
qed

section \<open>Primitive kinds and the compilation environment\<close>

datatype primitive = U8 | I8 | U16 | I16 | U32 | I32 | U64 | I64 | F32 | F64

datatype endian = Native | Little | Big

fun prim_size :: "primitive \<Rightarrow> nat" where
  "prim_size U8 = 1" | "prim_size I8 = 1"
| "prim_size U16 = 2" | "prim_size I16 = 2"
| "prim_size U32 = 4" | "prim_size I32 = 4"
| "prim_size U64 = 8" | "prim_size I64 = 8"
| "prim_size F32 = 4" | "prim_size F64 = 8"

text \<open>
  What a schema is compiled against. \<open>usize_bits\<close>, \<open>native_big\<close> and \<open>prim_align\<close> are the target ABI.
  \<open>ref_from_bytes\<close> is zerocopy's checked reference cast (size and alignment of the wire type, address
  and length of the byte slice) and \<open>from_slice_truncate\<close> is widestring's scan for the terminator of a
  wide C string; neither is code of this repository.
\<close>

record env =
  usize_bits :: nat
  native_big :: bool
  prim_align :: "primitive \<Rightarrow> nat"
  ref_from_bytes :: "nat \<Rightarrow> nat \<Rightarrow> nat \<Rightarrow> nat \<Rightarrow> bool"
  from_slice_truncate :: "16 word list \<Rightarrow> 16 word list option"

definition usize_limit :: "env \<Rightarrow> nat" where
  "usize_limit E = 2 ^ usize_bits E"

text \<open>
  The documented behaviour the runtime relies on. zerocopy: the cast succeeds exactly on a slice of
  the right length at an aligned address. widestring: the units before the first nul, an error when
  there is none. Target ABI: pointers of 32 or 64 bits, single-byte primitives aligned to 1, every
  primitive aligned to a power of two that divides its size.
\<close>

definition zerocopy_ok :: "env \<Rightarrow> bool" where
  "zerocopy_ok E \<longleftrightarrow> (\<forall>size align addr len.
     ref_from_bytes E size align addr len \<longleftrightarrow> len = size \<and> addr mod align = 0)"

definition widestring_ok :: "env \<Rightarrow> bool" where
  "widestring_ok E \<longleftrightarrow> (\<forall>units. from_slice_truncate E units =
     (if 0 \<in> set units then Some (takeWhile (\<lambda>u. u \<noteq> 0) units) else None))"

definition target_ok :: "env \<Rightarrow> bool" where
  "target_ok E \<longleftrightarrow> usize_bits E \<in> {32, 64} \<and>
     (\<forall>p. (\<exists>k. prim_align E p = 2 ^ k) \<and> prim_align E p dvd prim_size p)"

definition env_ok :: "env \<Rightarrow> bool" where
  "env_ok E \<longleftrightarrow> zerocopy_ok E \<and> widestring_ok E \<and> target_ok E"

definition linux_x86_64 :: env where
  "linux_x86_64 = \<lparr>usize_bits = 64, native_big = False, prim_align = prim_size,
     ref_from_bytes = (\<lambda>size align addr len. len = size \<and> addr mod align = 0),
     from_slice_truncate = (\<lambda>units. if List.member units 0
        then Some (takeWhile (\<lambda>u. u \<noteq> 0) units) else None)\<rparr>"

lemma linux_x86_64_sel [simp]:
  "usize_bits linux_x86_64 = 64" "native_big linux_x86_64 = False"
  "prim_align linux_x86_64 p = prim_size p" "usize_limit linux_x86_64 = 18446744073709551616"
  by (simp_all add: linux_x86_64_def usize_limit_def)

lemma env_ok_linux_x86_64 [simp]: "env_ok linux_x86_64"
proof -
  have "\<exists>k. prim_size p = 2 ^ k" for p
  proof -
    have "prim_size p \<in> {2 ^ 0, 2 ^ 1, 2 ^ 2, 2 ^ 3}" by (cases p) simp_all
    then show ?thesis by blast
  qed
  then show ?thesis
    by (simp add: env_ok_def zerocopy_ok_def widestring_ok_def target_ok_def linux_x86_64_def)
qed

lemma env_okD:
  assumes "env_ok E"
  shows env_ref_from_bytes: "ref_from_bytes E sz al addr len \<longleftrightarrow> len = sz \<and> addr mod al = 0"
    and env_from_slice_truncate: "from_slice_truncate E units =
       (if 0 \<in> set units then Some (takeWhile (\<lambda>u. u \<noteq> 0) units) else None)"
    and env_usize_limit_ge: "2 ^ 32 \<le> usize_limit E"
    and env_prim_align_pow2: "\<exists>k. prim_align E p = 2 ^ k"
    and env_prim_align_dvd: "prim_align E p dvd prim_size p"
proof -
  show "2 ^ 32 \<le> usize_limit E"
    using assms by (auto simp: env_ok_def target_ok_def usize_limit_def)
qed (use assms in \<open>auto simp: env_ok_def target_ok_def zerocopy_ok_def widestring_ok_def\<close>)

section \<open>\<open>usize\<close> arithmetic\<close>

definition checked_add :: "env \<Rightarrow> usize \<Rightarrow> usize \<Rightarrow> usize option" where
  "checked_add E a b = (if a + b < usize_limit E then Some (a + b) else None)"

definition checked_mul :: "env \<Rightarrow> usize \<Rightarrow> usize \<Rightarrow> usize option" where
  "checked_mul E a b = (if a * b < usize_limit E then Some (a * b) else None)"

definition saturating_add :: "env \<Rightarrow> usize \<Rightarrow> usize \<Rightarrow> usize" where
  "saturating_add E a b = min (a + b) (usize_limit E - 1)"

definition saturating_mul :: "env \<Rightarrow> usize \<Rightarrow> usize \<Rightarrow> usize" where
  "saturating_mul E a b = min (a * b) (usize_limit E - 1)"

section \<open>Byte spans\<close>

definition slice :: "nat \<Rightarrow> nat \<Rightarrow> 'a list \<Rightarrow> 'a list" where
  "slice a n xs = take n (drop a xs)"

definition overwrite :: "nat \<Rightarrow> 'a list \<Rightarrow> 'a list \<Rightarrow> 'a list" where
  "overwrite a ys xs = take a xs @ ys @ drop (a + length ys) xs"

lemma length_slice [simp]: "a + n \<le> length xs \<Longrightarrow> length (slice a n xs) = n"
  by (simp add: slice_def)

lemma length_overwrite [simp]: "a + length ys \<le> length xs \<Longrightarrow> length (overwrite a ys xs) = length xs"
  by (simp add: overwrite_def)

lemma slice_nth [simp]: "a + n \<le> length xs \<Longrightarrow> i < n \<Longrightarrow> slice a n xs ! i = xs ! (a + i)"
  by (simp add: slice_def)

lemma slice_0_length [simp]: "slice 0 (length xs) xs = xs"
  by (simp add: slice_def)

lemma slice_zero_size [simp]: "slice a 0 xs = []"
  by (simp add: slice_def)

lemma slice_whole: "n = length xs \<Longrightarrow> slice 0 n xs = xs"
  by simp

lemma slice_slice [simp]:
  "b + m \<le> n \<Longrightarrow> slice b m (slice a n xs) = slice (a + b) m xs"
  by (simp add: slice_def take_drop min_def add.commute)

lemma slice_replicate [simp]: "a + n \<le> k \<Longrightarrow> slice a n (replicate k x) = replicate n x"
  by (simp add: slice_def min_def)

lemma slice_overwrite_same [simp, zs_span_simps]:
  "a + length ys \<le> length xs \<Longrightarrow> slice a (length ys) (overwrite a ys xs) = ys"
  by (simp add: slice_def overwrite_def)

lemma slice_overwrite_eq [zs_span_simps]:
  "a + n \<le> length xs \<Longrightarrow> n = length ys \<Longrightarrow> slice a n (overwrite a ys xs) = ys"
  by simp

lemma overwrite_nth:
  "a + length ys \<le> length xs \<Longrightarrow> i < length xs \<Longrightarrow>
   overwrite a ys xs ! i = (if a \<le> i \<and> i < a + length ys then ys ! (i - a) else xs ! i)"
  by (auto simp: overwrite_def nth_append min_def)

lemma slice_overwrite_disjoint [zs_span_simps]:
  assumes "a + length ys \<le> length xs" and "b + n \<le> length xs"
    and "b + n \<le> a \<or> a + length ys \<le> b"
  shows "slice b n (overwrite a ys xs) = slice b n xs"
proof (rule nth_equalityI)
  show "length (slice b n (overwrite a ys xs)) = length (slice b n xs)"
    using assms by simp
  show "slice b n (overwrite a ys xs) ! i = slice b n xs ! i"
    if "i < length (slice b n (overwrite a ys xs))" for i
    using that assms by (auto simp: overwrite_nth)
qed

lemma overwrite_slice_id [simp]: "a + n \<le> length xs \<Longrightarrow> overwrite a (slice a n xs) xs = xs"
  by (rule nth_equalityI) (auto simp: overwrite_nth)

lemma overwrite_0_all [simp]: "length ys = length xs \<Longrightarrow> overwrite 0 ys xs = ys"
  by (simp add: overwrite_def)

lemma overwrite_twice [simp]:
  "a + length ys \<le> length xs \<Longrightarrow> length zs = length ys \<Longrightarrow>
   overwrite a zs (overwrite a ys xs) = overwrite a zs xs"
  by (rule nth_equalityI) (auto simp: overwrite_nth)

text \<open>Frame of a write through a sub-span: a nested write is a write to the outer span.\<close>

lemma overwrite_nested:
  assumes "a + n \<le> length xs" and "b + length ys \<le> n"
  shows "overwrite a (overwrite b ys (slice a n xs)) xs = overwrite (a + b) ys xs"
proof (rule nth_equalityI)
  show "length (overwrite a (overwrite b ys (slice a n xs)) xs) = length (overwrite (a + b) ys xs)"
    using assms by simp
  show "overwrite a (overwrite b ys (slice a n xs)) xs ! i = overwrite (a + b) ys xs ! i"
    if "i < length (overwrite a (overwrite b ys (slice a n xs)) xs)" for i
    using that assms by (auto simp: overwrite_nth)
qed

definition all_zero :: "byte list \<Rightarrow> bool" where
  "all_zero bs \<longleftrightarrow> list_all (\<lambda>b. b = 0) bs"

lemma all_zero_iff: "all_zero bs \<longleftrightarrow> bs = replicate (length bs) 0"
  by (simp add: all_zero_def list_all_iff) (metis in_set_replicate replicate_length_same)

lemma all_zero_replicate [simp]: "all_zero (replicate n 0)"
  by (simp add: all_zero_def list_all_iff)

lemma all_zero_slice: "all_zero bs \<Longrightarrow> all_zero (slice a n bs)"
  by (auto simp: all_zero_def list_all_iff slice_def dest!: in_set_takeD in_set_dropD)

lemma all_zero_slice_nth: "a + n \<le> length bs \<Longrightarrow> all_zero (slice a n bs) \<Longrightarrow> i < n \<Longrightarrow> bs ! (a + i) = 0"
proof -
  assume bound: "a + n \<le> length bs" and zero: "all_zero (slice a n bs)" and i: "i < n"
  have "slice a n bs ! i = 0"
    using zero bound i by (simp add: all_zero_def list_all_length)
  then show ?thesis using bound i by simp
qed

section \<open>Alignment arithmetic\<close>

definition round_up :: "nat \<Rightarrow> nat \<Rightarrow> nat" where
  "round_up n a = (n + a - 1) div a * a"

lemma round_up_ge: "0 < a \<Longrightarrow> n \<le> round_up n a"
proof -
  assume a: "0 < a"
  have "n + a - 1 = (n + a - 1) div a * a + (n + a - 1) mod a" by simp
  moreover have "(n + a - 1) mod a \<le> a - 1" using a by (metis Suc_pred' less_Suc_eq_le mod_less_divisor)
  ultimately show ?thesis using a unfolding round_up_def by linarith
qed

lemma round_up_dvd [simp]: "a dvd round_up n a"
  by (simp add: round_up_def)

lemma round_up_id [simp]: "0 < a \<Longrightarrow> a dvd n \<Longrightarrow> round_up n a = n"
proof -
  assume a: "0 < a" and "a dvd n"
  then obtain k where "n = a * k" by (auto elim: dvdE)
  moreover have "(a * k + (a - 1)) div a = k + (a - 1) div a"
    using a by (simp only: div_mult_self4)
  moreover have "a * k + a - 1 = a * k + (a - 1)" "(a - 1) div a = 0" using a by simp_all
  ultimately show ?thesis using a by (simp add: round_up_def mult.commute)
qed

lemma round_up_0 [simp]: "0 < a \<Longrightarrow> round_up 0 a = 0"
  by simp

lemma pow2_dvd_max:
  assumes "\<exists>k. a = (2::nat) ^ k" "\<exists>k. b = (2::nat) ^ k"
  shows "a dvd max a b" "b dvd max a b"
  using assms by (auto simp: max_def power_increasing_iff le_imp_power_dvd)

lemma pow2_max: "\<exists>k. a = (2::nat) ^ k \<Longrightarrow> \<exists>k. b = (2::nat) ^ k \<Longrightarrow> \<exists>k. max a b = 2 ^ k"
  by (auto simp: max_def)

end
