(* ===== verification/Zs_Error.thy ===== *)
theory Zs_Error
  imports Zs_Prelude
begin

text \<open>
  The error model of \<open>src/src/error.rs\<close>: layout errors, error kinds and path segments, the
  \<open>SchemaError\<close> inspection interface as a chain of nodes, the allocation-free formatter
  \<open>__fmt_schema_error\<close> and \<open>error_path_string\<close>, and the index nodes of nested-array errors.
\<close>

section \<open>Errors as data\<close>

datatype layout_error =
    IncorrectSize (expected: usize) (size_actual: usize)
  | InsufficientBytes (required: usize) (bytes_actual: usize)
  | Misaligned (alignment: usize) (address: usize)
  | OffsetOverflow

datatype error_kind =
    KLayout | InvalidBool | UnknownEnumValue | KLengthOutOfBounds | KLengthUnrepresentable
  | KInvalidUtf8 | KMissingNul | UnknownUnionTag | KCapacityExceeded | ArrayIndexOutOfBounds
  | ArrayLengthMismatch | TagMismatch | TagOnlyPatch | IncompleteUnionSwitch
  | IncompleteOptionalInitialization

datatype error_path_segment = Field string | Index usize | Variant string

text \<open>
  A \<open>dyn SchemaError\<close> as the values its methods return: \<open>kind\<close>, \<open>schema\<close>, \<open>segment\<close>, \<open>child\<close> and the
  text \<open>__fmt_leaf\<close> writes.
\<close>

datatype schema_error = SchemaError
  (se_kind: error_kind) (se_schema: string) (se_segment: "error_path_segment option")
  (se_child: "schema_error option") (se_leaf: string)

section \<open>Integer formatting\<close>

fun digits_in :: "nat \<Rightarrow> nat \<Rightarrow> nat list" where
  "digits_in base n = (if base < 2 \<or> n < base then [n] else digits_in base (n div base) @ [n mod base])"

declare digits_in.simps [simp del]

definition digit_char :: "nat \<Rightarrow> char" where
  "digit_char d = (if d < 10 then char_of (48 + d) else char_of (87 + d))"

definition fmt_decimal :: "nat \<Rightarrow> string" where
  "fmt_decimal n = map digit_char (digits_in 10 n)"

definition fmt_lower_hex :: "nat \<Rightarrow> string" where
  "fmt_lower_hex n = map digit_char (digits_in 16 n)"

text \<open>\<open>impl Display for LayoutError\<close>\<close>

fun fmt_layout_error :: "layout_error \<Rightarrow> string" where
  "fmt_layout_error (IncorrectSize ex ac) =
     ''incorrect size: expected '' @ fmt_decimal ex @ '' bytes, got '' @ fmt_decimal ac"
| "fmt_layout_error (InsufficientBytes re ac) =
     ''insufficient bytes: required '' @ fmt_decimal re @ '', got '' @ fmt_decimal ac"
| "fmt_layout_error (Misaligned re ad) =
     ''misaligned address 0x'' @ fmt_lower_hex ad @ '': required alignment '' @ fmt_decimal re"
| "fmt_layout_error OffsetOverflow = ''byte-range offset overflow''"

section \<open>The structured formatter\<close>

fun fmt_segment :: "error_path_segment option \<Rightarrow> string" where
  "fmt_segment None = []"
| "fmt_segment (Some (Field name)) = ''.'' @ name"
| "fmt_segment (Some (Variant name)) = ''.'' @ name"
| "fmt_segment (Some (Index i)) = ''['' @ fmt_decimal i @ '']''"

text \<open>
  The loop of \<open>__fmt_schema_error\<close>: write each segment, step to the child, and let the last node write
  its leaf after the colon. The loop variable is the current node.
\<close>

fun fmt_loop :: "string \<Rightarrow> schema_error \<Rightarrow> string" where
  "fmt_loop out (SchemaError k s seg child leaf) =
     (case child of
        Some c \<Rightarrow> fmt_loop (out @ fmt_segment seg) c
      | None \<Rightarrow> (out @ fmt_segment seg) @ '': '' @ leaf)"

definition fmt_schema_error :: "schema_error \<Rightarrow> string" where
  "fmt_schema_error e = fmt_loop (se_schema e) e"

fun path_loop :: "string \<Rightarrow> schema_error \<Rightarrow> string" where
  "path_loop path (SchemaError k s seg child leaf) =
     (case child of
        Some c \<Rightarrow> path_loop (path @ fmt_segment seg) c
      | None \<Rightarrow> path @ fmt_segment seg)"

definition error_path_string :: "schema_error \<Rightarrow> string" where
  "error_path_string e = path_loop (se_schema e) e"

section \<open>Index nodes\<close>

text \<open>\<open>IndexNode<T>\<close> delegates everything but its own segment; \<open>IndexLeaf\<close> ends the chain.\<close>

definition index_node :: "usize \<Rightarrow> schema_error \<Rightarrow> schema_error" where
  "index_node i source = SchemaError (se_kind source) (se_schema source) (Some (Index i)) (Some source) (se_leaf source)"

definition index_leaf :: "string \<Rightarrow> usize \<Rightarrow> error_kind \<Rightarrow> schema_error" where
  "index_leaf schema i kind = SchemaError kind schema (Some (Index i)) None ''array mutation rejected''"

text \<open>The chain a failing element of a nested array is wrapped in: one node per enclosing array.\<close>

fun index_chain :: "usize list \<Rightarrow> schema_error \<Rightarrow> schema_error" where
  "index_chain [] leaf = leaf"
| "index_chain (i # is) leaf = index_node i (index_chain is leaf)"

section \<open>Chains\<close>

text \<open>Reference view of an error: its nodes from the root to the leaf.\<close>

fun chain :: "schema_error \<Rightarrow> schema_error list" where
  "chain (SchemaError k s seg child leaf) =
     SchemaError k s seg child leaf # (case child of None \<Rightarrow> [] | Some c \<Rightarrow> chain c)"

definition path_segments :: "schema_error \<Rightarrow> error_path_segment list" where
  "path_segments e = List.map_filter se_segment (chain e)"

lemma chain_nonempty [simp]: "chain e \<noteq> []"
  by (cases e) simp

lemma path_loop_chain: "path_loop out e = out @ concat (map (\<lambda>n. fmt_segment (se_segment n)) (chain e))"
  by (induction out e rule: path_loop.induct) (auto split: option.splits)

lemma fmt_loop_chain: "fmt_loop out e = path_loop out e @ '': '' @ se_leaf (last (chain e))"
  by (induction out e rule: fmt_loop.induct) (auto split: option.splits)

lemma concat_segments:
  "concat (map (\<lambda>n. fmt_segment (se_segment n)) ns) = concat (map (fmt_segment \<circ> Some) (List.map_filter se_segment ns))"
  by (induction ns) (auto simp: map_filter_simps split: option.splits)

text \<open>
  Display writes the schema name, then every segment of the chain in order, then the leaf
  text of the last node: exactly the string of \<open>error_path_string\<close> followed by a colon and that leaf.
\<close>

theorem display_is_path_and_leaf:
  "fmt_schema_error e = error_path_string e @ '': '' @ se_leaf (last (chain e)) \<and>
   error_path_string e = se_schema e @ concat (map (fmt_segment \<circ> Some) (path_segments e))"
  by (simp add: fmt_schema_error_def error_path_string_def fmt_loop_chain path_loop_chain
      path_segments_def concat_segments)

lemma index_chain_sel [simp]:
  "se_kind (index_chain is e) = se_kind e" "se_schema (index_chain is e) = se_schema e"
  by (induction "is") (auto simp: index_node_def)

lemma chain_index_node: "chain (index_node i e) = index_node i e # chain e"
  by (simp add: index_node_def)

lemma path_segments_index_node: "path_segments (index_node i e) = Index i # path_segments e"
  by (simp add: path_segments_def chain_index_node map_filter_simps) (simp add: index_node_def)

lemma path_segments_index_chain: "path_segments (index_chain is e) = map Index is @ path_segments e"
  by (induction "is") (auto simp: path_segments_index_node)

lemma chain_last_index_chain: "last (chain (index_chain is e)) = last (chain e)"
  by (induction "is") (auto simp: chain_index_node)

text \<open>
  A failing element under several enclosing arrays reports the kind and schema of its leaf and
  names every index, outermost first, before the leaf's own path; the chain has one node per array.
\<close>

theorem index_chain_reports_every_index:
  "se_kind (index_chain is e) = se_kind e \<and> se_schema (index_chain is e) = se_schema e \<and>
   path_segments (index_chain is e) = map Index is @ path_segments e \<and>
   fmt_schema_error (index_chain is (index_leaf s i k)) =
     s @ concat (map (\<lambda>j. ''['' @ fmt_decimal j @ '']'') (is @ [i])) @ '': array mutation rejected''"
proof -
  have "path_segments (index_leaf s i k) = [Index i]"
    by (simp add: path_segments_def index_leaf_def map_filter_simps)
  moreover have "last (chain (index_leaf s i k)) = index_leaf s i k"
    by (simp add: index_leaf_def)
  moreover have "se_schema (index_leaf s i k) = s" "se_leaf (index_leaf s i k) = ''array mutation rejected''"
    by (simp_all add: index_leaf_def)
  ultimately show ?thesis
    by (simp add: path_segments_index_chain fmt_schema_error_def fmt_loop_chain path_loop_chain
        concat_segments path_segments_def [symmetric] chain_last_index_chain comp_def)
qed

end
