(* ===== verification/Zs_Wire.thy ===== *)
theory Zs_Wire
  imports Zs_Error
begin

text \<open>
  The wire forms of \<open>src/src/wire.rs\<close>: the native, explicit-endian and float primitive wires, the
  Boolean wire, the \<open>ScalarWire\<close> and \<open>LengthWire\<close> traits, and the compiler layout of the bounded
  string wires and of \<open>AlignedWire\<close>. A wire value is its bytes in memory; a primitive value is its
  bit pattern, a natural number below \<open>256 ^ prim_size p\<close> (for floats, \<open>to_bits\<close>).
\<close>

section \<open>Byte orders\<close>

fun to_le_bytes :: "nat \<Rightarrow> nat \<Rightarrow> byte list" where
  "to_le_bytes 0 v = []"
| "to_le_bytes (Suc n) v = word_of_nat v # to_le_bytes n (v div 256)"

fun from_le_bytes :: "byte list \<Rightarrow> nat" where
  "from_le_bytes [] = 0"
| "from_le_bytes (b # bs) = unat b + 256 * from_le_bytes bs"

definition to_be_bytes :: "nat \<Rightarrow> nat \<Rightarrow> byte list" where
  "to_be_bytes n v = rev (to_le_bytes n v)"

definition from_be_bytes :: "byte list \<Rightarrow> nat" where
  "from_be_bytes bs = from_le_bytes (rev bs)"

fun encode_bytes :: "env \<Rightarrow> endian \<Rightarrow> nat \<Rightarrow> nat \<Rightarrow> byte list" where
  "encode_bytes E Little n v = to_le_bytes n v"
| "encode_bytes E Big n v = to_be_bytes n v"
| "encode_bytes E Native n v = (if native_big E then to_be_bytes n v else to_le_bytes n v)"

fun decode_bytes :: "env \<Rightarrow> endian \<Rightarrow> byte list \<Rightarrow> nat" where
  "decode_bytes E Little bs = from_le_bytes bs"
| "decode_bytes E Big bs = from_be_bytes bs"
| "decode_bytes E Native bs = (if native_big E then from_be_bytes bs else from_le_bytes bs)"

lemma unat_byte_bound: "unat (b :: byte) < 256"
proof -
  have "unat b < 2 ^ LENGTH(8)" by (rule unsigned_less)
  then show ?thesis by simp
qed

lemma length_to_le_bytes [simp]: "length (to_le_bytes n v) = n"
  by (induction n v rule: to_le_bytes.induct) auto

lemma length_encode_bytes [simp]: "length (encode_bytes E en n v) = n"
  by (cases en) (auto simp: to_be_bytes_def)

lemma from_to_le_bytes: "from_le_bytes (to_le_bytes n v) = v mod 256 ^ n"
proof (induction n v rule: to_le_bytes.induct)
  case (2 n v)
  have "v mod (256 * 256 ^ n) = 256 * (v div 256 mod 256 ^ n) + v mod 256"
    by (rule mod_mult2_eq)
  with 2 show ?case by (simp add: unat_of_nat)
qed simp

lemma to_from_le_bytes: "length bs = n \<Longrightarrow> to_le_bytes n (from_le_bytes bs) = bs"
proof (induction bs arbitrary: n)
  case (Cons b bs)
  have "(word_of_nat (unat b + 256 * from_le_bytes bs) :: byte) = b"
  proof -
    have zero: "(256 :: byte) = 0" by (simp add: word_uint_eq_iff)
    have "(word_of_nat (unat b + 256 * from_le_bytes bs) :: byte) =
      b + 256 * word_of_nat (from_le_bytes bs)" by simp
    also have "\<dots> = b" unfolding zero by simp
    finally show ?thesis .
  qed
  moreover have "(unat b + 256 * from_le_bytes bs) div 256 = from_le_bytes bs"
    using unat_byte_bound [of b] by simp
  ultimately show ?case using Cons by auto
qed simp

lemma from_le_bytes_bound: "from_le_bytes bs < 256 ^ length bs"
proof (induction bs)
  case (Cons b bs)
  have "unat b < 256" by (rule unat_byte_bound)
  with Cons show ?case by simp
qed simp

lemma decode_encode_bytes [simp]: "decode_bytes E en (encode_bytes E en n v) = v mod 256 ^ n"
  by (cases en) (simp_all add: from_to_le_bytes to_be_bytes_def from_be_bytes_def)

lemma encode_decode_bytes [simp]: "length bs = n \<Longrightarrow> encode_bytes E en n (decode_bytes E en bs) = bs"
  by (cases en) (simp_all add: to_from_le_bytes to_be_bytes_def from_be_bytes_def)

lemma decode_bytes_bound: "decode_bytes E en bs < 256 ^ length bs"
  using from_le_bytes_bound [of bs] from_le_bytes_bound [of "rev bs"]
  by (cases en) (auto simp: from_be_bytes_def)

lemma from_le_bytes_0: "from_le_bytes (replicate n 0) = 0"
  by (induction n) auto

lemma decode_bytes_0 [simp]: "decode_bytes E en (replicate n 0) = 0"
  by (cases en) (simp_all add: from_le_bytes_0 from_be_bytes_def)

lemma to_le_bytes_0: "to_le_bytes n 0 = replicate n 0"
  by (induction n) auto

lemma encode_bytes_0 [simp]: "encode_bytes E en n 0 = replicate n 0"
  by (cases en) (simp_all add: to_le_bytes_0 to_be_bytes_def)

declare encode_bytes.simps [simp del] decode_bytes.simps [simp del]

section \<open>Checked stores\<close>

definition store_exact :: "byte list \<Rightarrow> byte list \<Rightarrow> (layout_error, unit) res \<times> byte list" where
  "store_exact destination source =
     (if length destination \<noteq> length source
      then (Err (IncorrectSize (length source) (length destination)), destination)
      else (Ok (), source))"

text \<open>\<open>copy_from_slice\<close> panics when the lengths differ.\<close>

definition copy_from_slice :: "byte list \<Rightarrow> byte list \<Rightarrow> ('e, byte list) res" where
  "copy_from_slice destination source =
     (if length destination = length source then Ok source else Panic)"

section \<open>Primitive wires\<close>

text \<open>
  The types the three macros \<open>native_wire\<close>, \<open>explicit_wire\<close> and \<open>float_wire\<close> instantiate, as a byte
  order and a primitive kind. \<open>wire_new\<close> is the in-memory form of \<open>new(value)\<close>.
\<close>

type_synonym prim_wire = "endian \<times> primitive"

definition wire_new :: "env \<Rightarrow> prim_wire \<Rightarrow> nat \<Rightarrow> byte list" where
  "wire_new E w v = encode_bytes E (fst w) (prim_size (snd w)) v"

definition wire_get :: "env \<Rightarrow> prim_wire \<Rightarrow> byte list \<Rightarrow> nat" where
  "wire_get E w bs = decode_bytes E (fst w) bs"

definition wire_store :: "env \<Rightarrow> prim_wire \<Rightarrow> nat \<Rightarrow> byte list \<Rightarrow> (layout_error, unit) res \<times> byte list" where
  "wire_store E w v destination = store_exact destination (wire_new E w v)"

definition wire_store_preflighted :: "env \<Rightarrow> prim_wire \<Rightarrow> nat \<Rightarrow> byte list \<Rightarrow> ('e, byte list) res" where
  "wire_store_preflighted E w v destination = copy_from_slice destination (wire_new E w v)"

definition prim_ok :: "primitive \<Rightarrow> nat \<Rightarrow> bool" where
  "prim_ok p v \<longleftrightarrow> v < 256 ^ prim_size p"

lemma length_wire_new [simp]: "length (wire_new E w v) = prim_size (snd w)"
  by (simp add: wire_new_def)

lemma wire_get_new [simp]: "prim_ok (snd w) v \<Longrightarrow> wire_get E w (wire_new E w v) = v"
  by (simp add: wire_get_def wire_new_def prim_ok_def)

lemma wire_get_ok: "length bs = prim_size (snd w) \<Longrightarrow> prim_ok (snd w) (wire_get E w bs)"
  using decode_bytes_bound [of E "fst w" bs] by (simp add: wire_get_def prim_ok_def)

lemma wire_get_0 [simp]: "wire_get E w (replicate n 0) = 0"
  by (simp add: wire_get_def)

lemma wire_store_preflighted_Ok:
  "length destination = prim_size (snd w) \<Longrightarrow> wire_store_preflighted E w v destination = Ok (wire_new E w v)"
  by (simp add: wire_store_preflighted_def copy_from_slice_def)

text \<open>
  C20. Every primitive wire form round-trips: a value read back after a store is the stored bit
  pattern, and storing what was read leaves the bytes as they were; a store into a field slice of the
  wrong width changes nothing and reports both sizes.
\<close>

theorem wire_roundtrip:
  "(prim_ok (snd w) v \<longrightarrow> wire_get E w (wire_new E w v) = v) \<and>
   (length bs = prim_size (snd w) \<longrightarrow> wire_new E w (wire_get E w bs) = bs) \<and>
   (length bs = prim_size (snd w) \<longrightarrow> wire_store E w v bs = (Ok (), wire_new E w v)) \<and>
   (length bs \<noteq> prim_size (snd w) \<longrightarrow>
      wire_store E w v bs = (Err (IncorrectSize (prim_size (snd w)) (length bs)), bs))"
proof -
  have "wire_new E w (wire_get E w bs) = bs" if "length bs = prim_size (snd w)"
    using that by (simp add: wire_new_def wire_get_def)
  then show ?thesis by (auto simp: wire_store_def store_exact_def)
qed

theorem wire_roundtrip_witness:
  "wire_get linux_x86_64 (Big, U16) (wire_new linux_x86_64 (Big, U16) 0x1234) = 0x1234 \<and>
   wire_store linux_x86_64 (Big, U16) 7 [0, 0, 0, 0] = (Err (IncorrectSize 2 4), [0, 0, 0, 0])"
  using wire_roundtrip [of "(Big, U16)" "0x1234" linux_x86_64 "[0, 0, 0, 0]"]
    wire_roundtrip [of "(Big, U16)" 7 linux_x86_64 "[0, 0, 0, 0]"]
  by (simp add: prim_ok_def)

section \<open>Boolean wire\<close>

type_synonym bool_wire = byte

definition bool_decode :: "bool_wire \<Rightarrow> bool option" where
  "bool_decode raw = (if raw = 0 then Some False else if raw = 1 then Some True else None)"

definition bool_encode :: "bool \<Rightarrow> bool_wire" where
  "bool_encode b = (if b then 1 else 0)"

definition bool_store :: "bool \<Rightarrow> byte list \<Rightarrow> (layout_error, unit) res \<times> byte list" where
  "bool_store b destination = store_exact destination [bool_encode b]"

definition bool_store_preflighted :: "bool \<Rightarrow> byte list \<Rightarrow> ('e, byte list) res" where
  "bool_store_preflighted b destination = copy_from_slice destination [bool_encode b]"

lemma bool_decode_iff: "bool_decode raw = Some b \<longleftrightarrow> raw = bool_encode b"
  by (auto simp: bool_decode_def bool_encode_def)

lemma bool_decode_encode [simp]: "bool_decode (bool_encode b) = Some b"
  by (simp add: bool_decode_iff)

lemma bool_decode_0 [simp]: "bool_decode 0 = Some False"
  by (simp add: bool_decode_def)

section \<open>Scalar-enum storage\<close>

text \<open>\<open>ScalarWire\<close>: the raw representation of an enum with \<open>repr(u8)\<close>, \<open>repr(u16)\<close> or \<open>repr(u32)\<close>.\<close>

datatype scalar_repr = ReprU8 | ReprU16 | ReprU32

fun repr_prim :: "scalar_repr \<Rightarrow> primitive" where
  "repr_prim ReprU8 = U8" | "repr_prim ReprU16 = U16" | "repr_prim ReprU32 = U32"

definition scalar_width :: "scalar_repr \<Rightarrow> nat" where
  "scalar_width r = prim_size (repr_prim r)"

definition scalar_load :: "env \<Rightarrow> endian \<Rightarrow> scalar_repr \<Rightarrow> byte list \<Rightarrow> nat" where
  "scalar_load E en r bs = wire_get E (en, repr_prim r) bs"

definition scalar_store :: "env \<Rightarrow> endian \<Rightarrow> scalar_repr \<Rightarrow> nat \<Rightarrow> byte list \<Rightarrow> (layout_error, unit) res \<times> byte list" where
  "scalar_store E en r v destination = wire_store E (en, repr_prim r) v destination"

definition scalar_store_preflighted :: "env \<Rightarrow> endian \<Rightarrow> scalar_repr \<Rightarrow> nat \<Rightarrow> byte list \<Rightarrow> ('e, byte list) res" where
  "scalar_store_preflighted E en r v destination = wire_store_preflighted E (en, repr_prim r) v destination"

section \<open>Length prefixes\<close>

definition length_load :: "env \<Rightarrow> endian \<Rightarrow> scalar_repr \<Rightarrow> byte list \<Rightarrow> usize option" where
  "length_load E en r bs = (let v = wire_get E (en, repr_prim r) bs
     in if v < usize_limit E then Some v else None)"

definition length_represents :: "scalar_repr \<Rightarrow> usize \<Rightarrow> bool" where
  "length_represents r v \<longleftrightarrow> v < 256 ^ scalar_width r"

definition length_store :: "env \<Rightarrow> endian \<Rightarrow> scalar_repr \<Rightarrow> usize \<Rightarrow> byte list \<Rightarrow> (layout_error, unit) res \<times> byte list" where
  "length_store E en r v destination =
     (if \<not> length_represents r v
      then (Err (IncorrectSize ((256 ^ scalar_width r - 1) mod usize_limit E) v), destination)
      else wire_store E (en, repr_prim r) v destination)"

text \<open>\<open>value as $primitive\<close> truncates.\<close>

definition length_store_preflighted :: "env \<Rightarrow> endian \<Rightarrow> scalar_repr \<Rightarrow> usize \<Rightarrow> byte list \<Rightarrow> ('e, byte list) res" where
  "length_store_preflighted E en r v destination =
     wire_store_preflighted E (en, repr_prim r) (v mod 256 ^ scalar_width r) destination"

lemma scalar_width_pos [simp]: "0 < scalar_width r"
  by (cases r) (simp_all add: scalar_width_def)

lemma scalar_width_le4: "scalar_width r \<le> 4"
  by (cases r) (simp_all add: scalar_width_def)

lemma length_load_total:
  assumes "env_ok E" and "length bs = scalar_width r"
  shows "length_load E en r bs = Some (wire_get E (en, repr_prim r) bs)"
proof -
  have "wire_get E (en, repr_prim r) bs < 256 ^ scalar_width r"
    using decode_bytes_bound [of E en bs] assms(2) by (simp add: wire_get_def)
  also have "\<dots> \<le> 256 ^ 4" using scalar_width_le4 by (rule power_increasing) simp
  also have "\<dots> \<le> usize_limit E" using env_usize_limit_ge [OF assms(1)] by simp
  finally show ?thesis by (simp add: length_load_def Let_def)
qed

lemma length_load_store:
  assumes "env_ok E" and "length_represents r v" and "length_store_preflighted E en r v destination = Ok bs"
  shows "length_load E en r bs = Some v" "length bs = scalar_width r"
proof -
  from assms(2,3) have bs: "bs = wire_new E (en, repr_prim r) v"
    by (auto simp: length_store_preflighted_def wire_store_preflighted_def copy_from_slice_def
        length_represents_def split: if_splits)
  then show "length bs = scalar_width r" by (simp add: scalar_width_def)
  with assms(1,2) bs show "length_load E en r bs = Some v"
    by (simp add: length_load_total wire_get_def wire_new_def length_represents_def scalar_width_def)
qed

lemma length_load_0 [simp]: "env_ok E \<Longrightarrow> length_load E en r (replicate (scalar_width r) 0) = Some 0"
  by (simp add: length_load_total)

section \<open>Compiler layouts\<close>

text \<open>\<open>size_of\<close> and \<open>align_of\<close> of a wire type, and Rust's \<open>repr(C)\<close> placement of struct and union members.\<close>

record wlayout =
  wl_size :: nat
  wl_align :: nat

definition prim_layout :: "env \<Rightarrow> primitive \<Rightarrow> wlayout" where
  "prim_layout E p = \<lparr>wl_size = prim_size p, wl_align = prim_align E p\<rparr>"

definition bytes_layout :: "nat \<Rightarrow> wlayout" where
  "bytes_layout n = \<lparr>wl_size = n, wl_align = 1\<rparr>"

definition array_layout :: "nat \<Rightarrow> wlayout \<Rightarrow> wlayout" where
  "array_layout n l = \<lparr>wl_size = n * wl_size l, wl_align = wl_align l\<rparr>"

fun place :: "nat \<Rightarrow> wlayout list \<Rightarrow> nat list" where
  "place cur [] = []"
| "place cur (l # ls) = (let off = round_up cur (wl_align l) in off # place (off + wl_size l) ls)"

fun place_end :: "nat \<Rightarrow> wlayout list \<Rightarrow> nat" where
  "place_end cur [] = cur"
| "place_end cur (l # ls) = place_end (round_up cur (wl_align l) + wl_size l) ls"

fun max_align :: "wlayout list \<Rightarrow> nat" where
  "max_align [] = 1"
| "max_align (l # ls) = max (wl_align l) (max_align ls)"

definition repr_c :: "wlayout list \<Rightarrow> wlayout" where
  "repr_c ls = \<lparr>wl_size = round_up (place_end 0 ls) (max_align ls), wl_align = max_align ls\<rparr>"

definition repr_c_union :: "wlayout list \<Rightarrow> wlayout" where
  "repr_c_union ls = \<lparr>wl_size = round_up (foldr (\<lambda>l m. max (wl_size l) m) ls 0) (max_align ls),
     wl_align = max_align ls\<rparr>"

text \<open>\<open>StrWire<L, N>\<close>, \<open>U16StrWire<L, N>\<close>, \<open>CStrWire<N>\<close>, \<open>U16CStrWire<N>\<close> and their \<open>DATA_OFFSET\<close>.\<close>

definition str_members :: "env \<Rightarrow> scalar_repr \<Rightarrow> nat \<Rightarrow> wlayout list" where
  "str_members E r n = [prim_layout E (repr_prim r), bytes_layout n]"

definition u16_str_members :: "env \<Rightarrow> scalar_repr \<Rightarrow> nat \<Rightarrow> wlayout list" where
  "u16_str_members E r n = [prim_layout E (repr_prim r), array_layout n (prim_layout E U16)]"

definition str_layout :: "env \<Rightarrow> scalar_repr \<Rightarrow> nat \<Rightarrow> wlayout" where
  "str_layout E r n = repr_c (str_members E r n)"

definition str_data_offset :: "env \<Rightarrow> scalar_repr \<Rightarrow> nat \<Rightarrow> nat" where
  "str_data_offset E r n = place 0 (str_members E r n) ! 1"

definition u16_str_layout :: "env \<Rightarrow> scalar_repr \<Rightarrow> nat \<Rightarrow> wlayout" where
  "u16_str_layout E r n = repr_c (u16_str_members E r n)"

definition u16_str_data_offset :: "env \<Rightarrow> scalar_repr \<Rightarrow> nat \<Rightarrow> nat" where
  "u16_str_data_offset E r n = place 0 (u16_str_members E r n) ! 1"

definition c_str_layout :: "nat \<Rightarrow> wlayout" where
  "c_str_layout n = repr_c [bytes_layout n]"

definition u16_c_str_layout :: "env \<Rightarrow> nat \<Rightarrow> wlayout" where
  "u16_c_str_layout E n = repr_c [array_layout n (prim_layout E U16)]"

text \<open>\<open>Align1\<close> to \<open>Align536870912\<close> are zero-sized; \<open>AlignedWire<T, A>\<close> holds one before its value.\<close>

definition align_marker :: "nat \<Rightarrow> wlayout" where
  "align_marker a = \<lparr>wl_size = 0, wl_align = a\<rparr>"

definition aligned_members :: "wlayout \<Rightarrow> nat \<Rightarrow> wlayout list" where
  "aligned_members l a = [array_layout 0 (align_marker a), l]"

definition aligned_layout :: "wlayout \<Rightarrow> nat \<Rightarrow> wlayout" where
  "aligned_layout l a = repr_c (aligned_members l a)"

definition aligned_value_offset :: "wlayout \<Rightarrow> nat \<Rightarrow> nat" where
  "aligned_value_offset l a = place 0 (aligned_members l a) ! 1"

subsection \<open>Well-formed layouts\<close>

definition wf_layout :: "wlayout \<Rightarrow> bool" where
  "wf_layout l \<longleftrightarrow> (\<exists>k. wl_align l = 2 ^ k) \<and> wl_align l dvd wl_size l"

lemma wf_layout_align_pos [simp]: "wf_layout l \<Longrightarrow> 0 < wl_align l"
  by (auto simp: wf_layout_def)

lemma wf_prim_layout [simp]: "env_ok E \<Longrightarrow> wf_layout (prim_layout E p)"
  by (simp add: wf_layout_def prim_layout_def env_okD)

lemma wf_bytes_layout [simp]: "wf_layout (bytes_layout n)"
  unfolding wf_layout_def bytes_layout_def by (auto intro: exI [of _ 0])

lemma wf_array_layout [simp]: "wf_layout l \<Longrightarrow> wf_layout (array_layout n l)"
  by (auto simp: wf_layout_def array_layout_def)

lemma max_align_pow2: "\<forall>l \<in> set ls. wf_layout l \<Longrightarrow> \<exists>k. max_align ls = 2 ^ k"
proof (induction ls)
  case Nil
  then show ?case by (auto intro: exI [of _ 0])
next
  case (Cons l ls)
  then show ?case by (auto simp: wf_layout_def intro!: pow2_max)
qed

lemma max_align_dvd: "\<forall>l \<in> set ls. wf_layout l \<Longrightarrow> l \<in> set ls \<Longrightarrow> wl_align l dvd max_align ls"
proof (induction ls)
  case (Cons m ls)
  have pows: "\<exists>k. wl_align m = 2 ^ k" "\<exists>k. max_align ls = 2 ^ k"
    using Cons.prems(1) max_align_pow2 [of ls] by (auto simp: wf_layout_def)
  show ?case
  proof (cases "l = m")
    case True
    then show ?thesis using pow2_dvd_max(1) [OF pows] by simp
  next
    case False
    then have "wl_align l dvd max_align ls" using Cons by simp
    also have "\<dots> dvd max_align (m # ls)" using pow2_dvd_max(2) [OF pows] by simp
    finally show ?thesis .
  qed
qed simp

lemma max_align_pos [simp]: "0 < max_align ls"
  by (induction ls) (auto simp: max_def)

lemma wf_repr_c [simp]: "\<forall>l \<in> set ls. wf_layout l \<Longrightarrow> wf_layout (repr_c ls)"
  by (auto simp: wf_layout_def repr_c_def max_align_pow2)

lemma wf_repr_c_union [simp]: "\<forall>l \<in> set ls. wf_layout l \<Longrightarrow> wf_layout (repr_c_union ls)"
  by (auto simp: wf_layout_def repr_c_union_def max_align_pow2)

lemma length_place [simp]: "length (place cur ls) = length ls"
  by (induction cur ls rule: place.induct) (auto simp: Let_def)

lemma place_ge: "\<forall>l \<in> set ls. wf_layout l \<Longrightarrow> i < length ls \<Longrightarrow> cur \<le> place cur ls ! i"
proof (induction cur ls arbitrary: i rule: place.induct)
  case (2 cur l ls)
  have "cur \<le> round_up cur (wl_align l)" using 2 by (simp add: round_up_ge)
  then show ?case using 2(1) [of _ "i - 1"] 2(2,3) by (cases i) (fastforce simp: Let_def)+
qed simp

lemma place_end_ge: "\<forall>l \<in> set ls. wf_layout l \<Longrightarrow> cur \<le> place_end cur ls"
proof (induction cur ls rule: place_end.induct)
  case (2 cur l ls)
  have "cur \<le> round_up cur (wl_align l) + wl_size l" using 2 by (simp add: round_up_ge trans_le_add1)
  also have "\<dots> \<le> place_end cur (l # ls)" using 2 by simp
  finally show ?case .
qed simp

lemma place_end_bound:
  "\<forall>l \<in> set ls. wf_layout l \<Longrightarrow> i < length ls \<Longrightarrow> place cur ls ! i + wl_size (ls ! i) \<le> place_end cur ls"
proof (induction cur ls arbitrary: i rule: place.induct)
  case (2 cur l ls)
  show ?case
  proof (cases i)
    case 0
    then show ?thesis using place_end_ge [of ls "round_up cur (wl_align l) + wl_size l"] 2(2) by (simp add: Let_def)
  next
    case (Suc k)
    then show ?thesis using 2(1) [OF refl, of k] 2(2,3) by (simp add: Let_def)
  qed
qed simp

lemma place_aligned: "i < length ls \<Longrightarrow> wl_align (ls ! i) dvd place cur ls ! i"
proof (induction cur ls arbitrary: i rule: place.induct)
  case (2 cur l ls)
  then show ?case by (cases i) (auto simp: Let_def)
qed simp

lemma place_disjoint:
  "\<forall>l \<in> set ls. wf_layout l \<Longrightarrow> i < j \<Longrightarrow> j < length ls \<Longrightarrow>
   place cur ls ! i + wl_size (ls ! i) \<le> place cur ls ! j"
proof (induction cur ls arbitrary: i j rule: place.induct)
  case (2 cur l ls)
  show ?case
  proof (cases i)
    case 0
    then obtain k where j: "j = Suc k" using 2(3) by (cases j) auto
    show ?thesis using 0 j 2 place_ge [of ls k "round_up cur (wl_align l) + wl_size l"] by (simp add: Let_def)
  next
    case (Suc k)
    then obtain m where "j = Suc m" using 2(3) by (cases j) auto
    with Suc show ?thesis using 2(1) [OF refl, of k m] 2(2,3,4) by (simp add: Let_def)
  qed
qed simp

lemma repr_c_bound:
  assumes "\<forall>l \<in> set ls. wf_layout l" and "i < length ls"
  shows "place 0 ls ! i + wl_size (ls ! i) \<le> wl_size (repr_c ls)"
proof -
  have "place 0 ls ! i + wl_size (ls ! i) \<le> place_end 0 ls" using assms by (rule place_end_bound)
  also have "\<dots> \<le> wl_size (repr_c ls)" by (simp add: repr_c_def round_up_ge)
  finally show ?thesis .
qed

lemma repr_c_union_bound: "l \<in> set ls \<Longrightarrow> wl_size l \<le> wl_size (repr_c_union ls)"
proof -
  assume "l \<in> set ls"
  then have "wl_size l \<le> foldr (\<lambda>l m. max (wl_size l) m) ls 0"
    by (induction ls) (auto simp: max_def)
  also have "\<dots> \<le> wl_size (repr_c_union ls)" by (simp add: repr_c_union_def round_up_ge)
  finally show ?thesis .
qed

lemma wl_align_repr_c [simp]: "wl_align (repr_c ls) = max_align ls"
  by (simp add: repr_c_def)

lemma wl_align_repr_c_union [simp]: "wl_align (repr_c_union ls) = max_align ls"
  by (simp add: repr_c_union_def)

subsection \<open>String and alignment wires\<close>

lemma wf_aligned_members: "wf_layout l \<Longrightarrow> a = 2 ^ k \<Longrightarrow> \<forall>m \<in> set (aligned_members l a). wf_layout m"
  by (auto simp: aligned_members_def align_marker_def array_layout_def wf_layout_def)

lemma wf_aligned_layout: "wf_layout l \<Longrightarrow> a = 2 ^ k \<Longrightarrow> wf_layout (aligned_layout l a)"
  unfolding aligned_layout_def by (rule wf_repr_c) (rule wf_aligned_members)

lemma aligned_value_offset_0 [simp]: "wf_layout l \<Longrightarrow> a = 2 ^ k \<Longrightarrow> aligned_value_offset l a = 0"
  by (simp add: aligned_value_offset_def aligned_members_def align_marker_def array_layout_def Let_def)

lemma aligned_size_ge: "wf_layout l \<Longrightarrow> a = 2 ^ k \<Longrightarrow> wl_size l \<le> wl_size (aligned_layout l a)"
  using repr_c_bound [OF wf_aligned_members, of l a k 1]
  by (simp add: aligned_layout_def aligned_members_def)

lemma aligned_align_dvd:
  assumes "wf_layout l" "a = 2 ^ k"
  shows "wl_align l dvd wl_align (aligned_layout l a)"
  unfolding aligned_layout_def wl_align_repr_c
  by (rule max_align_dvd [OF wf_aligned_members [OF assms]]) (simp add: aligned_members_def)

lemma wf_str_members [simp]: "env_ok E \<Longrightarrow> m \<in> set (str_members E r n) \<Longrightarrow> wf_layout m"
  by (auto simp: str_members_def)

lemma wf_u16_str_members [simp]: "env_ok E \<Longrightarrow> m \<in> set (u16_str_members E r n) \<Longrightarrow> wf_layout m"
  by (auto simp: u16_str_members_def)

lemma wf_string_layouts [simp]:
  "env_ok E \<Longrightarrow> wf_layout (str_layout E r n)" "env_ok E \<Longrightarrow> wf_layout (u16_str_layout E r n)"
  "wf_layout (c_str_layout n)" "env_ok E \<Longrightarrow> wf_layout (u16_c_str_layout E n)"
  by (simp_all add: str_layout_def u16_str_layout_def c_str_layout_def u16_c_str_layout_def)

lemma round_up_1 [simp]: "round_up n (Suc 0) = n"
  by (simp add: round_up_def)

lemma str_data_offset_eq [simp]: "env_ok E \<Longrightarrow> str_data_offset E r n = scalar_width r"
  using wf_layout_align_pos [OF wf_prim_layout, of E "repr_prim r"]
  by (simp add: str_data_offset_def str_members_def prim_layout_def bytes_layout_def Let_def scalar_width_def)

lemma str_layout_bound: "env_ok E \<Longrightarrow> scalar_width r + n \<le> wl_size (str_layout E r n)"
  using repr_c_bound [of "str_members E r n" 1] str_data_offset_eq [of E r n]
  by (simp add: str_layout_def str_data_offset_def) (simp add: str_members_def bytes_layout_def Let_def)

lemma u16_str_layout_bound: "env_ok E \<Longrightarrow> u16_str_data_offset E r n + 2 * n \<le> wl_size (u16_str_layout E r n)"
  using repr_c_bound [of "u16_str_members E r n" 1]
  by (simp add: u16_str_layout_def u16_str_data_offset_def)
    (simp add: u16_str_members_def array_layout_def prim_layout_def)

lemma u16_str_data_offset_ge: "env_ok E \<Longrightarrow> scalar_width r \<le> u16_str_data_offset E r n"
  using place_disjoint [of "u16_str_members E r n" 0 1 0]
  by (simp add: u16_str_data_offset_def)
    (simp add: u16_str_members_def prim_layout_def scalar_width_def Let_def)

lemma u16_str_data_offset_aligned: "prim_align E U16 dvd u16_str_data_offset E r n"
  using place_aligned [of 1 "u16_str_members E r n" 0]
  by (simp add: u16_str_data_offset_def) (simp add: u16_str_members_def array_layout_def prim_layout_def)

lemma u16_str_align_dvd: "env_ok E \<Longrightarrow> prim_align E U16 dvd wl_align (u16_str_layout E r n)"
  using max_align_dvd [of "u16_str_members E r n" "array_layout n (prim_layout E U16)"]
  by (simp add: u16_str_layout_def) (simp add: u16_str_members_def array_layout_def prim_layout_def)

lemma c_str_layout_eq [simp]: "wl_size (c_str_layout n) = n" "wl_align (c_str_layout n) = 1"
  by (simp_all add: c_str_layout_def repr_c_def bytes_layout_def round_up_def)

lemma u16_c_str_layout_eq:
  assumes "env_ok E"
  shows "wl_size (u16_c_str_layout E n) = 2 * n" "wl_align (u16_c_str_layout E n) = prim_align E U16"
proof -
  have dvd: "prim_align E U16 dvd 2" and pos: "0 < prim_align E U16"
    using env_prim_align_dvd [OF assms, of U16] env_prim_align_pow2 [OF assms, of U16] by auto
  have "max (prim_align E U16) 1 = prim_align E U16" using pos by simp
  moreover have "prim_align E U16 dvd n * 2" using dvd by (rule dvd_mult)
  ultimately show "wl_size (u16_c_str_layout E n) = 2 * n" "wl_align (u16_c_str_layout E n) = prim_align E U16"
    using pos by (simp_all add: u16_c_str_layout_def repr_c_def array_layout_def prim_layout_def mult.commute)
qed

text \<open>
  \<open>repr(C)\<close> placement of well-formed members: every member lies inside the wire, starts at a
  multiple of its alignment, ends before the next member starts, and the wire's own alignment divides
  its size and is divided by each member's.
\<close>

theorem repr_c_layout_sound:
  assumes "\<forall>l \<in> set ls. wf_layout l" and "j < length ls"
  shows "wf_layout (repr_c ls) \<and> place 0 ls ! j + wl_size (ls ! j) \<le> wl_size (repr_c ls) \<and>
    wl_align (ls ! j) dvd place 0 ls ! j \<and> wl_align (ls ! j) dvd wl_align (repr_c ls) \<and>
    (\<forall>i < j. place 0 ls ! i + wl_size (ls ! i) \<le> place 0 ls ! j)"
  using assms repr_c_bound [OF assms] place_aligned [OF assms(2), of 0]
  by (auto intro!: max_align_dvd place_disjoint)

theorem repr_c_layout_sound_witness:
  "place 0 [bytes_layout 1, prim_layout linux_x86_64 U32] = [0, 4] \<and>
   4 + 4 \<le> wl_size (repr_c [bytes_layout 1, prim_layout linux_x86_64 U32])"
proof -
  have offsets: "place 0 [bytes_layout 1, prim_layout linux_x86_64 U32] = [0, 4]"
    by (simp add: bytes_layout_def prim_layout_def round_up_def Let_def)
  have "wl_size (prim_layout linux_x86_64 U32) = 4" by (simp add: prim_layout_def)
  with offsets show ?thesis
    using repr_c_layout_sound [of "[bytes_layout 1, prim_layout linux_x86_64 U32]" 1] by simp
qed

end
