(* ===== verification/Zs_Access.thy ===== *)
theory Zs_Access
  imports Zs_Wire
begin

text \<open>
  Checked byte inputs: \<open>src/src/access.rs\<close> (\<open>SharedInput\<close>, \<open>ExclusiveInput\<close>, \<open>ProvedShared\<close>,
  \<open>ProvedExclusive\<close>, \<open>SchemaBuffer\<close>) and the range helpers of \<open>src/src/mutation.rs\<close>. An input is the
  address and the bytes of its span with the layout of its wire type. An exclusive reborrow of a field
  is a new input over the field's bytes; when it ends, \<open>write_back\<close> puts them into the parent's span.
\<close>

section \<open>Range helpers\<close>

definition checked_range :: "env \<Rightarrow> usize \<Rightarrow> usize \<Rightarrow> usize \<Rightarrow> (layout_error, usize \<times> usize) res" where
  "checked_range E available offset len =
     (case checked_add E offset len of
        None \<Rightarrow> Err OffsetOverflow
      | Some end_ \<Rightarrow> if end_ > available then Err (InsufficientBytes end_ available)
                     else Ok (offset, end_))"

definition copy_bytes_at :: "env \<Rightarrow> byte list \<Rightarrow> usize \<Rightarrow> byte list \<Rightarrow> (layout_error, byte list) res" where
  "copy_bytes_at E destination offset source =
     and_then (checked_range E (length destination) offset (length source))
       (\<lambda>(a, b). Ok (overwrite a source destination))"

definition copy_exact :: "byte list \<Rightarrow> byte list \<Rightarrow> (layout_error, byte list) res" where
  "copy_exact destination source =
     (if length destination \<noteq> length source
      then Err (IncorrectSize (length destination) (length source)) else Ok source)"

lemma checked_range_Ok:
  "available < usize_limit E \<Longrightarrow>
   checked_range E available offset len = Ok r \<longleftrightarrow> offset + len \<le> available \<and> r = (offset, offset + len)"
  by (auto simp: checked_range_def checked_add_def)

lemma checked_range_total: "checked_range E available offset len \<noteq> Panic"
  by (simp add: checked_range_def split: option.split)

section \<open>Inputs\<close>

record input =
  i_addr :: usize
  i_bytes :: "byte list"
  i_wire :: wlayout

definition check_alignment :: "wlayout \<Rightarrow> usize \<Rightarrow> (layout_error, unit) res" where
  "check_alignment w addr = (if addr mod wl_align w \<noteq> 0 then Err (Misaligned (wl_align w) addr) else Ok ())"

text \<open>\<open>SharedInput::from_checked\<close> and \<open>ExclusiveInput::from_checked\<close> make the same checks.\<close>

definition from_checked :: "env \<Rightarrow> wlayout \<Rightarrow> usize \<Rightarrow> byte list \<Rightarrow> (layout_error, input) res" where
  "from_checked E w addr bs =
     (if length bs \<noteq> wl_size w then Err (IncorrectSize (wl_size w) (length bs))
      else and_then (check_alignment w addr) (\<lambda>_.
        if ref_from_bytes E (wl_size w) (wl_align w) addr (length bs)
        then Ok \<lparr>i_addr = addr, i_bytes = bs, i_wire = w\<rparr>
        else Err (Misaligned (wl_align w) addr)))"

definition from_exact :: "env \<Rightarrow> wlayout \<Rightarrow> usize \<Rightarrow> byte list \<Rightarrow> (layout_error, input) res" where
  "from_exact E w addr bs = from_checked E w addr bs"

definition split_at_checked :: "usize \<Rightarrow> byte list \<Rightarrow> (byte list \<times> byte list) option" where
  "split_at_checked n bs = (if n \<le> length bs then Some (take n bs, drop n bs) else None)"

definition from_prefix :: "env \<Rightarrow> wlayout \<Rightarrow> usize \<Rightarrow> byte list \<Rightarrow> (layout_error, input \<times> byte list) res" where
  "from_prefix E w addr bs =
     (case split_at_checked (wl_size w) bs of
        None \<Rightarrow> Err (InsufficientBytes (wl_size w) (length bs))
      | Some (prefix, remainder) \<Rightarrow> and_then (from_checked E w addr prefix) (\<lambda>i. Ok (i, remainder)))"

definition is_all_zero :: "input \<Rightarrow> bool" where
  "is_all_zero i \<longleftrightarrow> all_zero (i_bytes i)"

definition subrange :: "env \<Rightarrow> wlayout \<Rightarrow> usize \<Rightarrow> input \<Rightarrow> (layout_error, input) res" where
  "subrange E f offset i =
     and_then (checked_range E (length (i_bytes i)) offset (wl_size f))
       (\<lambda>(a, b). from_checked E f (i_addr i + a) (slice a (b - a) (i_bytes i)))"

definition read_copy :: "env \<Rightarrow> wlayout \<Rightarrow> usize \<Rightarrow> input \<Rightarrow> (layout_error, byte list) res" where
  "read_copy E f offset i = and_then (subrange E f offset i) (\<lambda>selected. Ok (i_bytes selected))"

definition subrange_bytes :: "env \<Rightarrow> usize \<Rightarrow> usize \<Rightarrow> input \<Rightarrow> (layout_error, byte list) res" where
  "subrange_bytes E offset len i =
     and_then (checked_range E (length (i_bytes i)) offset len)
       (\<lambda>(a, b). Ok (slice a (b - a) (i_bytes i)))"

section \<open>Exclusive inputs\<close>

text \<open>\<open>shared\<close> and \<open>reborrow\<close> re-run the checks on the retained span and panic if they fail.\<close>

definition shared :: "env \<Rightarrow> input \<Rightarrow> ('e, input) res" where
  "shared E i = or_unreachable (from_checked E (i_wire i) (i_addr i) (i_bytes i))"

definition reborrow :: "env \<Rightarrow> input \<Rightarrow> ('e, input) res" where
  "reborrow E i = or_unreachable (from_checked E (i_wire i) (i_addr i) (i_bytes i))"

definition subrange_mut :: "env \<Rightarrow> wlayout \<Rightarrow> usize \<Rightarrow> input \<Rightarrow> (layout_error, input) res" where
  "subrange_mut E f offset i =
     and_then (checked_range E (length (i_bytes i)) offset (wl_size f))
       (\<lambda>(a, b). from_checked E f (i_addr i + a) (slice a (b - a) (i_bytes i)))"

definition write_back :: "usize \<Rightarrow> input \<Rightarrow> input \<Rightarrow> input" where
  "write_back offset child parent = parent\<lparr>i_bytes := overwrite offset (i_bytes child) (i_bytes parent)\<rparr>"

text \<open>A write through \<open>subrange_bytes_mut(offset, length)\<close> of bytes computed from the selected ones.\<close>

definition subrange_bytes_mut :: "env \<Rightarrow> usize \<Rightarrow> usize \<Rightarrow> (byte list \<Rightarrow> (layout_error, byte list) res) \<Rightarrow> input \<Rightarrow> (layout_error, input) res" where
  "subrange_bytes_mut E offset len f i =
     and_then (checked_range E (length (i_bytes i)) offset len)
       (\<lambda>(a, b). and_then (f (slice a (b - a) (i_bytes i)))
          (\<lambda>bs. Ok (i\<lparr>i_bytes := overwrite a bs (i_bytes i)\<rparr>)))"

definition clear_all :: "input \<Rightarrow> input" where
  "clear_all i = i\<lparr>i_bytes := replicate (length (i_bytes i)) 0\<rparr>"

section \<open>Receiving storage\<close>

record schema_buffer =
  sb_align :: nat
  sb_bytes :: "byte list"

definition schema_buffer_new :: "wlayout \<Rightarrow> nat \<Rightarrow> schema_buffer" where
  "schema_buffer_new w n = \<lparr>sb_align = wl_align w, sb_bytes = replicate n 0\<rparr>"

definition as_bytes :: "schema_buffer \<Rightarrow> byte list" where
  "as_bytes b = sb_bytes b"

section \<open>The input invariant\<close>

definition valid_wire :: "env \<Rightarrow> wlayout \<Rightarrow> bool" where
  "valid_wire E w \<longleftrightarrow> wf_layout w \<and> wl_size w < usize_limit E"

text \<open>A checked input: the span has its wire's size, is aligned for it and fits the address space.\<close>

definition input_ok :: "env \<Rightarrow> input \<Rightarrow> bool" where
  "input_ok E i \<longleftrightarrow> wf_layout (i_wire i) \<and> length (i_bytes i) = wl_size (i_wire i) \<and>
     wl_size (i_wire i) < usize_limit E \<and> wl_align (i_wire i) dvd i_addr i"

lemma input_okD:
  assumes "input_ok E i"
  shows input_ok_length: "length (i_bytes i) = wl_size (i_wire i)"
    and input_ok_limit: "length (i_bytes i) < usize_limit E"
    and input_ok_align: "wl_align (i_wire i) dvd i_addr i"
    and input_ok_wf: "wf_layout (i_wire i)"
  using assms by (simp_all add: input_ok_def)

lemma from_checked_Ok:
  "env_ok E \<Longrightarrow> from_checked E w addr bs = Ok i \<longleftrightarrow>
   length bs = wl_size w \<and> wl_align w dvd addr \<and> i = \<lparr>i_addr = addr, i_bytes = bs, i_wire = w\<rparr>"
  by (auto simp: from_checked_def check_alignment_def env_ref_from_bytes mod_eq_0_iff_dvd)

lemma from_checked_total: "from_checked E w addr bs \<noteq> Panic"
  by (auto simp: from_checked_def check_alignment_def)

lemma from_checked_input_ok:
  "env_ok E \<Longrightarrow> valid_wire E w \<Longrightarrow> from_checked E w addr bs = Ok i \<Longrightarrow> input_ok E i"
  by (auto simp: from_checked_Ok input_ok_def valid_wire_def)

text \<open>
  The prefix constructor proves exactly the leading wire-size bytes: too short a span is
  reported before any alignment test, the accepted input is the one the exact constructor builds on
  those bytes, and the remainder is returned untouched.
\<close>

theorem from_prefix_sound:
  assumes "env_ok E"
  shows "from_prefix E w addr bs =
    (if length bs < wl_size w then Err (InsufficientBytes (wl_size w) (length bs))
     else and_then (from_exact E w addr (take (wl_size w) bs)) (\<lambda>i. Ok (i, drop (wl_size w) bs))) \<and>
    (from_prefix E w addr bs = Ok (i, rest) \<longrightarrow> i_bytes i @ rest = bs \<and> length (i_bytes i) = wl_size w)"
  using assms
  by (auto simp: from_prefix_def split_at_checked_def from_exact_def from_checked_Ok split: if_splits)

theorem from_prefix_sound_witness:
  "from_prefix linux_x86_64 \<lparr>wl_size = 2, wl_align = 2\<rparr> 64 [1, 2, 3] =
     Ok (\<lparr>i_addr = 64, i_bytes = [1, 2], i_wire = \<lparr>wl_size = 2, wl_align = 2\<rparr>\<rparr>, [3])"
  using from_prefix_sound [OF env_ok_linux_x86_64, of "\<lparr>wl_size = 2, wl_align = 2\<rparr>" 64 "[1, 2, 3]"]
  by (simp add: from_exact_def from_checked_def check_alignment_def linux_x86_64_def)

section \<open>Selecting fields of a checked input\<close>

definition sub_input :: "wlayout \<Rightarrow> nat \<Rightarrow> input \<Rightarrow> input" where
  "sub_input f offset i = \<lparr>i_addr = i_addr i + offset, i_bytes = slice offset (wl_size f) (i_bytes i), i_wire = f\<rparr>"

lemma sub_input_sel [simp]:
  "i_addr (sub_input f offset i) = i_addr i + offset"
  "i_bytes (sub_input f offset i) = slice offset (wl_size f) (i_bytes i)"
  "i_wire (sub_input f offset i) = f"
  by (simp_all add: sub_input_def)

text \<open>The placement facts a generated field has: inside the wire and aligned for its type.\<close>

definition field_fits :: "wlayout \<Rightarrow> nat \<Rightarrow> wlayout \<Rightarrow> bool" where
  "field_fits f offset w \<longleftrightarrow> wf_layout f \<and> offset + wl_size f \<le> wl_size w \<and>
     wl_align f dvd offset \<and> wl_align f dvd wl_align w"

lemma subrange_Ok:
  assumes "env_ok E" "input_ok E i" "field_fits f offset (i_wire i)"
  shows "subrange E f offset i = Ok (sub_input f offset i)"
proof -
  have "wl_align f dvd i_addr i + offset"
    using assms by (meson dvd_add dvd_trans field_fits_def input_ok_align)
  moreover have bound: "offset + wl_size f \<le> length (i_bytes i)"
    using assms by (simp add: field_fits_def input_ok_length)
  moreover have "checked_range E (length (i_bytes i)) offset (wl_size f) = Ok (offset, offset + wl_size f)"
    using assms(2) bound by (simp add: checked_range_Ok input_ok_limit)
  ultimately show ?thesis
    using assms(1) by (simp add: subrange_def from_checked_Ok sub_input_def)
qed

lemma subrange_mut_eq: "subrange_mut = subrange"
  by (intro ext) (simp add: subrange_mut_def subrange_def)

lemma subrange_total: "subrange E f offset i \<noteq> Panic"
  by (auto simp: subrange_def checked_range_total from_checked_total split: prod.splits)

lemma sub_input_ok: "input_ok E i \<Longrightarrow> field_fits f offset (i_wire i) \<Longrightarrow> input_ok E (sub_input f offset i)"
  by (auto simp: input_ok_def field_fits_def intro: dvd_trans)

lemma shared_Ok: "env_ok E \<Longrightarrow> input_ok E i \<Longrightarrow> shared E i = Ok i"
  by (simp add: shared_def from_checked_Ok input_ok_def)

lemma reborrow_Ok: "env_ok E \<Longrightarrow> input_ok E i \<Longrightarrow> reborrow E i = Ok i"
  by (simp add: reborrow_def from_checked_Ok input_ok_def)

lemma subrange_bytes_Ok:
  "input_ok E i \<Longrightarrow> offset + len \<le> length (i_bytes i) \<Longrightarrow> subrange_bytes E offset len i = Ok (slice offset len (i_bytes i))"
  by (simp add: subrange_bytes_def checked_range_def checked_add_def input_ok_def)

lemma subrange_bytes_mut_Ok:
  assumes "input_ok E i" "offset + len \<le> length (i_bytes i)"
    "f (slice offset len (i_bytes i)) = Ok bs"
  shows "subrange_bytes_mut E offset len f i = Ok (i\<lparr>i_bytes := overwrite offset bs (i_bytes i)\<rparr>)"
  using assms by (simp add: subrange_bytes_mut_def checked_range_def checked_add_def input_ok_def)

lemma read_copy_Ok:
  "env_ok E \<Longrightarrow> input_ok E i \<Longrightarrow> field_fits f offset (i_wire i) \<Longrightarrow>
   read_copy E f offset i = Ok (slice offset (wl_size f) (i_bytes i))"
  by (simp add: read_copy_def subrange_Ok)

lemma field_fits_whole [simp]: "wf_layout w \<Longrightarrow> field_fits w 0 w"
  by (simp add: field_fits_def)

lemma sub_input_whole: "input_ok E i \<Longrightarrow> sub_input (i_wire i) 0 i = i"
  by (cases i) (auto simp: sub_input_def input_ok_def slice_whole)

lemma repr_c_field_fits:
  "\<forall>l \<in> set ls. wf_layout l \<Longrightarrow> k < length ls \<Longrightarrow> field_fits (ls ! k) (place 0 ls ! k) (repr_c ls)"
  by (simp add: field_fits_def repr_c_bound place_aligned max_align_dvd)

lemma union_member_fits: "\<forall>l \<in> set ls. wf_layout l \<Longrightarrow> m \<in> set ls \<Longrightarrow> field_fits m 0 (repr_c_union ls)"
  by (simp add: field_fits_def repr_c_union_bound max_align_dvd)

lemma array_element_fits:
  "wf_layout l \<Longrightarrow> k < n \<Longrightarrow> field_fits l (k * wl_size l) (array_layout n l)"
proof -
  assume l: "wf_layout l" and k: "k < n"
  have "k * wl_size l + wl_size l = Suc k * wl_size l" by simp
  also have "\<dots> \<le> n * wl_size l" using k by (intro mult_le_mono1) simp
  finally show ?thesis using l by (simp add: field_fits_def array_layout_def wf_layout_def)
qed

lemma aligned_value_fits:
  "wf_layout l \<Longrightarrow> a = 2 ^ k \<Longrightarrow> field_fits l (aligned_value_offset l a) (aligned_layout l a)"
  by (simp add: field_fits_def aligned_size_ge aligned_align_dvd)

lemma str_prefix_fits: "env_ok E \<Longrightarrow> field_fits (prim_layout E (repr_prim r)) 0 (str_layout E r n)"
  using repr_c_field_fits [of "str_members E r n" 0]
  by (simp add: str_layout_def) (simp add: str_members_def Let_def)

lemma u16_str_prefix_fits: "env_ok E \<Longrightarrow> field_fits (prim_layout E (repr_prim r)) 0 (u16_str_layout E r n)"
  using repr_c_field_fits [of "u16_str_members E r n" 0]
  by (simp add: u16_str_layout_def) (simp add: u16_str_members_def Let_def)

lemma field_fits_trans:
  "field_fits g b f \<Longrightarrow> field_fits f a w \<Longrightarrow> field_fits g (a + b) w"
  by (auto simp: field_fits_def intro: dvd_trans dvd_add)

section \<open>Writing through a field\<close>

text \<open>Same span: what every mutation keeps of an input.\<close>

definition same_span :: "input \<Rightarrow> input \<Rightarrow> bool" where
  "same_span i j \<longleftrightarrow> i_addr i = i_addr j \<and> i_wire i = i_wire j \<and> length (i_bytes i) = length (i_bytes j)"

lemma same_span_refl [simp]: "same_span i i"
  by (simp add: same_span_def)

lemma same_span_trans: "same_span i j \<Longrightarrow> same_span j k \<Longrightarrow> same_span i k"
  by (simp add: same_span_def)

lemma same_span_sym: "same_span i j \<Longrightarrow> same_span j i"
  by (simp add: same_span_def)

lemma same_span_input_ok: "same_span i j \<Longrightarrow> input_ok E i \<Longrightarrow> input_ok E j"
  by (simp add: same_span_def input_ok_def)

lemma same_span_wire: "same_span i j \<Longrightarrow> i_wire j = i_wire i"
  by (simp add: same_span_def)

lemma same_span_length: "same_span i j \<Longrightarrow> length (i_bytes j) = length (i_bytes i)"
  by (simp add: same_span_def)

lemma same_span_clear_all [simp]: "same_span i (clear_all i)"
  by (simp add: same_span_def clear_all_def)

lemma clear_all_is_zero [simp]: "is_all_zero (clear_all i)"
  by (simp add: is_all_zero_def clear_all_def)

lemma write_back_same_span:
  "same_span (sub_input f offset i) c \<Longrightarrow> offset + wl_size f \<le> length (i_bytes i) \<Longrightarrow> same_span i (write_back offset c i)"
  by (auto simp: same_span_def write_back_def)

lemma sub_input_write_back:
  assumes "same_span (sub_input f offset i) c" "offset + wl_size f \<le> length (i_bytes i)"
  shows "sub_input f offset (write_back offset c i) = c"
  using assms by (auto simp: same_span_def write_back_def sub_input_def slice_overwrite_eq intro!: input.equality)

lemma sub_input_write_back_other:
  assumes "same_span (sub_input f offset i) c" "offset + wl_size f \<le> length (i_bytes i)"
    and "b + wl_size g \<le> length (i_bytes i)" "b + wl_size g \<le> offset \<or> offset + wl_size f \<le> b"
  shows "sub_input g b (write_back offset c i) = sub_input g b i"
  using assms by (auto simp: same_span_def write_back_def sub_input_def slice_overwrite_disjoint)

lemma write_back_id:
  "offset + wl_size f \<le> length (i_bytes i) \<Longrightarrow> write_back offset (sub_input f offset i) i = i"
  by (simp add: write_back_def)

lemmas write_back_simps = sub_input_write_back sub_input_write_back_other write_back_id

end
