(* ===== verification/Zs_Strings.thy ===== *)
theory Zs_Strings
  imports Zs_Access
begin

text \<open>
  Bounded strings, \<open>src/src/strings.rs\<close>: the proofs of the four string forms, the preflight of a
  replacement and its commit. The standard library's UTF-8 check is modelled from its definition;
  widestring's terminator scan is the parameter \<open>from_slice_truncate\<close>. Logical values: a \<open>str\<close> is
  its UTF-8 bytes, a \<open>CStr\<close> its bytes before the nul, the wide forms their 16-bit units.
\<close>

section \<open>UTF-8\<close>

record utf8_error =
  valid_up_to :: nat
  error_len :: "nat option"

text \<open>The length of the well-formed character at the head of the bytes, or the error length there.\<close>

definition utf8_continuation :: "byte \<Rightarrow> bool" where
  "utf8_continuation b \<longleftrightarrow> 0x80 \<le> b \<and> b \<le> 0xBF"

definition utf8_char_width :: "byte \<Rightarrow> nat" where
  "utf8_char_width b = (if b \<le> 0x7F then 1 else if 0xC2 \<le> b \<and> b \<le> 0xDF then 2
     else if 0xE0 \<le> b \<and> b \<le> 0xEF then 3 else if 0xF0 \<le> b \<and> b \<le> 0xF4 then 4 else 0)"

definition utf8_second3 :: "byte \<Rightarrow> byte \<Rightarrow> bool" where
  "utf8_second3 a b \<longleftrightarrow> (a = 0xE0 \<and> 0xA0 \<le> b \<and> b \<le> 0xBF) \<or> (0xE1 \<le> a \<and> a \<le> 0xEC \<and> utf8_continuation b)
     \<or> (a = 0xED \<and> 0x80 \<le> b \<and> b \<le> 0x9F) \<or> (0xEE \<le> a \<and> a \<le> 0xEF \<and> utf8_continuation b)"

definition utf8_second4 :: "byte \<Rightarrow> byte \<Rightarrow> bool" where
  "utf8_second4 a b \<longleftrightarrow> (a = 0xF0 \<and> 0x90 \<le> b \<and> b \<le> 0xBF) \<or> (0xF1 \<le> a \<and> a \<le> 0xF3 \<and> utf8_continuation b)
     \<or> (a = 0xF4 \<and> 0x80 \<le> b \<and> b \<le> 0x8F)"

text \<open>The remaining bytes of one character: each must satisfy its test; \<open>k\<close> counts the bytes read.\<close>

fun utf8_rest :: "(byte \<Rightarrow> bool) list \<Rightarrow> nat \<Rightarrow> byte list \<Rightarrow> (nat option, nat) res" where
  "utf8_rest [] k bs = Ok k"
| "utf8_rest (t # ts) k [] = Err None"
| "utf8_rest (t # ts) k (b # bs) = (if t b then utf8_rest ts (Suc k) bs else Err (Some k))"

definition utf8_char :: "byte \<Rightarrow> byte list \<Rightarrow> (nat option, nat) res" where
  "utf8_char a bs =
     (let w = utf8_char_width a in
      if w = 1 then Ok 1
      else if w = 2 then utf8_rest [utf8_continuation] 1 bs
      else if w = 3 then utf8_rest [utf8_second3 a, utf8_continuation] 1 bs
      else if w = 4 then utf8_rest [utf8_second4 a, utf8_continuation, utf8_continuation] 1 bs
      else Err (Some 1))"

lemma utf8_rest_ge: "utf8_rest ts k bs = Ok n \<Longrightarrow> k \<le> n"
  by (induction ts k bs rule: utf8_rest.induct) (auto split: if_splits)

lemma utf8_char_pos: "utf8_char a bs = Ok n \<Longrightarrow> 0 < n"
  by (auto simp: utf8_char_def Let_def dest: utf8_rest_ge split: if_splits)

function utf8_scan :: "nat \<Rightarrow> byte list \<Rightarrow> (utf8_error, unit) res" where
  "utf8_scan pos [] = Ok ()"
| "utf8_scan pos (a # bs) =
     (case utf8_char a bs of
        Ok n \<Rightarrow> utf8_scan (pos + n) (drop n (a # bs))
      | Err e \<Rightarrow> Err \<lparr>valid_up_to = pos, error_len = e\<rparr>
      | Panic \<Rightarrow> Panic)"
  by pat_completeness auto
termination
  by (relation "measure (\<lambda>(pos, bs). length bs)") (auto dest: utf8_char_pos)

definition from_utf8 :: "byte list \<Rightarrow> (utf8_error, byte list) res" where
  "from_utf8 bs = and_then (utf8_scan 0 bs) (\<lambda>_. Ok bs)"

definition utf8_valid :: "byte list \<Rightarrow> bool" where
  "utf8_valid bs \<longleftrightarrow> is_ok (from_utf8 bs)"

lemma utf8_rest_total: "utf8_rest ts k bs \<noteq> Panic"
  by (induction ts k bs rule: utf8_rest.induct) auto

lemma utf8_scan_total: "utf8_scan pos bs \<noteq> Panic"
  by (induction pos bs rule: utf8_scan.induct)
    (auto simp: utf8_char_def Let_def utf8_rest_total split: res.splits if_splits)

lemma from_utf8_Ok: "from_utf8 bs = Ok x \<longleftrightarrow> utf8_valid bs \<and> x = bs"
  by (auto simp: utf8_valid_def from_utf8_def is_ok_iff)

lemma from_utf8_total: "from_utf8 bs \<noteq> Panic"
  by (simp add: from_utf8_def utf8_scan_total)

lemma utf8_valid_Nil [simp]: "utf8_valid []"
  by (simp add: utf8_valid_def from_utf8_def)

section \<open>Errors\<close>

datatype string_proof_error =
    LengthOutOfBounds usize usize
  | InvalidUtf8 utf8_error
  | MissingNul

datatype string_mutation_error =
    CapacityExceeded usize usize
  | LengthUnrepresentable usize
  | PrefixSize usize usize
  | WideByteSize usize
  | StringLayout layout_error

fun invalid_utf8_source :: "string_proof_error \<Rightarrow> utf8_error option" where
  "invalid_utf8_source (InvalidUtf8 source) = Some source"
| "invalid_utf8_source _ = None"

section \<open>Proofs\<close>

type_synonym length_wire = "endian \<times> scalar_repr"

definition active_length :: "env \<Rightarrow> length_wire \<Rightarrow> byte list \<Rightarrow> usize \<Rightarrow> (string_proof_error, usize) res" where
  "active_length E L prefix capacity =
     (case length_load E (fst L) (snd L) prefix of
        None \<Rightarrow> Err (LengthOutOfBounds (usize_limit E - 1) capacity)
      | Some len \<Rightarrow> if len > capacity then Err (LengthOutOfBounds len capacity) else Ok len)"

definition prove_str :: "env \<Rightarrow> length_wire \<Rightarrow> byte list \<Rightarrow> byte list \<Rightarrow> (string_proof_error, byte list) res" where
  "prove_str E L prefix data =
     and_then (active_length E L prefix (length data)) (\<lambda>len.
       if len \<le> length data then map_err InvalidUtf8 (from_utf8 (take len data)) else Panic)"

definition prove_c_str :: "byte list \<Rightarrow> (string_proof_error, byte list) res" where
  "prove_c_str data = (if List.member data 0 then Ok (takeWhile (\<lambda>b. b \<noteq> 0) data) else Err MissingNul)"

definition prove_u16_str :: "env \<Rightarrow> length_wire \<Rightarrow> byte list \<Rightarrow> 16 word list \<Rightarrow> (string_proof_error, 16 word list) res" where
  "prove_u16_str E L prefix units =
     and_then (active_length E L prefix (length units)) (\<lambda>len.
       if len \<le> length units then Ok (take len units) else Panic)"

definition prove_u16_c_str :: "env \<Rightarrow> 16 word list \<Rightarrow> (string_proof_error, 16 word list) res" where
  "prove_u16_c_str E units =
     (case from_slice_truncate E units of Some s \<Rightarrow> Ok s | None \<Rightarrow> Err MissingNul)"

text \<open>The units of a wide field: its bytes as \<open>[u16; N]\<close> in native order.\<close>

fun units_of :: "env \<Rightarrow> byte list \<Rightarrow> 16 word list" where
  "units_of E (a # b # bs) = word_of_nat (decode_bytes E Native [a, b]) # units_of E bs"
| "units_of E bs = []"

definition prove_u16_str_bytes :: "env \<Rightarrow> length_wire \<Rightarrow> nat \<Rightarrow> byte list \<Rightarrow> usize \<Rightarrow> byte list \<Rightarrow> (string_proof_error, 16 word list) res" where
  "prove_u16_str_bytes E L n prefix addr bs =
     (if ref_from_bytes E (2 * n) (prim_align E U16) addr (length bs)
      then prove_u16_str E L prefix (units_of E bs) else Panic)"

definition prove_u16_c_str_bytes :: "env \<Rightarrow> nat \<Rightarrow> usize \<Rightarrow> byte list \<Rightarrow> (string_proof_error, 16 word list) res" where
  "prove_u16_c_str_bytes E n addr bs =
     (if ref_from_bytes E (2 * n) (prim_align E U16) addr (length bs)
      then prove_u16_c_str E (units_of E bs) else Panic)"

section \<open>Preflight and commit\<close>

definition preflight_length_prefixed :: "length_wire \<Rightarrow> usize \<Rightarrow> usize \<Rightarrow> usize \<Rightarrow> (string_mutation_error, unit) res" where
  "preflight_length_prefixed L len capacity prefix_size =
     (if prefix_size \<noteq> scalar_width (snd L) then Err (PrefixSize (scalar_width (snd L)) prefix_size)
      else if len > capacity then Err (CapacityExceeded len capacity)
      else if \<not> length_represents (snd L) len then Err (LengthUnrepresentable len)
      else Ok ())"

definition wide_capacity :: "byte list \<Rightarrow> (string_mutation_error, usize) res" where
  "wide_capacity bs = (if length bs mod 2 \<noteq> 0 then Err (WideByteSize (length bs)) else Ok (length bs div 2))"

fun store_native_u16s :: "env \<Rightarrow> byte list \<Rightarrow> 16 word list \<Rightarrow> byte list" where
  "store_native_u16s E (a # b # ds) (u # us) = encode_bytes E Native 2 (unat u) @ store_native_u16s E ds us"
| "store_native_u16s E ds us = ds"

definition preflight_str :: "length_wire \<Rightarrow> byte list \<Rightarrow> byte list \<Rightarrow> byte list \<Rightarrow> (string_mutation_error, unit) res" where
  "preflight_str L prefix data s = preflight_length_prefixed L (length s) (length data) (length prefix)"

text \<open>\<open>data[..n].copy_from_slice(..)\<close> panics when \<open>n\<close> is out of range.\<close>

definition write_active :: "byte list \<Rightarrow> byte list \<Rightarrow> ('e, byte list) res" where
  "write_active data bs = (if length bs \<le> length data then Ok (overwrite 0 bs data) else Panic)"

definition commit_str :: "env \<Rightarrow> length_wire \<Rightarrow> byte list \<Rightarrow> byte list \<Rightarrow> byte list \<Rightarrow> ('e, byte list \<times> byte list) res" where
  "commit_str E L prefix data s =
     and_then (write_active data s) (\<lambda>data'.
     and_then (length_store_preflighted E (fst L) (snd L) (length s) prefix) (\<lambda>prefix'.
       Ok (prefix', data')))"

definition set_str :: "env \<Rightarrow> length_wire \<Rightarrow> byte list \<Rightarrow> byte list \<Rightarrow> byte list \<Rightarrow> (string_mutation_error, byte list \<times> byte list) res" where
  "set_str E L prefix data s =
     and_then (preflight_str L prefix data s) (\<lambda>_. commit_str E L prefix data s)"

definition preflight_u16_str :: "length_wire \<Rightarrow> byte list \<Rightarrow> byte list \<Rightarrow> 16 word list \<Rightarrow> (string_mutation_error, unit) res" where
  "preflight_u16_str L prefix data s =
     and_then (wide_capacity data) (\<lambda>capacity. preflight_length_prefixed L (length s) capacity (length prefix))"

definition write_active_u16 :: "env \<Rightarrow> byte list \<Rightarrow> 16 word list \<Rightarrow> ('e, byte list) res" where
  "write_active_u16 E data us =
     (if 2 * length us \<le> length data
      then Ok (overwrite 0 (store_native_u16s E (take (2 * length us) data) us) data) else Panic)"

definition commit_u16_str :: "env \<Rightarrow> length_wire \<Rightarrow> byte list \<Rightarrow> byte list \<Rightarrow> 16 word list \<Rightarrow> ('e, byte list \<times> byte list) res" where
  "commit_u16_str E L prefix data s =
     and_then (write_active_u16 E data s) (\<lambda>data'.
     and_then (length_store_preflighted E (fst L) (snd L) (length s) prefix) (\<lambda>prefix'.
       Ok (prefix', data')))"

definition set_u16_str :: "env \<Rightarrow> length_wire \<Rightarrow> byte list \<Rightarrow> byte list \<Rightarrow> 16 word list \<Rightarrow> (string_mutation_error, byte list \<times> byte list) res" where
  "set_u16_str E L prefix data s =
     and_then (preflight_u16_str L prefix data s) (\<lambda>_. commit_u16_str E L prefix data s)"

definition preflight_c_str :: "byte list \<Rightarrow> byte list \<Rightarrow> (string_mutation_error, unit) res" where
  "preflight_c_str data s = (let bs = s @ [0] in
     if length bs > length data then Err (CapacityExceeded (length bs) (length data)) else Ok ())"

definition commit_c_str :: "byte list \<Rightarrow> byte list \<Rightarrow> ('e, byte list) res" where
  "commit_c_str data s = write_active data (s @ [0])"

definition set_c_str :: "byte list \<Rightarrow> byte list \<Rightarrow> (string_mutation_error, byte list) res" where
  "set_c_str data s = and_then (preflight_c_str data s) (\<lambda>_. commit_c_str data s)"

definition preflight_u16_c_str :: "byte list \<Rightarrow> 16 word list \<Rightarrow> (string_mutation_error, unit) res" where
  "preflight_u16_c_str data s =
     and_then (wide_capacity data) (\<lambda>capacity. let units = s @ [0] in
       if length units > capacity then Err (CapacityExceeded (length units) capacity) else Ok ())"

definition commit_u16_c_str :: "env \<Rightarrow> byte list \<Rightarrow> 16 word list \<Rightarrow> ('e, byte list) res" where
  "commit_u16_c_str E data s = write_active_u16 E data (s @ [0])"

definition set_u16_c_str :: "env \<Rightarrow> byte list \<Rightarrow> 16 word list \<Rightarrow> (string_mutation_error, byte list) res" where
  "set_u16_c_str E data s = and_then (preflight_u16_c_str data s) (\<lambda>_. commit_u16_c_str E data s)"

section \<open>Units and bytes\<close>

lemma length_units_of [simp]: "length (units_of E bs) = length bs div 2"
  by (induction E bs rule: units_of.induct) auto

lemma length_store_native_u16s [simp]: "length (store_native_u16s E ds us) = length ds"
  by (induction E ds us rule: store_native_u16s.induct) auto

lemma decode_two: "word_of_nat (decode_bytes E Native (encode_bytes E Native 2 (unat u))) = (u :: 16 word)"
proof -
  have "unat u < 2 ^ LENGTH(16)" by (rule unsigned_less)
  then show ?thesis by simp
qed

lemma encode_two_split: "\<exists>a b. encode_bytes E Native 2 v = [a, b]"
  using length_encode_bytes [of E Native 2 v]
  by (metis (no_types, lifting) length_0_conv length_Suc_conv numeral_2_eq_2)

lemma units_of_encode: "units_of E (encode_bytes E Native 2 (unat u) @ bs) = u # units_of E bs"
proof -
  obtain a b where ab: "encode_bytes E Native 2 (unat u) = [a, b]"
    using encode_two_split by blast
  then have "word_of_nat (decode_bytes E Native [a, b]) = u"
    using decode_two [of E u] by simp
  with ab show ?thesis by simp
qed

lemma units_of_store:
  "length ds = 2 * length us \<Longrightarrow> units_of E (store_native_u16s E ds us @ rest) = us @ units_of E rest"
proof (induction E ds us rule: store_native_u16s.induct)
  case (1 E a b ds u us)
  then show ?case by (simp add: units_of_encode)
qed auto

lemma units_of_0: "units_of E (replicate n 0) = replicate (n div 2) 0"
proof (induction n rule: less_induct)
  case (less n)
  show ?case
  proof (cases "n < 2")
    case True
    then show ?thesis by (cases n) auto
  next
    case False
    then obtain k where n: "n = Suc (Suc k)" by (metis Suc_1 add_2_eq_Suc le_add_diff_inverse not_less)
    have "decode_bytes E Native [0, 0] = 0"
      using decode_bytes_0 [of E Native 2] by (simp add: numeral_2_eq_2)
    with n less [of k] show ?thesis by simp
  qed
qed

section \<open>Correctness of the four forms\<close>

lemma active_length_Ok:
  "env_ok E \<Longrightarrow> length prefix = scalar_width (snd L) \<Longrightarrow>
   active_length E L prefix capacity =
     (let len = wire_get E (fst L, repr_prim (snd L)) prefix in
      if len > capacity then Err (LengthOutOfBounds len capacity) else Ok len)"
  by (simp add: active_length_def length_load_total Let_def)

lemma prove_str_total: "prove_str E L prefix data \<noteq> Panic"
  by (auto simp: prove_str_def active_length_def from_utf8_total split: option.splits if_splits)

lemma prove_u16_str_total: "prove_u16_str E L prefix units \<noteq> Panic"
  by (auto simp: prove_u16_str_def active_length_def split: option.splits if_splits)

lemma prove_u16_c_str_eq:
  "env_ok E \<Longrightarrow> prove_u16_c_str E units =
     (if 0 \<in> set units then Ok (takeWhile (\<lambda>u. u \<noteq> 0) units) else Err MissingNul)"
  by (simp add: prove_u16_c_str_def env_from_slice_truncate)

lemma preflight_length_prefixed_Ok:
  "preflight_length_prefixed L len capacity prefix_size = Ok () \<longleftrightarrow>
   prefix_size = scalar_width (snd L) \<and> len \<le> capacity \<and> length_represents (snd L) len"
  by (simp add: preflight_length_prefixed_def)

text \<open>The stored prefix of an accepted length.\<close>

definition length_prefix :: "env \<Rightarrow> length_wire \<Rightarrow> usize \<Rightarrow> byte list" where
  "length_prefix E L n = wire_new E (fst L, repr_prim (snd L)) n"

lemma length_length_prefix [simp]: "length (length_prefix E L n) = scalar_width (snd L)"
  by (simp add: length_prefix_def scalar_width_def)

lemma length_store_prefix:
  "length prefix = scalar_width (snd L) \<Longrightarrow> length_represents (snd L) n \<Longrightarrow>
   length_store_preflighted E (fst L) (snd L) n prefix = Ok (length_prefix E L n)"
  by (simp add: length_store_preflighted_def wire_store_preflighted_Ok scalar_width_def
      length_represents_def length_prefix_def)

lemma length_load_prefix:
  assumes "env_ok E" "length_represents (snd L) n"
  shows "length_load E (fst L) (snd L) (length_prefix E L n) = Some n"
  using assms
  by (simp add: length_load_total length_prefix_def wire_get_def wire_new_def length_represents_def scalar_width_def)

lemma commit_str_Ok:
  assumes "preflight_str L prefix data s = Ok ()"
  shows "commit_str E L prefix data s = Ok (length_prefix E L (length s), s @ drop (length s) data)"
  using assms
  by (simp add: preflight_str_def preflight_length_prefixed_Ok commit_str_def write_active_def
      length_store_prefix overwrite_def)

lemma prove_str_committed:
  assumes "length_load E (fst L) (snd L) prefix = Some (length s)" "take (length s) data = s"
    "length s \<le> length data" "utf8_valid s"
  shows "prove_str E L prefix data = Ok s"
  using assms by (simp add: prove_str_def active_length_def from_utf8_Ok)

text \<open>
  C21. Setting a length-prefixed string: the write is rejected before any byte changes when the prefix
  slice, the capacity or the prefix width does not admit the value (checked in that order); an accepted
  write reads back as the value and keeps the unused capacity byte for byte.
\<close>

theorem set_str_correct:
  assumes "env_ok E" and "utf8_valid s"
  shows "(case set_str E L prefix data s of
      Ok (prefix', data') \<Rightarrow> prove_str E L prefix' data' = Ok s \<and> length prefix' = length prefix \<and>
        length data' = length data \<and> drop (length s) data' = drop (length s) data
    | Err e \<Rightarrow> e = (if length prefix \<noteq> scalar_width (snd L) then PrefixSize (scalar_width (snd L)) (length prefix)
        else if length data < length s then CapacityExceeded (length s) (length data)
        else LengthUnrepresentable (length s)) \<and> preflight_str L prefix data s = Err e
    | Panic \<Rightarrow> False) \<and>
   (is_ok (set_str E L prefix data s) \<longleftrightarrow> length prefix = scalar_width (snd L) \<and>
      length s \<le> length data \<and> length_represents (snd L) (length s))"
proof (cases "preflight_str L prefix data s")
  case (Ok u)
  then have pre: "preflight_str L prefix data s = Ok ()" by simp
  then have fits: "length prefix = scalar_width (snd L)" "length s \<le> length data"
    "length_represents (snd L) (length s)"
    by (simp_all add: preflight_str_def preflight_length_prefixed_Ok)
  with assms pre show ?thesis
    by (simp add: set_str_def commit_str_Ok prove_str_committed length_load_prefix)
next
  case (Err e)
  then show ?thesis
    by (auto simp: set_str_def preflight_str_def preflight_length_prefixed_def split: if_splits)
next
  case Panic
  then show ?thesis by (auto simp: preflight_str_def preflight_length_prefixed_def split: if_splits)
qed

theorem set_str_correct_witness:
  "is_ok (set_str linux_x86_64 (Little, ReprU8) [0xA5] [0xEE, 0xEE, 0xEE, 0xEE] [0x68, 0x69])"
proof -
  have "utf8_valid [0x68, 0x69]" by code_simp
  from set_str_correct [OF env_ok_linux_x86_64 this, of "(Little, ReprU8)" "[0xA5]" "[0xEE, 0xEE, 0xEE, 0xEE]"]
  show ?thesis by (simp add: scalar_width_def length_represents_def)
qed

lemma takeWhile_nul: "0 \<notin> set s \<Longrightarrow> takeWhile (\<lambda>b. b \<noteq> 0) (s @ 0 # rest) = s"
  by (induction s) auto

text \<open>
  Setting a C string: rejected exactly when the value with its terminator exceeds the storage, and
  then nothing changes; an accepted write reads back as the value and keeps the bytes after the
  terminator.
\<close>

theorem set_c_str_correct:
  assumes "0 \<notin> set s"
  shows "set_c_str data s =
    (if length data < length s + 1 then Err (CapacityExceeded (length s + 1) (length data))
     else Ok (s @ 0 # drop (length s + 1) data)) \<and>
    (\<forall>data'. set_c_str data s = Ok data' \<longrightarrow> prove_c_str data' = Ok s \<and> length data' = length data)"
proof -
  have "set_c_str data s =
    (if length data < length s + 1 then Err (CapacityExceeded (length s + 1) (length data))
     else Ok (s @ 0 # drop (length s + 1) data))"
    by (auto simp: set_c_str_def preflight_c_str_def commit_c_str_def write_active_def overwrite_def Let_def)
  with assms show ?thesis by (auto simp: prove_c_str_def takeWhile_nul)
qed

theorem set_c_str_correct_witness:
  "set_c_str [0xEE, 0xEE, 0xEE, 0xEE, 0xEE] [0x6F, 0x6B] = Ok [0x6F, 0x6B, 0, 0xEE, 0xEE]"
proof -
  have "(0 :: byte) \<notin> set [0x6F, 0x6B]" by simp
  from set_c_str_correct [OF this, of "[0xEE, 0xEE, 0xEE, 0xEE, 0xEE]"] show ?thesis by simp
qed

lemma commit_u16_str_Ok:
  assumes "preflight_u16_str L prefix data s = Ok ()"
  shows "commit_u16_str E L prefix data s = Ok (length_prefix E L (length s),
    store_native_u16s E (take (2 * length s) data) s @ drop (2 * length s) data)"
    and "even (length data)" "length s \<le> length data div 2" "length_represents (snd L) (length s)"
    "length prefix = scalar_width (snd L)"
  using assms
  by (auto simp: preflight_u16_str_def wide_capacity_def preflight_length_prefixed_Ok commit_u16_str_def
      write_active_u16_def length_store_prefix overwrite_def split: if_splits)

lemma units_of_drop: "even (length bs) \<Longrightarrow> units_of E (drop (2 * n) bs) = drop n (units_of E bs)"
proof (induction E bs arbitrary: n rule: units_of.induct)
  case (1 E a b bs)
  then show ?case by (cases n) auto
qed auto

lemma units_of_written:
  assumes "even (length data)" "length us \<le> length data div 2"
  shows "units_of E (store_native_u16s E (take (2 * length us) data) us @ drop (2 * length us) data) =
    us @ drop (length us) (units_of E data)"
proof -
  have "length (take (2 * length us) data) = 2 * length us" using assms by simp
  then show ?thesis using assms(1) by (simp add: units_of_store units_of_drop)
qed

lemma prove_u16_str_committed:
  assumes "length_load E (fst L) (snd L) prefix = Some (length s)" "units_of E data = s @ rest"
  shows "prove_u16_str E L prefix (units_of E data) = Ok s"
  using assms by (simp add: prove_u16_str_def active_length_def)

lemma commit_u16_c_str_Ok:
  assumes "preflight_u16_c_str data s = Ok ()"
  shows "commit_u16_c_str E data s =
    Ok (store_native_u16s E (take (2 * length (s @ [0])) data) (s @ [0]) @ drop (2 * length (s @ [0])) data)"
    and "even (length data)" "length (s @ [0]) \<le> length data div 2"
  using assms
  by (auto simp: preflight_u16_c_str_def wide_capacity_def commit_u16_c_str_def write_active_u16_def
      overwrite_def Let_def split: if_splits)

text \<open>
  The wide forms: a set of a length-prefixed or nul-terminated \<open>u16\<close> string that passes its
  preflight commits without panicking, reads back as the value through the units of the new storage,
  and keeps every byte after the active units; an odd byte span is rejected first.
\<close>

theorem set_u16_correct:
  assumes "env_ok E"
  shows "(case set_u16_str E L prefix data s of
      Ok (prefix', data') \<Rightarrow> prove_u16_str E L prefix' (units_of E data') = Ok s \<and>
        length data' = length data \<and> drop (2 * length s) data' = drop (2 * length s) data
    | Err e \<Rightarrow> (odd (length data) \<longrightarrow> e = WideByteSize (length data))
    | Panic \<Rightarrow> False) \<and>
   (0 \<notin> set s \<longrightarrow> (case set_u16_c_str E data s of
      Ok data' \<Rightarrow> prove_u16_c_str E (units_of E data') = Ok s \<and>
        length data' = length data \<and> drop (2 * Suc (length s)) data' = drop (2 * Suc (length s)) data
    | Err e \<Rightarrow> e = (if odd (length data) then WideByteSize (length data)
                    else CapacityExceeded (Suc (length s)) (length data div 2))
    | Panic \<Rightarrow> False))"
proof (intro conjI impI)
  show "case set_u16_str E L prefix data s of
      Ok (prefix', data') \<Rightarrow> prove_u16_str E L prefix' (units_of E data') = Ok s \<and>
        length data' = length data \<and> drop (2 * length s) data' = drop (2 * length s) data
    | Err e \<Rightarrow> (odd (length data) \<longrightarrow> e = WideByteSize (length data))
    | Panic \<Rightarrow> False"
  proof (cases "preflight_u16_str L prefix data s = Ok ()")
    case True
    note c = commit_u16_str_Ok [OF True]
    have "prove_u16_str E L (length_prefix E L (length s))
        (units_of E (store_native_u16s E (take (2 * length s) data) s @ drop (2 * length s) data)) = Ok s"
      using c assms by (intro prove_u16_str_committed) (simp_all add: length_load_prefix units_of_written)
    with True c(3) show ?thesis by (simp add: set_u16_str_def c(1))
  next
    case False
    then show ?thesis
      by (auto simp: set_u16_str_def preflight_u16_str_def wide_capacity_def preflight_length_prefixed_def
          odd_iff_mod_2_eq_one split: if_splits)
  qed
next
  assume s: "0 \<notin> set s"
  show "case set_u16_c_str E data s of
      Ok data' \<Rightarrow> prove_u16_c_str E (units_of E data') = Ok s \<and>
        length data' = length data \<and> drop (2 * Suc (length s)) data' = drop (2 * Suc (length s)) data
    | Err e \<Rightarrow> e = (if odd (length data) then WideByteSize (length data)
                    else CapacityExceeded (Suc (length s)) (length data div 2))
    | Panic \<Rightarrow> False"
  proof (cases "preflight_u16_c_str data s = Ok ()")
    case True
    note c = commit_u16_c_str_Ok [OF True]
    have "units_of E (store_native_u16s E (take (2 * length (s @ [0])) data) (s @ [0]) @ drop (2 * length (s @ [0])) data)
        = s @ 0 # drop (length (s @ [0])) (units_of E data)"
      using units_of_written [OF c(2,3)] by simp
    with True s assms c(3) show ?thesis
      by (simp add: set_u16_c_str_def c(1) prove_u16_c_str_eq takeWhile_nul)
  next
    case False
    then show ?thesis
      by (auto simp: set_u16_c_str_def preflight_u16_c_str_def wide_capacity_def Let_def
          odd_iff_mod_2_eq_one split: if_splits)
  qed
qed

theorem set_u16_correct_witness:
  "set_u16_c_str linux_x86_64 [0, 0, 0] [1] = Err (WideByteSize 3)"
  using set_u16_correct [OF env_ok_linux_x86_64, of "(Little, ReprU16)" "[0, 0]" "[0, 0, 0]" "[1]"]
  by (simp add: set_u16_c_str_def preflight_u16_c_str_def wide_capacity_def)

text \<open>
  Proof of the length-prefixed and nul-terminated forms never reads unused capacity: two storages
  that agree on the prefix and on the active bytes have the same verdict and value.
\<close>

theorem proofs_ignore_unused_capacity:
  "(length_load E (fst L) (snd L) prefix = Some n \<and> length data = length data' \<and> take n data = take n data' \<longrightarrow>
      prove_str E L prefix data = prove_str E L prefix data') \<and>
   (0 \<notin> set s \<longrightarrow> prove_c_str (s @ 0 # rest) = Ok s \<and> prove_c_str (s @ 0 # rest') = Ok s)"
proof (intro conjI impI)
  assume "length_load E (fst L) (snd L) prefix = Some n \<and> length data = length data' \<and> take n data = take n data'"
  then show "prove_str E L prefix data = prove_str E L prefix data'"
    by (auto simp: prove_str_def active_length_def)
qed (auto simp: prove_c_str_def takeWhile_nul)

theorem proofs_ignore_unused_capacity_witness:
  "prove_c_str [0x61, 0, 0xFF] = Ok [0x61] \<and>
   prove_str linux_x86_64 (Little, ReprU8) [1] [0x68, 0xFF] = prove_str linux_x86_64 (Little, ReprU8) [1] [0x68, 0x00]"
proof -
  have "length_load linux_x86_64 Little ReprU8 [1] = Some 1" by (simp add: length_load_def wire_get_def decode_bytes.simps)
  then show ?thesis
    using proofs_ignore_unused_capacity [of linux_x86_64 "(Little, ReprU8)" "[1]" 1 "[0x68, 0xFF]" "[0x68, 0x00]" "[0x61]" "[0xFF]" "[]"]
    by simp
qed

end
