(* ===== verification/Zs_Owner.thy ===== *)
theory Zs_Owner
  imports Zs_Strings
begin

text \<open>
  The error enums the macro generates for a schema named \<open>nm\<close>: \<open>emit_record_errors\<close>, the error part of
  \<open>emit_scalar_module\<close> and \<open>emit_tagged_module\<close> in \<open>zero-schema-macros/src/emit_access.rs\<close>. Each generated
  variant is given by what its \<open>SchemaError\<close> implementation returns, so an error value is its chain of
  nodes.
\<close>

section \<open>Access errors of a record\<close>

definition access_layout :: "string \<Rightarrow> layout_error \<Rightarrow> schema_error" where
  "access_layout nm e = SchemaError KLayout nm None None (fmt_layout_error e)"

definition access_leaf :: "string \<Rightarrow> string \<Rightarrow> error_kind \<Rightarrow> schema_error" where
  "access_leaf nm f kind = SchemaError kind nm (Some (Field f)) None ''schema representation is invalid''"

definition access_invalid_bool :: "string \<Rightarrow> string \<Rightarrow> byte \<Rightarrow> schema_error" where
  "access_invalid_bool nm f raw = access_leaf nm f InvalidBool"

definition access_string :: "string \<Rightarrow> string \<Rightarrow> error_kind \<Rightarrow> schema_error" where
  "access_string nm f kind = access_leaf nm f kind"

definition access_child :: "string \<Rightarrow> string \<Rightarrow> schema_error \<Rightarrow> schema_error" where
  "access_child nm f source = SchemaError (se_kind source) nm (Some (Field f)) (Some source) (se_leaf source)"

text \<open>The element errors of array fields; \<open>access_child\<close> wraps them into the field's variant.\<close>

definition array_bool_error :: "string \<Rightarrow> usize \<Rightarrow> byte \<Rightarrow> schema_error" where
  "array_bool_error nm i raw = SchemaError InvalidBool nm (Some (Index i)) None
     (''invalid Boolean representation '' @ fmt_decimal (unat raw))"

definition array_string_error :: "string \<Rightarrow> usize \<Rightarrow> error_kind \<Rightarrow> schema_error" where
  "array_string_error nm i kind = SchemaError kind nm (Some (Index i)) None ''string representation is invalid''"

definition array_child_error :: "string \<Rightarrow> usize \<Rightarrow> schema_error \<Rightarrow> schema_error" where
  "array_child_error nm i source = SchemaError (se_kind source) nm (Some (Index i)) (Some source) (se_leaf source)"

section \<open>Access errors of scalar enums and tagged payloads\<close>

definition unknown_enum_value :: "string \<Rightarrow> schema_error" where
  "unknown_enum_value nm = SchemaError UnknownEnumValue nm None None ''unknown scalar enum value''"

definition unknown_union_tag :: "string \<Rightarrow> schema_error" where
  "unknown_union_tag nm = SchemaError UnknownUnionTag nm None None ''unknown external union tag''"

definition variant_child :: "string \<Rightarrow> string \<Rightarrow> schema_error \<Rightarrow> schema_error" where
  "variant_child nm v source = SchemaError (se_kind source) nm (Some (Variant v)) (Some source) (se_leaf source)"

section \<open>Mutation errors\<close>

definition mutation_access :: "string \<Rightarrow> schema_error \<Rightarrow> schema_error" where
  "mutation_access nm source = SchemaError (se_kind source) nm None (Some source) (se_leaf source)"

definition mutation_layout :: "string \<Rightarrow> layout_error \<Rightarrow> schema_error" where
  "mutation_layout nm e = SchemaError KLayout nm None None (fmt_layout_error e)"

fun string_kind :: "string_mutation_error \<Rightarrow> error_kind" where
  "string_kind (CapacityExceeded a b) = KCapacityExceeded"
| "string_kind (LengthUnrepresentable a) = KLengthUnrepresentable"
| "string_kind _ = KLayout"

fun string_proof_kind :: "string_proof_error \<Rightarrow> error_kind" where
  "string_proof_kind (LengthOutOfBounds a b) = KLengthOutOfBounds"
| "string_proof_kind (InvalidUtf8 e) = KInvalidUtf8"
| "string_proof_kind MissingNul = KMissingNul"

definition mutation_field_kind :: "string \<Rightarrow> string \<Rightarrow> error_kind \<Rightarrow> schema_error" where
  "mutation_field_kind nm f kind = SchemaError kind nm (Some (Field f)) None ''field mutation rejected''"

definition mutation_field :: "string \<Rightarrow> string \<Rightarrow> string_mutation_error \<Rightarrow> schema_error" where
  "mutation_field nm f e = mutation_field_kind nm f (string_kind e)"

definition mutation_array :: "string \<Rightarrow> string \<Rightarrow> usize \<Rightarrow> error_kind \<Rightarrow> schema_error" where
  "mutation_array nm f i kind = access_child nm f (index_leaf nm i kind)"

text \<open>The \<open>ArrayPath\<close> variants: one node per enclosing array, the leaf at the innermost index.\<close>

definition mutation_array_path :: "string \<Rightarrow> string \<Rightarrow> usize list \<Rightarrow> error_kind \<Rightarrow> schema_error" where
  "mutation_array_path nm f ix kind =
     access_child nm f (index_chain (butlast ix) (index_leaf nm (last ix) kind))"

definition mutation_tag_mismatch :: "string \<Rightarrow> schema_error" where
  "mutation_tag_mismatch nm = SchemaError TagMismatch nm None None
     ''selected payload patch cannot change the external tag''"

section \<open>Index paths of nested arrays\<close>

text \<open>
  \<open>index_path_array\<close>: the indices of a flat position in an array with the given dimensions, outermost
  first. The inner dimensions are taken from the innermost outwards; each yields a remainder and passes
  the quotient on, and what is left is the outermost index.
\<close>

fun index_steps :: "nat list \<Rightarrow> nat \<Rightarrow> nat list \<Rightarrow> nat list" where
  "index_steps [] rest acc = rest # acc"
| "index_steps (d # ds) rest acc = index_steps ds (rest div d) (rest mod d # acc)"

definition index_path_array :: "nat list \<Rightarrow> nat \<Rightarrow> nat list" where
  "index_path_array dims flat = index_steps (rev (tl dims)) flat []"

definition index_path_error :: "nat list \<Rightarrow> nat \<Rightarrow> (nat \<Rightarrow> schema_error) \<Rightarrow> schema_error" where
  "index_path_error dims flat leaf =
     (let ix = index_path_array dims flat in index_chain (butlast ix) (leaf (last ix)))"

text \<open>The flat position of an index path: what \<open>NestedArrayAdapter::position\<close> computes level by level.\<close>

definition flat_position :: "nat list \<Rightarrow> nat list \<Rightarrow> nat" where
  "flat_position dims ix = foldl (\<lambda>p (i, d). p * d + i) (hd ix) (zip (tl ix) (tl dims))"

lemma index_steps_append: "index_steps ds rest acc = index_steps ds rest [] @ acc"
proof (induction ds arbitrary: rest acc)
  case (Cons d ds)
  show ?case
    using Cons [of "rest div d" "rest mod d # acc"] Cons [of "rest div d" "[rest mod d]"] by simp
qed simp

lemma index_steps_flat:
  assumes "length is = length ds" and "\<forall>(i, d) \<in> set (zip is ds). i < d"
  shows "index_steps (rev ds) (foldl (\<lambda>p (i, d). p * d + i) i0 (zip is ds)) [] = i0 # is"
  using assms
proof (induction ds arbitrary: "is" rule: rev_induct)
  case (snoc d ds)
  obtain js i where js: "is = js @ [i]" using snoc.prems(1) by (metis Nil_is_append_conv length_0_conv list.discI rev_exhaust)
  let ?p = "foldl (\<lambda>p (i, d). p * d + i) i0 (zip js ds)"
  have "i < d" and IH: "index_steps (rev ds) ?p [] = i0 # js" using snoc js by auto
  then show ?case
    using snoc.prems(1) js by (simp add: index_steps_append [of "rev ds" ?p "[i]"])
qed simp

lemma index_path_array_flat:
  assumes "length ix = length dims" "ix \<noteq> []" and "\<forall>(i, d) \<in> set (zip ix dims). i < d"
  shows "index_path_array dims (flat_position dims ix) = ix"
proof -
  obtain i0 "is" d0 ds where "ix = i0 # is" "dims = d0 # ds"
    using assms by (metis length_0_conv neq_Nil_conv)
  then show ?thesis
    using assms index_steps_flat [of "is" ds i0] by (simp add: index_path_array_def flat_position_def)
qed

end
