(* ===== verification/Zs_Mutation.thy ===== *)
theory Zs_Mutation
  imports Zs_Owner
begin

text \<open>
  Field mutation handles, \<open>src/src/mutation.rs\<close>, with the adapters the macro generates for scalar, Boolean,
  string and byte fields (\<open>field_adapter\<close> and \<open>string_element_ops\<close> in \<open>emit_mutation.rs\<close>). A handle is the
  exclusive input it holds; its token carries no data. A mutating call returns its result together with
  the input as the call leaves it. The locale \<open>field_adapter\<close> is the contract between the handles and the
  adapters; it is interpreted on the generated adapters of every leaf category.
\<close>

section \<open>Adapters and handles\<close>

record 'v adapter =
  ad_read :: "input \<Rightarrow> (schema_error, 'v) res"
  ad_preflight :: "input \<Rightarrow> 'v \<Rightarrow> (schema_error, unit) res"
  ad_commit :: "input \<Rightarrow> 'v \<Rightarrow> (schema_error, input) res"

text \<open>A preflight that leaves with \<open>?\<close>, then a commit of the borrowed input.\<close>

definition preflighted :: "input \<Rightarrow> ('e, unit) res \<Rightarrow> ('e, input) res \<Rightarrow> ('e, unit) res \<times> input" where
  "preflighted i pre post =
     (case pre of
        Ok _ \<Rightarrow> (case post of Ok j \<Rightarrow> (Ok (), j) | Err e \<Rightarrow> (Err e, i) | Panic \<Rightarrow> (Panic, i))
      | Err e \<Rightarrow> (Err e, i)
      | Panic \<Rightarrow> (Panic, i))"

definition scalar_mut_prove :: "env \<Rightarrow> 'v adapter \<Rightarrow> input \<Rightarrow> (schema_error, input) res" where
  "scalar_mut_prove E A i = and_then (shared E i) (\<lambda>s. and_then (ad_read A s) (\<lambda>_. Ok i))"

definition scalar_mut_get :: "env \<Rightarrow> 'v adapter \<Rightarrow> input \<Rightarrow> (schema_error, 'v) res" where
  "scalar_mut_get E A i = and_then (shared E i) (\<lambda>s. or_unreachable (ad_read A s))"

text \<open>The scalar and byte adapters' \<open>preflight\<close> takes the value only; they ignore the input here.\<close>

definition scalar_mut_set :: "env \<Rightarrow> 'v adapter \<Rightarrow> input \<Rightarrow> 'v \<Rightarrow> (schema_error, unit) res \<times> input" where
  "scalar_mut_set E A i v =
     preflighted i (ad_preflight A i v) (and_then (reborrow E i) (\<lambda>j. ad_commit A j v))"

definition string_mut_prove :: "env \<Rightarrow> 'v adapter \<Rightarrow> input \<Rightarrow> (schema_error, input) res" where
  "string_mut_prove E A i = and_then (shared E i) (\<lambda>s. and_then (ad_read A s) (\<lambda>_. Ok i))"

definition string_mut_get :: "env \<Rightarrow> 'v adapter \<Rightarrow> input \<Rightarrow> (schema_error, 'v) res" where
  "string_mut_get E A i = and_then (shared E i) (\<lambda>s. or_unreachable (ad_read A s))"

definition string_mut_set :: "env \<Rightarrow> 'v adapter \<Rightarrow> input \<Rightarrow> 'v \<Rightarrow> (schema_error, unit) res \<times> input" where
  "string_mut_set E A i v =
     preflighted i (and_then (shared E i) (\<lambda>s. ad_preflight A s v))
       (and_then (reborrow E i) (\<lambda>j. ad_commit A j v))"

definition string_mut_clear :: "input \<Rightarrow> input" where
  "string_mut_clear i = clear_all i"

definition bytes_mut_prove :: "env \<Rightarrow> 'v adapter \<Rightarrow> input \<Rightarrow> (schema_error, input) res" where
  "bytes_mut_prove E A i = and_then (shared E i) (\<lambda>s. and_then (ad_read A s) (\<lambda>_. Ok i))"

definition bytes_mut_get :: "env \<Rightarrow> 'v adapter \<Rightarrow> input \<Rightarrow> (schema_error, 'v) res" where
  "bytes_mut_get E A i = and_then (shared E i) (\<lambda>s. or_unreachable (ad_read A s))"

definition bytes_mut_set :: "env \<Rightarrow> 'v adapter \<Rightarrow> input \<Rightarrow> 'v \<Rightarrow> (schema_error, unit) res \<times> input" where
  "bytes_mut_set E A i v =
     preflighted i (ad_preflight A i v) (and_then (reborrow E i) (\<lambda>j. ad_commit A j v))"

section \<open>The adapter contract\<close>

text \<open>
  What a handle relies on, for inputs that carry the adapter's wire: reading and preflighting never
  panic, and committing a preflighted value keeps the span and reads back as that value.
\<close>

locale field_adapter =
  fixes E :: env and w :: wlayout and val_ok :: "'v \<Rightarrow> bool" and A :: "'v adapter"
  assumes read_total: "env_ok E \<Longrightarrow> input_ok E i \<Longrightarrow> i_wire i = w \<Longrightarrow> ad_read A i \<noteq> Panic"
    and preflight_total: "env_ok E \<Longrightarrow> input_ok E i \<Longrightarrow> i_wire i = w \<Longrightarrow> val_ok v \<Longrightarrow> ad_preflight A i v \<noteq> Panic"
    and commit_reads_back: "env_ok E \<Longrightarrow> input_ok E i \<Longrightarrow> i_wire i = w \<Longrightarrow> val_ok v \<Longrightarrow>
      ad_preflight A i v = Ok () \<Longrightarrow> \<exists>j. ad_commit A i v = Ok j \<and> same_span i j \<and> ad_read A j = Ok v"
begin

lemma set_cases:
  assumes "env_ok E" "input_ok E i" "i_wire i = w" "val_ok v" "ad_preflight A i v = pre"
  shows "case preflighted i pre (and_then (reborrow E i) (\<lambda>j. ad_commit A j v)) of
      (Ok _, j) \<Rightarrow> pre = Ok () \<and> same_span i j \<and> input_ok E j \<and> ad_read A j = Ok v
    | (Err e, j) \<Rightarrow> pre = Err e \<and> j = i
    | (Panic, j) \<Rightarrow> False"
proof (cases pre)
  case (Ok u)
  with assms have "ad_preflight A i v = Ok ()" by simp
  then obtain j where "ad_commit A i v = Ok j" "same_span i j" "ad_read A j = Ok v"
    using commit_reads_back assms by blast
  with assms Ok show ?thesis
    by (auto simp: preflighted_def reborrow_Ok intro: same_span_input_ok)
next
  case Panic
  with assms preflight_total show ?thesis by blast
qed (simp add: preflighted_def)

lemmas handle_defs = scalar_mut_prove_def scalar_mut_get_def scalar_mut_set_def
  string_mut_prove_def string_mut_get_def string_mut_set_def string_mut_clear_def
  bytes_mut_prove_def bytes_mut_get_def bytes_mut_set_def

lemma get_total:
  assumes "env_ok E" "input_ok E i" "i_wire i = w" "is_ok (scalar_mut_prove E A i)"
  shows "\<exists>v. scalar_mut_get E A i = Ok v"
  using assms by (auto simp: scalar_mut_prove_def scalar_mut_get_def is_ok_iff shared_Ok)

lemma set_correct:
  assumes "env_ok E" "input_ok E i" "i_wire i = w" "val_ok v"
  shows "case scalar_mut_set E A i v of
      (Ok _, j) \<Rightarrow> same_span i j \<and> input_ok E j \<and> scalar_mut_get E A j = Ok v \<and> is_ok (scalar_mut_prove E A j)
    | (Err e, j) \<Rightarrow> ad_preflight A i v = Err e \<and> j = i
    | (Panic, j) \<Rightarrow> False"
  using set_cases [OF assms refl] assms(1)
  by (auto simp: scalar_mut_set_def scalar_mut_get_def scalar_mut_prove_def shared_Ok split: prod.splits res.splits)

end

text \<open>The three handle types run the same proof, read and replacement on a checked input.\<close>

lemma handle_ops_agree:
  "string_mut_prove = scalar_mut_prove" "string_mut_get = scalar_mut_get"
  "bytes_mut_prove = scalar_mut_prove" "bytes_mut_get = scalar_mut_get" "bytes_mut_set = scalar_mut_set"
  by (auto simp: fun_eq_iff string_mut_prove_def scalar_mut_prove_def bytes_mut_prove_def string_mut_get_def
      scalar_mut_get_def bytes_mut_get_def bytes_mut_set_def scalar_mut_set_def)

lemma string_set_agrees:
  "env_ok E \<Longrightarrow> input_ok E i \<Longrightarrow> string_mut_set E A i v = scalar_mut_set E A i v"
  by (simp add: string_mut_set_def scalar_mut_set_def shared_Ok)

section \<open>Leaf categories\<close>

text \<open>The field categories with a direct adapter; a string form carries its length wire and capacity.\<close>

datatype leaf =
    Primitive endian primitive
  | Bool
  | BorrowedStr scalar_repr endian nat
  | BorrowedCStr nat
  | BorrowedU16Str scalar_repr endian nat
  | BorrowedU16CStr nat
  | FixedBytes nat

datatype leaf_val = NumVal nat | BoolVal bool | BytesVal "byte list" | UnitsVal "16 word list"

fun leaf_wire :: "env \<Rightarrow> leaf \<Rightarrow> wlayout" where
  "leaf_wire E (Primitive en p) = prim_layout E p"
| "leaf_wire E Bool = bytes_layout 1"
| "leaf_wire E (BorrowedStr r en n) = str_layout E r n"
| "leaf_wire E (BorrowedCStr n) = c_str_layout n"
| "leaf_wire E (BorrowedU16Str r en n) = u16_str_layout E r n"
| "leaf_wire E (BorrowedU16CStr n) = u16_c_str_layout E n"
| "leaf_wire E (FixedBytes n) = bytes_layout n"

fun is_string :: "leaf \<Rightarrow> bool" where
  "is_string (BorrowedStr r en n) = True" | "is_string (BorrowedCStr n) = True"
| "is_string (BorrowedU16Str r en n) = True" | "is_string (BorrowedU16CStr n) = True"
| "is_string _ = False"

fun string_capacity :: "leaf \<Rightarrow> nat option" where
  "string_capacity (BorrowedStr r en n) = Some n" | "string_capacity (BorrowedCStr n) = Some n"
| "string_capacity (BorrowedU16Str r en n) = Some n" | "string_capacity (BorrowedU16CStr n) = Some n"
| "string_capacity _ = None"

text \<open>The values Rust's types admit for each category.\<close>

fun leaf_val_ok :: "leaf \<Rightarrow> leaf_val \<Rightarrow> bool" where
  "leaf_val_ok (Primitive en p) (NumVal n) \<longleftrightarrow> prim_ok p n"
| "leaf_val_ok Bool (BoolVal b) \<longleftrightarrow> True"
| "leaf_val_ok (BorrowedStr r en n) (BytesVal s) \<longleftrightarrow> utf8_valid s"
| "leaf_val_ok (BorrowedCStr n) (BytesVal s) \<longleftrightarrow> 0 \<notin> set s"
| "leaf_val_ok (BorrowedU16Str r en n) (UnitsVal s) \<longleftrightarrow> True"
| "leaf_val_ok (BorrowedU16CStr n) (UnitsVal s) \<longleftrightarrow> 0 \<notin> set s"
| "leaf_val_ok (FixedBytes n) (BytesVal s) \<longleftrightarrow> True"
| "leaf_val_ok _ _ \<longleftrightarrow> False"

text \<open>How a leaf's failures are reported: by its field, or by its position in an array.\<close>

record leaf_errors =
  le_access_layout :: "layout_error \<Rightarrow> schema_error"
  le_bool :: "byte \<Rightarrow> schema_error"
  le_string :: "error_kind \<Rightarrow> schema_error"
  le_mutation_layout :: "layout_error \<Rightarrow> schema_error"
  le_mutation_string :: "string_mutation_error \<Rightarrow> schema_error"
  le_length_mismatch :: schema_error

definition field_errors :: "string \<Rightarrow> string \<Rightarrow> leaf_errors" where
  "field_errors nm f = \<lparr>le_access_layout = access_layout nm, le_bool = access_invalid_bool nm f,
     le_string = access_string nm f, le_mutation_layout = mutation_layout nm,
     le_mutation_string = mutation_field nm f,
     le_length_mismatch = mutation_field_kind nm f ArrayLengthMismatch\<rparr>"

fun leaf_read :: "env \<Rightarrow> leaf_errors \<Rightarrow> leaf \<Rightarrow> input \<Rightarrow> (schema_error, leaf_val) res" where
  "leaf_read E er (Primitive en p) i =
     and_then (map_err (le_access_layout er) (read_copy E (prim_layout E p) 0 i))
       (\<lambda>wire. Ok (NumVal (wire_get E (en, p) wire)))"
| "leaf_read E er Bool i =
     and_then (map_err (le_access_layout er) (read_copy E (bytes_layout 1) 0 i))
       (\<lambda>wire. case bool_decode (hd wire) of Some b \<Rightarrow> Ok (BoolVal b) | None \<Rightarrow> Err (le_bool er (hd wire)))"
| "leaf_read E er (BorrowedStr r en n) i =
     and_then (map_err (le_access_layout er) (read_copy E (prim_layout E (repr_prim r)) 0 i)) (\<lambda>len.
     and_then (map_err (le_access_layout er) (subrange_bytes E (str_data_offset E r n) n i)) (\<lambda>data.
     and_then (map_err (\<lambda>e. le_string er (string_proof_kind e)) (prove_str E (en, r) len data))
       (\<lambda>s. Ok (BytesVal s))))"
| "leaf_read E er (BorrowedCStr n) i =
     and_then (map_err (le_access_layout er) (subrange_bytes E 0 n i)) (\<lambda>data.
     and_then (map_err (\<lambda>_. le_string er KMissingNul) (prove_c_str data)) (\<lambda>s. Ok (BytesVal s)))"
| "leaf_read E er (BorrowedU16Str r en n) i =
     and_then (map_err (le_access_layout er) (read_copy E (prim_layout E (repr_prim r)) 0 i)) (\<lambda>len.
     and_then (map_err (le_access_layout er) (subrange_bytes E (u16_str_data_offset E r n) (n * 2) i)) (\<lambda>data.
     and_then (map_err (\<lambda>e. le_string er (string_proof_kind e))
         (prove_u16_str_bytes E (en, r) n len (i_addr i + u16_str_data_offset E r n) data))
       (\<lambda>s. Ok (UnitsVal s))))"
| "leaf_read E er (BorrowedU16CStr n) i =
     and_then (map_err (le_access_layout er) (subrange_bytes E 0 (n * 2) i)) (\<lambda>data.
     and_then (map_err (\<lambda>_. le_string er KMissingNul) (prove_u16_c_str_bytes E n (i_addr i) data))
       (\<lambda>s. Ok (UnitsVal s)))"
| "leaf_read E er (FixedBytes n) i =
     and_then (map_err (le_access_layout er) (subrange_bytes E 0 n i)) (\<lambda>bs. Ok (BytesVal bs))"

text \<open>A value of another Rust type than the field's cannot reach the adapter; the model panics on it.\<close>

fun leaf_preflight :: "env \<Rightarrow> leaf_errors \<Rightarrow> leaf \<Rightarrow> input \<Rightarrow> leaf_val \<Rightarrow> (schema_error, unit) res" where
  "leaf_preflight E er (Primitive en p) i (NumVal v) = Ok ()"
| "leaf_preflight E er Bool i (BoolVal v) = Ok ()"
| "leaf_preflight E er (BorrowedStr r en n) i (BytesVal v) =
     and_then (map_err (le_mutation_layout er) (subrange_bytes E 0 (scalar_width r) i)) (\<lambda>prefix.
     and_then (map_err (le_mutation_layout er) (subrange_bytes E (str_data_offset E r n) n i)) (\<lambda>data.
       map_err (le_mutation_string er) (preflight_str (en, r) prefix data v)))"
| "leaf_preflight E er (BorrowedCStr n) i (BytesVal v) =
     and_then (map_err (le_mutation_layout er) (subrange_bytes E 0 n i)) (\<lambda>data.
       map_err (le_mutation_string er) (preflight_c_str data v))"
| "leaf_preflight E er (BorrowedU16Str r en n) i (UnitsVal v) =
     and_then (map_err (le_mutation_layout er) (subrange_bytes E 0 (scalar_width r) i)) (\<lambda>prefix.
     and_then (map_err (le_mutation_layout er) (subrange_bytes E (u16_str_data_offset E r n) (n * 2) i)) (\<lambda>data.
       map_err (le_mutation_string er) (preflight_u16_str (en, r) prefix data v)))"
| "leaf_preflight E er (BorrowedU16CStr n) i (UnitsVal v) =
     and_then (map_err (le_mutation_layout er) (subrange_bytes E 0 (n * 2) i)) (\<lambda>data.
       map_err (le_mutation_string er) (preflight_u16_c_str data v))"
| "leaf_preflight E er (FixedBytes n) i (BytesVal v) =
     (if length v = n then Ok () else Err (le_length_mismatch er))"
| "leaf_preflight E er _ i _ = Panic"

text \<open>
  \<open>bytes.split_at_mut(DATA_OFFSET)\<close>, \<open>&mut prefix_storage[..WIDTH]\<close>, \<open>&mut data[..capacity]\<close>: each panics
  out of range; the two halves are written in place.
\<close>

definition commit_split ::
    "nat \<Rightarrow> nat \<Rightarrow> nat \<Rightarrow> (byte list \<Rightarrow> byte list \<Rightarrow> (layout_error, byte list \<times> byte list) res) \<Rightarrow> byte list \<Rightarrow> (layout_error, byte list) res" where
  "commit_split d_off width n commit bs =
     (if d_off \<le> length bs \<and> width \<le> d_off \<and> n \<le> length bs - d_off
      then and_then (commit (take width bs) (slice d_off n bs))
             (\<lambda>(prefix, data). Ok (overwrite d_off data (overwrite 0 prefix bs)))
      else Panic)"

fun leaf_commit :: "env \<Rightarrow> leaf \<Rightarrow> input \<Rightarrow> leaf_val \<Rightarrow> (schema_error, input) res" where
  "leaf_commit E (Primitive en p) i (NumVal v) =
     or_unreachable (subrange_bytes_mut E 0 (prim_size p) (wire_store_preflighted E (en, p) v) i)"
| "leaf_commit E Bool i (BoolVal v) =
     or_unreachable (subrange_bytes_mut E 0 1 (bool_store_preflighted v) i)"
| "leaf_commit E (BorrowedStr r en n) i (BytesVal v) =
     or_unreachable (subrange_bytes_mut E 0 (wl_size (str_layout E r n))
       (commit_split (str_data_offset E r n) (scalar_width r) n (\<lambda>prefix data. commit_str E (en, r) prefix data v)) i)"
| "leaf_commit E (BorrowedCStr n) i (BytesVal v) =
     or_unreachable (subrange_bytes_mut E 0 n (\<lambda>data. commit_c_str data v) i)"
| "leaf_commit E (BorrowedU16Str r en n) i (UnitsVal v) =
     or_unreachable (subrange_bytes_mut E 0 (wl_size (u16_str_layout E r n))
       (commit_split (u16_str_data_offset E r n) (scalar_width r) (n * 2)
         (\<lambda>prefix data. commit_u16_str E (en, r) prefix data v)) i)"
| "leaf_commit E (BorrowedU16CStr n) i (UnitsVal v) =
     or_unreachable (subrange_bytes_mut E 0 (n * 2) (\<lambda>data. commit_u16_c_str E data v) i)"
| "leaf_commit E (FixedBytes n) i (BytesVal v) =
     or_unreachable (subrange_bytes_mut E 0 n (\<lambda>data. copy_from_slice data v) i)"
| "leaf_commit E _ i _ = Panic"

definition leaf_adapter :: "env \<Rightarrow> leaf_errors \<Rightarrow> leaf \<Rightarrow> leaf_val adapter" where
  "leaf_adapter E er l = \<lparr>ad_read = leaf_read E er l, ad_preflight = leaf_preflight E er l, ad_commit = leaf_commit E l\<rparr>"

section \<open>The generated adapters meet the contract\<close>

lemma commit_split_Ok:
  assumes "d_off + n \<le> length bs" "width \<le> d_off"
    and "commit (take width bs) (slice d_off n bs) = Ok (p, d)" "length p = width" "length d = n"
  shows "\<exists>bs'. commit_split d_off width n commit bs = Ok bs' \<and> length bs' = length bs \<and>
    slice 0 width bs' = p \<and> slice d_off n bs' = d"
  using assms by (auto simp: commit_split_def slice_overwrite_disjoint slice_overwrite_eq)

lemma subrange_bytes_mut_whole:
  assumes "input_ok E i" "f (i_bytes i) = Ok bs" "length bs = length (i_bytes i)" "n = length (i_bytes i)"
  shows "subrange_bytes_mut E 0 n f i = Ok (i\<lparr>i_bytes := bs\<rparr>)"
  using subrange_bytes_mut_Ok [of E i 0 n f bs] assms by simp

lemma same_span_update [simp]: "length bs = length (i_bytes i) \<Longrightarrow> same_span i (i\<lparr>i_bytes := bs\<rparr>)"
  by (simp add: same_span_def)

lemma input_ok_update:
  "input_ok E i \<Longrightarrow> length bs = length (i_bytes i) \<Longrightarrow> input_ok E (i\<lparr>i_bytes := bs\<rparr>)"
  by (simp add: input_ok_def)

lemma read_str_eq:
  assumes "env_ok E" "input_ok E i" "i_wire i = str_layout E r n"
  shows "leaf_read E er (BorrowedStr r en n) i =
    and_then (map_err (\<lambda>e. le_string er (string_proof_kind e))
      (prove_str E (en, r) (slice 0 (scalar_width r) (i_bytes i)) (slice (scalar_width r) n (i_bytes i))))
      (\<lambda>s. Ok (BytesVal s))"
  using assms str_layout_bound [of E r n]
  by (simp add: read_copy_Ok str_prefix_fits subrange_bytes_Ok input_ok_length)
    (simp add: prim_layout_def scalar_width_def)

lemma u16_addr_aligned:
  assumes "env_ok E" "input_ok E i" "i_wire i = u16_str_layout E r n"
  shows "prim_align E U16 dvd i_addr i + u16_str_data_offset E r n"
  using assms u16_str_align_dvd u16_str_data_offset_aligned input_ok_align
  by (metis dvd_add dvd_trans)

lemma read_u16_str_eq:
  assumes "env_ok E" "input_ok E i" "i_wire i = u16_str_layout E r n"
  shows "leaf_read E er (BorrowedU16Str r en n) i =
    and_then (map_err (\<lambda>e. le_string er (string_proof_kind e))
      (prove_u16_str E (en, r) (slice 0 (scalar_width r) (i_bytes i))
        (units_of E (slice (u16_str_data_offset E r n) (n * 2) (i_bytes i)))))
      (\<lambda>s. Ok (UnitsVal s))"
  using assms u16_str_layout_bound [of E r n] u16_addr_aligned [OF assms]
  by (simp add: read_copy_Ok u16_str_prefix_fits subrange_bytes_Ok input_ok_length prove_u16_str_bytes_def
      env_ref_from_bytes mult.commute mod_eq_0_iff_dvd)
    (simp add: prim_layout_def scalar_width_def)

lemma read_c_str_eq:
  assumes "input_ok E i" "i_wire i = c_str_layout n"
  shows "leaf_read E er (BorrowedCStr n) i =
    and_then (map_err (\<lambda>_. le_string er KMissingNul) (prove_c_str (i_bytes i))) (\<lambda>s. Ok (BytesVal s))"
  using assms by (simp add: subrange_bytes_Ok input_ok_length slice_whole)

lemma read_u16_c_str_eq:
  assumes "env_ok E" "input_ok E i" "i_wire i = u16_c_str_layout E n"
  shows "leaf_read E er (BorrowedU16CStr n) i =
    and_then (map_err (\<lambda>_. le_string er KMissingNul) (prove_u16_c_str E (units_of E (i_bytes i)))) (\<lambda>s. Ok (UnitsVal s))"
proof -
  have "length (i_bytes i) = 2 * n" "prim_align E U16 dvd i_addr i"
    using assms u16_c_str_layout_eq [OF assms(1), of n] input_ok_align [OF assms(2)] by (simp_all add: input_ok_length)
  then show ?thesis
    using assms(1,2) by (simp add: subrange_bytes_Ok prove_u16_c_str_bytes_def env_ref_from_bytes mult.commute
        mod_eq_0_iff_dvd slice_whole)
qed

lemma read_copy_whole: "env_ok E \<Longrightarrow> input_ok E i \<Longrightarrow> i_wire i = w \<Longrightarrow> read_copy E w 0 i = Ok (i_bytes i)"
  using read_copy_Ok [of E i w 0] by (auto simp: slice_whole input_ok_def)

lemma read_bool_eq:
  assumes "env_ok E" "input_ok E i" "i_wire i = bytes_layout 1"
  shows "leaf_read E er Bool i =
    (case bool_decode (hd (i_bytes i)) of Some b \<Rightarrow> Ok (BoolVal b) | None \<Rightarrow> Err (le_bool er (hd (i_bytes i))))"
  using read_copy_whole [OF assms] by simp

lemma read_prim_eq:
  assumes "env_ok E" "input_ok E i" "i_wire i = prim_layout E p"
  shows "leaf_read E er (Primitive en p) i = Ok (NumVal (wire_get E (en, p) (i_bytes i)))"
  using read_copy_whole [OF assms] by simp

lemma read_bytes_eq:
  assumes "input_ok E i" "i_wire i = bytes_layout n"
  shows "leaf_read E er (FixedBytes n) i = Ok (BytesVal (i_bytes i))"
  using assms by (simp add: subrange_bytes_Ok input_ok_length bytes_layout_def slice_whole)

lemmas leaf_read_eqs = read_str_eq read_u16_str_eq read_c_str_eq read_u16_c_str_eq read_bool_eq read_prim_eq read_bytes_eq

lemma leaf_read_total:
  assumes "env_ok E" "input_ok E i" "i_wire i = leaf_wire E l"
  shows "leaf_read E er l i \<noteq> Panic"
  using assms
  by (cases l) (simp_all add: leaf_read_eqs prove_str_total prove_u16_str_total prove_c_str_def
      prove_u16_c_str_eq split: option.splits del: leaf_read.simps)

lemma preflight_str_eq:
  assumes "env_ok E" "input_ok E i" "i_wire i = str_layout E r n"
  shows "leaf_preflight E er (BorrowedStr r en n) i (BytesVal v) =
    map_err (le_mutation_string er) (preflight_length_prefixed (en, r) (length v) n (scalar_width r))"
  using assms str_layout_bound [of E r n]
  by (simp add: subrange_bytes_Ok input_ok_length preflight_str_def)

lemma preflight_u16_str_eq:
  assumes "env_ok E" "input_ok E i" "i_wire i = u16_str_layout E r n"
  shows "leaf_preflight E er (BorrowedU16Str r en n) i (UnitsVal v) =
    map_err (le_mutation_string er) (preflight_length_prefixed (en, r) (length v) n (scalar_width r))"
  using assms u16_str_layout_bound [of E r n] u16_str_data_offset_ge [of E r n]
  by (simp add: subrange_bytes_Ok input_ok_length preflight_u16_str_def wide_capacity_def mult.commute)

lemma preflight_c_str_eq:
  assumes "input_ok E i" "i_wire i = c_str_layout n"
  shows "leaf_preflight E er (BorrowedCStr n) i (BytesVal v) =
    map_err (le_mutation_string er) (preflight_c_str (i_bytes i) v)"
  using assms by (simp add: subrange_bytes_Ok input_ok_length slice_whole)

lemma preflight_u16_c_str_eq:
  assumes "env_ok E" "input_ok E i" "i_wire i = u16_c_str_layout E n"
  shows "leaf_preflight E er (BorrowedU16CStr n) i (UnitsVal v) =
    map_err (le_mutation_string er) (preflight_u16_c_str (i_bytes i) v)"
proof -
  have "length (i_bytes i) = n * 2"
    using assms by (simp add: u16_c_str_layout_eq input_ok_length mult.commute)
  then show ?thesis using assms(2) by (simp add: subrange_bytes_Ok slice_whole)
qed

lemmas leaf_preflight_eqs = preflight_str_eq preflight_u16_str_eq preflight_c_str_eq preflight_u16_c_str_eq

lemma preflight_forms_total:
  "preflight_length_prefixed L len cap w \<noteq> Panic" "preflight_c_str data s \<noteq> Panic"
  "preflight_u16_c_str data us \<noteq> Panic"
  by (auto simp: preflight_length_prefixed_def preflight_c_str_def preflight_u16_c_str_def wide_capacity_def Let_def)

lemma leaf_preflight_total:
  assumes "env_ok E" "input_ok E i" "i_wire i = leaf_wire E l" "leaf_val_ok l v"
  shows "leaf_preflight E er l i v \<noteq> Panic"
  using assms
  by (cases l; cases v) (auto simp: leaf_preflight_eqs preflight_forms_total
      simp del: leaf_preflight.simps(3-6) split: if_splits)

lemma commit_str_law:
  assumes E: "env_ok E" and i: "input_ok E i" "i_wire i = str_layout E r n" and v: "utf8_valid v"
    and pre: "leaf_preflight E er (BorrowedStr r en n) i (BytesVal v) = Ok ()"
  shows "\<exists>j. leaf_commit E (BorrowedStr r en n) i (BytesVal v) = Ok j \<and> same_span i j \<and>
    leaf_read E er (BorrowedStr r en n) j = Ok (BytesVal v)"
proof -
  let ?bs = "i_bytes i" and ?p = "length_prefix E (en, r) (length v)"
  have size: "scalar_width r + n \<le> length ?bs"
    using str_layout_bound [OF E, of r n] i by (simp add: input_ok_length)
  have fits: "length v \<le> n" "length_represents r (length v)"
    using pre E i by (simp_all add: preflight_str_eq preflight_length_prefixed_Ok del: leaf_preflight.simps)
  let ?d = "v @ drop (length v) (slice (scalar_width r) n ?bs)"
  have commit: "commit_str E (en, r) (take (scalar_width r) ?bs) (slice (scalar_width r) n ?bs) v = Ok (?p, ?d)"
    using fits size by (intro commit_str_Ok) (simp add: preflight_str_def preflight_length_prefixed_Ok)
  obtain bs' where bs': "commit_split (scalar_width r) (scalar_width r) n (\<lambda>p d. commit_str E (en, r) p d v) ?bs = Ok bs'"
    "length bs' = length ?bs" "slice 0 (scalar_width r) bs' = ?p" "slice (scalar_width r) n bs' = ?d"
    using commit_split_Ok [of "scalar_width r" n ?bs "scalar_width r" "\<lambda>p d. commit_str E (en, r) p d v" ?p ?d] commit fits size by auto
  then have "leaf_commit E (BorrowedStr r en n) i (BytesVal v) = Ok (i\<lparr>i_bytes := bs'\<rparr>)"
    using E i by (simp add: subrange_bytes_mut_whole input_ok_length)
  moreover have "prove_str E (en, r) ?p ?d = Ok v"
    using E v fits length_load_prefix [of E "(en, r)" "length v"] by (intro prove_str_committed) simp_all
  then have "leaf_read E er (BorrowedStr r en n) (i\<lparr>i_bytes := bs'\<rparr>) = Ok (BytesVal v)"
    using E i bs' by (simp add: read_str_eq input_ok_update del: leaf_read.simps)
  ultimately show ?thesis using bs'(2) by auto
qed

lemma commit_u16_str_law:
  assumes E: "env_ok E" and i: "input_ok E i" "i_wire i = u16_str_layout E r n"
    and pre: "leaf_preflight E er (BorrowedU16Str r en n) i (UnitsVal v) = Ok ()"
  shows "\<exists>j. leaf_commit E (BorrowedU16Str r en n) i (UnitsVal v) = Ok j \<and> same_span i j \<and>
    leaf_read E er (BorrowedU16Str r en n) j = Ok (UnitsVal v)"
proof -
  let ?bs = "i_bytes i" and ?p = "length_prefix E (en, r) (length v)"
  let ?o = "u16_str_data_offset E r n" and ?w = "scalar_width r"
  let ?D = "slice ?o (n * 2) ?bs"
  let ?d = "store_native_u16s E (take (2 * length v) ?D) v @ drop (2 * length v) ?D"
  have size: "?o + n * 2 \<le> length ?bs" "?w \<le> ?o"
    using u16_str_layout_bound [OF E, of r n] i u16_str_data_offset_ge [OF E] by (simp_all add: input_ok_length mult.commute)
  have fits: "length v \<le> n" "length_represents r (length v)"
    using pre E i by (simp_all add: preflight_u16_str_eq preflight_length_prefixed_Ok del: leaf_preflight.simps)
  have accepted: "preflight_u16_str (en, r) (take ?w ?bs) ?D v = Ok ()"
    using fits size by (simp add: preflight_u16_str_def wide_capacity_def preflight_length_prefixed_Ok)
  have commit: "commit_u16_str E (en, r) (take ?w ?bs) ?D v = Ok (?p, ?d)"
    by (simp add: commit_u16_str_Ok(1) [OF accepted])
  obtain bs' where bs': "commit_split ?o ?w (n * 2) (\<lambda>p d. commit_u16_str E (en, r) p d v) ?bs = Ok bs'"
    "length bs' = length ?bs" "slice 0 ?w bs' = ?p" "slice ?o (n * 2) bs' = ?d"
    using commit_split_Ok [of ?o "n * 2" ?bs ?w "\<lambda>p d. commit_u16_str E (en, r) p d v" ?p ?d] commit fits size by auto
  then have "leaf_commit E (BorrowedU16Str r en n) i (UnitsVal v) = Ok (i\<lparr>i_bytes := bs'\<rparr>)"
    using E i by (simp add: subrange_bytes_mut_whole input_ok_length)
  moreover have "units_of E ?d = v @ drop (length v) (units_of E ?D)"
    using fits size by (intro units_of_written) simp_all
  then have "prove_u16_str E (en, r) ?p (units_of E ?d) = Ok v"
    using E fits length_load_prefix [of E "(en, r)" "length v"] by (intro prove_u16_str_committed) simp_all
  then have "leaf_read E er (BorrowedU16Str r en n) (i\<lparr>i_bytes := bs'\<rparr>) = Ok (UnitsVal v)"
    using E i bs' by (simp add: read_u16_str_eq input_ok_update del: leaf_read.simps)
  ultimately show ?thesis using bs'(2) by auto
qed

lemma commit_c_str_law:
  assumes i: "input_ok E i" "i_wire i = c_str_layout n" and v: "0 \<notin> set v"
    and pre: "leaf_preflight E er (BorrowedCStr n) i (BytesVal v) = Ok ()"
  shows "\<exists>j. leaf_commit E (BorrowedCStr n) i (BytesVal v) = Ok j \<and> same_span i j \<and>
    leaf_read E er (BorrowedCStr n) j = Ok (BytesVal v)"
proof -
  let ?bs = "v @ 0 # drop (Suc (length v)) (i_bytes i)"
  have size: "Suc (length v) \<le> length (i_bytes i)"
    using pre i by (simp add: preflight_c_str_eq preflight_c_str_def Let_def del: leaf_preflight.simps split: if_splits)
  then have "leaf_commit E (BorrowedCStr n) i (BytesVal v) = Ok (i\<lparr>i_bytes := ?bs\<rparr>)"
    using i by (simp add: subrange_bytes_mut_whole input_ok_length commit_c_str_def write_active_def overwrite_def)
  moreover have "leaf_read E er (BorrowedCStr n) (i\<lparr>i_bytes := ?bs\<rparr>) = Ok (BytesVal v)"
    using i v size by (simp add: read_c_str_eq input_ok_update prove_c_str_def takeWhile_nul del: leaf_read.simps)
  ultimately show ?thesis using size by auto
qed

lemma commit_u16_c_str_law:
  assumes E: "env_ok E" and i: "input_ok E i" "i_wire i = u16_c_str_layout E n" and v: "0 \<notin> set v"
    and pre: "leaf_preflight E er (BorrowedU16CStr n) i (UnitsVal v) = Ok ()"
  shows "\<exists>j. leaf_commit E (BorrowedU16CStr n) i (UnitsVal v) = Ok j \<and> same_span i j \<and>
    leaf_read E er (BorrowedU16CStr n) j = Ok (UnitsVal v)"
proof -
  have len: "length (i_bytes i) = n * 2" using E i by (simp add: u16_c_str_layout_eq input_ok_length mult.commute)
  have accepted: "preflight_u16_c_str (i_bytes i) v = Ok ()"
    using pre E i by (simp add: preflight_u16_c_str_eq del: leaf_preflight.simps)
  note c = commit_u16_c_str_Ok [OF accepted]
  obtain bs where bs: "bs = store_native_u16s E (take (2 * length (v @ [0])) (i_bytes i)) (v @ [0]) @ drop (2 * length (v @ [0])) (i_bytes i)"
    by blast
  have same: "length bs = length (i_bytes i)" using c(3) by (simp add: bs)
  have "commit_u16_c_str E (i_bytes i) v = Ok bs" unfolding bs by (rule c(1))
  then have "subrange_bytes_mut E 0 (n * 2) (\<lambda>data. commit_u16_c_str E data v) i = Ok (i\<lparr>i_bytes := bs\<rparr>)"
    using i(1) same len by (intro subrange_bytes_mut_whole) simp_all
  then have "leaf_commit E (BorrowedU16CStr n) i (UnitsVal v) = Ok (i\<lparr>i_bytes := bs\<rparr>)" by simp
  moreover have "units_of E bs = v @ 0 # drop (length (v @ [0])) (units_of E (i_bytes i))"
    unfolding bs using units_of_written [OF c(2,3)] by simp
  then have "leaf_read E er (BorrowedU16CStr n) (i\<lparr>i_bytes := bs\<rparr>) = Ok (UnitsVal v)"
    using E i v same by (simp add: read_u16_c_str_eq input_ok_update prove_u16_c_str_eq takeWhile_nul del: leaf_read.simps)
  ultimately show ?thesis using same by (intro exI [of _ "i\<lparr>i_bytes := bs\<rparr>"]) simp
qed

lemma commit_scalar_law:
  assumes E: "env_ok E" and i: "input_ok E i" "i_wire i = leaf_wire E l" and v: "leaf_val_ok l v"
    and "\<not> is_string l" and pre: "leaf_preflight E er l i v = Ok ()"
  shows "\<exists>j. leaf_commit E l i v = Ok j \<and> same_span i j \<and> leaf_read E er l j = Ok v"
proof -
  have len: "length (i_bytes i) = wl_size (leaf_wire E l)" using i by (simp add: input_ok_length)
  obtain bs where bs: "leaf_commit E l i v = Ok (i\<lparr>i_bytes := bs\<rparr>)" "length bs = length (i_bytes i)"
    "case v of NumVal x \<Rightarrow> (case l of Primitive en p \<Rightarrow> bs = wire_new E (en, p) x | _ \<Rightarrow> True)
      | BoolVal b \<Rightarrow> bs = [bool_encode b] | BytesVal s \<Rightarrow> bs = s | _ \<Rightarrow> True"
    using assms(5) v i len pre
    by (cases l; cases v) (auto simp: subrange_bytes_mut_whole wire_store_preflighted_Ok prim_layout_def
        bytes_layout_def bool_store_preflighted_def copy_from_slice_def split: if_splits)
  have "leaf_read E er l (i\<lparr>i_bytes := bs\<rparr>) = Ok v"
    using assms(5) v bs(2,3) E i
    by (cases l; cases v) (auto simp: leaf_read_eqs input_ok_update simp del: leaf_read.simps)
  with bs show ?thesis by auto
qed

lemma leaf_commit_law:
  assumes "env_ok E" "input_ok E i" "i_wire i = leaf_wire E l" "leaf_val_ok l v" "leaf_preflight E er l i v = Ok ()"
  shows "\<exists>j. leaf_commit E l i v = Ok j \<and> same_span i j \<and> leaf_read E er l j = Ok v"
proof (cases "is_string l")
  case False
  with assms show ?thesis by (intro commit_scalar_law)
next
  case True
  with assms show ?thesis
    by (cases l; cases v)
      (simp_all add: commit_str_law commit_u16_str_law commit_c_str_law commit_u16_c_str_law
        del: leaf_read.simps leaf_commit.simps leaf_preflight.simps)
qed

interpretation leaf: field_adapter E "leaf_wire E l" "leaf_val_ok l" "leaf_adapter E er l" for E er l
  by unfold_locales (simp_all add: leaf_adapter_def leaf_read_total leaf_preflight_total leaf_commit_law
      del: leaf_read.simps leaf_commit.simps leaf_preflight.simps)

declare leaf_read.simps [simp del] leaf_preflight.simps [simp del] leaf_commit.simps [simp del]

section \<open>Clearing\<close>

text \<open>What analysis and the emitted assertions guarantee of a leaf: a nonzero terminated capacity or length.\<close>

fun leaf_ok :: "leaf \<Rightarrow> bool" where
  "leaf_ok (BorrowedCStr n) \<longleftrightarrow> 0 < n"
| "leaf_ok (BorrowedU16CStr n) \<longleftrightarrow> 0 < n"
| "leaf_ok (FixedBytes n) \<longleftrightarrow> 0 < n"
| "leaf_ok _ \<longleftrightarrow> True"

fun leaf_zero :: "leaf \<Rightarrow> leaf_val" where
  "leaf_zero (Primitive en p) = NumVal 0" | "leaf_zero Bool = BoolVal False"
| "leaf_zero (BorrowedStr r en n) = BytesVal []" | "leaf_zero (BorrowedCStr n) = BytesVal []"
| "leaf_zero (BorrowedU16Str r en n) = UnitsVal []" | "leaf_zero (BorrowedU16CStr n) = UnitsVal []"
| "leaf_zero (FixedBytes n) = BytesVal (replicate n 0)"

lemma prove_str_zero:
  "env_ok E \<Longrightarrow> prove_str E (en, r) (replicate (scalar_width r) 0) data = Ok []"
  by (simp add: prove_str_def active_length_def from_utf8_Ok)

lemma prove_u16_str_zero:
  "env_ok E \<Longrightarrow> prove_u16_str E (en, r) (replicate (scalar_width r) 0) units = Ok []"
  by (simp add: prove_u16_str_def active_length_def)

lemma leaf_read_zero:
  assumes E: "env_ok E" and i: "input_ok E i" "i_wire i = leaf_wire E l" and "leaf_ok l" "is_all_zero i"
  shows "leaf_read E er l i = Ok (leaf_zero l)"
proof -
  have bytes: "i_bytes i = replicate (wl_size (leaf_wire E l)) 0"
    using assms(5) i by (simp add: is_all_zero_def all_zero_iff input_ok_length)
  note bounds = str_layout_bound [OF E] u16_str_layout_bound [OF E] u16_str_data_offset_ge [OF E]
  show ?thesis
  proof (cases l)
    case (BorrowedStr r en n)
    with E i bytes show ?thesis
      using bounds(1) [of r n] by (simp add: read_str_eq prove_str_zero)
  next
    case (BorrowedU16Str r en n)
    have "scalar_width r \<le> wl_size (u16_str_layout E r n)"
      using bounds(2,3) [of r n] by linarith
    with BorrowedU16Str E i bytes show ?thesis
      by (simp add: read_u16_str_eq prove_u16_str_zero)
  next
    case (BorrowedCStr n)
    with i bytes assms(4) show ?thesis
      by (cases n) (simp_all add: read_c_str_eq prove_c_str_def)
  next
    case (BorrowedU16CStr n)
    have "units_of E (i_bytes i) = replicate n 0"
      using BorrowedU16CStr E bytes by (simp add: units_of_0 u16_c_str_layout_eq)
    with BorrowedU16CStr E i assms(4) show ?thesis
      by (cases n) (simp_all add: read_u16_c_str_eq prove_u16_c_str_eq)
  qed (use E i bytes in \<open>auto simp: leaf_read_eqs bytes_layout_def prim_layout_def\<close>)
qed

section \<open>Properties of the handles\<close>

text \<open>
  C22. A replacement through a field handle: for every leaf category and every value its Rust type admits,
  the handle's \<open>set\<close> either commits, keeps the span and reads back as exactly that value, or returns the
  preflight's error and leaves every byte as it was; it never panics. The scalar, string and byte handles
  agree on it.
\<close>

theorem leaf_set_reads_back:
  assumes "env_ok E" "input_ok E i" "i_wire i = leaf_wire E l" "leaf_val_ok l v"
  shows "(case scalar_mut_set E (leaf_adapter E er l) i v of
      (Ok _, j) \<Rightarrow> same_span i j \<and> scalar_mut_get E (leaf_adapter E er l) j = Ok v
    | (Err e, j) \<Rightarrow> leaf_preflight E er l i v = Err e \<and> j = i
    | (Panic, j) \<Rightarrow> False) \<and>
    string_mut_set E (leaf_adapter E er l) i v = scalar_mut_set E (leaf_adapter E er l) i v \<and>
    bytes_mut_set E (leaf_adapter E er l) i v = scalar_mut_set E (leaf_adapter E er l) i v"
  using leaf.set_correct [OF assms, of er]
  by (auto simp: handle_ops_agree string_set_agrees [OF assms(1,2)] leaf_adapter_def split: prod.splits res.splits)

theorem leaf_set_reads_back_witness:
  "scalar_mut_set linux_x86_64 (leaf_adapter linux_x86_64 (field_errors ''Root'' ''tag'') (Primitive Big U16))
     \<lparr>i_addr = 64, i_bytes = [0, 0], i_wire = prim_layout linux_x86_64 U16\<rparr> (NumVal 7) =
   (Ok (), \<lparr>i_addr = 64, i_bytes = [0, 7], i_wire = prim_layout linux_x86_64 U16\<rparr>)"
proof -
  let ?i = "\<lparr>i_addr = 64, i_bytes = [0, 0], i_wire = prim_layout linux_x86_64 U16\<rparr>"
  let ?l = "Primitive Big U16"
  have "input_ok linux_x86_64 ?i" using wf_prim_layout [OF env_ok_linux_x86_64, of U16]
    by (simp add: input_ok_def prim_layout_def)
  moreover have "leaf_val_ok ?l (NumVal 7)" by (simp add: prim_ok_def)
  moreover have "i_wire ?i = leaf_wire linux_x86_64 ?l" by simp
  ultimately have ok: "case scalar_mut_set linux_x86_64 (leaf_adapter linux_x86_64 (field_errors ''Root'' ''tag'') ?l) ?i (NumVal 7) of
      (Ok _, j) \<Rightarrow> True | (Err e, j) \<Rightarrow> j = ?i | (Panic, j) \<Rightarrow> False"
    using leaf_set_reads_back [OF env_ok_linux_x86_64, of ?i ?l "NumVal 7" "field_errors ''Root'' ''tag''"]
    by (auto split: prod.splits res.splits)
  have "\<lparr>i_addr = 64, i_bytes = [0, 7], i_wire = prim_layout linux_x86_64 U16\<rparr> =
      ?i\<lparr>i_bytes := wire_new linux_x86_64 (Big, U16) 7\<rparr>"
    by (simp add: wire_new_def encode_bytes.simps to_be_bytes_def numeral_2_eq_2)
  then show ?thesis
    using ok \<open>input_ok linux_x86_64 ?i\<close>
    by (simp add: scalar_mut_set_def leaf_adapter_def preflighted_def reborrow_Ok subrange_bytes_mut_whole
        wire_store_preflighted_Ok leaf_preflight.simps leaf_commit.simps)
qed

text \<open>The inputs a string handle passes through: any sequence of replacements, failed or not, and clears.\<close>

inductive string_reach :: "env \<Rightarrow> leaf_errors \<Rightarrow> leaf \<Rightarrow> input \<Rightarrow> input \<Rightarrow> bool" for E er l i where
  start: "string_reach E er l i i"
| set: "string_reach E er l i j \<Longrightarrow> leaf_val_ok l v \<Longrightarrow>
    string_mut_set E (leaf_adapter E er l) j v = (r, k) \<Longrightarrow> string_reach E er l i k"
| clear: "string_reach E er l i j \<Longrightarrow> string_reach E er l i (string_mut_clear j)"

lemma string_reach_inv:
  assumes "string_reach E er l i j" and E: "env_ok E" "input_ok E i" "i_wire i = leaf_wire E l" "leaf_ok l"
    and "is_ok (string_mut_prove E (leaf_adapter E er l) i)"
  shows "same_span i j \<and> (\<exists>v. leaf_read E er l j = Ok v)"
  using assms(1)
proof induction
  case start
  show ?case using assms(2,3,6) by (auto simp: string_mut_prove_def shared_Ok leaf_adapter_def is_ok_iff)
next
  case (set j v r k)
  then have j: "input_ok E j" "i_wire j = leaf_wire E l"
    using E by (auto intro: same_span_input_ok dest: same_span_wire)
  have "case scalar_mut_set E (leaf_adapter E er l) j v of
      (Ok _, k) \<Rightarrow> same_span j k \<and> leaf_read E er l k = Ok v | (Err e, k) \<Rightarrow> k = j | (Panic, k) \<Rightarrow> False"
    using leaf.set_cases [OF E(1) j set.hyps(2) refl, of er]
    by (auto simp: scalar_mut_set_def leaf_adapter_def split: prod.splits res.splits)
  then show ?case
    using set.IH set.hyps(3)
    by (auto simp: string_set_agrees [OF E(1) j(1)] intro: same_span_trans split: res.splits)
next
  case (clear j)
  then have span: "same_span i (clear_all j)" by (auto intro: same_span_trans)
  then have "input_ok E (clear_all j)" "i_wire (clear_all j) = leaf_wire E l"
    using E by (auto intro: same_span_input_ok dest: same_span_wire)
  then show ?case using leaf_read_zero [OF E(1) _ _ E(4)] span by (simp add: string_mut_clear_def)
qed

text \<open>
  The invariant of a string handle: after any sequence of replacements (accepted or rejected) and
  clears on a handle that was proved once, the input still has its span, reading it never reaches the
  \<open>unreachable!\<close> branch, and a clear reads back as the empty string.
\<close>

theorem string_handle_stays_readable:
  assumes "string_reach E er l i j" and "env_ok E" "input_ok E i" "i_wire i = leaf_wire E l" "leaf_ok l"
    and "is_ok (string_mut_prove E (leaf_adapter E er l) i)"
  shows "same_span i j \<and> (\<exists>v. string_mut_get E (leaf_adapter E er l) j = Ok v) \<and>
    string_mut_get E (leaf_adapter E er l) (string_mut_clear j) = Ok (leaf_zero l)"
proof -
  note inv = string_reach_inv [OF _ assms(2-6)]
  have j: "same_span i j" "\<exists>v. leaf_read E er l j = Ok v" using inv [OF assms(1)] by blast+
  have c: "same_span i (string_mut_clear j)"
    using inv [OF string_reach.clear [OF assms(1)]] by blast
  have ok: "input_ok E j" "input_ok E (string_mut_clear j)" "i_wire (string_mut_clear j) = leaf_wire E l"
    using j(1) c assms(3,4) by (auto intro: same_span_input_ok dest: same_span_wire)
  have "leaf_read E er l (string_mut_clear j) = Ok (leaf_zero l)"
    using leaf_read_zero [OF assms(2) ok(2,3) assms(5)] by (simp add: string_mut_clear_def)
  then show ?thesis
    using j ok assms(2) by (auto simp: string_mut_get_def shared_Ok leaf_adapter_def)
qed

theorem string_handle_stays_readable_witness:
  "string_mut_get linux_x86_64 (leaf_adapter linux_x86_64 (field_errors ''Root'' ''name'') (BorrowedCStr 3))
     (string_mut_clear \<lparr>i_addr = 9, i_bytes = [0x68, 0, 0xEE], i_wire = c_str_layout 3\<rparr>) = Ok (BytesVal [])"
proof -
  let ?i = "\<lparr>i_addr = 9, i_bytes = [0x68, 0, 0xEE], i_wire = c_str_layout 3\<rparr>"
  let ?l = "BorrowedCStr 3" and ?er = "field_errors ''Root'' ''name''"
  have i: "input_ok linux_x86_64 ?i" by (simp add: input_ok_def)
  have "leaf_read linux_x86_64 ?er ?l ?i = Ok (BytesVal [0x68])"
    using i by (simp add: read_c_str_eq prove_c_str_def)
  then have "is_ok (string_mut_prove linux_x86_64 (leaf_adapter linux_x86_64 ?er ?l) ?i)"
    using i by (simp add: string_mut_prove_def shared_Ok leaf_adapter_def)
  then show ?thesis
    using string_handle_stays_readable [OF string_reach.start env_ok_linux_x86_64 i, of ?l ?er] by simp
qed

end
