(* ===== verification/Zs_Optional.thy ===== *)
theory Zs_Optional
  imports Zs_Mutation
begin

text \<open>
  Scalar enums as \<open>emit_scalar_module\<close> generates them, and the zero-sentinel optional handle \<open>OptionMut\<close> of
  \<open>src/src/mutation.rs\<close> over an \<open>OptionFieldAdapter\<close>. An enum value is its discriminant. The locale
  \<open>option_contract\<close> states what \<open>OptionMut\<close> relies on, above all that no valid value is all zero.
\<close>

section \<open>Scalar enums\<close>

record enum_decl =
  en_name :: string
  en_endian :: endian
  en_repr :: scalar_repr
  en_discs :: "nat list"

definition enum_wire :: "env \<Rightarrow> enum_decl \<Rightarrow> wlayout" where
  "enum_wire E D = prim_layout E (repr_prim (en_repr D))"

definition enum_raw :: "env \<Rightarrow> enum_decl \<Rightarrow> input \<Rightarrow> (schema_error, nat) res" where
  "enum_raw E D i = and_then (or_unreachable (read_copy E (enum_wire E D) 0 i))
     (\<lambda>wire. Ok (scalar_load E (en_endian D) (en_repr D) wire))"

definition enum_from_raw :: "enum_decl \<Rightarrow> nat \<Rightarrow> nat option" where
  "enum_from_raw D raw = (if List.member (en_discs D) raw then Some raw else None)"

definition enum_validate :: "env \<Rightarrow> enum_decl \<Rightarrow> input \<Rightarrow> (schema_error, unit) res" where
  "enum_validate E D i = and_then (enum_raw E D i)
     (\<lambda>raw. if enum_from_raw D raw \<noteq> None then Ok () else Err (unknown_enum_value (en_name D)))"

text \<open>\<open>make_ref\<close> and the reference's and the mutable's \<open>get\<close>.\<close>

definition enum_get :: "env \<Rightarrow> enum_decl \<Rightarrow> input \<Rightarrow> (schema_error, nat) res" where
  "enum_get E D i = and_then (enum_raw E D i)
     (\<lambda>raw. case enum_from_raw D raw of Some v \<Rightarrow> Ok v | None \<Rightarrow> Panic)"

definition enum_commit :: "env \<Rightarrow> enum_decl \<Rightarrow> input \<Rightarrow> nat \<Rightarrow> (schema_error, input) res" where
  "enum_commit E D i v = or_unreachable (subrange_bytes_mut E 0 (wl_size (enum_wire E D))
     (scalar_store_preflighted E (en_endian D) (en_repr D) v) i)"

definition enum_mut_set :: "env \<Rightarrow> enum_decl \<Rightarrow> input \<Rightarrow> nat \<Rightarrow> (schema_error, unit) res \<times> input" where
  "enum_mut_set E D i v = preflighted i (Ok ()) (and_then (reborrow E i) (\<lambda>j. enum_commit E D j v))"

text \<open>\<open>SchemaLogicalMutation\<close>: a scalar source needs no preflight.\<close>

definition enum_preflight_logical :: "enum_decl \<Rightarrow> input \<Rightarrow> nat \<Rightarrow> (schema_error, unit) res" where
  "enum_preflight_logical D i v = Ok ()"

text \<open>\<open>copy_from\<close> with the generated patch, whose one field is an optional value.\<close>

definition enum_patch_preflight :: "env \<Rightarrow> enum_decl \<Rightarrow> input \<Rightarrow> nat option \<Rightarrow> (schema_error, unit) res" where
  "enum_patch_preflight E D i patch =
     and_then (map_err (mutation_access (en_name D)) (enum_validate E D i)) (\<lambda>_. Ok ())"

definition enum_patch_commit :: "env \<Rightarrow> enum_decl \<Rightarrow> input \<Rightarrow> nat option \<Rightarrow> (schema_error, input) res" where
  "enum_patch_commit E D i patch = (case patch of Some v \<Rightarrow> enum_commit E D i v | None \<Rightarrow> Ok i)"

definition enum_copy_from :: "env \<Rightarrow> enum_decl \<Rightarrow> input \<Rightarrow> nat option \<Rightarrow> (schema_error, unit) res \<times> input" where
  "enum_copy_from E D i patch =
     preflighted i (and_then (shared E i) (\<lambda>s. enum_patch_preflight E D s patch))
       (and_then (reborrow E i) (\<lambda>j. enum_patch_commit E D j patch))"

text \<open>What \<open>analyze_scalar_variants\<close> guarantees: at least one variant, distinct discriminants in range.\<close>

definition enum_ok :: "enum_decl \<Rightarrow> bool" where
  "enum_ok D \<longleftrightarrow> en_discs D \<noteq> [] \<and> distinct (en_discs D) \<and>
     list_all (\<lambda>d. d < 256 ^ scalar_width (en_repr D)) (en_discs D)"

abbreviation "enum_of E D i \<equiv> wire_get E (en_endian D, repr_prim (en_repr D)) (i_bytes i)"

lemma enum_wire_size: "wl_size (enum_wire E D) = scalar_width (en_repr D)"
  by (simp add: enum_wire_def prim_layout_def scalar_width_def)

lemma wf_enum_wire [simp]: "env_ok E \<Longrightarrow> wf_layout (enum_wire E D)"
  by (simp add: enum_wire_def)

lemma enum_raw_Ok:
  "env_ok E \<Longrightarrow> input_ok E i \<Longrightarrow> i_wire i = enum_wire E D \<Longrightarrow> enum_raw E D i = Ok (enum_of E D i)"
  by (simp add: enum_raw_def read_copy_whole scalar_load_def)

lemma enum_validate_eq:
  "env_ok E \<Longrightarrow> input_ok E i \<Longrightarrow> i_wire i = enum_wire E D \<Longrightarrow>
   enum_validate E D i = (if enum_of E D i \<in> set (en_discs D) then Ok () else Err (unknown_enum_value (en_name D)))"
  by (simp add: enum_validate_def enum_raw_Ok enum_from_raw_def)

lemma enum_get_eq:
  "env_ok E \<Longrightarrow> input_ok E i \<Longrightarrow> i_wire i = enum_wire E D \<Longrightarrow>
   enum_get E D i = (if enum_of E D i \<in> set (en_discs D) then Ok (enum_of E D i) else Panic)"
  by (simp add: enum_get_def enum_raw_Ok enum_from_raw_def)

lemma enum_commit_Ok:
  assumes "env_ok E" "input_ok E i" "i_wire i = enum_wire E D" "enum_ok D" "v \<in> set (en_discs D)"
  shows "\<exists>j. enum_commit E D i v = Ok j \<and> same_span i j \<and> enum_of E D j = v"
proof -
  let ?bs = "wire_new E (en_endian D, repr_prim (en_repr D)) v"
  have len: "length (i_bytes i) = scalar_width (en_repr D)"
    using assms by (simp add: input_ok_length enum_wire_size)
  then have "enum_commit E D i v = Ok (i\<lparr>i_bytes := ?bs\<rparr>)"
    using assms by (simp add: enum_commit_def subrange_bytes_mut_whole scalar_store_preflighted_def
        wire_store_preflighted_Ok scalar_width_def enum_wire_size)
  moreover have "prim_ok (repr_prim (en_repr D)) v"
    using assms(4,5) by (auto simp: enum_ok_def list_all_iff prim_ok_def scalar_width_def)
  ultimately show ?thesis using len by (auto simp: scalar_width_def)
qed

text \<open>
  A scalar enum is proved exactly when its stored integer is a declared discriminant; a proved one
  reads as that discriminant, and \<open>set\<close> and a patch of any declared value keep it proved and read back.
\<close>

theorem enum_handle_correct:
  assumes "env_ok E" "input_ok E i" "i_wire i = enum_wire E D" "enum_ok D" "v \<in> set (en_discs D)"
  shows "(enum_validate E D i = Ok () \<longleftrightarrow> enum_of E D i \<in> set (en_discs D)) \<and>
    (enum_validate E D i = Ok () \<longrightarrow> enum_get E D i = Ok (enum_of E D i)) \<and>
    (case enum_mut_set E D i v of
       (r, j) \<Rightarrow> r = Ok () \<and> same_span i j \<and> enum_validate E D j = Ok () \<and> enum_get E D j = Ok v) \<and>
    (case enum_copy_from E D i (Some v) of
       (Ok _, j) \<Rightarrow> enum_validate E D i = Ok () \<and> enum_get E D j = Ok v
     | (Err e, j) \<Rightarrow> enum_validate E D i \<noteq> Ok () \<and> j = i
     | (Panic, j) \<Rightarrow> False)"
proof -
  obtain j where j: "enum_commit E D i v = Ok j" "same_span i j" "enum_of E D j = v"
    using enum_commit_Ok [OF assms] by blast
  then have "input_ok E j" "i_wire j = enum_wire E D"
    using assms(2,3) by (auto intro: same_span_input_ok dest: same_span_wire)
  then show ?thesis
    using assms j
    by (auto simp: enum_validate_eq enum_get_eq enum_mut_set_def enum_copy_from_def preflighted_def
        reborrow_Ok shared_Ok enum_patch_preflight_def enum_patch_commit_def)
qed

theorem enum_handle_correct_witness:
  "enum_validate linux_x86_64 \<lparr>en_name = ''Mode'', en_endian = Little, en_repr = ReprU8, en_discs = [1, 7]\<rparr>
     \<lparr>i_addr = 5, i_bytes = [7], i_wire = prim_layout linux_x86_64 U8\<rparr> = Ok ()"
proof -
  let ?D = "\<lparr>en_name = ''Mode'', en_endian = Little, en_repr = ReprU8, en_discs = [1, 7]\<rparr>"
  let ?i = "\<lparr>i_addr = 5, i_bytes = [7], i_wire = prim_layout linux_x86_64 U8\<rparr>"
  have "input_ok linux_x86_64 ?i" using wf_prim_layout [OF env_ok_linux_x86_64, of U8]
    by (simp add: input_ok_def prim_layout_def)
  moreover have "i_wire ?i = enum_wire linux_x86_64 ?D" by (simp add: enum_wire_def)
  moreover have "enum_ok ?D" by (simp add: enum_ok_def scalar_width_def)
  moreover have "enum_of linux_x86_64 ?D ?i = 7" by (simp add: wire_get_def decode_bytes.simps)
  ultimately show ?thesis
    using enum_handle_correct [OF env_ok_linux_x86_64, of ?i ?D 7] by simp
qed

section \<open>Optional fields\<close>

record ('r, 'v) option_adapter =
  op_owner :: string
  op_storage :: wlayout
  op_value :: wlayout
  op_offset :: usize
  op_validate :: "input \<Rightarrow> (schema_error, unit) res"
  op_read :: "input \<Rightarrow> (schema_error, 'r) res"
  op_make_mut :: "input \<Rightarrow> (schema_error, input) res"
  op_preflight_init :: "input \<Rightarrow> 'v \<Rightarrow> (schema_error, unit) res"
  op_commit_init :: "input \<Rightarrow> 'v \<Rightarrow> (schema_error, input) res"

definition option_mut_prove :: "env \<Rightarrow> ('r, 'v) option_adapter \<Rightarrow> input \<Rightarrow> (schema_error, input) res" where
  "option_mut_prove E A i = and_then (shared E i) (\<lambda>s.
     if is_all_zero s then Ok i
     else and_then (map_err (access_layout (op_owner A)) (subrange E (op_value A) (op_offset A) i))
            (\<lambda>value. and_then (op_validate A value) (\<lambda>_. Ok i)))"

definition option_mut_get :: "env \<Rightarrow> ('r, 'v) option_adapter \<Rightarrow> input \<Rightarrow> (schema_error, 'r option) res" where
  "option_mut_get E A i = and_then (shared E i) (\<lambda>s.
     if is_all_zero s then Ok None
     else and_then (or_unreachable (subrange E (op_value A) (op_offset A) i))
            (\<lambda>value. and_then (or_unreachable (op_read A value)) (\<lambda>r. Ok (Some r))))"

text \<open>The child capability is the reborrowed value input; \<open>write_back\<close> ends the reborrow.\<close>

definition option_mut_get_mut :: "env \<Rightarrow> ('r, 'v) option_adapter \<Rightarrow> input \<Rightarrow> (schema_error, input option) res" where
  "option_mut_get_mut E A i = and_then (shared E i) (\<lambda>s.
     if is_all_zero s then Ok None
     else and_then (or_unreachable (subrange_mut E (op_value A) (op_offset A) i))
            (\<lambda>value. and_then (or_unreachable (op_make_mut A value)) (\<lambda>m. Ok (Some m))))"

definition option_clear :: "input \<Rightarrow> input" where
  "option_clear i = clear_all i"

definition option_mut_set :: "env \<Rightarrow> ('r, 'v) option_adapter \<Rightarrow> input \<Rightarrow> 'v option \<Rightarrow> (schema_error, unit) res \<times> input" where
  "option_mut_set E A i x =
     (case x of
        None \<Rightarrow> preflighted i (Ok ()) (and_then (reborrow E i) (\<lambda>j. Ok (option_clear j)))
      | Some v \<Rightarrow> preflighted i
          (and_then (map_err (mutation_layout (op_owner A)) (subrange E (op_value A) (op_offset A) i))
             (\<lambda>s. op_preflight_init A s v))
          (and_then (map_err (mutation_layout (op_owner A)) (subrange_mut E (op_value A) (op_offset A) i))
             (\<lambda>s. and_then (op_commit_init A s v) (\<lambda>c. Ok (write_back (op_offset A) c i)))))"

text \<open>The value span, and the state of a live optional handle: absent, or present with a validated value.\<close>

definition option_value :: "('r, 'v) option_adapter \<Rightarrow> input \<Rightarrow> input" where
  "option_value A i = sub_input (op_value A) (op_offset A) i"

definition option_proved :: "env \<Rightarrow> ('r, 'v) option_adapter \<Rightarrow> input \<Rightarrow> bool" where
  "option_proved E A i \<longleftrightarrow> input_ok E i \<and> i_wire i = op_storage A \<and>
     (is_all_zero i \<or> op_validate A (option_value A i) = Ok ())"

subsection \<open>The optional contract\<close>

locale option_contract =
  fixes E :: env and ok :: bool and A :: "('r, 'v) option_adapter" and val_ok :: "'v \<Rightarrow> bool"
    and shows_val :: "'r \<Rightarrow> 'v \<Rightarrow> bool"
  assumes env: "ok \<Longrightarrow> env_ok E"
    and value_fits: "ok \<Longrightarrow> field_fits (op_value A) (op_offset A) (op_storage A)"
    and validate_total: "ok \<Longrightarrow> input_ok E v \<Longrightarrow> i_wire v = op_value A \<Longrightarrow> op_validate A v \<noteq> Panic"
    and validated_reads: "ok \<Longrightarrow> input_ok E v \<Longrightarrow> i_wire v = op_value A \<Longrightarrow> op_validate A v = Ok () \<Longrightarrow>
      (\<exists>r. op_read A v = Ok r) \<and> op_make_mut A v = Ok v"
    and never_zero: "ok \<Longrightarrow> input_ok E v \<Longrightarrow> i_wire v = op_value A \<Longrightarrow> op_validate A v = Ok () \<Longrightarrow> \<not> is_all_zero v"
    and preflight_total: "ok \<Longrightarrow> input_ok E v \<Longrightarrow> i_wire v = op_value A \<Longrightarrow> val_ok x \<Longrightarrow> op_preflight_init A v x \<noteq> Panic"
    and commit_init_law: "ok \<Longrightarrow> input_ok E v \<Longrightarrow> i_wire v = op_value A \<Longrightarrow> val_ok x \<Longrightarrow>
      op_preflight_init A v x = Ok () \<Longrightarrow> \<exists>c r. op_commit_init A v x = Ok c \<and> same_span v c \<and>
        op_validate A c = Ok () \<and> op_read A c = Ok r \<and> shows_val r x"
begin

lemma select:
  assumes "ok" "input_ok E i" "i_wire i = op_storage A"
  shows "subrange E (op_value A) (op_offset A) i = Ok (option_value A i)" "input_ok E (option_value A i)"
    "i_wire (option_value A i) = op_value A" "op_offset A + wl_size (op_value A) \<le> length (i_bytes i)"
  using assms env value_fits subrange_Ok sub_input_ok
  by (auto simp: option_value_def field_fits_def input_ok_length)

lemma prove_iff:
  assumes "ok" "input_ok E i" "i_wire i = op_storage A"
  shows "option_mut_prove E A i = Ok i \<longleftrightarrow> option_proved E A i" "option_mut_prove E A i \<noteq> Panic"
  using assms select [OF assms] env validate_total
  by (auto simp: option_mut_prove_def option_proved_def shared_Ok)

lemma get_of_proved:
  assumes "ok" "option_proved E A i"
  shows "\<exists>r. option_mut_get E A i = Ok r \<and> (r = None \<longleftrightarrow> is_all_zero i)"
    and "option_mut_get_mut E A i = Ok (if is_all_zero i then None else Some (option_value A i))"
proof -
  have i: "input_ok E i" "i_wire i = op_storage A" using assms(2) by (simp_all add: option_proved_def)
  note sel = select [OF assms(1) i]
  have "\<exists>r. op_read A (option_value A i) = Ok r" "op_make_mut A (option_value A i) = Ok (option_value A i)"
    if "\<not> is_all_zero i"
    using that assms sel validated_reads [OF assms(1) sel(2,3)] by (auto simp: option_proved_def)
  then show "\<exists>r. option_mut_get E A i = Ok r \<and> (r = None \<longleftrightarrow> is_all_zero i)"
    "option_mut_get_mut E A i = Ok (if is_all_zero i then None else Some (option_value A i))"
    using assms sel env i
    by (auto simp: option_mut_get_def option_mut_get_mut_def shared_Ok subrange_mut_eq)
qed

text \<open>A write that leaves a validated value in the value span makes the field present and proved.\<close>

lemma present_write_back:
  assumes "ok" "input_ok E i" "i_wire i = op_storage A" "same_span (option_value A i) c" "op_validate A c = Ok ()"
  shows "option_proved E A (write_back (op_offset A) c i)" "\<not> is_all_zero (write_back (op_offset A) c i)"
    "same_span i (write_back (op_offset A) c i)" "option_value A (write_back (op_offset A) c i) = c"
    "\<And>k. k < length (i_bytes i) \<Longrightarrow> k < op_offset A \<or> op_offset A + wl_size (op_value A) \<le> k \<Longrightarrow>
       i_bytes (write_back (op_offset A) c i) ! k = i_bytes i ! k"
proof -
  note sel = select [OF assms(1-3)]
  let ?j = "write_back (op_offset A) c i"
  show span: "same_span i ?j"
    using assms(4) sel(4) unfolding option_value_def by (rule write_back_same_span)
  show wb: "option_value A ?j = c"
    using assms(4) sel(4) unfolding option_value_def by (rule sub_input_write_back)
  have j: "input_ok E ?j" "i_wire ?j = op_storage A"
    using span assms(2,3) by (auto intro: same_span_input_ok dest: same_span_wire)
  have c: "input_ok E c" "i_wire c = op_value A"
    using assms(4) sel by (auto intro: same_span_input_ok dest: same_span_wire)
  then have "\<not> is_all_zero c" using never_zero assms(1,5) by blast
  then show "\<not> is_all_zero ?j"
    using wb all_zero_slice [of "i_bytes ?j" "op_offset A" "wl_size (op_value A)"]
    unfolding option_value_def is_all_zero_def by (metis sub_input_sel(2))
  then show "option_proved E A ?j" using j wb assms(5) by (simp add: option_proved_def)
  show "i_bytes ?j ! k = i_bytes i ! k"
    if "k < length (i_bytes i)" "k < op_offset A \<or> op_offset A + wl_size (op_value A) \<le> k" for k
    using that sel(4) c by (auto simp: write_back_def overwrite_nth input_ok_length)
qed

lemma set_none:
  assumes "ok" "input_ok E i" "i_wire i = op_storage A"
  shows "option_mut_set E A i None = (Ok (), clear_all i)" "option_proved E A (clear_all i)"
    "option_mut_get E A (clear_all i) = Ok None"
proof -
  have c: "input_ok E (clear_all i)" "i_wire (clear_all i) = op_storage A"
    using assms same_span_input_ok [OF same_span_clear_all] by (auto simp: clear_all_def)
  then show "option_proved E A (clear_all i)" by (simp add: option_proved_def)
  show "option_mut_set E A i None = (Ok (), clear_all i)"
    using assms env by (simp add: option_mut_set_def preflighted_def reborrow_Ok option_clear_def)
  show "option_mut_get E A (clear_all i) = Ok None"
    using c env assms(1) by (simp add: option_mut_get_def shared_Ok)
qed

lemma set_some:
  assumes "ok" "input_ok E i" "i_wire i = op_storage A" "val_ok x"
  shows "case option_mut_set E A i (Some x) of
      (Ok _, j) \<Rightarrow> option_proved E A j \<and> same_span i j \<and>
        (\<exists>r. option_mut_get E A j = Ok (Some r) \<and> shows_val r x) \<and>
        (\<forall>k < length (i_bytes i). k < op_offset A \<or> op_offset A + wl_size (op_value A) \<le> k \<longrightarrow>
           i_bytes j ! k = i_bytes i ! k)
    | (Err e, j) \<Rightarrow> j = i \<and> op_preflight_init A (option_value A i) x = Err e
    | (Panic, j) \<Rightarrow> False"
proof (cases "op_preflight_init A (option_value A i) x")
  case (Ok u)
  note sel = select [OF assms(1-3)]
  obtain c r where c: "op_commit_init A (option_value A i) x = Ok c" "same_span (option_value A i) c"
    "op_validate A c = Ok ()" "op_read A c = Ok r" "shows_val r x"
    using commit_init_law [OF assms(1) sel(2,3) assms(4)] Ok by auto
  note wb = present_write_back [OF assms(1-3) c(2,3)]
  let ?j = "write_back (op_offset A) c i"
  have j: "input_ok E ?j" "i_wire ?j = op_storage A"
    using wb(3) assms(2,3) by (auto intro: same_span_input_ok dest: same_span_wire)
  have "option_mut_set E A i (Some x) = (Ok (), ?j)"
    using sel(1) Ok c(1) by (simp add: option_mut_set_def preflighted_def subrange_mut_eq)
  moreover have "option_mut_get E A ?j = Ok (Some r)"
    using select(1) [OF assms(1) j] wb(2,4) c(4) j env [OF assms(1)] by (simp add: option_mut_get_def shared_Ok)
  ultimately show ?thesis using wb(1,3,5) c(5) by auto
next
  case (Err e)
  then show ?thesis
    using select(1) [OF assms(1-3)] by (simp add: option_mut_set_def preflighted_def)
next
  case Panic
  then show ?thesis using preflight_total [OF assms(1) select(2,3) [OF assms(1-3)] assms(4)] by simp
qed

end

subsection \<open>Storage of an aligned field\<close>

text \<open>
  \<open>wire_field_type\<close>: a field with an \<open>align\<close> option is wrapped in \<open>AlignedWire\<close> and its value starts at
  \<open>VALUE_OFFSET\<close>. \<open>parse_alignment\<close> admits the powers of two up to \<open>2 ^ 29\<close>.
\<close>

fun storage_wire :: "wlayout \<Rightarrow> nat option \<Rightarrow> wlayout" where
  "storage_wire w None = w"
| "storage_wire w (Some a) = aligned_layout w a"

fun value_offset :: "wlayout \<Rightarrow> nat option \<Rightarrow> nat" where
  "value_offset w None = 0"
| "value_offset w (Some a) = aligned_value_offset w a"

definition align_ok :: "nat option \<Rightarrow> bool" where
  "align_ok a \<longleftrightarrow> (case a of None \<Rightarrow> True | Some n \<Rightarrow> List.member (map (\<lambda>k. 2 ^ k) [0..<30]) n)"

lemma align_okD: "align_ok (Some a) \<Longrightarrow> \<exists>k. a = 2 ^ k"
  by (auto simp: align_ok_def)

lemma wf_storage_wire: "wf_layout w \<Longrightarrow> align_ok a \<Longrightarrow> wf_layout (storage_wire w a)"
  by (cases a) (auto dest!: align_okD intro: wf_aligned_layout)

lemma value_fits_storage: "wf_layout w \<Longrightarrow> align_ok a \<Longrightarrow> field_fits w (value_offset w a) (storage_wire w a)"
  by (cases a) (auto dest!: align_okD intro: aligned_value_fits simp del: aligned_value_offset_0)

lemma value_offset_0: "wf_layout w \<Longrightarrow> align_ok a \<Longrightarrow> value_offset w a = 0"
  by (cases a) (auto dest!: align_okD)

subsection \<open>Optional scalar enums\<close>

text \<open>The adapter \<open>option_field_adapter\<close> generates for a field \<open>f: Option<D>\<close> of the schema \<open>nm\<close>.\<close>

definition enum_option :: "env \<Rightarrow> string \<Rightarrow> string \<Rightarrow> enum_decl \<Rightarrow> nat option \<Rightarrow> (nat, nat) option_adapter" where
  "enum_option E nm f D a = \<lparr>op_owner = nm, op_storage = storage_wire (enum_wire E D) a, op_value = enum_wire E D,
     op_offset = value_offset (enum_wire E D) a,
     op_validate = (\<lambda>i. map_err (access_child nm f) (enum_validate E D i)),
     op_read = (\<lambda>i. and_then (map_err (access_child nm f) (enum_validate E D i)) (\<lambda>_. enum_get E D i)),
     op_make_mut = (\<lambda>i. and_then (map_err (access_child nm f) (and_then (shared E i) (enum_validate E D))) (\<lambda>_. Ok i)),
     op_preflight_init = (\<lambda>i v. map_err (\<lambda>_. mutation_field_kind nm f KCapacityExceeded) (enum_preflight_logical D i v)),
     op_commit_init = enum_commit E D\<rparr>"

definition enum_option_ok :: "env \<Rightarrow> enum_decl \<Rightarrow> nat option \<Rightarrow> bool" where
  "enum_option_ok E D a \<longleftrightarrow> env_ok E \<and> enum_ok D \<and> 0 \<notin> set (en_discs D) \<and> align_ok a"

lemma enum_of_zero: "is_all_zero i \<Longrightarrow> enum_of E D i = 0"
  unfolding is_all_zero_def all_zero_iff by (metis wire_get_0)

interpretation enum_opt: option_contract E "enum_option_ok E D a" "enum_option E nm f D a" "\<lambda>v. v \<in> set (en_discs D)" "(=)"
  for E D a nm f
proof unfold_locales
  fix v x
  assume ok: "enum_option_ok E D a" and v: "input_ok E v" "i_wire v = op_value (enum_option E nm f D a)"
  then have E: "env_ok E" "enum_ok D" "0 \<notin> set (en_discs D)" and w: "i_wire v = enum_wire E D"
    by (simp_all add: enum_option_ok_def enum_option_def)
  show "op_validate (enum_option E nm f D a) v \<noteq> Panic"
    using E v w by (simp add: enum_option_def enum_validate_eq)
  show "op_validate (enum_option E nm f D a) v = Ok () \<Longrightarrow>
    (\<exists>r. op_read (enum_option E nm f D a) v = Ok r) \<and> op_make_mut (enum_option E nm f D a) v = Ok v"
    using E v w by (simp add: enum_option_def enum_validate_eq enum_get_eq shared_Ok split: if_splits)
  show "op_validate (enum_option E nm f D a) v = Ok () \<Longrightarrow> \<not> is_all_zero v"
    using E v w enum_of_zero [of v E D] by (auto simp: enum_option_def enum_validate_eq split: if_splits)
  show "op_preflight_init (enum_option E nm f D a) v x \<noteq> Panic"
    by (simp add: enum_option_def enum_preflight_logical_def)
  assume x: "x \<in> set (en_discs D)"
  obtain c where c: "enum_commit E D v x = Ok c" "same_span v c" "enum_of E D c = x"
    using enum_commit_Ok [OF E(1) v(1) w E(2) x] by blast
  then have "input_ok E c" "i_wire c = enum_wire E D"
    using v w by (auto intro: same_span_input_ok dest: same_span_wire)
  with c E x show "\<exists>c r. op_commit_init (enum_option E nm f D a) v x = Ok c \<and> same_span v c \<and>
      op_validate (enum_option E nm f D a) c = Ok () \<and> op_read (enum_option E nm f D a) c = Ok r \<and> r = x"
    by (auto simp: enum_option_def enum_validate_eq enum_get_eq)
qed (auto simp: enum_option_ok_def enum_option_def value_fits_storage)

text \<open>
  C23. The zero sentinel is unambiguous for an optional scalar enum without a zero discriminant: a live
  handle reads \<open>None\<close> exactly on an all-zero span and never panics; \<open>set(None)\<close> zeroes the complete storage;
  \<open>set(Some(v))\<close> reads back as \<open>Some(v)\<close> and leaves the field's alignment padding as it was.
\<close>

theorem option_enum_sentinel:
  assumes "enum_option_ok E D a" "option_proved E (enum_option E nm f D a) i" "v \<in> set (en_discs D)"
  shows "(\<exists>r. option_mut_get E (enum_option E nm f D a) i = Ok r \<and> (r = None \<longleftrightarrow> is_all_zero i)) \<and>
    option_mut_set E (enum_option E nm f D a) i None = (Ok (), clear_all i) \<and>
    option_mut_get E (enum_option E nm f D a) (clear_all i) = Ok None \<and>
    (\<exists>j. option_mut_set E (enum_option E nm f D a) i (Some v) = (Ok (), j) \<and>
       option_proved E (enum_option E nm f D a) j \<and>
       option_mut_get E (enum_option E nm f D a) j = Ok (Some v) \<and>
       (\<forall>k < length (i_bytes i). wl_size (enum_wire E D) \<le> k \<longrightarrow> i_bytes j ! k = i_bytes i ! k))"
proof -
  let ?A = "enum_option E nm f D a"
  have i: "input_ok E i" "i_wire i = op_storage ?A" using assms(2) by (simp_all add: option_proved_def)
  have w: "op_value ?A = enum_wire E D" "op_offset ?A = 0"
    using assms(1) by (simp_all add: enum_option_def enum_option_ok_def value_offset_0)
  have "op_preflight_init ?A (option_value ?A i) v = Ok ()"
    by (simp add: enum_option_def enum_preflight_logical_def)
  then have "\<exists>j. option_mut_set E ?A i (Some v) = (Ok (), j) \<and> option_proved E ?A j \<and>
      option_mut_get E ?A j = Ok (Some v) \<and>
      (\<forall>k < length (i_bytes i). wl_size (enum_wire E D) \<le> k \<longrightarrow> i_bytes j ! k = i_bytes i ! k)"
    using enum_opt.set_some [OF assms(1) i assms(3)] w
    by (auto split: prod.splits res.splits)
  then show ?thesis
    using enum_opt.get_of_proved(1) [OF assms(1,2)] enum_opt.set_none [OF assms(1) i] by blast
qed

theorem option_enum_sentinel_witness:
  "option_mut_get linux_x86_64
     (enum_option linux_x86_64 ''Root'' ''mode'' \<lparr>en_name = ''Mode'', en_endian = Little, en_repr = ReprU8, en_discs = [1, 7]\<rparr> (Some 4))
     (clear_all \<lparr>i_addr = 8, i_bytes = [0, 0, 0, 0], i_wire = aligned_layout (prim_layout linux_x86_64 U8) 4\<rparr>) = Ok None"
proof -
  let ?D = "\<lparr>en_name = ''Mode'', en_endian = Little, en_repr = ReprU8, en_discs = [1, 7]\<rparr>"
  let ?A = "enum_option linux_x86_64 ''Root'' ''mode'' ?D (Some 4)"
  let ?w = "aligned_layout (prim_layout linux_x86_64 U8) 4"
  let ?i = "\<lparr>i_addr = 8, i_bytes = [0, 0, 0, 0], i_wire = ?w\<rparr>"
  have "align_ok (Some 4)" by (auto simp: align_ok_def intro: image_eqI [of _ _ 2])
  then have ok: "enum_option_ok linux_x86_64 ?D (Some 4)"
    by (auto simp: enum_option_ok_def enum_ok_def scalar_width_def)
  have w: "wl_size ?w = 4" "wl_align ?w = 4"
    by (simp_all add: aligned_layout_def aligned_members_def align_marker_def array_layout_def prim_layout_def
        repr_c_def round_up_def)
  have "wf_layout ?w" using wf_aligned_layout [OF wf_prim_layout [OF env_ok_linux_x86_64], of 4 2] by simp
  then have "option_proved linux_x86_64 ?A ?i"
    using w by (simp add: option_proved_def input_ok_def enum_option_def enum_wire_def is_all_zero_def all_zero_def)
  then show ?thesis using option_enum_sentinel [OF ok, of "''Root''" "''mode''" ?i 7] by simp
qed

text \<open>
  Mutating through the child capability keeps the optional field present: when \<open>get_mut\<close> yields the
  value span and the child leaves any declared discriminant in it, the field is still proved and \<open>get\<close>
  still returns a value, never \<open>None\<close>.
\<close>

theorem option_child_stays_present:
  assumes "enum_option_ok E D a" "option_proved E (enum_option E nm f D a) i"
    and "option_mut_get_mut E (enum_option E nm f D a) i = Ok (Some m)" "v \<in> set (en_discs D)"
  shows "case enum_mut_set E D m v of (r, c) \<Rightarrow> r = Ok () \<and>
    option_proved E (enum_option E nm f D a) (write_back (op_offset (enum_option E nm f D a)) c i) \<and>
    (\<exists>r. option_mut_get E (enum_option E nm f D a) (write_back (op_offset (enum_option E nm f D a)) c i) = Ok (Some r))"
proof -
  let ?A = "enum_option E nm f D a"
  have i: "input_ok E i" "i_wire i = op_storage ?A" using assms(2) by (simp_all add: option_proved_def)
  have m: "m = option_value ?A i"
    using enum_opt.get_of_proved(2) [OF assms(1,2)] assms(3) by (auto split: if_splits)
  have E: "env_ok E" "enum_ok D" using assms(1) by (simp_all add: enum_option_ok_def)
  have mw: "input_ok E m" "i_wire m = enum_wire E D"
    using enum_opt.select(2,3) [OF assms(1) i] m by (simp_all add: enum_option_def)
  obtain c where c: "enum_commit E D m v = Ok c" "same_span m c" "enum_of E D c = v"
    using enum_commit_Ok [OF E(1) mw E(2) assms(4)] by blast
  have "input_ok E c" "i_wire c = enum_wire E D"
    using c(2) mw by (auto intro: same_span_input_ok dest: same_span_wire)
  then have valid: "op_validate ?A c = Ok ()"
    using c(3) E assms(4) by (simp add: enum_option_def enum_validate_eq)
  note wb = enum_opt.present_write_back [OF assms(1) i c(2) [unfolded m] valid]
  have "\<exists>r. option_mut_get E ?A (write_back (op_offset ?A) c i) = Ok (Some r)"
    using enum_opt.get_of_proved(1) [OF assms(1) wb(1)] wb(2) by fastforce
  with wb(1) c(1) mw E(1) show ?thesis
    by (simp add: enum_mut_set_def preflighted_def reborrow_Ok)
qed

theorem option_child_stays_present_witness:
  "case enum_mut_set linux_x86_64 \<lparr>en_name = ''Mode'', en_endian = Little, en_repr = ReprU8, en_discs = [1, 7]\<rparr>
     \<lparr>i_addr = 8, i_bytes = [7], i_wire = prim_layout linux_x86_64 U8\<rparr> 1 of (r, c) \<Rightarrow> r = Ok ()"
proof -
  let ?D = "\<lparr>en_name = ''Mode'', en_endian = Little, en_repr = ReprU8, en_discs = [1, 7]\<rparr>"
  let ?A = "enum_option linux_x86_64 ''Root'' ''mode'' ?D None"
  let ?i = "\<lparr>i_addr = 8, i_bytes = [7], i_wire = prim_layout linux_x86_64 U8\<rparr>"
  have ok: "enum_option_ok linux_x86_64 ?D None"
    by (simp add: enum_option_ok_def enum_ok_def scalar_width_def align_ok_def)
  have i: "input_ok linux_x86_64 ?i" using wf_prim_layout [OF env_ok_linux_x86_64, of U8]
    by (simp add: input_ok_def prim_layout_def)
  have val: "option_value ?A ?i = ?i"
    by (simp add: option_value_def enum_option_def enum_wire_def sub_input_def prim_layout_def slice_def)
  have "enum_of linux_x86_64 ?D ?i = 7" by (simp add: wire_get_def decode_bytes.simps)
  then have proved: "option_proved linux_x86_64 ?A ?i"
    using i val by (simp add: option_proved_def enum_option_def enum_wire_def enum_validate_eq)
  moreover have "option_mut_get_mut linux_x86_64 ?A ?i = Ok (Some ?i)"
    using enum_opt.get_of_proved(2) [OF ok proved] val by (simp add: is_all_zero_def all_zero_def)
  ultimately show ?thesis
    using option_child_stays_present [OF ok, of "''Root''" "''mode''" ?i ?i 1] by (auto split: prod.splits)
qed

end
