(* ===== verification/Zs_Parse.thy ===== *)
theory Zs_Parse
  imports Zs_Optional
begin

text \<open>
  The attribute grammar, \<open>zero-schema-macros/src/parse.rs\<close>: the options of a container, a field and a tagged
  variant. A nested meta item is its path and the one token its value parses from; what \<open>syn\<close> rejects on
  its own is \<open>SynDiag\<close>, the macro's own diagnostics are their text. Spans are not modelled. \<open>H\<close> is the host
  the macro runs on, whose \<open>usize\<close> bounds the literals.
\<close>

section \<open>Tokens and diagnostics\<close>

datatype diag = SynDiag | Diag string

text \<open>An integer literal token: its digits with the radix prefix, and its suffix.\<close>

datatype lit_int = LitInt (li_digits: string) (li_suffix: string)

datatype meta_value = MStr string | MInt lit_int | MIdent string | MPath "string list" | MLifetime string | MNone

record meta =
  me_path :: "string list"
  me_value :: meta_value

record attribute =
  at_path :: "string list"
  at_metas :: "meta list"

definition is_zero_attr :: "attribute \<Rightarrow> bool" where
  "is_zero_attr a \<longleftrightarrow> at_path a = [''zero'']"

section \<open>Options\<close>

record container_options =
  co_endian :: endian
  co_endian_set :: bool
  co_align :: "nat option"
  co_runtime :: "string list option"
  co_borrow :: "string option"

definition default_container :: container_options where
  "default_container = \<lparr>co_endian = Native, co_endian_set = False, co_align = None, co_runtime = None, co_borrow = None\<rparr>"

record field_options =
  fo_capacity :: "nat option"
  fo_len_type :: "string option"
  fo_endian :: "endian option"
  fo_align :: "nat option"
  fo_tag_field :: "string option"

definition default_field :: field_options where
  "default_field = \<lparr>fo_capacity = None, fo_len_type = None, fo_endian = None, fo_align = None, fo_tag_field = None\<rparr>"

section \<open>Integer literals\<close>

definition digit_value :: "char \<Rightarrow> nat option" where
  "digit_value c = (let n = of_char c :: nat in
     if 48 \<le> n \<and> n \<le> 57 then Some (n - 48)
     else if 97 \<le> n \<and> n \<le> 122 then Some (n - 87)
     else if 65 \<le> n \<and> n \<le> 90 then Some (n - 55) else None)"

fun radix_value :: "nat \<Rightarrow> nat \<Rightarrow> nat \<Rightarrow> string \<Rightarrow> nat option" where
  "radix_value limit radix acc [] = Some acc"
| "radix_value limit radix acc (c # cs) = (case digit_value c of
     None \<Rightarrow> None
   | Some d \<Rightarrow> if d < radix \<and> acc * radix + d < limit then radix_value limit radix (acc * radix + d) cs else None)"

text \<open>\<open>from_str_radix\<close> of an unsigned type with \<open>limit\<close> values; a leading plus sign is accepted.\<close>

definition from_str_radix :: "nat \<Rightarrow> string \<Rightarrow> nat \<Rightarrow> nat option" where
  "from_str_radix limit s radix = (case s of
     [] \<Rightarrow> None
   | c # cs \<Rightarrow> if c = CHR ''+'' \<and> cs \<noteq> [] then radix_value limit radix 0 cs else radix_value limit radix 0 s)"

text \<open>\<open>strip_prefix\<close> of the three radix prefixes, after the underscores are removed.\<close>

definition radix_digits :: "string \<Rightarrow> nat \<times> string" where
  "radix_digits text = (
     if take 2 text = ''0x'' then (16, drop 2 text)
     else if take 2 text = ''0o'' then (8, drop 2 text)
     else if take 2 text = ''0b'' then (2, drop 2 text)
     else (10, text))"

definition literal_text :: "lit_int \<Rightarrow> string" where
  "literal_text l = filter (\<lambda>c. c \<noteq> CHR ''_'') (li_digits l @ li_suffix l)"

definition parse_unsigned :: "lit_int \<Rightarrow> nat \<Rightarrow> string \<Rightarrow> (diag, nat) res" where
  "parse_unsigned l maximum what =
     (case radix_digits (literal_text l) of (radix, digits) \<Rightarrow>
       (case from_str_radix (2 ^ 128) digits radix of
          None \<Rightarrow> Err (Diag (what @ '' is out of range''))
        | Some v \<Rightarrow> if v > maximum then Err (Diag (what @ '' is out of range'')) else Ok v))"

section \<open>Option values\<close>

definition parse_endian :: "meta \<Rightarrow> (diag, endian) res" where
  "parse_endian me = (case me_value me of
     MStr s \<Rightarrow>
       if s = ''native'' then Ok Native else if s = ''little'' then Ok Little else if s = ''big'' then Ok Big
       else Err (Diag ''endian must be \"native\", \"little\", or \"big\"'')
   | _ \<Rightarrow> Err SynDiag)"

definition is_power_of_two :: "nat \<Rightarrow> bool" where
  "is_power_of_two n \<longleftrightarrow> list_ex (\<lambda>k. n = 2 ^ k) [0..<32]"

definition parse_alignment :: "meta \<Rightarrow> (diag, nat) res" where
  "parse_alignment me = (case me_value me of
     MInt l \<Rightarrow>
       if li_suffix l \<noteq> [] then Err (Diag ''alignment must be an unsuffixed integer literal'')
       else and_then (parse_unsigned l (2 ^ 32 - 1) ''alignment'') (\<lambda>v.
         if v = 0 \<or> \<not> is_power_of_two v \<or> v > 2 ^ 29
         then Err (Diag ''alignment must be a power of two no greater than 2^29'') else Ok v)
   | _ \<Rightarrow> Err SynDiag)"

definition parse_capacity :: "env \<Rightarrow> meta \<Rightarrow> (diag, nat) res" where
  "parse_capacity H me = (case me_value me of
     MInt l \<Rightarrow>
       if li_suffix l \<noteq> [] then Err (Diag ''capacity must be an unsuffixed integer literal'')
       else parse_unsigned l (usize_limit H - 1) ''capacity''
   | _ \<Rightarrow> Err SynDiag)"

fun value_path :: "meta_value \<Rightarrow> (diag, string list) res" where
  "value_path (MPath p) = Ok p" | "value_path (MIdent s) = Ok [s]" | "value_path _ = Err SynDiag"

fun value_ident :: "meta_value \<Rightarrow> (diag, string) res" where
  "value_ident (MIdent s) = Ok s" | "value_ident _ = Err SynDiag"

fun value_lifetime :: "meta_value \<Rightarrow> (diag, string) res" where
  "value_lifetime (MLifetime s) = Ok s" | "value_lifetime _ = Err SynDiag"

section \<open>Meta items\<close>

definition meta_key :: "meta \<Rightarrow> (diag, string) res" where
  "meta_key me = (case me_path me of [s] \<Rightarrow> Ok s | _ \<Rightarrow> Err (Diag ''zero option names must be identifiers''))"

text \<open>\<open>duplicate\<close> inserts the key in any case and reports a second insertion.\<close>

definition duplicate :: "string list \<Rightarrow> string \<Rightarrow> (diag, unit) res \<times> string list" where
  "duplicate seen k = (if List.member seen k then Err (Diag (''duplicate zero option `'' @ k @ ''`'')) else Ok (), k # seen)"

text \<open>The common head of the two handlers: key, duplicate check, then the option itself.\<close>

definition with_key :: "meta \<Rightarrow> string list \<Rightarrow> 'o \<Rightarrow> (string \<Rightarrow> (diag, 'o) res) \<Rightarrow> (diag, unit) res \<times> ('o \<times> string list)" where
  "with_key me seen options handle = (case meta_key me of
     Ok option \<Rightarrow> (case duplicate seen option of
       (Ok _, seen') \<Rightarrow> (case handle option of
           Ok options' \<Rightarrow> (Ok (), (options', seen')) | Err e \<Rightarrow> (Err e, (options, seen')) | Panic \<Rightarrow> (Panic, (options, seen')))
     | (Err e, seen') \<Rightarrow> (Err e, (options, seen'))
     | (Panic, seen') \<Rightarrow> (Panic, (options, seen')))
   | Err e \<Rightarrow> (Err e, (options, seen))
   | Panic \<Rightarrow> (Panic, (options, seen)))"

definition parse_container_meta ::
    "meta \<Rightarrow> container_options \<times> string list \<Rightarrow> (diag, unit) res \<times> (container_options \<times> string list)" where
  "parse_container_meta me st = (case st of (options, seen) \<Rightarrow> with_key me seen options (\<lambda>option.
     if option = ''endian'' then and_then (parse_endian me) (\<lambda>v. Ok (options\<lparr>co_endian := v, co_endian_set := True\<rparr>))
     else if option = ''align'' then and_then (parse_alignment me) (\<lambda>v. Ok (options\<lparr>co_align := Some v\<rparr>))
     else if option = ''crate'' then and_then (value_path (me_value me)) (\<lambda>v. Ok (options\<lparr>co_runtime := Some v\<rparr>))
     else if option = ''borrow'' then and_then (value_lifetime (me_value me)) (\<lambda>v. Ok (options\<lparr>co_borrow := Some v\<rparr>))
     else if option = ''tag'' then Err (Diag ''tag is only valid on tagged-enum variants'')
     else Err (Diag (''unknown container zero option `'' @ option @ ''`''))))"

definition parse_field_meta ::
    "env \<Rightarrow> meta \<Rightarrow> field_options \<times> string list \<Rightarrow> (diag, unit) res \<times> (field_options \<times> string list)" where
  "parse_field_meta H me st = (case st of (options, seen) \<Rightarrow> with_key me seen options (\<lambda>option.
     if option = ''capacity'' then and_then (parse_capacity H me) (\<lambda>v. Ok (options\<lparr>fo_capacity := Some v\<rparr>))
     else if option = ''len_type'' then and_then (value_ident (me_value me)) (\<lambda>v.
       if \<not> List.member [''u8'', ''u16'', ''u32''] v then Err (Diag ''len_type must be u8, u16, or u32'')
       else Ok (options\<lparr>fo_len_type := Some v\<rparr>))
     else if option = ''endian'' then and_then (parse_endian me) (\<lambda>v. Ok (options\<lparr>fo_endian := Some v\<rparr>))
     else if option = ''align'' then and_then (parse_alignment me) (\<lambda>v. Ok (options\<lparr>fo_align := Some v\<rparr>))
     else if option = ''tag_field'' then and_then (value_ident (me_value me)) (\<lambda>v. Ok (options\<lparr>fo_tag_field := Some v\<rparr>))
     else if List.member [''crate'', ''borrow'', ''tag''] option
       then Err (Diag (''`'' @ option @ ''` is not a field zero option''))
     else Err (Diag (''unknown field zero option `'' @ option @ ''`''))))"

definition parse_variant_meta :: "meta \<Rightarrow> string list option \<Rightarrow> (diag, unit) res \<times> string list option" where
  "parse_variant_meta me option = (case meta_key me of
     Ok k \<Rightarrow>
       if k \<noteq> ''tag'' then (Err (Diag (''`'' @ k @ ''` is not a tagged-variant zero option'')), option)
       else if option \<noteq> None then (Err (Diag ''duplicate zero option `tag`''), option)
       else (case value_path (me_value me) of
           Ok p \<Rightarrow> (Ok (), Some p) | Err e \<Rightarrow> (Err e, option) | Panic \<Rightarrow> (Panic, option))
   | Err e \<Rightarrow> (Err e, option)
   | Panic \<Rightarrow> (Panic, option))"

section \<open>Attribute lists\<close>

text \<open>\<open>parse_nested_meta\<close> runs the handler on the items in order and stops at its first error.\<close>

fun nested_meta :: "('s \<Rightarrow> meta \<Rightarrow> (diag, unit) res \<times> 's) \<Rightarrow> meta list \<Rightarrow> 's \<Rightarrow> (diag, unit) res \<times> 's" where
  "nested_meta handle [] s = (Ok (), s)"
| "nested_meta handle (me # ms) s = (case handle s me of (Ok _, s') \<Rightarrow> nested_meta handle ms s' | (r, s') \<Rightarrow> (r, s'))"

text \<open>The attributes are all visited and their errors combined in order; a panic of the handler ends the loop.\<close>

fun parse_groups :: "('s \<Rightarrow> meta \<Rightarrow> (diag, unit) res \<times> 's) \<Rightarrow> meta list list \<Rightarrow> 's \<Rightarrow> (diag list, unit) res \<times> 's" where
  "parse_groups handle [] s = (Ok (), s)"
| "parse_groups handle (g # gs) s = (case nested_meta handle g s of
     (Panic, s') \<Rightarrow> (Panic, s')
   | (Ok _, s') \<Rightarrow> parse_groups handle gs s'
   | (Err e, s') \<Rightarrow> (case parse_groups handle gs s' of
       (Ok _, s'') \<Rightarrow> (Err [e], s'') | (Err es, s'') \<Rightarrow> (Err (e # es), s'') | (Panic, s'') \<Rightarrow> (Panic, s'')))"

definition zero_groups :: "attribute list \<Rightarrow> meta list list" where
  "zero_groups attrs = map at_metas (filter is_zero_attr attrs)"

definition container_from_tokens_and_attrs :: "meta list \<Rightarrow> attribute list \<Rightarrow> (diag list, container_options) res" where
  "container_from_tokens_and_attrs tokens attrs =
     (case parse_groups (\<lambda>s me. parse_container_meta me s) (tokens # zero_groups attrs) (default_container, []) of
        (r, (options, seen)) \<Rightarrow> and_then r (\<lambda>_. Ok options))"

definition field_options_of :: "env \<Rightarrow> attribute list \<Rightarrow> (diag list, field_options) res" where
  "field_options_of H attrs =
     (case parse_groups (\<lambda>s me. parse_field_meta H me s) (zero_groups attrs) (default_field, []) of
        (r, (options, seen)) \<Rightarrow> and_then r (\<lambda>_. Ok options))"

definition variant_options_of :: "attribute list \<Rightarrow> (diag list, string list option) res" where
  "variant_options_of attrs =
     (case parse_groups (\<lambda>s me. parse_variant_meta me s) (zero_groups attrs) None of
        (r, option) \<Rightarrow> and_then r (\<lambda>_. Ok option))"

section \<open>Literals are read exactly\<close>

lemma digit_value_char: "d < 16 \<Longrightarrow> digit_value (digit_char d) = Some d"
  by (auto simp: digit_value_def digit_char_def Let_def)

lemma radix_value_digits:
  assumes "1 < radix" "list_all (\<lambda>d. d < radix) ds" "radix \<le> 16"
  shows "radix_value limit radix acc (map digit_char ds) =
    (if foldl (\<lambda>a d. a * radix + d) acc ds < limit \<or> ds = [] then Some (foldl (\<lambda>a d. a * radix + d) acc ds) else None)"
  using assms(2)
proof (induction ds arbitrary: acc)
  case (Cons d ds)
  have grow: "a \<le> foldl (\<lambda>a d. a * radix + d) a ds" for a
  proof (induction ds arbitrary: a)
    case (Cons x xs)
    have "a \<le> a * radix + x" using assms(1) by (simp add: trans_le_add1)
    also have "\<dots> \<le> foldl (\<lambda>a d. a * radix + d) (a * radix + x) xs" by (rule Cons)
    finally show ?case by simp
  qed simp
  show ?case
    using Cons assms(3) grow [of "acc * radix + d"] by (auto simp: digit_value_char)
qed simp

lemma digits_in_value: "1 < base \<Longrightarrow> foldl (\<lambda>a d. a * base + d) 0 (digits_in base n) = n \<and> list_all (\<lambda>d. d < base) (digits_in base n) \<and> digits_in base n \<noteq> []"
proof (induction base n rule: digits_in.induct)
  case (1 base n)
  then show ?case
    by (cases "n < base") (auto simp: digits_in.simps [of base n])
qed

lemma digit_value_special: "digit_value (CHR ''+'') = None" "digit_value (CHR ''_'') = None" "\<exists>d \<ge> 16. digit_value (CHR ''x'') = Some d"
  "\<exists>d \<ge> 16. digit_value (CHR ''o'') = Some d" "digit_value (CHR ''b'') = Some 11"
  by (simp_all add: digit_value_def Let_def)

lemma digit_char_neq:
  assumes "d < 16"
  shows "digit_char d \<noteq> CHR ''+''" "digit_char d \<noteq> CHR ''_''" "digit_char d \<noteq> CHR ''x''" "digit_char d \<noteq> CHR ''o''" "d < 10 \<Longrightarrow> digit_char d \<noteq> CHR ''b''"
  using digit_value_char [OF assms] digit_value_special assms by (auto simp del: One_nat_def)

lemma literal_digits:
  assumes "1 < radix" "radix \<le> 16"
  shows "from_str_radix limit (map digit_char (digits_in radix n)) radix = (if n < limit then Some n else None)"
proof -
  have ds: "foldl (\<lambda>a d. a * radix + d) 0 (digits_in radix n) = n" "list_all (\<lambda>d. d < radix) (digits_in radix n)" "digits_in radix n \<noteq> []"
    using digits_in_value [OF assms(1)] by blast+
  then obtain d rest where d: "digits_in radix n = d # rest" "d < 16"
    using assms(2) by (cases "digits_in radix n") (auto simp: list_all_iff)
  have "from_str_radix limit (map digit_char (digits_in radix n)) radix = radix_value limit radix 0 (map digit_char (digits_in radix n))"
    using d digit_char_neq(1) [OF d(2)] by (simp add: from_str_radix_def del: radix_value.simps)
  then show ?thesis using radix_value_digits [OF assms(1) ds(2) assms(2), of limit 0] ds(1,3) by simp
qed

lemma digits_no_underscore:
  assumes "1 < radix" "radix \<le> 16"
  shows "filter (\<lambda>c. c \<noteq> CHR ''_'') (map digit_char (digits_in radix n)) = map digit_char (digits_in radix n)"
proof -
  have "\<forall>d \<in> set (digits_in radix n). d < 16" using digits_in_value [OF assms(1), of n] assms(2) by (auto simp: list_all_iff)
  then show ?thesis using digit_char_neq(2) by (auto simp: filter_id_conv)
qed

lemma decimal_prefix:
  "radix_digits (fmt_decimal n) = (10, fmt_decimal n)"
proof -
  have ds: "\<forall>d \<in> set (digits_in 10 n). d < 10" using digits_in_value [of 10 n] by (auto simp: list_all_iff)
  obtain x rest where x: "digits_in 10 n = x # rest" using digits_in_value [of 10 n] by (cases "digits_in 10 n") auto
  show ?thesis
  proof (cases rest)
    case Nil
    then show ?thesis using x by (simp add: radix_digits_def fmt_decimal_def)
  next
    case (Cons y ys)
    have "y < 10" using ds x Cons by simp
    then show ?thesis
      using x Cons digit_char_neq(3-5) [of y] by (simp add: radix_digits_def fmt_decimal_def)
  qed
qed

text \<open>
  Integer options are read exactly: the decimal rendering of a number, and its hexadecimal rendering
  after \<open>0x\<close>, parse as that number when it is at most the given maximum and fits 128 bits, and are refused
  otherwise; underscores anywhere in a literal do not matter.
\<close>

theorem parse_unsigned_exact:
  "parse_unsigned (LitInt (fmt_decimal n) []) maximum what =
     (if n \<le> maximum \<and> n < 2 ^ 128 then Ok n else Err (Diag (what @ '' is out of range''))) \<and>
   parse_unsigned (LitInt (''0x'' @ fmt_lower_hex n) []) maximum what =
     (if n \<le> maximum \<and> n < 2 ^ 128 then Ok n else Err (Diag (what @ '' is out of range''))) \<and>
   parse_unsigned (LitInt s suffix) maximum what = parse_unsigned (LitInt (filter (\<lambda>c. c \<noteq> CHR ''_'') s) suffix) maximum what"
proof -
  have dec: "literal_text (LitInt (fmt_decimal n) []) = fmt_decimal n"
    using digits_no_underscore [of 10 n] by (simp add: literal_text_def fmt_decimal_def)
  have hex: "literal_text (LitInt (''0x'' @ fmt_lower_hex n) []) = ''0x'' @ fmt_lower_hex n"
    using digits_no_underscore [of 16 n] by (simp add: literal_text_def fmt_lower_hex_def)
  have "radix_digits (''0x'' @ fmt_lower_hex n) = (16, fmt_lower_hex n)" by (simp add: radix_digits_def)
  moreover have "from_str_radix (2 ^ 128) (fmt_decimal n) 10 = (if n < 2 ^ 128 then Some n else None)"
    "from_str_radix (2 ^ 128) (fmt_lower_hex n) 16 = (if n < 2 ^ 128 then Some n else None)"
    unfolding fmt_decimal_def fmt_lower_hex_def by (rule literal_digits; simp)+
  ultimately show ?thesis
    using dec hex decimal_prefix [of n] by (simp add: parse_unsigned_def literal_text_def [of "LitInt s suffix"] literal_text_def [of "LitInt (filter _ s) suffix"])
qed

section \<open>What accepted options satisfy\<close>

lemma nested_meta_inv:
  assumes "\<And>s me. I s \<Longrightarrow> I (snd (handle s me))" "I s"
  shows "I (snd (nested_meta handle ms s))"
  using assms(2)
proof (induction ms arbitrary: s)
  case (Cons me ms)
  show ?case
    using Cons.IH assms(1) [OF Cons.prems, of me] by (cases "handle s me"; cases "fst (handle s me)") auto
qed simp

lemma parse_groups_inv:
  assumes "\<And>s me. I s \<Longrightarrow> I (snd (handle s me))" "I s"
  shows "I (snd (parse_groups handle gs s))"
  using assms(2)
proof (induction gs arbitrary: s)
  case (Cons g gs)
  have "I (snd (nested_meta handle g s))" by (rule nested_meta_inv [where I = I, OF assms(1) Cons.prems])
  from this Cons.IH [OF this] show ?case by (cases "nested_meta handle g s"; cases "fst (nested_meta handle g s)") (auto split: prod.splits res.splits)
qed simp

lemma with_key_inv:
  assumes "I options" "\<And>k options'. handle k = Ok options' \<Longrightarrow> I options'"
  shows "I (fst (snd (with_key me seen options handle)))"
  using assms by (auto simp: with_key_def duplicate_def split: res.splits prod.splits)

lemma parse_alignment_ok: "parse_alignment me = Ok v \<Longrightarrow> align_ok (Some v)"
proof -
  assume "parse_alignment me = Ok v"
  then obtain k where k: "v = 2 ^ k" "v \<le> 2 ^ 29"
    by (auto simp: parse_alignment_def is_power_of_two_def list_ex_iff split: meta_value.splits if_splits)
  then have "k \<le> 29" using power_le_imp_le_exp [of "2 :: nat" k 29] by (metis one_less_numeral_iff semiring_norm(76))
  then show "align_ok (Some v)" using k(1) by (simp add: align_ok_def)
qed

lemma container_options_ok: "container_from_tokens_and_attrs tokens attrs = Ok options \<Longrightarrow> align_ok (co_align options)"
proof -
  let ?h = "\<lambda>s me. parse_container_meta me s" and ?I = "\<lambda>s :: container_options \<times> string list. align_ok (co_align (fst s))"
  have step: "?I (snd (?h s me))" if "?I s" for s me
  proof (cases s)
    case (Pair options seen)
    show ?thesis
      unfolding parse_container_meta_def Pair prod.case
      by (rule with_key_inv [where I = "\<lambda>options. align_ok (co_align options)"])
        (use that Pair in \<open>auto dest: parse_alignment_ok split: if_splits\<close>)
  qed
  have "?I (default_container, [])" by (simp add: default_container_def align_ok_def)
  from parse_groups_inv [where I = ?I and handle = ?h, OF step this, of "tokens # zero_groups attrs"]
  show "container_from_tokens_and_attrs tokens attrs = Ok options \<Longrightarrow> align_ok (co_align options)"
    by (auto simp: container_from_tokens_and_attrs_def split: prod.splits if_splits simp del: parse_groups.simps)
qed

definition len_type_ok :: "string option \<Rightarrow> bool" where
  "len_type_ok t \<longleftrightarrow> (case t of None \<Rightarrow> True | Some s \<Rightarrow> List.member [''u8'', ''u16'', ''u32''] s)"

lemma field_options_ok:
  "field_options_of H attrs = Ok options \<Longrightarrow> align_ok (fo_align options) \<and> len_type_ok (fo_len_type options)"
proof -
  let ?h = "\<lambda>s me. parse_field_meta H me s"
  let ?J = "\<lambda>options. align_ok (fo_align options) \<and> len_type_ok (fo_len_type options)"
  let ?I = "\<lambda>s :: field_options \<times> string list. ?J (fst s)"
  have step: "?I (snd (?h s me))" if "?I s" for s me
  proof (cases s)
    case (Pair options seen)
    show ?thesis
      unfolding parse_field_meta_def Pair prod.case
      by (rule with_key_inv [where I = ?J])
        (use that Pair in \<open>auto simp: len_type_ok_def dest: parse_alignment_ok split: if_splits\<close>)
  qed
  have "?I (default_field, [])" by (simp add: default_field_def align_ok_def len_type_ok_def)
  from parse_groups_inv [where I = ?I and handle = ?h, OF step this, of "zero_groups attrs"]
  show "field_options_of H attrs = Ok options \<Longrightarrow> ?J options"
    by (auto simp: field_options_of_def split: prod.splits if_splits simp del: parse_groups.simps)
qed

section \<open>No option panics\<close>

lemma nested_meta_total: "(\<And>s me. fst (handle s me) \<noteq> Panic) \<Longrightarrow> fst (nested_meta handle ms s) \<noteq> Panic"
proof (induction ms arbitrary: s)
  case (Cons me ms)
  then show ?case using Cons.prems [of s me] by (cases "handle s me"; cases "fst (handle s me)") auto
qed simp

lemma parse_groups_total:
  assumes "\<And>s me. fst (handle s me) \<noteq> Panic"
  shows "fst (parse_groups handle gs s) \<noteq> Panic"
proof (induction gs arbitrary: s)
  case (Cons g gs)
  then show ?case
    using nested_meta_total [of handle g s, OF assms] by (cases "nested_meta handle g s"; cases "fst (nested_meta handle g s)")
      (auto split: prod.splits res.splits, metis fst_conv)
qed simp

lemma with_key_total: "(\<And>k. handle k \<noteq> Panic) \<Longrightarrow> fst (with_key me seen options handle) \<noteq> Panic"
  by (auto simp: with_key_def meta_key_def duplicate_def split: list.splits res.splits)

lemma parse_unsigned_total: "parse_unsigned l m what \<noteq> Panic"
  by (simp add: parse_unsigned_def split: prod.splits option.splits)

lemma option_values_total:
  "parse_endian me \<noteq> Panic" "parse_alignment me \<noteq> Panic" "parse_capacity H me \<noteq> Panic"
  "value_path v \<noteq> Panic" "value_ident v \<noteq> Panic" "value_lifetime v \<noteq> Panic"
  by (auto simp: parse_endian_def parse_alignment_def parse_capacity_def parse_unsigned_total split: meta_value.splits)
    (cases v; simp)+

lemma options_total:
  "container_from_tokens_and_attrs args attrs \<noteq> Panic" "field_options_of H attrs \<noteq> Panic" "variant_options_of attrs \<noteq> Panic"
proof -
  have "fst (parse_container_meta me s) \<noteq> Panic" for me s
    unfolding parse_container_meta_def by (cases s) (auto intro!: with_key_total simp: option_values_total split: if_splits)
  from parse_groups_total [of "\<lambda>s me. parse_container_meta me s", OF this]
  show "container_from_tokens_and_attrs args attrs \<noteq> Panic"
    by (auto simp: container_from_tokens_and_attrs_def split: prod.splits simp del: parse_groups.simps) (metis fst_conv)
  have "fst (parse_field_meta H me s) \<noteq> Panic" for me s
    unfolding parse_field_meta_def by (cases s) (auto intro!: with_key_total simp: option_values_total split: if_splits)
  from parse_groups_total [of "\<lambda>s me. parse_field_meta H me s", OF this]
  show "field_options_of H attrs \<noteq> Panic"
    by (auto simp: field_options_of_def split: prod.splits simp del: parse_groups.simps) (metis fst_conv)
  have "fst (parse_variant_meta me s) \<noteq> Panic" for me s
    using option_values_total(4) by (auto simp: parse_variant_meta_def meta_key_def split: list.splits res.splits)
  from parse_groups_total [of "\<lambda>s me. parse_variant_meta me s", OF this]
  show "variant_options_of attrs \<noteq> Panic"
    by (auto simp: variant_options_of_def split: prod.splits simp del: parse_groups.simps) (metis fst_conv)
qed

end
