(* ===== verification/Zs_Analyze.thy ===== *)
theory Zs_Analyze
  imports Zs_Parse
begin

text \<open>
  The declaration analysis, \<open>zero-schema-macros/src/analyze.rs\<close>: classification of field types, field options,
  external tags, scalar and tagged enums, generated names. Syntax trees are the parts of \<open>syn\<close>'s that the
  analysis inspects; strings are ASCII. The token printer is a parameter where its output is used.
\<close>

section \<open>Declarations\<close>

datatype syn_type =
    TyPath bool bool "(string \<times> path_args) list"
  | TyReference "string option" bool syn_type
  | TyArray syn_type len_expr
  | TyOther
and path_args = NoArgs | AngleArgs "generic_arg list" | ParenArgs
and generic_arg = TypeArg syn_type | OtherArg
and len_expr = LenInt lit_int | LenPath bool "(string \<times> path_args) list" | LenOther

text \<open>\<open>TyPath qself leading_colon segments\<close> and \<open>TyReference lifetime mutable target\<close>.\<close>

datatype ir_length = Literal nat | Symbolic len_expr

datatype ir_category =
    IrPrimitive primitive
  | IrBool
  | IrBorrowedStr nat string endian string
  | IrBorrowedCStr nat string
  | IrBorrowedU16Str nat string endian string
  | IrBorrowedU16CStr nat string
  | IrFixedBytes ir_length string
  | IrPath bool "nat option"
  | IrArray ir_category ir_length
  | IrOptional syn_type ir_category

record field_decl =
  fd_ident :: string
  fd_ty :: syn_type
  fd_attrs :: "attribute list"

record ir_field =
  if_name :: string
  if_index :: nat
  if_ty :: syn_type
  if_options :: field_options
  if_category :: ir_category
  if_endian :: endian

datatype struct_body = NamedBody "field_decl list" | OtherBody

text \<open>The fields of a variant carry their attributes.\<close>

datatype variant_fields = UnitFields | UnnamedFields "(attribute list \<times> syn_type) list" | NamedFields "(attribute list \<times> syn_type) list"

datatype disc_expr = DiscInt lit_int | DiscOther

record variant_decl =
  vd_ident :: string
  vd_fields :: variant_fields
  vd_disc :: "disc_expr option"
  vd_attrs :: "attribute list"

datatype variant_shape = UnitShape | NewtypeShape syn_type

record ir_variant =
  iv_name :: string
  iv_shape :: variant_shape
  iv_tag :: "string list"
  iv_tag_type :: "string list"
  iv_raw :: "nat option"

datatype item_kind = StructItem | ScalarEnumItem scalar_repr | TaggedEnumItem

abbreviation "fail s \<equiv> Err [Diag s]"

section \<open>Types\<close>

fun normalized_ident :: "string \<Rightarrow> string" where
  "normalized_ident s = (case s of c # d # rest \<Rightarrow> if c = CHR ''r'' \<and> d = CHR ''#'' then normalized_ident rest else s | _ \<Rightarrow> s)"

declare normalized_ident.simps [simp del]

definition is_single_ident :: "syn_type \<Rightarrow> string \<Rightarrow> bool" where
  "is_single_ident ty want = (case ty of TyPath False leading segs \<Rightarrow> \<not> leading \<and> segs = [(want, NoArgs)] | _ \<Rightarrow> False)"

text \<open>The name of a primitive path: one plain segment, or one under \<open>core::primitive\<close> or \<open>std::primitive\<close>.\<close>

definition primitive_ident :: "syn_type \<Rightarrow> string option" where
  "primitive_ident ty = (case ty of
     TyPath False leading segs \<Rightarrow> (case segs of
         [(name, NoArgs)] \<Rightarrow> Some name
       | [(root, NoArgs), (prim, NoArgs), (name, NoArgs)] \<Rightarrow>
           if (root = ''core'' \<or> root = ''std'') \<and> prim = ''primitive'' then Some name else None
       | _ \<Rightarrow> None)
   | _ \<Rightarrow> None)"

definition primitive_of :: "syn_type \<Rightarrow> primitive option" where
  "primitive_of ty = (case primitive_ident ty of None \<Rightarrow> None | Some s \<Rightarrow> map_of
     [(''u8'', U8), (''i8'', I8), (''u16'', U16), (''i16'', I16), (''u32'', U32), (''i32'', I32),
      (''u64'', U64), (''i64'', I64), (''f32'', F32), (''f64'', F64)] s)"

definition bool_type :: "syn_type \<Rightarrow> bool" where
  "bool_type ty \<longleftrightarrow> primitive_ident ty = Some ''bool''"

definition borrowed_target :: "syn_type \<Rightarrow> (string \<times> syn_type) option" where
  "borrowed_target ty = (case ty of TyReference (Some lifetime) False target \<Rightarrow> Some (lifetime, target) | _ \<Rightarrow> None)"

definition simple_const_path :: "(string \<times> path_args) list \<Rightarrow> bool" where
  "simple_const_path segs = list_all (\<lambda>(s, args). args = NoArgs) segs"

definition array_length :: "env \<Rightarrow> len_expr \<Rightarrow> (diag list, ir_length) res" where
  "array_length H len = (case len of
     LenInt l \<Rightarrow>
       if li_suffix l \<noteq> [] then fail ''array length must be an unsuffixed integer literal''
       else and_then (map_err (\<lambda>e. [e]) (parse_unsigned l (usize_limit H - 1) ''array length'')) (\<lambda>v.
         if v = 0 then fail ''zero-length schema arrays are unsupported'' else Ok (Literal v))
   | LenPath qself segs \<Rightarrow>
       if \<not> qself \<and> simple_const_path segs then Ok (Symbolic len)
       else fail ''array length must be a nonzero integer literal, direct const parameter, or simple const path''
   | LenOther \<Rightarrow> fail ''array length must be a nonzero integer literal, direct const parameter, or simple const path'')"

definition required_capacity :: "field_options \<Rightarrow> (diag list, nat) res" where
  "required_capacity options = (case fo_capacity options of
     Some n \<Rightarrow> Ok n | None \<Rightarrow> fail ''borrowed string fields require #[zero(capacity = N)]'')"

definition length_type :: "field_options \<Rightarrow> string" where
  "length_type options = (case fo_len_type options of Some s \<Rightarrow> s | None \<Rightarrow> ''u32'')"

definition borrowed_string :: "string \<Rightarrow> syn_type \<Rightarrow> field_options \<Rightarrow> (diag list, ir_category option) res" where
  "borrowed_string lifetime target options =
     (if is_single_ident target ''str'' then
        and_then (required_capacity options) (\<lambda>n. Ok (Some (IrBorrowedStr n (length_type options) Native lifetime)))
      else if is_single_ident target ''CStr'' then
        and_then (required_capacity options) (\<lambda>n. Ok (Some (IrBorrowedCStr n lifetime)))
      else if is_single_ident target ''U16Str'' then
        and_then (required_capacity options) (\<lambda>n. Ok (Some (IrBorrowedU16Str n (length_type options) Native lifetime)))
      else if is_single_ident target ''U16CStr'' then
        and_then (required_capacity options) (\<lambda>n. Ok (Some (IrBorrowedU16CStr n lifetime)))
      else Ok None)"

section \<open>Optional fields\<close>

definition is_canonical_option_path :: "(string \<times> path_args) list \<Rightarrow> bool" where
  "is_canonical_option_path segs \<longleftrightarrow> map fst segs = [''Option''] \<or>
     map fst segs = [''core'', ''option'', ''Option''] \<or> map fst segs = [''std'', ''option'', ''Option'']"

definition path_ends_in_option :: "syn_type \<Rightarrow> bool" where
  "path_ends_in_option ty = (case ty of TyPath False leading segs \<Rightarrow> segs \<noteq> [] \<and> fst (last segs) = ''Option'' | _ \<Rightarrow> False)"

definition classify_optional_inner :: "env \<Rightarrow> syn_type \<Rightarrow> (diag list, ir_category) res" where
  "classify_optional_inner H ty =
     (if path_ends_in_option ty then
        fail ''nested Option<Option<T>> is unsupported; the all-zero sentinel represents one absence state''
      else if primitive_of ty \<noteq> None \<or> bool_type ty then
        fail ''Option<T> cannot use a primitive or bool T because the all-zero wire is valid''
      else case ty of
        TyReference lifetime m target \<Rightarrow> fail ''Option<T> cannot use string or fixed-byte T because the all-zero wire can be valid''
      | TyArray elem len \<Rightarrow> and_then (array_length H len) (\<lambda>length.
          if path_ends_in_option elem then
            fail ''Option<T> is not supported as a fixed-array element; put Option around the complete array''
          else if primitive_of elem \<noteq> None \<or> bool_type elem then
            fail ''Option<[T; N]> requires an all-zero-invalid scalar-enum or schema element''
          else case elem of
            TyPath False leading segs \<Rightarrow> Ok (IrArray (IrPath False None) length)
          | _ \<Rightarrow> fail ''Option<[T; N]> requires an all-zero-invalid scalar-enum or schema element'')
      | TyPath False leading segs \<Rightarrow> Ok (IrPath False None)
      | _ \<Rightarrow> fail ''Option<T> cannot use string or fixed-byte T because the all-zero wire can be valid'')"

definition classify_option_field :: "env \<Rightarrow> syn_type \<Rightarrow> (diag list, ir_category option) res" where
  "classify_option_field H ty = (case ty of
     TyPath False leading segs \<Rightarrow>
       if segs = [] \<or> fst (last segs) \<noteq> ''Option'' then Ok None
       else if \<not> is_canonical_option_path segs then
         fail ''Option must be spelled Option<T>, core::option::Option<T>, or std::option::Option<T>''
       else (case snd (last segs) of
           AngleArgs [TypeArg inner] \<Rightarrow> and_then (classify_optional_inner H inner) (\<lambda>c. Ok (Some (IrOptional inner c)))
         | _ \<Rightarrow> fail ''zero-sentinel Option fields require exactly one type argument: Option<T>'')
   | _ \<Rightarrow> Ok None)"

section \<open>Fields\<close>

fun classify_array_element :: "env \<Rightarrow> syn_type \<Rightarrow> field_options \<Rightarrow> (diag list, ir_category) res" where
  "classify_array_element H ty options =
     (if path_ends_in_option ty then
        fail ''Option<T> is not supported as a fixed-array element; put Option around the complete array''
      else case primitive_of ty of
        Some p \<Rightarrow> Ok (IrPrimitive p)
      | None \<Rightarrow>
        if bool_type ty then Ok IrBool
        else and_then (case borrowed_target ty of
            Some (lifetime, target) \<Rightarrow> borrowed_string lifetime target options | None \<Rightarrow> Ok None) (\<lambda>s. case s of
          Some c \<Rightarrow> Ok c
        | None \<Rightarrow> (case ty of
            TyArray elem len \<Rightarrow> and_then (array_length H len) (\<lambda>length.
              and_then (classify_array_element H elem options) (\<lambda>element. Ok (IrArray element length)))
          | TyPath qself leading segs \<Rightarrow> Ok (IrPath False None)
          | _ \<Rightarrow> fail ''array elements must be primitives, bool, scalar enums, finite nested schemas, bounded borrowed strings (&str, &CStr, &U16Str, &U16CStr), or nested fixed arrays of those'')))"

declare classify_array_element.simps [simp del]

definition classify_field :: "env \<Rightarrow> syn_type \<Rightarrow> field_options \<Rightarrow> (diag list, ir_category) res" where
  "classify_field H ty options =
     (case primitive_of ty of
        Some p \<Rightarrow> Ok (IrPrimitive p)
      | None \<Rightarrow>
        if bool_type ty then Ok IrBool
        else (case borrowed_target ty of
          Some (lifetime, target) \<Rightarrow> and_then (borrowed_string lifetime target options) (\<lambda>s. case s of
              Some c \<Rightarrow> Ok c
            | None \<Rightarrow> (case target of
                TyArray elem len \<Rightarrow>
                  if is_single_ident elem ''u8'' then and_then (array_length H len) (\<lambda>length. Ok (IrFixedBytes length lifetime))
                  else fail ''unsupported borrowed field; use &str, &CStr, &U16Str, &U16CStr, or &[u8; N]''
              | _ \<Rightarrow> fail ''unsupported borrowed field; use &str, &CStr, &U16Str, &U16CStr, or &[u8; N]''))
        | None \<Rightarrow> and_then (classify_option_field H ty) (\<lambda>s. case s of
              Some c \<Rightarrow> Ok c
            | None \<Rightarrow> (case ty of
                TyArray elem len \<Rightarrow> and_then (array_length H len) (\<lambda>length.
                  and_then (classify_array_element H elem options) (\<lambda>element. Ok (IrArray element length)))
              | TyPath qself leading segs \<Rightarrow> Ok (IrPath (fo_tag_field options \<noteq> None) None)
              | _ \<Rightarrow> fail ''unsupported schema field type''))))"

fun is_string_category :: "ir_category \<Rightarrow> bool" where
  "is_string_category (IrBorrowedStr n t e l) = True" | "is_string_category (IrBorrowedCStr n l) = True"
| "is_string_category (IrBorrowedU16Str n t e l) = True" | "is_string_category (IrBorrowedU16CStr n l) = True"
| "is_string_category _ = False"

text \<open>The innermost element of an array, and the array with that element replaced.\<close>

fun inner_leaf :: "ir_category \<Rightarrow> ir_category" where
  "inner_leaf (IrArray e n) = inner_leaf e" | "inner_leaf c = c"

fun array_leaf :: "ir_category \<Rightarrow> ir_category option" where
  "array_leaf (IrArray e n) = Some (inner_leaf e)" | "array_leaf c = None"

fun set_leaf :: "ir_category \<Rightarrow> ir_category \<Rightarrow> ir_category" where
  "set_leaf leaf (IrArray e n) = IrArray (set_leaf leaf e) n" | "set_leaf leaf c = leaf"

text \<open>The options against one category that is not an array of strings.\<close>

fun apply_leaf_options :: "ir_category \<Rightarrow> field_options \<Rightarrow> endian \<Rightarrow> (diag list, ir_category) res" where
  "apply_leaf_options (IrPrimitive p) options fallback =
     (if fo_capacity options \<noteq> None \<or> fo_len_type options \<noteq> None \<or> fo_tag_field options \<noteq> None
      then fail ''this zero option is not applicable to a primitive field'' else Ok (IrPrimitive p))"
| "apply_leaf_options (IrBorrowedStr n t e l) options fallback =
     (if fo_tag_field options \<noteq> None then fail ''tag_field is only applicable to tagged payload fields''
      else Ok (IrBorrowedStr n t (case fo_endian options of None \<Rightarrow> fallback | Some v \<Rightarrow> v) l))"
| "apply_leaf_options (IrBorrowedU16Str n t e l) options fallback =
     (if fo_tag_field options \<noteq> None then fail ''tag_field is only applicable to tagged payload fields''
      else Ok (IrBorrowedU16Str n t (case fo_endian options of None \<Rightarrow> fallback | Some v \<Rightarrow> v) l))"
| "apply_leaf_options (IrBorrowedCStr n l) options fallback =
     (if fo_len_type options \<noteq> None \<or> fo_endian options \<noteq> None \<or> fo_tag_field options \<noteq> None
      then fail ''this zero option is not applicable to this string field''
      else if n = 0 then fail ''nul-terminated string capacity must be nonzero'' else Ok (IrBorrowedCStr n l))"
| "apply_leaf_options (IrBorrowedU16CStr n l) options fallback =
     (if fo_len_type options \<noteq> None \<or> fo_endian options \<noteq> None \<or> fo_tag_field options \<noteq> None
      then fail ''this zero option is not applicable to this string field''
      else if n = 0 then fail ''nul-terminated string capacity must be nonzero'' else Ok (IrBorrowedU16CStr n l))"
| "apply_leaf_options (IrPath tagged t) options fallback =
     (if fo_capacity options \<noteq> None \<or> fo_len_type options \<noteq> None \<or> fo_endian options \<noteq> None
      then fail ''this zero option is not applicable to a schema field'' else Ok (IrPath (fo_tag_field options \<noteq> None) t))"
| "apply_leaf_options (IrOptional ty c) options fallback =
     (if fo_tag_field options \<noteq> None
      then fail ''tag_field cannot be applied to Option<T>; an externally tagged payload has no standalone optional sentinel''
      else if fo_capacity options \<noteq> None \<or> fo_len_type options \<noteq> None \<or> fo_endian options \<noteq> None
      then fail ''align is the only zero field option accepted by Option<T>'' else Ok (IrOptional ty c))"
| "apply_leaf_options c options fallback =
     (if fo_capacity options \<noteq> None \<or> fo_len_type options \<noteq> None \<or> fo_endian options \<noteq> None \<or> fo_tag_field options \<noteq> None
      then fail ''this zero option is not applicable to this field'' else Ok c)"

definition apply_field_options :: "ir_category \<Rightarrow> field_options \<Rightarrow> endian \<Rightarrow> (diag list, ir_category) res" where
  "apply_field_options c options fallback = (case array_leaf c of
     Some leaf \<Rightarrow>
       if is_string_category leaf then and_then (apply_leaf_options leaf options fallback) (\<lambda>leaf'. Ok (set_leaf leaf' c))
       else apply_leaf_options c options fallback
   | None \<Rightarrow> apply_leaf_options c options fallback)"

section \<open>External tags\<close>

definition is_tagged :: "ir_category \<Rightarrow> bool" where
  "is_tagged c = (case c of IrPath True t \<Rightarrow> True | _ \<Rightarrow> False)"

text \<open>The name table maps a repeated name to its last field.\<close>

definition lookup_field :: "ir_field list \<Rightarrow> string \<Rightarrow> nat option" where
  "lookup_field fs name = map_of (rev (zip (map if_name fs) [0..<length fs])) name"

text \<open>
  The loop of \<open>link_external_tags\<close>; its \<open>expect\<close> on the field's \<open>tag_field\<close> option and its \<open>unreachable!\<close> on
  the payload's category are the two \<open>Panic\<close> branches.
\<close>

fun link_from :: "nat list \<Rightarrow> nat list \<Rightarrow> ir_field list \<Rightarrow> (diag list, ir_field list) res" where
  "link_from [] claimed fs = Ok fs"
| "link_from (k # ks) claimed fs =
     (if \<not> is_tagged (if_category (fs ! k)) then link_from ks claimed fs
      else case fo_tag_field (if_options (fs ! k)) of
        None \<Rightarrow> Panic
      | Some requested \<Rightarrow> (case lookup_field fs (normalized_ident requested) of
          None \<Rightarrow> fail (''tag_field `'' @ normalized_ident requested @ ''` does not name a sibling field'')
        | Some t \<Rightarrow>
            if t = k then fail ''tag_field cannot name the payload field itself''
            else if \<not> (case if_category (fs ! t) of IrPath False u \<Rightarrow> True | _ \<Rightarrow> False)
            then fail ''tag_field must name a scalar-enum schema field''
            else if List.member claimed t then fail ''each external tag field may be used by exactly one tagged payload''
            else (case if_category (fs ! k) of
                IrPath tagged u \<Rightarrow> link_from ks (t # claimed) (fs[k := (fs ! k)\<lparr>if_category := IrPath tagged (Some t)\<rparr>])
              | _ \<Rightarrow> Panic)))"

definition link_external_tags :: "ir_field list \<Rightarrow> (diag list, ir_field list) res" where
  "link_external_tags fs = link_from [0..<length fs] [] fs"

section \<open>Structs\<close>

definition analyze_field :: "env \<Rightarrow> container_options \<Rightarrow> nat \<Rightarrow> field_decl \<Rightarrow> (diag list, ir_field) res" where
  "analyze_field H options index d =
     and_then (field_options_of H (fd_attrs d)) (\<lambda>fo.
     and_then (classify_field H (fd_ty d) fo) (\<lambda>c.
     and_then (apply_field_options c fo (co_endian options)) (\<lambda>c'.
     Ok \<lparr>if_name = normalized_ident (fd_ident d), if_index = index, if_ty = fd_ty d, if_options = fo, if_category = c',
       if_endian = (case fo_endian fo of None \<Rightarrow> co_endian options | Some v \<Rightarrow> v)\<rparr>)))"

fun analyze_fields :: "env \<Rightarrow> container_options \<Rightarrow> nat \<Rightarrow> field_decl list \<Rightarrow> (diag list, ir_field list) res" where
  "analyze_fields H options index [] = Ok []"
| "analyze_fields H options index (d # ds) =
     and_then (analyze_field H options index d) (\<lambda>f.
     and_then (analyze_fields H options (Suc index) ds) (\<lambda>rest. Ok (f # rest)))"

definition analyze_struct :: "env \<Rightarrow> container_options \<Rightarrow> struct_body \<Rightarrow> (diag list, ir_field list) res" where
  "analyze_struct H options body = (case body of
     OtherBody \<Rightarrow> fail ''#[zero] structs must have named fields''
   | NamedBody decls \<Rightarrow>
       if decls = [] then fail ''schema structs must contain at least one field''
       else and_then (analyze_fields H options 0 decls) link_external_tags)"

section \<open>Enums\<close>

fun repr_maximum :: "scalar_repr \<Rightarrow> nat" where
  "repr_maximum ReprU8 = 2 ^ 8 - 1" | "repr_maximum ReprU16 = 2 ^ 16 - 1" | "repr_maximum ReprU32 = 2 ^ 32 - 1"

fun repr_metas :: "meta list \<Rightarrow> scalar_repr option \<Rightarrow> (diag list, scalar_repr option) res" where
  "repr_metas [] found = Ok found"
| "repr_metas (me # ms) found = (case me_path me of
     [s] \<Rightarrow> (case map_of [(''u8'', ReprU8), (''u16'', ReprU16), (''u32'', ReprU32)] s of
         None \<Rightarrow> fail ''scalar enums require repr(u8), repr(u16), or repr(u32)''
       | Some r \<Rightarrow> if found \<noteq> None then fail ''scalar enums require exactly one integer repr'' else repr_metas ms (Some r))
   | _ \<Rightarrow> fail ''scalar enums require repr(u8), repr(u16), or repr(u32)'')"

definition scalar_repr_of :: "attribute list \<Rightarrow> (diag list, scalar_repr) res" where
  "scalar_repr_of attrs =
     and_then (repr_metas (concat (map at_metas (filter (\<lambda>a. at_path a = [''repr'']) attrs))) None) (\<lambda>found. case found of
       Some r \<Rightarrow> Ok r | None \<Rightarrow> fail ''fieldless scalar enums require repr(u8), repr(u16), or repr(u32)'')"

definition discriminant_value :: "disc_expr \<Rightarrow> scalar_repr \<Rightarrow> (diag list, nat) res" where
  "discriminant_value e r = (case e of
     DiscOther \<Rightarrow> fail ''scalar enum discriminants must be integer literals''
   | DiscInt l \<Rightarrow>
       if li_suffix l \<noteq> [] then fail ''scalar enum discriminants must be unsuffixed integer literals''
       else (case radix_digits (literal_text l) of (radix, digits) \<Rightarrow>
         (case from_str_radix (2 ^ 64) digits radix of
            None \<Rightarrow> fail ''scalar enum discriminant is out of range''
          | Some v \<Rightarrow> if v > repr_maximum r then fail ''scalar enum discriminant does not fit its repr'' else Ok v)))"

fun analyze_scalar_variants :: "scalar_repr \<Rightarrow> nat list \<Rightarrow> variant_decl list \<Rightarrow> (diag list, ir_variant list) res" where
  "analyze_scalar_variants r raw_values [] = Ok []"
| "analyze_scalar_variants r raw_values (d # ds) =
     (if vd_fields d \<noteq> UnitFields then fail ''scalar enum variants must be fieldless''
      else case vd_disc d of
        None \<Rightarrow> fail ''scalar enum variants require an explicit integer discriminant''
      | Some e \<Rightarrow> and_then (discriminant_value e r) (\<lambda>v.
          if List.member raw_values v then fail ''scalar enum discriminants must be unique''
          else and_then (analyze_scalar_variants r (v # raw_values) ds) (\<lambda>vs.
            Ok (\<lparr>iv_name = normalized_ident (vd_ident d), iv_shape = UnitShape, iv_tag = [''Self''], iv_tag_type = [''Self''], iv_raw = Some v\<rparr> # vs))))"

definition tag_owner_path :: "string list \<Rightarrow> (diag list, string list) res" where
  "tag_owner_path tag = (if length tag < 2 then fail ''tag must name a scalar-enum variant such as Kind::Value'' else Ok (butlast tag))"

definition tagged_shape :: "variant_fields \<Rightarrow> (diag list, variant_shape) res" where
  "tagged_shape vf = (case vf of
     UnitFields \<Rightarrow> Ok UnitShape
   | UnnamedFields [(attrs, ty)] \<Rightarrow>
       if path_ends_in_option ty
       then fail ''Option<T> cannot be used as a tagged payload; an externally tagged payload has no standalone optional sentinel''
       else Ok (NewtypeShape ty)
   | _ \<Rightarrow> fail ''tagged enum variants must be unit or single-field newtype variants'')"

text \<open>\<open>rebase_path\<close>: a path that starts with \<open>self\<close> or \<open>super\<close> is read from one module further down.\<close>

definition rebase_path :: "string list \<Rightarrow> string list" where
  "rebase_path p = (case p of
     s # rest \<Rightarrow> if s = ''self'' then ''super'' # rest else if s = ''super'' then ''super'' # p else p
   | [] \<Rightarrow> [])"

fun analyze_tagged_variants :: "string list option \<Rightarrow> string list list \<Rightarrow> variant_decl list \<Rightarrow> (diag list, ir_variant list) res" where
  "analyze_tagged_variants tag_type tags [] = Ok []"
| "analyze_tagged_variants tag_type tags (d # ds) =
     and_then (variant_options_of (vd_attrs d)) (\<lambda>option. case option of
       None \<Rightarrow> fail ''tagged enum variants require #[zero(tag = ScalarEnum::Variant)]''
     | Some tag \<Rightarrow>
         if List.member tags tag then fail ''tagged enum variant tags must be unique''
         else and_then (tag_owner_path tag) (\<lambda>owner.
           if tag_type \<noteq> None \<and> tag_type \<noteq> Some owner
           then fail ''all tagged enum variants must use values from the same scalar enum''
           else and_then (tagged_shape (vd_fields d)) (\<lambda>shape.
             and_then (analyze_tagged_variants (Some owner) (tag # tags) ds) (\<lambda>vs.
               Ok (\<lparr>iv_name = normalized_ident (vd_ident d), iv_shape = shape, iv_tag = rebase_path tag,
                 iv_tag_type = rebase_path owner, iv_raw = None\<rparr> # vs)))))"

definition analyze_enum ::
    "container_options \<Rightarrow> attribute list \<Rightarrow> variant_decl list \<Rightarrow> (diag list, item_kind \<times> ir_variant list) res" where
  "analyze_enum options attrs decls =
     (if decls = [] then fail ''schema enums must contain at least one variant''
      else if list_ex (\<lambda>d. list_ex is_zero_attr (vd_attrs d)) decls then
        (if co_endian_set options then fail ''endian is not applicable to a tagged payload declaration''
         else if co_align options \<noteq> None then fail ''align is not applicable to a tagged payload declaration''
         else if co_borrow options \<noteq> None then fail ''borrow is not applicable to a tagged payload declaration''
         else and_then (analyze_tagged_variants None [] decls) (\<lambda>vs. Ok (TaggedEnumItem, vs)))
      else if co_align options \<noteq> None \<or> co_borrow options \<noteq> None then fail ''this option is not applicable to a scalar enum''
      else and_then (scalar_repr_of attrs) (\<lambda>r.
        and_then (analyze_scalar_variants r [] decls) (\<lambda>vs. Ok (ScalarEnumItem r, vs))))"

section \<open>Generic parameters\<close>

datatype generic_param = LifetimeParam string "attribute list" | TypeParam string "attribute list" | ConstParam string "attribute list"

fun param_attrs :: "generic_param \<Rightarrow> attribute list" where
  "param_attrs (LifetimeParam s attrs) = attrs" | "param_attrs (TypeParam s attrs) = attrs" | "param_attrs (ConstParam s attrs) = attrs"

fun direct_lifetime :: "ir_category \<Rightarrow> string option" where
  "direct_lifetime (IrBorrowedStr n t e l) = Some l"
| "direct_lifetime (IrBorrowedCStr n l) = Some l"
| "direct_lifetime (IrBorrowedU16Str n t e l) = Some l"
| "direct_lifetime (IrBorrowedU16CStr n l) = Some l"
| "direct_lifetime (IrFixedBytes n l) = Some l"
| "direct_lifetime (IrArray e n) = direct_lifetime e"
| "direct_lifetime _ = None"

definition declared_lifetimes :: "generic_param list \<Rightarrow> string list" where
  "declared_lifetimes params = concat (map (\<lambda>p. case p of LifetimeParam s attrs \<Rightarrow> [s] | _ \<Rightarrow> []) params)"

definition direct_lifetimes :: "ir_field list \<Rightarrow> string list" where
  "direct_lifetimes fs = remdups (List.map_filter (\<lambda>f. direct_lifetime (if_category f)) fs)"

text \<open>\<open>generic_model\<close>: one source lifetime, or the requested one.\<close>

definition generic_model :: "generic_param list \<Rightarrow> ir_field list \<Rightarrow> string option \<Rightarrow> (diag list, unit) res" where
  "generic_model params fs requested = (case requested of
     Some l \<Rightarrow>
       if \<not> List.member (declared_lifetimes params) l then fail ''borrow must name one of this declaration's lifetime parameters''
       else if \<not> List.member (direct_lifetimes fs) l then fail ''borrow must name a lifetime used by a direct borrowed field''
       else Ok ()
   | None \<Rightarrow>
       if length (direct_lifetimes fs) \<le> 1 then Ok ()
       else fail ''multiple borrowed source lifetimes require #[zero(borrow = 'lifetime)]'')"

definition reject_misplaced_zero_attributes :: "generic_param list \<Rightarrow> (diag list, unit) res" where
  "reject_misplaced_zero_attributes params =
     (let misplaced = filter is_zero_attr (concat (map param_attrs params)) in
      if misplaced = [] then Ok ()
      else Err (map (\<lambda>_. Diag ''#[zero] is only allowed on the item, named fields, or tagged-enum variants'') misplaced))"

section \<open>Generated names\<close>

definition ascii_upper :: "char \<Rightarrow> bool" where
  "ascii_upper c \<longleftrightarrow> 65 \<le> (of_char c :: nat) \<and> (of_char c :: nat) \<le> 90"

definition ascii_lowercase :: "char \<Rightarrow> char" where
  "ascii_lowercase c = (if ascii_upper c then char_of (of_char c + 32 :: nat) else c)"

definition snake_case :: "string \<Rightarrow> string" where
  "snake_case name = concat (map (\<lambda>(index, c).
     if ascii_upper c then (if index \<noteq> 0 then ''_'' else []) @ [ascii_lowercase c] else [c]) (enumerate 0 name))"

definition is_tag_sibling :: "ir_field list \<Rightarrow> nat \<Rightarrow> bool" where
  "is_tag_sibling fs k = list_ex (\<lambda>f. case if_category f of IrPath b (Some t) \<Rightarrow> t = k | _ \<Rightarrow> False) fs"

fun reserve_all :: "string list \<Rightarrow> string list \<Rightarrow> (diag list, string list) res" where
  "reserve_all [] names = Ok names"
| "reserve_all (s # ss) names =
     (if List.member names s then fail (''generated zero-schema name collision for `'' @ s @ ''`'') else reserve_all ss (s # names))"

definition root_names :: "string list" where
  "root_names = [''access'', ''access_mut'', ''access_prefix'', ''access_mut_prefix'', ''SCHEMA_SIZE'', ''ZERO_IS_VALID'',
     ''SCHEMA_ALIGN'', ''SCHEMA_STRIDE'', ''LAYOUT'']"

text \<open>The names in the order \<open>validate_generated_names\<close> reserves them.\<close>

fun method_names :: "item_kind \<Rightarrow> ir_field list \<Rightarrow> ir_variant list \<Rightarrow> string list" where
  "method_names StructItem fs vs = root_names @ [''copy_into'', ''copy_from'', ''clear''] @
     concat (map (\<lambda>f. if_name f # (if is_tag_sibling fs (if_index f) then [] else [if_name f @ ''_mut''])) fs)"
| "method_names (ScalarEnumItem r) fs vs = root_names @ map iv_name vs"
| "method_names TaggedEnumItem fs vs = [''tag'', ''copy_into'', ''copy_from''] @
     concat (map (\<lambda>v. [snake_case (iv_name v), snake_case (iv_name v) @ ''_mut'']) vs)"

definition validate_generated_names :: "item_kind \<Rightarrow> ir_field list \<Rightarrow> ir_variant list \<Rightarrow> (diag list, unit) res" where
  "validate_generated_names kind fs vs = and_then (reserve_all (method_names kind fs vs) []) (\<lambda>_. Ok ())"

fun category_key :: "ir_category \<Rightarrow> string" where
  "category_key (IrPrimitive p) = ''primitive''"
| "category_key IrBool = ''bool''"
| "category_key (IrBorrowedStr n t e l) = ''str''"
| "category_key (IrBorrowedCStr n l) = ''cstr''"
| "category_key (IrBorrowedU16Str n t e l) = ''u16str''"
| "category_key (IrBorrowedU16CStr n l) = ''u16cstr''"
| "category_key (IrFixedBytes n l) = ''bytes''"
| "category_key (IrPath tagged t) = (if tagged then ''tagged'' else ''path'')"
| "category_key (IrArray e n) = ''array''"
| "category_key (IrOptional ty c) = ''optional''"

text \<open>Debug renderings, and what \<open>to_token_stream\<close> prints for types and paths.\<close>

record printer =
  pr_type :: "syn_type \<Rightarrow> string"
  pr_path :: "string list \<Rightarrow> string"

fun debug_endian :: "endian \<Rightarrow> string" where
  "debug_endian Native = ''Native''" | "debug_endian Little = ''Little''" | "debug_endian Big = ''Big''"

fun debug_kind :: "item_kind \<Rightarrow> string" where
  "debug_kind StructItem = ''Struct''"
| "debug_kind (ScalarEnumItem r) =
     ''ScalarEnum { repr: '' @ (case r of ReprU8 \<Rightarrow> ''U8'' | ReprU16 \<Rightarrow> ''U16'' | ReprU32 \<Rightarrow> ''U32'') @ '' }''"
| "debug_kind TaggedEnumItem = ''TaggedEnum''"

definition suffix_feed :: "printer \<Rightarrow> string \<Rightarrow> item_kind \<Rightarrow> container_options \<Rightarrow> ir_field list \<Rightarrow> ir_variant list \<Rightarrow> string" where
  "suffix_feed pr name kind options fs vs =
     name @ ''|'' @ debug_kind kind @ ''|'' @ debug_endian (co_endian options) @ ''|'' @
     (case co_align options of Some a \<Rightarrow> ''align='' @ fmt_decimal a @ ''|'' | None \<Rightarrow> []) @
     (case co_runtime options of Some p \<Rightarrow> ''crate='' @ pr_path pr p @ ''|'' | None \<Rightarrow> []) @
     (case co_borrow options of Some l \<Rightarrow> ''borrow='' @ [CHR 0x27] @ l @ ''|'' | None \<Rightarrow> []) @
     concat (map (\<lambda>f. ''field:'' @ if_name f @ '':'' @ pr_type pr (if_ty f) @ '':'' @ [CHR 0x22] @
       category_key (if_category f) @ [CHR 0x22] @ '':'' @
       fmt_decimal (case fo_align (if_options f) of Some a \<Rightarrow> a | None \<Rightarrow> 0) @ ''|'') fs) @
     concat (map (\<lambda>v. ''variant:'' @ iv_name v @ '':'' @ pr_path pr (iv_tag v) @ '':'' @ pr_path pr (iv_tag_type v) @ ''|'') vs)"

text \<open>The 64-bit FNV-1a hash of the feed, printed as sixteen hexadecimal digits.\<close>

definition fnv_step :: "64 word \<Rightarrow> char \<Rightarrow> 64 word" where
  "fnv_step h c = Bit_Operations.xor h (of_nat (of_char c)) * 0x100000001b3"

definition stable_suffix :: "printer \<Rightarrow> string \<Rightarrow> item_kind \<Rightarrow> container_options \<Rightarrow> ir_field list \<Rightarrow> ir_variant list \<Rightarrow> string" where
  "stable_suffix pr name kind options fs vs =
     (let digits = fmt_lower_hex (unat (foldl fnv_step 0xcbf29ce484222325 (suffix_feed pr name kind options fs vs)))
      in replicate (16 - length digits) (CHR ''0'') @ digits)"

record generated_names =
  gn_support_module :: string
  gn_wire :: string
  gn_reference :: string
  gn_mutable :: string
  gn_patch :: string
  gn_access_error :: string
  gn_mutation_error :: string

definition generated_names_of :: "printer \<Rightarrow> string \<Rightarrow> item_kind \<Rightarrow> container_options \<Rightarrow> ir_field list \<Rightarrow> ir_variant list \<Rightarrow> generated_names" where
  "generated_names_of pr name kind options fs vs =
     \<lparr>gn_support_module = ''__zero_schema_support_'' @ map ascii_lowercase name @ ''_'' @ stable_suffix pr name kind options fs vs,
      gn_wire = name @ ''Wire'', gn_reference = name @ ''Ref'', gn_mutable = name @ ''Mut'', gn_patch = name @ ''Patch'',
      gn_access_error = name @ ''AccessError'', gn_mutation_error = name @ ''MutationError''\<rparr>"

section \<open>Items\<close>

datatype item =
    ItemStruct string "attribute list" "generic_param list" struct_body
  | ItemEnum string "attribute list" "generic_param list" "variant_decl list"
  | ItemUnion string "attribute list" "generic_param list" "field_decl list"
  | ItemOther "attribute list"

fun item_attrs :: "item \<Rightarrow> attribute list" where
  "item_attrs (ItemStruct name attrs params body) = attrs"
| "item_attrs (ItemEnum name attrs params decls) = attrs"
| "item_attrs (ItemUnion name attrs params decls) = attrs"
| "item_attrs (ItemOther attrs) = attrs"

fun item_params :: "item \<Rightarrow> generic_param list" where
  "item_params (ItemStruct name attrs params body) = params"
| "item_params (ItemEnum name attrs params decls) = params"
| "item_params (ItemUnion name attrs params decls) = params"
| "item_params (ItemOther attrs) = []"

fun item_name :: "item \<Rightarrow> string" where
  "item_name (ItemStruct name attrs params body) = name"
| "item_name (ItemEnum name attrs params decls) = name"
| "item_name (ItemUnion name attrs params decls) = name"
| "item_name (ItemOther attrs) = []"

abbreviation "strip \<equiv> filter (\<lambda>a. \<not> is_zero_attr a)"

definition strip_field :: "field_decl \<Rightarrow> field_decl" where
  "strip_field d = d\<lparr>fd_attrs := strip (fd_attrs d)\<rparr>"

definition strip_variant :: "variant_decl \<Rightarrow> variant_decl" where
  "strip_variant d = d\<lparr>vd_attrs := strip (vd_attrs d), vd_fields := (case vd_fields d of
     UnitFields \<Rightarrow> UnitFields
   | UnnamedFields xs \<Rightarrow> UnnamedFields (map (\<lambda>(attrs, ty). (strip attrs, ty)) xs)
   | NamedFields xs \<Rightarrow> NamedFields (map (\<lambda>(attrs, ty). (strip attrs, ty)) xs))\<rparr>"

text \<open>A tuple or unit struct is refused before it is stripped; its fields are not modelled.\<close>

fun strip_zero_attributes :: "item \<Rightarrow> item" where
  "strip_zero_attributes (ItemStruct name attrs params body) = ItemStruct name (strip attrs) params
     (case body of NamedBody decls \<Rightarrow> NamedBody (map strip_field decls) | OtherBody \<Rightarrow> OtherBody)"
| "strip_zero_attributes (ItemEnum name attrs params decls) = ItemEnum name (strip attrs) params (map strip_variant decls)"
| "strip_zero_attributes (ItemUnion name attrs params decls) = ItemUnion name (strip attrs) params (map strip_field decls)"
| "strip_zero_attributes (ItemOther attrs) = ItemOther attrs"

record schema_ir =
  sc_item :: item
  sc_kind :: item_kind
  sc_name :: string
  sc_options :: container_options
  sc_params :: "generic_param list"
  sc_fields :: "ir_field list"
  sc_variants :: "ir_variant list"
  sc_names :: generated_names

definition analyze_body :: "env \<Rightarrow> container_options \<Rightarrow> item \<Rightarrow> (diag list, item_kind \<times> ir_field list \<times> ir_variant list) res" where
  "analyze_body H options it = (case it of
     ItemStruct name attrs params body \<Rightarrow> and_then (analyze_struct H options body) (\<lambda>fs. Ok (StructItem, fs, []))
   | ItemEnum name attrs params decls \<Rightarrow> and_then (analyze_enum options attrs decls) (\<lambda>(kind, vs). Ok (kind, [], vs))
   | ItemUnion name attrs params decls \<Rightarrow> fail ''#[zero] does not support unions''
   | ItemOther attrs \<Rightarrow> fail ''#[zero] supports only module-scope named structs and enums'')"

definition analyze :: "env \<Rightarrow> printer \<Rightarrow> meta list \<Rightarrow> item \<Rightarrow> (diag list, schema_ir) res" where
  "analyze H pr args it =
     and_then (container_from_tokens_and_attrs args (item_attrs it)) (\<lambda>options.
     and_then (reject_misplaced_zero_attributes (item_params it)) (\<lambda>_.
     and_then (analyze_body H options it) (\<lambda>(kind, fs, vs).
     and_then (generic_model (item_params it) fs (co_borrow options)) (\<lambda>_.
     let name = normalized_ident (item_name it) in
     and_then (validate_generated_names kind fs vs) (\<lambda>_.
     Ok \<lparr>sc_item = strip_zero_attributes it, sc_kind = kind, sc_name = name, sc_options = options, sc_params = item_params it,
       sc_fields = fs, sc_variants = vs, sc_names = generated_names_of pr name kind options fs vs\<rparr>)))))"

section \<open>Names\<close>

lemma digit_chars_inj:
  "map digit_char xs = map digit_char ys \<Longrightarrow> list_all (\<lambda>d. d < 10) xs \<Longrightarrow> list_all (\<lambda>d. d < 10) ys \<Longrightarrow> xs = ys"
proof (induction xs arbitrary: ys)
  case (Cons x xs)
  then obtain y zs where ys: "ys = y # zs" "digit_char x = digit_char y" by auto
  have lt: "x < 16" "y < 16" using Cons.prems(2,3) ys(1) by simp_all
  have "Some x = Some y" using digit_value_char [OF lt(1)] digit_value_char [OF lt(2)] ys(2) by (simp only:)
  moreover have "xs = zs" using Cons.prems ys(1) by (intro Cons.IH) simp_all
  ultimately show ?case using ys(1) by simp
qed simp

lemma fmt_decimal_inj: "fmt_decimal m = fmt_decimal n \<Longrightarrow> m = n"
proof -
  assume "fmt_decimal m = fmt_decimal n"
  then have "digits_in 10 m = digits_in 10 n"
    using digits_in_value [of 10 m] digits_in_value [of 10 n] by (intro digit_chars_inj) (simp_all add: fmt_decimal_def)
  then have "foldl (\<lambda>a d. a * 10 + d) 0 (digits_in 10 m) = foldl (\<lambda>a d. a * 10 + d) 0 (digits_in 10 n)" by (rule arg_cong)
  then show "m = n" using digits_in_value [of 10 m] digits_in_value [of 10 n] by linarith
qed

lemma reserve_all_spec:
  "case reserve_all ss names of
     Ok ns \<Rightarrow> distinct ss \<and> set ss \<inter> set names = {}
   | Err e \<Rightarrow> \<exists>pre s post. ss = pre @ s # post \<and> distinct pre \<and> set pre \<inter> set names = {} \<and> s \<in> set pre \<union> set names \<and>
       e = [Diag (''generated zero-schema name collision for `'' @ s @ ''`'')]
   | Panic \<Rightarrow> False"
proof (induction ss arbitrary: names)
  case (Cons a ss)
  show ?case
  proof (cases "a \<in> set names")
    case True
    then show ?thesis by (auto intro: exI [of _ "[]"])
  next
    case False
    show ?thesis
    proof (cases "reserve_all ss (a # names)")
      case (Err e)
      then obtain pre s post where p: "ss = pre @ s # post" "distinct pre" "set pre \<inter> set (a # names) = {}" "s \<in> set pre \<union> set (a # names)"
        "e = [Diag (''generated zero-schema name collision for `'' @ s @ ''`'')]"
        using Cons [of "a # names"] by auto
      show ?thesis
        unfolding reserve_all.simps using False Err
        by (simp add: List.member_iff p(5)) (rule exI [of _ "a # pre"], use p(1-4) False in auto)
    qed (use Cons [of "a # names"] False in auto)
  qed
qed simp

lemma validated_names:
  "validate_generated_names kind fs vs \<noteq> Panic"
  "validate_generated_names kind fs vs = Ok () \<Longrightarrow> distinct (method_names kind fs vs)"
  using reserve_all_spec [of "method_names kind fs vs" "[]"]
  by (cases "reserve_all (method_names kind fs vs) []"; simp add: validate_generated_names_def)+

end
