(* ===== verification/Zs_Array.thy ===== *)
theory Zs_Array
  imports Zs_Optional
begin

text \<open>
  Fixed arrays, \<open>src/src/array.rs\<close>: the read view \<open>ArrayRef\<close>, the exclusive \<open>ArrayMut\<close> with its two-pass
  \<open>copy_from\<close>, both iterators and the \<open>NestedArrayAdapter\<close> combinator, over an \<open>ArrayElementAdapter\<close>. The
  locale \<open>element_contract\<close> is the adapter's contract; rows of a nested array satisfy it whenever their
  elements do (a sublocale), and the adapters \<open>emit_array_adapter\<close> generates for leaf elements are its
  interpretation.
\<close>

section \<open>Element adapters\<close>

record ('r, 'v) elem_adapter =
  el_owner :: string
  el_wire :: wlayout
  el_stride :: usize
  el_prove :: "usize \<Rightarrow> input \<Rightarrow> (schema_error, unit) res"
  el_read :: "usize \<Rightarrow> input \<Rightarrow> (schema_error, 'r) res"
  el_make_mut :: "usize \<Rightarrow> input \<Rightarrow> (schema_error, input) res"
  el_preflight :: "usize \<Rightarrow> input \<Rightarrow> 'v \<Rightarrow> (schema_error, unit) res"
  el_commit :: "usize \<Rightarrow> input \<Rightarrow> 'v \<Rightarrow> (schema_error, input) res"
  el_preflight_init :: "usize \<Rightarrow> input \<Rightarrow> 'v \<Rightarrow> (schema_error, unit) res"
  el_commit_init :: "usize \<Rightarrow> input \<Rightarrow> 'v \<Rightarrow> (schema_error, input) res"
  el_index_error :: "usize \<Rightarrow> usize \<Rightarrow> schema_error"
  el_length_error :: "usize \<Rightarrow> usize \<Rightarrow> schema_error"

definition checked_element_offset :: "env \<Rightarrow> usize \<Rightarrow> usize \<Rightarrow> (layout_error, usize) res" where
  "checked_element_offset E index stride =
     (case checked_mul E index stride of Some offset \<Rightarrow> Ok offset | None \<Rightarrow> Err OffsetOverflow)"

definition checked_element_range :: "env \<Rightarrow> usize \<Rightarrow> usize \<Rightarrow> usize \<Rightarrow> usize \<Rightarrow> (layout_error, usize \<times> usize) res" where
  "checked_element_range E available index stride element_size =
     (case checked_mul E index stride of
        Some offset \<Rightarrow> checked_range E available offset element_size
      | None \<Rightarrow> Err OffsetOverflow)"

definition element_input_result :: "env \<Rightarrow> ('r, 'v) elem_adapter \<Rightarrow> input \<Rightarrow> usize \<Rightarrow> (layout_error, input) res" where
  "element_input_result E A i index =
     and_then (checked_element_offset E index (el_stride A)) (\<lambda>offset. subrange E (el_wire A) offset i)"

definition element_input_mut_result :: "env \<Rightarrow> ('r, 'v) elem_adapter \<Rightarrow> input \<Rightarrow> usize \<Rightarrow> (layout_error, usize \<times> input) res" where
  "element_input_mut_result E A i index =
     and_then (checked_element_offset E index (el_stride A))
       (\<lambda>offset. and_then (subrange_mut E (el_wire A) offset i) (\<lambda>e. Ok (offset, e)))"

section \<open>Read views\<close>

definition array_ref_prove :: "env \<Rightarrow> ('r, 'v) elem_adapter \<Rightarrow> nat \<Rightarrow> input \<Rightarrow> (schema_error, input) res" where
  "array_ref_prove E A n i =
     and_then (for_each (\<lambda>index. and_then (map_err (access_layout (el_owner A)) (element_input_result E A i index))
                 (\<lambda>element. el_prove A index element)) [0..<n]) (\<lambda>_. Ok i)"

definition array_ref_get :: "env \<Rightarrow> ('r, 'v) elem_adapter \<Rightarrow> nat \<Rightarrow> input \<Rightarrow> usize \<Rightarrow> (schema_error, 'r option) res" where
  "array_ref_get E A n i index =
     (if index \<ge> n then Ok None
      else and_then (or_unreachable (element_input_result E A i index))
             (\<lambda>e. and_then (or_unreachable (el_read A index e)) (\<lambda>r. Ok (Some r))))"

fun collect :: "(nat \<Rightarrow> ('e, 'r) res) \<Rightarrow> nat list \<Rightarrow> ('e, 'r list) res" where
  "collect f [] = Ok []"
| "collect f (k # ks) = and_then (f k) (\<lambda>r. and_then (collect f ks) (\<lambda>rs. Ok (r # rs)))"

lemma collect_Ok: "collect f ks = Ok rs \<longleftrightarrow> length rs = length ks \<and> (\<forall>j < length ks. f (ks ! j) = Ok (rs ! j))"
proof (induction ks arbitrary: rs)
  case (Cons k ks)
  show ?case by (cases rs) (auto simp: Cons nth_Cons less_Suc_eq_0_disj)
qed auto

lemma collect_exists: "(\<And>k. k \<in> set ks \<Longrightarrow> \<exists>r. f k = Ok r) \<Longrightarrow> \<exists>rs. collect f ks = Ok rs"
  by (induction ks) auto

definition array_ref_copy_into :: "env \<Rightarrow> ('r, 'v) elem_adapter \<Rightarrow> nat \<Rightarrow> input \<Rightarrow> (schema_error, 'r list) res" where
  "array_ref_copy_into E A n i =
     collect (\<lambda>index. and_then (array_ref_get E A n i index)
       (\<lambda>r. case r of Some element \<Rightarrow> Ok element | None \<Rightarrow> Panic)) [0..<n]"

text \<open>\<open>ArrayRefIter\<close>: the view and the next index; \<open>ArrayMutIter\<close> inlines the element selection.\<close>

definition array_ref_iter_next :: "env \<Rightarrow> ('r, 'v) elem_adapter \<Rightarrow> nat \<Rightarrow> input \<times> nat \<Rightarrow> (schema_error, 'r option) res \<times> (input \<times> nat)" where
  "array_ref_iter_next E A n it = (case it of (i, next) \<Rightarrow>
     if next = n then (Ok None, it) else (array_ref_get E A n i next, (i, Suc next)))"

definition array_mut_iter_next :: "env \<Rightarrow> ('r, 'v) elem_adapter \<Rightarrow> nat \<Rightarrow> input \<times> nat \<Rightarrow> (schema_error, 'r option) res \<times> (input \<times> nat)" where
  "array_mut_iter_next E A n it = (case it of (i, next) \<Rightarrow>
     if next = n then (Ok None, it)
     else (and_then (or_unreachable (checked_element_offset E next (el_stride A))) (\<lambda>offset.
           and_then (or_unreachable (subrange E (el_wire A) offset i)) (\<lambda>e.
           and_then (or_unreachable (el_read A next e)) (\<lambda>r. Ok (Some r)))), (i, Suc next)))"

definition iter_size_hint :: "nat \<Rightarrow> input \<times> nat \<Rightarrow> nat \<times> nat option" where
  "iter_size_hint n it = (let remaining = n - snd it in (remaining, Some remaining))"

fun iter_take :: "(input \<times> nat \<Rightarrow> (schema_error, 'r option) res \<times> (input \<times> nat)) \<Rightarrow> nat \<Rightarrow> input \<times> nat \<Rightarrow> (schema_error, 'r option) res list" where
  "iter_take step 0 it = []"
| "iter_take step (Suc k) it = (case step it of (r, it') \<Rightarrow> r # iter_take step k it')"

section \<open>Exclusive arrays\<close>

record array_mut =
  am_input :: input
  am_base :: usize

definition array_mut_prove_at :: "env \<Rightarrow> ('r, 'v) elem_adapter \<Rightarrow> nat \<Rightarrow> input \<Rightarrow> usize \<Rightarrow> (schema_error, array_mut) res" where
  "array_mut_prove_at E A n i base =
     and_then (for_each (\<lambda>index.
         and_then (map_err (access_layout (el_owner A)) (checked_element_offset E index (el_stride A))) (\<lambda>offset.
         and_then (shared E i) (\<lambda>s.
         and_then (map_err (access_layout (el_owner A)) (subrange E (el_wire A) offset s)) (\<lambda>element.
           el_prove A (saturating_add E base index) element)))) [0..<n])
       (\<lambda>_. Ok \<lparr>am_input = i, am_base = base\<rparr>)"

definition array_mut_prove :: "env \<Rightarrow> ('r, 'v) elem_adapter \<Rightarrow> nat \<Rightarrow> input \<Rightarrow> (schema_error, array_mut) res" where
  "array_mut_prove E A n i = array_mut_prove_at E A n i 0"

definition array_mut_get :: "env \<Rightarrow> ('r, 'v) elem_adapter \<Rightarrow> nat \<Rightarrow> array_mut \<Rightarrow> usize \<Rightarrow> (schema_error, 'r option) res" where
  "array_mut_get E A n h index =
     (if index \<ge> n then Ok None
      else and_then (or_unreachable (element_input_result E A (am_input h) index))
             (\<lambda>e. and_then (or_unreachable (el_read A index e)) (\<lambda>r. Ok (Some r))))"

definition flat :: "env \<Rightarrow> array_mut \<Rightarrow> usize \<Rightarrow> usize" where
  "flat E h index = saturating_add E (am_base h) index"

definition array_mut_get_mut :: "env \<Rightarrow> ('r, 'v) elem_adapter \<Rightarrow> nat \<Rightarrow> array_mut \<Rightarrow> usize \<Rightarrow> (schema_error, input option) res" where
  "array_mut_get_mut E A n h index =
     (if index \<ge> n then Ok None
      else and_then (or_unreachable (element_input_mut_result E A (am_input h) index))
             (\<lambda>(offset, e). and_then (or_unreachable (el_make_mut A (flat E h index) e)) (\<lambda>m. Ok (Some m))))"

definition array_mut_copy_into :: "env \<Rightarrow> ('r, 'v) elem_adapter \<Rightarrow> nat \<Rightarrow> array_mut \<Rightarrow> (schema_error, 'r list) res" where
  "array_mut_copy_into E A n h =
     collect (\<lambda>index. and_then (array_mut_get E A n h index)
       (\<lambda>r. case r of Some element \<Rightarrow> Ok element | None \<Rightarrow> Panic)) [0..<n]"

text \<open>Storing through the element's short reborrow; \<open>write_back\<close> ends it.\<close>

definition commit_element :: "(usize \<Rightarrow> input \<Rightarrow> 'v \<Rightarrow> (schema_error, input) res) \<Rightarrow> usize \<Rightarrow> usize \<times> input \<Rightarrow> 'v \<Rightarrow> input \<Rightarrow> (schema_error, input) res" where
  "commit_element commit position sel v i =
     (case sel of (offset, e) \<Rightarrow> and_then (commit position e v) (\<lambda>c. Ok (write_back offset c i)))"

definition array_mut_set :: "env \<Rightarrow> ('r, 'v) elem_adapter \<Rightarrow> nat \<Rightarrow> array_mut \<Rightarrow> usize \<Rightarrow> 'v \<Rightarrow> (schema_error, unit) res \<times> array_mut" where
  "array_mut_set E A n h index v =
     (if index \<ge> n then (Err (el_index_error A index n), h)
      else case preflighted (am_input h)
             (and_then (map_err (mutation_layout (el_owner A)) (element_input_result E A (am_input h) index))
                (\<lambda>e. el_preflight A (flat E h index) e v))
             (and_then (map_err (mutation_layout (el_owner A)) (element_input_mut_result E A (am_input h) index))
                (\<lambda>sel. commit_element (el_commit A) (flat E h index) sel v (am_input h)))
           of (r, j) \<Rightarrow> (r, h\<lparr>am_input := j\<rparr>))"

definition preflight_element_locations :: "env \<Rightarrow> ('r, 'v) elem_adapter \<Rightarrow> nat \<Rightarrow> array_mut \<Rightarrow> (schema_error, unit) res" where
  "preflight_element_locations E A n h =
     for_each (\<lambda>index. and_then (map_err (mutation_layout (el_owner A)) (element_input_result E A (am_input h) index))
       (\<lambda>_. Ok ())) [0..<n]"

fun commit_loop :: "(nat \<Rightarrow> 'v \<Rightarrow> input \<Rightarrow> (schema_error, input) res) \<Rightarrow> nat \<Rightarrow> 'v list \<Rightarrow> input \<Rightarrow> (schema_error, input) res" where
  "commit_loop step k [] i = Ok i"
| "commit_loop step k (v # vs) i = and_then (step k v i) (\<lambda>j. commit_loop step (Suc k) vs j)"

definition array_mut_copy_from :: "env \<Rightarrow> ('r, 'v) elem_adapter \<Rightarrow> nat \<Rightarrow> array_mut \<Rightarrow> 'v list \<Rightarrow> (schema_error, unit) res \<times> array_mut" where
  "array_mut_copy_from E A n h values =
     (if length values \<noteq> n then (Err (el_length_error A (length values) n), h)
      else case preflighted (am_input h)
             (and_then (preflight_element_locations E A n h) (\<lambda>_.
                for_each (\<lambda>(index, v). and_then (or_unreachable (element_input_result E A (am_input h) index))
                   (\<lambda>e. el_preflight A (flat E h index) e v)) (enumerate 0 values)))
             (commit_loop (\<lambda>index v i. and_then (or_unreachable (element_input_mut_result E A i index))
                (\<lambda>sel. commit_element (el_commit A) (flat E h index) sel v i)) 0 values (am_input h))
           of (r, j) \<Rightarrow> (r, h\<lparr>am_input := j\<rparr>))"

section \<open>Nested arrays\<close>

definition position :: "env \<Rightarrow> nat \<Rightarrow> usize \<Rightarrow> usize \<Rightarrow> usize" where
  "position E n index j = saturating_add E (saturating_mul E index n) j"

text \<open>The loops of \<open>NestedArrayAdapter\<close>: \<open>prove\<close>, the two preflights and the two commits of one row.\<close>

definition nested_prove :: "env \<Rightarrow> ('r, 'v) elem_adapter \<Rightarrow> nat \<Rightarrow> usize \<Rightarrow> input \<Rightarrow> (schema_error, unit) res" where
  "nested_prove E A n index i =
     for_each (\<lambda>j. and_then (map_err (access_layout (el_owner A)) (element_input_result E A i j))
       (\<lambda>element. el_prove A (position E n index j) element)) [0..<n]"

definition nested_preflight :: "env \<Rightarrow> ('r, 'v) elem_adapter \<Rightarrow> (usize \<Rightarrow> input \<Rightarrow> 'v \<Rightarrow> (schema_error, unit) res) \<Rightarrow> nat \<Rightarrow> usize \<Rightarrow> input \<Rightarrow> 'v list \<Rightarrow> (schema_error, unit) res" where
  "nested_preflight E A preflight n index i values =
     for_each (\<lambda>(j, v). and_then (map_err (mutation_layout (el_owner A)) (element_input_result E A i j))
       (\<lambda>element. preflight (position E n index j) element v)) (enumerate 0 values)"

definition nested_commit :: "env \<Rightarrow> ('r, 'v) elem_adapter \<Rightarrow> (usize \<Rightarrow> input \<Rightarrow> 'v \<Rightarrow> (schema_error, input) res) \<Rightarrow> nat \<Rightarrow> usize \<Rightarrow> input \<Rightarrow> 'v list \<Rightarrow> (schema_error, input) res" where
  "nested_commit E A commit n index i values =
     commit_loop (\<lambda>j v i. and_then (or_unreachable (element_input_mut_result E A i j))
       (\<lambda>sel. commit_element commit (position E n index j) sel v i)) 0 values i"

definition nested_adapter :: "env \<Rightarrow> ('r, 'v) elem_adapter \<Rightarrow> nat \<Rightarrow> (input, 'v list) elem_adapter" where
  "nested_adapter E A n = \<lparr>el_owner = el_owner A, el_wire = array_layout n (el_wire A),
     el_stride = wl_size (array_layout n (el_wire A)),
     el_prove = nested_prove E A n,
     el_read = (\<lambda>_ i. array_ref_prove E A n i),
     el_make_mut = (\<lambda>index i. and_then (array_mut_prove_at E A n i (saturating_mul E index n)) (\<lambda>h. Ok (am_input h))),
     el_preflight = nested_preflight E A (el_preflight A) n,
     el_commit = nested_commit E A (el_commit A) n,
     el_preflight_init = nested_preflight E A (el_preflight_init A) n,
     el_commit_init = nested_commit E A (el_commit_init A) n,
     el_index_error = el_index_error A, el_length_error = el_length_error A\<rparr>"

section \<open>The element contract\<close>

definition array_elem :: "('r, 'v) elem_adapter \<Rightarrow> input \<Rightarrow> nat \<Rightarrow> input" where
  "array_elem A i k = sub_input (el_wire A) (k * el_stride A) i"

text \<open>The state of a live array capability: a checked span in which every element is proved.\<close>

definition array_proved :: "env \<Rightarrow> ('r, 'v) elem_adapter \<Rightarrow> nat \<Rightarrow> input \<Rightarrow> bool" where
  "array_proved E A n i \<longleftrightarrow> input_ok E i \<and> i_wire i = array_layout n (el_wire A) \<and>
     (\<forall>k < n. el_prove A k (array_elem A i k) = Ok ())"

lemma element_offsets_disjoint: "k \<noteq> j \<Longrightarrow> k * s + s \<le> j * s \<or> j * s + s \<le> k * (s :: nat)"
proof -
  have "a * s + s \<le> b * s" if "a < b" for a b :: nat
  proof -
    have "Suc a * s \<le> b * s" using that by (intro mult_le_mono1) simp
    then show ?thesis by simp
  qed
  then show "k \<noteq> j \<Longrightarrow> ?thesis" by (meson linorder_neqE_nat)
qed

locale element_layout =
  fixes E :: env and ok :: bool and A :: "('r, 'v) elem_adapter"
  assumes env: "ok \<Longrightarrow> env_ok E"
    and wf_wire: "ok \<Longrightarrow> wf_layout (el_wire A)"
    and stride: "ok \<Longrightarrow> el_stride A = wl_size (el_wire A)"
begin

lemma select:
  assumes "ok" "input_ok E i" "i_wire i = array_layout n (el_wire A)" "k < n"
  shows "element_input_result E A i k = Ok (array_elem A i k)"
    "element_input_mut_result E A i k = Ok (k * el_stride A, array_elem A i k)"
    "input_ok E (array_elem A i k)" "i_wire (array_elem A i k) = el_wire A"
    "k * el_stride A + wl_size (el_wire A) \<le> length (i_bytes i)"
    "checked_element_offset E k (el_stride A) = Ok (k * el_stride A)"
    "subrange E (el_wire A) (k * el_stride A) i = Ok (array_elem A i k)"
proof -
  have fits: "field_fits (el_wire A) (k * el_stride A) (i_wire i)"
    using array_element_fits [OF wf_wire [OF assms(1)] assms(4)] assms(1,3) by (simp add: stride)
  show bound: "k * el_stride A + wl_size (el_wire A) \<le> length (i_bytes i)"
    using fits assms(2) by (simp add: field_fits_def input_ok_length)
  then have "k * el_stride A < usize_limit E" using input_ok_limit [OF assms(2)] by linarith
  then show off: "checked_element_offset E k (el_stride A) = Ok (k * el_stride A)"
    by (simp add: checked_element_offset_def checked_mul_def)
  show sub: "subrange E (el_wire A) (k * el_stride A) i = Ok (array_elem A i k)"
    using subrange_Ok [OF env [OF assms(1)] assms(2) fits] by (simp add: array_elem_def)
  show "element_input_result E A i k = Ok (array_elem A i k)"
    "element_input_mut_result E A i k = Ok (k * el_stride A, array_elem A i k)"
    using off sub by (simp_all add: element_input_result_def element_input_mut_result_def subrange_mut_eq)
  show "input_ok E (array_elem A i k)" "i_wire (array_elem A i k) = el_wire A"
    using sub_input_ok [OF assms(2) fits] by (simp_all add: array_elem_def)
qed

lemma write_elem:
  assumes "ok" "input_ok E i" "i_wire i = array_layout n (el_wire A)" "k < n" "same_span (array_elem A i k) c"
  shows "same_span i (write_back (k * el_stride A) c i)"
    and "input_ok E (write_back (k * el_stride A) c i)"
    and "i_wire (write_back (k * el_stride A) c i) = array_layout n (el_wire A)"
    and "j < n \<Longrightarrow> array_elem A (write_back (k * el_stride A) c i) j = (if j = k then c else array_elem A i j)"
proof -
  note sel = select [OF assms(1-4)]
  show span: "same_span i (write_back (k * el_stride A) c i)"
    using assms(5) sel(5) unfolding array_elem_def by (rule write_back_same_span)
  then show "input_ok E (write_back (k * el_stride A) c i)"
    "i_wire (write_back (k * el_stride A) c i) = array_layout n (el_wire A)"
    using assms(2,3) by (auto intro: same_span_input_ok dest: same_span_wire)
  assume j: "j < n"
  show "array_elem A (write_back (k * el_stride A) c i) j = (if j = k then c else array_elem A i j)"
  proof (cases "j = k")
    case True
    then show ?thesis
      using assms(5) sel(5) sub_input_write_back unfolding array_elem_def by auto
  next
    case False
    have "j * el_stride A + wl_size (el_wire A) \<le> k * el_stride A \<or> k * el_stride A + wl_size (el_wire A) \<le> j * el_stride A"
      using element_offsets_disjoint [OF False, of "el_stride A"] stride [OF assms(1)] by auto
    then show ?thesis
      using False assms(5) sel(5) select(5) [OF assms(1-3) j] sub_input_write_back_other
      unfolding array_elem_def by auto
  qed
qed

text \<open>The commit loop writes every element once, in order, and leaves the ones before its start alone.\<close>

lemma commit_loop_row:
  assumes "ok" "input_ok E i" "i_wire i = array_layout n (el_wire A)" "k + length vs = n"
    and "\<And>j. j < length vs \<Longrightarrow> \<exists>c. commit (pos (k + j)) (array_elem A i (k + j)) (vs ! j) = Ok c \<and>
      same_span (array_elem A i (k + j)) c \<and> P (k + j) c (vs ! j)"
  shows "\<exists>i'. commit_loop (\<lambda>index v i. and_then (or_unreachable (element_input_mut_result E A i index))
        (\<lambda>sel. commit_element commit (pos index) sel v i)) k vs i = Ok i' \<and> same_span i i' \<and>
      (\<forall>j < k. array_elem A i' j = array_elem A i j) \<and> (\<forall>j < length vs. P (k + j) (array_elem A i' (k + j)) (vs ! j))"
  using assms(2-5)
proof (induction vs arbitrary: i k)
  case (Cons v vs)
  have k: "k < n" using Cons.prems(3) by simp
  obtain c where c: "commit (pos k) (array_elem A i k) v = Ok c" "same_span (array_elem A i k) c" "P k c v"
    using Cons.prems(4) [of 0] by auto
  let ?i = "write_back (k * el_stride A) c i"
  note w = write_elem [OF assms(1) Cons.prems(1,2) k c(2)]
  have "\<exists>c. commit (pos (Suc k + j)) (array_elem A ?i (Suc k + j)) (vs ! j) = Ok c \<and>
      same_span (array_elem A ?i (Suc k + j)) c \<and> P (Suc k + j) c (vs ! j)" if "j < length vs" for j
    using that Cons.prems(3) Cons.prems(4) [of "Suc j"] w(4) [of "Suc k + j"] by simp
  from Cons.IH [OF w(2,3) _ this] Cons.prems(3)
  obtain i' where i': "commit_loop (\<lambda>index v i. and_then (or_unreachable (element_input_mut_result E A i index))
        (\<lambda>sel. commit_element commit (pos index) sel v i)) (Suc k) vs ?i = Ok i'" "same_span ?i i'"
    "\<forall>j < Suc k. array_elem A i' j = array_elem A ?i j" "\<forall>j < length vs. P (Suc k + j) (array_elem A i' (Suc k + j)) (vs ! j)"
    by auto
  have "commit_loop (\<lambda>index v i. and_then (or_unreachable (element_input_mut_result E A i index))
        (\<lambda>sel. commit_element commit (pos index) sel v i)) k (v # vs) i = Ok i'"
    using select(2) [OF assms(1) Cons.prems(1,2) k] c(1) i'(1) by (simp add: commit_element_def)
  moreover have "same_span i i'" using w(1) i'(2) by (rule same_span_trans)
  moreover have "\<forall>j < k. array_elem A i' j = array_elem A i j"
    using i'(3) w(4) k by simp
  moreover have "P (k + j) (array_elem A i' (k + j)) ((v # vs) ! j)" if "j < length (v # vs)" for j
  proof (cases j)
    case 0
    then show ?thesis using i'(3) w(4) [of k] k c(3) by simp
  next
    case (Suc m)
    then show ?thesis using i'(4) that by simp
  qed
  ultimately show ?case by blast
qed auto

end

locale element_contract = element_layout E ok A
  for E :: env and ok :: bool and A :: "('r, 'v) elem_adapter" +
  fixes val_ok :: "'v \<Rightarrow> bool" and shows_val :: "'r \<Rightarrow> 'v \<Rightarrow> bool"
  assumes prove_total: "ok \<Longrightarrow> input_ok E e \<Longrightarrow> i_wire e = el_wire A \<Longrightarrow> el_prove A k e \<noteq> Panic"
    and prove_position: "ok \<Longrightarrow> input_ok E e \<Longrightarrow> i_wire e = el_wire A \<Longrightarrow> el_prove A k e = Ok () \<Longrightarrow> el_prove A k' e = Ok ()"
    and proved_reads: "ok \<Longrightarrow> input_ok E e \<Longrightarrow> i_wire e = el_wire A \<Longrightarrow> el_prove A k e = Ok () \<Longrightarrow>
      (\<exists>r. el_read A k' e = Ok r) \<and> el_make_mut A k' e = Ok e"
    and preflight_total: "ok \<Longrightarrow> input_ok E e \<Longrightarrow> i_wire e = el_wire A \<Longrightarrow> val_ok v \<Longrightarrow> el_prove A k e = Ok () \<Longrightarrow>
      el_preflight A k e v \<noteq> Panic"
    and commit_law: "ok \<Longrightarrow> input_ok E e \<Longrightarrow> i_wire e = el_wire A \<Longrightarrow> val_ok v \<Longrightarrow> el_prove A k e = Ok () \<Longrightarrow>
      el_preflight A k e v = Ok () \<Longrightarrow> \<exists>c. el_commit A k e v = Ok c \<and> same_span e c \<and>
        el_prove A k c = Ok () \<and> (\<forall>k'. \<exists>r. el_read A k' c = Ok r \<and> shows_val r v)"
    and init_total: "ok \<Longrightarrow> input_ok E e \<Longrightarrow> i_wire e = el_wire A \<Longrightarrow> val_ok v \<Longrightarrow> el_preflight_init A k e v \<noteq> Panic"
    and init_law: "ok \<Longrightarrow> input_ok E e \<Longrightarrow> i_wire e = el_wire A \<Longrightarrow> val_ok v \<Longrightarrow>
      el_preflight_init A k e v = Ok () \<Longrightarrow> \<exists>c. el_commit_init A k e v = Ok c \<and> same_span e c \<and>
        el_prove A k c = Ok () \<and> (\<forall>k'. \<exists>r. el_read A k' c = Ok r \<and> shows_val r v)"
begin

lemma proved_elem:
  assumes "ok" "array_proved E A n i" "k < n"
  shows "input_ok E (array_elem A i k)" "i_wire (array_elem A i k) = el_wire A" "el_prove A k' (array_elem A i k) = Ok ()"
  using assms select [of i n k] prove_position unfolding array_proved_def by blast+

lemma proved_span: "array_proved E A n i \<Longrightarrow> input_ok E i" "array_proved E A n i \<Longrightarrow> i_wire i = array_layout n (el_wire A)"
  by (simp_all add: array_proved_def)

text \<open>Every element walk (\<open>ArrayRef::prove\<close>, \<open>ArrayMut::prove_at\<close>, a nested row) decides the same predicate.\<close>

lemma walk_iff:
  assumes "ok" "input_ok E i" "i_wire i = array_layout n (el_wire A)"
  shows "for_each (\<lambda>k. and_then (map_err g (element_input_result E A i k)) (el_prove A (pos k))) [0..<n] = Ok () \<longleftrightarrow>
      array_proved E A n i"
    and "for_each (\<lambda>k. and_then (map_err g (element_input_result E A i k)) (el_prove A (pos k))) [0..<n] \<noteq> Panic"
proof -
  have eq: "for_each (\<lambda>k. and_then (map_err g (element_input_result E A i k)) (el_prove A (pos k))) [0..<n] =
      for_each (\<lambda>k. el_prove A (pos k) (array_elem A i k)) [0..<n]"
    using select(1) [OF assms] by (intro for_each_cong) auto
  have "el_prove A (pos k) (array_elem A i k) = Ok () \<longleftrightarrow> el_prove A k (array_elem A i k) = Ok ()" if "k < n" for k
    using prove_position [OF assms(1) select(3,4) [OF assms that]] by blast
  then show "for_each (\<lambda>k. and_then (map_err g (element_input_result E A i k)) (el_prove A (pos k))) [0..<n] = Ok () \<longleftrightarrow>
      array_proved E A n i"
    unfolding eq using assms(2,3) by (auto simp: array_proved_def)
  show "for_each (\<lambda>k. and_then (map_err g (element_input_result E A i k)) (el_prove A (pos k))) [0..<n] \<noteq> Panic"
    unfolding eq using prove_total [OF assms(1) select(3,4) [OF assms]] by (auto dest!: for_each_Panic)
qed

lemma ref_prove_iff:
  assumes "ok" "input_ok E i" "i_wire i = array_layout n (el_wire A)"
  shows "array_ref_prove E A n i = Ok j \<longleftrightarrow> array_proved E A n i \<and> j = i" "array_ref_prove E A n i \<noteq> Panic"
  using walk_iff [OF assms] by (auto simp: array_ref_prove_def)

lemma mut_prove_at_eq:
  assumes "ok" "input_ok E i" "i_wire i = array_layout n (el_wire A)"
  shows "array_mut_prove_at E A n i base = and_then
      (for_each (\<lambda>k. and_then (map_err (access_layout (el_owner A)) (element_input_result E A i k))
         (el_prove A (saturating_add E base k))) [0..<n]) (\<lambda>_. Ok \<lparr>am_input = i, am_base = base\<rparr>)"
proof -
  have "for_each (\<lambda>k. and_then (map_err (access_layout (el_owner A)) (checked_element_offset E k (el_stride A)))
         (\<lambda>offset. and_then (shared E i) (\<lambda>s. and_then (map_err (access_layout (el_owner A)) (subrange E (el_wire A) offset s))
         (el_prove A (saturating_add E base k))))) [0..<n] =
       for_each (\<lambda>k. and_then (map_err (access_layout (el_owner A)) (element_input_result E A i k))
         (el_prove A (saturating_add E base k))) [0..<n]"
    using select(1,6,7) [OF assms]
    by (intro for_each_cong) (auto simp: shared_Ok [OF env [OF assms(1)] assms(2)])
  then show ?thesis by (simp add: array_mut_prove_at_def)
qed

lemma mut_prove_iff:
  assumes "ok" "input_ok E i" "i_wire i = array_layout n (el_wire A)"
  shows "array_mut_prove_at E A n i base = Ok h \<longleftrightarrow> array_proved E A n i \<and> h = \<lparr>am_input = i, am_base = base\<rparr>"
    "array_mut_prove_at E A n i base \<noteq> Panic"
  using walk_iff [OF assms] by (auto simp: mut_prove_at_eq [OF assms])

lemma get_of_proved:
  assumes "ok" "array_proved E A n i"
  shows "k < n \<Longrightarrow> \<exists>r. el_read A k (array_elem A i k) = Ok r \<and> array_ref_get E A n i k = Ok (Some r)"
    and "n \<le> k \<Longrightarrow> array_ref_get E A n i k = Ok None"
proof -
  assume k: "k < n"
  obtain r where "el_read A k (array_elem A i k) = Ok r"
    using proved_reads [OF assms(1) proved_elem [OF assms k]] by blast
  then show "\<exists>r. el_read A k (array_elem A i k) = Ok r \<and> array_ref_get E A n i k = Ok (Some r)"
    using k select(1) [OF assms(1) proved_span [OF assms(2)] k] by (simp add: array_ref_get_def)
qed (simp add: array_ref_get_def)

lemma mut_get_eq: "array_mut_get E A n h k = array_ref_get E A n (am_input h) k"
  by (simp add: array_mut_get_def array_ref_get_def)

lemma get_mut_of_proved:
  assumes "ok" "array_proved E A n (am_input h)"
  shows "array_mut_get_mut E A n h k = Ok (if k < n then Some (array_elem A (am_input h) k) else None)"
proof (cases "k < n")
  case True
  then show ?thesis
    using select(2) [OF assms(1) proved_span [OF assms(2)] True] proved_reads [OF assms(1) proved_elem [OF assms True]]
    by (simp add: array_mut_get_mut_def)
qed (simp add: array_mut_get_mut_def)

text \<open>Any element write that leaves a proved element keeps the array proved and the other elements alone.\<close>

lemma elem_write_back:
  assumes "ok" "array_proved E A n i" "k < n" "same_span (array_elem A i k) c" "el_prove A k c = Ok ()"
  shows "array_proved E A n (write_back (k * el_stride A) c i)"
    and "j < n \<Longrightarrow> array_elem A (write_back (k * el_stride A) c i) j = (if j = k then c else array_elem A i j)"
  using write_elem [OF assms(1) proved_span [OF assms(2)] assms(3,4)] assms(2,5)
  by (auto simp: array_proved_def)

lemma set_cases:
  assumes "ok" "array_proved E A n (am_input h)" "val_ok v"
  shows "case array_mut_set E A n h k v of
      (Ok _, h') \<Rightarrow> k < n \<and> array_proved E A n (am_input h') \<and> am_base h' = am_base h \<and>
        same_span (am_input h) (am_input h') \<and>
        (\<exists>r. array_mut_get E A n h' k = Ok (Some r) \<and> shows_val r v) \<and>
        (\<forall>j < n. j \<noteq> k \<longrightarrow> array_elem A (am_input h') j = array_elem A (am_input h) j)
    | (Err e, h') \<Rightarrow> h' = h \<and> e = (if k < n then e else el_index_error A k n)
    | (Panic, h') \<Rightarrow> False"
proof (cases "k < n")
  case True
  let ?i = "am_input h" and ?e = "array_elem A (am_input h) k"
  note pe = proved_elem [OF assms(1,2) True] and sp = proved_span [OF assms(2)]
  note sel = select [OF assms(1) sp True]
  show ?thesis
  proof (cases "el_preflight A (flat E h k) ?e v")
    case (Ok u)
    obtain c where c: "el_commit A (flat E h k) ?e v = Ok c" "same_span ?e c" "el_prove A (flat E h k) c = Ok ()"
      "\<forall>k'. \<exists>r. el_read A k' c = Ok r \<and> shows_val r v"
      using commit_law [OF assms(1) pe(1,2) assms(3) pe(3), of "flat E h k"] Ok by auto
    have cw: "input_ok E c" "i_wire c = el_wire A"
      using c(2) pe(1,2) by (auto intro: same_span_input_ok dest: same_span_wire)
    have "el_prove A k c = Ok ()" using prove_position [OF assms(1) cw c(3)] by blast
    note wb = elem_write_back [OF assms(1,2) True c(2) this]
    obtain r where "el_read A k c = Ok r" "shows_val r v" using c(4) by blast
    then have "array_ref_get E A n (write_back (k * el_stride A) c ?i) k = Ok (Some r)"
      using get_of_proved(1) [OF assms(1) wb(1) True] wb(2) [OF True] by auto
    moreover have "array_mut_set E A n h k v = (Ok (), h\<lparr>am_input := write_back (k * el_stride A) c ?i\<rparr>)"
      using True sel(1,2) Ok c(1) by (simp add: array_mut_set_def preflighted_def commit_element_def)
    ultimately show ?thesis
      using True wb \<open>shows_val r v\<close> write_elem(1) [OF assms(1) sp True c(2)] by (simp add: mut_get_eq)
  next
    case (Err x)
    then show ?thesis using True sel(1) by (simp add: array_mut_set_def preflighted_def)
  next
    case Panic
    then show ?thesis using preflight_total [OF assms(1) pe(1,2) assms(3) pe(3)] by simp
  qed
qed (simp add: array_mut_set_def)

lemma locations_ok:
  assumes "ok" "array_proved E A n (am_input h)"
  shows "preflight_element_locations E A n h = Ok ()"
  using select(1) [OF assms(1) proved_span [OF assms(2)]] by (simp add: preflight_element_locations_def)

text \<open>The preflight walk of a source over a proved array: it cannot panic and succeeds elementwise.\<close>

lemma preflight_walk:
  assumes "ok" "input_ok E i" "i_wire i = array_layout n (el_wire A)" "length vs = n"
    and "\<And>k. k < n \<Longrightarrow> pre (pos k) (array_elem A i k) (vs ! k) \<noteq> Panic"
    and "\<And>k. k < n \<Longrightarrow> g (element_input_result E A i k) = Ok (array_elem A i k)"
  shows "for_each (\<lambda>(k, v). and_then (g (element_input_result E A i k)) (\<lambda>e. pre (pos k) e v)) (enumerate 0 vs) = Ok () \<longleftrightarrow>
      (\<forall>k < n. pre (pos k) (array_elem A i k) (vs ! k) = Ok ())"
    and "for_each (\<lambda>(k, v). and_then (g (element_input_result E A i k)) (\<lambda>e. pre (pos k) e v)) (enumerate 0 vs) \<noteq> Panic"
proof -
  have eq: "for_each (\<lambda>(k, v). and_then (g (element_input_result E A i k)) (\<lambda>e. pre (pos k) e v)) (enumerate 0 vs) =
      for_each (\<lambda>(k, v). pre (pos k) (array_elem A i k) v) (enumerate 0 vs)"
    using assms(4,6) by (intro for_each_cong) (auto simp: in_set_enumerate_eq)
  show "for_each (\<lambda>(k, v). and_then (g (element_input_result E A i k)) (\<lambda>e. pre (pos k) e v)) (enumerate 0 vs) = Ok () \<longleftrightarrow>
      (\<forall>k < n. pre (pos k) (array_elem A i k) (vs ! k) = Ok ())"
    unfolding eq for_each_enumerate_Ok using assms(4) by simp
  show "for_each (\<lambda>(k, v). and_then (g (element_input_result E A i k)) (\<lambda>e. pre (pos k) e v)) (enumerate 0 vs) \<noteq> Panic"
    unfolding eq using assms(4,5) by (auto simp: in_set_enumerate_eq dest!: for_each_Panic)
qed

text \<open>A row whose elements all commit to proved ones: the loop returns a proved array showing the source.\<close>

lemma row_of_commits:
  assumes "ok" "input_ok E i" "i_wire i = array_layout n (el_wire A)" "length vs = n"
    and "\<And>k. k < n \<Longrightarrow> \<exists>c. commit (pos k) (array_elem A i k) (vs ! k) = Ok c \<and> same_span (array_elem A i k) c \<and>
      el_prove A (pos k) c = Ok () \<and> (\<forall>k'. \<exists>r. el_read A k' c = Ok r \<and> shows_val r (vs ! k))"
  shows "\<exists>i'. commit_loop (\<lambda>index v i. and_then (or_unreachable (element_input_mut_result E A i index))
        (\<lambda>sel. commit_element commit (pos index) sel v i)) 0 vs i = Ok i' \<and> same_span i i' \<and>
      array_proved E A n i' \<and> (\<forall>k < n. \<exists>r. array_ref_get E A n i' k = Ok (Some r) \<and> shows_val r (vs ! k))"
proof -
  let ?P = "\<lambda>k c v. el_prove A k c = Ok () \<and> (\<exists>r. el_read A k c = Ok r \<and> shows_val r v)"
  have "\<exists>c. commit (pos (0 + j)) (array_elem A i (0 + j)) (vs ! j) = Ok c \<and>
      same_span (array_elem A i (0 + j)) c \<and> ?P (0 + j) c (vs ! j)" if j: "j < length vs" for j
  proof -
    have n: "j < n" using j assms(4) by simp
    obtain c where c: "commit (pos j) (array_elem A i j) (vs ! j) = Ok c" "same_span (array_elem A i j) c"
      "el_prove A (pos j) c = Ok ()" "\<forall>k'. \<exists>r. el_read A k' c = Ok r \<and> shows_val r (vs ! j)"
      using assms(5) [OF n] by blast
    have "input_ok E c" "i_wire c = el_wire A"
      using c(2) select(3,4) [OF assms(1-3) n] by (auto intro: same_span_input_ok dest: same_span_wire)
    then have "el_prove A j c = Ok ()" using prove_position [OF assms(1) _ _ c(3)] by blast
    then show ?thesis using c by auto
  qed
  from commit_loop_row [where k = 0 and commit = commit and pos = pos and P = ?P, OF assms(1-3) _ this] assms(4)
  obtain i' where i': "commit_loop (\<lambda>index v i. and_then (or_unreachable (element_input_mut_result E A i index))
        (\<lambda>sel. commit_element commit (pos index) sel v i)) 0 vs i = Ok i'" "same_span i i'"
    "\<forall>j < n. ?P j (array_elem A i' j) (vs ! j)" by auto
  have proved: "array_proved E A n i'"
    using i'(2,3) assms(2,3) by (auto simp: array_proved_def intro: same_span_input_ok dest: same_span_wire)
  have "\<exists>r. array_ref_get E A n i' k = Ok (Some r) \<and> shows_val r (vs ! k)" if k: "k < n" for k
  proof -
    obtain r where "el_read A k (array_elem A i' k) = Ok r" "shows_val r (vs ! k)" using i'(3) k by blast
    then show ?thesis using get_of_proved(1) [OF assms(1) proved k] by auto
  qed
  then show ?thesis using i'(1,2) proved by blast
qed

lemma copy_from_cases:
  assumes "ok" "array_proved E A n (am_input h)" "\<forall>v \<in> set vs. val_ok v"
  shows "case array_mut_copy_from E A n h vs of
      (Ok _, h') \<Rightarrow> length vs = n \<and> array_proved E A n (am_input h') \<and> am_base h' = am_base h \<and>
        same_span (am_input h) (am_input h') \<and>
        (\<forall>k < n. \<exists>r. array_mut_get E A n h' k = Ok (Some r) \<and> shows_val r (vs ! k))
    | (Err e, h') \<Rightarrow> h' = h \<and> (length vs \<noteq> n \<longrightarrow> e = el_length_error A (length vs) n)
    | (Panic, h') \<Rightarrow> False"
proof (cases "length vs = n")
  case len: True
  let ?i = "am_input h" and ?pos = "flat E h"
  note sp = proved_span [OF assms(2)] and pe = proved_elem [OF assms(1,2)]
  have vs: "val_ok (vs ! k)" if "k < n" for k using assms(3) that len by simp
  have pt: "el_preflight A (?pos k) (array_elem A ?i k) (vs ! k) \<noteq> Panic" if "k < n" for k
    using preflight_total [OF assms(1) pe(1,2) [OF that] vs [OF that] pe(3) [OF that]] .
  have unreach: "or_unreachable (element_input_result E A ?i k) = Ok (array_elem A ?i k)" if "k < n" for k
    using select(1) [OF assms(1) sp that] by simp
  let ?pre = "for_each (\<lambda>(index, v). and_then (or_unreachable (element_input_result E A ?i index))
    (\<lambda>e. el_preflight A (?pos index) e v)) (enumerate 0 vs)"
  have walk: "?pre = Ok () \<longleftrightarrow> (\<forall>k < n. el_preflight A (?pos k) (array_elem A ?i k) (vs ! k) = Ok ())" "?pre \<noteq> Panic"
    using preflight_walk [where g = or_unreachable and pre = "el_preflight A" and pos = ?pos, OF assms(1) sp len pt unreach]
    by blast+
  note copy_from = array_mut_copy_from_def preflighted_def locations_ok [OF assms(1,2)]
  show ?thesis
  proof (cases "\<forall>k < n. el_preflight A (?pos k) (array_elem A ?i k) (vs ! k) = Ok ()")
    case True
    then have "\<exists>c. el_commit A (?pos k) (array_elem A ?i k) (vs ! k) = Ok c \<and> same_span (array_elem A ?i k) c \<and>
        el_prove A (?pos k) c = Ok () \<and> (\<forall>k'. \<exists>r. el_read A k' c = Ok r \<and> shows_val r (vs ! k))" if "k < n" for k
      using commit_law [OF assms(1) pe(1,2) [OF that] vs [OF that] pe(3) [OF that]] that by simp
    from row_of_commits [where commit = "el_commit A" and pos = ?pos, OF assms(1) sp len this]
    obtain i' where i': "commit_loop (\<lambda>index v i. and_then (or_unreachable (element_input_mut_result E A i index))
          (\<lambda>sel. commit_element (el_commit A) (?pos index) sel v i)) 0 vs ?i = Ok i'" "same_span ?i i'" "array_proved E A n i'"
      "\<forall>k < n. \<exists>r. array_ref_get E A n i' k = Ok (Some r) \<and> shows_val r (vs ! k)" by blast
    have "array_mut_copy_from E A n h vs = (Ok (), h\<lparr>am_input := i'\<rparr>)"
      using len walk(1) [THEN iffD2, OF True] i'(1) by (simp add: copy_from del: for_each_Ok)
    then show ?thesis using len i' by (simp add: mut_get_eq)
  next
    case False
    then have "?pre \<noteq> Ok ()" using walk(1) by blast
    then obtain e where "?pre = Err e" using res_Err_if walk(2) by blast
    then show ?thesis using len by (simp add: copy_from)
  qed
qed (simp add: array_mut_copy_from_def)

end

section \<open>Rows of a nested array\<close>

locale nested_elements = element_contract E ok A val_ok shows_val
  for E :: env and ok :: bool and A :: "('r, 'v) elem_adapter" and val_ok and shows_val +
  fixes n :: nat
begin

lemma row_prove_iff:
  assumes "ok" "input_ok E e" "i_wire e = array_layout n (el_wire A)"
  shows "nested_prove E A n index e = Ok () \<longleftrightarrow> array_proved E A n e" "nested_prove E A n index e \<noteq> Panic"
  using walk_iff [OF assms, of "access_layout (el_owner A)" "position E n index"] by (simp_all add: nested_prove_def)

lemma row_preflight:
  assumes "ok" "input_ok E e" "i_wire e = array_layout n (el_wire A)" "length vs = n"
    and "\<And>k. k < n \<Longrightarrow> pre (position E n index k) (array_elem A e k) (vs ! k) \<noteq> Panic"
  shows "nested_preflight E A pre n index e vs = Ok () \<longleftrightarrow>
      (\<forall>k < n. pre (position E n index k) (array_elem A e k) (vs ! k) = Ok ())"
    "nested_preflight E A pre n index e vs \<noteq> Panic"
proof -
  have "map_err (mutation_layout (el_owner A)) (element_input_result E A e k) = Ok (array_elem A e k)" if "k < n" for k
    using select(1) [OF assms(1-3) that] by simp
  from preflight_walk [where g = "map_err (mutation_layout (el_owner A))" and pos = "position E n index" and pre = pre,
      OF assms(1-5) this]
  show "nested_preflight E A pre n index e vs = Ok () \<longleftrightarrow>
      (\<forall>k < n. pre (position E n index k) (array_elem A e k) (vs ! k) = Ok ())"
    "nested_preflight E A pre n index e vs \<noteq> Panic"
    unfolding nested_preflight_def by blast+
qed

lemma row_commit:
  assumes "ok" "input_ok E e" "i_wire e = array_layout n (el_wire A)" "length vs = n"
    and "\<And>k. k < n \<Longrightarrow> \<exists>c. commit (position E n index k) (array_elem A e k) (vs ! k) = Ok c \<and> same_span (array_elem A e k) c \<and>
      el_prove A (position E n index k) c = Ok () \<and> (\<forall>k'. \<exists>r. el_read A k' c = Ok r \<and> shows_val r (vs ! k))"
  shows "\<exists>c. nested_commit E A commit n index e vs = Ok c \<and> same_span e c \<and> nested_prove E A n index c = Ok () \<and>
      array_ref_prove E A n c = Ok c \<and> (\<forall>k < n. \<exists>r. array_ref_get E A n c k = Ok (Some r) \<and> shows_val r (vs ! k))"
proof -
  from row_of_commits [where pos = "position E n index" and commit = commit, OF assms]
  obtain c where c: "nested_commit E A commit n index e vs = Ok c" "same_span e c" "array_proved E A n c"
    "\<forall>k < n. \<exists>r. array_ref_get E A n c k = Ok (Some r) \<and> shows_val r (vs ! k)"
    unfolding nested_commit_def by blast
  then show ?thesis
    using row_prove_iff(1) [OF assms(1) proved_span [OF c(3)]] ref_prove_iff(1) [OF assms(1) proved_span [OF c(3)]] by blast
qed

end

sublocale nested_elements \<subseteq> rows: element_contract E ok "nested_adapter E A n"
  "\<lambda>vs. length vs = n \<and> (\<forall>v \<in> set vs. val_ok v)"
  "\<lambda>r vs. \<forall>k < n. \<exists>x. array_ref_get E A n r k = Ok (Some x) \<and> shows_val x (vs ! k)"
proof unfold_locales
  let ?N = "nested_adapter E A n"
  show "ok \<Longrightarrow> env_ok E" by (rule env)
  show "ok \<Longrightarrow> wf_layout (el_wire ?N)" "ok \<Longrightarrow> el_stride ?N = wl_size (el_wire ?N)"
    using wf_wire by (simp_all add: nested_adapter_def)
  fix e k k' vs
  assume ok: ok and e: "input_ok E e" "i_wire e = el_wire ?N"
  then have w: "i_wire e = array_layout n (el_wire A)" by (simp add: nested_adapter_def)
  note prove = row_prove_iff [OF ok e(1) w]
  show "el_prove ?N k e \<noteq> Panic" using prove by (simp add: nested_adapter_def)
  show "el_prove ?N k e = Ok () \<Longrightarrow> el_prove ?N k' e = Ok ()" using prove by (simp add: nested_adapter_def)
  show "el_prove ?N k e = Ok () \<Longrightarrow> (\<exists>r. el_read ?N k' e = Ok r) \<and> el_make_mut ?N k' e = Ok e"
    using prove ref_prove_iff(1) [OF ok e(1) w] mut_prove_iff(1) [OF ok e(1) w] by (simp add: nested_adapter_def)
  assume "length vs = n \<and> (\<forall>v \<in> set vs. val_ok v)"
  then have len: "length vs = n" and vals: "\<And>j. j < n \<Longrightarrow> val_ok (vs ! j)" by auto
  note sel = select [OF ok e(1) w]
  let ?c = "\<lambda>commit. \<exists>c. commit k e vs = Ok c \<and> same_span e c \<and> el_prove ?N k c = Ok () \<and>
    (\<forall>k'. \<exists>r. el_read ?N k' c = Ok r \<and> (\<forall>k < n. \<exists>x. array_ref_get E A n r k = Ok (Some x) \<and> shows_val x (vs ! k)))"
  have init: "el_preflight_init A (position E n k j) (array_elem A e j) (vs ! j) \<noteq> Panic" if "j < n" for j
    using init_total [OF ok sel(3,4) [OF that] vals [OF that]] .
  show "el_preflight_init ?N k e vs \<noteq> Panic"
    using row_preflight(2) [of e vs "el_preflight_init A" k, OF ok e(1) w len init] by (simp add: nested_adapter_def)
  show "?c (el_commit_init ?N)" if pre: "el_preflight_init ?N k e vs = Ok ()"
  proof -
    have "\<forall>j < n. el_preflight_init A (position E n k j) (array_elem A e j) (vs ! j) = Ok ()"
      using row_preflight(1) [of e vs "el_preflight_init A" k, OF ok e(1) w len init] pre by (simp add: nested_adapter_def)
    then have "\<exists>c. el_commit_init A (position E n k j) (array_elem A e j) (vs ! j) = Ok c \<and> same_span (array_elem A e j) c \<and>
        el_prove A (position E n k j) c = Ok () \<and> (\<forall>k'. \<exists>r. el_read A k' c = Ok r \<and> shows_val r (vs ! j))" if "j < n" for j
      using init_law [OF ok sel(3,4) [OF that] vals [OF that]] that by blast
    from row_commit [of e vs "el_commit_init A" k, OF ok e(1) w len this] show ?thesis
      by (simp add: nested_adapter_def) blast
  qed
  assume "el_prove ?N k e = Ok ()"
  then have proved: "array_proved E A n e" using prove by (simp add: nested_adapter_def)
  note pe = proved_elem [OF ok proved]
  have total: "el_preflight A (position E n k j) (array_elem A e j) (vs ! j) \<noteq> Panic" if "j < n" for j
    using preflight_total [OF ok pe(1,2) [OF that] vals [OF that] pe(3) [OF that]] .
  show "el_preflight ?N k e vs \<noteq> Panic"
    using row_preflight(2) [of e vs "el_preflight A" k, OF ok e(1) w len total] by (simp add: nested_adapter_def)
  show "?c (el_commit ?N)" if pre: "el_preflight ?N k e vs = Ok ()"
  proof -
    have "\<forall>j < n. el_preflight A (position E n k j) (array_elem A e j) (vs ! j) = Ok ()"
      using row_preflight(1) [of e vs "el_preflight A" k, OF ok e(1) w len total] pre by (simp add: nested_adapter_def)
    then have "\<exists>c. el_commit A (position E n k j) (array_elem A e j) (vs ! j) = Ok c \<and> same_span (array_elem A e j) c \<and>
        el_prove A (position E n k j) c = Ok () \<and> (\<forall>k'. \<exists>r. el_read A k' c = Ok r \<and> shows_val r (vs ! j))" if "j < n" for j
      using commit_law [OF ok pe(1,2) [OF that] vals [OF that] pe(3) [OF that]] that by blast
    from row_commit [of e vs "el_commit A" k, OF ok e(1) w len this] show ?thesis
      by (simp add: nested_adapter_def) blast
  qed
qed

context nested_elements
begin

lemma rows_contract:
  "element_contract E ok (nested_adapter E A n) (\<lambda>vs. length vs = n \<and> (\<forall>v \<in> set vs. val_ok v))
     (\<lambda>r vs. \<forall>k < n. \<exists>x. array_ref_get E A n r k = Ok (Some x) \<and> shows_val x (vs ! k))"
  by (rule rows.element_contract_axioms)

end

section \<open>Generated adapters of leaf elements\<close>

text \<open>
  The adapter of a field \<open>f\<close> of the schema \<open>nm\<close>: an array with the given dimensions and primitive, Boolean or
  string leaves. Whole-array operations report the element's index path; the element handle reports the
  first position, and string replacements through it report the field.
\<close>

definition elem_errors :: "string \<Rightarrow> string \<Rightarrow> nat list \<Rightarrow> usize \<Rightarrow> leaf_errors" where
  "elem_errors nm f dims k = \<lparr>le_access_layout = access_layout nm,
     le_bool = (\<lambda>raw. access_child nm f (index_path_error dims k (\<lambda>i. array_bool_error nm i raw))),
     le_string = (\<lambda>kind. access_child nm f (index_path_error dims k (\<lambda>i. array_string_error nm i kind))),
     le_mutation_layout = mutation_layout nm,
     le_mutation_string = (\<lambda>e. if length dims = 1 then mutation_array nm f k (string_kind e)
        else mutation_array_path nm f (index_path_array dims k) (string_kind e)),
     le_length_mismatch = mutation_field_kind nm f ArrayLengthMismatch\<rparr>"

definition elem_handle_errors :: "string \<Rightarrow> string \<Rightarrow> nat list \<Rightarrow> leaf_errors" where
  "elem_handle_errors nm f dims = (elem_errors nm f dims 0)\<lparr>le_mutation_string := mutation_field nm f\<rparr>"

definition leaf_elem_prove :: "env \<Rightarrow> string \<Rightarrow> string \<Rightarrow> nat list \<Rightarrow> leaf \<Rightarrow> usize \<Rightarrow> input \<Rightarrow> (schema_error, unit) res" where
  "leaf_elem_prove E nm f dims l k i = (case l of Primitive _ _ \<Rightarrow> Ok ()
     | _ \<Rightarrow> and_then (leaf_read E (elem_errors nm f dims k) l i) (\<lambda>_. Ok ()))"

definition leaf_elem_adapter :: "env \<Rightarrow> string \<Rightarrow> string \<Rightarrow> nat list \<Rightarrow> leaf \<Rightarrow> (leaf_val, leaf_val) elem_adapter" where
  "leaf_elem_adapter E nm f dims l = \<lparr>el_owner = nm, el_wire = leaf_wire E l, el_stride = wl_size (leaf_wire E l),
     el_prove = leaf_elem_prove E nm f dims l,
     el_read = (\<lambda>k i. leaf_read E (elem_errors nm f dims k) l i),
     el_make_mut = (\<lambda>k i. and_then (shared E i) (\<lambda>s. and_then (leaf_elem_prove E nm f dims l k s)
        (\<lambda>_. scalar_mut_prove E (leaf_adapter E (elem_handle_errors nm f dims) l) i))),
     el_preflight = (\<lambda>k i v. leaf_preflight E (elem_errors nm f dims k) l i v),
     el_commit = (\<lambda>k i v. leaf_commit E l i v),
     el_preflight_init = (\<lambda>k i v. leaf_preflight E (elem_errors nm f dims k) l i v),
     el_commit_init = (\<lambda>k i v. leaf_commit E l i v),
     el_index_error = (\<lambda>index _. mutation_array nm f index ArrayIndexOutOfBounds),
     el_length_error = (\<lambda>_ _. mutation_field_kind nm f ArrayLengthMismatch)\<rparr>"

text \<open>Whether a leaf reads successfully does not depend on how its failures are reported.\<close>

lemma leaf_read_errors: "leaf_read E er l i = Ok v \<longleftrightarrow> leaf_read E er' l i = Ok v"
  by (cases l) (auto simp: leaf_read.simps split: option.splits)

lemma wf_leaf_wire [simp]: "env_ok E \<Longrightarrow> wf_layout (leaf_wire E l)"
  by (cases l) simp_all

lemma leaf_elem_prove_iff:
  assumes "env_ok E" "input_ok E i" "i_wire i = leaf_wire E l"
  shows "leaf_elem_prove E nm f dims l k i = Ok () \<longleftrightarrow> (\<exists>v. leaf_read E er l i = Ok v)"
    "leaf_elem_prove E nm f dims l k i \<noteq> Panic"
proof -
  have read: "(\<exists>v. leaf_read E er l i = Ok v) \<longleftrightarrow> (\<exists>v. leaf_read E (elem_errors nm f dims k) l i = Ok v)"
    using leaf_read_errors by blast
  show "leaf_elem_prove E nm f dims l k i = Ok () \<longleftrightarrow> (\<exists>v. leaf_read E er l i = Ok v)"
    "leaf_elem_prove E nm f dims l k i \<noteq> Panic"
    unfolding read using assms leaf_read_total [OF assms]
    by (cases l; auto simp: leaf_elem_prove_def read_prim_eq)+
qed

interpretation leaf_el: element_contract E "env_ok E" "leaf_elem_adapter E nm f dims l" "leaf_val_ok l" "(=)"
  for E nm f dims l
proof unfold_locales
  let ?A = "leaf_elem_adapter E nm f dims l"
  assume E: "env_ok E"
  show "env_ok E" by (rule E)
  show "wf_layout (el_wire ?A)" "el_stride ?A = wl_size (el_wire ?A)" using E by (simp_all add: leaf_elem_adapter_def)
  fix e k k' v
  assume e: "input_ok E e" "i_wire e = el_wire ?A"
  then have w: "i_wire e = leaf_wire E l" by (simp add: leaf_elem_adapter_def)
  note prove = leaf_elem_prove_iff [OF E e(1) w]
  show "el_prove ?A k e \<noteq> Panic" using prove(2) by (simp add: leaf_elem_adapter_def)
  show "el_prove ?A k e = Ok () \<Longrightarrow> el_prove ?A k' e = Ok ()"
    using prove(1) [of nm f dims k] prove(1) [of nm f dims k'] by (simp add: leaf_elem_adapter_def)
  show "el_prove ?A k e = Ok () \<Longrightarrow> (\<exists>r. el_read ?A k' e = Ok r) \<and> el_make_mut ?A k' e = Ok e"
  proof -
    assume "el_prove ?A k e = Ok ()"
    then have ok: "\<exists>v. leaf_read E er l e = Ok v" for er
      using prove(1) [of nm f dims k er] by (simp add: leaf_elem_adapter_def)
    then have "leaf_elem_prove E nm f dims l k' e = Ok ()" using prove(1) by blast
    moreover have "scalar_mut_prove E (leaf_adapter E (elem_handle_errors nm f dims) l) e = Ok e"
      using ok [of "elem_handle_errors nm f dims"] E e(1) by (auto simp: scalar_mut_prove_def shared_Ok leaf_adapter_def)
    ultimately show ?thesis using ok E e(1) by (simp add: leaf_elem_adapter_def shared_Ok)
  qed
  assume v: "leaf_val_ok l v"
  show "el_preflight ?A k e v \<noteq> Panic" "el_preflight_init ?A k e v \<noteq> Panic"
    using leaf_preflight_total [OF E e(1) w v] by (simp_all add: leaf_elem_adapter_def)
  have law: "\<exists>c. leaf_commit E l e v = Ok c \<and> same_span e c \<and> leaf_elem_prove E nm f dims l k c = Ok () \<and>
      (\<forall>k'. \<exists>r. leaf_read E (elem_errors nm f dims k') l c = Ok r \<and> r = v)"
    if pre: "leaf_preflight E (elem_errors nm f dims k) l e v = Ok ()"
  proof -
    obtain c where c: "leaf_commit E l e v = Ok c" "same_span e c" "leaf_read E (elem_errors nm f dims k) l c = Ok v"
      using leaf_commit_law [OF E e(1) w v pre] by blast
    have "input_ok E c" "i_wire c = leaf_wire E l"
      using c(2) e(1) w by (auto intro: same_span_input_ok dest: same_span_wire)
    then show ?thesis using c leaf_elem_prove_iff(1) [OF E] leaf_read_errors by blast
  qed
  show "el_preflight ?A k e v = Ok () \<Longrightarrow> \<exists>c. el_commit ?A k e v = Ok c \<and> same_span e c \<and>
      el_prove ?A k c = Ok () \<and> (\<forall>k'. \<exists>r. el_read ?A k' c = Ok r \<and> r = v)"
    "el_preflight_init ?A k e v = Ok () \<Longrightarrow> \<exists>c. el_commit_init ?A k e v = Ok c \<and> same_span e c \<and>
      el_prove ?A k c = Ok () \<and> (\<forall>k'. \<exists>r. el_read ?A k' c = Ok r \<and> r = v)"
    using law by (simp_all add: leaf_elem_adapter_def)
qed

interpretation leaf_rows: nested_elements E "env_ok E" "leaf_elem_adapter E nm f dims l" "leaf_val_ok l" "(=)" n
  for E nm f dims l n
  by unfold_locales

section \<open>Properties\<close>

text \<open>
  C10. Two-pass atomicity of \<open>ArrayMut::copy_from\<close> for every array of leaves: a source of the wrong length or
  with a rejected element leaves the whole array, byte for byte, as it was; an accepted source keeps the
  span, and every element then reads back as its source value. It never panics.
\<close>

theorem copy_from_atomic:
  assumes "env_ok E" "array_proved E (leaf_elem_adapter E nm f dims l) n (am_input h)" "\<forall>v \<in> set vs. leaf_val_ok l v"
  shows "case array_mut_copy_from E (leaf_elem_adapter E nm f dims l) n h vs of
      (Ok _, h') \<Rightarrow> length vs = n \<and> array_proved E (leaf_elem_adapter E nm f dims l) n (am_input h') \<and>
        same_span (am_input h) (am_input h') \<and>
        (\<forall>k < n. array_mut_get E (leaf_elem_adapter E nm f dims l) n h' k = Ok (Some (vs ! k)))
    | (Err e, h') \<Rightarrow> h' = h \<and> (length vs \<noteq> n \<longrightarrow> e = mutation_field_kind nm f ArrayLengthMismatch)
    | (Panic, h') \<Rightarrow> False"
  using leaf_el.copy_from_cases [OF assms(1,2,3)]
  by (auto simp: leaf_elem_adapter_def split: prod.splits res.splits)

lemma byte_array_proved:
  "env_ok E \<Longrightarrow> input_ok E i \<Longrightarrow> i_wire i = array_layout n (prim_layout E U8) \<Longrightarrow>
   array_proved E (leaf_elem_adapter E nm f dims (Primitive en U8)) n i"
  by (simp add: array_proved_def leaf_elem_adapter_def leaf_elem_prove_def)

theorem copy_from_atomic_witness:
  "snd (array_mut_copy_from linux_x86_64 (leaf_elem_adapter linux_x86_64 ''Root'' ''data'' [2] (Primitive Native U8)) 2
     \<lparr>am_input = \<lparr>i_addr = 3, i_bytes = [1, 2], i_wire = array_layout 2 (prim_layout linux_x86_64 U8)\<rparr>, am_base = 0\<rparr> [NumVal 9]) =
   \<lparr>am_input = \<lparr>i_addr = 3, i_bytes = [1, 2], i_wire = array_layout 2 (prim_layout linux_x86_64 U8)\<rparr>, am_base = 0\<rparr>"
proof -
  let ?w = "array_layout 2 (prim_layout linux_x86_64 U8)" and ?l = "Primitive Native U8"
  let ?i = "\<lparr>i_addr = 3, i_bytes = [1, 2], i_wire = ?w\<rparr>"
  have "wf_layout ?w" by (simp add: wf_array_layout)
  then have "input_ok linux_x86_64 ?i" by (simp add: input_ok_def array_layout_def prim_layout_def)
  then have "array_proved linux_x86_64 (leaf_elem_adapter linux_x86_64 ''Root'' ''data'' [2] ?l) 2 ?i"
    by (intro byte_array_proved) simp_all
  moreover have "\<forall>v \<in> set [NumVal 9]. leaf_val_ok ?l v" by (simp add: prim_ok_def)
  ultimately show ?thesis
    using copy_from_atomic [OF env_ok_linux_x86_64, of "''Root''" "''data''" "[2]" ?l 2 "\<lparr>am_input = ?i, am_base = 0\<rparr>" "[NumVal 9]"]
    by (auto split: prod.splits res.splits)
qed

text \<open>
  \<open>ArrayMut::set\<close>: an index outside the array is an error that names it; an accepted value is read back
  at its index and no other element's bytes change; a rejected one changes nothing; the array stays proved.
\<close>

theorem array_set_frame:
  assumes "env_ok E" "array_proved E (leaf_elem_adapter E nm f dims l) n (am_input h)" "leaf_val_ok l v"
  shows "case array_mut_set E (leaf_elem_adapter E nm f dims l) n h k v of
      (Ok _, h') \<Rightarrow> k < n \<and> array_proved E (leaf_elem_adapter E nm f dims l) n (am_input h') \<and>
        array_mut_get E (leaf_elem_adapter E nm f dims l) n h' k = Ok (Some v) \<and>
        (\<forall>j < n. j \<noteq> k \<longrightarrow> array_elem (leaf_elem_adapter E nm f dims l) (am_input h') j =
           array_elem (leaf_elem_adapter E nm f dims l) (am_input h) j)
    | (Err e, h') \<Rightarrow> h' = h \<and> (n \<le> k \<longrightarrow> e = mutation_array nm f k ArrayIndexOutOfBounds)
    | (Panic, h') \<Rightarrow> False"
  using leaf_el.set_cases [OF assms, of k]
  by (auto simp: leaf_elem_adapter_def split: prod.splits res.splits)

theorem array_set_frame_witness:
  "array_mut_set linux_x86_64 (leaf_elem_adapter linux_x86_64 ''Root'' ''data'' [2] (Primitive Native U8)) 2
     \<lparr>am_input = \<lparr>i_addr = 3, i_bytes = [1, 2], i_wire = array_layout 2 (prim_layout linux_x86_64 U8)\<rparr>, am_base = 0\<rparr> 5 (NumVal 9) =
   (Err (mutation_array ''Root'' ''data'' 5 ArrayIndexOutOfBounds),
    \<lparr>am_input = \<lparr>i_addr = 3, i_bytes = [1, 2], i_wire = array_layout 2 (prim_layout linux_x86_64 U8)\<rparr>, am_base = 0\<rparr>)"
proof -
  let ?w = "array_layout 2 (prim_layout linux_x86_64 U8)" and ?l = "Primitive Native U8"
  let ?i = "\<lparr>i_addr = 3, i_bytes = [1, 2], i_wire = ?w\<rparr>"
  have "wf_layout ?w" by (simp add: wf_array_layout)
  then have "input_ok linux_x86_64 ?i" by (simp add: input_ok_def array_layout_def prim_layout_def)
  then have "array_proved linux_x86_64 (leaf_elem_adapter linux_x86_64 ''Root'' ''data'' [2] ?l) 2 ?i"
    by (intro byte_array_proved) simp_all
  then show ?thesis
    using array_set_frame [OF env_ok_linux_x86_64, of "''Root''" "''data''" "[2]" ?l 2 "\<lparr>am_input = ?i, am_base = 0\<rparr>" "NumVal 9" 5]
    by (auto simp: prim_ok_def split: prod.splits res.splits)
qed

lemma byte_grid_proved:
  assumes E: "env_ok E" and i: "input_ok E i" "i_wire i = array_layout n (array_layout m (prim_layout E U8))"
  shows "array_proved E (nested_adapter E (leaf_elem_adapter E nm f dims (Primitive en U8)) m) n i"
proof -
  let ?A = "leaf_elem_adapter E nm f dims (Primitive en U8)"
  let ?N = "nested_adapter E ?A m"
  have N: "el_wire ?N = array_layout m (prim_layout E U8)" "el_prove ?N = nested_prove E ?A m" "el_wire ?A = prim_layout E U8"
    by (simp_all add: nested_adapter_def leaf_elem_adapter_def)
  have "el_prove ?N k (array_elem ?N i k) = Ok ()" if "k < n" for k
  proof -
    have sel: "input_ok E (array_elem ?N i k)" "i_wire (array_elem ?N i k) = array_layout m (prim_layout E U8)"
      using leaf_rows.rows.select(3,4) [OF E i(1) _ that] i(2) N(1) by metis+
    then have "array_proved E ?A m (array_elem ?N i k)" using E by (intro byte_array_proved)
    then show ?thesis using leaf_rows.row_prove_iff(1) [OF E sel(1)] sel(2) N by metis
  qed
  then show ?thesis unfolding array_proved_def using i N(1) by simp
qed

text \<open>
  C24. Rows of a nested array behave like elements: copying rows into a two-dimensional array is all or
  nothing over the whole matrix, and an accepted copy makes every element of every row read as its source.
\<close>

theorem nested_copy_from_atomic:
  assumes "env_ok E" "array_proved E (nested_adapter E (leaf_elem_adapter E nm f dims l) m) n (am_input h)"
    and "\<forall>row \<in> set rows. length row = m \<and> (\<forall>v \<in> set row. leaf_val_ok l v)"
  shows "case array_mut_copy_from E (nested_adapter E (leaf_elem_adapter E nm f dims l) m) n h rows of
      (Ok _, h') \<Rightarrow> length rows = n \<and> same_span (am_input h) (am_input h') \<and>
        (\<forall>k < n. \<exists>row. array_mut_get E (nested_adapter E (leaf_elem_adapter E nm f dims l) m) n h' k = Ok (Some row) \<and>
           (\<forall>j < m. array_ref_get E (leaf_elem_adapter E nm f dims l) m row j = Ok (Some (rows ! k ! j))))
    | (Err e, h') \<Rightarrow> h' = h
    | (Panic, h') \<Rightarrow> False"
  using leaf_rows.rows.copy_from_cases [OF assms]
  by (auto split: prod.splits res.splits)

theorem nested_copy_from_atomic_witness:
  "snd (array_mut_copy_from linux_x86_64 (nested_adapter linux_x86_64 (leaf_elem_adapter linux_x86_64 ''Root'' ''grid'' [1, 2] (Primitive Native U8)) 2) 1
     \<lparr>am_input = \<lparr>i_addr = 3, i_bytes = [1, 2], i_wire = array_layout 1 (array_layout 2 (prim_layout linux_x86_64 U8))\<rparr>, am_base = 0\<rparr> []) =
   \<lparr>am_input = \<lparr>i_addr = 3, i_bytes = [1, 2], i_wire = array_layout 1 (array_layout 2 (prim_layout linux_x86_64 U8))\<rparr>, am_base = 0\<rparr>"
proof -
  let ?A = "leaf_elem_adapter linux_x86_64 ''Root'' ''grid'' [1, 2] (Primitive Native U8)"
  let ?w = "array_layout 1 (array_layout 2 (prim_layout linux_x86_64 U8))"
  let ?i = "\<lparr>i_addr = 3, i_bytes = [1, 2], i_wire = ?w\<rparr>"
  have "wf_layout ?w" by (simp add: wf_array_layout)
  then have "input_ok linux_x86_64 ?i" by (simp add: input_ok_def array_layout_def prim_layout_def)
  then have "array_proved linux_x86_64 (nested_adapter linux_x86_64 ?A 2) 1 ?i"
    by (intro byte_grid_proved) simp_all
  then show ?thesis
    using nested_copy_from_atomic [OF env_ok_linux_x86_64, of "''Root''" "''grid''" "[1, 2]" "Primitive Native U8" 2 1 "\<lparr>am_input = ?i, am_base = 0\<rparr>" "[]"]
    by (auto split: prod.splits res.splits)
qed

lemma position_exact: "index * n + j < usize_limit E \<Longrightarrow> position E n index j = index * n + j"
  by (simp add: position_def saturating_add_def saturating_mul_def)

lemma flat_fold_bound:
  assumes "length is = length ds" "\<forall>(i, d) \<in> set (zip is ds). i < d" "p < (b :: nat)"
  shows "foldl (\<lambda>p (i, d). p * d + i) p (zip is ds) < b * prod_list ds"
  using assms
proof (induction "is" ds arbitrary: p b rule: list_induct2)
  case (Cons i "is" d ds)
  have "p * d + i < b * d"
  proof -
    have "p * d + i < Suc p * d" using Cons.prems(1) by simp
    also have "\<dots> \<le> b * d" using Cons.prems(2) by (intro mult_le_mono1) simp
    finally show ?thesis .
  qed
  from Cons.IH [OF _ this] Cons.prems(1) show ?case by (simp add: mult.assoc)
qed simp

lemma position_fold:
  assumes "length is = length ds" "\<forall>(i, d) \<in> set (zip is ds). i < d" "p < b" "b * prod_list ds \<le> usize_limit E"
  shows "foldl (\<lambda>p (i, d). position E d p i) p (zip is ds) = foldl (\<lambda>p (i, d). p * d + i) p (zip is ds)"
  using assms
proof (induction "is" ds arbitrary: p b rule: list_induct2)
  case (Cons i "is" d ds)
  have bd: "p * d + i < b * d"
    using flat_fold_bound [of "[i]" "[d]" p b] Cons.prems by simp
  have "\<forall>(i, d) \<in> set (zip is ds). i < d" using Cons.prems(1) by simp
  from flat_fold_bound [OF Cons.hyps this bd] have "0 < b * d * prod_list ds" by (rule le_less_trans [OF le0])
  then have "b * d \<le> b * d * prod_list ds" by simp
  also have "\<dots> \<le> usize_limit E" using Cons.prems(3) by (simp add: mult.assoc)
  finally have "position E d p i = p * d + i" using bd by (intro position_exact) simp
  then show ?case using Cons.IH [OF _ bd] Cons.prems by (simp add: mult.assoc)
qed simp

text \<open>
  C25. Error paths of nested arrays name every index: the flat position that the nested adapters compute with
  saturating arithmetic, level by level, is taken apart by the generated code into exactly the indices it
  came from, provided the array has at most as many elements as \<open>usize\<close> can count.
\<close>

theorem nested_error_path_exact:
  assumes "length ix = length dims" "ix \<noteq> []" "\<forall>(i, d) \<in> set (zip ix dims). i < d"
    and "prod_list dims \<le> usize_limit E"
  shows "index_path_array dims (foldl (\<lambda>p (i, d). position E d p i) (hd ix) (zip (tl ix) (tl dims))) = ix"
proof -
  obtain i0 "is" d0 ds where c: "ix = i0 # is" "dims = d0 # ds"
    using assms(1,2) by (metis length_0_conv neq_Nil_conv)
  have "foldl (\<lambda>p (i, d). position E d p i) i0 (zip is ds) = flat_position dims ix"
    using assms position_fold [of "is" ds i0 d0 E] c by (simp add: flat_position_def)
  then show ?thesis using index_path_array_flat [OF assms(1-3)] c by simp
qed

theorem nested_error_path_exact_witness:
  "index_path_array [2, 3, 4] (position linux_x86_64 4 (position linux_x86_64 3 1 2) 3) = [1, 2, 3]"
  using nested_error_path_exact [of "[1, 2, 3]" "[2, 3, 4]" linux_x86_64] by simp

lemma array_ref_iter_step:
  "k < n \<Longrightarrow> array_ref_iter_next E A n (i, k) = (array_ref_get E A n i k, (i, Suc k))"
  "array_ref_iter_next E A n (i, n) = (Ok None, (i, n))"
  by (auto simp: array_ref_iter_next_def)

lemma array_mut_iter_step:
  "k \<le> n \<Longrightarrow> array_mut_iter_next E A n (i, k) = array_ref_iter_next E A n (i, k)"
proof -
  have "or_unreachable (and_then r g) = and_then (or_unreachable r) (\<lambda>x. or_unreachable (g x))" for r :: "('e, 'a) res" and g :: "'a \<Rightarrow> ('e, 'b) res"
    by (cases r) auto
  then show "k \<le> n \<Longrightarrow> ?thesis"
    by (cases "checked_element_offset E k (el_stride A)")
      (auto simp: array_mut_iter_next_def array_ref_iter_next_def array_ref_get_def element_input_result_def)
qed

lemma iter_exhausted: "iter_take (array_ref_iter_next E A n) m (i, n) = replicate m (Ok None)"
  by (induction m) (simp_all add: array_ref_iter_step)

text \<open>
  Iteration is exact: starting from the view, the iterators of both capabilities yield the elements
  \<open>get(0)\<close>, \<dots>, \<open>get(n - 1)\<close> in order and then \<open>None\<close> forever, and the size hint is the number still to come.
\<close>

theorem iteration_exact:
  "k \<le> n \<longrightarrow> iter_take (array_ref_iter_next E A n) (n - k + m) (i, k) =
     map (array_ref_get E A n i) [k..<n] @ replicate m (Ok None) \<and>
   iter_take (array_mut_iter_next E A n) (n - k + m) (i, k) =
     iter_take (array_ref_iter_next E A n) (n - k + m) (i, k) \<and>
   iter_size_hint n (i, k) = (length [k..<n], Some (length [k..<n]))"
proof (intro impI conjI)
  assume k: "k \<le> n"
  show "iter_take (array_ref_iter_next E A n) (n - k + m) (i, k) =
      map (array_ref_get E A n i) [k..<n] @ replicate m (Ok None)"
    using k
  proof (induction "n - k" arbitrary: k)
    case 0
    then show ?case by (simp add: iter_exhausted)
  next
    case (Suc d)
    then have "n - k + m = Suc (n - Suc k + m)" "k < n" "[k..<n] = k # [Suc k..<n]" by (auto simp: upt_conv_Cons)
    then show ?case using Suc(1) [of "Suc k"] Suc(2) by (simp add: array_ref_iter_step)
  qed
  have "iter_take (array_mut_iter_next E A n) q (i, j) = iter_take (array_ref_iter_next E A n) q (i, j)" if "j \<le> n" for q j
    using that
  proof (induction q arbitrary: j)
    case (Suc q)
    then show ?case by (cases "j = n") (simp_all add: array_mut_iter_step array_ref_iter_step)
  qed simp
  then show "iter_take (array_mut_iter_next E A n) (n - k + m) (i, k) =
      iter_take (array_ref_iter_next E A n) (n - k + m) (i, k)" using k by blast
qed (simp add: iter_size_hint_def Let_def)

theorem iteration_exact_witness:
  "iter_size_hint 3 (\<lparr>i_addr = 0, i_bytes = [], i_wire = bytes_layout 0\<rparr>, 1) = (2, Some 2)"
  using iteration_exact [of 1 3 linux_x86_64 "leaf_elem_adapter linux_x86_64 ''R'' ''f'' [3] Bool" 0
      "\<lparr>i_addr = 0, i_bytes = [], i_wire = bytes_layout 0\<rparr>"] by (simp add: iter_size_hint_def)

end
