(* ===== verification/Zs_Support.thy ===== *)
theory Zs_Support
  imports Zs_Array
begin

text \<open>
  The generated support of a schema, \<open>src/src/__private.rs\<close>: the traits \<open>WireType\<close>, \<open>WireTypeSupport\<close>,
  \<open>SchemaSupport\<close>, \<open>LogicalSchema\<close> and \<open>SchemaLogicalMutation\<close> as one record of operations, the tagged
  counterparts as another, and the zero-state protocol. The macro composes a record from the supports of
  its field types only, so the records below are all a parent sees of a child. The locale
  \<open>schema_contract\<close> is what a parent relies on; scalar enums are its first interpretation.
\<close>

section \<open>Logical values and read views\<close>

text \<open>
  A logical value of any schema type. \<open>VariantValue\<close> is a variant of a tagged payload by its declaration
  index, with the payload of a newtype variant.
\<close>

datatype lval =
    LeafValue leaf_val
  | EnumValue nat
  | RecordValue "lval list"
  | VariantValue nat "lval option"
  | ArrayValue "lval list"
  | OptionValue "lval option"

text \<open>What a getter returns: a copied leaf or enum, a proved span, or a tag with its selected payload span.\<close>

datatype view = LeafView leaf_val | EnumView nat | SpanView input | TaggedView nat input

section \<open>Zero states\<close>

datatype zero_state = ZeroValid | ZeroInvalid

fun zs_or :: "zero_state \<Rightarrow> zero_state \<Rightarrow> zero_state" where
  "zs_or ZeroValid rhs = rhs"
| "zs_or ZeroInvalid rhs = ZeroInvalid"

fun zs_and :: "zero_state \<Rightarrow> zero_state \<Rightarrow> zero_state" where
  "zs_and ZeroValid rhs = ZeroValid"
| "zs_and ZeroInvalid rhs = rhs"

fun zero_flag :: "bool \<Rightarrow> zero_state" where
  "zero_flag True = ZeroValid"
| "zero_flag False = ZeroInvalid"

lemma zs_or_valid [simp]: "zs_or a b = ZeroValid \<longleftrightarrow> a = ZeroValid \<and> b = ZeroValid"
  by (cases a) auto

lemma zs_and_valid [simp]: "zs_and a b = ZeroValid \<longleftrightarrow> a = ZeroValid \<or> b = ZeroValid"
  by (cases a) auto

lemma zero_flag_valid [simp]: "zero_flag b = ZeroValid \<longleftrightarrow> b"
  by (cases b) auto

lemma zero_state_neq [simp]: "s \<noteq> ZeroInvalid \<longleftrightarrow> s = ZeroValid" "s \<noteq> ZeroValid \<longleftrightarrow> s = ZeroInvalid"
  by (cases s; simp)+

section \<open>Patches\<close>

text \<open>
  A generated patch value: the optional value of a scalar enum's patch, one optional update per field of a
  record's, the selected variant of a tagged payload's, and the inner update of an optional field. Fields
  that are replaced whole (leaves, arrays, tag siblings) carry the logical value itself.
\<close>

datatype pval =
    ValuePatch lval
  | EnumPatch "nat option"
  | RecordPatch "pval option list"
  | VariantPatch nat "pval option"
  | OptionPatch "pval option"

section \<open>Schema supports\<close>

text \<open>
  \<open>Replace\<close> is \<open>preflight_logical\<close> and \<open>commit_logical\<close>, which may inspect a proved destination; \<open>Init\<close> is
  \<open>preflight_init_logical\<close> and \<open>commit_init_logical\<close>, which must not.
\<close>

datatype mode = Replace | Init

text \<open>
  The traits \<open>SchemaPatch\<close> and \<open>TaggedPayloadPatch\<close> with the conversion \<open>From<Logical>\<close>. \<open>pa_ok\<close> is the patch's
  Rust type and \<open>pa_patched\<close> the intended result: the logical value an accepted patch leaves, over the
  destination's value, or over nothing when the destination is initialized.
\<close>

record patch_ops =
  pa_ok :: "pval \<Rightarrow> bool"
  pa_is_complete :: "pval \<Rightarrow> bool"
  pa_preflight :: "mode \<Rightarrow> input \<Rightarrow> pval \<Rightarrow> (schema_error, unit) res"
  pa_commit :: "mode \<Rightarrow> input \<Rightarrow> pval \<Rightarrow> (schema_error, input) res"
  pa_from :: "lval \<Rightarrow> pval"
  pa_patched :: "pval \<Rightarrow> lval option \<Rightarrow> lval option"

record schema_support =
  ss_name :: string
  ss_wire :: wlayout
  ss_val_ok :: "lval \<Rightarrow> bool"
  ss_validate :: "input \<Rightarrow> (schema_error, unit) res"
  ss_make_ref :: "input \<Rightarrow> (schema_error, view) res"
  ss_materialize :: "view \<Rightarrow> (schema_error, lval) res"
  ss_preflight :: "mode \<Rightarrow> input \<Rightarrow> lval \<Rightarrow> (schema_error, unit) res"
  ss_commit :: "mode \<Rightarrow> input \<Rightarrow> lval \<Rightarrow> (schema_error, input) res"
  ss_zero_state :: zero_state
  ss_clear_state :: zero_state
  ss_zero_is_valid :: bool
  ss_patch :: patch_ops

text \<open>The provided methods \<open>prove\<close> and \<open>prove_mut\<close>; a proof is the input it was made for.\<close>

definition ss_prove :: "schema_support \<Rightarrow> input \<Rightarrow> (schema_error, input) res" where
  "ss_prove S i = and_then (ss_validate S i) (\<lambda>_. Ok i)"

definition ss_prove_mut :: "env \<Rightarrow> schema_support \<Rightarrow> input \<Rightarrow> (schema_error, input) res" where
  "ss_prove_mut E S i = and_then (shared E i) (\<lambda>s. and_then (ss_validate S s) (\<lambda>_. Ok i))"

text \<open>\<open>LogicalSchema::materialize(proof)\<close>: the reference is made and then copied out.\<close>

definition ss_logical :: "schema_support \<Rightarrow> input \<Rightarrow> (schema_error, lval) res" where
  "ss_logical S i = and_then (ss_make_ref S i) (ss_materialize S)"

text \<open>The generated root functions \<open>access\<close>, \<open>access_mut\<close>, \<open>access_prefix\<close> and \<open>access_mut_prefix\<close>.\<close>

definition ss_access :: "env \<Rightarrow> schema_support \<Rightarrow> usize \<Rightarrow> byte list \<Rightarrow> (schema_error, input) res" where
  "ss_access E S addr bs =
     and_then (map_err (access_layout (ss_name S)) (from_exact E (ss_wire S) addr bs)) (\<lambda>i. ss_prove S i)"

definition ss_access_mut :: "env \<Rightarrow> schema_support \<Rightarrow> usize \<Rightarrow> byte list \<Rightarrow> (schema_error, input) res" where
  "ss_access_mut E S addr bs =
     and_then (map_err (access_layout (ss_name S)) (from_exact E (ss_wire S) addr bs)) (\<lambda>i. ss_prove_mut E S i)"

definition ss_access_prefix :: "env \<Rightarrow> schema_support \<Rightarrow> usize \<Rightarrow> byte list \<Rightarrow> (schema_error, input \<times> byte list) res" where
  "ss_access_prefix E S addr bs =
     and_then (map_err (access_layout (ss_name S)) (from_prefix E (ss_wire S) addr bs))
       (\<lambda>(i, remainder). and_then (ss_prove S i) (\<lambda>p. Ok (p, remainder)))"

definition ss_access_mut_prefix :: "env \<Rightarrow> schema_support \<Rightarrow> usize \<Rightarrow> byte list \<Rightarrow> (schema_error, input \<times> byte list) res" where
  "ss_access_mut_prefix E S addr bs =
     and_then (map_err (access_layout (ss_name S)) (from_prefix E (ss_wire S) addr bs))
       (\<lambda>(i, remainder). and_then (ss_prove_mut E S i) (\<lambda>p. Ok (p, remainder)))"

text \<open>
  The provided \<open>SchemaSupport::preflight_patch\<close>, which proves the destination first, \<open>commit_patch\<close>, and
  the generated \<open>copy_from\<close>.
\<close>

definition ss_preflight_patch :: "schema_support \<Rightarrow> input \<Rightarrow> pval \<Rightarrow> (schema_error, unit) res" where
  "ss_preflight_patch S i p =
     and_then (map_err (mutation_access (ss_name S)) (ss_validate S i)) (\<lambda>_. pa_preflight (ss_patch S) Replace i p)"

definition ss_commit_patch :: "schema_support \<Rightarrow> input \<Rightarrow> pval \<Rightarrow> (schema_error, input) res" where
  "ss_commit_patch S i p = pa_commit (ss_patch S) Replace i p"

definition ss_copy_from :: "env \<Rightarrow> schema_support \<Rightarrow> input \<Rightarrow> pval \<Rightarrow> (schema_error, unit) res \<times> input" where
  "ss_copy_from E S i p =
     preflighted i (and_then (shared E i) (\<lambda>s. ss_preflight_patch S s p))
       (and_then (reborrow E i) (\<lambda>j. ss_commit_patch S j p))"

section \<open>The schema contract\<close>

text \<open>A destination the given mode may write to: any checked span, or a proved one.\<close>

definition ready :: "mode \<Rightarrow> (schema_error, unit) res \<Rightarrow> bool" where
  "ready m proof \<longleftrightarrow> m = Init \<or> proof = Ok ()"

lemma ready_simps [simp]: "ready Init p" "ready Replace p \<longleftrightarrow> p = Ok ()" "ready m (Ok ())"
  by (auto simp: ready_def)

locale schema_contract =
  fixes E :: env and ok :: bool and S :: schema_support
  assumes env: "ok \<Longrightarrow> env_ok E"
    and wf_wire: "ok \<Longrightarrow> wf_layout (ss_wire S)"
    and validate_total: "ok \<Longrightarrow> input_ok E i \<Longrightarrow> i_wire i = ss_wire S \<Longrightarrow> ss_validate S i \<noteq> Panic"
    and proved_reads: "ok \<Longrightarrow> input_ok E i \<Longrightarrow> i_wire i = ss_wire S \<Longrightarrow> ss_validate S i = Ok () \<Longrightarrow>
      \<exists>r v. ss_make_ref S i = Ok r \<and> ss_materialize S r = Ok v"
    and preflight_total: "ok \<Longrightarrow> input_ok E i \<Longrightarrow> i_wire i = ss_wire S \<Longrightarrow> ss_val_ok S v \<Longrightarrow>
      ready m (ss_validate S i) \<Longrightarrow> ss_preflight S m i v \<noteq> Panic"
    and commit_law: "ok \<Longrightarrow> input_ok E i \<Longrightarrow> i_wire i = ss_wire S \<Longrightarrow> ss_val_ok S v \<Longrightarrow>
      ready m (ss_validate S i) \<Longrightarrow> ss_preflight S m i v = Ok () \<Longrightarrow>
      \<exists>c. ss_commit S m i v = Ok c \<and> same_span i c \<and> ss_validate S c = Ok () \<and> ss_logical S c = Ok v"
    and zero_exact: "ok \<Longrightarrow> input_ok E i \<Longrightarrow> i_wire i = ss_wire S \<Longrightarrow> is_all_zero i \<Longrightarrow>
      ss_validate S i = Ok () \<longleftrightarrow> ss_zero_is_valid S"
    and clear_state_sound: "ok \<Longrightarrow> ss_clear_state S = ZeroValid \<Longrightarrow> ss_zero_is_valid S"
    and zero_state_sound: "ok \<Longrightarrow> ss_zero_is_valid S \<Longrightarrow> ss_zero_state S = ZeroValid"
begin

lemma logical_of_proved:
  assumes "ok" "input_ok E i" "i_wire i = ss_wire S" "ss_validate S i = Ok ()"
  shows "\<exists>r v. ss_make_ref S i = Ok r \<and> ss_materialize S r = Ok v \<and> ss_logical S i = Ok v"
  using proved_reads [OF assms] by (auto simp: ss_logical_def)

lemma option_inner_never_zero:
  assumes "ok" "input_ok E i" "i_wire i = ss_wire S" "ss_zero_state S = ZeroInvalid" "ss_validate S i = Ok ()"
  shows "\<not> is_all_zero i"
  using zero_exact [OF assms(1-3)] zero_state_sound [OF assms(1)] assms(4,5) by auto

lemma never_both_optional_and_clearable:
  "ok \<Longrightarrow> ss_zero_state S = ZeroInvalid \<Longrightarrow> ss_clear_state S = ZeroInvalid"
  using clear_state_sound zero_state_sound by fastforce

lemma access_iff:
  assumes "ok"
  shows "ss_access E S addr bs = Ok i \<longleftrightarrow> from_exact E (ss_wire S) addr bs = Ok i \<and> ss_validate S i = Ok ()"
  by (auto simp: ss_access_def ss_prove_def)

lemma access_mut_eq:
  assumes "ok"
  shows "ss_access_mut E S addr bs = ss_access E S addr bs"
proof (cases "from_exact E (ss_wire S) addr bs")
  case (Ok i)
  then have "from_checked E (i_wire i) (i_addr i) (i_bytes i) = Ok i"
    using env [OF assms] by (auto simp: from_exact_def from_checked_Ok)
  then show ?thesis
    using Ok by (simp add: ss_access_def ss_access_mut_def ss_prove_def ss_prove_mut_def shared_def)
qed (simp_all add: ss_access_def ss_access_mut_def)

end

section \<open>Scalar enums\<close>

text \<open>The patch of a scalar enum: its optional replacement value.\<close>

definition enum_patch_ops :: "env \<Rightarrow> enum_decl \<Rightarrow> patch_ops" where
  "enum_patch_ops E D = \<lparr>
     pa_ok = (\<lambda>p. case p of EnumPatch x \<Rightarrow> (case x of None \<Rightarrow> True | Some d \<Rightarrow> List.member (en_discs D) d) | _ \<Rightarrow> False),
     pa_is_complete = (\<lambda>p. case p of EnumPatch x \<Rightarrow> x \<noteq> None | _ \<Rightarrow> False),
     pa_preflight = (\<lambda>m i p. Ok ()),
     pa_commit = (\<lambda>m i p. case p of EnumPatch x \<Rightarrow> enum_patch_commit E D i x | _ \<Rightarrow> Panic),
     pa_from = (\<lambda>v. EnumPatch (case v of EnumValue d \<Rightarrow> Some d | _ \<Rightarrow> None)),
     pa_patched = (\<lambda>p b. case p of EnumPatch (Some d) \<Rightarrow> Some (EnumValue d) | _ \<Rightarrow> b)\<rparr>"

text \<open>The support \<open>emit_scalar_module\<close> generates. A value is its discriminant; \<open>make_ref\<close> copies it out.\<close>

definition enum_support :: "env \<Rightarrow> enum_decl \<Rightarrow> schema_support" where
  "enum_support E D = \<lparr>ss_name = en_name D, ss_wire = enum_wire E D,
     ss_val_ok = (\<lambda>v. case v of EnumValue d \<Rightarrow> List.member (en_discs D) d | _ \<Rightarrow> False),
     ss_validate = enum_validate E D,
     ss_make_ref = (\<lambda>i. and_then (enum_get E D i) (\<lambda>d. Ok (EnumView d))),
     ss_materialize = (\<lambda>r. case r of EnumView d \<Rightarrow> Ok (EnumValue d) | _ \<Rightarrow> Panic),
     ss_preflight = (\<lambda>m i v. case v of EnumValue d \<Rightarrow> enum_preflight_logical D i d | _ \<Rightarrow> Panic),
     ss_commit = (\<lambda>m i v. case v of EnumValue d \<Rightarrow> enum_commit E D i d | _ \<Rightarrow> Panic),
     ss_zero_state = (if List.member (en_discs D) 0 then ZeroValid else ZeroInvalid),
     ss_clear_state = (if List.member (en_discs D) 0 then ZeroValid else ZeroInvalid),
     ss_zero_is_valid = List.member (en_discs D) 0, ss_patch = enum_patch_ops E D\<rparr>"

interpretation enum_schema: schema_contract E "env_ok E \<and> enum_ok D" "enum_support E D" for E D
proof unfold_locales
  let ?S = "enum_support E D"
  assume ok: "env_ok E \<and> enum_ok D"
  then show "env_ok E" "wf_layout (ss_wire ?S)" by (simp_all add: enum_support_def)
  show "ss_clear_state ?S = ZeroValid \<Longrightarrow> ss_zero_is_valid ?S" "ss_zero_is_valid ?S \<Longrightarrow> ss_zero_state ?S = ZeroValid"
    by (simp_all add: enum_support_def split: if_splits)
  fix i v m
  assume i: "input_ok E i" "i_wire i = ss_wire ?S"
  then have w: "i_wire i = enum_wire E D" by (simp add: enum_support_def)
  have eqs: "enum_validate E D j = (if enum_of E D j \<in> set (en_discs D) then Ok () else Err (unknown_enum_value (en_name D)))"
    "enum_get E D j = (if enum_of E D j \<in> set (en_discs D) then Ok (enum_of E D j) else Panic)"
    if "input_ok E j" "i_wire j = enum_wire E D" for j
    using that ok enum_validate_eq enum_get_eq by blast+
  show "ss_validate ?S i \<noteq> Panic" using eqs [OF i(1) w] by (simp add: enum_support_def)
  show "ss_validate ?S i = Ok () \<Longrightarrow> \<exists>r v. ss_make_ref ?S i = Ok r \<and> ss_materialize ?S r = Ok v"
    using eqs [OF i(1) w] by (simp add: enum_support_def split: if_splits)
  show "is_all_zero i \<Longrightarrow> (ss_validate ?S i = Ok ()) = ss_zero_is_valid ?S"
    using eqs [OF i(1) w] enum_of_zero [of i E D] by (simp add: enum_support_def)
  assume v: "ss_val_ok ?S v"
  then obtain d where d: "v = EnumValue d" "d \<in> set (en_discs D)"
    by (auto simp: enum_support_def split: lval.splits)
  then show "ss_preflight ?S m i v \<noteq> Panic" by (simp add: enum_support_def enum_preflight_logical_def)
  obtain c where c: "enum_commit E D i d = Ok c" "same_span i c" "enum_of E D c = d"
    using enum_commit_Ok [OF conjunct1 [OF ok] i(1) w conjunct2 [OF ok] d(2)] by blast
  moreover have "input_ok E c" "i_wire c = enum_wire E D"
    using c(2) i(1) w by (auto intro: same_span_input_ok dest: same_span_wire)
  ultimately show "\<exists>c. ss_commit ?S m i v = Ok c \<and> same_span i c \<and> ss_validate ?S c = Ok () \<and> ss_logical ?S c = Ok v"
    using d eqs by (auto simp: enum_support_def ss_logical_def)
qed

end
