(* ===== verification/Zs_Tagged.thy ===== *)
theory Zs_Tagged
  imports Zs_Support
begin

text \<open>
  Externally tagged payloads: the selections and the commit order of \<open>src/src/tagged.rs\<close>, the trait
  \<open>TaggedPayloadSupport\<close> with its logical mutation, and the union support \<open>emit_tagged_module\<close> and
  \<open>emit_tagged_logical_mutation\<close> generate. A tag is the discriminant of the sibling scalar enum.
\<close>

section \<open>Payload supports and selections\<close>

record payload_support =
  ps_name :: string
  ps_wire :: wlayout
  ps_tags :: "nat list"
  ps_val_ok :: "lval \<Rightarrow> bool"
  ps_validate_selected :: "nat \<Rightarrow> input \<Rightarrow> (schema_error, unit) res"
  ps_materialize_selected :: "nat \<Rightarrow> input \<Rightarrow> (schema_error, lval) res"
  ps_logical_tag :: "lval \<Rightarrow> (schema_error, nat) res"
  ps_preflight :: "mode \<Rightarrow> nat \<Rightarrow> input \<Rightarrow> lval \<Rightarrow> (schema_error, unit) res"
  ps_commit :: "mode \<Rightarrow> input \<Rightarrow> lval \<Rightarrow> (schema_error, input) res"
  ps_zero_state :: zero_state
  ps_clear_state :: zero_state
  ps_zero_is_valid :: bool
  ps_patch_tag :: "pval \<Rightarrow> (schema_error, nat) res"
  ps_patch :: patch_ops

record selection =
  sel_tag :: nat
  sel_payload :: input

definition ref_prove_at :: "env \<Rightarrow> payload_support \<Rightarrow> input \<Rightarrow> nat \<Rightarrow> usize \<Rightarrow> (schema_error, selection) res" where
  "ref_prove_at E P root tag payload_offset =
     and_then (map_err (access_layout (ps_name P)) (subrange E (ps_wire P) payload_offset root)) (\<lambda>payload.
     and_then (ps_validate_selected P tag payload) (\<lambda>_. Ok \<lparr>sel_tag = tag, sel_payload = payload\<rparr>))"

definition ref_prove_selected :: "payload_support \<Rightarrow> nat \<Rightarrow> input \<Rightarrow> (schema_error, selection) res" where
  "ref_prove_selected P tag payload =
     and_then (ps_validate_selected P tag payload) (\<lambda>_. Ok \<lparr>sel_tag = tag, sel_payload = payload\<rparr>)"

definition ref_materialize :: "payload_support \<Rightarrow> selection \<Rightarrow> (schema_error, lval) res" where
  "ref_materialize P s = ps_materialize_selected P (sel_tag s) (sel_payload s)"

definition mut_prove_at :: "env \<Rightarrow> payload_support \<Rightarrow> input \<Rightarrow> nat \<Rightarrow> usize \<Rightarrow> (schema_error, selection) res" where
  "mut_prove_at E P root tag payload_offset =
     and_then (map_err (access_layout (ps_name P)) (subrange_mut E (ps_wire P) payload_offset root)) (\<lambda>payload.
     and_then (shared E payload) (\<lambda>s.
     and_then (ps_validate_selected P tag s) (\<lambda>_. Ok \<lparr>sel_tag = tag, sel_payload = payload\<rparr>)))"

section \<open>Payload before tag\<close>

definition checked_payload_range :: "env \<Rightarrow> usize \<Rightarrow> usize \<Rightarrow> usize \<Rightarrow> (layout_error, usize \<times> usize) res" where
  "checked_payload_range E available payload_offset payload_size = checked_range E available payload_offset payload_size"

definition checked_tagged_ranges ::
    "env \<Rightarrow> usize \<Rightarrow> usize \<Rightarrow> usize \<Rightarrow> usize \<Rightarrow> usize \<Rightarrow> (layout_error, (usize \<times> usize) \<times> (usize \<times> usize)) res" where
  "checked_tagged_ranges E available tag_offset tag_size payload_offset payload_size =
     and_then (checked_range E available tag_offset tag_size) (\<lambda>tag.
     and_then (checked_payload_range E available payload_offset payload_size) (\<lambda>payload. Ok (tag, payload)))"

text \<open>
  A \<open>FnOnce(ExclusiveInput)\<close> closure: run on a span and on the state it captured, it leaves a span and a
  state, and either returns (\<open>True\<close>) or unwinds (\<open>False\<close>), in which case what it wrote stays written. A
  closure over values only, as the generated code passes, captures nothing it could change.
\<close>

type_synonym 's closure = "input \<Rightarrow> 's \<Rightarrow> bool \<times> input \<times> 's"

definition value_closure :: "(input \<Rightarrow> (schema_error, input) res) \<Rightarrow> 's closure" where
  "value_closure f i s = (case f i of Ok c \<Rightarrow> (True, c, s) | _ \<Rightarrow> (False, i, s))"

text \<open>
  \<open>commit_payload_before_tag_with\<close>: both ranges are checked, the payload closure runs on the payload span,
  and when it returns the tag closure runs on the tag span, in the state the payload closure left.
\<close>

definition commit_payload_before_tag_with ::
    "env \<Rightarrow> payload_support \<Rightarrow> wlayout \<Rightarrow> input \<Rightarrow> usize \<Rightarrow> usize \<Rightarrow> 's closure \<Rightarrow> 's closure \<Rightarrow> 's \<Rightarrow>
     (schema_error, unit) res \<times> input \<times> 's" where
  "commit_payload_before_tag_with E P tag_wire root tag_offset payload_offset commit_payload store_tag s =
     (case map_err (mutation_layout (ps_name P))
          (checked_tagged_ranges E (wl_size (i_wire root)) tag_offset (wl_size tag_wire) payload_offset (wl_size (ps_wire P))) of
        Err e \<Rightarrow> (Err e, root, s)
      | Panic \<Rightarrow> (Panic, root, s)
      | Ok _ \<Rightarrow> (case subrange_mut E (ps_wire P) payload_offset root of
          Ok payload \<Rightarrow> (case commit_payload payload s of (returned, p, s) \<Rightarrow>
            (let root = write_back payload_offset p root in
             if \<not> returned then (Panic, root, s)
             else case subrange_mut E tag_wire tag_offset root of
               Ok tag \<Rightarrow> (case store_tag tag s of (returned, t, s) \<Rightarrow>
                 (if returned then Ok () else Panic, write_back tag_offset t root, s))
             | _ \<Rightarrow> (Panic, root, s)))
        | _ \<Rightarrow> (Panic, root, s)))"

text \<open>The patch form is the same code around \<open>Payload::commit_patch\<close>.\<close>

definition commit_payload_before_tag ::
    "env \<Rightarrow> payload_support \<Rightarrow> wlayout \<Rightarrow> input \<Rightarrow> usize \<Rightarrow> usize \<Rightarrow> ('p \<Rightarrow> 's closure) \<Rightarrow> 'p \<Rightarrow> 's closure \<Rightarrow> 's \<Rightarrow>
     (schema_error, unit) res \<times> input \<times> 's" where
  "commit_payload_before_tag E P tag_wire root tag_offset payload_offset commit_patch patch store_tag =
     commit_payload_before_tag_with E P tag_wire root tag_offset payload_offset (commit_patch patch) store_tag"

text \<open>Two spans that share no byte.\<close>

definition disjoint_spans :: "nat \<Rightarrow> nat \<Rightarrow> nat \<Rightarrow> nat \<Rightarrow> bool" where
  "disjoint_spans a m b n \<longleftrightarrow> a + m \<le> b \<or> b + n \<le> a"

lemma checked_tagged_ranges_Ok:
  assumes "input_ok E root" "tag_offset + m \<le> wl_size (i_wire root)" "payload_offset + n \<le> wl_size (i_wire root)"
  shows "\<exists>r. checked_tagged_ranges E (wl_size (i_wire root)) tag_offset m payload_offset n = Ok r"
  using assms by (simp add: checked_tagged_ranges_def checked_payload_range_def checked_range_Ok input_ok_def)

lemma checked_tagged_ranges_total: "checked_tagged_ranges E a b c d e \<noteq> Panic"
  by (simp add: checked_tagged_ranges_def checked_payload_range_def checked_range_total)

text \<open>What the helper does with two spans of the root, whatever its closures do on them.\<close>

lemma commit_payload_before_tag_runs:
  assumes "env_ok E" "input_ok E root" "field_fits tag_wire tag_offset (i_wire root)"
    "field_fits (ps_wire P) payload_offset (i_wire root)"
    "disjoint_spans tag_offset (wl_size tag_wire) payload_offset (wl_size (ps_wire P))"
    "commit_payload (sub_input (ps_wire P) payload_offset root) s = (b, p, s1)"
    "same_span (sub_input (ps_wire P) payload_offset root) p"
  defines "r \<equiv> write_back payload_offset p root"
  shows "\<not> b \<Longrightarrow> commit_payload_before_tag_with E P tag_wire root tag_offset payload_offset commit_payload store_tag s = (Panic, r, s1)"
    and "b \<Longrightarrow> store_tag (sub_input tag_wire tag_offset root) s1 = (c, t, s2) \<Longrightarrow>
      commit_payload_before_tag_with E P tag_wire root tag_offset payload_offset commit_payload store_tag s =
        (if c then Ok () else Panic, write_back tag_offset t r, s2)"
    and "same_span root r" "sub_input (ps_wire P) payload_offset r = p" "sub_input tag_wire tag_offset r = sub_input tag_wire tag_offset root"
proof -
  have bounds: "tag_offset + wl_size tag_wire \<le> length (i_bytes root)"
    "payload_offset + wl_size (ps_wire P) \<le> length (i_bytes root)"
    using assms(2-4) by (simp_all add: field_fits_def input_ok_length)
  show span: "same_span root r" unfolding r_def using assms(7) bounds(2) by (rule write_back_same_span)
  have ok: "input_ok E r" "i_wire r = i_wire root"
    using span assms(2) by (auto intro: same_span_input_ok dest: same_span_wire)
  show tag: "sub_input tag_wire tag_offset r = sub_input tag_wire tag_offset root"
    unfolding r_def using assms(5,7) bounds by (intro sub_input_write_back_other) (auto simp: disjoint_spans_def)
  show "sub_input (ps_wire P) payload_offset r = p" unfolding r_def by (rule sub_input_write_back [OF assms(7) bounds(2)])
  have ranges: "\<exists>r. checked_tagged_ranges E (wl_size (i_wire root)) tag_offset (wl_size tag_wire) payload_offset
      (wl_size (ps_wire P)) = Ok r"
    using assms(2-4) by (intro checked_tagged_ranges_Ok) (auto simp: field_fits_def)
  then show "\<not> b \<Longrightarrow> commit_payload_before_tag_with E P tag_wire root tag_offset payload_offset commit_payload store_tag s = (Panic, r, s1)"
    using assms(1-4,6) by (auto simp: commit_payload_before_tag_with_def subrange_mut_eq subrange_Ok Let_def r_def)
  show "commit_payload_before_tag_with E P tag_wire root tag_offset payload_offset commit_payload store_tag s =
        (if c then Ok () else Panic, write_back tag_offset t r, s2)"
    if "b" "store_tag (sub_input tag_wire tag_offset root) s1 = (c, t, s2)"
  proof -
    have "subrange_mut E (ps_wire P) payload_offset root = Ok (sub_input (ps_wire P) payload_offset root)"
      "subrange_mut E tag_wire tag_offset r = Ok (sub_input tag_wire tag_offset root)"
      using assms(1-4) ok tag by (simp_all add: subrange_mut_eq subrange_Ok)
    then show ?thesis using that ranges assms(6) by (auto simp: commit_payload_before_tag_with_def Let_def r_def)
  qed
qed

lemma commit_payload_before_tag_law:
  assumes "env_ok E" "input_ok E root" "field_fits tag_wire tag_offset (i_wire root)"
    "field_fits (ps_wire P) payload_offset (i_wire root)"
    "disjoint_spans tag_offset (wl_size tag_wire) payload_offset (wl_size (ps_wire P))"
    "commit_payload (sub_input (ps_wire P) payload_offset root) = Ok p"
    "same_span (sub_input (ps_wire P) payload_offset root) p"
    "store_tag (sub_input tag_wire tag_offset root) = Ok t" "same_span (sub_input tag_wire tag_offset root) t"
  shows "commit_payload_before_tag_with E P tag_wire root tag_offset payload_offset (value_closure commit_payload) (value_closure store_tag) s =
      (Ok (), write_back tag_offset t (write_back payload_offset p root), s)"
    and "same_span root (write_back tag_offset t (write_back payload_offset p root))"
    and "sub_input (ps_wire P) payload_offset (write_back tag_offset t (write_back payload_offset p root)) = p"
    and "sub_input tag_wire tag_offset (write_back tag_offset t (write_back payload_offset p root)) = t"
proof -
  let ?r = "write_back payload_offset p root"
  have c: "value_closure commit_payload (sub_input (ps_wire P) payload_offset root) s = (True, p, s)" using assms(6) by (simp add: value_closure_def)
  note runs = commit_payload_before_tag_runs [where commit_payload = "value_closure commit_payload", OF assms(1-5) c assms(7)]
  show "commit_payload_before_tag_with E P tag_wire root tag_offset payload_offset (value_closure commit_payload) (value_closure store_tag) s =
      (Ok (), write_back tag_offset t ?r, s)"
    using runs(2) [of "value_closure store_tag" True t s] assms(8) by (simp add: value_closure_def)
  have tspan: "same_span (sub_input tag_wire tag_offset ?r) t" using runs(5) assms(9) by simp
  have bounds: "tag_offset + wl_size tag_wire \<le> length (i_bytes ?r)" "payload_offset + wl_size (ps_wire P) \<le> length (i_bytes ?r)"
    using assms(2-4) same_span_length [OF runs(3)] by (simp_all add: field_fits_def input_ok_length)
  show "same_span root (write_back tag_offset t ?r)"
    using same_span_trans [OF runs(3) write_back_same_span [OF tspan bounds(1)]] .
  show "sub_input tag_wire tag_offset (write_back tag_offset t ?r) = t" by (rule sub_input_write_back [OF tspan bounds(1)])
  have "sub_input (ps_wire P) payload_offset (write_back tag_offset t ?r) = sub_input (ps_wire P) payload_offset ?r"
    using tspan assms(5) bounds by (intro sub_input_write_back_other) (auto simp: disjoint_spans_def)
  then show "sub_input (ps_wire P) payload_offset (write_back tag_offset t ?r) = p" using runs(4) by simp
qed

section \<open>Generated payloads\<close>

text \<open>A variant: its name, the discriminant of its tag, and the support of a newtype variant's type.\<close>

record variant_ir =
  va_name :: string
  va_tag :: nat
  va_shape :: "schema_support option"

text \<open>A unit variant is stored as one byte; the payload is the \<open>repr(C)\<close> union of the variants.\<close>

definition variant_wire :: "env \<Rightarrow> variant_ir \<Rightarrow> wlayout" where
  "variant_wire E va = (case va_shape va of None \<Rightarrow> repr_c [prim_layout E U8] | Some S \<Rightarrow> ss_wire S)"

definition payload_wire :: "env \<Rightarrow> variant_ir list \<Rightarrow> wlayout" where
  "payload_wire E vs = repr_c_union (map (variant_wire E) vs)"

definition payload_validate :: "env \<Rightarrow> string \<Rightarrow> variant_ir list \<Rightarrow> nat \<Rightarrow> input \<Rightarrow> (schema_error, unit) res" where
  "payload_validate E nm vs tag payload =
     (case find (\<lambda>va. va_tag va = tag) vs of
        None \<Rightarrow> Err (unknown_union_tag nm)
      | Some va \<Rightarrow> (case va_shape va of
          None \<Rightarrow> Ok ()
        | Some S \<Rightarrow> and_then (map_err (access_layout nm) (subrange E (ss_wire S) 0 payload)) (\<lambda>i.
            map_err (variant_child nm (va_name va)) (and_then (ss_prove S i) (\<lambda>_. Ok ())))))"

definition payload_materialize :: "env \<Rightarrow> variant_ir list \<Rightarrow> nat \<Rightarrow> input \<Rightarrow> (schema_error, lval) res" where
  "payload_materialize E vs tag payload =
     (case find (\<lambda>(k, va). va_tag va = tag) (enumerate 0 vs) of
        None \<Rightarrow> Panic
      | Some (k, va) \<Rightarrow> (case va_shape va of
          None \<Rightarrow> Ok (VariantValue k None)
        | Some S \<Rightarrow> and_then (or_unreachable (subrange E (ss_wire S) 0 payload)) (\<lambda>i.
            and_then (or_unreachable (ss_prove S i)) (\<lambda>proof.
            and_then (ss_logical S proof) (\<lambda>v. Ok (VariantValue k (Some v)))))))"

definition payload_logical_tag :: "variant_ir list \<Rightarrow> lval \<Rightarrow> (schema_error, nat) res" where
  "payload_logical_tag vs v = (case v of
     VariantValue k x \<Rightarrow> if k < length vs then Ok (va_tag (vs ! k)) else Panic | _ \<Rightarrow> Panic)"

definition payload_val_ok :: "variant_ir list \<Rightarrow> lval \<Rightarrow> bool" where
  "payload_val_ok vs v = (case v of
     VariantValue k x \<Rightarrow> k < length vs \<and>
       (case (va_shape (vs ! k), x) of (None, None) \<Rightarrow> True | (Some S, Some y) \<Rightarrow> ss_val_ok S y | _ \<Rightarrow> False)
   | _ \<Rightarrow> False)"

text \<open>The match over the source's variant, in either mode; other values cannot reach it.\<close>

definition preflight_arms :: "env \<Rightarrow> string \<Rightarrow> variant_ir list \<Rightarrow> mode \<Rightarrow> input \<Rightarrow> lval \<Rightarrow> (schema_error, unit) res" where
  "preflight_arms E nm vs m payload v = (case v of
     VariantValue k x \<Rightarrow> if k < length vs then
       (case (va_shape (vs ! k), x) of
          (None, None) \<Rightarrow> Ok ()
        | (Some S, Some y) \<Rightarrow> and_then (map_err (mutation_layout nm) (subrange E (ss_wire S) 0 payload))
            (\<lambda>i. map_err (\<lambda>_. mutation_layout nm OffsetOverflow) (ss_preflight S m i y))
        | _ \<Rightarrow> Panic) else Panic
   | _ \<Rightarrow> Panic)"

definition payload_preflight :: "env \<Rightarrow> string \<Rightarrow> variant_ir list \<Rightarrow> mode \<Rightarrow> nat \<Rightarrow> input \<Rightarrow> lval \<Rightarrow> (schema_error, unit) res" where
  "payload_preflight E nm vs m current_tag payload v =
     (case m of
        Replace \<Rightarrow> and_then (payload_logical_tag vs v) (\<lambda>tag.
          if current_tag = tag then preflight_arms E nm vs Replace payload v
          else preflight_arms E nm vs Init payload v)
      | Init \<Rightarrow> preflight_arms E nm vs Init payload v)"

definition payload_commit :: "env \<Rightarrow> variant_ir list \<Rightarrow> mode \<Rightarrow> input \<Rightarrow> lval \<Rightarrow> (schema_error, input) res" where
  "payload_commit E vs m payload v = (case v of
     VariantValue k x \<Rightarrow> if k < length vs then
       (case (va_shape (vs ! k), x) of
          (None, None) \<Rightarrow> Ok payload
        | (Some S, Some y) \<Rightarrow> and_then (or_unreachable (subrange_mut E (ss_wire S) 0 payload))
            (\<lambda>i. and_then (ss_commit S m i y) (\<lambda>c. Ok (write_back 0 c payload)))
        | _ \<Rightarrow> Panic) else Panic
   | _ \<Rightarrow> Panic)"

definition tagged_payload_zero_state :: "variant_ir list \<Rightarrow> zero_state" where
  "tagged_payload_zero_state vs = foldl (\<lambda>state va.
     zs_and (case va_shape va of None \<Rightarrow> ZeroValid | Some S \<Rightarrow> ss_zero_state S) state) ZeroInvalid vs"

definition tagged_payload_clear_state :: "variant_ir list \<Rightarrow> zero_state" where
  "tagged_payload_clear_state vs = foldl (\<lambda>state va.
     zs_or (case va_shape va of None \<Rightarrow> ZeroValid | Some S \<Rightarrow> ss_clear_state S) state)
     (zero_flag (list_ex (\<lambda>va. va_tag va = 0) vs)) vs"

definition tagged_payload_zero_is_valid :: "variant_ir list \<Rightarrow> bool" where
  "tagged_payload_zero_is_valid vs = list_ex (\<lambda>va. va_tag va = 0 \<and>
     (case va_shape va of None \<Rightarrow> True | Some S \<Rightarrow> ss_zero_is_valid S)) vs"

text \<open>
  The generated payload patch: an enum with the variants of the payload, a newtype variant holding its
  type's patch. It never touches the tag. A child's failure is reported as a layout error of the payload.
\<close>

definition payload_patch_tag :: "variant_ir list \<Rightarrow> pval \<Rightarrow> (schema_error, nat) res" where
  "payload_patch_tag vs p = (case p of
     VariantPatch k x \<Rightarrow> if k < length vs then Ok (va_tag (vs ! k)) else Panic | _ \<Rightarrow> Panic)"

definition payload_patch_ok :: "variant_ir list \<Rightarrow> pval \<Rightarrow> bool" where
  "payload_patch_ok vs p = (case p of
     VariantPatch k x \<Rightarrow> k < length vs \<and>
       (case (va_shape (vs ! k), x) of (None, None) \<Rightarrow> True | (Some S, Some y) \<Rightarrow> pa_ok (ss_patch S) y | _ \<Rightarrow> False)
   | _ \<Rightarrow> False)"

definition payload_patch_complete :: "variant_ir list \<Rightarrow> pval \<Rightarrow> bool" where
  "payload_patch_complete vs p = (case p of
     VariantPatch k x \<Rightarrow> (case (va_shape (vs ! k), x) of
         (None, None) \<Rightarrow> True | (Some S, Some y) \<Rightarrow> pa_is_complete (ss_patch S) y | _ \<Rightarrow> False)
   | _ \<Rightarrow> False)"

definition payload_patch_preflight :: "env \<Rightarrow> string \<Rightarrow> variant_ir list \<Rightarrow> mode \<Rightarrow> input \<Rightarrow> pval \<Rightarrow> (schema_error, unit) res" where
  "payload_patch_preflight E nm vs m payload p = (case p of
     VariantPatch k x \<Rightarrow> if k < length vs then
       (case (va_shape (vs ! k), x) of
          (None, None) \<Rightarrow> Ok ()
        | (Some S, Some y) \<Rightarrow> and_then (map_err (mutation_layout nm) (subrange E (ss_wire S) 0 payload))
            (\<lambda>child. map_err (\<lambda>_. mutation_layout nm OffsetOverflow) (pa_preflight (ss_patch S) m child y))
        | _ \<Rightarrow> Panic) else Panic
   | _ \<Rightarrow> Panic)"

definition payload_patch_commit :: "env \<Rightarrow> variant_ir list \<Rightarrow> mode \<Rightarrow> input \<Rightarrow> pval \<Rightarrow> (schema_error, input) res" where
  "payload_patch_commit E vs m payload p = (case p of
     VariantPatch k x \<Rightarrow> if k < length vs then
       (case (va_shape (vs ! k), x) of
          (None, None) \<Rightarrow> Ok payload
        | (Some S, Some y) \<Rightarrow> and_then (or_unreachable (subrange_mut E (ss_wire S) 0 payload))
            (\<lambda>child. and_then (pa_commit (ss_patch S) m child y) (\<lambda>c. Ok (write_back 0 c payload)))
        | _ \<Rightarrow> Panic) else Panic
   | _ \<Rightarrow> Panic)"

definition payload_patch_from :: "variant_ir list \<Rightarrow> lval \<Rightarrow> pval" where
  "payload_patch_from vs v = (case v of
     VariantValue k x \<Rightarrow> VariantPatch k (case (va_shape (vs ! k), x) of (Some S, Some y) \<Rightarrow> Some (pa_from (ss_patch S) y) | _ \<Rightarrow> None)
   | _ \<Rightarrow> ValuePatch v)"

text \<open>Intended result: a patch of the destination's own variant edits its payload, any other replaces it.\<close>

definition payload_patched :: "variant_ir list \<Rightarrow> pval \<Rightarrow> lval option \<Rightarrow> lval option" where
  "payload_patched vs p b = (case p of
     VariantPatch k x \<Rightarrow> (case (va_shape (vs ! k), x) of
         (Some S, Some y) \<Rightarrow> map_option (\<lambda>v. VariantValue k (Some v)) (pa_patched (ss_patch S) y
             (case b of Some (VariantValue k' z) \<Rightarrow> (if k' = k then z else None) | _ \<Rightarrow> None))
       | _ \<Rightarrow> Some (VariantValue k None))
   | _ \<Rightarrow> None)"

definition payload_patch_ops :: "env \<Rightarrow> string \<Rightarrow> variant_ir list \<Rightarrow> patch_ops" where
  "payload_patch_ops E nm vs = \<lparr>pa_ok = payload_patch_ok vs, pa_is_complete = payload_patch_complete vs,
     pa_preflight = payload_patch_preflight E nm vs, pa_commit = payload_patch_commit E vs,
     pa_from = payload_patch_from vs, pa_patched = payload_patched vs\<rparr>"

text \<open>The support's own patch methods; \<open>preflight_patch_init\<close> alone asks for completeness.\<close>

definition ps_preflight_patch :: "payload_support \<Rightarrow> nat \<Rightarrow> input \<Rightarrow> pval \<Rightarrow> (schema_error, unit) res" where
  "ps_preflight_patch P current_tag payload p = pa_preflight (ps_patch P) Replace payload p"

definition ps_preflight_patch_init :: "payload_support \<Rightarrow> input \<Rightarrow> pval \<Rightarrow> (schema_error, unit) res" where
  "ps_preflight_patch_init P payload p =
     (if \<not> pa_is_complete (ps_patch P) p then Err (mutation_layout (ps_name P) OffsetOverflow)
      else pa_preflight (ps_patch P) Init payload p)"

text \<open>\<open>copy_from\<close> of a payload capability, which cannot change its tag.\<close>

definition tagged_copy_from :: "env \<Rightarrow> payload_support \<Rightarrow> selection \<Rightarrow> pval \<Rightarrow> (schema_error, unit) res \<times> input" where
  "tagged_copy_from E P s p =
     preflighted (sel_payload s)
       (and_then (ps_patch_tag P p) (\<lambda>tag.
        if tag \<noteq> sel_tag s then Err (mutation_tag_mismatch (ps_name P))
        else and_then (shared E (sel_payload s)) (\<lambda>payload. ps_preflight_patch P (sel_tag s) payload p)))
       (and_then (reborrow E (sel_payload s)) (\<lambda>payload. pa_commit (ps_patch P) Replace payload p))"

definition tagged_support :: "env \<Rightarrow> string \<Rightarrow> variant_ir list \<Rightarrow> payload_support" where
  "tagged_support E nm vs = \<lparr>ps_name = nm, ps_wire = payload_wire E vs, ps_tags = map va_tag vs, ps_val_ok = payload_val_ok vs,
     ps_validate_selected = payload_validate E nm vs, ps_materialize_selected = payload_materialize E vs,
     ps_logical_tag = payload_logical_tag vs, ps_preflight = payload_preflight E nm vs,
     ps_commit = payload_commit E vs, ps_zero_state = tagged_payload_zero_state vs,
     ps_clear_state = tagged_payload_clear_state vs, ps_zero_is_valid = tagged_payload_zero_is_valid vs,
     ps_patch_tag = payload_patch_tag vs, ps_patch = payload_patch_ops E nm vs\<rparr>"

text \<open>The accessors of a payload capability: \<open>Some\<close> exactly for the variant the proved tag selects.\<close>

definition variant_get :: "env \<Rightarrow> variant_ir \<Rightarrow> selection \<Rightarrow> (schema_error, view option option) res" where
  "variant_get E va s =
     (if sel_tag s \<noteq> va_tag va then Ok None
      else case va_shape va of
        None \<Rightarrow> Ok (Some None)
      | Some S \<Rightarrow> and_then (or_unreachable (subrange E (ss_wire S) 0 (sel_payload s))) (\<lambda>i.
          and_then (or_unreachable (ss_prove S i)) (\<lambda>proof.
          and_then (ss_make_ref S proof) (\<lambda>r. Ok (Some (Some r))))))"

definition variant_get_mut :: "env \<Rightarrow> variant_ir \<Rightarrow> selection \<Rightarrow> (schema_error, input option option) res" where
  "variant_get_mut E va s =
     (if sel_tag s \<noteq> va_tag va then Ok None
      else case va_shape va of
        None \<Rightarrow> Ok (Some None)
      | Some S \<Rightarrow> and_then (or_unreachable (subrange_mut E (ss_wire S) 0 (sel_payload s))) (\<lambda>i.
          and_then (or_unreachable (ss_prove_mut E S i)) (\<lambda>proof. Ok (Some (Some proof)))))"

definition tagged_copy_into :: "payload_support \<Rightarrow> selection \<Rightarrow> (schema_error, lval) res" where
  "tagged_copy_into P s =
     and_then (or_unreachable (ref_prove_selected P (sel_tag s) (sel_payload s))) (\<lambda>sel. ref_materialize P sel)"

text \<open>
  C9. The external tag is stored last. Let the closures be any two computations that stay on their spans,
  change state they share, and return or unwind. Where a range does not fit, the helper reports it and
  runs neither. Otherwise the payload closure runs first, on the root's payload bytes and the caller's
  state. If it unwinds, the tag closure never runs and the tag keeps its old bytes; if it returns, the tag
  closure runs on the old tag bytes in the state the payload closure left. Both spans hold what the
  closures wrote, every other byte is unchanged, and the helper itself adds no panic.
\<close>

theorem tag_stored_last:
  fixes commit_payload store_tag :: "'s closure"
  assumes "env_ok E" "input_ok E root" "wf_layout tag_wire" "wf_layout (ps_wire P)"
    and "wl_align tag_wire dvd tag_offset" "wl_align tag_wire dvd wl_align (i_wire root)"
    and "wl_align (ps_wire P) dvd payload_offset" "wl_align (ps_wire P) dvd wl_align (i_wire root)"
    and "disjoint_spans tag_offset (wl_size tag_wire) payload_offset (wl_size (ps_wire P))"
    and "\<And>i s b p s'. i_wire i = ps_wire P \<Longrightarrow> commit_payload i s = (b, p, s') \<Longrightarrow> same_span i p"
    and "\<And>i s b t s'. i_wire i = tag_wire \<Longrightarrow> store_tag i s = (b, t, s') \<Longrightarrow> same_span i t"
    and "commit_payload_before_tag_with E P tag_wire root tag_offset payload_offset commit_payload store_tag s = (r, j, s')"
  shows "case checked_tagged_ranges E (wl_size (i_wire root)) tag_offset (wl_size tag_wire) payload_offset (wl_size (ps_wire P)) of
      Err l \<Rightarrow> r = Err (mutation_layout (ps_name P) l) \<and> j = root \<and> s' = s
    | Panic \<Rightarrow> False
    | Ok _ \<Rightarrow>
        (case commit_payload (sub_input (ps_wire P) payload_offset root) s of
           (False, p, s1) \<Rightarrow> r = Panic \<and> s' = s1 \<and> sub_input (ps_wire P) payload_offset j = p \<and>
             sub_input tag_wire tag_offset j = sub_input tag_wire tag_offset root
         | (True, p, s1) \<Rightarrow> (case store_tag (sub_input tag_wire tag_offset root) s1 of (returned, t, s2) \<Rightarrow>
             r = (if returned then Ok () else Panic) \<and> s' = s2 \<and> sub_input (ps_wire P) payload_offset j = p \<and>
             sub_input tag_wire tag_offset j = t)) \<and>
        same_span root j \<and>
        (\<forall>n < length (i_bytes root). (n < tag_offset \<or> tag_offset + wl_size tag_wire \<le> n) \<and>
           (n < payload_offset \<or> payload_offset + wl_size (ps_wire P) \<le> n) \<longrightarrow> i_bytes j ! n = i_bytes root ! n)"
proof (cases "checked_tagged_ranges E (wl_size (i_wire root)) tag_offset (wl_size tag_wire) payload_offset (wl_size (ps_wire P))")
  case (Ok ranges)
  then have fits: "field_fits tag_wire tag_offset (i_wire root)" "field_fits (ps_wire P) payload_offset (i_wire root)"
    using assms(2-8)
    by (auto simp: checked_tagged_ranges_def checked_payload_range_def checked_range_Ok field_fits_def input_ok_def)
  obtain b p s1 where p: "commit_payload (sub_input (ps_wire P) payload_offset root) s = (b, p, s1)" by (metis prod_cases3)
  then have pspan: "same_span (sub_input (ps_wire P) payload_offset root) p" using assms(10) by simp
  note runs = commit_payload_before_tag_runs [where commit_payload = commit_payload,
      OF assms(1,2) fits assms(9) p pspan]
  let ?r = "write_back payload_offset p root"
  have plen: "length (i_bytes p) = wl_size (ps_wire P)" "payload_offset + wl_size (ps_wire P) \<le> length (i_bytes root)"
    using same_span_length [OF pspan] fits assms(2) by (simp_all add: field_fits_def input_ok_length)
  have frame: "i_bytes ?r ! n = i_bytes root ! n"
    if "n < length (i_bytes root)" "n < payload_offset \<or> payload_offset + wl_size (ps_wire P) \<le> n" for n
    using that plen by (auto simp: write_back_def overwrite_nth)
  show ?thesis
  proof (cases b)
    case False
    then show ?thesis using Ok p runs(1,3-5) assms(12) frame by auto
  next
    case True
    obtain c t s2 where t: "store_tag (sub_input tag_wire tag_offset root) s1 = (c, t, s2)" by (metis prod_cases3)
    then have "same_span (sub_input tag_wire tag_offset root) t" using assms(11) by simp
    then have tspan: "same_span (sub_input tag_wire tag_offset ?r) t" using runs(5) by simp
    have len: "length (i_bytes ?r) = length (i_bytes root)" using same_span_length [OF runs(3)] by simp
    have bounds: "tag_offset + wl_size tag_wire \<le> length (i_bytes ?r)" "payload_offset + wl_size (ps_wire P) \<le> length (i_bytes ?r)"
      using fits assms(2) len by (simp_all add: field_fits_def input_ok_length)
    have j: "r = (if c then Ok () else Panic)" "j = write_back tag_offset t ?r" "s' = s2"
      using runs(2) [OF True, of store_tag c t s2] t assms(12) by simp_all
    have "sub_input (ps_wire P) payload_offset j = p"
      unfolding j(2) using runs(4) tspan assms(9) bounds by (subst sub_input_write_back_other) (auto simp: disjoint_spans_def)
    moreover have "sub_input tag_wire tag_offset j = t" unfolding j(2) by (rule sub_input_write_back [OF tspan bounds(1)])
    moreover have "same_span root j"
      unfolding j(2) using same_span_trans [OF runs(3) write_back_same_span [OF tspan bounds(1)]] .
    moreover have "i_bytes j ! n = i_bytes ?r ! n"
      if "n < length (i_bytes root)" "n < tag_offset \<or> tag_offset + wl_size tag_wire \<le> n" for n
      using that same_span_length [OF tspan] bounds len unfolding j(2) by (auto simp: write_back_def [of _ t] overwrite_nth)
    ultimately show ?thesis using Ok p t True j(1,3) frame by auto
  qed
next
  case (Err l)
  then show ?thesis using assms(12) by (auto simp: commit_payload_before_tag_with_def)
qed (simp add: checked_tagged_ranges_total)

text \<open>The closures log their runs; the payload's entry precedes the tag's.\<close>

theorem tag_stored_last_witness:
  "case commit_payload_before_tag_with linux_x86_64
     (tagged_support linux_x86_64 ''Body'' [\<lparr>va_name = ''Empty'', va_tag = 1, va_shape = None\<rparr>])
     (bytes_layout 1) \<lparr>i_addr = 4, i_bytes = [7, 9, 8], i_wire = bytes_layout 3\<rparr> 0 1
     (\<lambda>i log. (True, i, log @ [''payload''])) (\<lambda>i log. (True, i\<lparr>i_bytes := map (\<lambda>_. 1) (i_bytes i)\<rparr>, log @ [''tag''])) [] of
   (r, j, log) \<Rightarrow> r = Ok () \<and> i_bytes (sub_input (bytes_layout 1) 0 j) = [1] \<and> i_bytes j ! 2 = 8 \<and> log = [''payload'', ''tag'']"
proof -
  let ?P = "tagged_support linux_x86_64 ''Body'' [\<lparr>va_name = ''Empty'', va_tag = 1, va_shape = None\<rparr>]"
  let ?root = "\<lparr>i_addr = 4, i_bytes = [7, 9, 8], i_wire = bytes_layout 3\<rparr>"
  let ?cp = "\<lambda>i log. (True, i, log @ [''payload''])"
  let ?st = "\<lambda>i log. (True, i\<lparr>i_bytes := map (\<lambda>_. 1) (i_bytes i)\<rparr>, log @ [''tag''])"
  have w: "wl_size (bytes_layout n) = n" "wl_align (bytes_layout n) = 1" for n by (simp_all add: bytes_layout_def)
  have P: "ps_wire ?P = bytes_layout 1"
    by (simp add: tagged_support_def payload_wire_def variant_wire_def repr_c_union_def repr_c_def prim_layout_def bytes_layout_def)
  have root: "input_ok linux_x86_64 ?root" using w by (simp add: input_ok_def)
  obtain r j log where run: "commit_payload_before_tag_with linux_x86_64 ?P (bytes_layout 1) ?root 0 1 ?cp ?st [] = (r, j, log)"
    by (rule prod_cases3)
  obtain q where ranges: "checked_tagged_ranges linux_x86_64 3 0 1 1 1 = Ok q"
    by (simp add: checked_tagged_ranges_def checked_payload_range_def checked_range_def checked_add_def)
  have wf: "wf_layout (bytes_layout 1)" "wf_layout (ps_wire ?P)" and
    disj: "disjoint_spans 0 (wl_size (bytes_layout 1)) 1 (wl_size (ps_wire ?P))"
    using w P by (simp_all add: disjoint_spans_def)
  have al: "wl_align (bytes_layout 1) dvd 0" "wl_align (bytes_layout 1) dvd wl_align (i_wire ?root)"
    "wl_align (ps_wire ?P) dvd 1" "wl_align (ps_wire ?P) dvd wl_align (i_wire ?root)"
    using w P by simp_all
  have spans: "sub_input (bytes_layout 1) 0 ?root = \<lparr>i_addr = 4, i_bytes = [7], i_wire = bytes_layout 1\<rparr>"
    by (simp add: sub_input_def slice_def bytes_layout_def)
  have "r = Ok () \<and> log = [''payload'', ''tag''] \<and> i_bytes (sub_input (bytes_layout 1) 0 j) = [1] \<and> i_bytes j ! 2 = 8"
    using tag_stored_last [OF env_ok_linux_x86_64 root wf al disj _ _ run]
    by (simp add: w P ranges spans same_span_def del: One_nat_def)
  then show ?thesis using run by simp
qed

section \<open>The payload contract\<close>

locale payload_contract =
  fixes E :: env and ok :: bool and P :: payload_support
  assumes env: "ok \<Longrightarrow> env_ok E"
    and wf_wire: "ok \<Longrightarrow> wf_layout (ps_wire P)"
    and validate_total: "ok \<Longrightarrow> input_ok E i \<Longrightarrow> i_wire i = ps_wire P \<Longrightarrow> ps_validate_selected P t i \<noteq> Panic"
    and validated_materializes: "ok \<Longrightarrow> input_ok E i \<Longrightarrow> i_wire i = ps_wire P \<Longrightarrow>
      ps_validate_selected P t i = Ok () \<Longrightarrow> \<exists>v. ps_materialize_selected P t i = Ok v"
    and logical_tag_total: "ok \<Longrightarrow> ps_val_ok P v \<Longrightarrow> \<exists>t. ps_logical_tag P v = Ok t"
    and preflight_total: "ok \<Longrightarrow> input_ok E i \<Longrightarrow> i_wire i = ps_wire P \<Longrightarrow> ps_val_ok P v \<Longrightarrow>
      ready m (ps_validate_selected P current i) \<Longrightarrow> ps_preflight P m current i v \<noteq> Panic"
    and commit_law: "ok \<Longrightarrow> input_ok E i \<Longrightarrow> i_wire i = ps_wire P \<Longrightarrow> ps_val_ok P v \<Longrightarrow> ps_logical_tag P v = Ok t \<Longrightarrow>
      ready m (ps_validate_selected P current i) \<Longrightarrow> ps_preflight P m current i v = Ok () \<Longrightarrow>
      \<exists>c. ps_commit P (if m = Replace \<and> current = t then Replace else Init) i v = Ok c \<and> same_span i c \<and>
        ps_validate_selected P t c = Ok () \<and> ps_materialize_selected P t c = Ok v"
    and zero_exact: "ok \<Longrightarrow> input_ok E i \<Longrightarrow> i_wire i = ps_wire P \<Longrightarrow> is_all_zero i \<Longrightarrow>
      ps_validate_selected P 0 i = Ok () \<longleftrightarrow> ps_zero_is_valid P"
    and clear_state_sound: "ok \<Longrightarrow> ps_clear_state P = ZeroValid \<Longrightarrow> ps_zero_is_valid P"
    and zero_state_sound: "ok \<Longrightarrow> ps_zero_is_valid P \<Longrightarrow> ps_zero_state P = ZeroValid"

definition payload_ok :: "env \<Rightarrow> variant_ir list \<Rightarrow> bool" where
  "payload_ok E vs \<longleftrightarrow> env_ok E \<and> vs \<noteq> [] \<and> distinct (map va_tag vs) \<and>
     (\<forall>va \<in> set vs. \<forall>S. va_shape va = Some S \<longrightarrow> schema_contract E True S)"

lemma find_tag:
  assumes "k < length vs" "va_tag (vs ! k) = t" "distinct (map va_tag vs)"
  shows "find (\<lambda>va. va_tag va = t) vs = Some (vs ! k)"
    "find (\<lambda>(k, va). va_tag va = t) (enumerate 0 vs) = Some (k, vs ! k)"
proof -
  have first: "va_tag (vs ! j) \<noteq> t" if "j < k" for j
    using assms that nth_eq_iff_index_eq [of "map va_tag vs" j k] by auto
  show "find (\<lambda>va. va_tag va = t) vs = Some (vs ! k)"
    unfolding find_Some_iff using assms(1,2) first by blast
  show "find (\<lambda>(k, va). va_tag va = t) (enumerate 0 vs) = Some (k, vs ! k)"
    unfolding find_Some_iff using assms(1,2) first
    by (intro exI [of _ k]) (auto simp: nth_enumerate_eq)
qed

lemma find_tag_none:
  assumes "\<forall>k < length vs. va_tag (vs ! k) \<noteq> t"
  shows "find (\<lambda>va. va_tag va = t) vs = None"
  using assms by (auto simp: find_None_iff in_set_conv_nth)

lemma zero_states_fold:
  "foldl (\<lambda>state va. zs_and (f va) state) s vs = ZeroValid \<longleftrightarrow> s = ZeroValid \<or> (\<exists>va \<in> set vs. f va = ZeroValid)"
  "foldl (\<lambda>state va. zs_or (f va) state) s vs = ZeroValid \<longleftrightarrow> s = ZeroValid \<and> (\<forall>va \<in> set vs. f va = ZeroValid)"
  by (induction vs arbitrary: s) auto

lemma payload_okD:
  assumes "payload_ok E vs"
  shows "env_ok E" "distinct (map va_tag vs)"
    "\<And>va S. va \<in> set vs \<Longrightarrow> va_shape va = Some S \<Longrightarrow> schema_contract E True S"
  using assms by (auto simp: payload_ok_def)

lemma wf_variant_wires: "payload_ok E vs \<Longrightarrow> \<forall>l \<in> set (map (variant_wire E) vs). wf_layout l"
  using schema_contract.wf_wire [OF payload_okD(3)] payload_okD(1)
  by (fastforce simp: variant_wire_def split: option.splits)

lemma variant_fits:
  assumes "payload_ok E vs" "va \<in> set vs" "va_shape va = Some S"
  shows "field_fits (ss_wire S) 0 (payload_wire E vs)"
proof -
  have "ss_wire S = variant_wire E va" using assms(3) by (simp add: variant_wire_def)
  then show ?thesis
    using union_member_fits [OF wf_variant_wires [OF assms(1)], of "variant_wire E va"] assms(2)
    by (simp add: payload_wire_def)
qed

text \<open>The active child of a newtype variant: the leading bytes of the payload span.\<close>

abbreviation "child_span S i \<equiv> sub_input (ss_wire S) 0 i"

lemma child_span_ok:
  assumes "payload_ok E vs" "input_ok E i" "i_wire i = payload_wire E vs" "va \<in> set vs" "va_shape va = Some S"
  shows "subrange E (ss_wire S) 0 i = Ok (child_span S i)" "input_ok E (child_span S i)"
    "wl_size (ss_wire S) \<le> length (i_bytes i)" "schema_contract E True S"
proof -
  have fits: "field_fits (ss_wire S) 0 (i_wire i)" using variant_fits [OF assms(1,4,5)] assms(3) by simp
  then show "subrange E (ss_wire S) 0 i = Ok (child_span S i)" "input_ok E (child_span S i)"
    using payload_okD(1) [OF assms(1)] assms(2) by (simp_all add: subrange_Ok sub_input_ok)
  show "wl_size (ss_wire S) \<le> length (i_bytes i)"
    using fits assms(2) by (simp add: field_fits_def input_ok_length)
  show "schema_contract E True S" using payload_okD(3) assms(1,4,5) by blast
qed

lemma payload_validate_iff:
  assumes "payload_ok E vs" "input_ok E i" "i_wire i = payload_wire E vs" "k < length vs"
  shows "payload_validate E nm vs (va_tag (vs ! k)) i = Ok () \<longleftrightarrow>
      (case va_shape (vs ! k) of None \<Rightarrow> True | Some S \<Rightarrow> ss_validate S (child_span S i) = Ok ())"
    "payload_validate E nm vs (va_tag (vs ! k)) i \<noteq> Panic"
proof -
  note find = find_tag [OF assms(4) refl payload_okD(2) [OF assms(1)]]
  have child: "subrange E (ss_wire S) 0 i = Ok (child_span S i)" "ss_validate S (child_span S i) \<noteq> Panic"
    if "va_shape (vs ! k) = Some S" for S
    using child_span_ok [OF assms(1-3) _ that] schema_contract.validate_total assms(4) by simp_all
  show "payload_validate E nm vs (va_tag (vs ! k)) i = Ok () \<longleftrightarrow>
      (case va_shape (vs ! k) of None \<Rightarrow> True | Some S \<Rightarrow> ss_validate S (child_span S i) = Ok ())"
    "payload_validate E nm vs (va_tag (vs ! k)) i \<noteq> Panic"
    using find child by (auto simp: payload_validate_def ss_prove_def split: option.splits)
qed

lemma payload_materialize_eq:
  assumes "payload_ok E vs" "input_ok E i" "i_wire i = payload_wire E vs" "k < length vs"
    "payload_validate E nm vs (va_tag (vs ! k)) i = Ok ()"
  shows "payload_materialize E vs (va_tag (vs ! k)) i =
      (case va_shape (vs ! k) of None \<Rightarrow> Ok (VariantValue k None)
       | Some S \<Rightarrow> and_then (ss_logical S (child_span S i)) (\<lambda>v. Ok (VariantValue k (Some v))))"
  using find_tag [OF assms(4) refl payload_okD(2) [OF assms(1)]] payload_validate_iff(1) [OF assms(1-4), of nm]
    child_span_ok(1) [OF assms(1-3) nth_mem [OF assms(4)]] assms(5)
  by (auto simp: payload_materialize_def ss_prove_def split: option.splits)

lemma payload_unknown_tag:
  "\<forall>k < length vs. va_tag (vs ! k) \<noteq> t \<Longrightarrow> payload_validate E nm vs t i = Err (unknown_union_tag nm)"
  by (simp add: payload_validate_def find_tag_none)

lemma payload_validated_tag:
  assumes "payload_validate E nm vs t i = Ok ()"
  obtains k where "k < length vs" "va_tag (vs ! k) = t"
  using payload_unknown_tag [of vs t E nm i] assms by force

lemma payload_valueE:
  assumes "payload_val_ok vs v"
  obtains (unit) k where "v = VariantValue k None" "k < length vs" "va_shape (vs ! k) = None"
  | (newtype) k S y where "v = VariantValue k (Some y)" "k < length vs" "va_shape (vs ! k) = Some S" "ss_val_ok S y"
  using assms by (auto simp: payload_val_ok_def split: lval.splits option.splits prod.splits)

lemma payload_arms_law:
  assumes "payload_ok E vs" "input_ok E i" "i_wire i = payload_wire E vs" "payload_val_ok vs v"
    "payload_logical_tag vs v = Ok t" "ready m (payload_validate E nm vs t i)"
  shows "preflight_arms E nm vs m i v \<noteq> Panic"
    and "preflight_arms E nm vs m i v = Ok () \<Longrightarrow> \<exists>c. payload_commit E vs m i v = Ok c \<and> same_span i c \<and>
      payload_validate E nm vs t c = Ok () \<and> payload_materialize E vs t c = Ok v"
proof -
  from assms(4) have "preflight_arms E nm vs m i v \<noteq> Panic \<and> (preflight_arms E nm vs m i v = Ok () \<longrightarrow>
    (\<exists>c. payload_commit E vs m i v = Ok c \<and> same_span i c \<and>
      payload_validate E nm vs t c = Ok () \<and> payload_materialize E vs t c = Ok v))"
  proof (cases rule: payload_valueE)
    case (unit k)
    then have t: "t = va_tag (vs ! k)" using assms(5) by (simp add: payload_logical_tag_def)
    show ?thesis
      using unit t payload_validate_iff(1) [OF assms(1-3) unit(2), of nm] payload_materialize_eq [OF assms(1-3) unit(2), of nm]
      by (simp add: preflight_arms_def payload_commit_def)
  next
    case (newtype k S y)
    then have t: "t = va_tag (vs ! k)" using assms(5) by (simp add: payload_logical_tag_def)
    note ch = child_span_ok [OF assms(1-3) nth_mem [OF newtype(2)] newtype(3)]
    have w: "i_wire (child_span S i) = ss_wire S" by simp
    have rdy: "ready m (ss_validate S (child_span S i))"
      using assms(6) payload_validate_iff(1) [OF assms(1-3) newtype(2), of nm] t newtype(3) by (cases m) auto
    have pre: "preflight_arms E nm vs m i v = map_err (\<lambda>_. mutation_layout nm OffsetOverflow) (ss_preflight S m (child_span S i) y)"
      using newtype ch(1) by (simp add: preflight_arms_def)
    have "\<exists>c. payload_commit E vs m i v = Ok c \<and> same_span i c \<and>
        payload_validate E nm vs t c = Ok () \<and> payload_materialize E vs t c = Ok v"
      if accepted: "ss_preflight S m (child_span S i) y = Ok ()"
    proof -
      obtain c where c: "ss_commit S m (child_span S i) y = Ok c" "same_span (child_span S i) c"
        "ss_validate S c = Ok ()" "ss_logical S c = Ok y"
        using schema_contract.commit_law [OF ch(4) TrueI ch(2) w newtype(4) rdy accepted] by blast
      let ?j = "write_back 0 c i"
      have "0 + wl_size (ss_wire S) \<le> length (i_bytes i)" using ch(3) by simp
      note wb = write_back_same_span [OF c(2) this] sub_input_write_back [OF c(2) this]
      have j: "input_ok E ?j" "i_wire ?j = payload_wire E vs"
        using wb(1) assms(2,3) by (auto intro: same_span_input_ok dest: same_span_wire)
      have "payload_validate E nm vs t ?j = Ok ()"
        using payload_validate_iff(1) [OF assms(1) j newtype(2), of nm] t newtype(3) wb(2) c(3) by simp
      moreover from this have "payload_materialize E vs t ?j = Ok v"
        using payload_materialize_eq [OF assms(1) j newtype(2), of nm] t newtype(1,3) wb(2) c(4) by simp
      moreover have "payload_commit E vs m i v = Ok ?j"
        using newtype ch(1) c(1) by (simp add: payload_commit_def subrange_mut_eq)
      ultimately show ?thesis using wb(1) by blast
    qed
    then show ?thesis
      using pre schema_contract.preflight_total [OF ch(4) TrueI ch(2) w newtype(4) rdy] by auto
  qed
  then show "preflight_arms E nm vs m i v \<noteq> Panic"
    "preflight_arms E nm vs m i v = Ok () \<Longrightarrow> \<exists>c. payload_commit E vs m i v = Ok c \<and> same_span i c \<and>
      payload_validate E nm vs t c = Ok () \<and> payload_materialize E vs t c = Ok v"
    by blast+
qed

lemma payload_zero_iff:
  assumes "payload_ok E vs" "input_ok E i" "i_wire i = payload_wire E vs" "is_all_zero i"
  shows "payload_validate E nm vs 0 i = Ok () \<longleftrightarrow> tagged_payload_zero_is_valid vs"
proof -
  have zero: "is_all_zero (child_span S i)" for S
    using assms(4) by (simp add: is_all_zero_def all_zero_slice)
  have child: "ss_validate S (child_span S i) = Ok () \<longleftrightarrow> ss_zero_is_valid S"
    if "k < length vs" "va_shape (vs ! k) = Some S" for k S
    using child_span_ok [OF assms(1-3) nth_mem [OF that(1)] that(2)]
    by (intro schema_contract.zero_exact [OF _ TrueI _ _ zero]) simp_all
  have "tagged_payload_zero_is_valid vs \<longleftrightarrow>
      (\<exists>k < length vs. va_tag (vs ! k) = 0 \<and> (case va_shape (vs ! k) of None \<Rightarrow> True | Some S \<Rightarrow> ss_zero_is_valid S))"
    unfolding tagged_payload_zero_is_valid_def list_ex_iff by (metis (no_types, lifting) in_set_conv_nth)
  moreover have "payload_validate E nm vs 0 i = Ok () \<longleftrightarrow> (case va_shape (vs ! k) of None \<Rightarrow> True | Some S \<Rightarrow> ss_zero_is_valid S)"
    if "k < length vs" "va_tag (vs ! k) = 0" for k
    using payload_validate_iff(1) [OF assms(1-3) that(1), of nm] child [OF that(1)] that(2) by (auto split: option.splits)
  ultimately show ?thesis using payload_validated_tag [of E nm vs 0 i] by metis
qed

interpretation tagged: payload_contract E "payload_ok E vs" "tagged_support E nm vs" for E nm vs
proof unfold_locales
  let ?P = "tagged_support E nm vs"
  assume ok: "payload_ok E vs"
  note child = schema_contract.clear_state_sound [OF payload_okD(3) [OF ok] TrueI]
    schema_contract.zero_state_sound [OF payload_okD(3) [OF ok] TrueI]
  show "env_ok E" "wf_layout (ps_wire ?P)"
    using payload_okD(1) [OF ok] wf_repr_c_union [OF wf_variant_wires [OF ok]] by (simp_all add: tagged_support_def payload_wire_def)
  show "ps_zero_state ?P = ZeroValid" if "ps_zero_is_valid ?P"
    using that child(2)
    by (fastforce simp: tagged_support_def tagged_payload_zero_is_valid_def tagged_payload_zero_state_def
        zero_states_fold list_ex_iff split: option.splits)
  show "ps_zero_is_valid ?P" if "ps_clear_state ?P = ZeroValid"
    using that child(1)
    by (fastforce simp: tagged_support_def tagged_payload_zero_is_valid_def tagged_payload_clear_state_def
        zero_states_fold list_ex_iff split: option.splits)
  show tag: "\<exists>t. ps_logical_tag ?P v = Ok t" if "ps_val_ok ?P v" for v
    using that by (auto simp: tagged_support_def payload_logical_tag_def elim!: payload_valueE)
  fix i t v m current
  assume i: "input_ok E i" "i_wire i = ps_wire ?P"
  then have w: "i_wire i = payload_wire E vs" by (simp add: tagged_support_def)
  show "ps_validate_selected ?P t i \<noteq> Panic"
    using payload_validate_iff(2) [OF ok i(1) w] payload_unknown_tag [of vs t E nm i]
    by (simp add: tagged_support_def) (metis res.distinct(5))
  show "ps_validate_selected ?P t i = Ok () \<Longrightarrow> \<exists>v. ps_materialize_selected ?P t i = Ok v"
  proof -
    assume valid: "ps_validate_selected ?P t i = Ok ()"
    then obtain k where k: "k < length vs" "va_tag (vs ! k) = t"
      using payload_validated_tag [of E nm vs t i] by (auto simp: tagged_support_def)
    then show ?thesis
      using valid payload_validate_iff(1) [OF ok i(1) w k(1), of nm] payload_materialize_eq [OF ok i(1) w k(1), of nm]
        child_span_ok [OF ok i(1) w nth_mem [OF k(1)]] schema_contract.logical_of_proved [OF _ TrueI]
      by (fastforce simp: tagged_support_def split: option.splits)
  qed
  show "is_all_zero i \<Longrightarrow> (ps_validate_selected ?P 0 i = Ok ()) = ps_zero_is_valid ?P"
    using payload_zero_iff [OF ok i(1) w] by (simp add: tagged_support_def)
  assume v: "ps_val_ok ?P v" and rdy: "ready m (ps_validate_selected ?P current i)"
  then have v': "payload_val_ok vs v" by (simp add: tagged_support_def)
  obtain t' where t': "payload_logical_tag vs v = Ok t'" using tag [OF v] by (auto simp: tagged_support_def)
  let ?m = "if m = Replace \<and> current = t' then Replace else Init"
  have rdy': "ready ?m (payload_validate E nm vs t' i)" using rdy by (auto simp: tagged_support_def)
  note law = payload_arms_law [OF ok i(1) w v' t' rdy']
  have pre: "ps_preflight ?P m current i v = preflight_arms E nm vs ?m i v"
    using t' by (cases m) (auto simp: tagged_support_def payload_preflight_def)
  show "ps_preflight ?P m current i v \<noteq> Panic" using law(1) pre by simp
  show "\<exists>c. ps_commit ?P (if m = Replace \<and> current = t then Replace else Init) i v = Ok c \<and> same_span i c \<and>
      ps_validate_selected ?P t c = Ok () \<and> ps_materialize_selected ?P t c = Ok v"
    if "ps_logical_tag ?P v = Ok t" "ps_preflight ?P m current i v = Ok ()"
    using law(2) pre that t' by (simp add: tagged_support_def)
qed

end
