(* ===== verification/Zs_Element.thy ===== *)
theory Zs_Element
  imports Zs_Tagged
begin

text \<open>
  Elements of fixed arrays as the macro composes them (\<open>emit_array_adapter\<close> in \<open>emit_mutation.rs\<close>,
  \<open>materialize_array\<close> in \<open>emit_access.rs\<close>): leaves, nested schemas and rows. Every element gets an adapter
  over the common value and view types, each of them meets the element contract, a proved element
  materializes, and an all-zero element is proved exactly when its declaration says so.
\<close>

section \<open>Element adapters\<close>

text \<open>What \<open>classify_array_element\<close> accepts.\<close>

datatype element = LeafElem leaf | PathElem schema_support | RowElem nat element

primrec element_wire :: "env \<Rightarrow> element \<Rightarrow> wlayout" where
  "element_wire E (LeafElem l) = leaf_wire E l"
| "element_wire E (PathElem S) = ss_wire S"
| "element_wire E (RowElem n e) = array_layout n (element_wire E e)"

text \<open>\<open>array_dims\<close> of the element type: the lengths of the arrays nested inside it.\<close>

primrec element_dims :: "element \<Rightarrow> nat list" where
  "element_dims (LeafElem l) = []"
| "element_dims (PathElem S) = []"
| "element_dims (RowElem n e) = n # element_dims e"

text \<open>The adapter of schema elements of a field \<open>f\<close> of the schema \<open>nm\<close>.\<close>

definition elem_child_error :: "string \<Rightarrow> string \<Rightarrow> nat list \<Rightarrow> usize \<Rightarrow> schema_error \<Rightarrow> schema_error" where
  "elem_child_error nm f dims k source =
     access_child nm f (index_path_error dims k (\<lambda>i. array_child_error nm i source))"

definition elem_mutation_error :: "string \<Rightarrow> string \<Rightarrow> nat list \<Rightarrow> usize \<Rightarrow> error_kind \<Rightarrow> schema_error" where
  "elem_mutation_error nm f dims k kind =
     (if length dims = 1 then mutation_array nm f k kind else mutation_array_path nm f (index_path_array dims k) kind)"

definition path_elem_adapter :: "env \<Rightarrow> string \<Rightarrow> string \<Rightarrow> nat list \<Rightarrow> schema_support \<Rightarrow> (view, lval) elem_adapter" where
  "path_elem_adapter E nm f dims S = \<lparr>el_owner = nm, el_wire = ss_wire S, el_stride = wl_size (ss_wire S),
     el_prove = (\<lambda>k i. map_err (elem_child_error nm f dims k) (and_then (ss_prove S i) (\<lambda>_. Ok ()))),
     el_read = (\<lambda>k i. and_then (map_err (elem_child_error nm f dims k) (ss_prove S i)) (ss_make_ref S)),
     el_make_mut = (\<lambda>k i. and_then (shared E i) (\<lambda>s.
        and_then (map_err (elem_child_error nm f dims k) (and_then (ss_prove S s) (\<lambda>_. Ok ()))) (\<lambda>_.
        map_err (elem_child_error nm f dims k) (ss_prove_mut E S i)))),
     el_preflight = (\<lambda>k i v. map_err (\<lambda>_. elem_mutation_error nm f dims k KCapacityExceeded) (ss_preflight S Replace i v)),
     el_commit = (\<lambda>k i v. ss_commit S Replace i v),
     el_preflight_init = (\<lambda>k i v. map_err (\<lambda>_. elem_mutation_error nm f dims k KCapacityExceeded) (ss_preflight S Init i v)),
     el_commit_init = (\<lambda>k i v. ss_commit S Init i v),
     el_index_error = (\<lambda>index _. mutation_array nm f index ArrayIndexOutOfBounds),
     el_length_error = (\<lambda>_ _. mutation_field_kind nm f ArrayLengthMismatch)\<rparr>"

text \<open>
  The same adapter over the common types: a value of another Rust type cannot reach it, and the model
  panics there.
\<close>

definition relabel :: "('r \<Rightarrow> view) \<Rightarrow> (lval \<Rightarrow> 'v option) \<Rightarrow> ('r, 'v) elem_adapter \<Rightarrow> (view, lval) elem_adapter" where
  "relabel view_of val_of A = \<lparr>el_owner = el_owner A, el_wire = el_wire A, el_stride = el_stride A,
     el_prove = el_prove A,
     el_read = (\<lambda>k i. and_then (el_read A k i) (\<lambda>r. Ok (view_of r))),
     el_make_mut = el_make_mut A,
     el_preflight = (\<lambda>k i v. case val_of v of Some x \<Rightarrow> el_preflight A k i x | None \<Rightarrow> Panic),
     el_commit = (\<lambda>k i v. case val_of v of Some x \<Rightarrow> el_commit A k i x | None \<Rightarrow> Panic),
     el_preflight_init = (\<lambda>k i v. case val_of v of Some x \<Rightarrow> el_preflight_init A k i x | None \<Rightarrow> Panic),
     el_commit_init = (\<lambda>k i v. case val_of v of Some x \<Rightarrow> el_commit_init A k i x | None \<Rightarrow> Panic),
     el_index_error = el_index_error A, el_length_error = el_length_error A\<rparr>"

fun leaf_of :: "lval \<Rightarrow> leaf_val option" where
  "leaf_of (LeafValue x) = Some x"
| "leaf_of _ = None"

fun rows_of :: "lval \<Rightarrow> lval list option" where
  "rows_of (ArrayValue xs) = Some xs"
| "rows_of _ = None"

primrec elem_of :: "env \<Rightarrow> string \<Rightarrow> string \<Rightarrow> nat list \<Rightarrow> element \<Rightarrow> (view, lval) elem_adapter" where
  "elem_of E nm f dims (LeafElem l) = relabel LeafView leaf_of (leaf_elem_adapter E nm f dims l)"
| "elem_of E nm f dims (PathElem S) = path_elem_adapter E nm f dims S"
| "elem_of E nm f dims (RowElem n e) = relabel SpanView rows_of (nested_adapter E (elem_of E nm f dims e) n)"

section \<open>Materializing arrays\<close>

text \<open>\<open>core::array::from_fn\<close> over \<open>get\<close>, with the element's own materialization; leaves are copied.\<close>

definition materialize_array :: "env \<Rightarrow> (view, lval) elem_adapter \<Rightarrow> (view \<Rightarrow> (schema_error, lval) res) \<Rightarrow> nat \<Rightarrow> input \<Rightarrow> (schema_error, lval) res" where
  "materialize_array E A val n i =
     and_then (collect (\<lambda>index. and_then (array_ref_get E A n i index)
       (\<lambda>r. case r of Some x \<Rightarrow> val x | None \<Rightarrow> Panic)) [0..<n]) (\<lambda>vs. Ok (ArrayValue vs))"

primrec elem_value :: "env \<Rightarrow> string \<Rightarrow> string \<Rightarrow> nat list \<Rightarrow> element \<Rightarrow> view \<Rightarrow> (schema_error, lval) res" where
  "elem_value E nm f dims (LeafElem l) r = (case r of LeafView x \<Rightarrow> Ok (LeafValue x) | _ \<Rightarrow> Panic)"
| "elem_value E nm f dims (PathElem S) r = ss_materialize S r"
| "elem_value E nm f dims (RowElem n e) r = (case r of
     SpanView i \<Rightarrow> materialize_array E (elem_of E nm f dims e) (elem_value E nm f dims e) n i | _ \<Rightarrow> Panic)"

lemma materialize_array_Ok:
  "length vs = n \<Longrightarrow> \<forall>k < n. \<exists>x. array_ref_get E A n i k = Ok (Some x) \<and> val x = Ok (vs ! k) \<Longrightarrow>
   materialize_array E A val n i = Ok (ArrayValue vs)"
proof -
  assume len: "length vs = n" and ex: "\<forall>k < n. \<exists>x. array_ref_get E A n i k = Ok (Some x) \<and> val x = Ok (vs ! k)"
  have "and_then (array_ref_get E A n i k) (\<lambda>r. case r of Some x \<Rightarrow> val x | None \<Rightarrow> Panic) = Ok (vs ! k)" if "k < n" for k
    using ex that by fastforce
  then have "collect (\<lambda>k. and_then (array_ref_get E A n i k) (\<lambda>r. case r of Some x \<Rightarrow> val x | None \<Rightarrow> Panic)) [0..<n] = Ok vs"
    unfolding collect_Ok using len by (simp del: and_then_Ok_iff)
  then show ?thesis by (simp add: materialize_array_def)
qed

section \<open>Values, zero states and declarations\<close>

primrec elem_val_ok :: "element \<Rightarrow> lval \<Rightarrow> bool" where
  "elem_val_ok (LeafElem l) v = (case v of LeafValue x \<Rightarrow> leaf_val_ok l x | _ \<Rightarrow> False)"
| "elem_val_ok (PathElem S) v = ss_val_ok S v"
| "elem_val_ok (RowElem n e) v = (case v of ArrayValue vs \<Rightarrow> length vs = n \<and> list_all (elem_val_ok e) vs | _ \<Rightarrow> False)"

primrec elem_state :: "(schema_support \<Rightarrow> zero_state) \<Rightarrow> element \<Rightarrow> zero_state" where
  "elem_state st (LeafElem l) = ZeroValid"
| "elem_state st (PathElem S) = st S"
| "elem_state st (RowElem n e) = elem_state st e"

primrec elem_zero_is_valid :: "element \<Rightarrow> bool" where
  "elem_zero_is_valid (LeafElem l) = True"
| "elem_zero_is_valid (PathElem S) = ss_zero_is_valid S"
| "elem_zero_is_valid (RowElem n e) = elem_zero_is_valid e"

text \<open>
  What analysis and the generated assertions guarantee of an element: nonzero lengths, no borrowed byte
  arrays, nonempty storage of nul-terminated strings, and a child that meets the schema contract.
\<close>

primrec element_ok :: "env \<Rightarrow> element \<Rightarrow> bool" where
  "element_ok E (LeafElem l) \<longleftrightarrow> leaf_ok l \<and> (\<forall>n. l \<noteq> FixedBytes n)"
| "element_ok E (PathElem S) \<longleftrightarrow> schema_contract E True S"
| "element_ok E (RowElem n e) \<longleftrightarrow> 0 < n \<and> element_ok E e"

section \<open>Contracts\<close>

lemma relabel_contract:
  assumes "element_contract E ok A val_ok shows_val"
  shows "element_contract E ok (relabel view_of val_of A) (\<lambda>v. \<exists>x. val_of v = Some x \<and> val_ok x)
    (\<lambda>r v. \<exists>r' x. r = view_of r' \<and> val_of v = Some x \<and> shows_val r' x)"
proof -
  from assms have layout: "element_layout E ok A" by (simp add: element_contract_def)
  note c = element_contract.prove_total [OF assms] element_contract.prove_position [OF assms]
    element_contract.proved_reads [OF assms] element_contract.preflight_total [OF assms]
    element_contract.commit_law [OF assms] element_contract.init_total [OF assms] element_contract.init_law [OF assms]
  let ?B = "relabel view_of val_of A"
  have [simp]: "el_wire ?B = el_wire A" "el_prove ?B = el_prove A" "el_make_mut ?B = el_make_mut A"
    by (simp_all add: relabel_def)
  show ?thesis
  proof (intro element_contract.intro element_contract_axioms.intro)
    show "element_layout E ok ?B" using layout by (simp add: element_layout_def relabel_def)
  next
    fix e k k'
    assume e: "ok" "input_ok E e" "i_wire e = el_wire ?B"
    then have w: "i_wire e = el_wire A" by simp
    show "el_prove ?B k e \<noteq> Panic" using c(1) [OF e(1,2) w] by simp
    assume "el_prove ?B k e = Ok ()"
    then have p: "el_prove A k e = Ok ()" by simp
    show "el_prove ?B k' e = Ok ()" using c(2) [OF e(1,2) w p] by simp
    show "(\<exists>r. el_read ?B k' e = Ok r) \<and> el_make_mut ?B k' e = Ok e"
      using c(3) [OF e(1,2) w p, of k'] by (auto simp: relabel_def)
  next
    fix e v k
    assume e: "ok" "input_ok E e" "i_wire e = el_wire ?B" and v: "\<exists>x. val_of v = Some x \<and> val_ok x"
    then obtain x where x: "val_of v = Some x" "val_ok x" by blast
    from e have w: "i_wire e = el_wire A" by simp
    have lift: "\<exists>c. com = Ok c \<and> same_span e c \<and> el_prove ?B k c = Ok () \<and>
        (\<forall>k'. \<exists>r. el_read ?B k' c = Ok r \<and> (\<exists>r' x. r = view_of r' \<and> val_of v = Some x \<and> shows_val r' x))"
      if law: "\<exists>c. com = Ok c \<and> same_span e c \<and> el_prove A k c = Ok () \<and> (\<forall>k'. \<exists>r. el_read A k' c = Ok r \<and> shows_val r x)"
      for com :: "(schema_error, input) res"
    proof -
      obtain c where c: "com = Ok c" "same_span e c" "el_prove A k c = Ok ()"
        "\<And>k'. \<exists>r. el_read A k' c = Ok r \<and> shows_val r x" using law by blast
      have "\<exists>r. el_read ?B k' c = Ok r \<and> (\<exists>r' x. r = view_of r' \<and> val_of v = Some x \<and> shows_val r' x)" for k'
        using c(4) [of k'] x(1) by (auto simp: relabel_def)
      then show ?thesis using c(1-3) by auto
    qed
    have ops: "el_preflight ?B k e v = el_preflight A k e x" "el_commit ?B k e v = el_commit A k e x"
      "el_preflight_init ?B k e v = el_preflight_init A k e x" "el_commit_init ?B k e v = el_commit_init A k e x"
      using x(1) by (simp_all add: relabel_def)
    show "el_preflight_init ?B k e v \<noteq> Panic" using c(6) [OF e(1,2) w x(2)] ops by simp
    show "\<exists>c. el_commit_init ?B k e v = Ok c \<and> same_span e c \<and> el_prove ?B k c = Ok () \<and>
        (\<forall>k'. \<exists>r. el_read ?B k' c = Ok r \<and> (\<exists>r' x. r = view_of r' \<and> val_of v = Some x \<and> shows_val r' x))"
      if "el_preflight_init ?B k e v = Ok ()"
      using lift [OF c(7) [OF e(1,2) w x(2)]] that ops by simp
    assume p: "el_prove ?B k e = Ok ()"
    then show "el_preflight ?B k e v \<noteq> Panic" using c(4) [OF e(1,2) w x(2), of k] ops by simp
    show "\<exists>c. el_commit ?B k e v = Ok c \<and> same_span e c \<and> el_prove ?B k c = Ok () \<and>
        (\<forall>k'. \<exists>r. el_read ?B k' c = Ok r \<and> (\<exists>r' x. r = view_of r' \<and> val_of v = Some x \<and> shows_val r' x))"
      if "el_preflight ?B k e v = Ok ()"
      using lift [OF c(5) [OF e(1,2) w x(2)]] p that ops by simp
  qed
qed

lemma weaken_contract:
  assumes "element_contract E ok A val_ok shows_val" "\<And>v. val_ok' v \<Longrightarrow> val_ok v"
    "\<And>r v. val_ok' v \<Longrightarrow> shows_val r v \<Longrightarrow> shows_val' r v"
  shows "element_contract E ok A val_ok' shows_val'"
proof -
  from assms(1) have layout: "element_layout E ok A" by (simp add: element_contract_def)
  note c = element_contract.prove_total [OF assms(1)] element_contract.prove_position [OF assms(1)]
    element_contract.proved_reads [OF assms(1)] element_contract.preflight_total [OF assms(1)]
    element_contract.commit_law [OF assms(1)] element_contract.init_total [OF assms(1)] element_contract.init_law [OF assms(1)]
  show ?thesis
  proof (intro element_contract.intro layout element_contract_axioms.intro)
    fix e v k
    assume e: "ok" "input_ok E e" "i_wire e = el_wire A" and v: "val_ok' v"
    note v' = assms(2) [OF v]
    show "el_preflight_init A k e v \<noteq> Panic" using c(6) [OF e v'] .
    show "el_preflight_init A k e v = Ok () \<Longrightarrow> \<exists>c. el_commit_init A k e v = Ok c \<and> same_span e c \<and>
        el_prove A k c = Ok () \<and> (\<forall>k'. \<exists>r. el_read A k' c = Ok r \<and> shows_val' r v)"
      using c(7) [OF e v', of k] assms(3) [OF v] by blast
    assume p: "el_prove A k e = Ok ()"
    show "el_preflight A k e v \<noteq> Panic" using c(4) [OF e v' p] .
    from p show "el_preflight A k e v = Ok () \<Longrightarrow> \<exists>c. el_commit A k e v = Ok c \<and> same_span e c \<and>
        el_prove A k c = Ok () \<and> (\<forall>k'. \<exists>r. el_read A k' c = Ok r \<and> shows_val' r v)"
      using c(5) [OF e v', of k] assms(3) [OF v] by blast
  qed (use c assms(2) in blast)+
qed

lemma path_contract:
  assumes "schema_contract E True S"
  shows "element_contract E True (path_elem_adapter E nm f dims S) (ss_val_ok S) (\<lambda>r v. ss_materialize S r = Ok v)"
proof (intro element_contract.intro element_layout.intro element_contract_axioms.intro)
  let ?A = "path_elem_adapter E nm f dims S"
  note c = schema_contract.env [OF assms TrueI] schema_contract.wf_wire [OF assms TrueI]
  show "env_ok E" "wf_layout (el_wire ?A)" "el_stride ?A = wl_size (el_wire ?A)"
    using c by (simp_all add: path_elem_adapter_def)
  fix e k k' v
  assume e: "input_ok E e" "i_wire e = el_wire ?A"
  then have w: "i_wire e = ss_wire S" by (simp add: path_elem_adapter_def)
  have prove: "el_prove ?A j i = Ok () \<longleftrightarrow> ss_validate S i = Ok ()" for i j
    by (auto simp: path_elem_adapter_def ss_prove_def)
  note total = schema_contract.validate_total [OF assms TrueI e(1) w]
  show "el_prove ?A k e \<noteq> Panic" using total by (auto simp: path_elem_adapter_def ss_prove_def)
  show "el_prove ?A k e = Ok () \<Longrightarrow> el_prove ?A k' e = Ok ()" using prove by simp
  show "el_prove ?A k e = Ok () \<Longrightarrow> (\<exists>r. el_read ?A k' e = Ok r) \<and> el_make_mut ?A k' e = Ok e"
    using prove [of k e] schema_contract.proved_reads [OF assms TrueI e(1) w] c(1) e(1)
    by (auto simp: path_elem_adapter_def ss_prove_def ss_prove_mut_def shared_Ok)
  assume v: "ss_val_ok S v"
  note law = schema_contract.preflight_total [OF assms TrueI e(1) w v]
    schema_contract.commit_law [OF assms TrueI e(1) w v]
  have read: "\<forall>k'. \<exists>r. el_read ?A k' c = Ok r \<and> ss_materialize S r = Ok v" if "ss_validate S c = Ok ()" "ss_logical S c = Ok v" for c
    using that by (auto simp: path_elem_adapter_def ss_prove_def ss_logical_def)
  show "el_preflight_init ?A k e v \<noteq> Panic" using law(1) [of Init] by (simp add: path_elem_adapter_def)
  show "el_preflight_init ?A k e v = Ok () \<Longrightarrow> \<exists>c. el_commit_init ?A k e v = Ok c \<and> same_span e c \<and>
      el_prove ?A k c = Ok () \<and> (\<forall>k'. \<exists>r. el_read ?A k' c = Ok r \<and> ss_materialize S r = Ok v)"
  proof -
    assume "el_preflight_init ?A k e v = Ok ()"
    then obtain c where "ss_commit S Init e v = Ok c" "same_span e c" "ss_validate S c = Ok ()" "ss_logical S c = Ok v"
      using law(2) [of Init] by (auto simp: path_elem_adapter_def)
    then show ?thesis using read prove by (auto simp: path_elem_adapter_def [THEN arg_cong [where f = el_commit_init]])
  qed
  assume "el_prove ?A k e = Ok ()"
  then have p: "ss_validate S e = Ok ()" using prove by simp
  show "el_preflight ?A k e v \<noteq> Panic" using law(1) [of Replace] p by (simp add: path_elem_adapter_def)
  show "el_preflight ?A k e v = Ok () \<Longrightarrow> \<exists>c. el_commit ?A k e v = Ok c \<and> same_span e c \<and>
      el_prove ?A k c = Ok () \<and> (\<forall>k'. \<exists>r. el_read ?A k' c = Ok r \<and> ss_materialize S r = Ok v)"
  proof -
    assume "el_preflight ?A k e v = Ok ()"
    then obtain c where "ss_commit S Replace e v = Ok c" "same_span e c" "ss_validate S c = Ok ()" "ss_logical S c = Ok v"
      using law(2) [of Replace] p by (auto simp: path_elem_adapter_def)
    then show ?thesis using read prove by (auto simp: path_elem_adapter_def [THEN arg_cong [where f = el_commit]])
  qed
qed

lemma elem_contract:
  assumes "env_ok E" "element_ok E e"
  shows "element_contract E True (elem_of E nm f dims e) (elem_val_ok e) (\<lambda>r v. elem_value E nm f dims e r = Ok v)"
  using assms(2)
proof (induction e)
  case (LeafElem l)
  have "element_contract E True (leaf_elem_adapter E nm f dims l) (leaf_val_ok l) (=)"
    using leaf_el.element_contract_axioms [of E nm f dims l] assms(1) by simp
  from relabel_contract [OF this, of LeafView leaf_of] show ?case
    unfolding elem_of.simps by (rule weaken_contract) (auto split: lval.splits)
next
  case (PathElem S)
  then show ?case using path_contract by simp
next
  case (RowElem n e)
  let ?A = "elem_of E nm f dims e"
  have "nested_elements E True ?A (elem_val_ok e) (\<lambda>r v. elem_value E nm f dims e r = Ok v)"
    using RowElem by (simp add: nested_elements_def)
  from relabel_contract [OF nested_elements.rows_contract [OF this, of n], of SpanView rows_of]
  show ?case
    unfolding elem_of.simps
  proof (rule weaken_contract)
    fix v assume v: "elem_val_ok (RowElem n e) v"
    then obtain vs where vs: "v = ArrayValue vs" "length vs = n" "\<forall>v \<in> set vs. elem_val_ok e v"
      by (auto simp: list_all_iff split: lval.splits)
    then show "\<exists>x. rows_of v = Some x \<and> length x = n \<and> (\<forall>v \<in> set x. elem_val_ok e v)" by simp
    fix r assume "\<exists>r' x. r = SpanView r' \<and> rows_of v = Some x \<and>
      (\<forall>k < n. \<exists>xa. array_ref_get E ?A n r' k = Ok (Some xa) \<and> elem_value E nm f dims e xa = Ok (x ! k))"
    then obtain r' where r': "r = SpanView r'"
      "\<forall>k < n. \<exists>x. array_ref_get E ?A n r' k = Ok (Some x) \<and> elem_value E nm f dims e x = Ok (vs ! k)"
      using vs(1) by auto
    show "elem_value E nm f dims (RowElem n e) r = Ok v"
      using materialize_array_Ok [OF vs(2) r'(2)] vs(1) r'(1) by simp
  qed
qed

lemma elem_wire_of [simp]: "el_wire (elem_of E nm f dims e) = element_wire E e"
  by (induction e) (simp_all add: relabel_def nested_adapter_def leaf_elem_adapter_def path_elem_adapter_def)

lemma proved_elem_value:
  assumes "env_ok E" "element_ok E e" "input_ok E i" "i_wire i = element_wire E e" "el_prove (elem_of E nm f dims e) k i = Ok ()"
  shows "\<exists>r v. el_read (elem_of E nm f dims e) k' i = Ok r \<and> elem_value E nm f dims e r = Ok v"
  using assms(2-5)
proof (induction e arbitrary: i k k')
  case (LeafElem l)
  have "\<exists>r. el_read (elem_of E nm f dims (LeafElem l)) k' i = Ok r"
    using element_contract.proved_reads [OF elem_contract [OF assms(1) LeafElem(1)] TrueI, of i nm f dims k k'] LeafElem(2-4)
    by (simp del: elem_of.simps)
  then show ?case by (auto simp: relabel_def)
next
  case (PathElem S)
  then have "ss_validate S i = Ok ()" by (auto simp: path_elem_adapter_def ss_prove_def)
  moreover from this obtain r v where "ss_make_ref S i = Ok r" "ss_materialize S r = Ok v"
    using schema_contract.proved_reads [of E True S i] PathElem by auto
  ultimately show ?case by (simp add: path_elem_adapter_def ss_prove_def)
next
  case (RowElem n e)
  let ?A = "elem_of E nm f dims e"
  have w: "i_wire i = array_layout n (el_wire ?A)" and e: "element_ok E e" using RowElem.prems by simp_all
  note c = elem_contract [OF assms(1) e, of nm f dims]
  have "nested_elements E True ?A (elem_val_ok e) (\<lambda>r v. elem_value E nm f dims e r = Ok v)"
    using c by (simp add: nested_elements_def)
  then have proved: "array_proved E ?A n i"
    using nested_elements.row_prove_iff(1) [of E True ?A _ _ i n k] RowElem.prems(2,4) w
    by (simp add: relabel_def nested_adapter_def)
  have "\<exists>v. and_then (array_ref_get E ?A n i j) (\<lambda>r. case r of Some x \<Rightarrow> elem_value E nm f dims e x | None \<Rightarrow> Panic) = Ok v"
    if j: "j < n" for j
  proof -
    note pe = element_contract.proved_elem [OF c TrueI proved j]
    obtain r v where "el_read ?A j (array_elem ?A i j) = Ok r" "elem_value E nm f dims e r = Ok v"
      using RowElem.IH [OF e pe(1) _ pe(3)] pe(2) by fastforce
    then show ?thesis using element_contract.get_of_proved(1) [OF c TrueI proved j] by auto
  qed
  then have "\<exists>vs. collect (\<lambda>j. and_then (array_ref_get E ?A n i j)
      (\<lambda>r. case r of Some x \<Rightarrow> elem_value E nm f dims e x | None \<Rightarrow> Panic)) [0..<n] = Ok vs"
    by (intro collect_exists) simp
  moreover have "array_ref_prove E ?A n i = Ok i"
    using element_contract.ref_prove_iff(1) [OF c TrueI RowElem.prems(2) w] proved by simp
  ultimately show ?case by (auto simp: relabel_def nested_adapter_def materialize_array_def)
qed

lemma elem_zero_iff:
  assumes "env_ok E" "element_ok E e" "input_ok E i" "i_wire i = element_wire E e" "is_all_zero i"
  shows "el_prove (elem_of E nm f dims e) k i = Ok () \<longleftrightarrow> elem_zero_is_valid e"
  using assms(2-5)
proof (induction e arbitrary: i k)
  case (LeafElem l)
  then have "leaf_elem_prove E nm f dims l k i = Ok ()"
    using leaf_elem_prove_iff(1) [OF assms(1), of i l] leaf_read_zero [OF assms(1), of i l] by auto
  then show ?case by (simp add: relabel_def leaf_elem_adapter_def)
next
  case (PathElem S)
  then show ?case
    using schema_contract.zero_exact [of E True S i] by (auto simp: path_elem_adapter_def ss_prove_def)
next
  case (RowElem n e)
  let ?A = "elem_of E nm f dims e"
  have w: "i_wire i = array_layout n (el_wire ?A)" and e: "element_ok E e" and n: "0 < n" using RowElem.prems by simp_all
  note c = elem_contract [OF assms(1) e, of nm f dims]
  have "nested_elements E True ?A (elem_val_ok e) (\<lambda>r v. elem_value E nm f dims e r = Ok v)"
    using c by (simp add: nested_elements_def)
  then have "el_prove (elem_of E nm f dims (RowElem n e)) k i = Ok () \<longleftrightarrow> array_proved E ?A n i"
    using nested_elements.row_prove_iff(1) [of E True ?A _ _ i n k] RowElem.prems(2) w
    by (simp add: relabel_def nested_adapter_def)
  moreover have "el_prove ?A j (array_elem ?A i j) = Ok () \<longleftrightarrow> elem_zero_is_valid e" if "j < n" for j
  proof -
    have "element_layout E True ?A" using c by (simp add: element_contract_def)
    note sel = element_layout.select(3,4) [OF this TrueI RowElem.prems(2) w that]
    have "is_all_zero (array_elem ?A i j)"
      using RowElem.prems(4) by (simp add: is_all_zero_def array_elem_def all_zero_slice)
    then show ?thesis using RowElem.IH [OF e sel(1)] sel(2) by simp
  qed
  ultimately show ?case using RowElem.prems(2) w n by (auto simp: array_proved_def)
qed

end
