(* ===== verification/Zs_Record.thy ===== *)
theory Zs_Record
  imports Zs_Element
begin

text \<open>
  Records as the macro generates them: the \<open>repr(C)\<close> wire with its field offsets (\<open>emit_struct\<close>,
  \<open>wire_field_type\<close>, \<open>field_offset\<close>), the eager proof (\<open>proof_field\<close>), the getters and \<open>copy_into\<close>
  (\<open>field_read_expr\<close>, \<open>materialized_fields\<close>), the two-pass logical mutation (\<open>logical_preflight_field\<close>,
  \<open>logical_commit_field\<close> and their initializing forms), the optional-field adapters and the zero states.
  \<open>record_support\<close> packs them as the record's schema support.
\<close>

section \<open>Declarations\<close>

text \<open>What \<open>classify_optional_inner\<close> and \<open>classify_field\<close> accept; a payload names its tag field by index.\<close>

datatype optional_inner = OptPath schema_support | OptArray nat schema_support

datatype category =
    LeafField leaf
  | PathField schema_support
  | TaggedField nat payload_support
  | ArrayField nat element
  | OptionalField optional_inner

record field_ir =
  fi_name :: string
  fi_category :: category
  fi_align :: "nat option"

record record_ir =
  ri_name :: string
  ri_align :: "nat option"
  ri_fields :: "field_ir list"

abbreviation "fld R k \<equiv> ri_fields R ! k"
abbreviation "cat R k \<equiv> fi_category (ri_fields R ! k)"
abbreviation "field_count R \<equiv> length (ri_fields R)"

section \<open>Wire layout\<close>

fun inner_wire :: "optional_inner \<Rightarrow> wlayout" where
  "inner_wire (OptPath S) = ss_wire S"
| "inner_wire (OptArray n S) = array_layout n (ss_wire S)"

fun category_wire :: "env \<Rightarrow> category \<Rightarrow> wlayout" where
  "category_wire E (LeafField l) = leaf_wire E l"
| "category_wire E (PathField S) = ss_wire S"
| "category_wire E (TaggedField t P) = ps_wire P"
| "category_wire E (ArrayField n e) = array_layout n (element_wire E e)"
| "category_wire E (OptionalField x) = inner_wire x"

definition field_wire :: "env \<Rightarrow> field_ir \<Rightarrow> wlayout" where
  "field_wire E f = storage_wire (category_wire E (fi_category f)) (fi_align f)"

definition base_wire :: "env \<Rightarrow> record_ir \<Rightarrow> wlayout" where
  "base_wire E R = repr_c (map (field_wire E) (ri_fields R))"

definition record_wire :: "env \<Rightarrow> record_ir \<Rightarrow> wlayout" where
  "record_wire E R = storage_wire (base_wire E R) (ri_align R)"

definition field_offset :: "env \<Rightarrow> record_ir \<Rightarrow> nat \<Rightarrow> usize" where
  "field_offset E R k = value_offset (base_wire E R) (ri_align R) + place 0 (map (field_wire E) (ri_fields R)) ! k"

definition field_value_offset :: "env \<Rightarrow> record_ir \<Rightarrow> nat \<Rightarrow> usize" where
  "field_value_offset E R k = field_offset E R k + value_offset (category_wire E (cat R k)) (fi_align (fld R k))"

section \<open>Field adapters\<close>

text \<open>The loops over the elements of an array source, shared by array fields and optional arrays.\<close>

fun el_preflight_in :: "mode \<Rightarrow> ('r, 'v) elem_adapter \<Rightarrow> usize \<Rightarrow> input \<Rightarrow> 'v \<Rightarrow> (schema_error, unit) res" where
  "el_preflight_in Replace A = el_preflight A"
| "el_preflight_in Init A = el_preflight_init A"

fun el_commit_in :: "mode \<Rightarrow> ('r, 'v) elem_adapter \<Rightarrow> usize \<Rightarrow> input \<Rightarrow> 'v \<Rightarrow> (schema_error, input) res" where
  "el_commit_in Replace A = el_commit A"
| "el_commit_in Init A = el_commit_init A"

definition preflight_elements :: "env \<Rightarrow> mode \<Rightarrow> ('r, 'v) elem_adapter \<Rightarrow> input \<Rightarrow> 'v list \<Rightarrow> (schema_error, unit) res" where
  "preflight_elements E m A i values =
     for_each (\<lambda>(index, v). and_then (map_err (mutation_layout (el_owner A)) (element_input_result E A i index))
       (\<lambda>element. el_preflight_in m A index element v)) (enumerate 0 values)"

definition commit_elements :: "env \<Rightarrow> mode \<Rightarrow> ('r, 'v) elem_adapter \<Rightarrow> input \<Rightarrow> 'v list \<Rightarrow> (schema_error, input) res" where
  "commit_elements E m A i values =
     commit_loop (\<lambda>index v i. and_then (or_unreachable (element_input_mut_result E A i index))
       (\<lambda>sel. commit_element (el_commit_in m A) index sel v i)) 0 values i"

definition option_of :: "env \<Rightarrow> string \<Rightarrow> string \<Rightarrow> optional_inner \<Rightarrow> nat option \<Rightarrow> (view, lval) option_adapter" where
  "option_of E nm f x a = (case x of
     OptPath S \<Rightarrow> \<lparr>op_owner = nm, op_storage = storage_wire (ss_wire S) a, op_value = ss_wire S,
       op_offset = value_offset (ss_wire S) a,
       op_validate = (\<lambda>i. map_err (access_child nm f) (and_then (ss_prove S i) (\<lambda>_. Ok ()))),
       op_read = (\<lambda>i. and_then (map_err (access_child nm f) (ss_prove S i)) (ss_make_ref S)),
       op_make_mut = (\<lambda>i. map_err (access_child nm f) (ss_prove_mut E S i)),
       op_preflight_init = (\<lambda>i v. map_err (\<lambda>_. mutation_field_kind nm f KCapacityExceeded) (ss_preflight S Init i v)),
       op_commit_init = ss_commit S Init\<rparr>
   | OptArray n S \<Rightarrow> (let A = path_elem_adapter E nm f [n] S in
       \<lparr>op_owner = nm, op_storage = storage_wire (array_layout n (ss_wire S)) a, op_value = array_layout n (ss_wire S),
       op_offset = value_offset (array_layout n (ss_wire S)) a,
       op_validate = (\<lambda>i. and_then (array_ref_prove E A n i) (\<lambda>_. Ok ())),
       op_read = (\<lambda>i. and_then (array_ref_prove E A n i) (\<lambda>r. Ok (SpanView r))),
       op_make_mut = (\<lambda>i. and_then (array_mut_prove E A n i) (\<lambda>h. Ok (am_input h))),
       op_preflight_init = (\<lambda>i v. case v of ArrayValue vs \<Rightarrow> preflight_elements E Init A i vs | _ \<Rightarrow> Panic),
       op_commit_init = (\<lambda>i v. case v of ArrayValue vs \<Rightarrow> commit_elements E Init A i vs | _ \<Rightarrow> Panic)\<rparr>))"

section \<open>Proof\<close>

text \<open>
  A leaf at an offset of the record's input: the reads of \<open>proof_field\<close> and \<open>field_read_expr\<close>, which
  address the record directly.
\<close>

fun leaf_read_at :: "env \<Rightarrow> leaf_errors \<Rightarrow> leaf \<Rightarrow> usize \<Rightarrow> input \<Rightarrow> (schema_error, leaf_val) res" where
  "leaf_read_at E er (Primitive en p) off i =
     and_then (map_err (le_access_layout er) (read_copy E (prim_layout E p) off i))
       (\<lambda>wire. Ok (NumVal (wire_get E (en, p) wire)))"
| "leaf_read_at E er Bool off i =
     and_then (map_err (le_access_layout er) (read_copy E (bytes_layout 1) off i))
       (\<lambda>wire. case bool_decode (hd wire) of Some b \<Rightarrow> Ok (BoolVal b) | None \<Rightarrow> Err (le_bool er (hd wire)))"
| "leaf_read_at E er (BorrowedStr r en n) off i =
     and_then (map_err (le_access_layout er) (read_copy E (prim_layout E (repr_prim r)) off i)) (\<lambda>len.
     and_then (map_err (le_access_layout er) (subrange_bytes E (off + str_data_offset E r n) n i)) (\<lambda>data.
     and_then (map_err (\<lambda>e. le_string er (string_proof_kind e)) (prove_str E (en, r) len data))
       (\<lambda>s. Ok (BytesVal s))))"
| "leaf_read_at E er (BorrowedCStr n) off i =
     and_then (map_err (le_access_layout er) (subrange_bytes E off n i)) (\<lambda>data.
     and_then (map_err (\<lambda>_. le_string er KMissingNul) (prove_c_str data)) (\<lambda>s. Ok (BytesVal s)))"
| "leaf_read_at E er (BorrowedU16Str r en n) off i =
     and_then (map_err (le_access_layout er) (read_copy E (prim_layout E (repr_prim r)) off i)) (\<lambda>len.
     and_then (map_err (le_access_layout er) (subrange_bytes E (off + u16_str_data_offset E r n) (n * 2) i)) (\<lambda>data.
     and_then (map_err (\<lambda>e. le_string er (string_proof_kind e))
         (prove_u16_str_bytes E (en, r) n len (i_addr i + off + u16_str_data_offset E r n) data))
       (\<lambda>s. Ok (UnitsVal s))))"
| "leaf_read_at E er (BorrowedU16CStr n) off i =
     and_then (map_err (le_access_layout er) (subrange_bytes E off (n * 2) i)) (\<lambda>data.
     and_then (map_err (\<lambda>_. le_string er KMissingNul) (prove_u16_c_str_bytes E n (i_addr i + off) data))
       (\<lambda>s. Ok (UnitsVal s)))"
| "leaf_read_at E er (FixedBytes n) off i =
     and_then (map_err (le_access_layout er) (subrange_bytes E off n i)) (\<lambda>bs. Ok (BytesVal bs))"

text \<open>The scalar enum a tag field holds: \<open>prove\<close>, then \<open>make_ref\<close>.\<close>

definition read_tag :: "env \<Rightarrow> record_ir \<Rightarrow> nat \<Rightarrow> (layout_error \<Rightarrow> schema_error) \<Rightarrow> (schema_error \<Rightarrow> schema_error) \<Rightarrow> input \<Rightarrow> (schema_error, nat) res" where
  "read_tag E R t on_layout on_proof i = (case cat R t of
     PathField T \<Rightarrow>
       and_then (map_err on_layout (subrange E (ss_wire T) (field_value_offset E R t) i)) (\<lambda>tag_input.
       and_then (map_err on_proof (ss_prove T tag_input)) (\<lambda>proof.
       and_then (ss_make_ref T proof) (\<lambda>r. case r of EnumView d \<Rightarrow> Ok d | _ \<Rightarrow> Panic)))
   | _ \<Rightarrow> Panic)"

definition proof_field :: "env \<Rightarrow> record_ir \<Rightarrow> nat \<Rightarrow> input \<Rightarrow> (schema_error, unit) res" where
  "proof_field E R k i =
     (let nm = ri_name R; f = fi_name (fld R k); off = field_value_offset E R k in case cat R k of
        LeafField l \<Rightarrow> (case l of Primitive en p \<Rightarrow> Ok () | FixedBytes n \<Rightarrow> Ok ()
          | _ \<Rightarrow> and_then (leaf_read_at E (field_errors nm f) l off i) (\<lambda>_. Ok ()))
      | PathField S \<Rightarrow>
          and_then (map_err (access_layout nm) (subrange E (ss_wire S) off i)) (\<lambda>selected.
          and_then (map_err (access_child nm f) (ss_prove S selected)) (\<lambda>_. Ok ()))
      | TaggedField t P \<Rightarrow>
          and_then (read_tag E R t (access_layout nm) (access_child nm (fi_name (fld R t))) i) (\<lambda>tag.
          and_then (map_err (access_child nm f) (ref_prove_at E P i tag off)) (\<lambda>_. Ok ()))
      | ArrayField n e \<Rightarrow>
          and_then (map_err (access_layout nm) (subrange E (array_layout n (element_wire E e)) off i)) (\<lambda>selected.
          and_then (array_ref_prove E (elem_of E nm f (n # element_dims e) e) n selected) (\<lambda>_. Ok ()))
      | OptionalField x \<Rightarrow> (let A = option_of E nm f x (fi_align (fld R k)) in
          and_then (map_err (access_layout nm) (subrange E (field_wire E (fld R k)) (field_offset E R k) i)) (\<lambda>storage.
          if is_all_zero storage then Ok ()
          else and_then (map_err (access_layout nm) (subrange E (op_value A) (op_offset A) storage)) (op_validate A))))"

definition record_validate :: "env \<Rightarrow> record_ir \<Rightarrow> input \<Rightarrow> (schema_error, unit) res" where
  "record_validate E R i = for_each (\<lambda>k. proof_field E R k i) [0..<field_count R]"

section \<open>Getters and materialization\<close>

text \<open>\<open>field_read_expr\<close>; \<open>None\<close> is the absent state of an optional field.\<close>

definition field_read :: "env \<Rightarrow> record_ir \<Rightarrow> nat \<Rightarrow> input \<Rightarrow> (schema_error, view option) res" where
  "field_read E R k i =
     (let nm = ri_name R; f = fi_name (fld R k); off = field_value_offset E R k in case cat R k of
        LeafField l \<Rightarrow> and_then (or_unreachable (leaf_read_at E (field_errors nm f) l off i)) (\<lambda>x. Ok (Some (LeafView x)))
      | PathField S \<Rightarrow>
          and_then (or_unreachable (subrange E (ss_wire S) off i)) (\<lambda>selected.
          and_then (or_unreachable (ss_prove S selected)) (\<lambda>proof.
          and_then (ss_make_ref S proof) (\<lambda>r. Ok (Some r))))
      | TaggedField t P \<Rightarrow>
          and_then (or_unreachable (read_tag E R t (access_layout nm) id i)) (\<lambda>tag.
          and_then (or_unreachable (ref_prove_at E P i tag off)) (\<lambda>sel.
          Ok (Some (TaggedView (sel_tag sel) (sel_payload sel)))))
      | ArrayField n e \<Rightarrow>
          and_then (or_unreachable (subrange E (array_layout n (element_wire E e)) off i)) (\<lambda>selected.
          and_then (or_unreachable (array_ref_prove E (elem_of E nm f (n # element_dims e) e) n selected)) (\<lambda>view.
          Ok (Some (SpanView view))))
      | OptionalField x \<Rightarrow> (let A = option_of E nm f x (fi_align (fld R k)) in
          and_then (or_unreachable (subrange E (field_wire E (fld R k)) (field_offset E R k) i)) (\<lambda>storage.
          if is_all_zero storage then Ok None
          else and_then (or_unreachable (subrange E (op_value A) (op_offset A) storage)) (\<lambda>value.
               and_then (or_unreachable (op_read A value)) (\<lambda>r. Ok (Some r))))))"

fun inner_value :: "env \<Rightarrow> string \<Rightarrow> string \<Rightarrow> optional_inner \<Rightarrow> view \<Rightarrow> (schema_error, lval) res" where
  "inner_value E nm f (OptPath S) r = ss_materialize S r"
| "inner_value E nm f (OptArray n S) r = (case r of
     SpanView i \<Rightarrow> materialize_array E (path_elem_adapter E nm f [n] S) (ss_materialize S) n i | _ \<Rightarrow> Panic)"

definition materialized_field :: "env \<Rightarrow> record_ir \<Rightarrow> nat \<Rightarrow> input \<Rightarrow> (schema_error, lval) res" where
  "materialized_field E R k i =
     (let nm = ri_name R; f = fi_name (fld R k); off = field_value_offset E R k in case cat R k of
        LeafField l \<Rightarrow> and_then (field_read E R k i) (\<lambda>r. case r of Some (LeafView x) \<Rightarrow> Ok (LeafValue x) | _ \<Rightarrow> Panic)
      | PathField S \<Rightarrow>
          and_then (or_unreachable (subrange E (ss_wire S) off i)) (\<lambda>selected.
          and_then (or_unreachable (ss_prove S selected)) (ss_logical S))
      | TaggedField t P \<Rightarrow>
          and_then (or_unreachable (read_tag E R t (access_layout nm) id i)) (\<lambda>tag.
          and_then (or_unreachable (ref_prove_at E P i tag off)) (ref_materialize P))
      | ArrayField n e \<Rightarrow> and_then (field_read E R k i) (\<lambda>r. case r of
          Some (SpanView j) \<Rightarrow> materialize_array E (elem_of E nm f (n # element_dims e) e)
            (elem_value E nm f (n # element_dims e) e) n j
        | _ \<Rightarrow> Panic)
      | OptionalField x \<Rightarrow> and_then (field_read E R k i) (\<lambda>r. case r of
          None \<Rightarrow> Ok (OptionValue None)
        | Some r \<Rightarrow> and_then (inner_value E nm f x r) (\<lambda>v. Ok (OptionValue (Some v)))))"

definition record_copy_into :: "env \<Rightarrow> record_ir \<Rightarrow> view \<Rightarrow> (schema_error, lval) res" where
  "record_copy_into E R r = (case r of
     SpanView i \<Rightarrow> and_then (collect (\<lambda>k. materialized_field E R k i) [0..<field_count R]) (\<lambda>vs. Ok (RecordValue vs))
   | _ \<Rightarrow> Panic)"

section \<open>Logical mutation\<close>

definition is_external_tag_sibling :: "record_ir \<Rightarrow> nat \<Rightarrow> bool" where
  "is_external_tag_sibling R k = list_ex (\<lambda>f. case fi_category f of TaggedField t P \<Rightarrow> t = k | _ \<Rightarrow> False) (ri_fields R)"

text \<open>
  Both passes take the complete logical record, as the value of each field in declaration order. A tag
  field is skipped: the payload that names it checks it and stores it.
\<close>

definition preflight_field :: "env \<Rightarrow> record_ir \<Rightarrow> mode \<Rightarrow> nat \<Rightarrow> input \<Rightarrow> lval list \<Rightarrow> (schema_error, unit) res" where
  "preflight_field E R m k i vs =
     (let nm = ri_name R; f = fi_name (fld R k); off = field_value_offset E R k in
      if is_external_tag_sibling R k then Ok () else case cat R k of
        LeafField l \<Rightarrow> (case vs ! k of
            LeafValue x \<Rightarrow> (case l of
                FixedBytes n \<Rightarrow> leaf_preflight E (field_errors nm f) l i x
              | _ \<Rightarrow> and_then (map_err (mutation_layout nm) (subrange E (leaf_wire E l) off i))
                   (\<lambda>selected. leaf_preflight E (field_errors nm f) l selected x))
          | _ \<Rightarrow> Panic)
      | PathField S \<Rightarrow>
          and_then (map_err (mutation_layout nm) (subrange E (ss_wire S) off i)) (\<lambda>child_input.
          map_err (\<lambda>_. mutation_field_kind nm f KCapacityExceeded) (ss_preflight S m child_input (vs ! k)))
      | TaggedField t P \<Rightarrow>
          and_then (ps_logical_tag P (vs ! k)) (\<lambda>target.
          if vs ! t \<noteq> EnumValue target then Err (mutation_field_kind nm f TagMismatch)
          else and_then (case m of
              Replace \<Rightarrow> read_tag E R t (mutation_layout nm) (\<lambda>e. mutation_access nm (access_child nm (fi_name (fld R t)) e)) i
            | Init \<Rightarrow> Ok target) (\<lambda>current.
          and_then (map_err (mutation_layout nm) (subrange E (ps_wire P) off i)) (\<lambda>payload_input.
          map_err (\<lambda>_. mutation_field_kind nm f KCapacityExceeded) (ps_preflight P m current payload_input (vs ! k)))))
      | ArrayField n e \<Rightarrow> (case vs ! k of
            ArrayValue xs \<Rightarrow>
              and_then (map_err (mutation_layout nm) (subrange E (array_layout n (element_wire E e)) off i)) (\<lambda>selected.
              preflight_elements E m (elem_of E nm f (n # element_dims e) e) selected xs)
          | _ \<Rightarrow> Panic)
      | OptionalField x \<Rightarrow> (let A = option_of E nm f x (fi_align (fld R k)) in
          and_then (map_err (mutation_layout nm) (subrange E (field_wire E (fld R k)) (field_offset E R k) i)) (\<lambda>storage.
          case vs ! k of
            OptionValue None \<Rightarrow> Ok ()
          | OptionValue (Some y) \<Rightarrow>
              and_then (map_err (mutation_layout nm) (subrange E (op_value A) (op_offset A) storage))
                (\<lambda>selected. op_preflight_init A selected y)
          | _ \<Rightarrow> Panic)))"

text \<open>A commit through a short reborrow at an offset of the record.\<close>

definition commit_at :: "env \<Rightarrow> wlayout \<Rightarrow> usize \<Rightarrow> (input \<Rightarrow> (schema_error, input) res) \<Rightarrow> input \<Rightarrow> (schema_error, input) res" where
  "commit_at E w off commit i =
     and_then (or_unreachable (subrange_mut E w off i)) (\<lambda>selected.
     and_then (commit selected) (\<lambda>c. Ok (write_back off c i)))"

definition switch_tag :: "env \<Rightarrow> record_ir \<Rightarrow> nat \<Rightarrow> nat \<Rightarrow> payload_support \<Rightarrow> nat \<Rightarrow> input \<Rightarrow>
    (input \<Rightarrow> (schema_error, input) res) \<Rightarrow> (schema_error, input) res" where
  "switch_tag E R k t P target i commit_payload = (case cat R t of
     PathField T \<Rightarrow> (case commit_payload_before_tag_with E P (ss_wire T) i (field_value_offset E R t) (field_value_offset E R k)
         (value_closure commit_payload)
         (value_closure (\<lambda>tag_input. ss_commit T Init tag_input (EnumValue target))) () of
           (Ok _, j, _) \<Rightarrow> Ok j | _ \<Rightarrow> Panic)
   | _ \<Rightarrow> Panic)"

definition commit_field :: "env \<Rightarrow> record_ir \<Rightarrow> mode \<Rightarrow> nat \<Rightarrow> input \<Rightarrow> lval list \<Rightarrow> (schema_error, input) res" where
  "commit_field E R m k i vs =
     (let nm = ri_name R; f = fi_name (fld R k); off = field_value_offset E R k in
      if is_external_tag_sibling R k then Ok i else case cat R k of
        LeafField l \<Rightarrow> (case vs ! k of
            LeafValue x \<Rightarrow> commit_at E (leaf_wire E l) off (\<lambda>selected. leaf_commit E l selected x) i
          | _ \<Rightarrow> Panic)
      | PathField S \<Rightarrow> commit_at E (ss_wire S) off (\<lambda>child_input. ss_commit S m child_input (vs ! k)) i
      | TaggedField t P \<Rightarrow>
          and_then (ps_logical_tag P (vs ! k)) (\<lambda>target. case m of
              Replace \<Rightarrow> and_then (or_unreachable (read_tag E R t (mutation_layout nm) id i)) (\<lambda>current.
                if target = current
                then commit_at E (ps_wire P) off (\<lambda>payload_input. ps_commit P Replace payload_input (vs ! k)) i
                else switch_tag E R k t P target i (\<lambda>payload_input. ps_commit P Init payload_input (vs ! k)))
            | Init \<Rightarrow> switch_tag E R k t P target i (\<lambda>payload_input. ps_commit P Init payload_input (vs ! k)))
      | ArrayField n e \<Rightarrow> (case vs ! k of
            ArrayValue xs \<Rightarrow> commit_at E (array_layout n (element_wire E e)) off
              (\<lambda>selected. commit_elements E m (elem_of E nm f (n # element_dims e) e) selected xs) i
          | _ \<Rightarrow> Panic)
      | OptionalField x \<Rightarrow> (let A = option_of E nm f x (fi_align (fld R k)) in
          commit_at E (field_wire E (fld R k)) (field_offset E R k) (\<lambda>storage. case vs ! k of
              OptionValue None \<Rightarrow> Ok (option_clear storage)
            | OptionValue (Some y) \<Rightarrow> commit_at E (op_value A) (op_offset A) (\<lambda>selected. op_commit_init A selected y) storage
            | _ \<Rightarrow> Panic) i))"

text \<open>The four generated per-field emitters.\<close>

definition logical_preflight_field :: "env \<Rightarrow> record_ir \<Rightarrow> nat \<Rightarrow> input \<Rightarrow> lval list \<Rightarrow> (schema_error, unit) res" where
  "logical_preflight_field E R k i vs = preflight_field E R Replace k i vs"

definition logical_commit_field :: "env \<Rightarrow> record_ir \<Rightarrow> nat \<Rightarrow> input \<Rightarrow> lval list \<Rightarrow> (schema_error, input) res" where
  "logical_commit_field E R k i vs = commit_field E R Replace k i vs"

definition logical_init_preflight_field :: "env \<Rightarrow> record_ir \<Rightarrow> nat \<Rightarrow> input \<Rightarrow> lval list \<Rightarrow> (schema_error, unit) res" where
  "logical_init_preflight_field E R k i vs = preflight_field E R Init k i vs"

definition logical_init_commit_field :: "env \<Rightarrow> record_ir \<Rightarrow> nat \<Rightarrow> input \<Rightarrow> lval list \<Rightarrow> (schema_error, input) res" where
  "logical_init_commit_field E R k i vs = commit_field E R Init k i vs"

fun commit_fields :: "(nat \<Rightarrow> input \<Rightarrow> (schema_error, input) res) \<Rightarrow> nat list \<Rightarrow> input \<Rightarrow> (schema_error, input) res" where
  "commit_fields step [] i = Ok i"
| "commit_fields step (k # ks) i = and_then (step k i) (commit_fields step ks)"

definition record_preflight :: "env \<Rightarrow> record_ir \<Rightarrow> mode \<Rightarrow> input \<Rightarrow> lval \<Rightarrow> (schema_error, unit) res" where
  "record_preflight E R m i v = (case v of
     RecordValue vs \<Rightarrow> for_each (\<lambda>k. case m of
         Replace \<Rightarrow> logical_preflight_field E R k i vs
       | Init \<Rightarrow> logical_init_preflight_field E R k i vs) [0..<field_count R]
   | _ \<Rightarrow> Panic)"

definition record_commit :: "env \<Rightarrow> record_ir \<Rightarrow> mode \<Rightarrow> input \<Rightarrow> lval \<Rightarrow> (schema_error, input) res" where
  "record_commit E R m i v = (case v of
     RecordValue vs \<Rightarrow> commit_fields (\<lambda>k i. case m of
         Replace \<Rightarrow> logical_commit_field E R k i vs
       | Init \<Rightarrow> logical_init_commit_field E R k i vs) [0..<field_count R] i
   | _ \<Rightarrow> Panic)"

section \<open>Zero states\<close>

fun field_state :: "(schema_support \<Rightarrow> zero_state) \<Rightarrow> (payload_support \<Rightarrow> zero_state) \<Rightarrow> category \<Rightarrow> zero_state" where
  "field_state st pst (LeafField l) = ZeroValid"
| "field_state st pst (OptionalField x) = ZeroValid"
| "field_state st pst (TaggedField t P) = pst P"
| "field_state st pst (PathField S) = st S"
| "field_state st pst (ArrayField n e) = elem_state st e"

definition wire_type_state :: "(schema_support \<Rightarrow> zero_state) \<Rightarrow> (payload_support \<Rightarrow> zero_state) \<Rightarrow> record_ir \<Rightarrow> zero_state" where
  "wire_type_state st pst R = foldr (\<lambda>f composed. zs_or (field_state st pst (fi_category f)) composed) (ri_fields R) ZeroValid"

primrec elem_zero_term :: "element \<Rightarrow> bool option" where
  "elem_zero_term (LeafElem l) = None"
| "elem_zero_term (PathElem S) = Some (ss_zero_is_valid S)"
| "elem_zero_term (RowElem n e) = elem_zero_term e"

fun field_zero_is_valid :: "category \<Rightarrow> bool option" where
  "field_zero_is_valid (LeafField l) = None"
| "field_zero_is_valid (OptionalField x) = None"
| "field_zero_is_valid (TaggedField t P) = Some (ps_zero_is_valid P)"
| "field_zero_is_valid (PathField S) = Some (ss_zero_is_valid S)"
| "field_zero_is_valid (ArrayField n e) = elem_zero_term e"

definition wire_type_zero_is_valid :: "record_ir \<Rightarrow> bool" where
  "wire_type_zero_is_valid R = list_all (\<lambda>f. case field_zero_is_valid (fi_category f) of None \<Rightarrow> True | Some b \<Rightarrow> b) (ri_fields R)"

section \<open>Values of a record\<close>

fun inner_val_ok :: "optional_inner \<Rightarrow> lval \<Rightarrow> bool" where
  "inner_val_ok (OptPath S) v = ss_val_ok S v"
| "inner_val_ok (OptArray n S) v = (case v of ArrayValue vs \<Rightarrow> length vs = n \<and> list_all (ss_val_ok S) vs | _ \<Rightarrow> False)"

fun category_val_ok :: "category \<Rightarrow> lval \<Rightarrow> bool" where
  "category_val_ok (LeafField l) v = (case v of LeafValue x \<Rightarrow> leaf_val_ok l x | _ \<Rightarrow> False)"
| "category_val_ok (PathField S) v = ss_val_ok S v"
| "category_val_ok (TaggedField t P) v = ps_val_ok P v"
| "category_val_ok (ArrayField n e) v = (case v of ArrayValue vs \<Rightarrow> length vs = n \<and> list_all (elem_val_ok e) vs | _ \<Rightarrow> False)"
| "category_val_ok (OptionalField x) v = (case v of
     OptionValue None \<Rightarrow> True
   | OptionValue (Some y) \<Rightarrow> inner_val_ok x y
   | _ \<Rightarrow> False)"

definition record_val_ok :: "record_ir \<Rightarrow> lval \<Rightarrow> bool" where
  "record_val_ok R v = (case v of
     RecordValue vs \<Rightarrow> length vs = field_count R \<and> list_all2 (\<lambda>f x. category_val_ok (fi_category f) x) (ri_fields R) vs
   | _ \<Rightarrow> False)"

section \<open>Patches\<close>

text \<open>
  \<open>emit_record_patch\<close>: one optional update per field. A tag sibling's update is the tag value itself, a
  nested or tagged field's is the child's patch, an optional field's is \<open>None\<close> to clear it or the inner
  patch; leaves and arrays are replaced whole.
\<close>

fun inner_patch_ok :: "optional_inner \<Rightarrow> pval \<Rightarrow> bool" where
  "inner_patch_ok (OptPath S) p = pa_ok (ss_patch S) p"
| "inner_patch_ok (OptArray n S) p = (case p of ValuePatch v \<Rightarrow> inner_val_ok (OptArray n S) v | _ \<Rightarrow> False)"

definition patch_field_ok :: "record_ir \<Rightarrow> nat \<Rightarrow> pval \<Rightarrow> bool" where
  "patch_field_ok R k p =
     (let whole = (case p of ValuePatch v \<Rightarrow> category_val_ok (cat R k) v | _ \<Rightarrow> False) in
      if is_external_tag_sibling R k then whole else case cat R k of
        PathField S \<Rightarrow> pa_ok (ss_patch S) p
      | TaggedField t P \<Rightarrow> pa_ok (ps_patch P) p
      | OptionalField x \<Rightarrow> (case p of
          OptionPatch None \<Rightarrow> True | OptionPatch (Some q) \<Rightarrow> inner_patch_ok x q | _ \<Rightarrow> False)
      | _ \<Rightarrow> whole)"

definition record_patch_ok :: "record_ir \<Rightarrow> pval \<Rightarrow> bool" where
  "record_patch_ok R p = (case p of
     RecordPatch ps \<Rightarrow> length ps = field_count R \<and>
       list_all (\<lambda>k. case ps ! k of None \<Rightarrow> True | Some q \<Rightarrow> patch_field_ok R k q) [0..<field_count R]
   | _ \<Rightarrow> False)"

definition patch_field_complete :: "record_ir \<Rightarrow> nat \<Rightarrow> pval option \<Rightarrow> bool" where
  "patch_field_complete R k u = (case u of
     None \<Rightarrow> False
   | Some p \<Rightarrow> is_external_tag_sibling R k \<or> (case cat R k of
         PathField S \<Rightarrow> pa_is_complete (ss_patch S) p
       | TaggedField t P \<Rightarrow> pa_is_complete (ps_patch P) p
       | OptionalField (OptPath S) \<Rightarrow> (case p of OptionPatch (Some q) \<Rightarrow> pa_is_complete (ss_patch S) q | _ \<Rightarrow> True)
       | _ \<Rightarrow> True))"

definition record_patch_complete :: "record_ir \<Rightarrow> pval \<Rightarrow> bool" where
  "record_patch_complete R p = (case p of
     RecordPatch ps \<Rightarrow> list_all (\<lambda>k. patch_field_complete R k (ps ! k)) [0..<field_count R] | _ \<Rightarrow> False)"

definition patch_field_from :: "record_ir \<Rightarrow> nat \<Rightarrow> lval \<Rightarrow> pval" where
  "patch_field_from R k v =
     (if is_external_tag_sibling R k then ValuePatch v else case cat R k of
        PathField S \<Rightarrow> pa_from (ss_patch S) v
      | TaggedField t P \<Rightarrow> pa_from (ps_patch P) v
      | OptionalField x \<Rightarrow> (case (x, v) of
          (OptPath S, OptionValue y) \<Rightarrow> OptionPatch (map_option (pa_from (ss_patch S)) y)
        | (OptArray n S, OptionValue y) \<Rightarrow> OptionPatch (map_option ValuePatch y)
        | _ \<Rightarrow> ValuePatch v)
      | _ \<Rightarrow> ValuePatch v)"

definition record_patch_from :: "record_ir \<Rightarrow> lval \<Rightarrow> pval" where
  "record_patch_from R v = (case v of
     RecordValue vs \<Rightarrow> RecordPatch (map (\<lambda>k. Some (patch_field_from R k (vs ! k))) [0..<field_count R])
   | _ \<Rightarrow> ValuePatch v)"

text \<open>
  The preflight of one field. A payload is coordinated with its tag sibling: a tag alone is refused, a tag
  that disagrees with the payload is refused, and a payload of another variant than the current one must be
  complete. An absent optional field must be given a complete inner patch.
\<close>

definition patch_preflight_field :: "env \<Rightarrow> record_ir \<Rightarrow> mode \<Rightarrow> nat \<Rightarrow> input \<Rightarrow> pval option list \<Rightarrow> (schema_error, unit) res" where
  "patch_preflight_field E R m k i ps =
     (let nm = ri_name R; f = fi_name (fld R k); off = field_value_offset E R k in
      if is_external_tag_sibling R k then Ok () else case cat R k of
        LeafField l \<Rightarrow> (case ps ! k of
            None \<Rightarrow> Ok ()
          | Some (ValuePatch (LeafValue x)) \<Rightarrow> (case l of
                Primitive en p \<Rightarrow> Ok ()
              | Bool \<Rightarrow> Ok ()
              | FixedBytes n \<Rightarrow> leaf_preflight E (field_errors nm f) l i x
              | _ \<Rightarrow> and_then (map_err (mutation_layout nm) (subrange E (leaf_wire E l) off i))
                   (\<lambda>selected. leaf_preflight E (field_errors nm f) l selected x))
          | _ \<Rightarrow> Panic)
      | ArrayField n e \<Rightarrow> (case ps ! k of
            None \<Rightarrow> Ok ()
          | Some (ValuePatch (ArrayValue xs)) \<Rightarrow>
              and_then (map_err (mutation_layout nm) (subrange E (array_layout n (element_wire E e)) off i)) (\<lambda>selected.
              preflight_elements E m (elem_of E nm f (n # element_dims e) e) selected xs)
          | _ \<Rightarrow> Panic)
      | PathField S \<Rightarrow> (case ps ! k of
            None \<Rightarrow> Ok ()
          | Some p \<Rightarrow> and_then (map_err (mutation_layout nm) (subrange E (ss_wire S) off i)) (\<lambda>child.
              map_err (\<lambda>_. mutation_field_kind nm f KCapacityExceeded) (pa_preflight (ss_patch S) m child p)))
      | TaggedField t P \<Rightarrow> (case (ps ! t, ps ! k) of
            (None, None) \<Rightarrow> Ok ()
          | (Some _, None) \<Rightarrow> Err (mutation_field_kind nm f TagOnlyPatch)
          | (tag, Some p) \<Rightarrow> and_then (ps_patch_tag P p) (\<lambda>target.
              if (case tag of None \<Rightarrow> False | Some v \<Rightarrow> v \<noteq> ValuePatch (EnumValue target))
              then Err (mutation_field_kind nm f TagMismatch)
              else and_then (map_err (mutation_layout nm) (subrange E (ps_wire P) off i)) (\<lambda>payload.
                case m of
                  Init \<Rightarrow> map_err (\<lambda>_. mutation_field_kind nm f IncompleteUnionSwitch) (ps_preflight_patch_init P payload p)
                | Replace \<Rightarrow>
                    and_then (read_tag E R t (mutation_layout nm) (\<lambda>e. mutation_access nm (access_child nm (fi_name (fld R t)) e)) i) (\<lambda>current.
                    map_err (\<lambda>_. mutation_field_kind nm f IncompleteUnionSwitch)
                      (if current = target then ps_preflight_patch P current payload p else ps_preflight_patch_init P payload p)))))
      | OptionalField x \<Rightarrow> (let A = option_of E nm f x (fi_align (fld R k)) in case ps ! k of
            None \<Rightarrow> Ok ()
          | Some (OptionPatch u) \<Rightarrow>
              and_then (map_err (mutation_layout nm) (subrange E (field_wire E (fld R k)) (field_offset E R k) i)) (\<lambda>storage.
              case u of
                None \<Rightarrow> Ok ()
              | Some q \<Rightarrow> (let fresh = (m = Init \<or> is_all_zero storage) in
                  and_then (map_err (mutation_layout nm) (subrange E (op_value A) (op_offset A) storage)) (\<lambda>child. case (x, q) of
                    (OptPath S, _) \<Rightarrow>
                      if fresh \<and> \<not> pa_is_complete (ss_patch S) q
                      then Err (mutation_field_kind nm f IncompleteOptionalInitialization)
                      else map_err (\<lambda>_. mutation_field_kind nm f KCapacityExceeded)
                        (pa_preflight (ss_patch S) (if fresh then Init else Replace) child q)
                  | (OptArray n S, ValuePatch (ArrayValue xs)) \<Rightarrow>
                      preflight_elements E (if fresh then Init else Replace) (path_elem_adapter E nm f [n] S) child xs
                  | _ \<Rightarrow> Panic)))
          | _ \<Rightarrow> Panic))"

definition patch_commit_field :: "env \<Rightarrow> record_ir \<Rightarrow> mode \<Rightarrow> nat \<Rightarrow> input \<Rightarrow> pval option list \<Rightarrow> (schema_error, input) res" where
  "patch_commit_field E R m k i ps =
     (let nm = ri_name R; f = fi_name (fld R k); off = field_value_offset E R k in
      if is_external_tag_sibling R k then Ok i else case ps ! k of None \<Rightarrow> Ok i | Some p \<Rightarrow> (case cat R k of
        LeafField l \<Rightarrow> (case p of
            ValuePatch (LeafValue x) \<Rightarrow> commit_at E (leaf_wire E l) off (\<lambda>selected. leaf_commit E l selected x) i
          | _ \<Rightarrow> Panic)
      | ArrayField n e \<Rightarrow> (case p of
            ValuePatch (ArrayValue xs) \<Rightarrow> commit_at E (array_layout n (element_wire E e)) off
              (\<lambda>selected. commit_elements E m (elem_of E nm f (n # element_dims e) e) selected xs) i
          | _ \<Rightarrow> Panic)
      | PathField S \<Rightarrow> commit_at E (ss_wire S) off (\<lambda>child. pa_commit (ss_patch S) m child p) i
      | TaggedField t P \<Rightarrow>
          and_then (ps_patch_tag P p) (\<lambda>target. case m of
              Init \<Rightarrow> switch_tag E R k t P target i (\<lambda>payload. pa_commit (ps_patch P) Init payload p)
            | Replace \<Rightarrow> and_then (or_unreachable (read_tag E R t (mutation_layout nm) id i)) (\<lambda>current.
                if target = current then commit_at E (ps_wire P) off (\<lambda>payload. pa_commit (ps_patch P) Replace payload p) i
                else switch_tag E R k t P target i (\<lambda>payload. pa_commit (ps_patch P) Init payload p)))
      | OptionalField x \<Rightarrow> (let A = option_of E nm f x (fi_align (fld R k)) in
          commit_at E (field_wire E (fld R k)) (field_offset E R k) (\<lambda>storage. case p of
              OptionPatch None \<Rightarrow> Ok (option_clear storage)
            | OptionPatch (Some q) \<Rightarrow> (let fresh = (m = Init \<or> is_all_zero storage) in
                commit_at E (op_value A) (op_offset A) (\<lambda>child. case (x, q) of
                    (OptPath S, _) \<Rightarrow> pa_commit (ss_patch S) (if fresh then Init else Replace) child q
                  | (OptArray n S, ValuePatch (ArrayValue xs)) \<Rightarrow>
                      commit_elements E (if fresh then Init else Replace) (path_elem_adapter E nm f [n] S) child xs
                  | _ \<Rightarrow> Panic) storage)
            | _ \<Rightarrow> Panic) i)))"

definition record_patch_preflight :: "env \<Rightarrow> record_ir \<Rightarrow> mode \<Rightarrow> input \<Rightarrow> pval \<Rightarrow> (schema_error, unit) res" where
  "record_patch_preflight E R m i p = (case p of
     RecordPatch ps \<Rightarrow> for_each (\<lambda>k. patch_preflight_field E R m k i ps) [0..<field_count R] | _ \<Rightarrow> Panic)"

definition record_patch_commit :: "env \<Rightarrow> record_ir \<Rightarrow> mode \<Rightarrow> input \<Rightarrow> pval \<Rightarrow> (schema_error, input) res" where
  "record_patch_commit E R m i p = (case p of
     RecordPatch ps \<Rightarrow> commit_fields (\<lambda>k i. patch_commit_field E R m k i ps) [0..<field_count R] i | _ \<Rightarrow> Panic)"

text \<open>
  The intended result of a patch, field by field: a field without update keeps its value, a payload's
  update also gives its tag sibling the variant's tag, an update of an absent optional field starts from
  nothing.
\<close>

definition field_patched :: "record_ir \<Rightarrow> pval option list \<Rightarrow> nat \<Rightarrow> lval option \<Rightarrow> lval option" where
  "field_patched R ps k b = (case ps ! k of
     Some p \<Rightarrow> (let whole = (case p of ValuePatch v \<Rightarrow> Some v | _ \<Rightarrow> None) in
       if is_external_tag_sibling R k then whole else case cat R k of
         PathField S \<Rightarrow> pa_patched (ss_patch S) p b
       | TaggedField t P \<Rightarrow> pa_patched (ps_patch P) p b
       | OptionalField x \<Rightarrow> (case p of
           OptionPatch None \<Rightarrow> Some (OptionValue None)
         | OptionPatch (Some q) \<Rightarrow> map_option (\<lambda>v. OptionValue (Some v)) (case (x, q) of
             (OptPath S, _) \<Rightarrow> pa_patched (ss_patch S) q (case b of Some (OptionValue y) \<Rightarrow> y | _ \<Rightarrow> None)
           | (_, ValuePatch v) \<Rightarrow> Some v
           | _ \<Rightarrow> None)
         | _ \<Rightarrow> None)
       | _ \<Rightarrow> whole)
   | None \<Rightarrow> (case find (\<lambda>j. case cat R j of TaggedField t P \<Rightarrow> t = k \<and> ps ! j \<noteq> None | _ \<Rightarrow> False) [0..<field_count R] of
       None \<Rightarrow> b
     | Some j \<Rightarrow> (case (cat R j, ps ! j) of
         (TaggedField t P, Some p) \<Rightarrow> (case ps_patch_tag P p of Ok tag \<Rightarrow> Some (EnumValue tag) | _ \<Rightarrow> None)
       | _ \<Rightarrow> None)))"

definition record_patched :: "record_ir \<Rightarrow> pval \<Rightarrow> lval option \<Rightarrow> lval option" where
  "record_patched R p b = (case p of
     RecordPatch ps \<Rightarrow>
       (let vs = map (\<lambda>k. field_patched R ps k (case b of Some (RecordValue bs) \<Rightarrow> Some (bs ! k) | _ \<Rightarrow> None)) [0..<field_count R] in
        if list_all (\<lambda>v. v \<noteq> None) vs then Some (RecordValue (map the vs)) else None)
   | _ \<Rightarrow> None)"

definition record_patch_ops :: "env \<Rightarrow> record_ir \<Rightarrow> patch_ops" where
  "record_patch_ops E R = \<lparr>pa_ok = record_patch_ok R, pa_is_complete = record_patch_complete R,
     pa_preflight = record_patch_preflight E R, pa_commit = record_patch_commit E R,
     pa_from = record_patch_from R, pa_patched = record_patched R\<rparr>"

section \<open>The record support\<close>

definition record_support :: "env \<Rightarrow> record_ir \<Rightarrow> schema_support" where
  "record_support E R = \<lparr>ss_name = ri_name R, ss_wire = record_wire E R, ss_val_ok = record_val_ok R,
     ss_validate = record_validate E R, ss_make_ref = (\<lambda>i. Ok (SpanView i)), ss_materialize = record_copy_into E R,
     ss_preflight = record_preflight E R, ss_commit = record_commit E R,
     ss_zero_state = wire_type_state ss_zero_state ps_zero_state R,
     ss_clear_state = wire_type_state ss_clear_state ps_clear_state R,
     ss_zero_is_valid = wire_type_zero_is_valid R, ss_patch = record_patch_ops E R\<rparr>"

text \<open>\<open>clear()\<close> of a record capability; its bound makes it exist only for a clearable record.\<close>

definition record_clear :: "input \<Rightarrow> input" where
  "record_clear i = clear_all i"

section \<open>Field mutators\<close>

text \<open>
  The \<open>field_mut\<close> methods: the short reborrow a field handle holds, with the proof the handle's constructor
  makes of it (the three leaf handles make the same one). There is none for a tag field.
\<close>

definition field_mutator :: "env \<Rightarrow> record_ir \<Rightarrow> nat \<Rightarrow> input \<Rightarrow> (schema_error, input) res" where
  "field_mutator E R k i =
     (let nm = ri_name R; f = fi_name (fld R k); off = field_value_offset E R k in case cat R k of
        LeafField l \<Rightarrow> and_then (or_unreachable (subrange_mut E (leaf_wire E l) off i)) (\<lambda>input.
          or_unreachable (scalar_mut_prove E (leaf_adapter E (field_errors nm f) l) input))
      | PathField S \<Rightarrow> and_then (or_unreachable (subrange_mut E (ss_wire S) off i)) (\<lambda>input.
          or_unreachable (ss_prove_mut E S input))
      | TaggedField t P \<Rightarrow> and_then (or_unreachable (read_tag E R t (access_layout nm) id i)) (\<lambda>tag.
          and_then (or_unreachable (mut_prove_at E P i tag off)) (\<lambda>sel. Ok (sel_payload sel)))
      | ArrayField n e \<Rightarrow> and_then (or_unreachable (subrange_mut E (array_layout n (element_wire E e)) off i)) (\<lambda>input.
          and_then (or_unreachable (array_mut_prove E (elem_of E nm f (n # element_dims e) e) n input)) (\<lambda>h. Ok (am_input h)))
      | OptionalField x \<Rightarrow> and_then (or_unreachable (subrange_mut E (field_wire E (fld R k)) (field_offset E R k) i)) (\<lambda>input.
          or_unreachable (option_mut_prove E (option_of E nm f x (fi_align (fld R k))) input)))"

section \<open>Well-formed declarations\<close>

fun category_ok :: "env \<Rightarrow> record_ir \<Rightarrow> category \<Rightarrow> bool" where
  "category_ok E R (LeafField l) \<longleftrightarrow> leaf_ok l"
| "category_ok E R (PathField S) \<longleftrightarrow> schema_contract E True S"
| "category_ok E R (TaggedField t P) \<longleftrightarrow> payload_contract E True P \<and> t < field_count R \<and>
     (\<exists>D. enum_ok D \<and> cat R t = PathField (enum_support E D) \<and> set (ps_tags P) \<subseteq> set (en_discs D))"
| "category_ok E R (ArrayField n e) \<longleftrightarrow> 0 < n \<and> element_ok E e"
| "category_ok E R (OptionalField (OptPath S)) \<longleftrightarrow> schema_contract E True S \<and> ss_zero_state S = ZeroInvalid"
| "category_ok E R (OptionalField (OptArray n S)) \<longleftrightarrow> 0 < n \<and> schema_contract E True S \<and> ss_zero_state S = ZeroInvalid"

text \<open>
  What analysis, the type bounds and the generated assertions guarantee: at least one field, admissible
  alignments, children that meet their contracts, optional inners that are never all zero, nonzero array
  lengths, and payloads whose tag field is a scalar enum that no other payload names and that declares
  every variant's tag.
\<close>

definition record_ok :: "env \<Rightarrow> record_ir \<Rightarrow> bool" where
  "record_ok E R \<longleftrightarrow> env_ok E \<and> ri_fields R \<noteq> [] \<and> align_ok (ri_align R) \<and>
     (\<forall>k < field_count R. align_ok (fi_align (fld R k)) \<and> category_ok E R (cat R k)) \<and>
     (\<forall>j < field_count R. \<forall>k < field_count R. \<forall>t P Q. cat R j = TaggedField t P \<and> cat R k = TaggedField t Q \<longrightarrow> j = k)"

lemma record_okD:
  assumes "record_ok E R"
  shows "env_ok E" "align_ok (ri_align R)" "k < field_count R \<Longrightarrow> align_ok (fi_align (fld R k))"
    "k < field_count R \<Longrightarrow> category_ok E R (cat R k)"
    "j < field_count R \<Longrightarrow> k < field_count R \<Longrightarrow> cat R j = TaggedField t P \<Longrightarrow> cat R k = TaggedField t Q \<Longrightarrow> j = k"
  using assms by (auto simp: record_ok_def)

lemma record_passes:
  "record_preflight E R m i (RecordValue vs) = for_each (\<lambda>k. preflight_field E R m k i vs) [0..<field_count R]"
  "record_commit E R m i (RecordValue vs) = commit_fields (\<lambda>k i. commit_field E R m k i vs) [0..<field_count R] i"
  by (cases m; simp add: record_preflight_def record_commit_def logical_preflight_field_def logical_init_preflight_field_def
      logical_commit_field_def logical_init_commit_field_def)+

section \<open>Geometry\<close>

lemma wf_element_wire: "env_ok E \<Longrightarrow> element_ok E e \<Longrightarrow> wf_layout (element_wire E e)"
  by (induction e) (auto intro: schema_contract.wf_wire)

lemma wf_category_wire:
  assumes "env_ok E" "category_ok E R c"
  shows "wf_layout (category_wire E c)"
proof (cases c)
  case (OptionalField x)
  then show ?thesis using assms by (cases x) (auto intro: schema_contract.wf_wire wf_array_layout)
qed (use assms in \<open>auto intro: schema_contract.wf_wire payload_contract.wf_wire wf_element_wire wf_array_layout\<close>)

lemma sub_input_sub_input: "b + wl_size g \<le> wl_size f \<Longrightarrow> sub_input g b (sub_input f a i) = sub_input g (a + b) i"
  by (simp add: sub_input_def add.assoc)

abbreviation "seg E R k i \<equiv> sub_input (field_wire E (fld R k)) (field_offset E R k) i"
abbreviation "vspan E R k i \<equiv> sub_input (category_wire E (cat R k)) (field_value_offset E R k) i"
abbreviation "record_input E R i \<equiv> input_ok E i \<and> i_wire i = record_wire E R"

lemma wf_fields: "record_ok E R \<Longrightarrow> \<forall>l \<in> set (map (field_wire E) (ri_fields R)). wf_layout l"
  using record_okD(1,3,4) wf_category_wire
  by (force simp: field_wire_def in_set_conv_nth intro!: wf_storage_wire)

lemma wf_base_wire: "record_ok E R \<Longrightarrow> wf_layout (base_wire E R)"
  using wf_fields by (simp add: base_wire_def)

lemma wf_record_wire: "record_ok E R \<Longrightarrow> wf_layout (record_wire E R)"
  using wf_base_wire record_okD(2) by (simp add: record_wire_def wf_storage_wire)

lemma field_fits_record:
  assumes "record_ok E R" "k < field_count R"
  shows "field_fits (field_wire E (fld R k)) (field_offset E R k) (record_wire E R)"
proof -
  have "field_fits (field_wire E (fld R k)) (place 0 (map (field_wire E) (ri_fields R)) ! k) (base_wire E R)"
    using repr_c_field_fits [OF wf_fields [OF assms(1)], of k] assms(2) by (simp add: base_wire_def)
  then show ?thesis
    using field_fits_trans value_fits_storage [OF wf_base_wire [OF assms(1)] record_okD(2) [OF assms(1)]]
    by (simp add: field_offset_def record_wire_def)
qed

lemma value_fits_field:
  assumes "record_ok E R" "k < field_count R"
  shows "field_fits (category_wire E (cat R k)) (value_offset (category_wire E (cat R k)) (fi_align (fld R k))) (field_wire E (fld R k))"
  unfolding field_wire_def using record_okD [OF assms(1)] assms(2) by (intro value_fits_storage wf_category_wire)

lemma value_fits_record:
  "record_ok E R \<Longrightarrow> k < field_count R \<Longrightarrow> field_fits (category_wire E (cat R k)) (field_value_offset E R k) (record_wire E R)"
  using field_fits_trans [OF value_fits_field field_fits_record] by (simp add: field_value_offset_def)

lemma vspan_of_seg:
  assumes "record_ok E R" "k < field_count R"
  shows "vspan E R k i = sub_input (category_wire E (cat R k)) (value_offset (category_wire E (cat R k)) (fi_align (fld R k))) (seg E R k i)"
  using value_fits_field [OF assms] by (simp add: field_value_offset_def field_fits_def sub_input_sub_input)

lemma seg_disjoint:
  assumes "record_ok E R" "j < field_count R" "k < field_count R" "j \<noteq> k"
  shows "disjoint_spans (field_offset E R j) (wl_size (field_wire E (fld R j))) (field_offset E R k) (wl_size (field_wire E (fld R k)))"
  using place_disjoint [OF wf_fields [OF assms(1)], of j k 0] place_disjoint [OF wf_fields [OF assms(1)], of k j 0] assms(2-4)
  by (auto simp: disjoint_spans_def field_offset_def linorder_neq_iff)

lemma select_field:
  assumes "record_ok E R" "record_input E R i" "k < field_count R"
  shows "subrange E (field_wire E (fld R k)) (field_offset E R k) i = Ok (seg E R k i)" "input_ok E (seg E R k i)"
    "subrange E (category_wire E (cat R k)) (field_value_offset E R k) i = Ok (vspan E R k i)" "input_ok E (vspan E R k i)"
    "field_offset E R k + wl_size (field_wire E (fld R k)) \<le> length (i_bytes i)"
    "field_value_offset E R k + wl_size (category_wire E (cat R k)) \<le> length (i_bytes i)"
  using assms(2) field_fits_record [OF assms(1,3)] value_fits_record [OF assms(1,3)] record_okD(1) [OF assms(1)]
  by (auto simp: subrange_Ok sub_input_ok input_ok_length field_fits_def)

lemma record_input_span: "same_span i j \<Longrightarrow> record_input E R i \<Longrightarrow> record_input E R j"
  by (auto intro: same_span_input_ok dest: same_span_wire)

lemma write_seg:
  assumes "record_ok E R" "record_input E R i" "k < field_count R" "same_span (seg E R k i) c"
  shows "same_span i (write_back (field_offset E R k) c i)" "seg E R k (write_back (field_offset E R k) c i) = c"
    "j < field_count R \<Longrightarrow> j \<noteq> k \<Longrightarrow> seg E R j (write_back (field_offset E R k) c i) = seg E R j i"
proof -
  note sel = select_field [OF assms(1-3)]
  show "same_span i (write_back (field_offset E R k) c i)" "seg E R k (write_back (field_offset E R k) c i) = c"
    using write_back_same_span [OF assms(4) sel(5)] sub_input_write_back [OF assms(4) sel(5)] by blast+
  show "seg E R j (write_back (field_offset E R k) c i) = seg E R j i" if "j < field_count R" "j \<noteq> k"
    using sub_input_write_back_other [OF assms(4) sel(5) select_field(5) [OF assms(1,2) that(1)]]
      seg_disjoint [OF assms(1) that(1) assms(3) that(2)] by (simp add: disjoint_spans_def)
qed

lemma write_value:
  assumes "record_ok E R" "record_input E R i" "k < field_count R" "same_span (vspan E R k i) c"
  shows "same_span i (write_back (field_value_offset E R k) c i)" "vspan E R k (write_back (field_value_offset E R k) c i) = c"
    "j < field_count R \<Longrightarrow> j \<noteq> k \<Longrightarrow> seg E R j (write_back (field_value_offset E R k) c i) = seg E R j i"
proof -
  note sel = select_field [OF assms(1-3)]
  show "same_span i (write_back (field_value_offset E R k) c i)" "vspan E R k (write_back (field_value_offset E R k) c i) = c"
    using write_back_same_span [OF assms(4) sel(6)] sub_input_write_back [OF assms(4) sel(6)] by blast+
  show "seg E R j (write_back (field_value_offset E R k) c i) = seg E R j i" if "j < field_count R" "j \<noteq> k"
  proof -
    have "disjoint_spans (field_offset E R j) (wl_size (field_wire E (fld R j)))
        (field_value_offset E R k) (wl_size (category_wire E (cat R k)))"
      using seg_disjoint [OF assms(1) that(1) assms(3) that(2)] value_fits_field [OF assms(1,3)]
      by (auto simp: disjoint_spans_def field_value_offset_def field_fits_def)
    then show ?thesis
      using sub_input_write_back_other [OF assms(4) sel(6) select_field(5) [OF assms(1,2) that(1)]]
      by (simp add: disjoint_spans_def)
  qed
qed

end
