(* ===== verification/Zs_Record_Laws.thy ===== *)
theory Zs_Record_Laws
  imports Zs_Record
begin

text \<open>
  Generated records meet the schema contract: each field's proof, read, preflight and commit is the
  operation of its category on the field's own span, commits of different fields touch disjoint spans, and
  therefore a record built from supports that meet the contract meets it too. The same argument over the
  derivation of a schema gives the contract for every schema the macro can generate.
\<close>

section \<open>Leaves at an offset\<close>

lemma read_copy_sub:
  assumes "env_ok E" "input_ok E i" "field_fits w off (i_wire i)" "field_fits p b w"
  shows "read_copy E p (off + b) i = read_copy E p b (sub_input w off i)"
proof -
  have "field_fits p (off + b) (i_wire i)" using field_fits_trans [OF assms(4,3)] by simp
  then show ?thesis
    using assms sub_input_ok [OF assms(2,3)] by (simp add: read_copy_Ok field_fits_def)
qed

lemma subrange_bytes_sub:
  assumes "input_ok E i" "field_fits w off (i_wire i)" "b + n \<le> wl_size w"
  shows "subrange_bytes E (off + b) n i = subrange_bytes E b n (sub_input w off i)"
proof -
  have "off + b + n \<le> length (i_bytes i)" using assms by (simp add: field_fits_def input_ok_length)
  moreover have "b + n \<le> length (i_bytes (sub_input w off i))"
    using assms(3) input_ok_length [OF sub_input_ok [OF assms(1,2)]] by simp
  ultimately show ?thesis
    using assms sub_input_ok [OF assms(1,2)] by (simp add: subrange_bytes_Ok)
qed

lemma leaf_read_at_eq:
  assumes "env_ok E" "input_ok E i" "field_fits (leaf_wire E l) off (i_wire i)"
  shows "leaf_read_at E er l off i = leaf_read E er l (sub_input (leaf_wire E l) off i)"
proof -
  note rc = read_copy_sub [OF assms, of _ 0, simplified] and sb = subrange_bytes_sub [OF assms(2,3)]
  note sb0 = sb [of 0, simplified]
  show ?thesis
  proof (cases l)
    case (Primitive en p)
    then show ?thesis using rc [of "prim_layout E p"] assms(1) by (simp add: leaf_read.simps)
  next
    case Bool
    then show ?thesis using rc [of "bytes_layout 1"] by (simp add: leaf_read.simps)
  next
    case (BorrowedStr r en n)
    then show ?thesis
      using rc [of "prim_layout E (repr_prim r)"] sb [of "str_data_offset E r n" n] str_prefix_fits [OF assms(1)]
        str_layout_bound [OF assms(1), of r n] assms(1) by (simp add: leaf_read.simps)
  next
    case (BorrowedCStr n)
    then show ?thesis using sb0 [of n] by (simp add: leaf_read.simps)
  next
    case (BorrowedU16Str r en n)
    then show ?thesis
      using rc [of "prim_layout E (repr_prim r)"] sb [of "u16_str_data_offset E r n" "n * 2"] u16_str_prefix_fits [OF assms(1)]
        u16_str_layout_bound [OF assms(1), of r n] by (simp add: leaf_read.simps mult.commute)
  next
    case (BorrowedU16CStr n)
    then show ?thesis
      using sb0 [of "n * 2"] u16_c_str_layout_eq(1) [OF assms(1), of n] by (simp add: leaf_read.simps mult.commute)
  next
    case (FixedBytes n)
    then show ?thesis using sb0 [of n] by (simp add: leaf_read.simps bytes_layout_def)
  qed
qed

section \<open>Element loops\<close>

lemma preflight_elements_law:
  assumes "element_contract E True A val_ok shows_val" "input_ok E i" "i_wire i = array_layout n (el_wire A)"
    "length vs = n" "\<forall>v \<in> set vs. val_ok v" "m = Init \<or> array_proved E A n i"
  shows "preflight_elements E m A i vs \<noteq> Panic"
    and "preflight_elements E m A i vs = Ok () \<Longrightarrow> \<exists>c. commit_elements E m A i vs = Ok c \<and> same_span i c \<and>
      array_proved E A n c \<and> (\<forall>k < n. \<exists>r. array_ref_get E A n c k = Ok (Some r) \<and> shows_val r (vs ! k))"
proof -
  from assms(1) have layout: "element_layout E True A" by (simp add: element_contract_def)
  note sel = element_layout.select [OF layout TrueI assms(2,3)]
  have val: "val_ok (vs ! k)" if "k < n" for k using that assms(4,5) by simp
  have proved: "m = Replace \<Longrightarrow> el_prove A k (array_elem A i k) = Ok ()" if "k < n" for k
    using that assms(6) by (auto simp: array_proved_def)
  have total: "el_preflight_in m A k (array_elem A i k) (vs ! k) \<noteq> Panic" if "k < n" for k
    using that sel(3,4) val proved element_contract.preflight_total [OF assms(1) TrueI] element_contract.init_total [OF assms(1) TrueI]
    by (cases m) auto
  have g: "map_err (mutation_layout (el_owner A)) (element_input_result E A i k) = Ok (array_elem A i k)" if "k < n" for k
    using sel(1) [OF that] by simp
  note walk = element_contract.preflight_walk [OF assms(1) TrueI assms(2-4), where pos = id and pre = "el_preflight_in m A"
      and g = "map_err (mutation_layout (el_owner A))", unfolded id_apply, OF total g, folded preflight_elements_def]
  show "preflight_elements E m A i vs \<noteq> Panic" using walk(2) .
  assume "preflight_elements E m A i vs = Ok ()"
  then have pre: "el_preflight_in m A k (array_elem A i k) (vs ! k) = Ok ()" if "k < n" for k
    using walk(1) that by blast
  have "\<exists>c. el_commit_in m A k (array_elem A i k) (vs ! k) = Ok c \<and> same_span (array_elem A i k) c \<and>
      el_prove A k c = Ok () \<and> (\<forall>k'. \<exists>r. el_read A k' c = Ok r \<and> shows_val r (vs ! k))" if "k < n" for k
    using pre [OF that] sel(3,4) [OF that] val [OF that] proved [OF that]
      element_contract.commit_law [OF assms(1) TrueI, of "array_elem A i k" "vs ! k" k]
      element_contract.init_law [OF assms(1) TrueI, of "array_elem A i k" "vs ! k" k]
    by (cases m) auto
  from element_contract.row_of_commits [OF assms(1) TrueI assms(2-4), where pos = id and commit = "el_commit_in m A", unfolded id_apply, OF this]
  show "\<exists>c. commit_elements E m A i vs = Ok c \<and> same_span i c \<and> array_proved E A n c \<and>
      (\<forall>k < n. \<exists>r. array_ref_get E A n c k = Ok (Some r) \<and> shows_val r (vs ! k))"
    unfolding commit_elements_def by blast
qed

section \<open>Optional fields\<close>

lemma option_path_contract:
  assumes "env_ok E" "align_ok a" "schema_contract E True S" "ss_zero_state S = ZeroInvalid"
  shows "option_contract E True (option_of E nm f (OptPath S) a) (ss_val_ok S) (\<lambda>r v. ss_materialize S r = Ok v)"
proof (rule option_contract.intro)
  let ?A = "option_of E nm f (OptPath S) a"
  show "env_ok E" by (rule assms(1))
  show "field_fits (op_value ?A) (op_offset ?A) (op_storage ?A)"
    using assms(2) schema_contract.wf_wire [OF assms(3) TrueI] by (simp add: option_of_def value_fits_storage)
  fix v x
  assume v: "input_ok E v" "i_wire v = op_value ?A"
  then have w: "i_wire v = ss_wire S" by (simp add: option_of_def)
  have valid: "op_validate ?A j = Ok () \<longleftrightarrow> ss_validate S j = Ok ()" for j by (auto simp: option_of_def ss_prove_def)
  show "op_validate ?A v \<noteq> Panic"
    using schema_contract.validate_total [OF assms(3) TrueI v(1) w] by (simp add: option_of_def ss_prove_def)
  show "op_validate ?A v = Ok () \<Longrightarrow> (\<exists>r. op_read ?A v = Ok r) \<and> op_make_mut ?A v = Ok v"
    using valid [of v] schema_contract.proved_reads [OF assms(3) TrueI v(1) w] assms(1) v(1)
    by (auto simp: option_of_def ss_prove_def ss_prove_mut_def shared_Ok)
  show "op_validate ?A v = Ok () \<Longrightarrow> \<not> is_all_zero v"
    using valid [of v] schema_contract.option_inner_never_zero [OF assms(3) TrueI v(1) w assms(4)] by blast
  assume x: "ss_val_ok S x"
  show "op_preflight_init ?A v x \<noteq> Panic"
    using schema_contract.preflight_total [OF assms(3) TrueI v(1) w x, of Init] by (simp add: option_of_def)
  show "\<exists>c r. op_commit_init ?A v x = Ok c \<and> same_span v c \<and> op_validate ?A c = Ok () \<and> op_read ?A c = Ok r \<and> ss_materialize S r = Ok x"
    if pre: "op_preflight_init ?A v x = Ok ()"
  proof -
    obtain c where "ss_commit S Init v x = Ok c" "same_span v c" "ss_validate S c = Ok ()" "ss_logical S c = Ok x"
      using schema_contract.commit_law [OF assms(3) TrueI v(1) w x, of Init] pre by (auto simp: option_of_def)
    then show ?thesis by (auto simp: option_of_def ss_prove_def ss_logical_def)
  qed
qed

lemma option_array_contract:
  assumes "env_ok E" "align_ok a" "0 < n" "schema_contract E True S" "ss_zero_state S = ZeroInvalid"
  shows "option_contract E True (option_of E nm f (OptArray n S) a) (inner_val_ok (OptArray n S))
    (\<lambda>r v. inner_value E nm f (OptArray n S) r = Ok v)"
proof (rule option_contract.intro)
  let ?A = "option_of E nm f (OptArray n S) a" and ?B = "path_elem_adapter E nm f [n] S"
  note c = path_contract [OF assms(4), of nm f "[n]"]
  have [simp]: "el_wire ?B = ss_wire S" by (simp add: path_elem_adapter_def)
  show "env_ok E" by (rule assms(1))
  show "field_fits (op_value ?A) (op_offset ?A) (op_storage ?A)"
    using assms(2) schema_contract.wf_wire [OF assms(4) TrueI] by (simp add: option_of_def Let_def value_fits_storage)
  fix v x
  assume v: "input_ok E v" "i_wire v = op_value ?A"
  then have w: "i_wire v = array_layout n (el_wire ?B)" by (simp add: option_of_def Let_def)
  note prove = element_contract.ref_prove_iff [OF c TrueI v(1) w] element_contract.mut_prove_iff(1) [OF c TrueI v(1) w]
  show "op_validate ?A v \<noteq> Panic" using prove(2) by (simp add: option_of_def Let_def)
  show "op_validate ?A v = Ok () \<Longrightarrow> (\<exists>r. op_read ?A v = Ok r) \<and> op_make_mut ?A v = Ok v"
    using prove(1,3) by (auto simp: option_of_def Let_def array_mut_prove_def)
  show "op_validate ?A v = Ok () \<Longrightarrow> \<not> is_all_zero v"
  proof
    assume "op_validate ?A v = Ok ()" and zero: "is_all_zero v"
    then have proved: "array_proved E ?B n v" using prove(1) by (auto simp: option_of_def Let_def)
    note pe = element_contract.proved_elem [OF c TrueI proved assms(3)]
    have "is_all_zero (array_elem ?B v 0)" using zero by (simp add: is_all_zero_def array_elem_def all_zero_slice)
    moreover have "ss_validate S (array_elem ?B v 0) = Ok ()"
      using pe(3) [of 0] by (auto simp: path_elem_adapter_def ss_prove_def)
    ultimately show False
      using schema_contract.option_inner_never_zero [OF assms(4) TrueI pe(1) _ assms(5)] pe(2) by simp
  qed
  assume x: "inner_val_ok (OptArray n S) x"
  then obtain vs where vs: "x = ArrayValue vs" "length vs = n" "\<forall>v \<in> set vs. ss_val_ok S v"
    by (auto simp: list_all_iff split: lval.splits)
  note law = preflight_elements_law [OF c v(1) w vs(2,3), of Init, simplified]
  show "op_preflight_init ?A v x \<noteq> Panic" using law(1) vs(1) by (simp add: option_of_def Let_def)
  show "\<exists>c r. op_commit_init ?A v x = Ok c \<and> same_span v c \<and> op_validate ?A c = Ok () \<and> op_read ?A c = Ok r \<and>
      inner_value E nm f (OptArray n S) r = Ok x"
    if pre: "op_preflight_init ?A v x = Ok ()"
  proof -
    obtain d where d: "commit_elements E Init ?B v vs = Ok d" "same_span v d" "array_proved E ?B n d"
      "\<forall>k < n. \<exists>r. array_ref_get E ?B n d k = Ok (Some r) \<and> ss_materialize S r = Ok (vs ! k)"
      using law(2) pre vs(1) by (auto simp: option_of_def Let_def)
    have "array_ref_prove E ?B n d = Ok d"
      using element_contract.ref_prove_iff(1) [OF c TrueI element_contract.proved_span [OF c d(3)]] d(3) by blast
    then show ?thesis
      using d(1,2) vs(1) materialize_array_Ok [OF vs(2) d(4)] by (simp add: option_of_def Let_def)
  qed
qed

lemma option_of_contract:
  assumes "env_ok E" "align_ok a" "category_ok E R (OptionalField x)"
  shows "option_contract E True (option_of E nm f x a) (inner_val_ok x) (\<lambda>r v. inner_value E nm f x r = Ok v)"
proof (cases x)
  case (OptPath S)
  then show ?thesis using option_path_contract [OF assms(1,2), of S nm f] assms(3) by (simp add: inner_val_ok.simps(1) [abs_def])
next
  case (OptArray n S)
  then show ?thesis using option_array_contract [OF assms(1,2), of n S nm f] assms(3) by simp
qed

lemma option_of_wires [simp]:
  "op_storage (option_of E nm f x a) = storage_wire (inner_wire x) a" "op_value (option_of E nm f x a) = inner_wire x"
  "op_owner (option_of E nm f x a) = nm" "op_offset (option_of E nm f x a) = value_offset (inner_wire x) a"
  by (cases x; simp add: option_of_def Let_def)+

lemma option_proved_value:
  assumes "env_ok E" "category_ok E R (OptionalField x)" "input_ok E v" "i_wire v = inner_wire x"
    "op_validate (option_of E nm f x a) v = Ok ()"
  shows "\<exists>r y. op_read (option_of E nm f x a) v = Ok r \<and> inner_value E nm f x r = Ok y"
proof (cases x)
  case (OptPath S)
  then show ?thesis
    using assms schema_contract.proved_reads [of E True S v] by (auto simp: option_of_def ss_prove_def)
next
  case (OptArray n S)
  let ?e = "PathElem S" and ?B = "path_elem_adapter E nm f [n] S"
  have S: "schema_contract E True S" "element_ok E ?e" using assms(2) OptArray by simp_all
  note c = path_contract [OF S(1), of nm f "[n]"]
  have w: "i_wire v = array_layout n (el_wire ?B)" using assms(4) OptArray by (simp add: path_elem_adapter_def)
  note iff = element_contract.ref_prove_iff(1) [OF c TrueI assms(3) w]
  have proved: "array_proved E ?B n v" using assms(5) iff OptArray by (auto simp: option_of_def Let_def)
  have "nested_elements E True ?B (ss_val_ok S) (\<lambda>r v. ss_materialize S r = Ok v)"
    using c by (simp add: nested_elements_def)
  then have "el_prove (elem_of E nm f [n] (RowElem n ?e)) 0 v = Ok ()"
    using nested_elements.row_prove_iff(1) [of E True ?B _ _ v n 0] assms(3) w proved by (simp add: relabel_def nested_adapter_def)
  then have "\<exists>r y. el_read (elem_of E nm f [n] (RowElem n ?e)) 0 v = Ok r \<and> elem_value E nm f [n] (RowElem n ?e) r = Ok y"
    using proved_elem_value [of E "RowElem n ?e" v nm f "[n]" 0 0] assms(1-4) OptArray by (simp del: elem_of.simps elem_value.simps)
  moreover have "elem_value E nm f [n] ?e = ss_materialize S" by (rule ext) simp
  ultimately show ?thesis
    using iff proved OptArray by (auto simp: relabel_def nested_adapter_def option_of_def Let_def)
qed

section \<open>Fields as operations on their spans\<close>

lemma leaf_field_eqs:
  assumes "record_ok E R" "record_input E R i" "k < field_count R" "cat R k = LeafField l"
  shows "proof_field E R k i = Ok () \<longleftrightarrow> (\<exists>x. leaf_read E (field_errors (ri_name R) (fi_name (fld R k))) l (vspan E R k i) = Ok x)"
    "proof_field E R k i \<noteq> Panic"
    "materialized_field E R k i =
      and_then (or_unreachable (leaf_read E (field_errors (ri_name R) (fi_name (fld R k))) l (vspan E R k i))) (\<lambda>x. Ok (LeafValue x))"
proof -
  let ?er = "field_errors (ri_name R) (fi_name (fld R k))"
  note sel = select_field [OF assms(1-3)] and E = record_okD(1) [OF assms(1)]
  have w: "i_wire (vspan E R k i) = leaf_wire E l" using assms(4) by simp
  have at: "leaf_read_at E ?er l (field_value_offset E R k) i = leaf_read E ?er l (vspan E R k i)"
    using leaf_read_at_eq [OF E, of i l] value_fits_record [OF assms(1,3)] assms(2,4) by simp
  have total: "leaf_read E ?er l (vspan E R k i) \<noteq> Panic" using leaf_read_total [OF E sel(4) w] .
  have prim: "\<exists>x. leaf_read E ?er l (vspan E R k i) = Ok x" if "(\<exists>en p. l = Primitive en p) \<or> (\<exists>n. l = FixedBytes n)"
    using that read_prim_eq [OF E sel(4)] read_bytes_eq [OF sel(4)] w by auto
  show "proof_field E R k i = Ok () \<longleftrightarrow> (\<exists>x. leaf_read E ?er l (vspan E R k i) = Ok x)" "proof_field E R k i \<noteq> Panic"
    using assms(4) at total prim by (cases l; auto simp: proof_field_def Let_def simp del: leaf_read_at.simps leaf_read.simps leaf_wire.simps)+
  show "materialized_field E R k i = and_then (or_unreachable (leaf_read E ?er l (vspan E R k i))) (\<lambda>x. Ok (LeafValue x))"
    using assms(4) at total by (cases "leaf_read E ?er l (vspan E R k i)") (auto simp: materialized_field_def field_read_def Let_def simp del: leaf_read_at.simps leaf_read.simps)
qed

lemma path_field_eqs:
  assumes "record_ok E R" "record_input E R i" "k < field_count R" "cat R k = PathField S"
  shows "proof_field E R k i =
      and_then (map_err (access_child (ri_name R) (fi_name (fld R k))) (ss_prove S (vspan E R k i))) (\<lambda>_. Ok ())"
    "materialized_field E R k i = and_then (or_unreachable (ss_prove S (vspan E R k i))) (ss_logical S)"
    "proof_field E R k i = Ok () \<longleftrightarrow> ss_validate S (vspan E R k i) = Ok ()"
  using assms(4) select_field(3) [OF assms(1-3)]
  by (auto simp: proof_field_def materialized_field_def ss_prove_def Let_def)

lemma array_field_eqs:
  assumes "record_ok E R" "record_input E R i" "k < field_count R" "cat R k = ArrayField n e"
  defines "A \<equiv> elem_of E (ri_name R) (fi_name (fld R k)) (n # element_dims e) e"
  shows "proof_field E R k i = and_then (array_ref_prove E A n (vspan E R k i)) (\<lambda>_. Ok ())"
    "materialized_field E R k i = and_then (or_unreachable (array_ref_prove E A n (vspan E R k i)))
       (materialize_array E A (elem_value E (ri_name R) (fi_name (fld R k)) (n # element_dims e) e) n)"
proof -
  have sel: "subrange E (array_layout n (element_wire E e)) (field_value_offset E R k) i = Ok (vspan E R k i)"
    using assms(4) select_field(3) [OF assms(1-3)] by simp
  then show "proof_field E R k i = and_then (array_ref_prove E A n (vspan E R k i)) (\<lambda>_. Ok ())"
    using assms(4) by (simp add: proof_field_def A_def Let_def)
  show "materialized_field E R k i = and_then (or_unreachable (array_ref_prove E A n (vspan E R k i)))
       (materialize_array E A (elem_value E (ri_name R) (fi_name (fld R k)) (n # element_dims e) e) n)"
    using assms(4) sel
    by (cases "array_ref_prove E A n (vspan E R k i)") (simp_all add: materialized_field_def field_read_def A_def Let_def)
qed

lemma optional_field_eqs:
  assumes "record_ok E R" "record_input E R i" "k < field_count R" "cat R k = OptionalField x"
  defines "A \<equiv> option_of E (ri_name R) (fi_name (fld R k)) x (fi_align (fld R k))"
  shows "proof_field E R k i = (if is_all_zero (seg E R k i) then Ok () else op_validate A (vspan E R k i))"
    "materialized_field E R k i = (if is_all_zero (seg E R k i) then Ok (OptionValue None)
       else and_then (or_unreachable (op_read A (vspan E R k i)))
         (\<lambda>r. and_then (inner_value E (ri_name R) (fi_name (fld R k)) x r) (\<lambda>v. Ok (OptionValue (Some v)))))"
proof -
  note sel = select_field [OF assms(1-3)] and fit = value_fits_field [OF assms(1,3)]
  have w: "op_value A = category_wire E (cat R k)" "op_offset A = value_offset (category_wire E (cat R k)) (fi_align (fld R k))"
    using assms(4) by (simp_all add: A_def)
  have inner: "subrange E (op_value A) (op_offset A) (seg E R k i) = Ok (vspan E R k i)"
    using subrange_Ok [OF record_okD(1) [OF assms(1)] sel(2), of "op_value A" "op_offset A"] fit w vspan_of_seg [OF assms(1,3)] by simp
  then show "proof_field E R k i = (if is_all_zero (seg E R k i) then Ok () else op_validate A (vspan E R k i))"
    using assms(4) sel(1) by (simp add: proof_field_def A_def Let_def)
  show "materialized_field E R k i = (if is_all_zero (seg E R k i) then Ok (OptionValue None)
       else and_then (or_unreachable (op_read A (vspan E R k i)))
         (\<lambda>r. and_then (inner_value E (ri_name R) (fi_name (fld R k)) x r) (\<lambda>v. Ok (OptionValue (Some v)))))"
    using assms(4) sel(1) inner
    by (cases "op_read A (vspan E R k i)") (simp_all add: materialized_field_def field_read_def A_def Let_def)
qed

text \<open>The tag a payload's sibling holds; reading it succeeds exactly when the sibling is proved.\<close>

abbreviation "tag_at E R D t i \<equiv> enum_of E D (vspan E R t i)"

lemma read_tag_eq:
  assumes "record_ok E R" "record_input E R i" "t < field_count R" "cat R t = PathField (enum_support E D)"
  shows "read_tag E R t on_layout on_proof i = (if tag_at E R D t i \<in> set (en_discs D) then Ok (tag_at E R D t i)
     else Err (on_proof (unknown_enum_value (en_name D))))"
proof -
  note sel = select_field [OF assms(1-3)] and E = record_okD(1) [OF assms(1)]
  have w: "i_wire (vspan E R t i) = enum_wire E D" using assms(4) by (simp add: enum_support_def)
  show ?thesis
    using assms(4) sel(3) enum_validate_eq [OF E sel(4) w] enum_get_eq [OF E sel(4) w]
    by (simp add: read_tag_def ss_prove_def) (simp add: enum_support_def)
qed

lemma tagged_field_eqs:
  assumes "record_ok E R" "record_input E R i" "k < field_count R" "cat R k = TaggedField t P"
    "cat R t = PathField (enum_support E D)" "t < field_count R"
  shows "proof_field E R k i = (if tag_at E R D t i \<in> set (en_discs D)
      then map_err (access_child (ri_name R) (fi_name (fld R k))) (ps_validate_selected P (tag_at E R D t i) (vspan E R k i))
      else Err (access_child (ri_name R) (fi_name (fld R t)) (unknown_enum_value (en_name D))))"
    "materialized_field E R k i = (if tag_at E R D t i \<in> set (en_discs D)
      then and_then (or_unreachable (ps_validate_selected P (tag_at E R D t i) (vspan E R k i)))
        (\<lambda>_. ps_materialize_selected P (tag_at E R D t i) (vspan E R k i))
      else Panic)"
    "proof_field E R k i = Ok () \<longleftrightarrow>
      tag_at E R D t i \<in> set (en_discs D) \<and> ps_validate_selected P (tag_at E R D t i) (vspan E R k i) = Ok ()"
proof -
  have sel: "subrange E (ps_wire P) (field_value_offset E R k) i = Ok (vspan E R k i)"
    using assms(4) select_field(3) [OF assms(1-3)] by simp
  note tag = read_tag_eq [OF assms(1,2,6,5)]
  show pf: "proof_field E R k i = (if tag_at E R D t i \<in> set (en_discs D)
      then map_err (access_child (ri_name R) (fi_name (fld R k))) (ps_validate_selected P (tag_at E R D t i) (vspan E R k i))
      else Err (access_child (ri_name R) (fi_name (fld R t)) (unknown_enum_value (en_name D))))"
    using assms(4) sel tag
    by (cases "ps_validate_selected P (tag_at E R D t i) (vspan E R k i)") (simp_all add: proof_field_def ref_prove_at_def Let_def)
  show "materialized_field E R k i = (if tag_at E R D t i \<in> set (en_discs D)
      then and_then (or_unreachable (ps_validate_selected P (tag_at E R D t i) (vspan E R k i)))
        (\<lambda>_. ps_materialize_selected P (tag_at E R D t i) (vspan E R k i))
      else Panic)"
    using assms(4) sel tag
    by (cases "ps_validate_selected P (tag_at E R D t i) (vspan E R k i)")
      (simp_all add: materialized_field_def ref_prove_at_def ref_materialize_def Let_def)
  show "proof_field E R k i = Ok () \<longleftrightarrow>
      tag_at E R D t i \<in> set (en_discs D) \<and> ps_validate_selected P (tag_at E R D t i) (vspan E R k i) = Ok ()"
    unfolding pf by simp
qed

section \<open>Proved fields materialize\<close>

text \<open>The category of a field with what the declaration guarantees of it.\<close>

lemma field_cases:
  assumes "record_ok E R" "k < field_count R"
  obtains (leaf) l where "cat R k = LeafField l" "leaf_ok l"
  | (path) S where "cat R k = PathField S" "schema_contract E True S"
  | (tagged) t P D where "cat R k = TaggedField t P" "payload_contract E True P" "t < field_count R" "enum_ok D"
      "cat R t = PathField (enum_support E D)" "set (ps_tags P) \<subseteq> set (en_discs D)"
  | (array) n e where "cat R k = ArrayField n e" "0 < n" "element_ok E e"
  | (optional) x where "cat R k = OptionalField x" "category_ok E R (OptionalField x)"
proof -
  have "category_ok E R (cat R k)" using record_okD(4) [OF assms] .
  then show ?thesis using that by (cases "cat R k") auto
qed

lemma array_field_contract:
  assumes "record_ok E R" "record_input E R i" "k < field_count R" "cat R k = ArrayField n e" "element_ok E e"
  defines "A \<equiv> elem_of E (ri_name R) (fi_name (fld R k)) (n # element_dims e) e"
  shows "element_contract E True A (elem_val_ok e)
      (\<lambda>r v. elem_value E (ri_name R) (fi_name (fld R k)) (n # element_dims e) e r = Ok v)"
    "i_wire (vspan E R k i) = array_layout n (el_wire A)"
    "array_ref_prove E A n (vspan E R k i) = Ok (vspan E R k i) \<longleftrightarrow> array_proved E A n (vspan E R k i)"
    "array_ref_prove E A n (vspan E R k i) \<noteq> Panic"
    "proof_field E R k i = Ok () \<longleftrightarrow> array_proved E A n (vspan E R k i)"
proof -
  show c: "element_contract E True A (elem_val_ok e)
      (\<lambda>r v. elem_value E (ri_name R) (fi_name (fld R k)) (n # element_dims e) e r = Ok v)"
    unfolding A_def using elem_contract [OF record_okD(1) [OF assms(1)] assms(5)] .
  show w: "i_wire (vspan E R k i) = array_layout n (el_wire A)" using assms(4) by (simp add: A_def)
  note iff = element_contract.ref_prove_iff [OF c TrueI select_field(4) [OF assms(1-3)] w]
  show "array_ref_prove E A n (vspan E R k i) = Ok (vspan E R k i) \<longleftrightarrow> array_proved E A n (vspan E R k i)"
    "array_ref_prove E A n (vspan E R k i) \<noteq> Panic" using iff by auto
  have "proof_field E R k i = Ok () \<longleftrightarrow> (\<exists>r. array_ref_prove E A n (vspan E R k i) = Ok r)"
    using array_field_eqs(1) [OF assms(1-4)] by (auto simp: A_def)
  then show "proof_field E R k i = Ok () \<longleftrightarrow> array_proved E A n (vspan E R k i)"
    using iff by (auto simp: array_ref_prove_def)
qed

lemma proof_field_total:
  assumes "record_ok E R" "record_input E R i" "k < field_count R"
  shows "proof_field E R k i \<noteq> Panic"
  using assms(1,3)
proof (cases rule: field_cases)
  case (leaf l)
  then show ?thesis using leaf_field_eqs(2) [OF assms] by blast
next
  case (path S)
  then show ?thesis
    using path_field_eqs(1) [OF assms] schema_contract.validate_total [OF path(2) TrueI select_field(4) [OF assms]]
    by (simp add: ss_prove_def)
next
  case (tagged t P D)
  then show ?thesis
    using tagged_field_eqs(1) [OF assms tagged(1,5,3)] payload_contract.validate_total [OF tagged(2) TrueI select_field(4) [OF assms]]
    by simp
next
  case (array n e)
  then show ?thesis using array_field_eqs(1) [OF assms array(1)] array_field_contract(4) [OF assms array(1,3)] by simp
next
  case (optional x)
  note c = option_of_contract [OF record_okD(1) [OF assms(1)] record_okD(3) [OF assms(1,3)] optional(2)]
  show ?thesis
    using optional optional_field_eqs(1) [OF assms optional(1)] option_contract.validate_total [OF c TrueI select_field(4) [OF assms]]
    by simp
qed

lemma proved_array_value:
  assumes "record_ok E R" "record_input E R i" "k < field_count R" "cat R k = ArrayField n e" "0 < n" "element_ok E e"
    "proof_field E R k i = Ok ()"
  shows "\<exists>v. materialized_field E R k i = Ok v"
proof -
  let ?nm = "ri_name R" and ?f = "fi_name (fld R k)" and ?d = "n # element_dims e" and ?v = "vspan E R k i"
  let ?A = "elem_of E ?nm ?f ?d e"
  note c = array_field_contract [OF assms(1-4,6)]
  have proved: "array_proved E ?A n ?v" using c(5) assms(7) by blast
  have "nested_elements E True ?A (elem_val_ok e) (\<lambda>r v. elem_value E ?nm ?f ?d e r = Ok v)"
    using c(1) by (simp add: nested_elements_def)
  then have "el_prove (elem_of E ?nm ?f ?d (RowElem n e)) 0 ?v = Ok ()"
    using nested_elements.row_prove_iff(1) [of E True ?A _ _ ?v n 0] proved c(2) select_field(4) [OF assms(1-3)]
    by (simp add: relabel_def nested_adapter_def)
  then have "\<exists>r y. el_read (elem_of E ?nm ?f ?d (RowElem n e)) 0 ?v = Ok r \<and> elem_value E ?nm ?f ?d (RowElem n e) r = Ok y"
    using proved_elem_value [OF record_okD(1) [OF assms(1)], of "RowElem n e" ?v ?nm ?f ?d 0 0] assms(4-6)
      select_field(4) [OF assms(1-3)] by (simp del: elem_of.simps elem_value.simps)
  then show ?thesis
    using c(3) proved array_field_eqs(2) [OF assms(1-4)] by (auto simp: relabel_def nested_adapter_def)
qed

lemma proved_field_value:
  assumes "record_ok E R" "record_input E R i" "k < field_count R" "proof_field E R k i = Ok ()"
  shows "\<exists>v. materialized_field E R k i = Ok v"
  using assms(1,3)
proof (cases rule: field_cases)
  case (leaf l)
  then show ?thesis using leaf_field_eqs [OF assms(1-3)] assms(4) by auto
next
  case (path S)
  note eqs = path_field_eqs [OF assms(1-3) path(1)]
  have valid: "ss_validate S (vspan E R k i) = Ok ()" using eqs(3) assms(4) by blast
  then obtain v where "ss_logical S (vspan E R k i) = Ok v"
    using schema_contract.logical_of_proved [OF path(2) TrueI select_field(4) [OF assms(1-3)]] path(1) by auto
  then show ?thesis using eqs(2) valid by (simp add: ss_prove_def)
next
  case (tagged t P D)
  note eqs = tagged_field_eqs [OF assms(1-3) tagged(1,5,3)]
  have valid: "tag_at E R D t i \<in> set (en_discs D)" "ps_validate_selected P (tag_at E R D t i) (vspan E R k i) = Ok ()"
    using eqs(3) assms(4) by blast+
  then obtain v where "ps_materialize_selected P (tag_at E R D t i) (vspan E R k i) = Ok v"
    using payload_contract.validated_materializes [OF tagged(2) TrueI select_field(4) [OF assms(1-3)]] tagged(1) by auto
  then show ?thesis using eqs(2) valid by simp
next
  case (array n e)
  then show ?thesis using proved_array_value [OF assms(1-3) array assms(4)] by blast
next
  case (optional x)
  note eqs = optional_field_eqs [OF assms(1-3) optional(1)]
  show ?thesis
  proof (cases "is_all_zero (seg E R k i)")
    case True
    then show ?thesis using eqs(2) by simp
  next
    case False
    let ?A = "option_of E (ri_name R) (fi_name (fld R k)) x (fi_align (fld R k))"
    have "op_validate ?A (vspan E R k i) = Ok ()" using eqs(1) assms(4) False by simp
    then obtain r y where "op_read ?A (vspan E R k i) = Ok r" "inner_value E (ri_name R) (fi_name (fld R k)) x r = Ok y"
      using option_proved_value [OF record_okD(1) [OF assms(1)] optional(2) select_field(4) [OF assms(1-3)],
          of "ri_name R" "fi_name (fld R k)" "fi_align (fld R k)"] optional(1) by auto
    then show ?thesis using eqs(2) False by simp
  qed
qed

section \<open>Fields depend on their own spans only\<close>

text \<open>A field, and for a payload the tag field it names.\<close>

definition owns :: "record_ir \<Rightarrow> nat \<Rightarrow> nat \<Rightarrow> bool" where
  "owns R k j \<longleftrightarrow> j = k \<or> (case cat R k of TaggedField t P \<Rightarrow> j = t | _ \<Rightarrow> False)"

lemma owns_self [simp]: "owns R k k"
  by (simp add: owns_def)

lemma same_vspan:
  "record_ok E R \<Longrightarrow> k < field_count R \<Longrightarrow> seg E R k i = seg E R k j \<Longrightarrow> vspan E R k i = vspan E R k j"
  using vspan_of_seg by metis

lemma field_local:
  assumes "record_ok E R" "record_input E R i" "record_input E R j" "k < field_count R"
    "\<And>t. owns R k t \<Longrightarrow> seg E R t i = seg E R t j"
  shows "proof_field E R k i = Ok () \<longleftrightarrow> proof_field E R k j = Ok ()" "materialized_field E R k i = materialized_field E R k j"
proof -
  have seg: "seg E R k i = seg E R k j" using assms(5) by simp
  note v = same_vspan [OF assms(1,4) seg]
  from assms(1,4) have "(proof_field E R k i = Ok () \<longleftrightarrow> proof_field E R k j = Ok ()) \<and> materialized_field E R k i = materialized_field E R k j"
  proof (cases rule: field_cases)
    case (leaf l)
    show ?thesis
      by (simp only: leaf_field_eqs [OF assms(1,2,4) leaf(1)] leaf_field_eqs [OF assms(1,3,4) leaf(1)] v)
  next
    case (path S)
    show ?thesis
      by (simp only: path_field_eqs(2,3) [OF assms(1,2,4) path(1)] path_field_eqs(2,3) [OF assms(1,3,4) path(1)] v)
  next
    case (tagged t P D)
    have "seg E R t i = seg E R t j" using assms(5) [of t] tagged(1) by (simp add: owns_def)
    note vt = same_vspan [OF assms(1) tagged(3) this]
    show ?thesis
      by (simp only: tagged_field_eqs(2,3) [OF assms(1,2,4) tagged(1,5,3)] tagged_field_eqs(2,3) [OF assms(1,3,4) tagged(1,5,3)] v vt)
  next
    case (array n e)
    show ?thesis
      by (simp only: array_field_eqs [OF assms(1,2,4) array(1)] array_field_eqs [OF assms(1,3,4) array(1)] v)
  next
    case (optional x)
    show ?thesis
      by (simp only: optional_field_eqs [OF assms(1,2,4) optional(1)] optional_field_eqs [OF assms(1,3,4) optional(1)] v seg)
  qed
  then show "proof_field E R k i = Ok () \<longleftrightarrow> proof_field E R k j = Ok ()" "materialized_field E R k i = materialized_field E R k j"
    by blast+
qed

section \<open>Committing one field\<close>

abbreviation "holds E R k i v \<equiv> proof_field E R k i = Ok () \<and> materialized_field E R k i = Ok v"

text \<open>
  The law of one field: the preflight is total, and once it accepts, the commit succeeds, every field it
  owns is proved and materializes as the source's value, and no other field's bytes change.
\<close>

definition field_done :: "env \<Rightarrow> record_ir \<Rightarrow> nat \<Rightarrow> input \<Rightarrow> (schema_error, input) res \<Rightarrow> (nat \<Rightarrow> lval) \<Rightarrow> bool" where
  "field_done E R k i r val \<longleftrightarrow> (\<exists>c. r = Ok c \<and> same_span i c \<and>
     (\<forall>j < field_count R. owns R k j \<longrightarrow> holds E R j c (val j)) \<and>
     (\<forall>j < field_count R. \<not> owns R k j \<longrightarrow> seg E R j c = seg E R j i))"

definition field_law :: "env \<Rightarrow> record_ir \<Rightarrow> mode \<Rightarrow> nat \<Rightarrow> input \<Rightarrow> lval list \<Rightarrow> bool" where
  "field_law E R m k i vs \<longleftrightarrow> preflight_field E R m k i vs \<noteq> Panic \<and>
     (preflight_field E R m k i vs = Ok () \<longrightarrow> field_done E R k i (commit_field E R m k i vs) ((!) vs))"

lemma value_commit:
  assumes "record_ok E R" "record_input E R i" "k < field_count R"
    "f (vspan E R k i) = Ok c" "same_span (vspan E R k i) c"
  obtains j where "commit_at E (category_wire E (cat R k)) (field_value_offset E R k) f i = Ok j" "same_span i j"
    "record_input E R j" "vspan E R k j = c" "\<And>l. l < field_count R \<Longrightarrow> l \<noteq> k \<Longrightarrow> seg E R l j = seg E R l i"
proof
  note w = write_value [OF assms(1-3,5)]
  show "commit_at E (category_wire E (cat R k)) (field_value_offset E R k) f i = Ok (write_back (field_value_offset E R k) c i)"
    using select_field(3) [OF assms(1-3)] assms(4) by (simp add: commit_at_def subrange_mut_eq)
  show "same_span i (write_back (field_value_offset E R k) c i)" by (rule w(1))
  then show "record_input E R (write_back (field_value_offset E R k) c i)" using record_input_span assms(2) by blast
qed (use write_value [OF assms(1-3,5)] in blast)+

lemma simple_owns: "\<forall>t P. cat R k \<noteq> TaggedField t P \<Longrightarrow> owns R k j \<longleftrightarrow> j = k"
  by (cases "cat R k") (auto simp: owns_def)

lemma value_done:
  assumes "record_ok E R" "record_input E R i" "k < field_count R" "\<forall>t P. cat R k \<noteq> TaggedField t P"
    "f (vspan E R k i) = Ok c" "same_span (vspan E R k i) c"
    "\<And>j. record_input E R j \<Longrightarrow> vspan E R k j = c \<Longrightarrow> holds E R k j (val k)"
  shows "field_done E R k i (commit_at E (category_wire E (cat R k)) (field_value_offset E R k) f i) val"
proof -
  obtain j where j: "commit_at E (category_wire E (cat R k)) (field_value_offset E R k) f i = Ok j" "same_span i j"
    "record_input E R j" "vspan E R k j = c" "\<And>l. l < field_count R \<Longrightarrow> l \<noteq> k \<Longrightarrow> seg E R l j = seg E R l i"
    using value_commit [where f = f, OF assms(1-3,5,6)] by blast
  then show ?thesis
    unfolding field_done_def using assms(7) [OF j(3,4)] simple_owns [OF assms(4)] by (intro exI [of _ j]) auto
qed

lemma storage_done:
  assumes "record_ok E R" "record_input E R i" "k < field_count R" "\<forall>t P. cat R k \<noteq> TaggedField t P"
    "f (seg E R k i) = Ok d" "same_span (seg E R k i) d"
    "\<And>j. record_input E R j \<Longrightarrow> seg E R k j = d \<Longrightarrow> holds E R k j (val k)"
  shows "field_done E R k i (commit_at E (field_wire E (fld R k)) (field_offset E R k) f i) val"
proof -
  note wr = write_seg [OF assms(1-3,6)]
  have "commit_at E (field_wire E (fld R k)) (field_offset E R k) f i = Ok (write_back (field_offset E R k) d i)"
    using select_field(1) [OF assms(1-3)] assms(5) by (simp add: commit_at_def subrange_mut_eq)
  moreover have "holds E R k (write_back (field_offset E R k) d i) (val k)"
    using assms(7) record_input_span [OF wr(1) assms(2)] wr(2) by blast
  ultimately show ?thesis
    unfolding field_done_def
    by (intro exI [of _ "write_back (field_offset E R k) d i"]) (simp add: simple_owns [OF assms(4)] wr(1,3))
qed

lemma simple_field_law:
  assumes "record_ok E R" "record_input E R i" "k < field_count R" "\<forall>t P. cat R k \<noteq> TaggedField t P"
    "preflight_field E R m k i vs \<noteq> Panic"
    "commit_field E R m k i vs = commit_at E (category_wire E (cat R k)) (field_value_offset E R k) f i"
    "preflight_field E R m k i vs = Ok () \<Longrightarrow> \<exists>c. f (vspan E R k i) = Ok c \<and> same_span (vspan E R k i) c \<and> done c"
    "\<And>j. record_input E R j \<Longrightarrow> done (vspan E R k j) \<Longrightarrow> holds E R k j (vs ! k)"
  shows "field_law E R m k i vs"
  unfolding field_law_def assms(6)
proof (intro conjI impI assms(5))
  assume "preflight_field E R m k i vs = Ok ()"
  then obtain c where c: "f (vspan E R k i) = Ok c" "same_span (vspan E R k i) c" "done c" using assms(7) by blast
  show "field_done E R k i (commit_at E (category_wire E (cat R k)) (field_value_offset E R k) f i) ((!) vs)"
    using assms(8) c(3) by (intro value_done [where f = f, OF assms(1-4) c(1,2)]) blast
qed

lemma leaf_field_law:
  assumes "record_ok E R" "record_input E R i" "k < field_count R" "cat R k = LeafField l"
    "\<not> is_external_tag_sibling R k" "category_val_ok (cat R k) (vs ! k)"
  shows "field_law E R m k i vs"
proof -
  let ?er = "field_errors (ri_name R) (fi_name (fld R k))"
  note sel = select_field [OF assms(1-3)] and E = record_okD(1) [OF assms(1)]
  obtain x where x: "vs ! k = LeafValue x" "leaf_val_ok l x" using assms(4,6) by (auto split: lval.splits)
  have w: "i_wire (vspan E R k i) = leaf_wire E l" and s: "subrange E (leaf_wire E l) (field_value_offset E R k) i = Ok (vspan E R k i)"
    using assms(4) sel(3) by simp_all
  have pre: "preflight_field E R m k i vs = leaf_preflight E ?er l (vspan E R k i) x"
    using assms(4,5) x s
    by (cases l; cases x) (simp_all add: preflight_field_def Let_def leaf_preflight.simps(7))
  show ?thesis
  proof (rule simple_field_law [OF assms(1-3)])
    show "preflight_field E R m k i vs \<noteq> Panic" using pre leaf_preflight_total [OF E sel(4) w x(2)] by simp
    show "commit_field E R m k i vs = commit_at E (category_wire E (cat R k)) (field_value_offset E R k) (\<lambda>selected. leaf_commit E l selected x) i"
      using assms(4,5) x by (simp add: commit_field_def Let_def)
    show "\<exists>c. leaf_commit E l (vspan E R k i) x = Ok c \<and> same_span (vspan E R k i) c \<and> leaf_read E ?er l c = Ok x"
      if "preflight_field E R m k i vs = Ok ()"
      using leaf_commit_law [OF E sel(4) w x(2)] pre that by simp
    show "holds E R k j (vs ! k)" if "record_input E R j" "leaf_read E ?er l (vspan E R k j) = Ok x" for j
      using leaf_field_eqs(1,3) [OF assms(1) that(1) assms(3,4)] that(2) x(1) by simp
  qed (simp add: assms(4))
qed

lemma path_field_law:
  assumes "record_ok E R" "record_input E R i" "k < field_count R" "cat R k = PathField S" "schema_contract E True S"
    "\<not> is_external_tag_sibling R k" "category_val_ok (cat R k) (vs ! k)" "ready m (proof_field E R k i)"
  shows "field_law E R m k i vs"
proof -
  let ?v = "vspan E R k i"
  note sel = select_field [OF assms(1-3)]
  have w: "i_wire ?v = ss_wire S" and s: "subrange E (ss_wire S) (field_value_offset E R k) i = Ok ?v"
    using assms(4) sel(3) by simp_all
  have pre: "preflight_field E R m k i vs =
      map_err (\<lambda>_. mutation_field_kind (ri_name R) (fi_name (fld R k)) KCapacityExceeded) (ss_preflight S m ?v (vs ! k))"
    using assms(4,6) s by (simp add: preflight_field_def Let_def)
  have val: "ss_val_ok S (vs ! k)" using assms(4,7) by simp
  have rdy: "ready m (ss_validate S ?v)" using assms(8) path_field_eqs(3) [OF assms(1-4)] by (cases m) auto
  show ?thesis
  proof (rule simple_field_law [OF assms(1-3)])
    show "preflight_field E R m k i vs \<noteq> Panic"
      using pre schema_contract.preflight_total [OF assms(5) TrueI sel(4) w val rdy] by simp
    show "commit_field E R m k i vs = commit_at E (category_wire E (cat R k)) (field_value_offset E R k) (\<lambda>c. ss_commit S m c (vs ! k)) i"
      using assms(4,6) by (simp add: commit_field_def Let_def)
    show "\<exists>c. ss_commit S m ?v (vs ! k) = Ok c \<and> same_span ?v c \<and> (ss_validate S c = Ok () \<and> ss_logical S c = Ok (vs ! k))"
      if "preflight_field E R m k i vs = Ok ()"
      using schema_contract.commit_law [OF assms(5) TrueI sel(4) w val rdy] that [unfolded pre] by simp
    show "holds E R k j (vs ! k)"
      if "record_input E R j" "ss_validate S (vspan E R k j) = Ok () \<and> ss_logical S (vspan E R k j) = Ok (vs ! k)" for j
      using path_field_eqs(2,3) [OF assms(1) that(1) assms(3,4)] that(2) by (simp add: ss_prove_def)
  qed (simp add: assms(4))
qed

lemma array_field_law:
  assumes "record_ok E R" "record_input E R i" "k < field_count R" "cat R k = ArrayField n e" "element_ok E e"
    "\<not> is_external_tag_sibling R k" "category_val_ok (cat R k) (vs ! k)" "ready m (proof_field E R k i)"
  shows "field_law E R m k i vs"
proof -
  let ?v = "vspan E R k i" and ?A = "elem_of E (ri_name R) (fi_name (fld R k)) (n # element_dims e) e"
  let ?val = "elem_value E (ri_name R) (fi_name (fld R k)) (n # element_dims e) e"
  note c = array_field_contract [OF assms(1-5)] and sel = select_field [OF assms(1-3)]
  obtain xs where xs: "vs ! k = ArrayValue xs" "length xs = n" "\<forall>v \<in> set xs. elem_val_ok e v"
    using assms(4,7) by (auto simp: list_all_iff split: lval.splits)
  have s: "subrange E (array_layout n (element_wire E e)) (field_value_offset E R k) i = Ok ?v"
    using assms(4) sel(3) by simp
  have pre: "preflight_field E R m k i vs = preflight_elements E m ?A ?v xs"
    using assms(4,6) xs(1) s by (simp add: preflight_field_def Let_def)
  have "m = Init \<or> array_proved E ?A n ?v" using assms(8) c(5) by (cases m) auto
  note law = preflight_elements_law [OF c(1) sel(4) c(2) xs(2,3) this]
  show ?thesis
  proof (rule simple_field_law [OF assms(1-3)])
    show "preflight_field E R m k i vs \<noteq> Panic" using law(1) pre by simp
    show "commit_field E R m k i vs = commit_at E (category_wire E (cat R k)) (field_value_offset E R k)
        (\<lambda>selected. commit_elements E m ?A selected xs) i"
      using assms(4,6) xs(1) by (simp add: commit_field_def Let_def)
    show "\<exists>d. commit_elements E m ?A ?v xs = Ok d \<and> same_span ?v d \<and> (array_proved E ?A n d \<and>
        (\<forall>k < n. \<exists>r. array_ref_get E ?A n d k = Ok (Some r) \<and> ?val r = Ok (xs ! k)))"
      if "preflight_field E R m k i vs = Ok ()"
      using law(2) that [unfolded pre] by blast
    show "holds E R k j (vs ! k)" if j: "record_input E R j" and d: "array_proved E ?A n (vspan E R k j) \<and>
        (\<forall>l < n. \<exists>r. array_ref_get E ?A n (vspan E R k j) l = Ok (Some r) \<and> ?val r = Ok (xs ! l))" for j
    proof -
      note cj = array_field_contract(3,5) [OF assms(1) j assms(3-5)]
      have "materialize_array E ?A ?val n (vspan E R k j) = Ok (vs ! k)"
        using materialize_array_Ok [OF xs(2)] d xs(1) by simp
      then show ?thesis using cj d array_field_eqs(2) [OF assms(1) j assms(3,4)] by simp
    qed
  qed (simp add: assms(4))
qed

text \<open>The states of an optional field's storage: cleared, or holding a value its adapter accepts.\<close>

lemma option_cleared:
  assumes "record_ok E R" "record_input E R i" "k < field_count R" "cat R k = OptionalField x" "val k = OptionValue None"
    "f (seg E R k i) = Ok (option_clear (seg E R k i))"
  shows "field_done E R k i (commit_at E (field_wire E (fld R k)) (field_offset E R k) f i) val"
proof (rule storage_done [where d = "clear_all (seg E R k i)", OF assms(1-3)])
  show "holds E R k j (val k)" if "record_input E R j" "seg E R k j = clear_all (seg E R k i)" for j
    using optional_field_eqs [OF assms(1) that(1) assms(3,4)] that(2) assms(5) by simp
qed (use assms(4,6) in \<open>simp_all add: option_clear_def\<close>)

lemma option_stored:
  assumes "record_ok E R" "record_input E R i" "k < field_count R" "cat R k = OptionalField x"
    "category_ok E R (OptionalField x)" "val k = OptionValue (Some y)"
  defines "A \<equiv> option_of E (ri_name R) (fi_name (fld R k)) x (fi_align (fld R k))"
  assumes "f (seg E R k i) = commit_at E (op_value A) (op_offset A) g (seg E R k i)" "g (vspan E R k i) = Ok d"
    "same_span (vspan E R k i) d" "op_validate A d = Ok ()" "op_read A d = Ok r"
    "inner_value E (ri_name R) (fi_name (fld R k)) x r = Ok y"
  shows "field_done E R k i (commit_at E (field_wire E (fld R k)) (field_offset E R k) f i) val"
proof -
  let ?s = "seg E R k i"
  note sel = select_field [OF assms(1-3)] and E = record_okD(1) [OF assms(1)]
  note c = option_of_contract [OF E record_okD(3) [OF assms(1,3)] assms(5), of "ri_name R" "fi_name (fld R k)", folded A_def]
  have w: "i_wire ?s = op_storage A" using assms(4) by (simp add: field_wire_def A_def)
  have v: "option_value A (seg E R k j) = vspan E R k j" for j
    using vspan_of_seg [OF assms(1,3)] assms(4) by (simp add: option_value_def A_def)
  note osel = option_contract.select [OF c TrueI sel(2) w]
  note wb = option_contract.present_write_back [OF c TrueI sel(2) w assms(10) [folded v] assms(11)]
  show ?thesis
  proof (rule storage_done [where d = "write_back (op_offset A) d ?s", OF assms(1-3)])
    show "f ?s = Ok (write_back (op_offset A) d ?s)"
      using assms(8,9) osel(1) v by (simp add: commit_at_def subrange_mut_eq)
    show "same_span ?s (write_back (op_offset A) d ?s)" by (rule wb(3))
    show "holds E R k j (val k)" if j: "record_input E R j" "seg E R k j = write_back (op_offset A) d ?s" for j
      using optional_field_eqs [OF assms(1) j(1) assms(3,4), folded A_def] j(2) wb(2,4) v [of j] assms(6,11-13) by simp
  qed (simp add: assms(4))
qed

lemma optional_field_law:
  assumes "record_ok E R" "record_input E R i" "k < field_count R" "cat R k = OptionalField x"
    "category_ok E R (OptionalField x)" "\<not> is_external_tag_sibling R k" "category_val_ok (cat R k) (vs ! k)"
  shows "field_law E R m k i vs"
proof -
  let ?nm = "ri_name R" and ?f = "fi_name (fld R k)"
  let ?A = "option_of E ?nm ?f x (fi_align (fld R k))" and ?s = "seg E R k i" and ?v = "vspan E R k i"
  note sel = select_field [OF assms(1-3)] and E = record_okD(1) [OF assms(1)]
  note c = option_of_contract [OF E record_okD(3) [OF assms(1,3)] assms(5), of ?nm ?f]
  have w: "i_wire ?s = op_storage ?A" using assms(4) by (simp add: field_wire_def)
  have v: "option_value ?A ?s = ?v" using vspan_of_seg [OF assms(1,3)] assms(4) by (simp add: option_value_def)
  note osel = option_contract.select [OF c TrueI sel(2) w]
  let ?commit = "\<lambda>storage. case vs ! k of
      OptionValue None \<Rightarrow> Ok (option_clear storage)
    | OptionValue (Some y) \<Rightarrow> commit_at E (op_value ?A) (op_offset ?A) (\<lambda>selected. op_commit_init ?A selected y) storage
    | _ \<Rightarrow> Panic"
  have com: "commit_field E R m k i vs = commit_at E (field_wire E (fld R k)) (field_offset E R k) ?commit i"
    using assms(4,6) by (simp add: commit_field_def Let_def)
  show ?thesis
  proof (cases "vs ! k = OptionValue None")
    case True
    then show ?thesis
      unfolding field_law_def com using assms(4,6) sel(1)
      by (intro conjI impI option_cleared [OF assms(1-4)]) (simp_all add: preflight_field_def Let_def)
  next
    case False
    then obtain y where y: "vs ! k = OptionValue (Some y)" "inner_val_ok x y"
      using assms(4,7) by (auto split: lval.splits option.splits)
    have pre: "preflight_field E R m k i vs = op_preflight_init ?A ?v y"
      using assms(4,6) y(1) sel(1) osel(1) v by (simp add: preflight_field_def Let_def)
    have "field_done E R k i (commit_field E R m k i vs) ((!) vs)" if ok: "op_preflight_init ?A ?v y = Ok ()"
    proof -
      obtain d r where d: "op_commit_init ?A ?v y = Ok d" "same_span ?v d" "op_validate ?A d = Ok ()" "op_read ?A d = Ok r"
        "inner_value E ?nm ?f x r = Ok y"
        using option_contract.commit_init_law [OF c TrueI osel(2,3) y(2)] ok v by auto
      show ?thesis unfolding com
        by (rule option_stored [where f = ?commit and g = "\<lambda>selected. op_commit_init ?A selected y" and val = "(!) vs", OF assms(1-5) y(1) _ d]) (simp add: y(1))
    qed
    then show ?thesis
      unfolding field_law_def pre using option_contract.preflight_total [OF c TrueI osel(2,3) y(2)] v by simp
  qed
qed

subsection \<open>Payloads and their tags\<close>

lemma enum_field_value:
  assumes "env_ok E" "input_ok E i" "i_wire i = enum_wire E D"
  shows "ss_validate (enum_support E D) i = Ok () \<longleftrightarrow> enum_of E D i \<in> set (en_discs D)"
    "enum_of E D i \<in> set (en_discs D) \<Longrightarrow> ss_logical (enum_support E D) i = Ok (EnumValue (enum_of E D i))"
  using enum_validate_eq [OF assms] enum_get_eq [OF assms] by (simp_all add: enum_support_def ss_logical_def)

lemma tagged_holds:
  assumes "record_ok E R" "record_input E R i" "k < field_count R" "cat R k = TaggedField t P"
    "cat R t = PathField (enum_support E D)" "t < field_count R" "tag_at E R D t i \<in> set (en_discs D)"
    "ps_validate_selected P (tag_at E R D t i) (vspan E R k i) = Ok ()"
    "ps_materialize_selected P (tag_at E R D t i) (vspan E R k i) = Ok v"
  shows "holds E R k i v" "holds E R t i (EnumValue (tag_at E R D t i))"
proof -
  have w: "i_wire (vspan E R t i) = enum_wire E D" using assms(5) by (simp add: enum_support_def)
  note val = enum_field_value [OF record_okD(1) [OF assms(1)] select_field(4) [OF assms(1,2,6)] w]
  show "holds E R k i v" using tagged_field_eqs(2,3) [OF assms(1-6)] assms(7-9) by simp
  show "holds E R t i (EnumValue (tag_at E R D t i))"
    using path_field_eqs(2,3) [OF assms(1,2,6,5)] val assms(7) by (simp add: ss_prove_def)
qed

lemma switch_tag_law:
  assumes "record_ok E R" "record_input E R i" "k < field_count R" "cat R k = TaggedField t P"
    "cat R t = PathField (enum_support E D)" "t < field_count R" "enum_ok D" "target \<in> set (en_discs D)"
    "commit_payload (vspan E R k i) = Ok p" "same_span (vspan E R k i) p"
  obtains j where "switch_tag E R k t P target i commit_payload = Ok j" "same_span i j" "vspan E R k j = p" "tag_at E R D t j = target"
    "\<And>l. l < field_count R \<Longrightarrow> l \<noteq> k \<Longrightarrow> l \<noteq> t \<Longrightarrow> seg E R l j = seg E R l i"
proof -
  let ?T = "enum_support E D"
  note E = record_okD(1) [OF assms(1)] and selt = select_field [OF assms(1,2,6)]
  have kt: "k \<noteq> t" using assms(4,5) by auto
  have wires: "category_wire E (cat R k) = ps_wire P" "category_wire E (cat R t) = ss_wire ?T" using assms(4,5) by simp_all
  have okD: "env_ok E \<and> enum_ok D" using E assms(7) by blast
  have twire: "i_wire (vspan E R t i) = ss_wire ?T" "i_wire (vspan E R t i) = enum_wire E D"
    using wires by (simp_all add: enum_support_def)
  obtain c where c: "enum_commit E D (vspan E R t i) target = Ok c" "same_span (vspan E R t i) c" "enum_of E D c = target"
    using enum_commit_Ok [OF E selt(4) twire(2) assms(7,8)] by blast
  have c': "ss_commit ?T Init (vspan E R t i) (EnumValue target) = Ok c" using c(1) by (simp add: enum_support_def)
  have disj: "disjoint_spans (field_value_offset E R t) (wl_size (ss_wire ?T)) (field_value_offset E R k) (wl_size (ps_wire P))"
    using seg_disjoint [OF assms(1,6,3)] kt value_fits_field [OF assms(1,3)] value_fits_field [OF assms(1,6)] wires
    by (auto simp: disjoint_spans_def field_value_offset_def field_fits_def)
  have fits: "field_fits (ss_wire ?T) (field_value_offset E R t) (i_wire i)" "field_fits (ps_wire P) (field_value_offset E R k) (i_wire i)"
    using value_fits_record [OF assms(1,6)] value_fits_record [OF assms(1,3)] wires assms(2) by simp_all
  let ?r = "write_back (field_value_offset E R k) p i"
  let ?j = "write_back (field_value_offset E R t) c ?r"
  note law = commit_payload_before_tag_law [where commit_payload = commit_payload
      and store_tag = "\<lambda>tag_input. ss_commit ?T Init tag_input (EnumValue target)",
      OF E conjunct1 [OF assms(2)] fits disj assms(9,10) [unfolded wires] c' [unfolded wires] c(2) [unfolded wires]]
  note w1 = write_value [OF assms(1-3,10)]
  have r: "record_input E R ?r" using record_input_span [OF w1(1) assms(2)] .
  have "vspan E R t ?r = vspan E R t i" using same_vspan [OF assms(1,6) w1(3) [OF assms(6)]] kt by simp
  then have c2: "same_span (vspan E R t ?r) c" using c(2) by simp
  note w2 = write_value [OF assms(1) r assms(6) c2]
  show ?thesis
  proof
    show "switch_tag E R k t P target i commit_payload = Ok ?j" using law(1) [of "()"] assms(5) by (simp add: switch_tag_def)
    show "same_span i ?j" by (rule law(2))
    show "vspan E R k ?j = p" using law(3) wires by simp
    show "tag_at E R D t ?j = target" using law(4) wires c(3) by simp
    show "seg E R l ?j = seg E R l i" if "l < field_count R" "l \<noteq> k" "l \<noteq> t" for l
      using w1(3) [OF that(1,2)] w2(3) [OF that(1,3)] by simp
  qed
qed

text \<open>
  The two ways a payload is committed: under its current tag, on the payload's bytes alone, or with a
  switch that stores the new tag after the payload.
\<close>

lemma payload_done:
  assumes "record_ok E R" "record_input E R i" "k < field_count R" "cat R k = TaggedField t P"
    "cat R t = PathField (enum_support E D)" "t < field_count R" "enum_ok D" "target \<in> set (en_discs D)"
    "f (vspan E R k i) = Ok p" "same_span (vspan E R k i) p"
    "ps_validate_selected P target p = Ok ()" "ps_materialize_selected P target p = Ok (val k)" "val t = EnumValue target"
  shows "tag_at E R D t i = target \<Longrightarrow> field_done E R k i (commit_at E (ps_wire P) (field_value_offset E R k) f i) val"
    and "field_done E R k i (switch_tag E R k t P target i f) val"
proof -
  have kt: "k \<noteq> t" using assms(4,5) by auto
  have own: "owns R k j \<longleftrightarrow> j = k \<or> j = t" for j using assms(4) by (simp add: owns_def)
  have fin: "field_done E R k i (Ok j) val"
    if "same_span i j" "vspan E R k j = p" "tag_at E R D t j = target"
      "\<And>l. l < field_count R \<Longrightarrow> l \<noteq> k \<Longrightarrow> l \<noteq> t \<Longrightarrow> seg E R l j = seg E R l i" for j
  proof -
    note h = tagged_holds [OF assms(1) record_input_span [OF that(1) assms(2)] assms(3,4,5,6), of "val k"]
    have "holds E R k j (val k)" "holds E R t j (val t)" using h that(2,3) assms(8,11-13) by simp_all
    then show ?thesis unfolding field_done_def using that(1,4) by (intro exI [of _ j]) (auto simp: own)
  qed
  show "field_done E R k i (commit_at E (ps_wire P) (field_value_offset E R k) f i) val" if "tag_at E R D t i = target"
  proof -
    obtain j where j: "commit_at E (category_wire E (cat R k)) (field_value_offset E R k) f i = Ok j" "same_span i j"
      "vspan E R k j = p" "\<And>l. l < field_count R \<Longrightarrow> l \<noteq> k \<Longrightarrow> seg E R l j = seg E R l i"
      using value_commit [where f = f, OF assms(1-3,9,10)] by metis
    have "vspan E R t j = vspan E R t i" using same_vspan [OF assms(1,6) j(4) [OF assms(6)]] kt by simp
    then show ?thesis using fin [OF j(2,3)] j(1,4) that assms(4) by simp
  qed
  obtain j where j: "switch_tag E R k t P target i f = Ok j" "same_span i j" "vspan E R k j = p" "tag_at E R D t j = target"
    "\<And>l. l < field_count R \<Longrightarrow> l \<noteq> k \<Longrightarrow> l \<noteq> t \<Longrightarrow> seg E R l j = seg E R l i"
    using switch_tag_law [where commit_payload = f, OF assms(1-4,5-10)] by metis
  show "field_done E R k i (switch_tag E R k t P target i f) val" unfolding j(1) using fin [OF j(2-5)] .
qed

lemma tagged_field_law:
  assumes "record_ok E R" "record_input E R i" "k < field_count R" "cat R k = TaggedField t P" "payload_contract E True P"
    "cat R t = PathField (enum_support E D)" "t < field_count R" "enum_ok D"
    "\<not> is_external_tag_sibling R k" "category_val_ok (cat R k) (vs ! k)" "category_val_ok (cat R t) (vs ! t)"
    "ready m (proof_field E R k i)"
  shows "field_law E R m k i vs"
proof -
  let ?v = "vspan E R k i" and ?tag = "tag_at E R D t i" and ?kind = "mutation_field_kind (ri_name R) (fi_name (fld R k))"
  note sel = select_field [OF assms(1-3)] and read = read_tag_eq [OF assms(1,2,7,6)]
  have val: "ps_val_ok P (vs ! k)" and w: "i_wire ?v = ps_wire P" using assms(4,10) by simp_all
  obtain target where target: "ps_logical_tag P (vs ! k) = Ok target"
    using payload_contract.logical_tag_total [OF assms(5) TrueI val] by blast
  obtain d where d: "vs ! t = EnumValue d" "d \<in> set (en_discs D)"
    using assms(6,11) by (auto simp: enum_support_def split: lval.splits)
  have proved: "m = Replace \<Longrightarrow> ?tag \<in> set (en_discs D) \<and> ps_validate_selected P ?tag ?v = Ok ()"
    using assms(12) tagged_field_eqs(3) [OF assms(1-4,6,7)] by simp
  let ?current = "case m of Replace \<Rightarrow> ?tag | Init \<Rightarrow> target"
  have rdy: "ready m (ps_validate_selected P ?current ?v)" using proved by (cases m) auto
  have pre: "preflight_field E R m k i vs = (if d = target
      then map_err (\<lambda>_. ?kind KCapacityExceeded) (ps_preflight P m ?current ?v (vs ! k)) else Err (?kind TagMismatch))"
    using assms(4,9) target d(1) read proved sel(3) by (cases m) (simp_all add: preflight_field_def Let_def)
  have "field_done E R k i (commit_field E R m k i vs) ((!) vs)"
    if eq: "d = target" and ok: "ps_preflight P m ?current ?v (vs ! k) = Ok ()"
  proof -
    obtain p where p: "ps_commit P (if m = Replace \<and> ?current = target then Replace else Init) ?v (vs ! k) = Ok p" "same_span ?v p"
      "ps_validate_selected P target p = Ok ()" "ps_materialize_selected P target p = Ok (vs ! k)"
      using payload_contract.commit_law [OF assms(5) TrueI sel(4) w val target rdy ok] by blast
    note fin = payload_done [where val = "(!) vs", OF assms(1-4,6,7,8) d(2) [unfolded eq] _ p(2-4) d(1) [unfolded eq]]
    show ?thesis
    proof (cases "m = Replace \<and> ?tag = target")
      case True
      have "field_done E R k i (commit_at E (ps_wire P) (field_value_offset E R k) (\<lambda>i. ps_commit P Replace i (vs ! k)) i) ((!) vs)"
        by (rule fin(1)) (use True p(1) in simp_all)
      then show ?thesis using assms(4,9) target True read proved by (simp add: commit_field_def Let_def)
    next
      case False
      have "field_done E R k i (switch_tag E R k t P target i (\<lambda>i. ps_commit P Init i (vs ! k))) ((!) vs)"
        by (rule fin(2)) (use False p(1) in \<open>cases m; auto\<close>)
      then show ?thesis
        using assms(4,9) target False read proved by (cases m) (auto simp: commit_field_def Let_def)
    qed
  qed
  then show ?thesis
    unfolding field_law_def pre using payload_contract.preflight_total [OF assms(5) TrueI sel(4) w val rdy] by auto
qed

section \<open>Committing a record\<close>

lemma commit_one_field:
  assumes "record_ok E R" "record_input E R i" "k < field_count R" "\<not> is_external_tag_sibling R k"
    "\<And>j. j < field_count R \<Longrightarrow> category_val_ok (cat R j) (vs ! j)" "ready m (proof_field E R k i)"
  shows "field_law E R m k i vs"
  using assms(1,3)
proof (cases rule: field_cases)
  case (leaf l)
  then show ?thesis using leaf_field_law [OF assms(1-3) leaf(1) assms(4) assms(5) [OF assms(3)]] by blast
next
  case (path S)
  then show ?thesis using path_field_law [OF assms(1-3) path assms(4) assms(5) [OF assms(3)] assms(6)] by blast
next
  case (tagged t P D)
  then show ?thesis
    using tagged_field_law [OF assms(1-3) tagged(1,2,5,3,4) assms(4) assms(5) [OF assms(3)] assms(5) [OF tagged(3)] assms(6)] by blast
next
  case (array n e)
  then show ?thesis using array_field_law [OF assms(1-3) array(1,3) assms(4) assms(5) [OF assms(3)] assms(6)] by blast
next
  case (optional x)
  then show ?thesis using optional_field_law [OF assms(1-3) optional assms(4) assms(5) [OF assms(3)]] by blast
qed

lemma bytes_preflight_input: "leaf_preflight E er (FixedBytes n) i x = leaf_preflight E er (FixedBytes n) j x"
  by (cases x) (simp_all add: leaf_preflight.simps)

lemma preflight_local:
  assumes "record_ok E R" "record_input E R i" "record_input E R j" "k < field_count R"
    "\<And>t. owns R k t \<Longrightarrow> seg E R t i = seg E R t j"
  shows "preflight_field E R m k i vs = preflight_field E R m k j vs"
proof -
  have seg: "seg E R k i = seg E R k j" using assms(5) by simp
  note v = same_vspan [OF assms(1,4) seg] and si = select_field(1,3) [OF assms(1,2,4)] and sj = select_field(1,3) [OF assms(1,3,4)]
  from assms(1,4) show ?thesis
  proof (cases rule: field_cases)
    case (leaf l)
    then show ?thesis
      using si sj v bytes_preflight_input [of E _ _ i _ j]
      by (cases l; cases "vs ! k") (auto simp: preflight_field_def Let_def)
  next
    case (path S)
    then show ?thesis using si sj v by (simp add: preflight_field_def Let_def)
  next
    case (tagged t P D)
    have "seg E R t i = seg E R t j" using assms(5) [of t] tagged(1) by (simp add: owns_def)
    note vt = same_vspan [OF assms(1) tagged(3) this]
    have rd: "read_tag E R t a b i = read_tag E R t a b j" for a b
      unfolding read_tag_eq [OF assms(1,2) tagged(3,5)] read_tag_eq [OF assms(1,3) tagged(3,5)] vt ..
    show ?thesis using tagged(1) si sj v by (cases m) (simp_all add: preflight_field_def Let_def rd cong: if_cong)
  next
    case (array n e)
    then show ?thesis using si sj v by (cases "vs ! k") (simp_all add: preflight_field_def Let_def)
  next
    case (optional x)
    then show ?thesis using si sj seg by (simp add: preflight_field_def Let_def)
  qed
qed

lemma tag_sibling_iff:
  assumes "record_ok E R"
  shows "is_external_tag_sibling R t \<longleftrightarrow> (\<exists>k < field_count R. \<exists>P. cat R k = TaggedField t P)"
proof -
  have "(case c of TaggedField t' P \<Rightarrow> t' = t | _ \<Rightarrow> False) \<longleftrightarrow> (\<exists>P. c = TaggedField t P)" for c by (cases c) auto
  then show ?thesis unfolding is_external_tag_sibling_def list_ex_iff by (metis in_set_conv_nth)
qed

lemma tag_sibling_path:
  assumes "record_ok E R" "is_external_tag_sibling R t"
  shows "t < field_count R" "\<exists>S. cat R t = PathField S"
  using assms tag_sibling_iff [OF assms(1), of t] record_okD(4) [OF assms(1)] by fastforce+

lemma owner_unique:
  assumes "record_ok E R" "k < field_count R" "l < field_count R" "\<not> is_external_tag_sibling R k" "\<not> is_external_tag_sibling R l"
    "owns R k j" "owns R l j"
  shows "k = l"
  using assms(2-7) tag_sibling_iff [OF assms(1)] record_okD(5) [OF assms(1)]
  by (fastforce simp: owns_def split: category.splits)

lemma owner_exists:
  assumes "record_ok E R" "j < field_count R"
  obtains k where "k < field_count R" "\<not> is_external_tag_sibling R k" "owns R k j"
proof (cases "is_external_tag_sibling R j")
  case False
  then show ?thesis using that [of j] assms(2) by simp
next
  case True
  then obtain k P where k: "k < field_count R" "cat R k = TaggedField j P" using tag_sibling_iff [OF assms(1)] by blast
  moreover have "\<not> is_external_tag_sibling R k" using tag_sibling_path(2) [OF assms(1), of k] k(2) by auto
  ultimately show ?thesis using that [of k] by (simp add: owns_def)
qed

text \<open>What a field owns is closed: a tag field is a scalar enum and owns only itself.\<close>

lemma owns_trans:
  assumes "record_ok E R" "k < field_count R" "owns R k j" "owns R j t"
  shows "owns R k t"
  using assms(3,4) record_okD(4) [OF assms(1,2)] by (auto simp: owns_def split: category.splits)

lemma owns_less:
  assumes "record_ok E R" "k < field_count R" "owns R k j"
  shows "j < field_count R"
  using assms(2,3) record_okD(4) [OF assms(1,2)] by (auto simp: owns_def split: category.splits)

text \<open>
  A pass over fields: when every step does its field's work from any input that still has the field's own
  bytes, the whole pass does the work of all of them, since their storage is disjoint.
\<close>

lemma commit_steps_law:
  assumes "record_ok E R" "record_input E R i" "distinct ks" "\<And>k. k \<in> set ks \<Longrightarrow> k < field_count R"
    "\<And>k j. k \<in> set ks \<Longrightarrow> is_external_tag_sibling R k \<Longrightarrow> step k j = Ok j"
    "\<And>k j. k \<in> set ks \<Longrightarrow> \<not> is_external_tag_sibling R k \<Longrightarrow> record_input E R j \<Longrightarrow>
       (\<And>t. owns R k t \<Longrightarrow> seg E R t j = seg E R t i) \<Longrightarrow> field_done E R k j (step k j) val"
  shows "\<exists>c. commit_fields step ks i = Ok c \<and> same_span i c \<and>
    (\<forall>j < field_count R. (\<exists>k \<in> set ks. \<not> is_external_tag_sibling R k \<and> owns R k j) \<longrightarrow> holds E R j c (val j)) \<and>
    (\<forall>j < field_count R. (\<forall>k \<in> set ks. \<not> is_external_tag_sibling R k \<longrightarrow> owns R k j \<longrightarrow> (\<forall>x. step k x = Ok x)) \<longrightarrow> seg E R j c = seg E R j i)"
  using assms(2-6)
proof (induction ks arbitrary: i)
  case Nil
  then show ?case by simp
next
  case (Cons k ks)
  show ?case
  proof (cases "is_external_tag_sibling R k")
    case True
    then show ?thesis using Cons.IH [OF Cons.prems(1)] Cons.prems(2-5) by simp
  next
    case False
    have k: "k < field_count R" using Cons.prems(3) by simp
    obtain c where c: "step k i = Ok c" "same_span i c"
      "\<And>j. j < field_count R \<Longrightarrow> owns R k j \<Longrightarrow> holds E R j c (val j)"
      "\<And>j. j < field_count R \<Longrightarrow> \<not> owns R k j \<Longrightarrow> seg E R j c = seg E R j i"
      using Cons.prems(5) [OF _ False Cons.prems(1)] unfolding field_done_def by auto
    have rc: "record_input E R c" using record_input_span [OF c(2) Cons.prems(1)] .
    have apart: "\<not> owns R k t" if "l \<in> set ks" "\<not> is_external_tag_sibling R l" "owns R l t" for l t
      using owner_unique [OF assms(1) _ k that(2) False that(3)] Cons.prems(2,3) that(1) by auto
    have frame: "seg E R t c = seg E R t i" if "l \<in> set ks" "\<not> is_external_tag_sibling R l" "owns R l t" for l t
      using c(4) owns_less [OF assms(1) _ that(3)] apart [OF that] Cons.prems(3) that(1) by simp
    have later: "field_done E R l j (step l j) val" if "l \<in> set ks" "\<not> is_external_tag_sibling R l" "record_input E R j"
      "\<And>t. owns R l t \<Longrightarrow> seg E R t j = seg E R t c" for l j
      using Cons.prems(5) [OF _ that(2,3)] that(1,4) frame [OF that(1,2)] by simp
    have ih: "\<exists>d. commit_fields step ks c = Ok d \<and> same_span c d \<and>
      (\<forall>j < field_count R. (\<exists>l \<in> set ks. \<not> is_external_tag_sibling R l \<and> owns R l j) \<longrightarrow> holds E R j d (val j)) \<and>
      (\<forall>j < field_count R. (\<forall>l \<in> set ks. \<not> is_external_tag_sibling R l \<longrightarrow> owns R l j \<longrightarrow> (\<forall>x. step l x = Ok x)) \<longrightarrow> seg E R j d = seg E R j c)"
    proof (rule Cons.IH [OF rc])
      show "field_done E R l j (step l j) val" if "l \<in> set ks" "\<not> is_external_tag_sibling R l" "record_input E R j"
        "\<And>t. owns R l t \<Longrightarrow> seg E R t j = seg E R t c" for l j by (rule later [OF that])
    qed (use Cons.prems(2-4) in simp_all)
    obtain d where d: "commit_fields step ks c = Ok d" "same_span c d"
      "\<And>j. j < field_count R \<Longrightarrow> \<exists>l \<in> set ks. \<not> is_external_tag_sibling R l \<and> owns R l j \<Longrightarrow> holds E R j d (val j)"
      "\<And>j. j < field_count R \<Longrightarrow> \<forall>l \<in> set ks. \<not> is_external_tag_sibling R l \<longrightarrow> owns R l j \<longrightarrow> (\<forall>x. step l x = Ok x) \<Longrightarrow> seg E R j d = seg E R j c"
      using ih by blast
    have rd: "record_input E R d" using record_input_span [OF d(2) rc] .
    have kept: "seg E R t d = seg E R t c" if "owns R k t" for t
      using d(4) owns_less [OF assms(1) k that] apart that by blast
    have mine: "holds E R j d (val j)" if j: "j < field_count R" "owns R k j" for j
      using field_local [OF assms(1) rd rc j(1) kept [OF owns_trans [OF assms(1) k j(2)]]] c(3) [OF j] by simp
    have "same_span i d" using same_span_trans [OF c(2) d(2)] .
    moreover have "holds E R j d (val j)"
      if "j < field_count R" "\<exists>l \<in> set (k # ks). \<not> is_external_tag_sibling R l \<and> owns R l j" for j
      using that mine d(3) by (metis set_ConsD)
    moreover have "seg E R j d = seg E R j i"
      if "j < field_count R" "\<forall>l \<in> set (k # ks). \<not> is_external_tag_sibling R l \<longrightarrow> owns R l j \<longrightarrow> (\<forall>x. step l x = Ok x)" for j
    proof -
      have "seg E R j c = seg E R j i" using that c(1,4) False by (cases "owns R k j") auto
      then show ?thesis using that d(4) [OF that(1)] by simp
    qed
    ultimately show ?thesis using c(1) d(1) by (intro exI [of _ d]) simp
  qed
qed

text \<open>A pass over all fields that does every field's work leaves a record that holds the values.\<close>

lemma record_of_steps:
  assumes "record_ok E R" "record_input E R i"
    "\<And>k j. k < field_count R \<Longrightarrow> is_external_tag_sibling R k \<Longrightarrow> step k j = Ok j"
    "\<And>k j. k < field_count R \<Longrightarrow> \<not> is_external_tag_sibling R k \<Longrightarrow> record_input E R j \<Longrightarrow>
       (\<And>t. owns R k t \<Longrightarrow> seg E R t j = seg E R t i) \<Longrightarrow> field_done E R k j (step k j) val"
  obtains c where "commit_fields step [0..<field_count R] i = Ok c" "same_span i c"
    "\<And>j. j < field_count R \<Longrightarrow> holds E R j c (val j)"
    "\<And>j. j < field_count R \<Longrightarrow> (\<And>k x. k < field_count R \<Longrightarrow> \<not> is_external_tag_sibling R k \<Longrightarrow> owns R k j \<Longrightarrow> step k x = Ok x) \<Longrightarrow>
      seg E R j c = seg E R j i"
proof -
  obtain c where c: "commit_fields step [0..<field_count R] i = Ok c" "same_span i c"
    "\<And>j. j < field_count R \<Longrightarrow> \<exists>k \<in> set [0..<field_count R]. \<not> is_external_tag_sibling R k \<and> owns R k j \<Longrightarrow> holds E R j c (val j)"
    "\<And>j. j < field_count R \<Longrightarrow> \<forall>k \<in> set [0..<field_count R]. \<not> is_external_tag_sibling R k \<longrightarrow> owns R k j \<longrightarrow> (\<forall>x. step k x = Ok x) \<Longrightarrow>
      seg E R j c = seg E R j i"
    using commit_steps_law [OF assms(1,2), of "[0..<field_count R]" step val] assms(3,4) by auto
  moreover have "holds E R j c (val j)" if "j < field_count R" for j
    using c(3) [OF that] owner_exists [OF assms(1) that] by (metis atLeastLessThan_iff set_upt zero_le)
  moreover have "seg E R j c = seg E R j i" if "j < field_count R"
    "\<And>k x. k < field_count R \<Longrightarrow> \<not> is_external_tag_sibling R k \<Longrightarrow> owns R k j \<Longrightarrow> step k x = Ok x" for j
    using c(4) [OF that(1)] that(2) by simp
  ultimately show ?thesis using that by blast
qed

section \<open>Zero states of a record\<close>

abbreviation "zero_term c \<equiv> (case field_zero_is_valid c of None \<Rightarrow> True | Some b \<Rightarrow> b)"

lemma elem_zero_term_iff: "(case elem_zero_term e of None \<Rightarrow> True | Some b \<Rightarrow> b) \<longleftrightarrow> elem_zero_is_valid e"
  by (induction e) simp_all

lemma elem_state_sound:
  assumes "element_ok E e"
  shows "elem_state ss_clear_state e = ZeroValid \<Longrightarrow> elem_zero_is_valid e"
    "elem_zero_is_valid e \<Longrightarrow> elem_state ss_zero_state e = ZeroValid"
  using assms by (induction e) (auto intro: schema_contract.clear_state_sound schema_contract.zero_state_sound)

lemma wire_type_state_valid:
  "wire_type_state st pst R = ZeroValid \<longleftrightarrow> (\<forall>k < field_count R. field_state st pst (cat R k) = ZeroValid)"
proof -
  have "foldr (\<lambda>f composed. zs_or (field_state st pst (fi_category f)) composed) fs ZeroValid = ZeroValid \<longleftrightarrow>
      (\<forall>f \<in> set fs. field_state st pst (fi_category f) = ZeroValid)" for fs
    by (induction fs) auto
  then show ?thesis by (simp add: wire_type_state_def all_set_conv_all_nth)
qed

lemma wire_type_zero_is_valid_iff: "wire_type_zero_is_valid R \<longleftrightarrow> (\<forall>k < field_count R. zero_term (cat R k))"
  by (simp add: wire_type_zero_is_valid_def list_all_length)

lemma field_state_sound:
  assumes "record_ok E R" "k < field_count R"
  shows "field_state ss_clear_state ps_clear_state (cat R k) = ZeroValid \<Longrightarrow> zero_term (cat R k)"
    "zero_term (cat R k) \<Longrightarrow> field_state ss_zero_state ps_zero_state (cat R k) = ZeroValid"
  using assms
  by (cases rule: field_cases; simp add: elem_zero_term_iff elem_state_sound schema_contract.clear_state_sound
      schema_contract.zero_state_sound payload_contract.clear_state_sound payload_contract.zero_state_sound)+

lemma zero_field:
  assumes "record_ok E R" "record_input E R i" "k < field_count R" "is_all_zero i"
  shows "proof_field E R k i = Ok () \<Longrightarrow> zero_term (cat R k)"
    "\<forall>j < field_count R. zero_term (cat R j) \<Longrightarrow> proof_field E R k i = Ok ()"
proof -
  note sel = select_field [OF assms(1-3)] and E = record_okD(1) [OF assms(1)]
  have zero: "is_all_zero (sub_input w off i)" for w off using assms(4) by (simp add: is_all_zero_def all_zero_slice)
  from assms(1,3) have "(proof_field E R k i = Ok () \<longrightarrow> zero_term (cat R k)) \<and>
    ((\<forall>j < field_count R. zero_term (cat R j)) \<longrightarrow> proof_field E R k i = Ok ())"
  proof (cases rule: field_cases)
    case (leaf l)
    then show ?thesis
      using leaf_field_eqs(1) [OF assms(1-3) leaf(1)] leaf_read_zero [OF E sel(4) _ leaf(2) zero] by simp
  next
    case (path S)
    then show ?thesis
      using path_field_eqs(3) [OF assms(1-3) path(1)] schema_contract.zero_exact [OF path(2) TrueI sel(4) _ zero] assms(3) by fastforce
  next
    case (tagged t P D)
    have "tag_at E R D t i = 0" using enum_of_zero zero by blast
    then have eq: "proof_field E R k i = Ok () \<longleftrightarrow> 0 \<in> set (en_discs D) \<and> ps_zero_is_valid P"
      using tagged_field_eqs(3) [OF assms(1-3) tagged(1,5,3)]
        payload_contract.zero_exact [OF tagged(2) TrueI sel(4) _ zero] tagged(1) by simp
    have "zero_term (cat R t) \<longleftrightarrow> 0 \<in> set (en_discs D)" using tagged(5) by (simp add: enum_support_def)
    then show ?thesis using eq tagged(1,3) assms(3) by fastforce
  next
    case (array n e)
    let ?A = "elem_of E (ri_name R) (fi_name (fld R k)) (n # element_dims e) e" and ?v = "vspan E R k i"
    note c = array_field_contract [OF assms(1-3) array(1,3)]
    have "element_layout E True ?A" using c(1) by (simp add: element_contract_def)
    note el = element_layout.select(3,4) [OF this TrueI sel(4) c(2)]
    have "el_prove ?A j (array_elem ?A ?v j) = Ok () \<longleftrightarrow> elem_zero_is_valid e" if "j < n" for j
      using elem_zero_iff [OF E array(3) el(1) [OF that]] el(2) [OF that] zero
      by (simp add: array_elem_def is_all_zero_def all_zero_slice)
    then have "proof_field E R k i = Ok () \<longleftrightarrow> elem_zero_is_valid e"
      using c(2,5) sel(4) array(2) by (auto simp: array_proved_def)
    then show ?thesis using array(1) assms(3) elem_zero_term_iff [of e] by fastforce
  next
    case (optional x)
    then show ?thesis using optional_field_eqs(1) [OF assms(1-3) optional(1)] zero by simp
  qed
  then show "proof_field E R k i = Ok () \<Longrightarrow> zero_term (cat R k)"
    "\<forall>j < field_count R. zero_term (cat R j) \<Longrightarrow> proof_field E R k i = Ok ()" by blast+
qed

section \<open>Records meet the schema contract\<close>

lemma record_validate_iff:
  assumes "record_ok E R" "record_input E R i"
  shows "record_validate E R i = Ok () \<longleftrightarrow> (\<forall>k < field_count R. proof_field E R k i = Ok ())" "record_validate E R i \<noteq> Panic"
  using proof_field_total [OF assms] for_each_Panic [of "\<lambda>k. proof_field E R k i" "[0..<field_count R]"]
  by (auto simp: record_validate_def)

lemma record_value_of_fields:
  assumes "\<And>k. k < field_count R \<Longrightarrow> materialized_field E R k i = Ok (vs ! k)" "length vs = field_count R"
  shows "record_copy_into E R (SpanView i) = Ok (RecordValue vs)"
proof -
  have "collect (\<lambda>k. materialized_field E R k i) [0..<field_count R] = Ok vs" using assms by (simp add: collect_Ok)
  then show ?thesis by (simp add: record_copy_into_def)
qed

lemma record_proved_values:
  assumes "record_ok E R" "record_input E R i" "record_validate E R i = Ok ()"
  obtains vs where "record_copy_into E R (SpanView i) = Ok (RecordValue vs)" "length vs = field_count R"
    "\<And>j. j < field_count R \<Longrightarrow> materialized_field E R j i = Ok (vs ! j)"
proof -
  obtain vs where vs: "collect (\<lambda>k. materialized_field E R k i) [0..<field_count R] = Ok vs"
    using record_validate_iff(1) [OF assms(1,2)] assms(3) proved_field_value [OF assms(1,2)] collect_exists by (metis atLeastLessThan_iff set_upt)
  then have "length vs = field_count R" "\<And>j. j < field_count R \<Longrightarrow> materialized_field E R j i = Ok (vs ! j)"
    by (auto simp: collect_Ok)
  then show ?thesis using that vs by (simp add: record_copy_into_def)
qed

lemma record_proved_reads:
  assumes "record_ok E R" "record_input E R i" "record_validate E R i = Ok ()"
  shows "\<exists>v. record_copy_into E R (SpanView i) = Ok v"
  using record_proved_values [OF assms] by metis

lemma record_valueE:
  assumes "record_val_ok R v"
  obtains vs where "v = RecordValue vs" "length vs = field_count R" "\<And>j. j < field_count R \<Longrightarrow> category_val_ok (cat R j) (vs ! j)"
proof (cases v)
  case (RecordValue vs)
  show ?thesis
  proof (rule that [OF RecordValue])
    show "length vs = field_count R" using assms RecordValue by (simp add: record_val_ok_def)
    show "category_val_ok (cat R j) (vs ! j)" if "j < field_count R" for j
      using assms RecordValue that list_all2_nthD [of "\<lambda>f. category_val_ok (fi_category f)" "ri_fields R" vs j] by (simp add: record_val_ok_def)
  qed
qed (use assms in \<open>simp_all add: record_val_ok_def\<close>)

lemma record_commit_law:
  assumes "record_ok E R" "record_input E R i" "record_val_ok R v" "ready m (record_validate E R i)"
  shows "record_preflight E R m i v \<noteq> Panic"
    and "record_preflight E R m i v = Ok () \<Longrightarrow> \<exists>c. record_commit E R m i v = Ok c \<and> same_span i c \<and>
      record_validate E R c = Ok () \<and> record_copy_into E R (SpanView c) = Ok v"
proof -
  obtain vs where vs: "v = RecordValue vs" "length vs = field_count R" "\<And>j. j < field_count R \<Longrightarrow> category_val_ok (cat R j) (vs ! j)"
    using record_valueE [OF assms(3)] by metis
  have rdy: "ready m (proof_field E R k i)" if "k < field_count R" for k
    using assms(4) record_validate_iff(1) [OF assms(1,2)] that by (cases m) auto
  have "preflight_field E R m k i vs \<noteq> Panic" if "k < field_count R" for k
  proof (cases "is_external_tag_sibling R k")
    case False
    then show ?thesis using commit_one_field [OF assms(1,2) that False vs(3) rdy [OF that]] by (simp add: field_law_def)
  qed (simp add: preflight_field_def Let_def)
  then show "record_preflight E R m i v \<noteq> Panic"
    using for_each_Panic [of "\<lambda>k. preflight_field E R m k i vs" "[0..<field_count R]"] vs(1) by (auto simp: record_passes)
  assume "record_preflight E R m i v = Ok ()"
  then have pre: "preflight_field E R m k i vs = Ok ()" if "k < field_count R" for k using that vs(1) by (simp add: record_passes)
  have step: "field_done E R k j (commit_field E R m k j vs) ((!) vs)"
    if k: "k < field_count R" "\<not> is_external_tag_sibling R k" and j: "record_input E R j" "\<And>t. owns R k t \<Longrightarrow> seg E R t j = seg E R t i" for k j
  proof -
    have "ready m (proof_field E R k j)"
      using field_local(1) [OF assms(1) j(1) assms(2) k(1) j(2)] rdy [OF k(1)] by (cases m) simp_all
    then have "field_law E R m k j vs" using commit_one_field [OF assms(1) j(1) k vs(3)] by simp
    moreover have "preflight_field E R m k j vs = Ok ()"
      using preflight_local [where m = m and vs = vs, OF assms(1) j(1) assms(2) k(1) j(2)] pre [OF k(1)] by simp
    ultimately show ?thesis by (simp add: field_law_def)
  qed
  obtain c where c: "commit_fields (\<lambda>k i. commit_field E R m k i vs) [0..<field_count R] i = Ok c" "same_span i c"
    and holds: "\<And>j. j < field_count R \<Longrightarrow> holds E R j c (vs ! j)"
  proof (rule record_of_steps [where step = "\<lambda>k i. commit_field E R m k i vs" and val = "(!) vs", OF assms(1,2)])
    show "commit_field E R m k j vs = Ok j" if "is_external_tag_sibling R k" for k j using that by (simp add: commit_field_def Let_def)
    show "field_done E R k j (commit_field E R m k j vs) ((!) vs)"
      if "k < field_count R" "\<not> is_external_tag_sibling R k" "record_input E R j" "\<And>t. owns R k t \<Longrightarrow> seg E R t j = seg E R t i" for k j
      by (rule step [OF that])
  qed blast
  have "record_validate E R c = Ok ()"
    using record_validate_iff(1) [OF assms(1) record_input_span [OF c(2) assms(2)]] holds by blast
  moreover have "record_copy_into E R (SpanView c) = Ok v"
    using record_value_of_fields [of R E c vs] holds vs(1,2) by simp
  ultimately show "\<exists>c. record_commit E R m i v = Ok c \<and> same_span i c \<and> record_validate E R c = Ok () \<and>
      record_copy_into E R (SpanView c) = Ok v"
    using c(1,2) vs(1) by (auto simp: record_passes)
qed

lemma record_support_sel [simp]:
  "ss_wire (record_support E R) = record_wire E R" "ss_val_ok (record_support E R) = record_val_ok R"
  "ss_validate (record_support E R) = record_validate E R" "ss_make_ref (record_support E R) = (\<lambda>i. Ok (SpanView i))"
  "ss_materialize (record_support E R) = record_copy_into E R" "ss_preflight (record_support E R) = record_preflight E R"
  "ss_commit (record_support E R) = record_commit E R" "ss_name (record_support E R) = ri_name R"
  "ss_zero_state (record_support E R) = wire_type_state ss_zero_state ps_zero_state R"
  "ss_clear_state (record_support E R) = wire_type_state ss_clear_state ps_clear_state R"
  "ss_zero_is_valid (record_support E R) = wire_type_zero_is_valid R"
  by (simp_all add: record_support_def)

interpretation record_schema: schema_contract E "record_ok E R" "record_support E R" for E R
proof unfold_locales
  let ?S = "record_support E R"
  assume ok: "record_ok E R"
  show "env_ok E" "wf_layout (ss_wire ?S)" using record_okD(1) wf_record_wire ok by simp_all
  show "ss_clear_state ?S = ZeroValid \<Longrightarrow> ss_zero_is_valid ?S" "ss_zero_is_valid ?S \<Longrightarrow> ss_zero_state ?S = ZeroValid"
    using field_state_sound [OF ok] by (simp_all add: wire_type_state_valid wire_type_zero_is_valid_iff)
  fix i v m
  assume "input_ok E i" "i_wire i = ss_wire ?S"
  then have i: "record_input E R i" by simp
  show "ss_validate ?S i \<noteq> Panic" using record_validate_iff(2) [OF ok i] by simp
  show "ss_validate ?S i = Ok () \<Longrightarrow> \<exists>r v. ss_make_ref ?S i = Ok r \<and> ss_materialize ?S r = Ok v"
    using record_proved_reads [OF ok i] by simp
  show "is_all_zero i \<Longrightarrow> (ss_validate ?S i = Ok ()) = ss_zero_is_valid ?S"
    using record_validate_iff(1) [OF ok i] zero_field [OF ok i] by (auto simp: wire_type_zero_is_valid_iff)
  assume v: "ss_val_ok ?S v" and rdy: "ready m (ss_validate ?S i)"
  show "ss_preflight ?S m i v \<noteq> Panic" using record_commit_law(1) [OF ok i] v rdy by simp
  show "ss_preflight ?S m i v = Ok () \<Longrightarrow> \<exists>c. ss_commit ?S m i v = Ok c \<and> same_span i c \<and> ss_validate ?S c = Ok () \<and> ss_logical ?S c = Ok v"
    using record_commit_law(2) [OF ok i] v rdy by (simp add: ss_logical_def)
qed

end
