(* ===== verification/Zs_Schema.thy ===== *)
theory Zs_Schema
  imports Zs_Record_Laws
begin

text \<open>
  Every schema the macro generates: the least set of supports closed under scalar enums, records over
  generated children and tagged payloads over generated variants. Rule induction over this derivation
  gives the schema contract for all of them, and with it the guarantees the crate documents: proofs are
  total, a proved span is readable, the two-pass mutation is atomic and reads back, all-zero bytes are
  valid exactly when the declaration says so, and clearing keeps a clearable schema valid.
\<close>

section \<open>Derivations\<close>

primrec element_children :: "element \<Rightarrow> schema_support list" where
  "element_children (LeafElem l) = []"
| "element_children (PathElem S) = [S]"
| "element_children (RowElem n e) = element_children e"

primrec element_shape :: "element \<Rightarrow> bool" where
  "element_shape (LeafElem l) \<longleftrightarrow> leaf_ok l \<and> (case l of FixedBytes n \<Rightarrow> False | _ \<Rightarrow> True)"
| "element_shape (PathElem S) \<longleftrightarrow> True"
| "element_shape (RowElem n e) \<longleftrightarrow> 0 < n \<and> element_shape e"

fun category_children :: "category \<Rightarrow> schema_support list" where
  "category_children (LeafField l) = []"
| "category_children (PathField S) = [S]"
| "category_children (TaggedField t P) = []"
| "category_children (ArrayField n e) = element_children e"
| "category_children (OptionalField (OptPath S)) = [S]"
| "category_children (OptionalField (OptArray n S)) = [S]"

fun category_payloads :: "category \<Rightarrow> payload_support list" where
  "category_payloads (TaggedField t P) = [P]"
| "category_payloads _ = []"

fun category_shape :: "env \<Rightarrow> record_ir \<Rightarrow> category \<Rightarrow> bool" where
  "category_shape E R (LeafField l) \<longleftrightarrow> leaf_ok l"
| "category_shape E R (PathField S) \<longleftrightarrow> True"
| "category_shape E R (TaggedField t P) \<longleftrightarrow> t < field_count R \<and>
     (\<exists>D. enum_ok D \<and> cat R t = PathField (enum_support E D) \<and> set (ps_tags P) \<subseteq> set (en_discs D))"
| "category_shape E R (ArrayField n e) \<longleftrightarrow> 0 < n \<and> element_shape e"
| "category_shape E R (OptionalField (OptPath S)) \<longleftrightarrow> ss_zero_state S = ZeroInvalid"
| "category_shape E R (OptionalField (OptArray n S)) \<longleftrightarrow> 0 < n \<and> ss_zero_state S = ZeroInvalid"

text \<open>A record declaration that analysis accepts, apart from its children: at least one field, admissible
  alignments and lengths, no optional over a possibly zero inner, and one payload per tag field.\<close>

definition record_shape :: "env \<Rightarrow> record_ir \<Rightarrow> bool" where
  "record_shape E R \<longleftrightarrow> ri_fields R \<noteq> [] \<and> align_ok (ri_align R) \<and>
     (\<forall>k < field_count R. align_ok (fi_align (fld R k)) \<and> category_shape E R (cat R k)) \<and>
     (\<forall>j < field_count R. \<forall>k < field_count R. \<forall>t P Q. cat R j = TaggedField t P \<and> cat R k = TaggedField t Q \<longrightarrow> j = k)"

inductive generated :: "env \<Rightarrow> schema_support \<Rightarrow> bool" and generated_payload :: "env \<Rightarrow> payload_support \<Rightarrow> bool" for E where
  of_enum: "enum_ok D \<Longrightarrow> generated E (enum_support E D)"
| of_record: "record_shape E R \<Longrightarrow>
    (\<And>k S. k < field_count R \<Longrightarrow> S \<in> set (category_children (cat R k)) \<Longrightarrow> generated E S) \<Longrightarrow>
    (\<And>k P. k < field_count R \<Longrightarrow> P \<in> set (category_payloads (cat R k)) \<Longrightarrow> generated_payload E P) \<Longrightarrow>
    generated E (record_support E R)"
| of_payload: "vs \<noteq> [] \<Longrightarrow> distinct (map va_tag vs) \<Longrightarrow>
    (\<And>va S. va \<in> set vs \<Longrightarrow> va_shape va = Some S \<Longrightarrow> generated E S) \<Longrightarrow> generated_payload E (tagged_support E nm vs)"

lemma element_ok_of_children:
  "element_shape e \<Longrightarrow> (\<And>S. S \<in> set (element_children e) \<Longrightarrow> schema_contract E True S) \<Longrightarrow> element_ok E e"
  by (induction e) (auto split: leaf.splits)

lemma category_ok_of_children:
  assumes "category_shape E R c" "\<And>S. S \<in> set (category_children c) \<Longrightarrow> schema_contract E True S"
    "\<And>P. P \<in> set (category_payloads c) \<Longrightarrow> payload_contract E True P"
  shows "category_ok E R c"
proof (cases c)
  case (OptionalField x)
  then show ?thesis using assms by (cases x) auto
qed (use assms element_ok_of_children in auto)

lemma contract_of_ok: "schema_contract E ok S \<Longrightarrow> ok \<Longrightarrow> schema_contract E True S"
  by (simp add: schema_contract_def)

lemma payload_contract_of_ok: "payload_contract E ok P \<Longrightarrow> ok \<Longrightarrow> payload_contract E True P"
  by (simp add: payload_contract_def)

lemma record_ok_of_children:
  assumes "env_ok E" "record_shape E R"
    "\<And>k S. k < field_count R \<Longrightarrow> S \<in> set (category_children (cat R k)) \<Longrightarrow> schema_contract E True S"
    "\<And>k P. k < field_count R \<Longrightarrow> P \<in> set (category_payloads (cat R k)) \<Longrightarrow> payload_contract E True P"
  shows "record_ok E R"
proof -
  have "category_ok E R (cat R k)" if "k < field_count R" for k
    using assms(2-4) that by (intro category_ok_of_children) (auto simp: record_shape_def)
  then show ?thesis using assms(1,2) by (auto simp: record_ok_def record_shape_def)
qed

lemma generated_contracts:
  "generated E S \<Longrightarrow> env_ok E \<longrightarrow> schema_contract E True S"
  "generated_payload E P \<Longrightarrow> env_ok E \<longrightarrow> payload_contract E True P"
proof (induction rule: generated_generated_payload.inducts)
  case (of_enum D)
  then show ?case using contract_of_ok [OF enum_schema.schema_contract_axioms [of E D]] by blast
next
  case (of_record R)
  show ?case
  proof
    assume E: "env_ok E"
    then have "record_ok E R" using of_record(1,3,5) by (intro record_ok_of_children) blast+
    then show "schema_contract E True (record_support E R)"
      using contract_of_ok [OF record_schema.schema_contract_axioms] by blast
  qed
next
  case (of_payload vs nm)
  then have "env_ok E \<longrightarrow> payload_ok E vs" by (auto simp: payload_ok_def)
  then show ?case using payload_contract_of_ok [OF tagged.payload_contract_axioms] by blast
qed

interpretation gen: schema_contract E "env_ok E \<and> generated E S" S for E S
  using generated_contracts(1) unfolding schema_contract_def by blast

interpretation gen_payload: payload_contract E "env_ok E \<and> generated_payload E P" P for E P
  using generated_contracts(2) unfolding payload_contract_def by blast

section \<open>A sample schema\<close>

text \<open>
  A tag, a payload with a unit and a record variant, and a Boolean, as in the crate's own examples; the
  concrete instance the properties below are applied to.
\<close>

definition point :: record_ir where
  "point = \<lparr>ri_name = ''Point'', ri_align = None,
     ri_fields = [\<lparr>fi_name = ''x'', fi_category = LeafField (Primitive Little U8), fi_align = None\<rparr>]\<rparr>"

definition kind_decl :: enum_decl where
  "kind_decl = \<lparr>en_name = ''Kind'', en_endian = Little, en_repr = ReprU8, en_discs = [0, 1]\<rparr>"

definition body :: "env \<Rightarrow> variant_ir list" where
  "body E = [\<lparr>va_name = ''Empty'', va_tag = 0, va_shape = None\<rparr>,
     \<lparr>va_name = ''Move'', va_tag = 1, va_shape = Some (record_support E point)\<rparr>]"

definition message :: "env \<Rightarrow> record_ir" where
  "message E = \<lparr>ri_name = ''Message'', ri_align = None, ri_fields =
    [\<lparr>fi_name = ''kind'', fi_category = PathField (enum_support E kind_decl), fi_align = None\<rparr>,
     \<lparr>fi_name = ''body'', fi_category = TaggedField 0 (tagged_support E ''Body'' (body E)), fi_align = None\<rparr>,
     \<lparr>fi_name = ''flag'', fi_category = LeafField Bool, fi_align = None\<rparr>]\<rparr>"

abbreviation "x64 \<equiv> linux_x86_64"
abbreviation "message_schema \<equiv> record_support x64 (message x64)"

lemma less_two_cases: "k < Suc (Suc (Suc 0)) \<longleftrightarrow> k = 0 \<or> k = 1 \<or> k = 2"
  by auto

lemma generated_point: "generated E (record_support E point)"
  by (rule of_record) (auto simp: record_shape_def point_def align_ok_def)

lemma enum_ok_kind: "enum_ok kind_decl"
  by (simp add: enum_ok_def kind_decl_def scalar_width_def)

lemma message_shape: "record_shape E (message E)"
proof -
  have "set (ps_tags (tagged_support E ''Body'' (body E))) \<subseteq> set (en_discs kind_decl)"
    by (simp add: tagged_support_def body_def kind_decl_def)
  then show ?thesis
    using enum_ok_kind by (auto simp: record_shape_def message_def align_ok_def less_two_cases numeral_2_eq_2)
qed

lemma generated_body: "generated_payload E (tagged_support E ''Body'' (body E))"
  using generated_point by (intro of_payload) (auto simp: body_def)

lemma generated_message: "generated E (record_support E (message E))"
proof (rule of_record)
  show "record_shape E (message E)" by (rule message_shape)
  show "generated E S" if "k < field_count (message E)" "S \<in> set (category_children (cat (message E) k))" for k S
    using that of_enum [OF enum_ok_kind] by (auto simp: message_def less_two_cases)
  show "generated_payload E P" if "k < field_count (message E)" "P \<in> set (category_payloads (cat (message E) k))" for k P
    using that generated_body by (auto simp: message_def less_two_cases)
qed

lemma body_wire: "payload_wire x64 (body x64) = \<lparr>wl_size = 1, wl_align = 1\<rparr>"
proof -
  have "record_wire x64 point = \<lparr>wl_size = 1, wl_align = 1\<rparr>"
    by (simp add: point_def record_wire_def base_wire_def field_wire_def prim_layout_def repr_c_def)
  then show ?thesis
    by (simp add: payload_wire_def variant_wire_def body_def repr_c_union_def repr_c_def prim_layout_def)
qed

lemma message_wire: "record_wire x64 (message x64) = \<lparr>wl_size = 3, wl_align = 1\<rparr>"
  using body_wire
  by (simp add: message_def record_wire_def base_wire_def field_wire_def tagged_support_def enum_support_def enum_wire_def
      kind_decl_def prim_layout_def bytes_layout_def repr_c_def round_up_def)

abbreviation "message_input addr a b c \<equiv> \<lparr>i_addr = addr, i_bytes = [a, b, c], i_wire = record_wire x64 (message x64)\<rparr>"

lemma message_input_ok: "input_ok x64 (message_input addr a b c)"
  using exI [of "\<lambda>k. Suc 0 = 2 ^ k" 0] by (simp add: message_wire input_ok_def wf_layout_def)

lemma message_zero_valid: "wire_type_zero_is_valid (message E)"
  by (simp add: wire_type_zero_is_valid_def message_def enum_support_def kind_decl_def tagged_support_def
      tagged_payload_zero_is_valid_def body_def)

lemma message_zero_validates: "ss_validate message_schema (message_input addr 0 0 0) = Ok ()"
  using gen.zero_exact [OF conjI [OF env_ok_linux_x86_64 generated_message] message_input_ok] message_zero_valid
  by (simp add: is_all_zero_def all_zero_def)

abbreviation "message_value d \<equiv> RecordValue [EnumValue 1, VariantValue 1 (Some (RecordValue [LeafValue (NumVal 9)])), LeafValue (BoolVal d)]"

lemma message_value_ok: "ss_val_ok message_schema (message_value d)"
  by (simp add: record_val_ok_def message_def enum_support_def kind_decl_def tagged_support_def payload_val_ok_def body_def
      point_def prim_ok_def)

lemma point_record_ok: "env_ok E \<Longrightarrow> record_ok E point"
  by (rule record_ok_of_children) (auto simp: record_shape_def point_def align_ok_def)

lemma message_record_ok: "env_ok E \<Longrightarrow> record_ok E (message E)"
proof (rule record_ok_of_children)
  assume E: "env_ok E"
  show "schema_contract E True S" if "k < field_count (message E)" "S \<in> set (category_children (cat (message E) k))" for k S
    using that E generated_contracts(1) [OF of_enum [OF enum_ok_kind], of E] by (auto simp: message_def less_two_cases)
  show "payload_contract E True P" if "k < field_count (message E)" "P \<in> set (category_payloads (cat (message E) k))" for k P
    using that E generated_contracts(2) [OF generated_body, of E] by (auto simp: message_def less_two_cases)
qed (simp_all add: message_shape)

lemma point_accepts:
  assumes "env_ok E" "record_input E point i"
  shows "record_preflight E point m i (RecordValue [LeafValue (NumVal n)]) = Ok ()"
proof -
  have "subrange E (prim_layout E U8) (field_value_offset E point 0) i = Ok (vspan E point 0 i)"
    using select_field(3) [OF point_record_ok [OF assms(1)] assms(2), of 0] by (simp add: point_def)
  then show ?thesis
    by (simp add: record_passes preflight_field_def is_external_tag_sibling_def Let_def leaf_preflight.simps) (simp add: point_def leaf_preflight.simps)
qed

lemma message_accepts:
  "record_preflight x64 (message x64) Init (message_input addr a b c) (message_value d) = Ok ()"
proof -
  let ?R = "message x64" and ?i = "message_input addr a b c"
  note sel = select_field(3,4) [OF message_record_ok [OF env_ok_linux_x86_64], of ?i]
  have in1: "record_input x64 ?R ?i" using message_input_ok by simp
  have cats: "cat ?R (Suc 0) = TaggedField 0 (tagged_support x64 ''Body'' (body x64))" "cat ?R 2 = LeafField Bool"
    "field_count ?R = 3" "cat ?R 0 = PathField (enum_support x64 kind_decl)" by (simp_all add: message_def)
  have pay: "payload_ok x64 (body x64)"
    using generated_contracts(1) [OF generated_point, of x64] by (auto simp: payload_ok_def body_def)
  let ?v = "vspan x64 ?R (Suc 0) ?i"
  have v: "subrange x64 (payload_wire x64 (body x64)) (field_value_offset x64 ?R (Suc 0)) ?i = Ok ?v" "input_ok x64 ?v"
    "i_wire ?v = payload_wire x64 (body x64)"
    using sel [OF in1, of "Suc 0"] cats by (simp_all add: tagged_support_def)
  have va: "body x64 ! 1 \<in> set (body x64)" "va_shape (body x64 ! 1) = Some (record_support x64 point)" by (simp_all add: body_def)
  note ch = child_span_ok [OF pay v(2,3) va]
  have "preflight_arms x64 ''Body'' (body x64) Init ?v (VariantValue 1 (Some (RecordValue [LeafValue (NumVal 9)]))) = Ok ()"
    using ch(1,2) point_accepts [OF env_ok_linux_x86_64] va(2) by (simp add: preflight_arms_def body_def)
  then have f1: "preflight_field x64 ?R Init (Suc 0) ?i [EnumValue 1, VariantValue 1 (Some (RecordValue [LeafValue (NumVal 9)])), LeafValue (BoolVal d)] = Ok ()"
    using v(1) cats by (simp add: preflight_field_def Let_def tagged_support_def payload_logical_tag_def payload_preflight_def body_def)
  have f2: "preflight_field x64 ?R Init 2 ?i [EnumValue 1, VariantValue 1 (Some (RecordValue [LeafValue (NumVal 9)])), LeafValue (BoolVal d)] = Ok ()"
    using sel(1) [OF in1, of 2] cats by (simp add: preflight_field_def Let_def leaf_preflight.simps)
  have "is_external_tag_sibling ?R 0" by (simp add: is_external_tag_sibling_def message_def)
  then have f0: "preflight_field x64 ?R Init 0 ?i vs = Ok ()" for vs by (simp add: preflight_field_def Let_def)
  have "set [0..<3] = {0, Suc 0, 2}" by auto
  then show ?thesis using f0 f1 f2 cats(3) by (simp add: record_passes)
qed

section \<open>What every generated schema guarantees\<close>

text \<open>
  C3. Proofs are total and sufficient: over every checked span, the generated \<open>validate\<close> returns \<open>Ok\<close> or an
  error and never panics, and a span it accepts can be read - \<open>make_ref\<close> and the full materialization
  succeed, so none of their \<open>unreachable!\<close> branches is reached.
\<close>

theorem proved_spans_read:
  assumes "env_ok E" "generated E S" "input_ok E i" "i_wire i = ss_wire S"
  shows "ss_validate S i \<noteq> Panic \<and>
    (ss_validate S i = Ok () \<longrightarrow> (\<exists>r v. ss_make_ref S i = Ok r \<and> ss_materialize S r = Ok v \<and> ss_logical S i = Ok v))"
  using gen.validate_total gen.logical_of_proved assms by blast

theorem proved_spans_read_witness:
  "\<exists>r v. ss_make_ref message_schema (message_input 5 0 0 0) = Ok r \<and> ss_materialize message_schema r = Ok v \<and>
     ss_logical message_schema (message_input 5 0 0 0) = Ok v"
  using proved_spans_read [OF env_ok_linux_x86_64 generated_message message_input_ok] message_zero_validates by simp

text \<open>
  C2. The two-pass logical mutation is atomic: on a proved destination, or on any checked bytes in the
  initializing mode, the preflight never panics; when it accepts, the commit cannot fail, keeps the span,
  and leaves a proved value that materializes as exactly the source.
\<close>

theorem logical_mutation_roundtrip:
  assumes "env_ok E" "generated E S" "input_ok E i" "i_wire i = ss_wire S" "ss_val_ok S v" "ready m (ss_validate S i)"
  shows "case ss_preflight S m i v of
      Ok _ \<Rightarrow> \<exists>c. ss_commit S m i v = Ok c \<and> same_span i c \<and> ss_validate S c = Ok () \<and> ss_logical S c = Ok v
    | Err e \<Rightarrow> True
    | Panic \<Rightarrow> False"
proof (cases "ss_preflight S m i v")
  case (Ok u)
  then show ?thesis using gen.commit_law [OF conjI [OF assms(1,2)] assms(3-6)] by simp
qed (use gen.preflight_total [OF conjI [OF assms(1,2)] assms(3-6)] in simp_all)

theorem logical_mutation_roundtrip_witness:
  "\<exists>c. ss_commit message_schema Init (message_input 5 7 7 7) (message_value True) = Ok c \<and>
     ss_validate message_schema c = Ok () \<and> ss_logical message_schema c = Ok (message_value True)"
  using logical_mutation_roundtrip [OF env_ok_linux_x86_64 generated_message message_input_ok, of 5 7 7 7 "message_value True" Init]
    message_value_ok message_accepts [of 5 7 7 7 True] by auto

text \<open>
  C7. \<open>ZERO_IS_VALID\<close> is exact, and the two type-level states bracket it: all-zero bytes of a generated
  schema are proved if and only if the constant says so, a \<open>ZeroValid\<close> clear state implies the constant, and
  the constant implies a \<open>ZeroValid\<close> zero state. So a schema that may be an optional inner (\<open>ZeroInvalid\<close>)
  is never all zero when proved, and is never clearable.
\<close>

theorem zero_validity_exact:
  assumes "env_ok E" "generated E S" "input_ok E i" "i_wire i = ss_wire S"
  shows "(is_all_zero i \<longrightarrow> (ss_validate S i = Ok () \<longleftrightarrow> ss_zero_is_valid S)) \<and>
    (ss_clear_state S = ZeroValid \<longrightarrow> ss_zero_is_valid S) \<and> (ss_zero_is_valid S \<longrightarrow> ss_zero_state S = ZeroValid) \<and>
    (ss_zero_state S = ZeroInvalid \<longrightarrow> ss_clear_state S = ZeroInvalid \<and> (ss_validate S i = Ok () \<longrightarrow> \<not> is_all_zero i))"
  using gen.zero_exact [OF conjI [OF assms(1,2)] assms(3,4)] gen.clear_state_sound [OF conjI [OF assms(1,2)]]
    gen.zero_state_sound [OF conjI [OF assms(1,2)]] gen.never_both_optional_and_clearable [OF conjI [OF assms(1,2)]]
    gen.option_inner_never_zero [OF conjI [OF assms(1,2)] assms(3,4)] by blast

theorem zero_validity_exact_witness:
  "ss_validate message_schema (message_input 5 0 0 0) = Ok () \<longleftrightarrow> ss_zero_is_valid message_schema"
  using zero_validity_exact [OF env_ok_linux_x86_64 generated_message message_input_ok, of 5 0 0 0]
  by (simp add: is_all_zero_def all_zero_def)

text \<open>
  \<open>clear()\<close> of a clearable schema: the bound on its clear state makes the zeroed span a proved value, so
  the capability stays valid without another proof.
\<close>

theorem clear_keeps_proved:
  assumes "env_ok E" "generated E S" "input_ok E i" "i_wire i = ss_wire S" "ss_clear_state S = ZeroValid"
  shows "same_span i (record_clear i) \<and> ss_validate S (record_clear i) = Ok () \<and> is_all_zero (record_clear i)"
proof -
  have "input_ok E (clear_all i)" "i_wire (clear_all i) = ss_wire S"
    using same_span_input_ok [OF same_span_clear_all assms(3)] same_span_wire [OF same_span_clear_all, of i] assms(4) by simp_all
  then show ?thesis
    using gen.zero_exact [OF conjI [OF assms(1,2)]] gen.clear_state_sound [OF conjI [OF assms(1,2)] assms(5)]
    by (simp add: record_clear_def)
qed

theorem clear_keeps_proved_witness: "ss_validate (record_support x64 point) (record_clear \<lparr>i_addr = 3, i_bytes = [7], i_wire = record_wire x64 point\<rparr>) = Ok ()"
proof -
  have w: "record_wire x64 point = \<lparr>wl_size = 1, wl_align = 1\<rparr>"
    by (simp add: point_def record_wire_def base_wire_def field_wire_def prim_layout_def repr_c_def)
  have "input_ok x64 \<lparr>i_addr = 3, i_bytes = [7], i_wire = record_wire x64 point\<rparr>"
    using exI [of "\<lambda>k. Suc 0 = 2 ^ k" 0] by (simp add: w input_ok_def wf_layout_def)
  then show ?thesis
    using clear_keeps_proved [OF env_ok_linux_x86_64 generated_point] by (simp add: wire_type_state_def point_def)
qed

text \<open>
  C5. The generated root functions accept exactly the valid spans: \<open>access\<close> succeeds if and only if the
  bytes have the wire's length, the address is aligned and the value is proved; \<open>access_mut\<close> decides and
  reports the same; \<open>access_prefix\<close> is \<open>access\<close> of the leading bytes with the remainder returned untouched,
  or the size error; none of them panics.
\<close>

theorem root_access_exact:
  assumes "env_ok E" "generated E S" "wl_size (ss_wire S) < usize_limit E"
  shows "(ss_access E S addr bs = Ok i \<longleftrightarrow> length bs = wl_size (ss_wire S) \<and> wl_align (ss_wire S) dvd addr \<and>
      i = \<lparr>i_addr = addr, i_bytes = bs, i_wire = ss_wire S\<rparr> \<and> ss_validate S i = Ok ()) \<and>
    ss_access E S addr bs \<noteq> Panic \<and> ss_access_mut E S addr bs = ss_access E S addr bs \<and>
    ss_access_prefix E S addr bs = (if length bs < wl_size (ss_wire S)
      then Err (access_layout (ss_name S) (InsufficientBytes (wl_size (ss_wire S)) (length bs)))
      else and_then (ss_access E S addr (take (wl_size (ss_wire S)) bs)) (\<lambda>p. Ok (p, drop (wl_size (ss_wire S)) bs)))"
proof -
  note ok = conjI [OF assms(1,2)]
  have exact: "from_exact E (ss_wire S) addr bs = Ok i \<longleftrightarrow> length bs = wl_size (ss_wire S) \<and> wl_align (ss_wire S) dvd addr \<and>
      i = \<lparr>i_addr = addr, i_bytes = bs, i_wire = ss_wire S\<rparr>" for i
    by (auto simp: from_exact_def from_checked_Ok [OF assms(1)])
  have total: "from_exact E (ss_wire S) addr bs \<noteq> Panic" by (simp add: from_exact_def from_checked_total)
  have "ss_validate S i \<noteq> Panic" if "from_exact E (ss_wire S) addr bs = Ok i" for i
    using that exact gen.wf_wire [OF ok] assms(3) by (intro gen.validate_total [OF ok]) (auto simp: input_ok_def)
  then have "ss_access E S addr bs \<noteq> Panic" using total by (auto simp: ss_access_def ss_prove_def)
  moreover have "ss_access_prefix E S addr bs = (if length bs < wl_size (ss_wire S)
      then Err (access_layout (ss_name S) (InsufficientBytes (wl_size (ss_wire S)) (length bs)))
      else and_then (ss_access E S addr (take (wl_size (ss_wire S)) bs)) (\<lambda>p. Ok (p, drop (wl_size (ss_wire S)) bs)))"
    by (cases "from_checked E (ss_wire S) addr (take (wl_size (ss_wire S)) bs)")
      (auto simp: ss_access_prefix_def ss_access_def from_prefix_def from_exact_def split_at_checked_def)
  moreover have "ss_access E S addr bs = Ok i \<longleftrightarrow> from_exact E (ss_wire S) addr bs = Ok i \<and> ss_validate S i = Ok ()"
    by (rule gen.access_iff [OF ok])
  ultimately show ?thesis using exact gen.access_mut_eq [OF ok] by auto
qed

theorem root_access_exact_witness:
  "ss_access x64 message_schema 5 [0, 0, 0] = Ok (message_input 5 0 0 0)"
  using root_access_exact [OF env_ok_linux_x86_64 generated_message, of 5 "[0, 0, 0]" "message_input 5 0 0 0"] message_zero_validates
  by (simp add: message_wire)

end
