(* ===== verification/Zs_Frontend.thy ===== *)
theory Zs_Frontend
  imports Zs_Analyze Zs_Schema
begin

text \<open>
  From an accepted declaration to the schema the macro emits: the wire form of every category
  (\<open>wire_type\<close>, \<open>length_wire\<close>, \<open>array_length\<close>), the assertions and bounds the generated code carries
  (\<open>nonzero_assertions\<close>, \<open>optional_dependency_types\<close>, \<open>tag_identity_assertions\<close>), and the theorems that an
  accepted declaration whose generated code compiles yields a schema of \<open>generated\<close>, to which every
  guarantee of the runtime applies.
\<close>

section \<open>Emission\<close>

text \<open>What name resolution gives the generated code: the supports of types, constants and tag variants.\<close>

record resolver =
  rv_schema :: "syn_type \<Rightarrow> schema_support"
  rv_payload :: "syn_type \<Rightarrow> payload_support"
  rv_len :: "len_expr \<Rightarrow> nat"
  rv_tag :: "string list \<Rightarrow> nat"

fun resolved_length :: "resolver \<Rightarrow> ir_length \<Rightarrow> nat" where
  "resolved_length rv (Literal n) = n"
| "resolved_length rv (Symbolic e) = rv_len rv e"

definition length_wire_repr :: "string \<Rightarrow> scalar_repr option" where
  "length_wire_repr s = map_of [(''u8'', ReprU8), (''u16'', ReprU16), (''u32'', ReprU32)] s"

text \<open>\<open>wire_type\<close>; \<open>None\<close> is one of its internal analysis mismatches.\<close>

fun leaf_wire_type :: "resolver \<Rightarrow> endian \<Rightarrow> ir_category \<Rightarrow> leaf option" where
  "leaf_wire_type rv en (IrPrimitive p) = Some (Primitive en p)"
| "leaf_wire_type rv en IrBool = Some Bool"
| "leaf_wire_type rv en (IrBorrowedStr n t e l) = map_option (\<lambda>r. BorrowedStr r e n) (length_wire_repr t)"
| "leaf_wire_type rv en (IrBorrowedCStr n l) = Some (BorrowedCStr n)"
| "leaf_wire_type rv en (IrBorrowedU16Str n t e l) = map_option (\<lambda>r. BorrowedU16Str r e n) (length_wire_repr t)"
| "leaf_wire_type rv en (IrBorrowedU16CStr n l) = Some (BorrowedU16CStr n)"
| "leaf_wire_type rv en (IrFixedBytes n l) = Some (FixedBytes (resolved_length rv n))"
| "leaf_wire_type rv en _ = None"

fun element_wire_type :: "resolver \<Rightarrow> endian \<Rightarrow> syn_type \<Rightarrow> ir_category \<Rightarrow> element option" where
  "element_wire_type rv en ty (IrArray e n) = (case ty of
     TyArray elem len \<Rightarrow> map_option (RowElem (resolved_length rv n)) (element_wire_type rv en elem e) | _ \<Rightarrow> None)"
| "element_wire_type rv en ty (IrPath tagged t) = (if tagged then None else Some (PathElem (rv_schema rv ty)))"
| "element_wire_type rv en ty c = map_option LeafElem (leaf_wire_type rv en c)"

fun optional_wire_type :: "resolver \<Rightarrow> syn_type \<Rightarrow> ir_category \<Rightarrow> optional_inner option" where
  "optional_wire_type rv ty (IrPath tagged t) = Some (OptPath (rv_schema rv ty))"
| "optional_wire_type rv ty (IrArray (IrPath tagged t) n) = (case ty of
     TyArray elem len \<Rightarrow> Some (OptArray (resolved_length rv n) (rv_schema rv elem)) | _ \<Rightarrow> None)"
| "optional_wire_type rv ty _ = None"

fun wire_type :: "resolver \<Rightarrow> endian \<Rightarrow> syn_type \<Rightarrow> ir_category \<Rightarrow> category option" where
  "wire_type rv en ty (IrPath tagged t) = (if \<not> tagged then Some (PathField (rv_schema rv ty))
     else case t of Some k \<Rightarrow> Some (TaggedField k (rv_payload rv ty)) | None \<Rightarrow> None)"
| "wire_type rv en ty (IrArray e n) = (case ty of
     TyArray elem len \<Rightarrow> map_option (ArrayField (resolved_length rv n)) (element_wire_type rv en elem e) | _ \<Rightarrow> None)"
| "wire_type rv en ty (IrOptional inner c) = map_option OptionalField (optional_wire_type rv inner c)"
| "wire_type rv en ty c = map_option LeafField (leaf_wire_type rv en c)"

definition emit_field :: "resolver \<Rightarrow> ir_field \<Rightarrow> field_ir option" where
  "emit_field rv f = map_option (\<lambda>c. \<lparr>fi_name = if_name f, fi_category = c, fi_align = fo_align (if_options f)\<rparr>)
     (wire_type rv (if_endian f) (if_ty f) (if_category f))"

definition emit_struct :: "resolver \<Rightarrow> schema_ir \<Rightarrow> record_ir option" where
  "emit_struct rv ir = map_option (\<lambda>fs. \<lparr>ri_name = sc_name ir, ri_align = co_align (sc_options ir), ri_fields = fs\<rparr>)
     (those (map (emit_field rv) (sc_fields ir)))"

definition emit_scalar_enum :: "scalar_repr \<Rightarrow> schema_ir \<Rightarrow> enum_decl" where
  "emit_scalar_enum r ir = \<lparr>en_name = sc_name ir, en_endian = co_endian (sc_options ir), en_repr = r,
     en_discs = List.map_filter iv_raw (sc_variants ir)\<rparr>"

definition emit_variant :: "resolver \<Rightarrow> ir_variant \<Rightarrow> variant_ir" where
  "emit_variant rv v = \<lparr>va_name = iv_name v, va_tag = rv_tag rv (iv_tag v),
     va_shape = (case iv_shape v of UnitShape \<Rightarrow> None | NewtypeShape ty \<Rightarrow> Some (rv_schema rv ty))\<rparr>"

section \<open>What the generated code asserts\<close>

fun nonzero_assertions_category :: "ir_category \<Rightarrow> len_expr list" where
  "nonzero_assertions_category (IrFixedBytes (Symbolic e) l) = [e]"
| "nonzero_assertions_category (IrArray c n) =
     (case n of Symbolic e \<Rightarrow> [e] | Literal k \<Rightarrow> []) @ nonzero_assertions_category c"
| "nonzero_assertions_category (IrOptional ty c) = nonzero_assertions_category c"
| "nonzero_assertions_category _ = []"

definition nonzero_assertions :: "ir_field list \<Rightarrow> len_expr list" where
  "nonzero_assertions fs = concat (map (\<lambda>f. nonzero_assertions_category (if_category f)) fs)"

fun collect_optional_inner_dependencies :: "ir_category \<Rightarrow> syn_type \<Rightarrow> syn_type list" where
  "collect_optional_inner_dependencies (IrPath tagged t) ty = [ty]"
| "collect_optional_inner_dependencies (IrArray e n) ty = (case ty of
     TyArray elem len \<Rightarrow> collect_optional_inner_dependencies e elem | _ \<Rightarrow> [])"
| "collect_optional_inner_dependencies _ ty = []"

fun collect_optional_dependencies :: "ir_category \<Rightarrow> syn_type list" where
  "collect_optional_dependencies (IrOptional ty c) = collect_optional_inner_dependencies c ty"
| "collect_optional_dependencies (IrArray e n) = collect_optional_dependencies e"
| "collect_optional_dependencies _ = []"

definition optional_dependency_types :: "ir_field list \<Rightarrow> syn_type list" where
  "optional_dependency_types fs = remdups (concat (map (\<lambda>f. collect_optional_dependencies (if_category f)) fs))"

text \<open>The pairs of a tag type and a payload type whose identity \<open>tag_identity_assertions\<close> asserts.\<close>

definition tag_identities :: "ir_field list \<Rightarrow> (syn_type \<times> syn_type) list" where
  "tag_identities fs = List.map_filter (\<lambda>f. case if_category f of
     IrPath True (Some t) \<Rightarrow> Some (if_ty (fs ! t), if_ty f) | _ \<Rightarrow> None) fs"

text \<open>The types whose supports the fields use, by the trait the generated code selects them with.\<close>

fun path_types :: "syn_type \<Rightarrow> ir_category \<Rightarrow> syn_type list" where
  "path_types ty (IrPath tagged t) = (if tagged then [] else [ty])"
| "path_types ty (IrArray e n) = (case ty of TyArray elem len \<Rightarrow> path_types elem e | _ \<Rightarrow> [])"
| "path_types ty (IrOptional inner c) = path_types inner c"
| "path_types ty _ = []"

definition payload_types :: "ir_field list \<Rightarrow> syn_type list" where
  "payload_types fs = map if_ty (filter (\<lambda>f. is_tagged (if_category f)) fs)"

text \<open>
  The generated code of a struct compiles: its path types are schemas of the library, its payload types
  tagged payloads, every asserted length is nonzero, every optional inner type is \<open>OptionalWireType\<close>, and
  every tag type is the scalar enum its payload's variants name.
\<close>

definition struct_compiles :: "env \<Rightarrow> resolver \<Rightarrow> ir_field list \<Rightarrow> bool" where
  "struct_compiles E rv fs \<longleftrightarrow>
     (\<forall>f \<in> set fs. \<forall>ty \<in> set (path_types (if_ty f) (if_category f)). generated E (rv_schema rv ty)) \<and>
     (\<forall>ty \<in> set (payload_types fs). generated_payload E (rv_payload rv ty)) \<and>
     (\<forall>e \<in> set (nonzero_assertions fs). 0 < rv_len rv e) \<and>
     (\<forall>ty \<in> set (optional_dependency_types fs). ss_zero_state (rv_schema rv ty) = ZeroInvalid) \<and>
     (\<forall>(tag, payload) \<in> set (tag_identities fs). \<exists>D. enum_ok D \<and> rv_schema rv tag = enum_support E D \<and>
       set (ps_tags (rv_payload rv payload)) \<subseteq> set (en_discs D))"

text \<open>
  The generated code of a tagged enum compiles: its newtype variants' types are schemas, and each tag path
  names a variant of the tag type \<open>T\<close> and resolves to that variant's discriminant. A raw identifier is the
  identifier, so that \<open>Kind::r#A\<close> is \<open>Kind::A\<close>.
\<close>

definition variant_value :: "schema_ir \<Rightarrow> string \<Rightarrow> nat option" where
  "variant_value T x = (case find (\<lambda>v. iv_name v = normalized_ident x) (sc_variants T) of Some v \<Rightarrow> iv_raw v | None \<Rightarrow> None)"

definition payload_compiles :: "env \<Rightarrow> resolver \<Rightarrow> schema_ir \<Rightarrow> ir_variant list \<Rightarrow> bool" where
  "payload_compiles E rv T vs \<longleftrightarrow>
     (\<forall>v \<in> set vs. variant_value T (last (iv_tag v)) = Some (rv_tag rv (iv_tag v)) \<and>
       (case iv_shape v of NewtypeShape ty \<Rightarrow> generated E (rv_schema rv ty) | UnitShape \<Rightarrow> True))"

section \<open>What classification guarantees\<close>

fun length_nonzero :: "ir_length \<Rightarrow> bool" where
  "length_nonzero (Literal n) \<longleftrightarrow> 0 < n" | "length_nonzero (Symbolic e) \<longleftrightarrow> True"

fun string_ir :: "ir_category \<Rightarrow> bool" where
  "string_ir (IrBorrowedStr n t e l) \<longleftrightarrow> length_wire_repr t \<noteq> None"
| "string_ir (IrBorrowedU16Str n t e l) \<longleftrightarrow> length_wire_repr t \<noteq> None"
| "string_ir c \<longleftrightarrow> is_string_category c"

fun elem_ir :: "syn_type \<Rightarrow> ir_category \<Rightarrow> bool" where
  "elem_ir ty (IrPrimitive p) \<longleftrightarrow> True"
| "elem_ir ty IrBool \<longleftrightarrow> True"
| "elem_ir ty (IrPath tagged t) \<longleftrightarrow> \<not> tagged"
| "elem_ir ty (IrArray e n) \<longleftrightarrow> length_nonzero n \<and> (case ty of TyArray elem len \<Rightarrow> elem_ir elem e | _ \<Rightarrow> False)"
| "elem_ir ty c \<longleftrightarrow> string_ir c"

fun cap_ok :: "ir_category \<Rightarrow> bool" where
  "cap_ok (IrBorrowedCStr n l) \<longleftrightarrow> 0 < n" | "cap_ok (IrBorrowedU16CStr n l) \<longleftrightarrow> 0 < n" | "cap_ok c \<longleftrightarrow> True"

fun optional_ir :: "syn_type \<Rightarrow> ir_category \<Rightarrow> bool" where
  "optional_ir ty (IrPath tagged t) \<longleftrightarrow> \<not> tagged"
| "optional_ir ty (IrArray (IrPath tagged t) n) \<longleftrightarrow> \<not> tagged \<and> length_nonzero n \<and> (case ty of TyArray elem len \<Rightarrow> True | _ \<Rightarrow> False)"
| "optional_ir ty c \<longleftrightarrow> False"

fun field_ir_ok :: "syn_type \<Rightarrow> ir_category \<Rightarrow> bool" where
  "field_ir_ok ty (IrFixedBytes n l) \<longleftrightarrow> length_nonzero n"
| "field_ir_ok ty (IrOptional inner c) \<longleftrightarrow> optional_ir inner c"
| "field_ir_ok ty (IrPath tagged t) \<longleftrightarrow> True"
| "field_ir_ok ty c \<longleftrightarrow> elem_ir ty c"

lemma array_length_ok: "array_length H len = Ok n \<Longrightarrow> length_nonzero n"
  by (auto simp: array_length_def split: len_expr.splits if_splits)

lemma length_type_ok: "len_type_ok (fo_len_type fo) \<Longrightarrow> length_wire_repr (length_type fo) \<noteq> None"
  by (auto simp: len_type_ok_def length_type_def length_wire_repr_def split: option.splits)

lemma borrowed_string_ok:
  "borrowed_string l target fo = Ok (Some c) \<Longrightarrow> len_type_ok (fo_len_type fo) \<Longrightarrow> is_string_category c \<and> string_ir c"
  using length_type_ok by (auto simp: borrowed_string_def split: if_splits)

lemma string_elem: "is_string_category c \<Longrightarrow> string_ir c \<Longrightarrow> elem_ir ty c \<and> field_ir_ok ty c"
  by (cases c) auto

lemma classify_array_element_ok:
  "classify_array_element H ty fo = Ok c \<Longrightarrow> len_type_ok (fo_len_type fo) \<Longrightarrow> elem_ir ty c"
proof (induction H ty fo arbitrary: c rule: classify_array_element.induct)
  case (1 H ty fo)
  then show ?case
    using string_elem borrowed_string_ok array_length_ok
    by (subst (asm) (2) classify_array_element.simps) (fastforce split: if_splits option.splits syn_type.splits prod.splits)
qed

lemma classify_optional_inner_ok: "classify_optional_inner H ty = Ok c \<Longrightarrow> optional_ir ty c"
  by (auto simp: classify_optional_inner_def dest: array_length_ok split: if_splits syn_type.splits bool.splits)

lemma classify_option_field_ok: "classify_option_field H ty = Ok (Some c) \<Longrightarrow> field_ir_ok ty c"
  by (auto simp: classify_option_field_def dest: classify_optional_inner_ok
      split: if_splits syn_type.splits bool.splits path_args.splits list.splits generic_arg.splits)

lemma classify_field_ok:
  assumes "classify_field H ty fo = Ok c" "len_type_ok (fo_len_type fo)"
  shows "field_ir_ok ty c"
  using assms string_elem borrowed_string_ok array_length_ok classify_option_field_ok classify_array_element_ok
  by (auto simp: classify_field_def split: if_splits option.splits syn_type.splits prod.splits)

lemma is_tagged_iff: "is_tagged c \<longleftrightarrow> (\<exists>t. c = IrPath True t)"
  by (auto simp: is_tagged_def split: ir_category.splits bool.splits)

lemma apply_leaf_options_string:
  "apply_leaf_options c fo d = Ok c' \<Longrightarrow> is_string_category c \<Longrightarrow> string_ir c \<Longrightarrow> is_string_category c' \<and> string_ir c' \<and> cap_ok c' \<and> inner_leaf c' = c'"
  by (cases c) (auto split: if_splits)

lemma set_string_leaf:
  "elem_ir ty c \<Longrightarrow> is_string_category (inner_leaf c) \<Longrightarrow> is_string_category leaf \<Longrightarrow> string_ir leaf \<Longrightarrow> inner_leaf leaf = leaf \<Longrightarrow>
   elem_ir ty (set_leaf leaf c) \<and> inner_leaf (set_leaf leaf c) = leaf"
  by (induction ty c rule: elem_ir.induct) (auto simp: string_elem split: syn_type.splits)

lemma elem_leaf_ir: "elem_ir ty c \<Longrightarrow> is_string_category (inner_leaf c) \<Longrightarrow> string_ir (inner_leaf c)"
  by (induction ty c rule: elem_ir.induct) (auto split: syn_type.splits)

lemma elem_no_cap: "elem_ir ty c \<Longrightarrow> \<not> is_string_category (inner_leaf c) \<Longrightarrow> cap_ok (inner_leaf c)"
  by (induction ty c rule: elem_ir.induct) (auto split: syn_type.splits)

lemma apply_field_options_ok:
  assumes "apply_field_options c fo d = Ok c'" "field_ir_ok ty c"
  shows "field_ir_ok ty c' \<and> cap_ok (inner_leaf c') \<and> (is_tagged c' \<longrightarrow> fo_tag_field fo \<noteq> None)"
proof (cases "array_leaf c")
  case None
  then show ?thesis
    using assms by (cases c) (auto simp: apply_field_options_def is_tagged_iff split: if_splits)
next
  case (Some leaf)
  then obtain e n where c: "c = IrArray e n" "leaf = inner_leaf e" by (cases c) auto
  show ?thesis
  proof (cases "is_string_category leaf")
    case True
    then obtain leaf' where leaf': "apply_leaf_options leaf fo d = Ok leaf'" "c' = set_leaf leaf' c"
      using assms(1) Some by (auto simp: apply_field_options_def)
    have "elem_ir ty c" "is_string_category (inner_leaf c)" using assms(2) c True by auto
    then have "string_ir leaf" using elem_leaf_ir [of ty c] c by simp
    then have l: "is_string_category leaf'" "string_ir leaf'" "cap_ok leaf'" "inner_leaf leaf' = leaf'"
      using apply_leaf_options_string [OF leaf'(1) True] by blast+
    have "elem_ir ty (set_leaf leaf' c) \<and> inner_leaf (set_leaf leaf' c) = leaf'"
      by (rule set_string_leaf) (use \<open>elem_ir ty c\<close> \<open>is_string_category (inner_leaf c)\<close> l in auto)
    then show ?thesis using c leaf'(2) l by (auto simp: is_tagged_iff)
  next
    case False
    then have "c' = c" using assms(1) Some c by (auto simp: apply_field_options_def split: if_splits)
    then show ?thesis using elem_no_cap [of ty c] assms(2) c False by (auto simp: is_tagged_iff)
  qed
qed

lemma apply_no_panic: "apply_field_options c fo d \<noteq> Panic"
proof -
  have "apply_leaf_options c fo d \<noteq> Panic" for c by (cases c) auto
  then show ?thesis by (auto simp: apply_field_options_def split: option.splits)
qed

text \<open>A field as analysis leaves it before its tag is linked.\<close>

definition field_ready :: "ir_field \<Rightarrow> bool" where
  "field_ready f \<longleftrightarrow> align_ok (fo_align (if_options f)) \<and> field_ir_ok (if_ty f) (if_category f) \<and> cap_ok (inner_leaf (if_category f)) \<and>
     (is_tagged (if_category f) \<longrightarrow> fo_tag_field (if_options f) \<noteq> None)"

lemma analyze_field_ready: "analyze_field H options k d = Ok f \<Longrightarrow> field_ready f"
proof -
  assume "analyze_field H options k d = Ok f"
  then obtain fo c c' where f: "field_options_of H (fd_attrs d) = Ok fo" "classify_field H (fd_ty d) fo = Ok c"
    "apply_field_options c fo (co_endian options) = Ok c'" "if_options f = fo" "if_ty f = fd_ty d" "if_category f = c'"
    by (auto simp: analyze_field_def)
  have "align_ok (fo_align fo)" "len_type_ok (fo_len_type fo)" using field_options_ok [OF f(1)] by blast+
  then show "field_ready f"
    using apply_field_options_ok [OF f(3) classify_field_ok [OF f(2)]] f(4-6) by (simp add: field_ready_def)
qed

lemma analyze_fields_ready:
  "analyze_fields H options k ds = Ok fs \<Longrightarrow> list_all field_ready fs \<and> length fs = length ds"
  by (induction ds arbitrary: k fs) (auto dest: analyze_field_ready)

section \<open>What tag linking guarantees\<close>

lemma lookup_field_less: "lookup_field fs name = Some t \<Longrightarrow> t < length fs"
  by (auto simp: lookup_field_def dest!: map_of_SomeD set_zip_rightD)

definition relink :: "(nat \<Rightarrow> nat) \<Rightarrow> nat list \<Rightarrow> ir_field list \<Rightarrow> ir_field list" where
  "relink link ks fs = map (\<lambda>k. if k \<in> set ks \<and> is_tagged (if_category (fs ! k))
     then (fs ! k)\<lparr>if_category := IrPath True (Some (link k))\<rparr> else fs ! k) [0..<length fs]"

definition linked :: "(nat \<Rightarrow> nat) \<Rightarrow> nat list \<Rightarrow> nat list \<Rightarrow> ir_field list \<Rightarrow> bool" where
  "linked link ks claimed fs \<longleftrightarrow>
     (\<forall>k \<in> set ks. is_tagged (if_category (fs ! k)) \<longrightarrow> link k < length fs \<and> link k \<notin> set claimed \<and>
        (\<exists>u. if_category (fs ! link k) = IrPath False u)) \<and>
     inj_on link {k \<in> set ks. is_tagged (if_category (fs ! k))}"


lemma link_from_ok:
  "link_from ks claimed fs = Ok gs \<Longrightarrow> distinct ks \<Longrightarrow> set ks \<subseteq> {..<length fs} \<Longrightarrow>
   \<exists>link. linked link ks claimed fs \<and> gs = relink link ks fs"
proof (induction ks arbitrary: claimed fs)
  case Nil
  then show ?case by (auto simp: linked_def relink_def map_nth)
next
  case (Cons k ks)
  show ?case
  proof (cases "is_tagged (if_category (fs ! k))")
    case False
    then obtain link where "linked link ks claimed fs" "gs = relink link ks fs" using Cons by auto
    moreover have "{j \<in> set (k # ks). is_tagged (if_category (fs ! j))} = {j \<in> set ks. is_tagged (if_category (fs ! j))}" using False by auto
    ultimately show ?thesis using False by (intro exI [of _ link]) (auto simp: linked_def relink_def)
  next
    case True
    then obtain requested t u where t: "fo_tag_field (if_options (fs ! k)) = Some requested"
      "lookup_field fs (normalized_ident requested) = Some t" "t \<noteq> k" "if_category (fs ! t) = IrPath False u" "t \<notin> set claimed"
      and rest: "link_from ks (t # claimed) (fs[k := (fs ! k)\<lparr>if_category := IrPath True (Some t)\<rparr>]) = Ok gs"
      using Cons.prems(1) True by (auto simp: is_tagged_iff split: option.splits if_splits ir_category.splits bool.splits)
    let ?fs = "fs[k := (fs ! k)\<lparr>if_category := IrPath True (Some t)\<rparr>]"
    have k: "k < length fs" "k \<notin> set ks" "distinct ks" "set ks \<subseteq> {..<length ?fs}" using Cons.prems by auto
    obtain link where link: "linked link ks (t # claimed) ?fs" "gs = relink link ks ?fs" using Cons.IH [OF rest k(3,4)] by blast
    have same: "?fs ! j = fs ! j" if "j \<noteq> k" for j using that by simp
    have step: "link j < length fs \<and> link j \<notin> set claimed \<and> link j \<noteq> t \<and> (\<exists>u. if_category (fs ! link j) = IrPath False u)"
      if "j \<in> set ks" "is_tagged (if_category (fs ! j))" for j
    proof -
      have "j \<noteq> k" using that k(2) by blast
      then have "link j < length fs" "link j \<notin> set (t # claimed)" "\<exists>u. if_category (?fs ! link j) = IrPath False u"
        using link(1) that same [of j] unfolding linked_def by auto
      moreover from this have "link j \<noteq> k" using k(1) by (cases "link j = k") auto
      ultimately show ?thesis using same by auto
    qed
    have "{j \<in> set ks. is_tagged (if_category (fs ! j))} = {j \<in> set ks. is_tagged (if_category (?fs ! j))}"
      by (rule Collect_cong) (metis same k(2))
    then have inj: "inj_on link {j \<in> set ks. is_tagged (if_category (fs ! j))}"
      using link(1) unfolding linked_def by simp
    have "linked (link(k := t)) (k # ks) claimed fs"
      unfolding linked_def using t step inj k(2) lookup_field_less [OF t(2)] by (auto simp: inj_on_def)
    moreover have "gs = relink (link(k := t)) (k # ks) fs"
      unfolding link(2) relink_def using k(1,2) True by (auto simp: nth_list_update)
    ultimately show ?thesis by blast
  qed
qed

lemma link_no_panic:
  "list_all field_ready fs \<Longrightarrow> set ks \<subseteq> {..<length fs} \<Longrightarrow> distinct ks \<Longrightarrow> link_from ks claimed fs \<noteq> Panic"
proof (induction ks arbitrary: claimed fs)
  case (Cons k ks)
  have k: "k < length fs" "field_ready (fs ! k)" using Cons.prems by (auto simp: list_all_length)
  have "list_all field_ready (fs[k := (fs ! k)\<lparr>if_category := IrPath True (Some t)\<rparr>])"
    if "is_tagged (if_category (fs ! k))" for t
    using Cons.prems(1) k that by (auto simp: list_all_length nth_list_update field_ready_def is_tagged_iff)
  then have "link_from ks (t # claimed) (fs[k := (fs ! k)\<lparr>if_category := IrPath True (Some t)\<rparr>]) \<noteq> Panic"
    if "is_tagged (if_category (fs ! k))" for t
    using Cons that by auto
  moreover have "link_from ks claimed fs \<noteq> Panic" using Cons by auto
  ultimately show ?case using k(2) by (auto simp: field_ready_def is_tagged_iff split: option.splits)
qed simp

section \<open>Accepted declarations are generated schemas\<close>

lemma element_emitted:
  "elem_ir ty c \<Longrightarrow> cap_ok (inner_leaf c) \<Longrightarrow> \<forall>e \<in> set (nonzero_assertions_category c). 0 < rv_len rv e \<Longrightarrow>
   \<exists>e. element_wire_type rv en ty c = Some e \<and> element_shape e \<and> set (element_children e) \<subseteq> rv_schema rv ` set (path_types ty c)"
proof (induction ty c rule: elem_ir.induct)
  case (4 ty e n)
  then show ?case by (cases n) (fastforce split: syn_type.splits)+
qed (auto split: option.splits)

lemma optional_emitted:
  "optional_ir ty c \<Longrightarrow> \<forall>e \<in> set (nonzero_assertions_category c). 0 < rv_len rv e \<Longrightarrow>
   \<forall>t \<in> set (collect_optional_inner_dependencies c ty). ss_zero_state (rv_schema rv t) = ZeroInvalid \<Longrightarrow>
   \<exists>x. optional_wire_type rv ty c = Some x \<and> category_shape E R (OptionalField x) \<and>
     set (category_children (OptionalField x)) \<subseteq> rv_schema rv ` set (path_types ty c)"
proof (induction ty c rule: optional_ir.induct)
  case (2 ty tagged t n)
  then show ?case by (cases n) (auto split: syn_type.splits)
qed auto

lemma untagged_emitted:
  assumes "field_ir_ok ty c" "cap_ok (inner_leaf c)" "\<not> is_tagged c"
    "\<forall>e \<in> set (nonzero_assertions_category c). 0 < rv_len rv e"
    "\<forall>t \<in> set (collect_optional_dependencies c). ss_zero_state (rv_schema rv t) = ZeroInvalid"
  shows "\<exists>x. wire_type rv en ty c = Some x \<and> category_shape E R x \<and> category_payloads x = [] \<and>
    set (category_children x) \<subseteq> rv_schema rv ` set (path_types ty c)"
proof (cases c)
  case (IrArray e n)
  then obtain elem len where ty: "ty = TyArray elem len" "elem_ir elem e" using assms(1) by (auto split: syn_type.splits)
  obtain x where "element_wire_type rv en elem e = Some x" "element_shape x" "set (element_children x) \<subseteq> rv_schema rv ` set (path_types elem e)"
    using element_emitted [OF ty(2), of rv en] assms(2,4) IrArray by auto
  moreover have "0 < resolved_length rv n" using assms(1,4) IrArray by (cases n) auto
  ultimately show ?thesis using IrArray ty by simp
next
  case (IrOptional inner d)
  then show ?thesis using optional_emitted [of inner d rv E R] assms(1,4,5) by auto
next
  case (IrFixedBytes n l)
  then show ?thesis using assms(1,4) by (cases n) auto
next
  case (IrPath tagged t)
  then show ?thesis using assms(3) by (auto simp: is_tagged_iff)
qed (use assms in auto)

lemma wire_type_tagged: "wire_type rv en ty c = Some (TaggedField t P) \<longleftrightarrow> c = IrPath True (Some t) \<and> P = rv_payload rv ty"
  by (cases c) (auto split: option.splits syn_type.splits if_splits)

lemma those_map_Some: "list_all (\<lambda>x. f x \<noteq> None) xs \<Longrightarrow> those (map f xs) = Some (map (\<lambda>x. the (f x)) xs)"
  by (induction xs) auto

text \<open>The fields of an accepted struct.\<close>

definition struct_ready :: "ir_field list \<Rightarrow> bool" where
  "struct_ready fs \<longleftrightarrow> fs \<noteq> [] \<and>
     (\<forall>f \<in> set fs. align_ok (fo_align (if_options f)) \<and> field_ir_ok (if_ty f) (if_category f) \<and> cap_ok (inner_leaf (if_category f))) \<and>
     (\<forall>k < length fs. is_tagged (if_category (fs ! k)) \<longrightarrow>
        (\<exists>t u. if_category (fs ! k) = IrPath True (Some t) \<and> t < length fs \<and> if_category (fs ! t) = IrPath False u)) \<and>
     (\<forall>j < length fs. \<forall>k < length fs. \<forall>t.
        if_category (fs ! j) = IrPath True (Some t) \<and> if_category (fs ! k) = IrPath True (Some t) \<longrightarrow> j = k)"

lemma relink_ready:
  assumes "list_all field_ready fs" "fs \<noteq> []" "linked link [0..<length fs] [] fs"
  shows "struct_ready (relink link [0..<length fs] fs)"
proof -
  let ?gs = "relink link [0..<length fs] fs"
  have len: "length ?gs = length fs" by (simp add: relink_def)
  have nth: "?gs ! k = (if is_tagged (if_category (fs ! k)) then (fs ! k)\<lparr>if_category := IrPath True (Some (link k))\<rparr> else fs ! k)"
    if "k < length fs" for k using that by (simp add: relink_def)
  have tag: "link k < length fs" "\<exists>u. if_category (?gs ! link k) = IrPath False u"
    if k: "k < length fs" "is_tagged (if_category (fs ! k))" for k
  proof -
    have "k \<in> set [0..<length fs]" using k(1) by simp
    then obtain u where "link k < length fs" "if_category (fs ! link k) = IrPath False u"
      using assms(3) k(2) unfolding linked_def by blast
    then show "link k < length fs" "\<exists>u. if_category (?gs ! link k) = IrPath False u" using nth by (simp_all add: is_tagged_iff)
  qed
  have iff: "is_tagged (if_category (?gs ! k)) \<longleftrightarrow> is_tagged (if_category (fs ! k))" if "k < length fs" for k
    using nth [OF that] by (simp add: is_tagged_iff)
  have ready: "align_ok (fo_align (if_options f)) \<and> field_ir_ok (if_ty f) (if_category f) \<and> cap_ok (inner_leaf (if_category f))"
    if f: "f \<in> set ?gs" for f
  proof -
    obtain k where "k < length fs" "f = ?gs ! k" using f len by (auto simp: in_set_conv_nth)
    then show ?thesis using nth [of k] assms(1) by (auto simp: list_all_length field_ready_def)
  qed
  have inj: "j = k" if "j < length fs" "k < length fs" "if_category (?gs ! j) = IrPath True (Some t)" "if_category (?gs ! k) = IrPath True (Some t)" for j k t
  proof -
    have "is_tagged (if_category (fs ! j))" "is_tagged (if_category (fs ! k))" using that iff by (auto simp: is_tagged_iff)
    then have "link j = t" "link k = t" using that nth by auto
    then show ?thesis
      using assms(3) that \<open>is_tagged (if_category (fs ! j))\<close> \<open>is_tagged (if_category (fs ! k))\<close> by (auto simp: linked_def inj_on_def)
  qed
  have "?gs \<noteq> []" using assms(2) len by (metis length_0_conv)
  then show ?thesis
    unfolding struct_ready_def len using ready inj tag iff nth by (auto simp del: upt_Suc)
qed

lemma analyze_struct_ready: "analyze_struct H options sb = Ok fs \<Longrightarrow> struct_ready fs"
proof -
  assume "analyze_struct H options sb = Ok fs"
  then obtain decls fs0 where fs0: "decls \<noteq> []" "analyze_fields H options 0 decls = Ok fs0" "link_external_tags fs0 = Ok fs"
    by (auto simp: analyze_struct_def split: struct_body.splits if_splits)
  then have r: "list_all field_ready fs0" "fs0 \<noteq> []" using analyze_fields_ready [OF fs0(2)] by auto
  obtain link where "linked link [0..<length fs0] [] fs0" "fs = relink link [0..<length fs0] fs0"
    using link_from_ok [OF fs0(3) [unfolded link_external_tags_def]] by (auto simp: lessThan_atLeast0)
  then show "struct_ready fs" using relink_ready [OF r] by simp
qed

lemma emit_field_Some:
  assumes "struct_ready fs" "struct_compiles E rv fs" "k < length fs"
  shows "\<exists>x. wire_type rv (if_endian (fs ! k)) (if_ty (fs ! k)) (if_category (fs ! k)) = Some x \<and>
    (\<forall>S \<in> set (category_children x). generated E S) \<and> (\<forall>P \<in> set (category_payloads x). generated_payload E P) \<and>
    (\<forall>R. \<not> is_tagged (if_category (fs ! k)) \<longrightarrow> category_shape E R x)"
proof (cases "is_tagged (if_category (fs ! k))")
  case True
  then obtain t where t: "if_category (fs ! k) = IrPath True (Some t)" using assms(1,3) by (auto simp: struct_ready_def)
  have "if_ty (fs ! k) \<in> set (payload_types fs)" using True assms(3) by (auto simp: payload_types_def)
  then show ?thesis using t True assms(2) by (auto simp: struct_compiles_def)
next
  case False
  let ?f = "fs ! k"
  have f: "?f \<in> set fs" using assms(3) by simp
  have asserted: "\<forall>e \<in> set (nonzero_assertions_category (if_category ?f)). 0 < rv_len rv e"
    "\<forall>t \<in> set (collect_optional_dependencies (if_category ?f)). ss_zero_state (rv_schema rv t) = ZeroInvalid"
    using assms(2) f by (auto simp: struct_compiles_def nonzero_assertions_def optional_dependency_types_def)
  have ir: "field_ir_ok (if_ty ?f) (if_category ?f)" "cap_ok (inner_leaf (if_category ?f))" using assms(1) f by (auto simp: struct_ready_def)
  have gen: "\<forall>ty \<in> set (path_types (if_ty ?f) (if_category ?f)). generated E (rv_schema rv ty)"
    using assms(2) f by (auto simp: struct_compiles_def)
  note emitted = untagged_emitted [OF ir False asserted, of "if_endian ?f" E]
  obtain x where x: "wire_type rv (if_endian ?f) (if_ty ?f) (if_category ?f) = Some x" "category_payloads x = []"
    "set (category_children x) \<subseteq> rv_schema rv ` set (path_types (if_ty ?f) (if_category ?f))" using emitted by blast
  moreover have "category_shape E R x" for R using emitted [of R] x(1) by auto
  ultimately show ?thesis using gen by auto
qed

lemma struct_generated:
  assumes "struct_ready fs" "struct_compiles E rv fs" "align_ok a"
  shows "\<exists>gs. those (map (emit_field rv) fs) = Some gs \<and> generated E (record_support E \<lparr>ri_name = nm, ri_align = a, ri_fields = gs\<rparr>)"
proof -
  let ?gs = "map (\<lambda>f. the (emit_field rv f)) fs" and ?c = "\<lambda>k. if_category (fs ! k)"
  let ?R = "\<lparr>ri_name = nm, ri_align = a, ri_fields = ?gs\<rparr>"
  have emit: "emit_field rv (fs ! k) = Some (fld ?R k) \<and> wire_type rv (if_endian (fs ! k)) (if_ty (fs ! k)) (?c k) = Some (cat ?R k) \<and>
      fi_align (fld ?R k) = fo_align (if_options (fs ! k))" if "k < length fs" for k
    using emit_field_Some [OF assms(1,2) that] that by (auto simp: emit_field_def)
  have Some: "those (map (emit_field rv) fs) = Some ?gs"
    by (rule those_map_Some) (use emit in \<open>auto simp: list_all_length\<close>)
  have parts: "\<forall>S \<in> set (category_children (cat ?R k)). generated E S" "\<forall>P \<in> set (category_payloads (cat ?R k)). generated_payload E P"
    "\<not> is_tagged (?c k) \<Longrightarrow> category_shape E ?R (cat ?R k)" if "k < length fs" for k
    using emit_field_Some [OF assms(1,2) that] emit [OF that] by auto
  have tag: "category_shape E ?R (cat ?R k)" if k: "k < length fs" and tagged: "is_tagged (?c k)" for k
  proof -
    obtain t u where t: "?c k = IrPath True (Some t)" "t < length fs" "?c t = IrPath False u"
      using assms(1) k tagged by (auto simp: struct_ready_def)
    have "(if_ty (fs ! t), if_ty (fs ! k)) \<in> set (tag_identities fs)"
      using t(1) k by (auto simp: tag_identities_def List.map_filter_def intro!: rev_image_eqI [of "fs ! k"])
    then obtain D where "enum_ok D" "rv_schema rv (if_ty (fs ! t)) = enum_support E D"
        "set (ps_tags (rv_payload rv (if_ty (fs ! k)))) \<subseteq> set (en_discs D)" using assms(2) by (auto simp: struct_compiles_def)
    moreover have "cat ?R t = PathField (rv_schema rv (if_ty (fs ! t)))" using emit [OF t(2)] t(3) by simp
    moreover have "cat ?R k = TaggedField t (rv_payload rv (if_ty (fs ! k)))" using emit [OF k] t(1) by simp
    ultimately show ?thesis using t(2) by auto
  qed
  have uniq: "j = k" if "j < length fs" "k < length fs" "cat ?R j = TaggedField t P" "cat ?R k = TaggedField t Q" for j k t P Q
    using that emit wire_type_tagged assms(1) unfolding struct_ready_def by metis
  have "align_ok (fi_align (fld ?R k))" if "k < length fs" for k using emit [OF that] assms(1) that by (simp add: struct_ready_def)
  then have "record_shape E ?R"
    unfolding record_shape_def using assms(1,3) parts(3) tag uniq by (auto simp: struct_ready_def)
  then have "generated E (record_support E ?R)" using parts(1,2) by (intro of_record) auto
  then show ?thesis using Some by blast
qed

text \<open>
  C6. Every struct the analysis accepts becomes a schema of the library: when its generated code compiles - its
  types resolve, its asserted lengths are nonzero, its optional inners are never all zero, its tags have the
  payloads' tag type - emission meets none of its internal mismatches and the emitted record is \<open>generated\<close>, so
  that every guarantee about generated schemas holds of it.
\<close>

theorem accepted_struct_generated:
  assumes "analyze H pr args (ItemStruct name attrs params sb) = Ok ir" "struct_compiles E rv (sc_fields ir)"
  shows "sc_kind ir = StructItem \<and> (\<exists>R. emit_struct rv ir = Some R \<and> generated E (record_support E R))"
proof -
  have ir: "container_from_tokens_and_attrs args attrs = Ok (sc_options ir)"
    "analyze_struct H (sc_options ir) sb = Ok (sc_fields ir)" "sc_kind ir = StructItem"
    using assms(1) by (auto simp: analyze_def analyze_body_def Let_def)
  obtain gs where "those (map (emit_field rv) (sc_fields ir)) = Some gs"
    "generated E (record_support E \<lparr>ri_name = sc_name ir, ri_align = co_align (sc_options ir), ri_fields = gs\<rparr>)"
    using struct_generated [OF analyze_struct_ready [OF ir(2)] assms(2) container_options_ok [OF ir(1)]] by blast
  then show ?thesis using ir(3) by (simp add: emit_struct_def)
qed

section \<open>Enums\<close>

lemma repr_maximum_width: "repr_maximum r = 256 ^ scalar_width r - 1"
  by (cases r) (simp_all add: scalar_width_def)

lemma discriminant_value_ok: "discriminant_value e r = Ok v \<Longrightarrow> v < 256 ^ scalar_width r"
proof -
  assume "discriminant_value e r = Ok v"
  then have "v \<le> repr_maximum r" by (auto simp: discriminant_value_def split: disc_expr.splits if_splits option.splits prod.splits)
  moreover have "0 < (256 :: nat) ^ scalar_width r" by simp
  ultimately show ?thesis unfolding repr_maximum_width by linarith
qed

lemma map_filter_Some: "map f xs = map Some ys \<Longrightarrow> List.map_filter f xs = ys"
  by (induction xs arbitrary: ys) (auto simp: List.map_filter_def)

lemma scalar_variants_ok:
  "analyze_scalar_variants r raws ds = Ok vs \<Longrightarrow> length vs = length ds \<and>
   (\<exists>discs. map iv_raw vs = map Some discs \<and> distinct discs \<and> set discs \<inter> set raws = {} \<and> list_all (\<lambda>d. d < 256 ^ scalar_width r) discs)"
proof (induction ds arbitrary: raws vs)
  case (Cons d ds)
  then obtain e v ws where v: "discriminant_value e r = Ok v" "v \<notin> set raws" "analyze_scalar_variants r (v # raws) ds = Ok ws"
    "vs = \<lparr>iv_name = normalized_ident (vd_ident d), iv_shape = UnitShape, iv_tag = [''Self''], iv_tag_type = [''Self''], iv_raw = Some v\<rparr> # ws"
    by (auto split: option.splits if_splits)
  obtain discs where "length ws = length ds" "map iv_raw ws = map Some discs" "distinct discs" "set discs \<inter> set (v # raws) = {}"
    "list_all (\<lambda>d. d < 256 ^ scalar_width r) discs" using Cons.IH [OF v(3)] by blast
  then show ?case using v(2,4) discriminant_value_ok [OF v(1)] by (auto intro!: exI [of _ "v # discs"])
qed simp

lemma rebase_path_snoc: "owner \<noteq> [] \<Longrightarrow> rebase_path (owner @ [x]) = rebase_path owner @ [x]"
  by (cases owner) (auto simp: rebase_path_def)

lemma tagged_variants_ok:
  "analyze_tagged_variants tag_type tags ds = Ok vs \<Longrightarrow> length vs = length ds \<and>
   (\<exists>owner names. owner \<noteq> [] \<and> (\<forall>o'. tag_type = Some o' \<longrightarrow> ds \<noteq> [] \<longrightarrow> owner = o') \<and>
      map iv_tag vs = map (\<lambda>x. rebase_path owner @ [x]) names \<and> distinct names \<and> (\<forall>x \<in> set names. owner @ [x] \<notin> set tags))"
proof (induction ds arbitrary: tag_type tags vs)
  case Nil
  then show ?case by (auto intro: exI [of _ "[[]]"])
next
  case (Cons d ds)
  then obtain tag owner shape ws where v: "tag \<notin> set tags" "tag_owner_path tag = Ok owner" "tag_type = None \<or> tag_type = Some owner"
    "analyze_tagged_variants (Some owner) (tag # tags) ds = Ok ws"
    "vs = \<lparr>iv_name = normalized_ident (vd_ident d), iv_shape = shape, iv_tag = rebase_path tag, iv_tag_type = rebase_path owner, iv_raw = None\<rparr> # ws"
    by (auto split: option.splits if_splits)
  have len: "2 \<le> length tag" "owner = butlast tag" using v(2) by (auto simp: tag_owner_path_def split: if_splits)
  then have tag: "tag = owner @ [last tag]" "owner \<noteq> []" by (cases tag; auto)+
  obtain owner' names where ih: "length ws = length ds" "ds \<noteq> [] \<longrightarrow> owner' = owner"
    "map iv_tag ws = map (\<lambda>x. rebase_path owner' @ [x]) names" "distinct names" "\<forall>x \<in> set names. owner' @ [x] \<notin> set (tag # tags)"
    using Cons.IH [OF v(4)] by blast
  have names: "map iv_tag ws = map (\<lambda>x. rebase_path owner @ [x]) names" "\<forall>x \<in> set names. owner @ [x] \<notin> set (tag # tags)"
    using ih by (cases ds; auto)+
  have "rebase_path tag = rebase_path owner @ [last tag]" using rebase_path_snoc [OF tag(2), of "last tag"] tag(1) by simp
  moreover have "last tag \<notin> set names" using names(2) tag(1) by auto
  moreover have "owner @ [last tag] \<notin> set tags" using v(1) tag(1) by simp
  ultimately have "map iv_tag vs = map (\<lambda>x. rebase_path owner @ [x]) (last tag # names) \<and> distinct (last tag # names) \<and>
      (\<forall>x \<in> set (last tag # names). owner @ [x] \<notin> set tags)"
    using v(5) ih(4) names by simp
  moreover have "length vs = length (d # ds)" using v(5) ih(1) by simp
  moreover have "\<forall>o'. tag_type = Some o' \<longrightarrow> d # ds \<noteq> [] \<longrightarrow> owner = o'" using v(3) by auto
  ultimately show ?case using tag(2) by blast
qed

text \<open>Different names of an accepted scalar enum have different values.\<close>

lemma scalar_enum_variants:
  assumes "analyze H pr args (ItemEnum name attrs params decls) = Ok T" "sc_kind T = ScalarEnumItem r"
  shows "\<exists>discs. map iv_raw (sc_variants T) = map Some discs \<and> distinct discs \<and> list_all (\<lambda>d. d < 256 ^ scalar_width r) discs \<and>
    length discs = length decls \<and> decls \<noteq> [] \<and> en_discs (emit_scalar_enum r T) = discs"
proof -
  have "analyze_enum (sc_options T) attrs decls = Ok (sc_kind T, sc_variants T)"
    using assms(1) by (auto simp: analyze_def analyze_body_def Let_def)
  then have v: "analyze_scalar_variants r [] decls = Ok (sc_variants T)" "decls \<noteq> []"
    using assms(2) by (auto simp: analyze_enum_def split: if_splits)
  obtain discs where d: "map iv_raw (sc_variants T) = map Some discs" "distinct discs" "list_all (\<lambda>d. d < 256 ^ scalar_width r) discs"
    "length (sc_variants T) = length decls" using scalar_variants_ok [OF v(1)] by blast
  have "List.map_filter iv_raw (sc_variants T) = discs" by (rule map_filter_Some [OF d(1)])
  moreover have "length discs = length decls" using d(1,4) by (metis length_map)
  ultimately show ?thesis using d v(2) by (auto simp: emit_scalar_enum_def)
qed

lemma variant_value_index:
  assumes "variant_value T x = Some d"
  shows "\<exists>k < length (sc_variants T). iv_name (sc_variants T ! k) = normalized_ident x \<and> iv_raw (sc_variants T ! k) = Some d"
  using assms by (auto simp: variant_value_def find_Some_iff split: option.splits)

lemma variant_value_cong: "normalized_ident x = normalized_ident y \<Longrightarrow> variant_value T x = variant_value T y"
  by (simp add: variant_value_def)

lemma variant_value_inj:
  assumes "map iv_raw (sc_variants T) = map Some discs" "distinct discs" "variant_value T x = Some d" "variant_value T y = Some d"
  shows "normalized_ident x = normalized_ident y" "d \<in> set discs"
proof -
  have len: "length (sc_variants T) = length discs" using assms(1) by (metis length_map)
  have raw: "iv_raw (sc_variants T ! k) = Some (discs ! k)" if "k < length discs" for k
    using assms(1) that len by (metis nth_map)
  obtain j where j: "j < length discs" "iv_name (sc_variants T ! j) = normalized_ident x" "discs ! j = d"
    using variant_value_index [OF assms(3)] raw len by auto
  obtain k where k: "k < length discs" "iv_name (sc_variants T ! k) = normalized_ident y" "discs ! k = d"
    using variant_value_index [OF assms(4)] raw len by auto
  have "j = k" using j(1,3) k(1,3) assms(2) nth_eq_iff_index_eq by metis
  then show "normalized_ident x = normalized_ident y" using j(2) k(2) by simp
  show "d \<in> set discs" using j(1,3) by auto
qed

text \<open>
  C13. Every enum the analysis accepts becomes a schema of the library. A scalar enum is \<open>generated\<close>, with one
  discriminant per variant. A tagged enum that compiles against an accepted scalar enum as its tag type has
  only tags of that enum; they are pairwise different exactly when the variants' tag names are, raw spellings
  removed (the analysis compares the spelled paths, so this is not implied), and then the tagged enum is a
  generated payload.
\<close>

theorem accepted_enum_generated:
  assumes "analyze H pr args (ItemEnum name attrs params decls) = Ok ir"
  shows "case sc_kind ir of
      ScalarEnumItem r \<Rightarrow> generated E (enum_support E (emit_scalar_enum r ir)) \<and> length (en_discs (emit_scalar_enum r ir)) = length decls
    | TaggedEnumItem \<Rightarrow> length (sc_variants ir) = length decls \<and>
        (\<forall>H' pr' args' name' attrs' params' decls' T r.
           analyze H' pr' args' (ItemEnum name' attrs' params' decls') = Ok T \<and> sc_kind T = ScalarEnumItem r \<and>
           payload_compiles E rv T (sc_variants ir) \<longrightarrow>
             (let P = tagged_support E (sc_name ir) (map (emit_variant rv) (sc_variants ir));
                  names_differ = distinct (map (\<lambda>v. normalized_ident (last (iv_tag v))) (sc_variants ir)) in
              set (ps_tags P) \<subseteq> set (en_discs (emit_scalar_enum r T)) \<and>
              (distinct (ps_tags P) \<longleftrightarrow> names_differ) \<and> (names_differ \<longrightarrow> generated_payload E P)))
    | StructItem \<Rightarrow> False"
proof -
  have e: "analyze_enum (sc_options ir) attrs decls = Ok (sc_kind ir, sc_variants ir)"
    using assms by (auto simp: analyze_def analyze_body_def Let_def)
  show ?thesis
  proof (cases "sc_kind ir")
    case StructItem
    then show ?thesis using e by (auto simp: analyze_enum_def split: if_splits)
  next
    case (ScalarEnumItem r)
    obtain discs where "distinct discs" "list_all (\<lambda>d. d < 256 ^ scalar_width r) discs" "length discs = length decls" "decls \<noteq> []"
      "en_discs (emit_scalar_enum r ir) = discs" using scalar_enum_variants [OF assms ScalarEnumItem] by blast
    then have "enum_ok (emit_scalar_enum r ir)" "length (en_discs (emit_scalar_enum r ir)) = length decls"
      by (auto simp: enum_ok_def emit_scalar_enum_def)
    then show ?thesis using ScalarEnumItem of_enum by simp
  next
    case TaggedEnumItem
    then have v: "analyze_tagged_variants None [] decls = Ok (sc_variants ir)" "decls \<noteq> []"
      using e by (auto simp: analyze_enum_def split: if_splits)
    have n: "length (sc_variants ir) = length decls" using tagged_variants_ok [OF v(1)] by blast
    let ?vs = "sc_variants ir" and ?nm = "\<lambda>v. normalized_ident (last (iv_tag v))"
    let ?P = "tagged_support E (sc_name ir) (map (emit_variant rv) ?vs)"
    have tags: "ps_tags ?P = map (\<lambda>v. rv_tag rv (iv_tag v)) ?vs" by (simp add: tagged_support_def emit_variant_def)
    have parts: "set (ps_tags ?P) \<subseteq> set (en_discs (emit_scalar_enum r T)) \<and> (distinct (ps_tags ?P) \<longleftrightarrow> distinct (map ?nm ?vs)) \<and>
        (distinct (map ?nm ?vs) \<longrightarrow> generated_payload E ?P)"
      if T: "analyze H' pr' args' (ItemEnum name' attrs' params' decls') = Ok T" "sc_kind T = ScalarEnumItem r"
        and comp: "payload_compiles E rv T ?vs" for H' pr' args' name' attrs' params' decls' T r
    proof -
      obtain discs where d: "map iv_raw (sc_variants T) = map Some discs" "distinct discs" "en_discs (emit_scalar_enum r T) = discs"
        using scalar_enum_variants [OF T] by blast
      have val: "variant_value T (last (iv_tag v)) = Some (rv_tag rv (iv_tag v))" if "v \<in> set ?vs" for v
        using comp that by (auto simp: payload_compiles_def)
      have sub: "set (ps_tags ?P) \<subseteq> set (en_discs (emit_scalar_enum r T))"
        unfolding tags d(3) using variant_value_inj(2) [OF d(1,2) val val] by auto
      have same: "rv_tag rv (iv_tag v) = rv_tag rv (iv_tag w) \<longleftrightarrow> ?nm v = ?nm w" if "v \<in> set ?vs" "w \<in> set ?vs" for v w
        using variant_value_inj(1) [OF d(1,2) val [OF that(1)]] variant_value_cong val that by (metis option.inject)
      have inj: "inj_on (\<lambda>v. rv_tag rv (iv_tag v)) (set ?vs) \<longleftrightarrow> inj_on ?nm (set ?vs)"
        using same by (simp add: inj_on_def)
      then have dist: "distinct (ps_tags ?P) \<longleftrightarrow> distinct (map ?nm ?vs)" unfolding tags distinct_map by simp
      have "?vs \<noteq> []" using n v(2) by auto
      then have "generated_payload E ?P" if "distinct (map ?nm ?vs)"
        using that dist comp
        by (intro of_payload) (auto simp: payload_compiles_def emit_variant_def tagged_support_def split: variant_shape.splits)
      then show ?thesis using sub dist by blast
    qed
    then show ?thesis using n unfolding TaggedEnumItem Let_def item_kind.case by blast
  qed
qed

section \<open>A declaration of the sample schema\<close>

definition plain :: "string \<Rightarrow> syn_type" where
  "plain s = TyPath False False [(s, NoArgs)]"

definition message_item :: item where
  "message_item = ItemStruct ''Message'' [] [] (NamedBody
     [\<lparr>fd_ident = ''kind'', fd_ty = plain ''Kind'', fd_attrs = []\<rparr>,
      \<lparr>fd_ident = ''body'', fd_ty = plain ''Body'', fd_attrs =
        [\<lparr>at_path = [''zero''], at_metas = [\<lparr>me_path = [''tag_field''], me_value = MIdent ''kind''\<rparr>]\<rparr>]\<rparr>,
      \<lparr>fd_ident = ''flag'', fd_ty = plain ''bool'', fd_attrs = []\<rparr>])"

definition kind_item :: item where
  "kind_item = ItemEnum ''Kind'' [\<lparr>at_path = [''repr''], at_metas = [\<lparr>me_path = [''u8''], me_value = MNone\<rparr>]\<rparr>] []
     [\<lparr>vd_ident = ''Empty'', vd_fields = UnitFields, vd_disc = Some (DiscInt (LitInt ''0'' [])), vd_attrs = []\<rparr>,
      \<lparr>vd_ident = ''Move'', vd_fields = UnitFields, vd_disc = Some (DiscInt (LitInt ''0x01'' [])), vd_attrs = []\<rparr>]"

definition message_scope :: resolver where
  "message_scope = \<lparr>rv_schema = (\<lambda>ty. enum_support x64 kind_decl), rv_payload = (\<lambda>ty. tagged_support x64 ''Body'' (body x64)),
     rv_len = (\<lambda>e. 0), rv_tag = length\<rparr>"

definition tokens :: printer where
  "tokens = \<lparr>pr_type = (\<lambda>ty. ''_''), pr_path = concat\<rparr>"

lemmas front_defs = analyze_def analyze_body_def analyze_struct_def analyze_field_def container_from_tokens_and_attrs_def
  field_options_of_def zero_groups_def is_zero_attr_def reject_misplaced_zero_attributes_def generic_model_def declared_lifetimes_def
  direct_lifetimes_def validate_generated_names_def with_key_def meta_key_def duplicate_def default_field_def default_container_def
  parse_field_meta_def Let_def normalized_ident.simps

lemma message_item_fields:
  "analyze_struct x64 default_container (NamedBody
     [\<lparr>fd_ident = ''kind'', fd_ty = plain ''Kind'', fd_attrs = []\<rparr>,
      \<lparr>fd_ident = ''body'', fd_ty = plain ''Body'', fd_attrs =
        [\<lparr>at_path = [''zero''], at_metas = [\<lparr>me_path = [''tag_field''], me_value = MIdent ''kind''\<rparr>]\<rparr>]\<rparr>,
      \<lparr>fd_ident = ''flag'', fd_ty = plain ''bool'', fd_attrs = []\<rparr>]) =
   Ok [\<lparr>if_name = ''kind'', if_index = 0, if_ty = plain ''Kind'', if_options = default_field, if_category = IrPath False None, if_endian = Native\<rparr>,
     \<lparr>if_name = ''body'', if_index = 1, if_ty = plain ''Body'', if_options = default_field\<lparr>fo_tag_field := Some ''kind''\<rparr>,
       if_category = IrPath True (Some 0), if_endian = Native\<rparr>,
     \<lparr>if_name = ''flag'', if_index = 2, if_ty = plain ''bool'', if_options = default_field, if_category = IrBool, if_endian = Native\<rparr>]"
  by (simp add: front_defs plain_def classify_field_def primitive_of_def primitive_ident_def bool_type_def borrowed_target_def
      classify_option_field_def apply_field_options_def link_external_tags_def is_tagged_def lookup_field_def upt_rec)

lemma message_item_accepted:
  "\<exists>ir. analyze x64 tokens [] message_item = Ok ir \<and> struct_compiles x64 message_scope (sc_fields ir)"
proof -
  have opts: "container_from_tokens_and_attrs [] [] = Ok default_container" by (simp add: container_from_tokens_and_attrs_def zero_groups_def)
  have tags: "set (ps_tags (tagged_support x64 ''Body'' (body x64))) \<subseteq> set (en_discs kind_decl)"
    by (simp add: tagged_support_def body_def kind_decl_def)
  show ?thesis
    unfolding message_item_def analyze_def analyze_body_def item_attrs.simps item_params.simps item.case opts message_item_fields and_then.simps
    using of_enum [OF enum_ok_kind, of x64] generated_body [of x64] enum_ok_kind tags
    by (auto simp: reject_misplaced_zero_attributes_def generic_model_def declared_lifetimes_def direct_lifetimes_def validate_generated_names_def
        List.map_filter_def default_container_def Let_def root_names_def is_tag_sibling_def
        struct_compiles_def message_scope_def payload_types_def nonzero_assertions_def optional_dependency_types_def tag_identities_def is_tagged_def)
qed

theorem accepted_struct_generated_witness:
  "\<exists>ir R. analyze x64 tokens [] message_item = Ok ir \<and> emit_struct message_scope ir = Some R \<and> generated x64 (record_support x64 R)"
  using message_item_accepted accepted_struct_generated [of x64 tokens "[]" "''Message''" "[]" "[]" _ _ x64 message_scope]
  unfolding message_item_def by blast

lemma kind_item_accepted:
  "\<exists>ir. analyze x64 tokens [] kind_item = Ok ir \<and> sc_kind ir = ScalarEnumItem ReprU8"
  by (simp add: kind_item_def front_defs analyze_enum_def scalar_repr_of_def discriminant_value_def literal_text_def radix_digits_def
      from_str_radix_def digit_value_def root_names_def)

text \<open>The payload of the sample schema, tagged with the variants of \<open>Kind\<close>, one of them written raw.\<close>

definition body_item :: item where
  "body_item = ItemEnum ''Body'' [] []
     [\<lparr>vd_ident = ''Empty'', vd_fields = UnitFields, vd_disc = None, vd_attrs =
        [\<lparr>at_path = [''zero''], at_metas = [\<lparr>me_path = [''tag''], me_value = MPath [''Kind'', ''Empty'']\<rparr>]\<rparr>]\<rparr>,
      \<lparr>vd_ident = ''Move'', vd_fields = UnnamedFields [([], plain ''Kind'')], vd_disc = None, vd_attrs =
        [\<lparr>at_path = [''zero''], at_metas = [\<lparr>me_path = [''tag''], me_value = MPath [''Kind'', ''r#Move'']\<rparr>]\<rparr>]\<rparr>]"

definition body_scope :: resolver where
  "body_scope = message_scope\<lparr>rv_tag := (\<lambda>p. if p = [''Kind'', ''Empty''] then 0 else 1)\<rparr>"

lemma kind_item_variants:
  "\<exists>ir. analyze x64 tokens [] kind_item = Ok ir \<and> sc_kind ir = ScalarEnumItem ReprU8 \<and>
     variant_value ir ''Empty'' = Some 0 \<and> variant_value ir ''r#Move'' = Some 1"
  by (simp add: kind_item_def front_defs analyze_enum_def scalar_repr_of_def discriminant_value_def literal_text_def radix_digits_def
      from_str_radix_def digit_value_def root_names_def variant_value_def)

lemma body_item_accepted:
  "\<exists>ir. analyze x64 tokens [] body_item = Ok ir \<and> sc_kind ir = TaggedEnumItem \<and> sc_name ir = ''Body'' \<and>
     map iv_tag (sc_variants ir) = [[''Kind'', ''Empty''], [''Kind'', ''r#Move'']] \<and>
     map iv_shape (sc_variants ir) = [UnitShape, NewtypeShape (plain ''Kind'')]"
  by (simp add: body_item_def front_defs analyze_enum_def variant_options_of_def parse_variant_meta_def tag_owner_path_def
      tagged_shape_def rebase_path_def path_ends_in_option_def plain_def tokens_def snake_case_def ascii_upper_def)

theorem accepted_enum_generated_witness:
  "(\<exists>ir. analyze x64 tokens [] kind_item = Ok ir \<and> generated x64 (enum_support x64 (emit_scalar_enum ReprU8 ir)) \<and>
      length (en_discs (emit_scalar_enum ReprU8 ir)) = 2) \<and>
   (\<exists>ir. analyze x64 tokens [] body_item = Ok ir \<and>
      generated_payload x64 (tagged_support x64 ''Body'' (map (emit_variant body_scope) (sc_variants ir))))"
proof -
  obtain T where T: "analyze x64 tokens [] kind_item = Ok T" "sc_kind T = ScalarEnumItem ReprU8"
    "variant_value T ''Empty'' = Some 0" "variant_value T ''r#Move'' = Some 1" using kind_item_variants by blast
  have scalar: "generated x64 (enum_support x64 (emit_scalar_enum ReprU8 T))" "length (en_discs (emit_scalar_enum ReprU8 T)) = 2"
    using accepted_enum_generated [OF T(1) [unfolded kind_item_def], of x64] T(2) by simp_all
  obtain ir where ir: "analyze x64 tokens [] body_item = Ok ir" "sc_kind ir = TaggedEnumItem" "sc_name ir = ''Body''"
    "map iv_tag (sc_variants ir) = [[''Kind'', ''Empty''], [''Kind'', ''r#Move'']]"
    "map iv_shape (sc_variants ir) = [UnitShape, NewtypeShape (plain ''Kind'')]" using body_item_accepted by (elim exE conjE)
  have "length (sc_variants ir) = Suc (Suc 0)" using arg_cong [OF ir(4), of length] by simp
  then obtain v w where vs: "sc_variants ir = [v, w]" by (metis length_0_conv length_Suc_conv)
  have comp: "payload_compiles x64 body_scope T (sc_variants ir)"
    using ir(4,5) T(3,4) of_enum [OF enum_ok_kind, of x64] unfolding vs by (simp add: payload_compiles_def body_scope_def message_scope_def)
  have names: "distinct (map (\<lambda>v. normalized_ident (last (iv_tag v))) (sc_variants ir))"
    using ir(4) unfolding vs by (simp add: normalized_ident.simps)
  note tagged = accepted_enum_generated [OF ir(1) [unfolded body_item_def], of x64 body_scope, unfolded ir(2,3) item_kind.case Let_def]
  have "generated_payload x64 (tagged_support x64 ''Body'' (map (emit_variant body_scope) (sc_variants ir)))"
    using conjunct2 [OF tagged, rule_format, OF conjI [OF T(1) [unfolded kind_item_def] conjI [OF T(2) comp]]] names by blast
  then show ?thesis using T(1) scalar ir(1) by blast
qed

section \<open>The analysis is total\<close>

lemma array_length_total: "array_length H len \<noteq> Panic"
  using parse_unsigned_total by (auto simp: array_length_def split: len_expr.splits)

lemma borrowed_string_total: "borrowed_string l target fo \<noteq> Panic"
  by (auto simp: borrowed_string_def required_capacity_def split: option.splits)

lemma classify_array_element_total: "classify_array_element H ty fo \<noteq> Panic"
proof (induction H ty fo rule: classify_array_element.induct)
  case (1 H ty fo)
  then show ?case
    using array_length_total borrowed_string_total
    by (subst classify_array_element.simps) (auto split: option.splits syn_type.splits)
qed

lemma classify_field_total: "classify_field H ty fo \<noteq> Panic"
proof -
  have "classify_optional_inner H t \<noteq> Panic" for t
    using array_length_total by (auto simp: classify_optional_inner_def split: syn_type.splits bool.splits)
  then have "classify_option_field H ty \<noteq> Panic"
    by (auto simp: classify_option_field_def split: syn_type.splits bool.splits path_args.splits list.splits generic_arg.splits)
  then show ?thesis
    using array_length_total borrowed_string_total classify_array_element_total
    by (auto simp: classify_field_def split: option.splits syn_type.splits)
qed

lemma analyze_struct_total: "analyze_struct H options sb \<noteq> Panic"
proof -
  have "analyze_field H options k d \<noteq> Panic" for k d
    using options_total(2) classify_field_total apply_no_panic by (auto simp: analyze_field_def)
  then have "analyze_fields H options k ds \<noteq> Panic" for k ds by (induction ds arbitrary: k) auto
  moreover have "link_external_tags fs \<noteq> Panic" if "analyze_fields H options 0 ds = Ok fs" for ds fs
    using link_no_panic [of fs "[0..<length fs]" "[]"] analyze_fields_ready [OF that] by (auto simp: link_external_tags_def lessThan_atLeast0)
  ultimately show ?thesis by (auto simp: analyze_struct_def split: struct_body.splits)
qed

lemma analyze_enum_total: "analyze_enum options attrs decls \<noteq> Panic"
proof -
  have "repr_metas ms found \<noteq> Panic" for ms found
    by (induction ms found rule: repr_metas.induct) (auto split: list.splits option.splits)
  then have "scalar_repr_of attrs \<noteq> Panic" by (auto simp: scalar_repr_of_def split: option.splits)
  moreover have disc: "discriminant_value e r \<noteq> Panic" for e r
    by (auto simp: discriminant_value_def split: disc_expr.splits prod.splits option.splits)
  then have "analyze_scalar_variants r raws ds \<noteq> Panic" for r raws ds
    by (induction ds arbitrary: raws) (auto split: option.splits)
  moreover have shape: "tagged_shape vf \<noteq> Panic" "tag_owner_path p \<noteq> Panic" for vf p
    by (auto simp: tagged_shape_def tag_owner_path_def split: variant_fields.splits list.splits)
  then have "analyze_tagged_variants t ts ds \<noteq> Panic" for t ts ds
    using options_total(3) by (induction ds arbitrary: t ts) (auto split: option.splits)
  ultimately show ?thesis by (auto simp: analyze_enum_def)
qed

text \<open>
  C17. Analysis is total: on every item and every attribute it returns a schema or diagnostics. No option parser
  panics, whatever literal or path it is given, a panic of one would end the attribute loop; the \<open>expect\<close> on a
  tagged field's \<open>tag_field\<close> option and the \<open>unreachable!\<close> on a payload's category in \<open>link_external_tags\<close> are never
  reached. (The \<open>unreachable!\<close> of \<open>analyze_struct\<close> are on shapes that a \<open>NamedBody\<close> cannot have.)
\<close>

theorem analysis_total: "analyze H pr args it \<noteq> Panic"
proof -
  have "analyze_body H options it \<noteq> Panic" for options
    using analyze_struct_total analyze_enum_total by (auto simp: analyze_body_def split: item.splits)
  then show ?thesis
    using options_total(1) validated_names(1) by (auto simp: analyze_def Let_def reject_misplaced_zero_attributes_def generic_model_def split: option.splits)
qed

end
