(* ===== verification/Zs_Fields.thy ===== *)
theory Zs_Fields
  imports Zs_Schema
begin

text \<open>
  The members of a proved record: its getters (\<open>field_read_expr\<close>), its \<open>field_mut\<close> handles
  (\<open>field_mutator\<close>), the placement of its fields and the tag check of a logical source.
\<close>

section \<open>Getters\<close>

text \<open>What a getter's result materializes to; an absent optional is \<open>None\<close>.\<close>

fun view_value :: "env \<Rightarrow> string \<Rightarrow> string \<Rightarrow> category \<Rightarrow> view option \<Rightarrow> (schema_error, lval) res" where
  "view_value E nm f (LeafField l) r = (case r of Some (LeafView x) \<Rightarrow> Ok (LeafValue x) | _ \<Rightarrow> Panic)"
| "view_value E nm f (PathField S) r = (case r of Some x \<Rightarrow> ss_materialize S x | None \<Rightarrow> Panic)"
| "view_value E nm f (TaggedField t P) r = (case r of Some (TaggedView tag p) \<Rightarrow> ps_materialize_selected P tag p | _ \<Rightarrow> Panic)"
| "view_value E nm f (ArrayField n e) r = (case r of
     Some (SpanView j) \<Rightarrow> materialize_array E (elem_of E nm f (n # element_dims e) e) (elem_value E nm f (n # element_dims e) e) n j
   | _ \<Rightarrow> Panic)"
| "view_value E nm f (OptionalField x) r = (case r of None \<Rightarrow> Ok (OptionValue None)
   | Some y \<Rightarrow> and_then (inner_value E nm f x y) (\<lambda>v. Ok (OptionValue (Some v))))"

lemma getter_materializes:
  assumes "record_ok E R" "record_input E R i" "k < field_count R"
  shows "materialized_field E R k i = and_then (field_read E R k i) (view_value E (ri_name R) (fi_name (fld R k)) (cat R k))"
proof (cases "cat R k")
  case (PathField S)
  then have "subrange E (ss_wire S) (field_value_offset E R k) i = Ok (vspan E R k i)"
    using select_field(3) [OF assms] by simp
  then show ?thesis
    using PathField path_field_eqs(2) [OF assms PathField]
    by (cases "ss_validate S (vspan E R k i)"; cases "ss_make_ref S (vspan E R k i)")
      (simp_all add: field_read_def Let_def ss_prove_def ss_logical_def)
next
  case (TaggedField t P)
  show ?thesis
  proof (cases "read_tag E R t (access_layout (ri_name R)) id i")
    case (Ok tag)
    have sel: "subrange E (ps_wire P) (field_value_offset E R k) i = Ok (vspan E R k i)"
      using select_field(3) [OF assms] TaggedField by simp
    show ?thesis
      using TaggedField Ok sel
      by (cases "ps_validate_selected P tag (vspan E R k i)")
        (simp_all add: materialized_field_def field_read_def Let_def ref_prove_at_def ref_materialize_def)
  qed (use TaggedField in \<open>simp_all add: materialized_field_def field_read_def Let_def\<close>)
qed (cases "field_read E R k i"; simp add: materialized_field_def Let_def)+

text \<open>
  C14. Every getter of a proved record succeeds, and \<open>copy_into\<close> is the getters: no \<open>unreachable!\<close> of a
  getter is reached, and materializing each getter's result gives the fields of the copied record.
\<close>

theorem getters_of_proved_record:
  assumes "record_ok E R" "record_input E R i" "record_validate E R i = Ok ()"
  shows "\<exists>vs. record_copy_into E R (SpanView i) = Ok (RecordValue vs) \<and> length vs = field_count R \<and>
    (\<forall>k < field_count R. \<exists>r. field_read E R k i = Ok r \<and>
       view_value E (ri_name R) (fi_name (fld R k)) (cat R k) r = Ok (vs ! k))"
proof -
  obtain vs where vs: "collect (\<lambda>k. materialized_field E R k i) [0..<field_count R] = Ok vs"
    using record_proved_reads [OF assms] by (auto simp: record_copy_into_def)
  then have fields: "length vs = field_count R" "\<And>k. k < field_count R \<Longrightarrow> materialized_field E R k i = Ok (vs ! k)"
    unfolding collect_Ok by simp_all
  have "\<exists>r. field_read E R k i = Ok r \<and> view_value E (ri_name R) (fi_name (fld R k)) (cat R k) r = Ok (vs ! k)"
    if "k < field_count R" for k
    using fields(2) [OF that] getter_materializes [OF assms(1,2) that] by simp
  then show ?thesis using vs fields(1) by (auto simp: record_copy_into_def)
qed

theorem getters_of_proved_record_witness:
  "\<exists>r. field_read x64 (message x64) 1 (message_input 5 0 0 0) = Ok r"
  using getters_of_proved_record [OF message_record_ok [OF env_ok_linux_x86_64], of "message_input 5 0 0 0"]
    message_input_ok message_zero_validates by (auto simp: message_def)

section \<open>Field handles\<close>

text \<open>The span a field handle holds: the complete storage of an optional field, the value of any other.\<close>

definition handle_wire :: "env \<Rightarrow> record_ir \<Rightarrow> nat \<Rightarrow> wlayout" where
  "handle_wire E R k = (case cat R k of OptionalField x \<Rightarrow> field_wire E (fld R k) | c \<Rightarrow> category_wire E c)"

definition handle_offset :: "env \<Rightarrow> record_ir \<Rightarrow> nat \<Rightarrow> usize" where
  "handle_offset E R k = (case cat R k of OptionalField x \<Rightarrow> field_offset E R k | _ \<Rightarrow> field_value_offset E R k)"

lemma field_mutator_proved:
  assumes "record_ok E R" "record_input E R i" "k < field_count R" "proof_field E R k i = Ok ()"
  shows "field_mutator E R k i = Ok (sub_input (handle_wire E R k) (handle_offset E R k) i)"
proof -
  note sel = select_field [OF assms(1-3)] and E = record_okD(1) [OF assms(1)]
  let ?v = "vspan E R k i" and ?nm = "ri_name R" and ?f = "fi_name (fld R k)"
  from assms(1,3) show ?thesis
  proof (cases rule: field_cases)
    case (leaf l)
    then show ?thesis
      using sel leaf_field_eqs(1) [OF assms(1-3) leaf(1)] assms(4) E
      by (auto simp: field_mutator_def handle_wire_def handle_offset_def Let_def subrange_mut_eq scalar_mut_prove_def leaf_adapter_def shared_Ok)
  next
    case (path S)
    then show ?thesis
      using sel path_field_eqs(3) [OF assms(1-3) path(1)] assms(4) E
      by (simp add: field_mutator_def handle_wire_def handle_offset_def Let_def subrange_mut_eq ss_prove_mut_def shared_Ok)
  next
    case (tagged t P D)
    have proved: "tag_at E R D t i \<in> set (en_discs D)" "ps_validate_selected P (tag_at E R D t i) ?v = Ok ()"
      using tagged_field_eqs(3) [OF assms(1-3) tagged(1,5,3)] assms(4) by blast+
    have "read_tag E R t (access_layout ?nm) id i = Ok (tag_at E R D t i)"
      unfolding read_tag_eq [OF assms(1,2) tagged(3,5)] using proved(1) by simp
    moreover have "mut_prove_at E P i (tag_at E R D t i) (field_value_offset E R k) = Ok \<lparr>sel_tag = tag_at E R D t i, sel_payload = ?v\<rparr>"
    proof -
      have "subrange E (ps_wire P) (field_value_offset E R k) i = Ok ?v" using tagged(1) sel(3) by simp
      then show ?thesis unfolding mut_prove_at_def subrange_mut_eq using proved(2) by (simp add: shared_Ok [OF E sel(4)])
    qed
    moreover have "handle_wire E R k = category_wire E (cat R k)" "handle_offset E R k = field_value_offset E R k"
      using tagged(1) by (simp_all add: handle_wire_def handle_offset_def)
    ultimately show ?thesis unfolding field_mutator_def Let_def using tagged(1) by simp
  next
    case (array n e)
    let ?A = "elem_of E ?nm ?f (n # element_dims e) e"
    note c = array_field_contract [OF assms(1-3) array(1,3)]
    have "array_mut_prove E ?A n ?v = Ok \<lparr>am_input = ?v, am_base = 0\<rparr>"
      unfolding array_mut_prove_def element_contract.mut_prove_iff(1) [OF c(1) TrueI sel(4) c(2)] using c(5) assms(4) by simp
    then show ?thesis
      using array(1) sel(3) by (simp add: field_mutator_def handle_wire_def handle_offset_def Let_def subrange_mut_eq)
  next
    case (optional x)
    let ?A = "option_of E ?nm ?f x (fi_align (fld R k))"
    note c = option_of_contract [OF E record_okD(3) [OF assms(1,3)] optional(2), of ?nm ?f]
    have w: "i_wire (seg E R k i) = op_storage ?A" using optional(1) by (simp add: field_wire_def)
    have "option_value ?A (seg E R k i) = ?v"
      using vspan_of_seg [OF assms(1,3)] optional(1) by (simp add: option_value_def)
    then have "option_proved E ?A (seg E R k i)"
      using optional_field_eqs(1) [OF assms(1-3) optional(1)] assms(4) sel(2) w by (auto simp: option_proved_def split: if_splits)
    then show ?thesis
      using option_contract.prove_iff(1) [OF c TrueI sel(2) w] sel(1) optional(1)
      by (simp add: field_mutator_def handle_wire_def handle_offset_def Let_def subrange_mut_eq)
  qed
qed

lemma handle_write:
  assumes "record_ok E R" "record_input E R i" "k < field_count R"
    "same_span (sub_input (handle_wire E R k) (handle_offset E R k) i) c"
  shows "record_input E R (write_back (handle_offset E R k) c i)"
    "sub_input (handle_wire E R k) (handle_offset E R k) (write_back (handle_offset E R k) c i) = c"
    "j < field_count R \<Longrightarrow> j \<noteq> k \<Longrightarrow> seg E R j (write_back (handle_offset E R k) c i) = seg E R j i"
proof -
  have "record_input E R (write_back (handle_offset E R k) c i) \<and>
    sub_input (handle_wire E R k) (handle_offset E R k) (write_back (handle_offset E R k) c i) = c \<and>
    (j < field_count R \<longrightarrow> j \<noteq> k \<longrightarrow> seg E R j (write_back (handle_offset E R k) c i) = seg E R j i)" for j
  proof (cases "\<exists>x. cat R k = OptionalField x")
    case True
    then have h: "handle_wire E R k = field_wire E (fld R k)" "handle_offset E R k = field_offset E R k"
      by (auto simp: handle_wire_def handle_offset_def)
    note w = write_seg [OF assms(1-3), of c, folded h, OF assms(4)]
    show ?thesis using w record_input_span [OF w(1) assms(2)] h by simp
  next
    case False
    then have h: "handle_wire E R k = category_wire E (cat R k)" "handle_offset E R k = field_value_offset E R k"
      by (auto simp: handle_wire_def handle_offset_def split: category.splits)
    note w = write_value [OF assms(1-3), of c, folded h, OF assms(4)]
    show ?thesis using w record_input_span [OF w(1) assms(2)] h by simp
  qed
  then show "record_input E R (write_back (handle_offset E R k) c i)"
    "sub_input (handle_wire E R k) (handle_offset E R k) (write_back (handle_offset E R k) c i) = c"
    "j < field_count R \<Longrightarrow> j \<noteq> k \<Longrightarrow> seg E R j (write_back (handle_offset E R k) c i) = seg E R j i" by blast+
qed

text \<open>Writing through one handle leaves the other fields proved, so the record stands or falls with that field.\<close>

lemma record_of_handle:
  assumes "record_ok E R" "record_input E R i" "record_validate E R i = Ok ()" "k < field_count R"
    and "\<not> is_external_tag_sibling R k" "same_span (sub_input (handle_wire E R k) (handle_offset E R k) i) c"
  shows "record_validate E R (write_back (handle_offset E R k) c i) = Ok () \<longleftrightarrow>
       proof_field E R k (write_back (handle_offset E R k) c i) = Ok ()"
proof -
  let ?j = "write_back (handle_offset E R k) c i"
  note w = handle_write [OF assms(1,2,4,6)]
  have "proof_field E R l ?j = Ok ()" if l: "l < field_count R" "l \<noteq> k" for l
  proof -
    have "seg E R t ?j = seg E R t i" if "owns R l t" for t
    proof (rule w(3))
      show "t \<noteq> k" using that l assms(5) tag_sibling_iff [OF assms(1), of k] by (auto simp: owns_def split: category.splits)
      show "t < field_count R" using that l(1) record_okD(4) [OF assms(1) l(1)] by (auto simp: owns_def split: category.splits)
    qed
    from field_local(1) [OF assms(1) w(1) assms(2) l(1) this] show ?thesis
      using record_validate_iff(1) [OF assms(1,2)] assms(3) l(1) by simp
  qed
  then show ?thesis unfolding record_validate_iff(1) [OF assms(1) w(1)] using assms(4) by blast
qed

text \<open>
  C15. Mutating one field of a proved record: for every field except the tag siblings, which have no
  handle, \<open>field_mut\<close> yields the field's span without reaching an \<open>unreachable!\<close>; whatever the handle leaves
  in that span, no byte of any other field's storage changes, and the record is proved exactly when the
  field itself is. The tag of a payload is among the other fields.
\<close>

theorem field_handles_of_proved_record:
  assumes "record_ok E R" "record_input E R i" "record_validate E R i = Ok ()" "k < field_count R"
    and "\<not> is_external_tag_sibling R k" "same_span (sub_input (handle_wire E R k) (handle_offset E R k) i) c"
  shows "field_mutator E R k i = Ok (sub_input (handle_wire E R k) (handle_offset E R k) i) \<and>
    (\<forall>j < field_count R. j \<noteq> k \<longrightarrow> seg E R j (write_back (handle_offset E R k) c i) = seg E R j i) \<and>
    (record_validate E R (write_back (handle_offset E R k) c i) = Ok () \<longleftrightarrow>
       proof_field E R k (write_back (handle_offset E R k) c i) = Ok ())"
proof -
  have "proof_field E R k i = Ok ()" using record_validate_iff(1) [OF assms(1,2)] assms(3,4) by blast
  then show ?thesis
    using field_mutator_proved [OF assms(1,2,4)] handle_write(3) [OF assms(1,2,4,6)] record_of_handle [OF assms] by blast
qed

theorem field_handles_of_proved_record_witness:
  "field_mutator x64 (message x64) 2 (message_input 5 0 0 0) = Ok (vspan x64 (message x64) 2 (message_input 5 0 0 0))"
proof -
  have "\<not> is_external_tag_sibling (message x64) 2" "handle_wire x64 (message x64) 2 = category_wire x64 (cat (message x64) 2)"
    "handle_offset x64 (message x64) 2 = field_value_offset x64 (message x64) 2" "field_count (message x64) = 3"
    by (simp_all add: is_external_tag_sibling_def message_def handle_wire_def handle_offset_def)
  then show ?thesis
    using field_handles_of_proved_record [OF message_record_ok [OF env_ok_linux_x86_64], of "message_input 5 0 0 0" 2
        "vspan x64 (message x64) 2 (message_input 5 0 0 0)"] message_input_ok message_zero_validates by simp
qed

section \<open>Layout, error order and tags\<close>

text \<open>
  C12. Placement of a generated record: every field's storage lies inside the record at an offset its
  alignment divides, its value inside its storage, and the storage of different fields never overlaps.
\<close>

theorem record_fields_placed:
  assumes "record_ok E R" "j < field_count R" "k < field_count R" "j \<noteq> k"
  shows "wf_layout (record_wire E R) \<and> field_fits (field_wire E (fld R k)) (field_offset E R k) (record_wire E R) \<and>
    field_fits (category_wire E (cat R k)) (field_value_offset E R k) (record_wire E R) \<and>
    field_offset E R k \<le> field_value_offset E R k \<and>
    field_value_offset E R k + wl_size (category_wire E (cat R k)) \<le> field_offset E R k + wl_size (field_wire E (fld R k)) \<and>
    disjoint_spans (field_offset E R j) (wl_size (field_wire E (fld R j))) (field_offset E R k) (wl_size (field_wire E (fld R k)))"
  using wf_record_wire field_fits_record value_fits_record seg_disjoint value_fits_field [OF assms(1,3)] assms
  by (auto simp: field_value_offset_def field_fits_def)

theorem record_fields_placed_witness:
  "disjoint_spans (field_offset x64 (message x64) 1) (wl_size (field_wire x64 (fld (message x64) 1)))
     (field_offset x64 (message x64) 2) (wl_size (field_wire x64 (fld (message x64) 2)))"
  using record_fields_placed [OF message_record_ok [OF env_ok_linux_x86_64], of 1 2] by (simp add: message_def)

text \<open>
  C19. A logical source whose tag disagrees with its payload is refused: the payload field's preflight
  returns \<open>TagMismatch\<close> before reading anything, so neither pass accepts the source.
\<close>

theorem tag_mismatch_refused:
  assumes "record_ok E R" "record_input E R i" "k < field_count R" "cat R k = TaggedField t P"
    and "ps_logical_tag P (vs ! k) = Ok target" "vs ! t \<noteq> EnumValue target"
  shows "preflight_field E R m k i vs = Err (mutation_field_kind (ri_name R) (fi_name (fld R k)) TagMismatch) \<and>
    record_preflight E R m i (RecordValue vs) \<noteq> Ok ()"
proof -
  have "\<not> is_external_tag_sibling R k" using tag_sibling_path(2) [OF assms(1), of k] assms(4) by auto
  then have "preflight_field E R m k i vs = Err (mutation_field_kind (ri_name R) (fi_name (fld R k)) TagMismatch)"
    using assms(4-6) by (simp add: preflight_field_def Let_def)
  then show ?thesis using assms(3) by (auto simp: record_passes intro!: bexI [of _ k])
qed

theorem tag_mismatch_refused_witness:
  "record_preflight x64 (message x64) Init (message_input 5 0 0 0)
     (RecordValue [EnumValue 1, VariantValue 0 None, LeafValue (BoolVal True)]) \<noteq> Ok ()"
proof -
  have "cat (message x64) 1 = TaggedField 0 (tagged_support x64 ''Body'' (body x64))" "field_count (message x64) = 3"
    by (simp_all add: message_def)
  moreover have "ps_logical_tag (tagged_support x64 ''Body'' (body x64)) (VariantValue 0 None) = Ok 0"
    by (simp add: tagged_support_def payload_logical_tag_def body_def)
  ultimately show ?thesis
    using tag_mismatch_refused [OF message_record_ok [OF env_ok_linux_x86_64], of "message_input 5 0 0 0" 1 0 _
        "[EnumValue 1, VariantValue 0 None, LeafValue (BoolVal True)]" 0 Init] message_input_ok by simp
qed

end
