(* ===== verification/Zs_Layout.thy ===== *)
theory Zs_Layout
  imports Zs_Frontend Zs_Fields
begin

text \<open>
  The diagnostic layout descriptors, \<open>src/layout.rs\<close>, and the metadata the macro emits for them
  (\<open>struct_field_metadata\<close>, \<open>field_metadata_kind\<close>, \<open>string_descriptor\<close>, \<open>array_element_kind\<close>,
  \<open>struct_padding_ranges\<close>, \<open>struct_abi_assertions\<close> in \<open>emit_wire.rs\<close>). The theorems relate the descriptors
  to the offsets the generated code accesses, and show that the padding ranges are exactly the bytes no
  value covers.
\<close>

section \<open>Descriptors\<close>

datatype string_encoding = EncUtf8 | EncCBytes | EncU16 | EncU16C

record length_descriptor =
  ld_repr :: scalar_repr
  ld_endian :: endian
  ld_offset :: usize

record string_descriptor =
  sd_encoding :: string_encoding
  sd_capacity :: usize
  sd_length :: "length_descriptor option"
  sd_data_offset :: usize

record byte_range =
  br_start :: usize
  br_end :: usize

record enum_value_descriptor =
  ev_name :: string
  ev_raw_value :: nat

datatype type_kind = KindStruct | KindScalarEnum scalar_repr endian | KindTaggedUnion

datatype layout_descriptor = LayoutDescriptor (ly_name: string) (ly_kind: type_kind) (ly_size: usize) (ly_align: usize) (ly_stride: usize)
    (ly_padding: "byte_range list") (ly_fields: "field_descriptor list") (ly_enum_values: "enum_value_descriptor list")
    (ly_variants: "variant_descriptor list")
and field_descriptor = FieldDescriptor (fl_name: string) (fl_declaration_index: usize) (fl_offset: usize) (fl_size: usize) (fl_align: usize)
    (fl_kind: field_kind) (fl_optional: bool)
and field_kind =
    FkPrimitive primitive endian
  | FkBool
  | FkScalarEnum layout_descriptor
  | FkString string_descriptor
  | FkFixedBytes usize
  | FkArray array_descriptor
  | FkSchema layout_descriptor
  | FkExternalTaggedUnion layout_descriptor external_tag_descriptor
and array_element_kind =
    AkPrimitive primitive endian
  | AkBool
  | AkScalarEnum layout_descriptor
  | AkSchema layout_descriptor
  | AkString string_descriptor
  | AkArray array_descriptor
and array_descriptor = ArrayDescriptor (ad_element: array_element_kind) (ad_length: usize) (ad_stride: usize)
and external_tag_descriptor = ExternalTagDescriptor (et_field_name: string) (et_offset: usize) (et_layout: layout_descriptor)
and variant_descriptor = VariantDescriptor (vr_name: string) (vr_raw_tag: nat) (vr_payload: layout_descriptor) (vr_payload_size: usize)
    (vr_payload_align: usize)

text \<open>\<open>VariantDescriptor::__new\<close> asserts a nonzero payload.\<close>

definition new_variant :: "string \<Rightarrow> nat \<Rightarrow> layout_descriptor \<Rightarrow> usize \<Rightarrow> usize \<Rightarrow> (schema_error, variant_descriptor) res" where
  "new_variant nm tag payload sz al = (if sz = 0 \<or> al = 0 then Panic else Ok (VariantDescriptor nm tag payload sz al))"

section \<open>Emitted metadata\<close>

text \<open>The \<open>LAYOUT\<close> constants that the children's trait implementations provide.\<close>

record layouts =
  lo_schema :: "schema_support \<Rightarrow> layout_descriptor"
  lo_payload :: "payload_support \<Rightarrow> layout_descriptor"

definition string_descriptor_of :: "env \<Rightarrow> leaf \<Rightarrow> string_descriptor option" where
  "string_descriptor_of E l = (case l of
     BorrowedStr r en n \<Rightarrow> Some \<lparr>sd_encoding = EncUtf8, sd_capacity = n,
       sd_length = Some \<lparr>ld_repr = r, ld_endian = en, ld_offset = 0\<rparr>, sd_data_offset = str_data_offset E r n\<rparr>
   | BorrowedCStr n \<Rightarrow> Some \<lparr>sd_encoding = EncCBytes, sd_capacity = n, sd_length = None, sd_data_offset = place 0 [bytes_layout n] ! 0\<rparr>
   | BorrowedU16Str r en n \<Rightarrow> Some \<lparr>sd_encoding = EncU16, sd_capacity = n,
       sd_length = Some \<lparr>ld_repr = r, ld_endian = en, ld_offset = 0\<rparr>, sd_data_offset = u16_str_data_offset E r n\<rparr>
   | BorrowedU16CStr n \<Rightarrow> Some \<lparr>sd_encoding = EncU16C, sd_capacity = n, sd_length = None,
       sd_data_offset = place 0 [array_layout n (prim_layout E U16)] ! 0\<rparr>
   | _ \<Rightarrow> None)"

definition path_element_kind :: "layouts \<Rightarrow> schema_support \<Rightarrow> array_element_kind" where
  "path_element_kind L S = (case ly_kind (lo_schema L S) of
     KindScalarEnum r en \<Rightarrow> AkScalarEnum (lo_schema L S) | _ \<Rightarrow> AkSchema (lo_schema L S))"

text \<open>\<open>None\<close> is the internal analysis mismatch.\<close>

primrec element_kind_of :: "env \<Rightarrow> layouts \<Rightarrow> element \<Rightarrow> array_element_kind option" where
  "element_kind_of E L (LeafElem l) = (case l of
     Primitive en p \<Rightarrow> Some (AkPrimitive p en) | Bool \<Rightarrow> Some AkBool | _ \<Rightarrow> map_option AkString (string_descriptor_of E l))"
| "element_kind_of E L (PathElem S) = Some (path_element_kind L S)"
| "element_kind_of E L (RowElem n e) =
     map_option (\<lambda>kind. AkArray (ArrayDescriptor kind n (wl_size (element_wire E e)))) (element_kind_of E L e)"

definition path_field_kind :: "layouts \<Rightarrow> schema_support \<Rightarrow> field_kind" where
  "path_field_kind L S = (case ly_kind (lo_schema L S) of
     KindScalarEnum r en \<Rightarrow> FkScalarEnum (lo_schema L S) | _ \<Rightarrow> FkSchema (lo_schema L S))"

text \<open>The offset of a field's value, which \<open>field_metadata_kind\<close> uses for the tag of a payload.\<close>

definition semantic_field_offset :: "env \<Rightarrow> record_ir \<Rightarrow> nat \<Rightarrow> usize" where
  "semantic_field_offset E R k = (case fi_align (fld R k) of
     None \<Rightarrow> field_offset E R k
   | Some a \<Rightarrow> field_offset E R k + aligned_value_offset (category_wire E (cat R k)) a)"

definition field_metadata_kind :: "env \<Rightarrow> layouts \<Rightarrow> record_ir \<Rightarrow> category \<Rightarrow> field_kind option" where
  "field_metadata_kind E L R c = (case c of
     LeafField l \<Rightarrow> (case l of
         Primitive en p \<Rightarrow> Some (FkPrimitive p en) | Bool \<Rightarrow> Some FkBool | FixedBytes n \<Rightarrow> Some (FkFixedBytes n)
       | _ \<Rightarrow> map_option FkString (string_descriptor_of E l))
   | PathField S \<Rightarrow> Some (path_field_kind L S)
   | TaggedField t P \<Rightarrow> (case cat R t of
         PathField T \<Rightarrow> Some (FkExternalTaggedUnion (lo_payload L P)
           (ExternalTagDescriptor (fi_name (fld R t)) (semantic_field_offset E R t) (lo_schema L T)))
       | _ \<Rightarrow> None)
   | ArrayField n e \<Rightarrow> map_option (\<lambda>kind. FkArray (ArrayDescriptor kind n (wl_size (element_wire E e)))) (element_kind_of E L e)
   | OptionalField (OptPath S) \<Rightarrow> Some (path_field_kind L S)
   | OptionalField (OptArray n S) \<Rightarrow> Some (FkArray (ArrayDescriptor (path_element_kind L S) n (wl_size (ss_wire S)))))"

definition is_optional_category :: "category \<Rightarrow> bool" where
  "is_optional_category c = (case c of OptionalField x \<Rightarrow> True | _ \<Rightarrow> False)"

definition field_metadata :: "env \<Rightarrow> layouts \<Rightarrow> record_ir \<Rightarrow> nat \<Rightarrow> field_descriptor option" where
  "field_metadata E L R k = map_option (\<lambda>kind. FieldDescriptor (fi_name (fld R k)) k (field_offset E R k)
     (wl_size (field_wire E (fld R k))) (wl_align (field_wire E (fld R k))) kind (is_optional_category (cat R k)))
     (field_metadata_kind E L R (cat R k))"

definition struct_field_metadata :: "env \<Rightarrow> layouts \<Rightarrow> record_ir \<Rightarrow> field_descriptor list option" where
  "struct_field_metadata E L R = those (map (field_metadata E L R) [0..<field_count R])"

definition field_padding :: "env \<Rightarrow> record_ir \<Rightarrow> nat \<Rightarrow> byte_range list" where
  "field_padding E R k = (let offset = field_offset E R k; base = category_wire E (cat R k) in
     case fi_align (fld R k) of
       None \<Rightarrow> []
     | Some a \<Rightarrow> [\<lparr>br_start = offset, br_end = offset + aligned_value_offset base a\<rparr>,
         \<lparr>br_start = offset + aligned_value_offset base a + wl_size base, br_end = offset + wl_size (field_wire E (fld R k))\<rparr>])"

fun padding_from :: "env \<Rightarrow> record_ir \<Rightarrow> usize \<Rightarrow> nat list \<Rightarrow> byte_range list" where
  "padding_from E R previous_end [] = [\<lparr>br_start = previous_end, br_end = wl_size (record_wire E R)\<rparr>]"
| "padding_from E R previous_end (k # ks) =
     \<lparr>br_start = previous_end, br_end = field_offset E R k\<rparr> # field_padding E R k @
     padding_from E R (field_offset E R k + wl_size (field_wire E (fld R k))) ks"

definition struct_padding_ranges :: "env \<Rightarrow> record_ir \<Rightarrow> byte_range list" where
  "struct_padding_ranges E R = padding_from E R 0 [0..<field_count R]"

definition struct_abi_assertions :: "env \<Rightarrow> record_ir \<Rightarrow> bool list" where
  "struct_abi_assertions E R = concat (map (\<lambda>k.
     (field_offset E R k + wl_size (field_wire E (fld R k)) \<le> wl_size (record_wire E R)) #
     (case cat R k of ArrayField n e \<Rightarrow> [wl_size (array_layout n (element_wire E e)) = wl_size (element_wire E e) * n] | _ \<Rightarrow> []))
     [0..<field_count R])"

definition struct_layout :: "env \<Rightarrow> layouts \<Rightarrow> record_ir \<Rightarrow> layout_descriptor option" where
  "struct_layout E L R = map_option (\<lambda>fields. LayoutDescriptor (ri_name R) KindStruct (wl_size (record_wire E R)) (wl_align (record_wire E R))
     (wl_size (record_wire E R)) (struct_padding_ranges E R) fields [] []) (struct_field_metadata E L R)"

definition enum_layout :: "env \<Rightarrow> scalar_repr \<Rightarrow> schema_ir \<Rightarrow> layout_descriptor" where
  "enum_layout E r ir = (let w = enum_wire E (emit_scalar_enum r ir) in
     LayoutDescriptor (sc_name ir) (KindScalarEnum r (co_endian (sc_options ir))) (wl_size w) (wl_align w) (wl_size w) [] []
       (List.map_filter (\<lambda>v. map_option (\<lambda>raw. \<lparr>ev_name = iv_name v, ev_raw_value = raw\<rparr>) (iv_raw v)) (sc_variants ir)) [])"

definition unit_layout :: "env \<Rightarrow> string \<Rightarrow> string \<Rightarrow> layout_descriptor" where
  "unit_layout E nm variant = (let w = repr_c [prim_layout E U8] in
     LayoutDescriptor (nm @ ''.'' @ variant) KindStruct (wl_size w) (wl_align w) (wl_size w) [] [] [] [])"

definition variant_metadata :: "env \<Rightarrow> layouts \<Rightarrow> string \<Rightarrow> variant_ir \<Rightarrow> (schema_error, variant_descriptor) res" where
  "variant_metadata E L nm va = (case va_shape va of
     None \<Rightarrow> (let w = repr_c [prim_layout E U8] in new_variant (va_name va) (va_tag va) (unit_layout E nm (va_name va)) (wl_size w) (wl_align w))
   | Some S \<Rightarrow> new_variant (va_name va) (va_tag va) (lo_schema L S) (wl_size (ss_wire S)) (wl_align (ss_wire S)))"

definition tagged_layout :: "env \<Rightarrow> layouts \<Rightarrow> string \<Rightarrow> variant_ir list \<Rightarrow> (schema_error, layout_descriptor) res" where
  "tagged_layout E L nm vs = and_then (collect (\<lambda>k. variant_metadata E L nm (vs ! k)) [0..<length vs]) (\<lambda>ds.
     let w = payload_wire E vs in
     Ok (LayoutDescriptor nm KindTaggedUnion (wl_size w) (wl_align w) (wl_size w) [] [] [] ds))"

section \<open>Padding\<close>

definition in_range :: "usize \<Rightarrow> byte_range \<Rightarrow> bool" where
  "in_range b r \<longleftrightarrow> br_start r \<le> b \<and> b < br_end r"

definition in_value :: "env \<Rightarrow> record_ir \<Rightarrow> usize \<Rightarrow> nat \<Rightarrow> bool" where
  "in_value E R b k \<longleftrightarrow> field_value_offset E R k \<le> b \<and> b < field_value_offset E R k + wl_size (category_wire E (cat R k))"

abbreviation "field_end E R k \<equiv> field_offset E R k + wl_size (field_wire E (fld R k))"

definition bounds_of :: "byte_range list \<Rightarrow> usize list" where
  "bounds_of rs = concat (map (\<lambda>r. [br_start r, br_end r]) rs)"

lemma bounds_of_simps [simp]:
  "bounds_of [] = []" "bounds_of (r # rs) = br_start r # br_end r # bounds_of rs" "bounds_of (rs @ ss) = bounds_of rs @ bounds_of ss"
  by (simp_all add: bounds_of_def)

text \<open>The fields listed from \<open>k\<close> on follow each other and end inside the record.\<close>

fun in_order :: "env \<Rightarrow> record_ir \<Rightarrow> usize \<Rightarrow> nat list \<Rightarrow> bool" where
  "in_order E R previous_end [] \<longleftrightarrow> previous_end \<le> wl_size (record_wire E R)"
| "in_order E R previous_end (k # ks) \<longleftrightarrow> previous_end \<le> field_offset E R k \<and> in_order E R (field_end E R k) ks"

lemma in_orderI:
  "(\<And>i. i < length ks \<Longrightarrow> p \<le> field_offset E R (ks ! i)) \<Longrightarrow>
   (\<And>i j. i < j \<Longrightarrow> j < length ks \<Longrightarrow> field_end E R (ks ! i) \<le> field_offset E R (ks ! j)) \<Longrightarrow>
   (\<And>i. i < length ks \<Longrightarrow> field_end E R (ks ! i) \<le> wl_size (record_wire E R)) \<Longrightarrow> p \<le> wl_size (record_wire E R) \<Longrightarrow>
   in_order E R p ks"
proof (induction ks arbitrary: p)
  case (Cons k ks)
  have "in_order E R (field_end E R k) ks"
  proof (rule Cons.IH)
    show "field_end E R k \<le> field_offset E R (ks ! i)" if "i < length ks" for i using Cons.prems(2) [of 0 "Suc i"] that by simp
    show "field_end E R (ks ! i) \<le> field_offset E R (ks ! j)" if "i < j" "j < length ks" for i j using Cons.prems(2) [of "Suc i" "Suc j"] that by simp
    show "field_end E R (ks ! i) \<le> wl_size (record_wire E R)" if "i < length ks" for i using Cons.prems(3) [of "Suc i"] that by simp
    show "field_end E R k \<le> wl_size (record_wire E R)" using Cons.prems(3) [of 0] by simp
  qed
  then show ?case using Cons.prems(1) [of 0] by simp
qed simp

lemma record_in_order: "record_ok E R \<Longrightarrow> in_order E R 0 [0..<field_count R]"
proof (rule in_orderI)
  assume ok: "record_ok E R"
  show "field_end E R ([0..<field_count R] ! i) \<le> wl_size (record_wire E R)" if "i < length [0..<field_count R]" for i
    using field_fits_record [OF ok, of i] that by (simp add: field_fits_def)
  show "field_end E R ([0..<field_count R] ! i) \<le> field_offset E R ([0..<field_count R] ! j)" if "i < j" "j < length [0..<field_count R]" for i j
    using place_disjoint [OF wf_fields [OF ok], of i j 0] that by (simp add: field_offset_def)
qed simp_all

text \<open>Inside its storage, a field's value and its two padding ranges tile the bytes in order.\<close>

lemma field_tiled:
  assumes "record_ok E R" "k < field_count R"
  shows "field_offset E R k \<le> b \<and> b < field_end E R k \<longleftrightarrow> in_value E R b k \<noteq> list_ex (in_range b) (field_padding E R k)"
    "in_value E R b k \<Longrightarrow> field_offset E R k \<le> b \<and> b < field_end E R k"
    "sorted (bounds_of (field_padding E R k)) \<and> set (bounds_of (field_padding E R k)) \<subseteq> {field_offset E R k..field_end E R k}"
  using value_fits_field [OF assms]
  by (cases "fi_align (fld R k)"; auto simp: field_padding_def in_value_def in_range_def field_value_offset_def field_fits_def field_wire_def Let_def)+

lemma padding_tiles:
  assumes "record_ok E R"
  shows "set ks \<subseteq> {..<field_count R} \<Longrightarrow> in_order E R p ks \<Longrightarrow>
    (list_ex (in_range b) (padding_from E R p ks) \<or> list_ex (in_value E R b) ks \<longleftrightarrow> p \<le> b \<and> b < wl_size (record_wire E R)) \<and>
    \<not> (list_ex (in_range b) (padding_from E R p ks) \<and> list_ex (in_value E R b) ks) \<and>
    sorted (bounds_of (padding_from E R p ks)) \<and> set (bounds_of (padding_from E R p ks)) \<subseteq> {p..wl_size (record_wire E R)}"
proof (induction ks arbitrary: p)
  case Nil
  then show ?case by (auto simp: in_range_def)
next
  case (Cons k ks)
  have k: "k < field_count R" "p \<le> field_offset E R k" "in_order E R (field_end E R k) ks" using Cons.prems by auto
  have fits: "field_end E R k \<le> wl_size (record_wire E R)" using field_fits_record [OF assms k(1)] by (simp add: field_fits_def)
  have ih: "list_ex (in_range b) (padding_from E R (field_end E R k) ks) \<or> list_ex (in_value E R b) ks \<longleftrightarrow>
      field_end E R k \<le> b \<and> b < wl_size (record_wire E R)"
    "\<not> (list_ex (in_range b) (padding_from E R (field_end E R k) ks) \<and> list_ex (in_value E R b) ks)"
    "sorted (bounds_of (padding_from E R (field_end E R k) ks))"
    "set (bounds_of (padding_from E R (field_end E R k) ks)) \<subseteq> {field_end E R k..wl_size (record_wire E R)}"
    using Cons.IH [of "field_end E R k"] Cons.prems(1) k(3) by auto
  note tile = field_tiled [OF assms k(1)]
  have head: "in_range b \<lparr>br_start = p, br_end = field_offset E R k\<rparr> \<longleftrightarrow> p \<le> b \<and> b < field_offset E R k" by (simp add: in_range_def)
  have "sorted (bounds_of (padding_from E R p (k # ks))) \<and> set (bounds_of (padding_from E R p (k # ks))) \<subseteq> {p..wl_size (record_wire E R)}"
    using tile(3) ih(3,4) k(2) fits by (fastforce simp: sorted_append)
  then show ?case
    using ih(1,2) tile(1) [of b] tile(2) [of b] head k(2) fits by (simp del: bounds_of_simps) linarith
qed

section \<open>What the descriptors say\<close>

text \<open>
  C16. The reported padding is exact: the ranges are ordered, start at 0, end at the record's size and do not
  overlap, and a byte lies in one of them if and only if it is inside the record and no field's value covers it.
\<close>

theorem padding_exact:
  assumes "record_ok E R"
  shows "(\<forall>b. list_ex (in_range b) (struct_padding_ranges E R) \<longleftrightarrow>
      b < wl_size (record_wire E R) \<and> (\<forall>k < field_count R. \<not> in_value E R b k)) \<and>
    sorted (bounds_of (struct_padding_ranges E R)) \<and> hd (bounds_of (struct_padding_ranges E R)) = 0 \<and>
    last (bounds_of (struct_padding_ranges E R)) = wl_size (record_wire E R)"
proof -
  have sub: "set [0..<field_count R] \<subseteq> {..<field_count R}" by auto
  note tiles = padding_tiles [OF assms sub record_in_order [OF assms]]
  have ends: "hd (bounds_of (padding_from E R p ks)) = p" "last (bounds_of (padding_from E R p ks)) = wl_size (record_wire E R)"
    "bounds_of (padding_from E R p ks) \<noteq> []" for p ks
    by (induction ks arbitrary: p) auto
  have vals: "list_ex (in_value E R b) [0..<field_count R] \<longleftrightarrow> (\<exists>k < field_count R. in_value E R b k)" for b
    by (auto simp: list_ex_iff)
  have "list_ex (in_range b) (struct_padding_ranges E R) \<longleftrightarrow>
      b < wl_size (record_wire E R) \<and> (\<forall>k < field_count R. \<not> in_value E R b k)" for b
    using tiles [of b] vals [of b] unfolding struct_padding_ranges_def by blast
  then show ?thesis using tiles ends(1,2) unfolding struct_padding_ranges_def by blast
qed

theorem padding_exact_witness:
  "\<forall>b. \<not> list_ex (in_range b) (struct_padding_ranges x64 point)"
proof -
  have "category_wire x64 (cat point 0) = \<lparr>wl_size = 1, wl_align = 1\<rparr>" "field_value_offset x64 point 0 = 0"
    "record_wire x64 point = \<lparr>wl_size = 1, wl_align = 1\<rparr>" "field_count point = 1"
    by (simp_all add: point_def prim_layout_def field_value_offset_def field_offset_def record_wire_def base_wire_def field_wire_def repr_c_def)
  then show ?thesis
    using padding_exact [OF point_record_ok [OF env_ok_linux_x86_64]] by (auto simp: in_value_def)
qed

lemma element_kind_total: "element_ok E e \<Longrightarrow> \<exists>kind. element_kind_of E L e = Some kind"
  by (induction e) (auto simp: string_descriptor_of_def split: leaf.splits)

lemma field_kind_total:
  assumes "category_ok E R c"
  shows "\<exists>kind. field_metadata_kind E L R c = Some kind"
proof (cases c)
  case (LeafField l)
  then show ?thesis by (cases l) (auto simp: field_metadata_kind_def string_descriptor_of_def)
next
  case (TaggedField t P)
  then show ?thesis using assms by (auto simp: field_metadata_kind_def)
next
  case (ArrayField n e)
  then show ?thesis using assms element_kind_total [of E e L] by (auto simp: field_metadata_kind_def)
next
  case (OptionalField x)
  then show ?thesis by (cases x) (auto simp: field_metadata_kind_def)
qed (auto simp: field_metadata_kind_def)

lemma semantic_field_offset_eq: "semantic_field_offset E R k = field_value_offset E R k"
  by (simp add: semantic_field_offset_def field_value_offset_def split: option.splits)

text \<open>
  C28. Every record has a descriptor, and it describes what the code accesses: emission meets no internal
  mismatch, the emitted ABI assertions hold, each field is described at the storage the accessors select,
  in declaration order, and the tag of a payload at the offset the payload's tag is read from.
\<close>

theorem layout_describes_record:
  assumes "record_ok E R"
  shows "list_all id (struct_abi_assertions E R) \<and> (\<exists>D. struct_layout E L R = Some D \<and> ly_size D = wl_size (record_wire E R) \<and>
    length (ly_fields D) = field_count R \<and> (\<forall>k < field_count R. let f = ly_fields D ! k in
      fl_declaration_index f = k \<and> field_fits \<lparr>wl_size = fl_size f, wl_align = fl_align f\<rparr> (fl_offset f) (record_wire E R) \<and>
      field_value_offset E R k + wl_size (category_wire E (cat R k)) \<le> fl_offset f + fl_size f \<and> fl_offset f \<le> field_value_offset E R k \<and>
      (\<forall>t P. cat R k = TaggedField t P \<longrightarrow> (\<exists>T. fl_kind f = FkExternalTaggedUnion (lo_payload L P)
        (ExternalTagDescriptor (fi_name (fld R t)) (field_value_offset E R t) (lo_schema L T)) \<and> cat R t = PathField T))))"
proof -
  have fm: "\<exists>kind. field_metadata_kind E L R (cat R k) = Some kind" if "k < field_count R" for k
    using field_kind_total record_okD(4) [OF assms that] by blast
  then have "struct_field_metadata E L R = Some (map (\<lambda>k. the (field_metadata E L R k)) [0..<field_count R])"
    unfolding struct_field_metadata_def by (intro those_map_Some) (auto simp: list_all_iff field_metadata_def)
  then have D: "struct_layout E L R = Some (LayoutDescriptor (ri_name R) KindStruct (wl_size (record_wire E R)) (wl_align (record_wire E R))
      (wl_size (record_wire E R)) (struct_padding_ranges E R) (map (\<lambda>k. the (field_metadata E L R k)) [0..<field_count R]) [] [])" (is "_ = Some ?D")
    by (simp add: struct_layout_def)
  have field: "let f = ly_fields ?D ! k in
      fl_declaration_index f = k \<and> field_fits \<lparr>wl_size = fl_size f, wl_align = fl_align f\<rparr> (fl_offset f) (record_wire E R) \<and>
      field_value_offset E R k + wl_size (category_wire E (cat R k)) \<le> fl_offset f + fl_size f \<and> fl_offset f \<le> field_value_offset E R k \<and>
      (\<forall>t P. cat R k = TaggedField t P \<longrightarrow> (\<exists>T. fl_kind f = FkExternalTaggedUnion (lo_payload L P)
        (ExternalTagDescriptor (fi_name (fld R t)) (field_value_offset E R t) (lo_schema L T)) \<and> cat R t = PathField T))" if k: "k < field_count R" for k
  proof -
    obtain kind where kind: "field_metadata_kind E L R (cat R k) = Some kind" using fm [OF k] by blast
    then have f: "ly_fields ?D ! k = FieldDescriptor (fi_name (fld R k)) k (field_offset E R k) (wl_size (field_wire E (fld R k)))
        (wl_align (field_wire E (fld R k))) kind (is_optional_category (cat R k))" using k by (simp add: field_metadata_def)
    have "\<exists>T. kind = FkExternalTaggedUnion (lo_payload L P) (ExternalTagDescriptor (fi_name (fld R t)) (field_value_offset E R t) (lo_schema L T)) \<and>
        cat R t = PathField T" if "cat R k = TaggedField t P" for t P
      using kind that by (auto simp: field_metadata_kind_def semantic_field_offset_eq split: category.splits)
    then show ?thesis
      using field_fits_record [OF assms k] value_fits_field [OF assms k] unfolding f Let_def
      by (auto simp: field_value_offset_def field_fits_def wf_layout_def)
  qed
  have "list_all id (struct_abi_assertions E R)"
    using field_fits_record [OF assms]
    by (auto simp: struct_abi_assertions_def list_all_iff field_fits_def array_layout_def mult.commute split: category.splits)
  then show ?thesis using D field by (intro conjI exI [of _ ?D]) simp_all
qed

theorem layout_describes_record_witness:
  "\<exists>D. struct_layout x64 \<lparr>lo_schema = (\<lambda>S. unit_layout x64 ''S'' ''a''), lo_payload = (\<lambda>P. unit_layout x64 ''P'' ''b'')\<rparr> (message x64) = Some D \<and>
     length (ly_fields D) = 3"
  using layout_describes_record [OF message_record_ok [OF env_ok_linux_x86_64],
      of "\<lparr>lo_schema = (\<lambda>S. unit_layout x64 ''S'' ''a''), lo_payload = (\<lambda>P. unit_layout x64 ''P'' ''b'')\<rparr>"]
  by (auto simp: message_def)


lemma tagged_layout_variants:
  assumes "env_ok E" "\<And>va S. va \<in> set vs \<Longrightarrow> va_shape va = Some S \<Longrightarrow> wf_layout (ss_wire S) \<and> wl_size (ss_wire S) \<noteq> 0"
  shows "\<exists>D. tagged_layout E L nm vs = Ok D \<and> map vr_name (ly_variants D) = map va_name vs \<and> map vr_raw_tag (ly_variants D) = map va_tag vs"
proof -
  have wf: "\<forall>l \<in> set [prim_layout E U8]. wf_layout l" using assms(1) by simp
  have "place 0 [prim_layout E U8] ! 0 + wl_size ([prim_layout E U8] ! 0) \<le> wl_size (repr_c [prim_layout E U8])"
    by (rule repr_c_bound [OF wf]) simp
  moreover have "wl_size (prim_layout E U8) = 1" by (simp add: prim_layout_def)
  ultimately have "wl_size (repr_c [prim_layout E U8]) \<noteq> 0" by simp
  moreover have "wl_align (repr_c [prim_layout E U8]) \<noteq> 0" using assms(1) by (simp add: repr_c_def)
  ultimately have unit: "wl_size (repr_c [prim_layout E U8]) \<noteq> 0 \<and> wl_align (repr_c [prim_layout E U8]) \<noteq> 0" by blast
  let ?d = "\<lambda>va. case va_shape va of
      None \<Rightarrow> VariantDescriptor (va_name va) (va_tag va) (unit_layout E nm (va_name va)) (wl_size (repr_c [prim_layout E U8])) (wl_align (repr_c [prim_layout E U8]))
    | Some S \<Rightarrow> VariantDescriptor (va_name va) (va_tag va) (lo_schema L S) (wl_size (ss_wire S)) (wl_align (ss_wire S))"
  have "variant_metadata E L nm va = Ok (?d va)" if "va \<in> set vs" for va
    using unit assms(2) [OF that] by (auto simp: variant_metadata_def new_variant_def Let_def wf_layout_def split: option.splits)
  then have "collect (\<lambda>k. variant_metadata E L nm (vs ! k)) [0..<length vs] = Ok (map ?d vs)"
    unfolding collect_Ok by simp
  then show ?thesis by (auto simp: tagged_layout_def Let_def split: option.splits)
qed

end
