(* ===== verification/Zs_Patch.thy ===== *)
theory Zs_Patch
  imports Zs_Schema
begin

text \<open>
  Generated patches, \<open>zero-schema-macros/src/emit_patch.rs\<close>: what a parent relies on of a child's patch, the
  proof that scalar enums, tagged payloads and records built over such children provide it, and its
  consequences for \<open>copy_from\<close> of every generated schema.
\<close>

section \<open>The patch contracts\<close>

text \<open>The value a patch is applied to: the destination's in replacing mode, nothing when initializing.\<close>

definition patch_base :: "mode \<Rightarrow> (schema_error, lval) res \<Rightarrow> lval option" where
  "patch_base m r = (case m of Init \<Rightarrow> None | Replace \<Rightarrow> (case r of Ok b \<Rightarrow> Some b | _ \<Rightarrow> None))"

lemma patch_base_simps [simp]: "patch_base Init r = None" "patch_base Replace (Ok b) = Some b" "patch_base m Panic = None"
  by (simp_all add: patch_base_def split: mode.splits)

locale patch_contract = schema_contract +
  assumes patch_total: "ok \<Longrightarrow> input_ok E i \<Longrightarrow> i_wire i = ss_wire S \<Longrightarrow> pa_ok (ss_patch S) p \<Longrightarrow>
      ready m (ss_validate S i) \<Longrightarrow> pa_preflight (ss_patch S) m i p \<noteq> Panic"
    and patch_law: "ok \<Longrightarrow> input_ok E i \<Longrightarrow> i_wire i = ss_wire S \<Longrightarrow> pa_ok (ss_patch S) p \<Longrightarrow>
      ready m (ss_validate S i) \<Longrightarrow> (m = Init \<Longrightarrow> pa_is_complete (ss_patch S) p) \<Longrightarrow> pa_preflight (ss_patch S) m i p = Ok () \<Longrightarrow>
      \<exists>c v. pa_commit (ss_patch S) m i p = Ok c \<and> same_span i c \<and> ss_validate S c = Ok () \<and> ss_logical S c = Ok v \<and>
        pa_patched (ss_patch S) p (patch_base m (ss_logical S i)) = Some v"
    and patch_from: "ok \<Longrightarrow> ss_val_ok S v \<Longrightarrow> pa_ok (ss_patch S) (pa_from (ss_patch S) v) \<and>
      pa_is_complete (ss_patch S) (pa_from (ss_patch S) v) \<and> (\<forall>b. pa_patched (ss_patch S) (pa_from (ss_patch S) v) b = Some v)"
begin

text \<open>\<open>copy_from\<close> is atomic and does what the patch says.\<close>

lemma copy_from_law:
  assumes "ok" "input_ok E i" "i_wire i = ss_wire S" "pa_ok (ss_patch S) p"
  shows "case ss_copy_from E S i p of
      (Ok _, j) \<Rightarrow> ss_validate S i = Ok () \<and> same_span i j \<and> ss_validate S j = Ok () \<and>
        (\<exists>b v. ss_logical S i = Ok b \<and> ss_logical S j = Ok v \<and> pa_patched (ss_patch S) p (Some b) = Some v)
    | (Err e, j) \<Rightarrow> j = i
    | (Panic, j) \<Rightarrow> False"
proof (cases "ss_validate S i")
  case (Ok u)
  then have valid: "ss_validate S i = Ok ()" by simp
  obtain b where b: "ss_logical S i = Ok b" using logical_of_proved [OF assms(1-3) valid] by blast
  show ?thesis
  proof (cases "pa_preflight (ss_patch S) Replace i p")
    case (Ok u)
    then obtain c v where "pa_commit (ss_patch S) Replace i p = Ok c" "same_span i c" "ss_validate S c = Ok ()" "ss_logical S c = Ok v"
      "pa_patched (ss_patch S) p (Some b) = Some v"
      using patch_law [OF assms(1-4), of Replace] valid b by auto
    then show ?thesis
      using Ok valid b env [OF assms(1)] assms(2)
      by (auto simp: ss_copy_from_def preflighted_def ss_preflight_patch_def ss_commit_patch_def shared_Ok reborrow_Ok)
  next
    case (Err e)
    then show ?thesis
      using valid env [OF assms(1)] assms(2) by (simp add: ss_copy_from_def preflighted_def ss_preflight_patch_def shared_Ok)
  next
    case Panic
    then show ?thesis using patch_total [OF assms(1-4), of Replace] valid by simp
  qed
next
  case (Err e)
  then show ?thesis
    using env [OF assms(1)] assms(2) by (simp add: ss_copy_from_def preflighted_def ss_preflight_patch_def shared_Ok)
next
  case Panic
  then show ?thesis using validate_total [OF assms(1-3)] by blast
qed

end

locale payload_patch_contract = payload_contract +
  assumes patch_tag_total: "ok \<Longrightarrow> pa_ok (ps_patch P) p \<Longrightarrow> \<exists>t \<in> set (ps_tags P). ps_patch_tag P p = Ok t"
    and patch_total: "ok \<Longrightarrow> input_ok E i \<Longrightarrow> i_wire i = ps_wire P \<Longrightarrow> pa_ok (ps_patch P) p \<Longrightarrow> ps_patch_tag P p = Ok t \<Longrightarrow>
      ready m (ps_validate_selected P t i) \<Longrightarrow> pa_preflight (ps_patch P) m i p \<noteq> Panic"
    and patch_law: "ok \<Longrightarrow> input_ok E i \<Longrightarrow> i_wire i = ps_wire P \<Longrightarrow> pa_ok (ps_patch P) p \<Longrightarrow> ps_patch_tag P p = Ok t \<Longrightarrow>
      ready m (ps_validate_selected P t i) \<Longrightarrow> (m = Init \<Longrightarrow> pa_is_complete (ps_patch P) p) \<Longrightarrow> pa_preflight (ps_patch P) m i p = Ok () \<Longrightarrow>
      \<exists>c v. pa_commit (ps_patch P) m i p = Ok c \<and> same_span i c \<and> ps_validate_selected P t c = Ok () \<and>
        ps_materialize_selected P t c = Ok v \<and> pa_patched (ps_patch P) p (patch_base m (ps_materialize_selected P t i)) = Some v"
    and switch_base: "ok \<Longrightarrow> input_ok E i \<Longrightarrow> i_wire i = ps_wire P \<Longrightarrow> ps_validate_selected P current i = Ok () \<Longrightarrow>
      ps_materialize_selected P current i = Ok b \<Longrightarrow> pa_ok (ps_patch P) p \<Longrightarrow> ps_patch_tag P p = Ok t \<Longrightarrow> t \<noteq> current \<Longrightarrow>
      pa_patched (ps_patch P) p (Some b) = pa_patched (ps_patch P) p None"
    and patch_from: "ok \<Longrightarrow> ps_val_ok P v \<Longrightarrow> pa_ok (ps_patch P) (pa_from (ps_patch P) v) \<and>
      pa_is_complete (ps_patch P) (pa_from (ps_patch P) v) \<and> (\<forall>b. pa_patched (ps_patch P) (pa_from (ps_patch P) v) b = Some v)"

section \<open>Scalar enums\<close>

lemma enum_support_patch [simp]: "ss_patch (enum_support E D) = enum_patch_ops E D"
  by (simp add: enum_support_def)

interpretation enum_patch: patch_contract E "env_ok E \<and> enum_ok D" "enum_support E D" for E D
proof unfold_locales
  let ?S = "enum_support E D"
  assume ok: "env_ok E \<and> enum_ok D"
  show "pa_ok (ss_patch ?S) (pa_from (ss_patch ?S) v) \<and> pa_is_complete (ss_patch ?S) (pa_from (ss_patch ?S) v) \<and>
      (\<forall>b. pa_patched (ss_patch ?S) (pa_from (ss_patch ?S) v) b = Some v)" if "ss_val_ok ?S v" for v
    using that by (simp add: enum_patch_ops_def) (auto simp: enum_support_def split: lval.splits)
  fix i p m
  assume i: "input_ok E i" "i_wire i = ss_wire ?S" and p: "pa_ok (ss_patch ?S) p" and rdy: "ready m (ss_validate ?S i)"
  show "pa_preflight (ss_patch ?S) m i p \<noteq> Panic" by (simp add: enum_patch_ops_def)
  assume complete: "m = Init \<Longrightarrow> pa_is_complete (ss_patch ?S) p"
  obtain x where x: "p = EnumPatch x" "\<And>d. x = Some d \<Longrightarrow> d \<in> set (en_discs D)"
    using p by (auto simp: enum_patch_ops_def split: pval.splits option.splits)
  show "\<exists>c v. pa_commit (ss_patch ?S) m i p = Ok c \<and> same_span i c \<and> ss_validate ?S c = Ok () \<and> ss_logical ?S c = Ok v \<and>
      pa_patched (ss_patch ?S) p (patch_base m (ss_logical ?S i)) = Some v"
  proof (cases x)
    case None
    then have "m = Replace" using complete x(1) by (cases m) (auto simp: enum_patch_ops_def)
    then have valid: "ss_validate ?S i = Ok ()" using rdy by simp
    then obtain v where "ss_logical ?S i = Ok v" using enum_schema.logical_of_proved [OF ok i] by blast
    then show ?thesis
      using None x(1) valid \<open>m = Replace\<close>
      by (auto simp: enum_patch_ops_def enum_patch_commit_def)
  next
    case (Some d)
    have w: "i_wire i = enum_wire E D" using i(2) by (simp add: enum_support_def)
    obtain c where c: "enum_commit E D i d = Ok c" "same_span i c" "enum_of E D c = d"
      using enum_commit_Ok [OF conjunct1 [OF ok] i(1) w conjunct2 [OF ok] x(2) [OF Some]] by blast
    have "input_ok E c" "i_wire c = enum_wire E D"
      using c(2) i(1) w by (auto intro: same_span_input_ok dest: same_span_wire)
    then have "ss_validate ?S c = Ok ()" "ss_logical ?S c = Ok (EnumValue d)"
      using enum_field_value [OF conjunct1 [OF ok]] c(3) x(2) [OF Some] by simp_all
    then show ?thesis
      using c(1,2) Some x(1) by (auto simp: enum_patch_ops_def enum_patch_commit_def)
  qed
qed

section \<open>Tagged payloads\<close>

lemma tagged_support_patch [simp]:
  "ps_patch (tagged_support E nm vs) = payload_patch_ops E nm vs" "ps_patch_tag (tagged_support E nm vs) = payload_patch_tag vs"
  "pa_ok (payload_patch_ops E nm vs) = payload_patch_ok vs" "pa_is_complete (payload_patch_ops E nm vs) = payload_patch_complete vs"
  "pa_preflight (payload_patch_ops E nm vs) = payload_patch_preflight E nm vs" "pa_commit (payload_patch_ops E nm vs) = payload_patch_commit E vs"
  "pa_from (payload_patch_ops E nm vs) = payload_patch_from vs" "pa_patched (payload_patch_ops E nm vs) = payload_patched vs"
  "ps_tags (tagged_support E nm vs) = map va_tag vs" "ps_wire (tagged_support E nm vs) = payload_wire E vs"
  "ps_validate_selected (tagged_support E nm vs) = payload_validate E nm vs"
  "ps_materialize_selected (tagged_support E nm vs) = payload_materialize E vs" "ps_val_ok (tagged_support E nm vs) = payload_val_ok vs"
  by (simp_all add: tagged_support_def payload_patch_ops_def)

lemma payload_patchE:
  assumes "payload_patch_ok vs p"
  obtains (unit) k where "p = VariantPatch k None" "k < length vs" "va_shape (vs ! k) = None"
  | (newtype) k S y where "p = VariantPatch k (Some y)" "k < length vs" "va_shape (vs ! k) = Some S" "pa_ok (ss_patch S) y"
  using assms by (auto simp: payload_patch_ok_def split: pval.splits option.splits prod.splits)

definition payload_patch_wf :: "env \<Rightarrow> variant_ir list \<Rightarrow> bool" where
  "payload_patch_wf E vs \<longleftrightarrow> payload_ok E vs \<and> (\<forall>va \<in> set vs. \<forall>S. va_shape va = Some S \<longrightarrow> patch_contract E True S)"

lemma payload_child_contract:
  "payload_patch_wf E vs \<Longrightarrow> k < length vs \<Longrightarrow> va_shape (vs ! k) = Some S \<Longrightarrow> patch_contract E True S"
  using nth_mem by (fastforce simp: payload_patch_wf_def)

text \<open>The patch of a newtype variant is its child's patch on the child's span.\<close>

lemma newtype_patch_law:
  assumes "payload_patch_wf E vs" "input_ok E i" "i_wire i = payload_wire E vs"
    and newtype: "p = VariantPatch k (Some y)" "k < length vs" "va_shape (vs ! k) = Some S" "pa_ok (ss_patch S) y"
    and rdy: "ready m (ss_validate S (child_span S i))"
    and complete: "m = Init \<Longrightarrow> pa_is_complete (ss_patch S) y" and accepted: "pa_preflight (ss_patch S) m (child_span S i) y = Ok ()"
  shows "\<exists>c v. payload_patch_commit E vs m i p = Ok c \<and> same_span i c \<and> payload_validate E nm vs (va_tag (vs ! k)) c = Ok () \<and>
    payload_materialize E vs (va_tag (vs ! k)) c = Ok (VariantValue k (Some v)) \<and>
    pa_patched (ss_patch S) y (patch_base m (ss_logical S (child_span S i))) = Some v"
proof -
  have ok: "payload_ok E vs" using assms(1) by (simp add: payload_patch_wf_def)
  note ch = child_span_ok [OF ok assms(2,3) nth_mem [OF newtype(2)] newtype(3)]
  let ?c = "child_span S i"
  have w: "i_wire ?c = ss_wire S" by simp
  obtain c v where c: "pa_commit (ss_patch S) m ?c y = Ok c" "same_span ?c c" "ss_validate S c = Ok ()" "ss_logical S c = Ok v"
    "pa_patched (ss_patch S) y (patch_base m (ss_logical S ?c)) = Some v"
    using patch_contract.patch_law [OF payload_child_contract [OF assms(1) newtype(2,3)] TrueI ch(2) w newtype(4) rdy _ accepted] complete by blast
  let ?j = "write_back 0 c i"
  have "0 + wl_size (ss_wire S) \<le> length (i_bytes i)" using ch(3) by simp
  note wb = write_back_same_span [OF c(2) this] sub_input_write_back [OF c(2) this]
  have j: "input_ok E ?j" "i_wire ?j = payload_wire E vs"
    using wb(1) assms(2,3) by (auto intro: same_span_input_ok dest: same_span_wire)
  have "payload_validate E nm vs (va_tag (vs ! k)) ?j = Ok ()"
    using payload_validate_iff(1) [OF ok j newtype(2), of nm] newtype(3) wb(2) c(3) by simp
  moreover from this have "payload_materialize E vs (va_tag (vs ! k)) ?j = Ok (VariantValue k (Some v))"
    using payload_materialize_eq [OF ok j newtype(2), of nm] newtype(3) wb(2) c(4) by simp
  moreover have "payload_patch_commit E vs m i p = Ok ?j"
    using newtype ch(1) c(1) by (simp add: payload_patch_commit_def subrange_mut_eq)
  ultimately show ?thesis using wb(1) c(5) by blast
qed

lemma payload_patch_law:
  assumes "payload_patch_wf E vs" "input_ok E i" "i_wire i = payload_wire E vs" "payload_patch_ok vs p"
    "payload_patch_tag vs p = Ok t" "ready m (payload_validate E nm vs t i)"
  shows "payload_patch_preflight E nm vs m i p \<noteq> Panic"
    and "(m = Init \<Longrightarrow> payload_patch_complete vs p) \<Longrightarrow> payload_patch_preflight E nm vs m i p = Ok () \<Longrightarrow>
      \<exists>c v. payload_patch_commit E vs m i p = Ok c \<and> same_span i c \<and> payload_validate E nm vs t c = Ok () \<and>
        payload_materialize E vs t c = Ok v \<and> payload_patched vs p (patch_base m (payload_materialize E vs t i)) = Some v"
proof -
  have ok: "payload_ok E vs" using assms(1) by (simp add: payload_patch_wf_def)
  from assms(4) have "payload_patch_preflight E nm vs m i p \<noteq> Panic \<and> ((m = Init \<longrightarrow> payload_patch_complete vs p) \<longrightarrow>
      payload_patch_preflight E nm vs m i p = Ok () \<longrightarrow>
      (\<exists>c v. payload_patch_commit E vs m i p = Ok c \<and> same_span i c \<and> payload_validate E nm vs t c = Ok () \<and>
        payload_materialize E vs t c = Ok v \<and> payload_patched vs p (patch_base m (payload_materialize E vs t i)) = Some v))"
  proof (cases rule: payload_patchE)
    case (unit k)
    then have t: "t = va_tag (vs ! k)" using assms(5) by (simp add: payload_patch_tag_def)
    show ?thesis
      using unit t payload_validate_iff(1) [OF ok assms(2,3) unit(2), of nm] payload_materialize_eq [OF ok assms(2,3) unit(2), of nm]
      by (simp add: payload_patch_preflight_def payload_patch_commit_def payload_patched_def)
  next
    case (newtype k S y)
    then have t: "t = va_tag (vs ! k)" using assms(5) by (simp add: payload_patch_tag_def)
    note ch = child_span_ok [OF ok assms(2,3) nth_mem [OF newtype(2)] newtype(3)]
    note pc = payload_child_contract [OF assms(1) newtype(2,3)]
    let ?c = "child_span S i"
    have w: "i_wire ?c = ss_wire S" by simp
    note valid = payload_validate_iff(1) [OF ok assms(2,3) newtype(2), of nm] and mat = payload_materialize_eq [OF ok assms(2,3) newtype(2), of nm]
    have rdy: "ready m (ss_validate S ?c)" using assms(6) valid t newtype(3) by (cases m) auto
    have pre: "payload_patch_preflight E nm vs m i p = map_err (\<lambda>_. mutation_layout nm OffsetOverflow) (pa_preflight (ss_patch S) m ?c y)"
      using newtype ch(1) by (simp add: payload_patch_preflight_def)
    have base: "payload_patched vs p (patch_base m (payload_materialize E vs t i)) =
        map_option (\<lambda>v. VariantValue k (Some v)) (pa_patched (ss_patch S) y (patch_base m (ss_logical S ?c)))"
    proof (cases m)
      case Replace
      then have v: "ss_validate S ?c = Ok ()" using rdy by simp
      then obtain b where b: "ss_logical S ?c = Ok b" using schema_contract.logical_of_proved [OF ch(4) TrueI ch(2) w] by blast
      then have "payload_materialize E vs t i = Ok (VariantValue k (Some b))"
        using mat valid v t newtype(3) by simp
      then show ?thesis using Replace b newtype by (simp add: payload_patched_def)
    qed (use newtype in \<open>simp add: payload_patched_def\<close>)
    have "\<exists>c v. payload_patch_commit E vs m i p = Ok c \<and> same_span i c \<and> payload_validate E nm vs t c = Ok () \<and>
        payload_materialize E vs t c = Ok v \<and> payload_patched vs p (patch_base m (payload_materialize E vs t i)) = Some v"
      if "m = Init \<longrightarrow> payload_patch_complete vs p" "pa_preflight (ss_patch S) m ?c y = Ok ()"
      using newtype_patch_law [where nm = nm, OF assms(1-3) newtype rdy _ that(2)] that(1) newtype t base by (auto simp: payload_patch_complete_def)
    then show ?thesis using pre patch_contract.patch_total [OF pc TrueI ch(2) w newtype(4) rdy] by auto
  qed
  then show "payload_patch_preflight E nm vs m i p \<noteq> Panic"
    "(m = Init \<Longrightarrow> payload_patch_complete vs p) \<Longrightarrow> payload_patch_preflight E nm vs m i p = Ok () \<Longrightarrow>
      \<exists>c v. payload_patch_commit E vs m i p = Ok c \<and> same_span i c \<and> payload_validate E nm vs t c = Ok () \<and>
        payload_materialize E vs t c = Ok v \<and> payload_patched vs p (patch_base m (payload_materialize E vs t i)) = Some v" by blast+
qed

lemma payload_switch_base:
  assumes "payload_ok E vs" "input_ok E i" "i_wire i = payload_wire E vs" "payload_validate E nm vs current i = Ok ()"
    "payload_materialize E vs current i = Ok b" "payload_patch_tag vs p = Ok t" "t \<noteq> current"
  shows "payload_patched vs p (Some b) = payload_patched vs p None"
proof -
  obtain k where k: "k < length vs" "va_tag (vs ! k) = current" using payload_validated_tag [OF assms(4)] by blast
  have "\<exists>z. b = VariantValue k z"
    using assms(5) unfolding payload_materialize_eq [OF assms(1-3) k(1), of nm, unfolded k(2), OF assms(4)]
    by (auto split: option.splits)
  moreover obtain l x where "p = VariantPatch l x" "va_tag (vs ! l) = t"
    using assms(6) by (auto simp: payload_patch_tag_def split: pval.splits if_splits)
  ultimately show ?thesis using k(2) assms(7) by (auto simp: payload_patched_def split: option.splits prod.splits)
qed

interpretation tagged_patch: payload_patch_contract E "payload_patch_wf E vs" "tagged_support E nm vs" for E nm vs
proof (rule payload_patch_contract.intro)
  show "payload_contract E (payload_patch_wf E vs) (tagged_support E nm vs)"
    using tagged.payload_contract_axioms [of E vs nm] unfolding payload_contract_def payload_patch_wf_def by blast
  show "payload_patch_contract_axioms E (payload_patch_wf E vs) (tagged_support E nm vs)"
  proof (rule payload_patch_contract_axioms.intro, simp_all only: tagged_support_patch)
    assume wf: "payload_patch_wf E vs"
    then have ok: "payload_ok E vs" by (simp add: payload_patch_wf_def)
    show "\<exists>t \<in> set (map va_tag vs). payload_patch_tag vs p = Ok t" if "payload_patch_ok vs p" for p
      using that by (cases rule: payload_patchE) (auto simp: payload_patch_tag_def)
    show "payload_patch_ok vs (payload_patch_from vs v) \<and> payload_patch_complete vs (payload_patch_from vs v) \<and>
        (\<forall>b. payload_patched vs (payload_patch_from vs v) b = Some v)" if "payload_val_ok vs v" for v
      using that patch_contract.patch_from [OF payload_child_contract [OF wf] TrueI]
      by (cases rule: payload_valueE)
        (simp_all add: payload_patch_ok_def payload_patch_from_def payload_patch_complete_def payload_patched_def)
  qed (use payload_patch_law payload_switch_base in \<open>auto simp: payload_patch_wf_def\<close>)
qed

end
