(* ===== verification/Zs_Record_Patch.thy ===== *)
theory Zs_Record_Patch
  imports Zs_Patch
begin

text \<open>
  The patch of a record meets the patch contract when the patches of its children do. Each field's update
  is the work of its category on the field's own storage, reusing the laws of the logical mutation; the
  pass over the fields is the one of the logical mutation.
\<close>

section \<open>Declarations with patchable children\<close>

definition record_patch_wf :: "env \<Rightarrow> record_ir \<Rightarrow> bool" where
  "record_patch_wf E R \<longleftrightarrow> record_ok E R \<and> (\<forall>k < field_count R.
     (\<forall>S \<in> set (category_children (cat R k)). patch_contract E True S) \<and>
     (\<forall>P \<in> set (category_payloads (cat R k)). payload_patch_contract E True P))"

lemma record_patch_wfD:
  assumes "record_patch_wf E R" "k < field_count R"
  shows "cat R k = PathField S \<Longrightarrow> patch_contract E True S" "cat R k = TaggedField t P \<Longrightarrow> payload_patch_contract E True P"
    "cat R k = OptionalField (OptPath S) \<Longrightarrow> patch_contract E True S" "cat R k = OptionalField (OptArray n S) \<Longrightarrow> patch_contract E True S"
proof -
  have "\<forall>S \<in> set (category_children (cat R k)). patch_contract E True S"
    "\<forall>P \<in> set (category_payloads (cat R k)). payload_patch_contract E True P"
    using assms by (simp_all add: record_patch_wf_def)
  then show "cat R k = PathField S \<Longrightarrow> patch_contract E True S" "cat R k = TaggedField t P \<Longrightarrow> payload_patch_contract E True P"
    "cat R k = OptionalField (OptPath S) \<Longrightarrow> patch_contract E True S" "cat R k = OptionalField (OptArray n S) \<Longrightarrow> patch_contract E True S"
    by simp_all
qed

lemma record_patch_sel [simp]:
  "ss_patch (record_support E R) = record_patch_ops E R" "pa_ok (record_patch_ops E R) = record_patch_ok R"
  "pa_is_complete (record_patch_ops E R) = record_patch_complete R" "pa_preflight (record_patch_ops E R) = record_patch_preflight E R"
  "pa_commit (record_patch_ops E R) = record_patch_commit E R" "pa_from (record_patch_ops E R) = record_patch_from R"
  "pa_patched (record_patch_ops E R) = record_patched R"
  by (simp_all add: record_support_def record_patch_ops_def)

section \<open>The intended result\<close>

lemma field_unpatched:
  assumes "record_ok E R" "\<not> is_external_tag_sibling R k" "ps ! k = None"
  shows "field_patched R ps k b = b"
proof -
  have "find (\<lambda>j. case cat R j of TaggedField t P \<Rightarrow> t = k \<and> ps ! j \<noteq> None | _ \<Rightarrow> False) [0..<field_count R] = None"
    using assms(2) tag_sibling_iff [OF assms(1)] by (auto simp: find_None_iff split: category.splits)
  then show ?thesis using assms(3) by (simp add: field_patched_def)
qed

lemma find_upt:
  assumes "k < n" "Q k" "\<And>j. j < k \<Longrightarrow> \<not> Q j"
  shows "find Q [0..<n] = Some k"
proof -
  have "\<not> Q ([0..<n] ! j)" if "j < k" for j using assms(1,3) that by simp
  then show ?thesis unfolding find_Some_iff using assms(1,2) by (intro exI [of _ k]) simp
qed

lemma tag_patched:
  assumes "record_ok E R" "k < field_count R" "cat R k = TaggedField t P" "ps ! t = None"
  shows "field_patched R ps t b = (case ps ! k of
    None \<Rightarrow> b | Some p \<Rightarrow> (case ps_patch_tag P p of Ok tag \<Rightarrow> Some (EnumValue tag) | _ \<Rightarrow> None))"
proof -
  let ?Q = "\<lambda>j. case cat R j of TaggedField s P \<Rightarrow> s = t \<and> ps ! j \<noteq> None | _ \<Rightarrow> False"
  have uniq: "j < field_count R \<Longrightarrow> ?Q j \<Longrightarrow> j = k" for j
    using record_okD(5) [OF assms(1)] assms(2,3) by (auto split: category.splits)
  have "find ?Q [0..<field_count R] = (if ps ! k = None then None else Some k)"
  proof (cases "ps ! k = None")
    case True
    then have "\<not> ?Q j" if "j < field_count R" for j using uniq [OF that] assms(3) by auto
    then show ?thesis using True by (auto simp: find_None_iff)
  next
    case False
    have "\<not> ?Q j" if "j < k" for j using uniq [of j] that assms(2) by auto
    then have "find ?Q [0..<field_count R] = Some k" using False assms(2,3) by (intro find_upt) auto
    then show ?thesis using False by simp
  qed
  then show ?thesis using assms(3,4) by (auto simp: field_patched_def split: option.splits)
qed

section \<open>Patching one field\<close>

text \<open>What a field's update may rely on, and the law of one field's update.\<close>

definition patch_ready :: "env \<Rightarrow> record_ir \<Rightarrow> mode \<Rightarrow> nat \<Rightarrow> input \<Rightarrow> pval option list \<Rightarrow> (nat \<Rightarrow> lval option) \<Rightarrow> bool" where
  "patch_ready E R m k i ps bs \<longleftrightarrow> ready m (proof_field E R k i) \<and>
     (\<forall>j. owns R k j \<longrightarrow> bs j = patch_base m (materialized_field E R j i) \<and> (\<forall>p. ps ! j = Some p \<longrightarrow> patch_field_ok R j p))"

definition patch_field_law :: "env \<Rightarrow> record_ir \<Rightarrow> mode \<Rightarrow> nat \<Rightarrow> input \<Rightarrow> pval option list \<Rightarrow> (nat \<Rightarrow> lval option) \<Rightarrow> bool" where
  "patch_field_law E R m k i ps bs \<longleftrightarrow> patch_preflight_field E R m k i ps \<noteq> Panic \<and>
     (patch_preflight_field E R m k i ps = Ok () \<longrightarrow> (m = Init \<longrightarrow> patch_field_complete R k (ps ! k)) \<longrightarrow>
      (\<exists>val. field_done E R k i (patch_commit_field E R m k i ps) val \<and>
        (\<forall>j < field_count R. owns R k j \<longrightarrow> field_patched R ps j (bs j) = Some (val j))))"

lemma patch_readyD:
  assumes "patch_ready E R m k i ps bs"
  shows "ready m (proof_field E R k i)" "owns R k j \<Longrightarrow> bs j = patch_base m (materialized_field E R j i)"
    "owns R k j \<Longrightarrow> ps ! j = Some p \<Longrightarrow> patch_field_ok R j p"
  using assms by (auto simp: patch_ready_def)

lemma kept_field_law:
  assumes "record_ok E R" "record_input E R i" "k < field_count R" "\<not> is_external_tag_sibling R k"
    "patch_ready E R m k i ps bs" "ps ! k = None" "\<And>t P. cat R k = TaggedField t P \<Longrightarrow> ps ! t = None"
  shows "patch_field_law E R m k i ps bs"
proof -
  have pre: "patch_preflight_field E R m k i ps = Ok ()" and com: "patch_commit_field E R m k i ps = Ok i"
    using assms(4,6,7) by (auto simp: patch_preflight_field_def patch_commit_field_def Let_def split: category.splits)
  let ?val = "\<lambda>j. the (bs j)"
  have "\<exists>v. holds E R j i v \<and> bs j = Some v \<and> field_patched R ps j (bs j) = Some v" if m: "m = Replace" and own: "owns R k j" for j
  proof -
    have proved: "proof_field E R k i = Ok ()" using patch_readyD(1) [OF assms(5)] m by simp
    have "(\<exists>v. holds E R j i v) \<and> field_patched R ps j (bs j) = bs j"
    proof (cases "j = k")
      case True
      then show ?thesis
        using proved_field_value [OF assms(1-3) proved] proved field_unpatched [where ps = ps, OF assms(1,4,6)] by blast
    next
      case False
      then obtain t P where c: "cat R k = TaggedField t P" "j = t" using own by (auto simp: owns_def split: category.splits)
      then obtain D where D: "t < field_count R" "cat R t = PathField (enum_support E D)"
        using record_okD(4) [OF assms(1,3)] by auto
      note eqs = tagged_field_eqs(3) [OF assms(1-3) c(1) D(2,1)]
      have "holds E R t i (EnumValue (tag_at E R D t i))"
        using tagged_holds(2) [OF assms(1-3) c(1) D(2,1)] eqs proved proved_field_value [OF assms(1-3) proved]
          tagged_field_eqs(2) [OF assms(1-3) c(1) D(2,1)] by auto
      then show ?thesis using c tag_patched [where ps = ps, OF assms(1,3) c(1)] assms(6,7) by auto
    qed
    then show ?thesis using patch_readyD(2) [OF assms(5) own] m by auto
  qed
  then have "m = Replace \<Longrightarrow> field_done E R k i (Ok i) ?val \<and>
      (\<forall>j < field_count R. owns R k j \<longrightarrow> field_patched R ps j (bs j) = Some (?val j))"
    unfolding field_done_def by (force simp: same_span_def)
  then show ?thesis
    unfolding patch_field_law_def pre com using assms(6) by (cases m) (auto simp: patch_field_complete_def)
qed

text \<open>A field whose update is a whole value behaves as in the logical mutation.\<close>

lemma whole_field_law:
  assumes "record_ok E R" "\<not> is_external_tag_sibling R k" "(\<exists>l. cat R k = LeafField l) \<or> (\<exists>n e. cat R k = ArrayField n e)"
    "ps ! k = Some (ValuePatch v)" "field_law E R m k i (replicate (Suc k) v)"
    "patch_preflight_field E R m k i ps = preflight_field E R m k i (replicate (Suc k) v)"
    "patch_commit_field E R m k i ps = commit_field E R m k i (replicate (Suc k) v)"
  shows "patch_field_law E R m k i ps bs"
proof -
  have own: "owns R k j \<longleftrightarrow> j = k" for j using assms(3) by (intro simple_owns) auto
  have "field_patched R ps k b = Some (replicate (Suc k) v ! k)" for b
    using assms(2-4) by (auto simp: field_patched_def nth_append simp flip: replicate_append_same)
  then show ?thesis
    using assms(5) unfolding patch_field_law_def field_law_def assms(6,7) by (auto simp: own)
qed

lemma nth_replicate_Suc [simp]: "replicate (Suc k) v ! k = v"
  by (rule nth_replicate) simp

lemma leaf_patch_law:
  assumes "record_ok E R" "record_input E R i" "k < field_count R" "cat R k = LeafField l" "\<not> is_external_tag_sibling R k"
    "ps ! k = Some p" "patch_field_ok R k p"
  shows "patch_field_law E R m k i ps bs"
proof -
  obtain x where x: "p = ValuePatch (LeafValue x)" "leaf_val_ok l x"
    using assms(4,5,7) by (auto simp: patch_field_ok_def Let_def split: pval.splits lval.splits)
  let ?vs = "replicate (Suc k) (LeafValue x)"
  have s: "subrange E (leaf_wire E l) (field_value_offset E R k) i = Ok (vspan E R k i)"
    using assms(4) select_field(3) [OF assms(1-3)] by simp
  show ?thesis
  proof (rule whole_field_law [where v = "LeafValue x", OF assms(1,5)])
    show "field_law E R m k i ?vs" by (rule leaf_field_law [OF assms(1-5)]) (simp add: assms(4) x(2) del: replicate_Suc)
    show "patch_preflight_field E R m k i ps = preflight_field E R m k i ?vs"
      using assms(4,5,6) x s
      by (cases l; cases x) (simp_all add: patch_preflight_field_def preflight_field_def Let_def leaf_preflight.simps del: replicate_Suc)
    show "patch_commit_field E R m k i ps = commit_field E R m k i ?vs"
      using assms(4,5,6) x by (simp add: patch_commit_field_def commit_field_def Let_def del: replicate_Suc)
  qed (use assms(4,6) x in auto)
qed

lemma array_patch_law:
  assumes "record_ok E R" "record_input E R i" "k < field_count R" "cat R k = ArrayField n e" "element_ok E e"
    "\<not> is_external_tag_sibling R k" "ps ! k = Some p" "patch_field_ok R k p" "ready m (proof_field E R k i)"
  shows "patch_field_law E R m k i ps bs"
proof -
  obtain xs where x: "p = ValuePatch (ArrayValue xs)" "category_val_ok (cat R k) (ArrayValue xs)"
    using assms(4,6,8) by (auto simp: patch_field_ok_def Let_def split: pval.splits lval.splits)
  let ?vs = "replicate (Suc k) (ArrayValue xs)"
  show ?thesis
  proof (rule whole_field_law [where v = "ArrayValue xs", OF assms(1,6)])
    show "field_law E R m k i ?vs" by (rule array_field_law [OF assms(1-6) _ assms(9)]) (simp add: x(2) del: replicate_Suc)
    show "patch_preflight_field E R m k i ps = preflight_field E R m k i ?vs"
      using assms(4,6,7) x by (simp add: patch_preflight_field_def preflight_field_def Let_def del: replicate_Suc)
    show "patch_commit_field E R m k i ps = commit_field E R m k i ?vs"
      using assms(4,6,7) x by (simp add: patch_commit_field_def commit_field_def Let_def del: replicate_Suc)
  qed (use assms(4,7) x in auto)
qed

lemma path_patch_law:
  assumes "record_ok E R" "record_input E R i" "k < field_count R" "cat R k = PathField S" "patch_contract E True S"
    "\<not> is_external_tag_sibling R k" "patch_ready E R m k i ps bs" "ps ! k = Some p"
  shows "patch_field_law E R m k i ps bs"
proof -
  let ?v = "vspan E R k i"
  note sel = select_field [OF assms(1-3)] and eqs = path_field_eqs(2,3) [OF assms(1-4)]
  have w: "i_wire ?v = ss_wire S" and s: "subrange E (ss_wire S) (field_value_offset E R k) i = Ok ?v"
    using assms(4) sel(3) by simp_all
  have p: "pa_ok (ss_patch S) p" using patch_readyD(3) [OF assms(7) owns_self assms(8)] assms(4,6) by (simp add: patch_field_ok_def Let_def)
  have rdy: "ready m (ss_validate S ?v)" using patch_readyD(1) [OF assms(7)] eqs(2) by (cases m) auto
  have base: "bs k = patch_base m (ss_logical S ?v)"
    using patch_readyD(2) [OF assms(7) owns_self] eqs(1) rdy by (cases m) (simp_all add: ss_prove_def)
  have pre: "patch_preflight_field E R m k i ps =
      map_err (\<lambda>_. mutation_field_kind (ri_name R) (fi_name (fld R k)) KCapacityExceeded) (pa_preflight (ss_patch S) m ?v p)"
    using assms(4,6,8) s by (simp add: patch_preflight_field_def Let_def)
  have com: "patch_commit_field E R m k i ps =
      commit_at E (category_wire E (cat R k)) (field_value_offset E R k) (\<lambda>child. pa_commit (ss_patch S) m child p) i"
    using assms(4,6,8) by (simp add: patch_commit_field_def Let_def)
  have own: "owns R k j \<longleftrightarrow> j = k" for j using assms(4) by (intro simple_owns) simp
  have "\<exists>val. field_done E R k i (patch_commit_field E R m k i ps) val \<and> field_patched R ps k (bs k) = Some (val k)"
    if ok: "pa_preflight (ss_patch S) m ?v p = Ok ()" and complete: "m = Init \<longrightarrow> pa_is_complete (ss_patch S) p"
  proof -
    obtain c v where c: "pa_commit (ss_patch S) m ?v p = Ok c" "same_span ?v c" "ss_validate S c = Ok ()" "ss_logical S c = Ok v"
      "pa_patched (ss_patch S) p (bs k) = Some v"
      using patch_contract.patch_law [OF assms(5) TrueI sel(4) w p rdy _ ok] complete base by auto
    have "field_done E R k i (patch_commit_field E R m k i ps) (\<lambda>_. v)"
      unfolding com
    proof (rule value_done [where f = "\<lambda>child. pa_commit (ss_patch S) m child p", OF assms(1-3) _ c(1,2)])
      show "holds E R k j v" if "record_input E R j" "vspan E R k j = c" for j
        using path_field_eqs(2,3) [OF assms(1) that(1) assms(3,4)] that(2) c(3,4) by (simp add: ss_prove_def)
    qed (simp add: assms(4))
    moreover have "field_patched R ps k (bs k) = Some v" using assms(4,6,8) c(5) by (simp add: field_patched_def Let_def)
    ultimately show ?thesis by blast
  qed
  then show ?thesis
    unfolding patch_field_law_def pre using patch_contract.patch_total [OF assms(5) TrueI sel(4) w p rdy] assms(3,4,6,8)
    by (simp add: own patch_field_complete_def)
qed

text \<open>A patch that switches the variant starts from nothing, one that keeps it from the selected payload.\<close>

lemma tagged_patch_base:
  assumes "payload_patch_contract E True P" "input_ok E v" "i_wire v = ps_wire P" "pa_ok (ps_patch P) p" "ps_patch_tag P p = Ok target"
    and base: "m = Init \<Longrightarrow> b = None" "m = Replace \<Longrightarrow> b = patch_base Replace (ps_materialize_selected P tag v)"
    and proved: "m = Replace \<Longrightarrow> ps_validate_selected P tag v = Ok ()"
  shows "pa_patched (ps_patch P) p b =
    pa_patched (ps_patch P) p (patch_base (if m = Init \<or> tag \<noteq> target then Init else Replace) (ps_materialize_selected P target v))"
proof (cases m)
  case Replace
  obtain x where x: "ps_materialize_selected P tag v = Ok x"
    using payload_contract.validated_materializes [of E True P v tag] assms(1-3) proved [OF Replace] by (auto simp: payload_patch_contract_def)
  then show ?thesis
    using Replace base(2) payload_patch_contract.switch_base [OF assms(1) TrueI assms(2,3) proved [OF Replace] x assms(4,5)] by auto
qed (use base(1) in simp)

lemma tagged_patch_law:
  assumes "record_ok E R" "record_input E R i" "k < field_count R" "cat R k = TaggedField t P" "payload_patch_contract E True P"
    "cat R t = PathField (enum_support E D)" "t < field_count R" "enum_ok D" "set (ps_tags P) \<subseteq> set (en_discs D)"
    "\<not> is_external_tag_sibling R k" "patch_ready E R m k i ps bs" "ps ! k = Some p"
  shows "patch_field_law E R m k i ps bs"
proof -
  let ?v = "vspan E R k i" and ?tag = "tag_at E R D t i" and ?kind = "mutation_field_kind (ri_name R) (fi_name (fld R k))"
  note sel = select_field [OF assms(1-3)] and read = read_tag_eq [OF assms(1,2,7,6)] and eqs = tagged_field_eqs(2,3) [OF assms(1-4,6,7)]
  have w: "i_wire ?v = ps_wire P" and s: "subrange E (ps_wire P) (field_value_offset E R k) i = Ok ?v" using assms(4) sel(3) by simp_all
  have own: "owns R k j \<longleftrightarrow> j = k \<or> j = t" for j using assms(4) by (simp add: owns_def)
  have sib: "is_external_tag_sibling R t" using tag_sibling_iff [OF assms(1)] assms(3,4) by blast
  have p: "pa_ok (ps_patch P) p" using patch_readyD(3) [OF assms(11) owns_self assms(12)] assms(4,10) by (simp add: patch_field_ok_def Let_def)
  obtain target where target: "ps_patch_tag P p = Ok target" "target \<in> set (en_discs D)"
    using payload_patch_contract.patch_tag_total [OF assms(5) TrueI p] assms(9) by blast
  have proved: "m = Replace \<Longrightarrow> ?tag \<in> set (en_discs D) \<and> ps_validate_selected P ?tag ?v = Ok ()"
    using patch_readyD(1) [OF assms(11)] eqs(2) by simp
  let ?fresh = "m = Init \<or> ?tag \<noteq> target"
  let ?m = "if ?fresh then Init else Replace"
  have rdy: "ready ?m (ps_validate_selected P target ?v)" using proved by (cases m) auto
  have base: "pa_patched (ps_patch P) p (bs k) = pa_patched (ps_patch P) p (patch_base ?m (ps_materialize_selected P target ?v))"
    by (rule tagged_patch_base [OF assms(5) sel(4) w p target(1)])
      (use patch_readyD(2) [OF assms(11) owns_self] eqs(1) proved in simp_all)
  let ?mismatch = "\<exists>u. ps ! t = Some u \<and> u \<noteq> ValuePatch (EnumValue target)"
  have pre: "patch_preflight_field E R m k i ps = (if ?mismatch then Err (?kind TagMismatch)
      else map_err (\<lambda>_. ?kind IncompleteUnionSwitch) (if ?fresh then ps_preflight_patch_init P ?v p else ps_preflight_patch P target ?v p))"
    using assms(4,10,12) target(1) read proved s
    by (cases m; cases "ps ! t") (auto simp: patch_preflight_field_def Let_def)
  have pre2: "(if ?fresh then ps_preflight_patch_init P ?v p else ps_preflight_patch P target ?v p) =
      (if ?fresh \<and> \<not> pa_is_complete (ps_patch P) p then Err (mutation_layout (ps_name P) OffsetOverflow)
       else pa_preflight (ps_patch P) ?m ?v p)"
    by (simp add: ps_preflight_patch_init_def ps_preflight_patch_def)
  have "\<exists>val. field_done E R k i (patch_commit_field E R m k i ps) val \<and> field_patched R ps k (bs k) = Some (val k) \<and>
      field_patched R ps t (bs t) = Some (val t)"
    if ok: "pa_preflight (ps_patch P) ?m ?v p = Ok ()" and complete: "?fresh \<Longrightarrow> pa_is_complete (ps_patch P) p" and "\<not> ?mismatch"
  proof -
    have "?m = Init \<Longrightarrow> pa_is_complete (ps_patch P) p" using complete by (simp split: if_splits)
    then obtain c v where c: "pa_commit (ps_patch P) ?m ?v p = Ok c" "same_span ?v c" "ps_validate_selected P target c = Ok ()"
      "ps_materialize_selected P target c = Ok v" "pa_patched (ps_patch P) p (bs k) = Some v"
      using payload_patch_contract.patch_law [OF assms(5) TrueI sel(4) w p target(1) rdy _ ok] unfolding base by blast
    let ?val = "\<lambda>j. if j = k then v else EnumValue target"
    have kt: "t \<noteq> k" using assms(4,6) by auto
    have mat: "ps_materialize_selected P target c = Ok (?val k)" "?val t = EnumValue target" using c(4) kt by simp_all
    note fin = payload_done [where val = ?val and p = c, OF assms(1-4,6,7,8) target(2) _ c(2,3) mat]
    have "field_done E R k i (patch_commit_field E R m k i ps) ?val"
    proof (cases ?fresh)
      case True
      have "field_done E R k i (switch_tag E R k t P target i (\<lambda>i. pa_commit (ps_patch P) Init i p)) ?val"
        by (rule fin(2)) (use c(1) True in simp)
      then show ?thesis
        using assms(4,10,12) target(1) True read proved by (cases m) (auto simp: patch_commit_field_def Let_def)
    next
      case False
      have "field_done E R k i (commit_at E (ps_wire P) (field_value_offset E R k) (\<lambda>i. pa_commit (ps_patch P) Replace i p) i) ?val"
        by (rule fin(1)) (use c(1) False in simp_all)
      then show ?thesis
        using assms(4,10,12) target(1) False read proved by (cases m) (auto simp: patch_commit_field_def Let_def)
    qed
    moreover have "field_patched R ps k (bs k) = Some v" using assms(4,10,12) c(5) by (simp add: field_patched_def Let_def)
    moreover have "field_patched R ps t (bs t) = Some (EnumValue target)"
      using tag_patched [where ps = ps, OF assms(1,3,4)] assms(12) target(1) sib \<open>\<not> ?mismatch\<close>
      by (cases "ps ! t") (auto simp: field_patched_def Let_def)
    ultimately show ?thesis using kt by (intro exI [of _ ?val]) simp
  qed
  then show ?thesis
    unfolding patch_field_law_def pre pre2 using payload_patch_contract.patch_total [OF assms(5) TrueI sel(4) w p target(1) rdy]
    by (auto simp: own)
qed

text \<open>The facts both kinds of optional inner share.\<close>

lemma optional_storage:
  assumes "record_ok E R" "record_input E R i" "k < field_count R" "cat R k = OptionalField x"
  defines "A \<equiv> option_of E (ri_name R) (fi_name (fld R k)) x (fi_align (fld R k))"
  shows "subrange E (op_value A) (op_offset A) (seg E R k i) = Ok (vspan E R k i)"
    "category_ok E R (OptionalField x)" "i_wire (vspan E R k i) = inner_wire x"
proof -
  note sel = select_field [OF assms(1-3)] and E = record_okD(1) [OF assms(1)]
  show cok: "category_ok E R (OptionalField x)" using record_okD(4) [OF assms(1,3)] assms(4) by simp
  note c = option_of_contract [OF E record_okD(3) [OF assms(1,3)] cok, of "ri_name R" "fi_name (fld R k)", folded A_def]
  have w: "i_wire (seg E R k i) = op_storage A" using assms(4) by (simp add: field_wire_def A_def)
  have "option_value A (seg E R k i) = vspan E R k i"
    using vspan_of_seg [OF assms(1,3)] assms(4) by (simp add: option_value_def A_def)
  then show "subrange E (op_value A) (op_offset A) (seg E R k i) = Ok (vspan E R k i)"
    using option_contract.select(1) [OF c TrueI sel(2) w] by simp
  show "i_wire (vspan E R k i) = inner_wire x" using assms(4) by simp
qed

lemma cleared_patch_law:
  assumes "record_ok E R" "record_input E R i" "k < field_count R" "cat R k = OptionalField x" "\<not> is_external_tag_sibling R k"
    "ps ! k = Some (OptionPatch None)"
  shows "patch_field_law E R m k i ps bs"
proof -
  have own: "owns R k j \<longleftrightarrow> j = k" for j using assms(4) by (intro simple_owns) simp
  have "field_done E R k i (patch_commit_field E R m k i ps) (\<lambda>_. OptionValue None)"
    using option_cleared [where val = "\<lambda>_. OptionValue None" and f = "\<lambda>storage. Ok (option_clear storage)", OF assms(1-4)] assms(4-6)
    by (simp add: patch_commit_field_def Let_def)
  then show ?thesis
    using assms(3-6) select_field(1) [OF assms(1-3)]
    by (auto simp: patch_field_law_def own patch_preflight_field_def field_patched_def Let_def)
qed

lemma optional_path_patch_law:
  assumes "record_ok E R" "record_input E R i" "k < field_count R" "cat R k = OptionalField (OptPath S)" "patch_contract E True S"
    "\<not> is_external_tag_sibling R k" "patch_ready E R m k i ps bs" "ps ! k = Some (OptionPatch (Some q))"
  shows "patch_field_law E R m k i ps bs"
proof -
  let ?nm = "ri_name R" and ?f = "fi_name (fld R k)" and ?x = "OptPath S"
  let ?A = "option_of E ?nm ?f ?x (fi_align (fld R k))" and ?v = "vspan E R k i" and ?kind = "mutation_field_kind ?nm ?f"
  let ?fresh = "m = Init \<or> is_all_zero (seg E R k i)"
  let ?m = "if ?fresh then Init else Replace"
  note sel = select_field [OF assms(1-3)] and st = optional_storage [OF assms(1-4)] and eqs = optional_field_eqs [OF assms(1-4)]
  have S: "schema_contract E True S" using assms(5) by (simp add: patch_contract_def)
  have w: "i_wire ?v = ss_wire S" using st(3) by simp
  have own: "owns R k j \<longleftrightarrow> j = k" for j using assms(4) by (intro simple_owns) simp
  have q: "pa_ok (ss_patch S) q"
    using patch_readyD(3) [OF assms(7) owns_self assms(8)] assms(4,6) by (simp add: patch_field_ok_def Let_def)
  have valid: "op_validate ?A j = Ok () \<longleftrightarrow> ss_validate S j = Ok ()" for j by (auto simp: option_of_def ss_prove_def)
  have present: "ss_validate S ?v = Ok ()" if "\<not> ?fresh"
    using patch_readyD(1) [OF assms(7)] eqs(1) valid that by (cases m) auto
  then have rdy: "ready ?m (ss_validate S ?v)" by auto
  have base: "(case bs k of Some (OptionValue y) \<Rightarrow> y | _ \<Rightarrow> None) = patch_base ?m (ss_logical S ?v)"
  proof (cases ?fresh)
    case True
    then show ?thesis using patch_readyD(2) [OF assms(7) owns_self] eqs(2) by (cases m) auto
  next
    case False
    then obtain r b where b: "ss_make_ref S ?v = Ok r" "ss_materialize S r = Ok b" "ss_logical S ?v = Ok b"
      using schema_contract.logical_of_proved [OF S TrueI sel(4) w] present by blast
    then have "materialized_field E R k i = Ok (OptionValue (Some b))"
      using eqs(2) False present by (simp add: option_of_def ss_prove_def)
    then show ?thesis using patch_readyD(2) [OF assms(7) owns_self] False b(3) by (cases m) auto
  qed
  have pre: "patch_preflight_field E R m k i ps =
      (if ?fresh \<and> \<not> pa_is_complete (ss_patch S) q then Err (?kind IncompleteOptionalInitialization)
       else map_err (\<lambda>_. ?kind KCapacityExceeded) (pa_preflight (ss_patch S) ?m ?v q))"
    using assms(4,6,8) sel(1) st(1) by (simp add: patch_preflight_field_def Let_def)
  let ?g = "\<lambda>child. pa_commit (ss_patch S) ?m child q"
  let ?commit = "\<lambda>storage. commit_at E (op_value ?A) (op_offset ?A)
      (\<lambda>child. pa_commit (ss_patch S) (if m = Init \<or> is_all_zero storage then Init else Replace) child q) storage"
  have com: "patch_commit_field E R m k i ps = commit_at E (field_wire E (fld R k)) (field_offset E R k) ?commit i"
    using assms(4,6,8) by (simp add: patch_commit_field_def Let_def)
  have "\<exists>val. field_done E R k i (patch_commit_field E R m k i ps) val \<and> field_patched R ps k (bs k) = Some (val k)"
    if ok: "pa_preflight (ss_patch S) ?m ?v q = Ok ()" and complete: "?fresh \<Longrightarrow> pa_is_complete (ss_patch S) q"
  proof -
    have "?m = Init \<Longrightarrow> pa_is_complete (ss_patch S) q" using complete by (simp split: if_splits)
    then obtain c v where c: "pa_commit (ss_patch S) ?m ?v q = Ok c" "same_span ?v c" "ss_validate S c = Ok ()" "ss_logical S c = Ok v"
      "pa_patched (ss_patch S) q (case bs k of Some (OptionValue y) \<Rightarrow> y | _ \<Rightarrow> None) = Some v"
      using patch_contract.patch_law [OF assms(5) TrueI sel(4) w q rdy _ ok] unfolding base by blast
    obtain r where r: "ss_make_ref S c = Ok r" "ss_materialize S r = Ok v" using c(4) by (auto simp: ss_logical_def)
    have "field_done E R k i (patch_commit_field E R m k i ps) (\<lambda>_. OptionValue (Some v))"
      unfolding com
      by (rule option_stored [where f = ?commit and g = ?g and d = c and r = r and y = v, OF assms(1-4) st(2)])
        (use c(1-3) r valid in \<open>simp_all add: option_of_def ss_prove_def\<close>)
    moreover have "field_patched R ps k (bs k) = Some (OptionValue (Some v))"
      using assms(4,6,8) c(5) by (simp add: field_patched_def Let_def)
    ultimately show ?thesis by blast
  qed
  then show ?thesis
    unfolding patch_field_law_def pre using patch_contract.patch_total [OF assms(5) TrueI sel(4) w q rdy] assms(3) by (auto simp: own)
qed

lemma optional_array_patch_law:
  assumes "record_ok E R" "record_input E R i" "k < field_count R" "cat R k = OptionalField (OptArray n S)" "schema_contract E True S"
    "\<not> is_external_tag_sibling R k" "patch_ready E R m k i ps bs" "ps ! k = Some (OptionPatch (Some q))"
  shows "patch_field_law E R m k i ps bs"
proof -
  let ?nm = "ri_name R" and ?f = "fi_name (fld R k)" and ?x = "OptArray n S"
  let ?A = "option_of E ?nm ?f ?x (fi_align (fld R k))" and ?v = "vspan E R k i" and ?B = "path_elem_adapter E ?nm ?f [n] S"
  let ?fresh = "m = Init \<or> is_all_zero (seg E R k i)"
  let ?m = "if ?fresh then Init else Replace"
  note sel = select_field [OF assms(1-3)] and st = optional_storage [OF assms(1-4)] and eqs = optional_field_eqs [OF assms(1-4)]
  note c = path_contract [OF assms(5), of ?nm ?f "[n]"]
  have w: "i_wire ?v = array_layout n (el_wire ?B)" using st(3) by (simp add: path_elem_adapter_def)
  have own: "owns R k j \<longleftrightarrow> j = k" for j using assms(4) by (intro simple_owns) simp
  obtain xs where xs: "q = ValuePatch (ArrayValue xs)" "length xs = n" "\<forall>v \<in> set xs. ss_val_ok S v"
    using patch_readyD(3) [OF assms(7) owns_self assms(8)] assms(4,6)
    by (auto simp: patch_field_ok_def Let_def list_all_iff split: pval.splits lval.splits)
  note iff = element_contract.ref_prove_iff(1) [OF c TrueI sel(4) w]
  have "?m = Init \<or> array_proved E ?B n ?v"
    using patch_readyD(1) [OF assms(7)] eqs(1) iff by (cases m) (auto simp: option_of_def Let_def)
  note law = preflight_elements_law [OF c sel(4) w xs(2,3) this]
  have pre: "patch_preflight_field E R m k i ps = preflight_elements E ?m ?B ?v xs"
    using assms(4,6,8) sel(1) st(1) xs(1) by (simp add: patch_preflight_field_def Let_def)
  let ?g = "\<lambda>child. commit_elements E ?m ?B child xs"
  let ?commit = "\<lambda>storage. commit_at E (op_value ?A) (op_offset ?A)
      (\<lambda>child. commit_elements E (if m = Init \<or> is_all_zero storage then Init else Replace) ?B child xs) storage"
  have com: "patch_commit_field E R m k i ps = commit_at E (field_wire E (fld R k)) (field_offset E R k) ?commit i"
    using assms(4,6,8) xs(1) by (simp add: patch_commit_field_def Let_def)
  have "\<exists>val. field_done E R k i (patch_commit_field E R m k i ps) val \<and> field_patched R ps k (bs k) = Some (val k)"
    if ok: "preflight_elements E ?m ?B ?v xs = Ok ()"
  proof -
    obtain d where d: "commit_elements E ?m ?B ?v xs = Ok d" "same_span ?v d" "array_proved E ?B n d"
      "\<forall>k < n. \<exists>r. array_ref_get E ?B n d k = Ok (Some r) \<and> ss_materialize S r = Ok (xs ! k)"
      using law(2) [OF ok] by blast
    have prove: "array_ref_prove E ?B n d = Ok d"
      using element_contract.ref_prove_iff(1) [OF c TrueI element_contract.proved_span [OF c d(3)]] d(3) by blast
    have "field_done E R k i (patch_commit_field E R m k i ps) (\<lambda>_. OptionValue (Some (ArrayValue xs)))"
      unfolding com
      by (rule option_stored [where f = ?commit and g = ?g and d = d and r = "SpanView d" and y = "ArrayValue xs", OF assms(1-4) st(2)])
        (use d(1,2) prove materialize_array_Ok [OF xs(2) d(4)] in \<open>simp_all add: option_of_def Let_def\<close>)
    moreover have "field_patched R ps k (bs k) = Some (OptionValue (Some (ArrayValue xs)))"
      using assms(4,6,8) xs(1) by (simp add: field_patched_def Let_def)
    ultimately show ?thesis by blast
  qed
  then show ?thesis unfolding patch_field_law_def pre using law(1) assms(3) by (auto simp: own)
qed

section \<open>Patching a record\<close>

lemma patch_one_field:
  assumes "record_patch_wf E R" "record_input E R i" "k < field_count R" "\<not> is_external_tag_sibling R k" "patch_ready E R m k i ps bs"
  shows "patch_field_law E R m k i ps bs"
proof -
  have ok: "record_ok E R" using assms(1) by (simp add: record_patch_wf_def)
  note wf = record_patch_wfD [OF assms(1,3)] and rdy = patch_readyD [OF assms(5)]
  show ?thesis
  proof (cases "ps ! k")
    case None
    show ?thesis
    proof (cases "\<exists>t P. cat R k = TaggedField t P \<and> ps ! t \<noteq> None")
      case True
      then show ?thesis
        using None assms(4) by (auto simp: patch_field_law_def patch_preflight_field_def Let_def)
    next
      case False
      then show ?thesis by (intro kept_field_law [OF ok assms(2-5) None]) blast
    qed
  next
    case (Some p)
    from ok assms(3) show ?thesis
    proof (cases rule: field_cases)
      case (leaf l)
      then show ?thesis using leaf_patch_law [OF ok assms(2,3) leaf(1) assms(4) Some rdy(3) [OF owns_self Some]] by blast
    next
      case (path S)
      then show ?thesis using path_patch_law [OF ok assms(2,3) path(1) wf(1) [OF path(1)] assms(4,5) Some] by blast
    next
      case (tagged t P D)
      then show ?thesis
        using tagged_patch_law [OF ok assms(2,3) tagged(1) wf(2) [OF tagged(1)] tagged(5,3,4,6) assms(4,5) Some] by blast
    next
      case (array n e)
      then show ?thesis using array_patch_law [OF ok assms(2,3) array(1,3) assms(4) Some rdy(3) [OF owns_self Some] rdy(1)] by blast
    next
      case (optional x)
      obtain u where u: "p = OptionPatch u"
        using rdy(3) [OF owns_self Some] optional(1) assms(4) by (auto simp: patch_field_ok_def Let_def split: pval.splits)
      show ?thesis
      proof (cases u)
        case None
        then show ?thesis using cleared_patch_law [OF ok assms(2,3) optional(1) assms(4)] Some u by blast
      next
        case (Some q)
        then have ps: "ps ! k = Some (OptionPatch (Some q))" using \<open>ps ! k = Some p\<close> u by simp
        show ?thesis
        proof (cases x)
          case (OptPath S)
          then show ?thesis using optional_path_patch_law [OF ok assms(2,3) _ _ assms(4,5) ps] optional(1) wf(3) by blast
        next
          case (OptArray n S)
          then have "schema_contract E True S" using optional(2) by simp
          then show ?thesis using optional_array_patch_law [OF ok assms(2,3) _ _ assms(4,5) ps] optional(1) OptArray by blast
        qed
      qed
    qed
  qed
qed

lemma patch_preflight_local:
  assumes "record_ok E R" "record_input E R i" "record_input E R j" "k < field_count R"
    "\<And>t. owns R k t \<Longrightarrow> seg E R t i = seg E R t j"
  shows "patch_preflight_field E R m k i ps = patch_preflight_field E R m k j ps"
proof -
  have seg: "seg E R k i = seg E R k j" using assms(5) by simp
  note v = same_vspan [OF assms(1,4) seg] and si = select_field(1,3) [OF assms(1,2,4)] and sj = select_field(1,3) [OF assms(1,3,4)]
  from assms(1,4) show ?thesis
  proof (cases rule: field_cases)
    case (leaf l)
    then show ?thesis
      using si sj v bytes_preflight_input [of E _ _ i _ j]
      by (cases l) (auto simp: patch_preflight_field_def Let_def split: option.splits pval.splits lval.splits)
  next
    case (path S)
    then show ?thesis using si sj v by (cases "ps ! k") (simp_all add: patch_preflight_field_def Let_def)
  next
    case (tagged t P D)
    have "seg E R t i = seg E R t j" using assms(5) [of t] tagged(1) by (simp add: owns_def)
    note vt = same_vspan [OF assms(1) tagged(3) this]
    have rd: "read_tag E R t a b i = read_tag E R t a b j" for a b
      unfolding read_tag_eq [OF assms(1,2) tagged(3,5)] read_tag_eq [OF assms(1,3) tagged(3,5)] vt ..
    show ?thesis
      using tagged(1) si sj v by (cases m; cases "ps ! k"; cases "ps ! t") (simp_all add: patch_preflight_field_def Let_def rd cong: if_cong)
  next
    case (array n e)
    then show ?thesis
      using si sj v by (auto simp: patch_preflight_field_def Let_def split: option.splits pval.splits lval.splits)
  next
    case (optional x)
    then show ?thesis
      using si sj seg by (auto simp: patch_preflight_field_def Let_def split: option.splits pval.splits)
  qed
qed

lemma record_patchE:
  assumes "record_patch_ok R p"
  obtains ps where "p = RecordPatch ps" "length ps = field_count R" "\<And>j q. j < field_count R \<Longrightarrow> ps ! j = Some q \<Longrightarrow> patch_field_ok R j q"
  using assms by (auto simp: record_patch_ok_def list_all_iff split: pval.splits option.splits)

text \<open>A patch touches the fields it updates and the tag sibling of a payload it updates.\<close>

definition patch_touches :: "record_ir \<Rightarrow> pval \<Rightarrow> nat \<Rightarrow> bool" where
  "patch_touches R p j \<longleftrightarrow> (case p of
     RecordPatch ps \<Rightarrow> \<exists>k < field_count R. \<not> is_external_tag_sibling R k \<and> owns R k j \<and> ps ! k \<noteq> None | _ \<Rightarrow> False)"

lemma record_patched_of_fields:
  assumes "\<And>j. j < field_count R \<Longrightarrow> field_patched R ps j (case b of Some (RecordValue bs) \<Rightarrow> Some (bs ! j) | _ \<Rightarrow> None) = Some (val j)"
  shows "record_patched R (RecordPatch ps) b = Some (RecordValue (map val [0..<field_count R]))"
proof -
  let ?g = "\<lambda>k. field_patched R ps k (case b of Some (RecordValue bs) \<Rightarrow> Some (bs ! k) | _ \<Rightarrow> None)"
  have "map ?g [0..<field_count R] = map (\<lambda>k. Some (val k)) [0..<field_count R]" using assms by simp
  then show ?thesis by (simp add: record_patched_def Let_def list_all_iff comp_def)
qed

lemma patch_sibling:
  "is_external_tag_sibling R k \<Longrightarrow> patch_preflight_field E R m k j ps = Ok ()"
  "is_external_tag_sibling R k \<Longrightarrow> patch_commit_field E R m k j ps = Ok j"
  by (simp_all add: patch_preflight_field_def patch_commit_field_def Let_def)

text \<open>Every field's law, on any span that still holds the fields it owns as the record had them.\<close>

lemma patch_fields_law:
  assumes "record_patch_wf E R" "record_input E R i" "ready m (record_validate E R i)"
    and ps: "\<And>j q. j < field_count R \<Longrightarrow> ps ! j = Some q \<Longrightarrow> patch_field_ok R j q"
    and k: "k < field_count R" "\<not> is_external_tag_sibling R k"
    and j: "record_input E R j" "\<And>t. owns R k t \<Longrightarrow> seg E R t j = seg E R t i"
  shows "patch_field_law E R m k j ps (\<lambda>j. patch_base m (materialized_field E R j i))"
proof -
  have ok: "record_ok E R" using assms(1) by (simp add: record_patch_wf_def)
  have "ready m (proof_field E R k i)"
    using assms(3) record_validate_iff(1) [OF ok assms(2)] k(1) by (cases m) auto
  moreover have "materialized_field E R l j = materialized_field E R l i" if own: "owns R k l" for l
    using field_local(2) [OF ok j(1) assms(2) owns_less [OF ok k(1) own] j(2) [OF owns_trans [OF ok k(1) own]]] .
  ultimately have "patch_ready E R m k j ps (\<lambda>j. patch_base m (materialized_field E R j i))"
    using field_local(1) [OF ok j(1) assms(2) k(1) j(2)] ps owns_less [OF ok k(1)] by (cases m) (auto simp: patch_ready_def)
  then show ?thesis by (rule patch_one_field [OF assms(1) j(1) k])
qed

text \<open>What a patch starts from, field by field.\<close>

lemma patch_base_field:
  assumes "record_ok E R" "record_input E R i" "ready m (record_validate E R i)" "j < field_count R"
  shows "(case patch_base m (record_copy_into E R (SpanView i)) of Some (RecordValue xs) \<Rightarrow> Some (xs ! j) | _ \<Rightarrow> None) =
    patch_base m (materialized_field E R j i)"
proof (cases m)
  case Replace
  then obtain xs where "record_copy_into E R (SpanView i) = Ok (RecordValue xs)" "materialized_field E R j i = Ok (xs ! j)"
    using record_proved_values [OF assms(1,2)] assms(3,4) by (metis ready_simps(2))
  then show ?thesis using Replace by simp
qed simp

lemma record_patch_total:
  assumes "record_patch_wf E R" "record_input E R i" "record_patch_ok R p" "ready m (record_validate E R i)"
  shows "record_patch_preflight E R m i p \<noteq> Panic"
proof -
  obtain ps where ps: "p = RecordPatch ps" "\<And>j q. j < field_count R \<Longrightarrow> ps ! j = Some q \<Longrightarrow> patch_field_ok R j q"
    using record_patchE [OF assms(3)] by metis
  have "patch_preflight_field E R m k i ps \<noteq> Panic" if "k < field_count R" for k
  proof (cases "is_external_tag_sibling R k")
    case False
    then show ?thesis using patch_fields_law [OF assms(1,2,4) ps(2) that False assms(2)] by (simp add: patch_field_law_def)
  qed (simp add: patch_sibling)
  then show ?thesis
    using for_each_Panic [of "\<lambda>k. patch_preflight_field E R m k i ps" "[0..<field_count R]"] ps(1) by (auto simp: record_patch_preflight_def)
qed

lemma record_patch_law:
  assumes "record_patch_wf E R" "record_input E R i" "record_patch_ok R p" "ready m (record_validate E R i)"
    and complete: "m = Init \<Longrightarrow> record_patch_complete R p" and accepted: "record_patch_preflight E R m i p = Ok ()"
  shows "\<exists>c v. record_patch_commit E R m i p = Ok c \<and> same_span i c \<and> record_validate E R c = Ok () \<and>
        record_copy_into E R (SpanView c) = Ok v \<and> record_patched R p (patch_base m (record_copy_into E R (SpanView i))) = Some v \<and>
        (\<forall>j < field_count R. \<not> patch_touches R p j \<longrightarrow> seg E R j c = seg E R j i)"
proof -
  have ok: "record_ok E R" using assms(1) by (simp add: record_patch_wf_def)
  obtain ps where ps: "p = RecordPatch ps" "\<And>j q. j < field_count R \<Longrightarrow> ps ! j = Some q \<Longrightarrow> patch_field_ok R j q"
    using record_patchE [OF assms(3)] by metis
  define bs where "bs j = patch_base m (materialized_field E R j i)" for j
  note law = patch_fields_law [OF assms(1,2,4) ps(2), folded bs_def]
  have pre: "patch_preflight_field E R m k i ps = Ok ()" if "k < field_count R" for k
    using accepted that ps(1) by (simp add: record_patch_preflight_def)
  have cmp: "m = Init \<longrightarrow> patch_field_complete R k (ps ! k)" if "k < field_count R" for k
    using complete that ps(1) by (auto simp: record_patch_complete_def list_all_iff)
  define val where "val j = the (field_patched R ps j (bs j))" for j
  have step: "field_done E R k j (patch_commit_field E R m k j ps) val \<and> (\<forall>l < field_count R. owns R k l \<longrightarrow> field_patched R ps l (bs l) = Some (val l))"
    if k: "k < field_count R" "\<not> is_external_tag_sibling R k" and j: "record_input E R j" "\<And>t. owns R k t \<Longrightarrow> seg E R t j = seg E R t i" for k j
  proof -
    have "patch_preflight_field E R m k j ps = Ok ()"
      using patch_preflight_local [where m = m and ps = ps, OF ok j(1) assms(2) k(1) j(2)] pre [OF k(1)] by simp
    then obtain w where "field_done E R k j (patch_commit_field E R m k j ps) w"
      "\<forall>l < field_count R. owns R k l \<longrightarrow> field_patched R ps l (bs l) = Some (w l)"
      using law [OF _ _ k j] cmp [OF k(1)] unfolding patch_field_law_def by blast
    then show ?thesis unfolding field_done_def val_def by fastforce
  qed
  obtain c where c: "commit_fields (\<lambda>k i. patch_commit_field E R m k i ps) [0..<field_count R] i = Ok c" "same_span i c"
    and holds: "\<And>j. j < field_count R \<Longrightarrow> holds E R j c (val j)"
    and frame: "\<And>j. j < field_count R \<Longrightarrow> (\<And>k x. k < field_count R \<Longrightarrow> \<not> is_external_tag_sibling R k \<Longrightarrow> owns R k j \<Longrightarrow>
      patch_commit_field E R m k x ps = Ok x) \<Longrightarrow> seg E R j c = seg E R j i"
    by (rule record_of_steps [where step = "\<lambda>k i. patch_commit_field E R m k i ps" and val = val, OF ok assms(2)])
      (use patch_sibling(2) step in blast)+
  have "record_validate E R c = Ok ()"
    using record_validate_iff(1) [OF ok record_input_span [OF c(2) assms(2)]] holds by blast
  moreover have "record_copy_into E R (SpanView c) = Ok (RecordValue (map val [0..<field_count R]))"
    using holds by (intro record_value_of_fields) simp_all
  moreover have "record_patched R p (patch_base m (record_copy_into E R (SpanView i))) = Some (RecordValue (map val [0..<field_count R]))"
    unfolding ps(1)
  proof (rule record_patched_of_fields)
    fix j assume j: "j < field_count R"
    obtain k where k: "k < field_count R" "\<not> is_external_tag_sibling R k" "owns R k j" using owner_exists [OF ok j] .
    show "field_patched R ps j (case patch_base m (record_copy_into E R (SpanView i)) of Some (RecordValue xs) \<Rightarrow> Some (xs ! j) | _ \<Rightarrow> None) = Some (val j)"
      unfolding patch_base_field [OF ok assms(2,4) j] bs_def [symmetric] using step [OF k(1,2) assms(2)] k(3) j by simp
  qed
  moreover have "seg E R j c = seg E R j i" if "j < field_count R" "\<not> patch_touches R p j" for j
    using that ps(1) by (intro frame) (auto simp: patch_touches_def patch_commit_field_def Let_def)
  ultimately show ?thesis using c ps(1) by (auto simp: record_patch_commit_def)
qed

lemma patch_field_from_law:
  assumes "record_patch_wf E R" "k < field_count R" "category_val_ok (cat R k) v"
  shows "patch_field_ok R k (patch_field_from R k v)" "patch_field_complete R k (Some (patch_field_from R k v))"
    "ps ! k = Some (patch_field_from R k v) \<Longrightarrow> field_patched R ps k b = Some v"
proof -
  have ok: "record_ok E R" using assms(1) by (simp add: record_patch_wf_def)
  note wf = record_patch_wfD [OF assms(1,2)]
  note defs = patch_field_from_def patch_field_ok_def patch_field_complete_def field_patched_def Let_def
  have "patch_field_ok R k (patch_field_from R k v) \<and> patch_field_complete R k (Some (patch_field_from R k v)) \<and>
    (ps ! k = Some (patch_field_from R k v) \<longrightarrow> field_patched R ps k b = Some v)"
  proof (cases "is_external_tag_sibling R k")
    case True
    then show ?thesis using assms(3) by (simp add: defs)
  next
    case False
    from ok assms(2) show ?thesis
    proof (cases rule: field_cases)
      case (path S)
      then show ?thesis using False assms(3) patch_contract.patch_from [OF wf(1) TrueI] by (simp add: defs)
    next
      case (tagged t P D)
      then show ?thesis using False assms(3) payload_patch_contract.patch_from [OF wf(2) TrueI] by (simp add: defs)
    next
      case (optional x)
      then obtain y where y: "v = OptionValue y" "\<And>z. y = Some z \<Longrightarrow> inner_val_ok x z"
        using assms(3) by (auto split: lval.splits option.splits)
      show ?thesis
      proof (cases x)
        case (OptPath S)
        then show ?thesis using False optional y patch_contract.patch_from [OF wf(3) TrueI] by (cases y) (simp_all add: defs)
      next
        case (OptArray n S)
        then show ?thesis using False optional y by (cases y) (simp_all add: defs)
      qed
    qed (use False assms(3) in \<open>simp_all add: defs\<close>)
  qed
  then show "patch_field_ok R k (patch_field_from R k v)" "patch_field_complete R k (Some (patch_field_from R k v))"
    "ps ! k = Some (patch_field_from R k v) \<Longrightarrow> field_patched R ps k b = Some v" by blast+
qed

lemma record_patch_from_law:
  assumes "record_patch_wf E R" "record_val_ok R v"
  shows "record_patch_ok R (record_patch_from R v)" "record_patch_complete R (record_patch_from R v)"
    "record_patched R (record_patch_from R v) b = Some v"
proof -
  obtain vs where vs: "v = RecordValue vs" "length vs = field_count R" "\<And>j. j < field_count R \<Longrightarrow> category_val_ok (cat R j) (vs ! j)"
    using record_valueE [OF assms(2)] by metis
  let ?ps = "map (\<lambda>k. Some (patch_field_from R k (vs ! k))) [0..<field_count R]"
  have conv: "record_patch_from R v = RecordPatch ?ps" using vs(1) by (simp add: record_patch_from_def)
  note law = patch_field_from_law [OF assms(1) _ vs(3)]
  show "record_patch_ok R (record_patch_from R v)" "record_patch_complete R (record_patch_from R v)"
    unfolding conv using law(1,2) by (simp_all add: record_patch_ok_def record_patch_complete_def list_all_iff)
  have "record_patched R (RecordPatch ?ps) b = Some (RecordValue (map ((!) vs) [0..<field_count R]))"
    using law(3) by (intro record_patched_of_fields) simp
  then show "record_patched R (record_patch_from R v) b = Some v" unfolding conv using vs(1,2) map_nth [of vs] by simp
qed

interpretation record_patch: patch_contract E "record_patch_wf E R" "record_support E R" for E R
proof (rule patch_contract.intro)
  show "schema_contract E (record_patch_wf E R) (record_support E R)"
    using record_schema.schema_contract_axioms [of E R] unfolding schema_contract_def record_patch_wf_def by blast
  show "patch_contract_axioms E (record_patch_wf E R) (record_support E R)"
  proof (rule patch_contract_axioms.intro)
    fix i p m
    assume wf: "record_patch_wf E R" and i: "input_ok E i" "i_wire i = ss_wire (record_support E R)"
      and p: "pa_ok (ss_patch (record_support E R)) p" and rdy: "ready m (ss_validate (record_support E R) i)"
    then have i': "record_input E R i" "record_patch_ok R p" "ready m (record_validate E R i)" by simp_all
    note law = record_patch_total [OF wf i'] record_patch_law [OF wf i']
    show "pa_preflight (ss_patch (record_support E R)) m i p \<noteq> Panic" using law(1) by simp
    assume "m = Init \<Longrightarrow> pa_is_complete (ss_patch (record_support E R)) p" "pa_preflight (ss_patch (record_support E R)) m i p = Ok ()"
    then show "\<exists>c v. pa_commit (ss_patch (record_support E R)) m i p = Ok c \<and> same_span i c \<and> ss_validate (record_support E R) c = Ok () \<and>
        ss_logical (record_support E R) c = Ok v \<and>
        pa_patched (ss_patch (record_support E R)) p (patch_base m (ss_logical (record_support E R) i)) = Some v"
      using law(2) by (fastforce simp: ss_logical_def)
  qed (simp add: record_patch_from_law)
qed

section \<open>Every generated schema\<close>

lemma patch_contract_of_ok: "patch_contract E ok S \<Longrightarrow> ok \<Longrightarrow> patch_contract E True S"
  by (simp add: patch_contract_def patch_contract_axioms_def schema_contract_def)

lemma payload_patch_contract_of_ok: "payload_patch_contract E ok P \<Longrightarrow> ok \<Longrightarrow> payload_patch_contract E True P"
  by (simp add: payload_patch_contract_def payload_patch_contract_axioms_def payload_contract_def)

lemma patch_contract_if: "(ok \<Longrightarrow> patch_contract E True S) \<Longrightarrow> patch_contract E ok S"
  by (cases ok) (simp_all add: patch_contract_def patch_contract_axioms_def schema_contract_def)

lemma payload_patch_contract_if: "(ok \<Longrightarrow> payload_patch_contract E True P) \<Longrightarrow> payload_patch_contract E ok P"
  by (cases ok) (simp_all add: payload_patch_contract_def payload_patch_contract_axioms_def payload_contract_def)

lemma generated_patches:
  "generated E S \<Longrightarrow> env_ok E \<longrightarrow> patch_contract E True S"
  "generated_payload E P \<Longrightarrow> env_ok E \<longrightarrow> payload_patch_contract E True P"
proof (induction rule: generated_generated_payload.inducts)
  case (of_enum D)
  then show ?case using patch_contract_of_ok [OF enum_patch.patch_contract_axioms [of E D]] by blast
next
  case (of_record R)
  show ?case
  proof
    assume E: "env_ok E"
    have "record_ok E R"
      using E of_record(1) generated_contracts(1) [OF of_record(2)] generated_contracts(2) [OF of_record(4)]
      by (intro record_ok_of_children) blast+
    then have "record_patch_wf E R" using E of_record(3,5) by (simp add: record_patch_wf_def)
    then show "patch_contract E True (record_support E R)"
      using patch_contract_of_ok [OF record_patch.patch_contract_axioms] by blast
  qed
next
  case (of_payload vs nm)
  have "env_ok E \<longrightarrow> payload_patch_wf E vs"
    using of_payload generated_contracts(1) [OF of_payload(3)] by (auto simp: payload_patch_wf_def payload_ok_def)
  then show ?case using payload_patch_contract_of_ok [OF tagged_patch.payload_patch_contract_axioms] by blast
qed

interpretation gen_patch: patch_contract E "env_ok E \<and> generated E S" S for E S
  by (rule patch_contract_if) (use generated_patches(1) in blast)

interpretation gen_payload_patch: payload_patch_contract E "env_ok E \<and> generated_payload E P" P for E P
  by (rule payload_patch_contract_if) (use generated_patches(2) in blast)

section \<open>What patching guarantees\<close>

text \<open>
  C4. \<open>copy_from\<close> of every generated schema implements the intended result of its patch: it never panics; an
  error leaves the destination byte for byte as it was; on success the destination was valid, is valid
  again over the same span, and its logical value is the patch applied to the old one.
\<close>

theorem patch_refines_intent:
  assumes "env_ok E" "generated E S" "input_ok E i" "i_wire i = ss_wire S" "pa_ok (ss_patch S) p"
  shows "case ss_copy_from E S i p of
      (Ok _, j) \<Rightarrow> ss_validate S i = Ok () \<and> same_span i j \<and> ss_validate S j = Ok () \<and>
        (\<exists>b v. ss_logical S i = Ok b \<and> ss_logical S j = Ok v \<and> pa_patched (ss_patch S) p (Some b) = Some v)
    | (Err e, j) \<Rightarrow> j = i
    | (Panic, j) \<Rightarrow> False"
  using gen_patch.copy_from_law [OF conjI [OF assms(1,2)] assms(3-5)] .

abbreviation "flag_patch d \<equiv> RecordPatch [None, None, Some (ValuePatch (LeafValue (BoolVal d)))]"

lemma message_patch_wf: "record_patch_wf x64 (message x64)"
  using message_record_ok generated_patches(1) [OF of_enum [OF enum_ok_kind], of x64] generated_patches(2) [OF generated_body, of x64]
  by (auto simp: record_patch_wf_def message_def less_two_cases)

lemma flag_patch_ok: "pa_ok (ss_patch message_schema) (flag_patch d)"
  by (simp add: record_patch_ok_def patch_field_ok_def message_def is_external_tag_sibling_def Let_def upt_rec)

lemma flag_patch_accepted: "record_patch_preflight x64 (message x64) Replace (message_input addr a b c) (flag_patch d) = Ok ()"
  by (simp add: record_patch_preflight_def patch_preflight_field_def message_def is_external_tag_sibling_def Let_def upt_rec)

theorem patch_refines_intent_witness:
  "\<exists>j b v. ss_copy_from x64 message_schema (message_input 5 0 0 0) (flag_patch True) = (Ok (), j) \<and> ss_validate message_schema j = Ok () \<and>
     ss_logical message_schema (message_input 5 0 0 0) = Ok b \<and> ss_logical message_schema j = Ok v \<and>
     record_patched (message x64) (flag_patch True) (Some b) = Some v"
proof -
  let ?i = "message_input 5 0 0 0" and ?p = "flag_patch True"
  obtain c where c: "record_patch_commit x64 (message x64) Replace ?i ?p = Ok c"
    using record_patch_law [OF message_patch_wf, of ?i ?p Replace] message_input_ok message_zero_validates
      flag_patch_ok flag_patch_accepted by fastforce
  have "ss_copy_from x64 message_schema ?i ?p = (Ok (), c)"
    using message_zero_validates flag_patch_accepted c
    by (simp add: ss_copy_from_def preflighted_def ss_preflight_patch_def ss_commit_patch_def shared_Ok reborrow_Ok message_input_ok)
  then show ?thesis
    using patch_refines_intent [OF env_ok_linux_x86_64 generated_message message_input_ok _ flag_patch_ok, of 5 0 0 0 True] by auto
qed

text \<open>
  C26. A patch made from a logical value is complete and well typed, and copying it into any proved
  destination of the schema is either refused without a change or leaves exactly that value.
\<close>

theorem patch_from_logical:
  assumes "env_ok E" "generated E S" "input_ok E i" "i_wire i = ss_wire S" "ss_val_ok S v"
  shows "pa_ok (ss_patch S) (pa_from (ss_patch S) v) \<and> pa_is_complete (ss_patch S) (pa_from (ss_patch S) v) \<and>
    (case ss_copy_from E S i (pa_from (ss_patch S) v) of
       (Ok _, j) \<Rightarrow> same_span i j \<and> ss_validate S j = Ok () \<and> ss_logical S j = Ok v
     | (Err e, j) \<Rightarrow> j = i
     | (Panic, j) \<Rightarrow> False)"
proof -
  have gen: "env_ok E \<and> generated E S" using assms(1,2) ..
  have f: "pa_ok (ss_patch S) (pa_from (ss_patch S) v)" "pa_is_complete (ss_patch S) (pa_from (ss_patch S) v)"
    "\<And>b. pa_patched (ss_patch S) (pa_from (ss_patch S) v) b = Some v"
    using gen_patch.patch_from [OF gen assms(5)] by blast+
  then show ?thesis
    using gen_patch.copy_from_law [OF gen assms(3,4) f(1)] by (auto split: prod.splits res.splits)
qed

theorem patch_from_logical_witness:
  "pa_is_complete (ss_patch message_schema) (pa_from (ss_patch message_schema) (message_value True)) \<and>
   fst (ss_copy_from x64 message_schema (message_input 5 0 0 0) (pa_from (ss_patch message_schema) (message_value True))) \<noteq> Panic"
  using patch_from_logical [OF env_ok_linux_x86_64 generated_message message_input_ok _ message_value_ok, of 5 0 0 0 True]
  by (auto split: prod.splits res.splits)

text \<open>
  C27. A record patch changes nothing it does not name: after an accepted patch of a proved record, the
  storage of every field the patch does not update, except the tag of a payload it updates, holds the same
  bytes as before, padding included, and the record is proved again.
\<close>

theorem patch_frame:
  assumes "record_patch_wf E R" "record_input E R i" "record_patch_ok R p" "record_validate E R i = Ok ()"
    "record_patch_preflight E R Replace i p = Ok ()"
  shows "\<exists>c. record_patch_commit E R Replace i p = Ok c \<and> record_validate E R c = Ok () \<and>
    (\<forall>j < field_count R. \<not> patch_touches R p j \<longrightarrow> seg E R j c = seg E R j i)"
  using record_patch_law [OF assms(1-3), of Replace] assms(4,5) by fastforce

theorem patch_frame_witness:
  "\<exists>c. record_patch_commit x64 (message x64) Replace (message_input 5 0 0 0) (flag_patch True) = Ok c \<and>
     seg x64 (message x64) 1 c = seg x64 (message x64) 1 (message_input 5 0 0 0)"
proof -
  have "\<not> patch_touches (message x64) (flag_patch True) 1"
    by (auto simp: patch_touches_def message_def owns_def less_two_cases)
  then show ?thesis
    using patch_frame [OF message_patch_wf, of "message_input 5 0 0 0" "flag_patch True"] message_input_ok message_zero_validates
      flag_patch_ok flag_patch_accepted by (auto simp: message_def [THEN arg_cong [where f = "\<lambda>R. length (ri_fields R)"]])
qed

text \<open>
  C11. The refusals of a record patch, over any well-typed patch and proved destination. A tag without its
  payload is \<open>TagOnlyPatch\<close>; a tag that disagrees with the payload's variant is \<open>TagMismatch\<close>; an incomplete
  payload of another variant than the current one is \<open>IncompleteUnionSwitch\<close>; and an incomplete patch of an
  absent optional field is \<open>IncompleteOptionalInitialization\<close>.
\<close>

theorem patch_refusals:
  fixes ps :: "pval option list"
  assumes "record_patch_wf E R" "record_input E R i" "record_validate E R i = Ok ()" "k < field_count R" "\<not> is_external_tag_sibling R k"
  defines "refused \<equiv> \<lambda>kind. patch_preflight_field E R Replace k i ps = Err (mutation_field_kind (ri_name R) (fi_name (fld R k)) kind)"
  shows "(\<forall>t P. cat R k = TaggedField t P \<longrightarrow> ps ! t \<noteq> None \<longrightarrow> ps ! k = None \<longrightarrow> refused TagOnlyPatch) \<and>
    (\<forall>t P p target. cat R k = TaggedField t P \<longrightarrow> ps ! k = Some p \<longrightarrow> ps_patch_tag P p = Ok target \<longrightarrow>
       ps ! t \<notin> {None, Some (ValuePatch (EnumValue target))} \<longrightarrow> refused TagMismatch) \<and>
    (\<forall>t P p target. cat R k = TaggedField t P \<longrightarrow> ps ! k = Some p \<longrightarrow> ps_patch_tag P p = Ok target \<longrightarrow>
       ps ! t \<in> {None, Some (ValuePatch (EnumValue target))} \<longrightarrow> materialized_field E R t i \<noteq> Ok (EnumValue target) \<longrightarrow>
       \<not> pa_is_complete (ps_patch P) p \<longrightarrow> refused IncompleteUnionSwitch) \<and>
    (\<forall>S q. cat R k = OptionalField (OptPath S) \<longrightarrow> ps ! k = Some (OptionPatch (Some q)) \<longrightarrow>
       materialized_field E R k i = Ok (OptionValue None) \<longrightarrow> \<not> pa_is_complete (ss_patch S) q \<longrightarrow>
       refused IncompleteOptionalInitialization)"
proof (intro conjI allI impI)
  have ok: "record_ok E R" using assms(1) by (simp add: record_patch_wf_def)
  have proved: "proof_field E R k i = Ok ()" using record_validate_iff(1) [OF ok assms(2)] assms(3,4) by blast
  note sel = select_field [OF ok assms(2,4)]
  fix t P p target
  assume c: "cat R k = TaggedField t P"
  show "refused TagOnlyPatch" if "ps ! t \<noteq> None" "ps ! k = None"
    using that c assms(5) by (auto simp: refused_def patch_preflight_field_def Let_def)
  assume p: "ps ! k = Some p" "ps_patch_tag P p = Ok target"
  show "refused TagMismatch" if "ps ! t \<notin> {None, Some (ValuePatch (EnumValue target))}"
    using that c p assms(5) by (auto simp: refused_def patch_preflight_field_def Let_def)
  assume t: "ps ! t \<in> {None, Some (ValuePatch (EnumValue target))}" "materialized_field E R t i \<noteq> Ok (EnumValue target)"
    and incomplete: "\<not> pa_is_complete (ps_patch P) p"
  obtain D where D: "t < field_count R" "cat R t = PathField (enum_support E D)" using record_okD(4) [OF ok assms(4)] c by auto
  have tag: "tag_at E R D t i \<in> set (en_discs D)" using tagged_field_eqs(3) [OF ok assms(2,4) c D(2,1)] proved by blast
  have "holds E R t i (EnumValue (tag_at E R D t i))"
    using tagged_holds(2) [OF ok assms(2,4) c D(2,1) tag] tagged_field_eqs(2,3) [OF ok assms(2,4) c D(2,1)] proved
      proved_field_value [OF ok assms(2,4) proved] by auto
  then have "tag_at E R D t i \<noteq> target" using t(2) by auto
  then show "refused IncompleteUnionSwitch"
    using c p t(1) tag incomplete assms(5) sel(3) read_tag_eq [OF ok assms(2) D]
    by (auto simp: refused_def patch_preflight_field_def ps_preflight_patch_init_def Let_def)
next
  have ok: "record_ok E R" using assms(1) by (simp add: record_patch_wf_def)
  note sel = select_field [OF ok assms(2,4)]
  fix S q
  assume c: "cat R k = OptionalField (OptPath S)" and q: "ps ! k = Some (OptionPatch (Some q))"
    and absent: "materialized_field E R k i = Ok (OptionValue None)" and incomplete: "\<not> pa_is_complete (ss_patch S) q"
  have "is_all_zero (seg E R k i)"
    using absent optional_field_eqs(2) [OF ok assms(2,4) c] by (auto split: if_splits)
  then show "refused IncompleteOptionalInitialization"
    using c q incomplete assms(5) sel(1) optional_storage(1) [OF ok assms(2,4) c]
    by (simp add: refused_def patch_preflight_field_def Let_def)
qed

theorem patch_refusals_witness:
  "patch_preflight_field x64 (message x64) Replace 1 (message_input 5 0 0 0) [Some (ValuePatch (EnumValue 1)), None, None] =
     Err (mutation_field_kind ''Message'' ''body'' TagOnlyPatch)"
proof -
  have "\<not> is_external_tag_sibling (message x64) 1" "field_count (message x64) = 3"
    "cat (message x64) 1 = TaggedField 0 (tagged_support x64 ''Body'' (body x64))" "ri_name (message x64) = ''Message''"
    "fi_name (fld (message x64) 1) = ''body''"
    by (simp_all add: is_external_tag_sibling_def message_def)
  then show ?thesis
    using patch_refusals [OF message_patch_wf, of "message_input 5 0 0 0" 1 "[Some (ValuePatch (EnumValue 1)), None, None]"]
      message_input_ok message_zero_validates by simp
qed

text \<open>
  \<open>copy_from\<close> of a payload capability cannot leave its variant: a patch of another variant is refused with
  \<open>TagMismatch\<close>, every refusal leaves the payload unchanged, and an accepted patch leaves a payload that is
  proved for the same tag and holds the patch applied to the old value.
\<close>

theorem payload_copy_from_keeps_tag:
  assumes "env_ok E" "generated_payload E P" "input_ok E (sel_payload s)" "i_wire (sel_payload s) = ps_wire P"
    "ps_validate_selected P (sel_tag s) (sel_payload s) = Ok ()" "pa_ok (ps_patch P) p"
  shows "case tagged_copy_from E P s p of
      (Ok _, j) \<Rightarrow> ps_patch_tag P p = Ok (sel_tag s) \<and> same_span (sel_payload s) j \<and> ps_validate_selected P (sel_tag s) j = Ok () \<and>
        (\<exists>b v. ps_materialize_selected P (sel_tag s) (sel_payload s) = Ok b \<and> ps_materialize_selected P (sel_tag s) j = Ok v \<and>
           pa_patched (ps_patch P) p (Some b) = Some v)
    | (Err e, j) \<Rightarrow> j = sel_payload s \<and> (ps_patch_tag P p \<noteq> Ok (sel_tag s) \<longrightarrow> e = mutation_tag_mismatch (ps_name P))
    | (Panic, j) \<Rightarrow> False"
proof -
  have gen: "env_ok E \<and> generated_payload E P" using assms(1,2) ..
  let ?i = "sel_payload s" and ?t = "sel_tag s"
  note i = assms(3,4)
  obtain t where t: "ps_patch_tag P p = Ok t" using gen_payload_patch.patch_tag_total [OF gen assms(6)] by blast
  obtain b where b: "ps_materialize_selected P ?t ?i = Ok b" using gen_payload.validated_materializes [OF gen i assms(5)] by blast
  show ?thesis
  proof (cases "t = ?t")
    case False
    then show ?thesis using t by (simp add: tagged_copy_from_def preflighted_def)
  next
    case True
    note tag = t [unfolded True]
    have rdy: "ready Replace (ps_validate_selected P ?t ?i)" using assms(5) by simp
    show ?thesis
    proof (cases "pa_preflight (ps_patch P) Replace ?i p")
      case (Ok u)
      then obtain c v where "pa_commit (ps_patch P) Replace ?i p = Ok c" "same_span ?i c" "ps_validate_selected P ?t c = Ok ()"
        "ps_materialize_selected P ?t c = Ok v" "pa_patched (ps_patch P) p (Some b) = Some v"
        using gen_payload_patch.patch_law [OF gen i assms(6) tag rdy] b by auto
      then show ?thesis
        using Ok tag b assms(1,3) by (simp add: tagged_copy_from_def preflighted_def ps_preflight_patch_def shared_Ok reborrow_Ok)
    next
      case (Err e)
      then show ?thesis using tag assms(1,3) by (simp add: tagged_copy_from_def preflighted_def ps_preflight_patch_def shared_Ok)
    qed (use gen_payload_patch.patch_total [OF gen i assms(6) tag rdy] in blast)
  qed
qed

theorem payload_copy_from_keeps_tag_witness:
  "snd (tagged_copy_from x64 (tagged_support x64 ''Body'' (body x64))
     \<lparr>sel_tag = 0, sel_payload = \<lparr>i_addr = 6, i_bytes = [9], i_wire = payload_wire x64 (body x64)\<rparr>\<rparr> (VariantPatch 1 (Some (RecordPatch [None])))) =
   \<lparr>i_addr = 6, i_bytes = [9], i_wire = payload_wire x64 (body x64)\<rparr>"
proof -
  let ?P = "tagged_support x64 ''Body'' (body x64)" and ?i = "\<lparr>i_addr = 6, i_bytes = [9], i_wire = payload_wire x64 (body x64)\<rparr>"
  let ?p = "VariantPatch 1 (Some (RecordPatch [None]))"
  have i: "input_ok x64 ?i" using exI [of "\<lambda>k. Suc 0 = 2 ^ k" 0] by (simp add: body_wire input_ok_def wf_layout_def)
  have "ps_validate_selected ?P 0 ?i = Ok ()" by (simp add: payload_validate_def body_def)
  moreover have "pa_ok (ps_patch ?P) ?p" by (simp add: payload_patch_ok_def body_def record_patch_ok_def point_def)
  moreover have "ps_patch_tag ?P ?p = Ok 1" by (simp add: payload_patch_tag_def body_def)
  ultimately show ?thesis
    using payload_copy_from_keeps_tag [OF env_ok_linux_x86_64 generated_body, of "\<lparr>sel_tag = 0, sel_payload = ?i\<rparr>" ?p] i
    by (auto split: prod.splits res.splits)
qed

end
