(* ===== verification/Zs_Names.thy ===== *)
theory Zs_Names
  imports Zs_Frontend "HOL-Library.Multiset"
begin

text \<open>
  The items of the inherent impls the macro generates: the constants and access functions of a root type
  (\<open>emit_wire.rs\<close>, \<open>emit_root_surface\<close>), the methods of its reference and mutable capabilities
  (\<open>emit_record_module\<close>, \<open>emit_scalar_module\<close>, \<open>emit_tagged_module\<close>, \<open>emit_record_mutation_methods\<close>) and the offset
  constants of its wire type. The analysis reserves names in \<open>validate_generated_names\<close>; here that is compared
  with what is emitted. Raw identifiers count as the identifier they spell.
\<close>

section \<open>Identifiers\<close>

text \<open>
  \<open>to_uppercase\<close> on the characters of the model. \<open>snake_ident\<close> writes a keyword as a raw identifier, and
  \<open>Ident::new_raw\<close> panics on the keywords that may stand in a path.
\<close>

definition ascii_uppercase :: "char \<Rightarrow> char" where
  "ascii_uppercase c = (if 97 \<le> (of_char c :: nat) \<and> (of_char c :: nat) \<le> 122 then char_of (of_char c - 32 :: nat) else c)"

definition path_keywords :: "string list" where
  "path_keywords = [''self'', ''Self'', ''super'', ''crate'']"

definition snake_ident :: "string \<Rightarrow> (diag list, string) res" where
  "snake_ident value = (if List.member path_keywords (snake_case value) then Panic else Ok (snake_case value))"

section \<open>Emitted items\<close>

definition field_offset_name :: "string \<Rightarrow> string" where
  "field_offset_name ident = ''__ZERO_SCHEMA_OFFSET_'' @ map ascii_uppercase (normalized_ident ident)"

text \<open>An array descriptor constant for every level of nesting below a field's array.\<close>

fun array_levels :: "ir_category \<Rightarrow> nat" where
  "array_levels (IrArray (IrArray e n) m) = Suc (array_levels (IrArray e n))" | "array_levels c = 0"

definition array_descriptor_names :: "ir_field \<Rightarrow> string list" where
  "array_descriptor_names f = map (\<lambda>level. ''__ZERO_SCHEMA_ARRAY_'' @ map ascii_uppercase (if_name f) @ ''_'' @ fmt_decimal level)
     (rev [0..<array_levels (if_category f)])"

definition access_items :: "string list" where
  "access_items = [''ZERO_IS_VALID'', ''access'', ''access_mut'', ''access_prefix'', ''access_mut_prefix'']"

definition layout_items :: "string list" where
  "layout_items = [''SCHEMA_SIZE'', ''SCHEMA_ALIGN'', ''SCHEMA_STRIDE'', ''LAYOUT'']"

text \<open>The root type: both inherent impls, and the variants of a scalar enum, which share its namespace.\<close>

definition root_items :: "schema_ir \<Rightarrow> string list" where
  "root_items ir = (case sc_kind ir of
     StructItem \<Rightarrow> ''__ZERO_SCHEMA_PADDING'' # concat (map array_descriptor_names (sc_fields ir)) @
       [''__ZERO_SCHEMA_FIELDS'', ''__ZERO_SCHEMA_NONZERO_ARRAYS''] @ layout_items @ access_items
   | ScalarEnumItem r \<Rightarrow> map iv_name (sc_variants ir) @ layout_items @ access_items
   | TaggedEnumItem \<Rightarrow> [])"

definition wire_items :: "schema_ir \<Rightarrow> string list" where
  "wire_items ir = (case sc_kind ir of StructItem \<Rightarrow> map (\<lambda>f. field_offset_name (if_name f)) (sc_fields ir) | _ \<Rightarrow> [])"

fun ref_accessors :: "ir_variant list \<Rightarrow> (diag list, string list) res" where
  "ref_accessors [] = Ok []"
| "ref_accessors (v # vs) = and_then (snake_ident (iv_name v)) (\<lambda>method. and_then (ref_accessors vs) (\<lambda>rest. Ok (method # rest)))"

definition reference_items :: "schema_ir \<Rightarrow> (diag list, string list) res" where
  "reference_items ir = (case sc_kind ir of
     StructItem \<Rightarrow> Ok (map if_name (sc_fields ir) @ [''copy_into''])
   | ScalarEnumItem r \<Rightarrow> Ok [''get'', ''copy_into'']
   | TaggedEnumItem \<Rightarrow> and_then (ref_accessors (sc_variants ir)) (\<lambda>methods.
       Ok ([''tag''] @ methods @ [''copy_into''])))"

definition record_mutation_items :: "ir_field list \<Rightarrow> string list" where
  "record_mutation_items fs =
     map (\<lambda>f. if_name f @ ''_mut'') (filter (\<lambda>f. \<not> is_tag_sibling fs (if_index f)) fs) @ [''clear'']"

definition mutable_items :: "schema_ir \<Rightarrow> string list" where
  "mutable_items ir = (case sc_kind ir of
     StructItem \<Rightarrow> map if_name (sc_fields ir) @ record_mutation_items (sc_fields ir) @ [''copy_into'', ''copy_from'']
   | ScalarEnumItem r \<Rightarrow> [''get'', ''set'', ''copy_into'', ''copy_from'']
   | TaggedEnumItem \<Rightarrow> [''tag''] @ map (\<lambda>v. snake_case (iv_name v) @ ''_mut'') (sc_variants ir) @ [''copy_into'', ''copy_from''])"

section \<open>Reserved and emitted names\<close>

lemma mset_pairs: "mset (concat (map (\<lambda>x. a x # g x) xs)) = mset (map a xs @ concat (map g xs))"
  by (induction xs) auto

lemma distinct_pairs: "distinct (pre @ concat (map (\<lambda>x. a x # g x) xs)) \<longleftrightarrow> distinct (pre @ map a xs @ concat (map g xs))"
  by (rule mset_eq_imp_distinct_iff) (simp add: mset_pairs)

lemma concat_optional: "concat (map (\<lambda>x. if p x then [] else [h x]) xs) = map h (filter (\<lambda>x. \<not> p x) xs)"
  by (induction xs) auto

lemma accepted_names:
  assumes "analyze H pr args it = Ok ir"
  shows "distinct (method_names (sc_kind ir) (sc_fields ir) (sc_variants ir))"
  using assms by (intro validated_names(2)) (auto simp: analyze_def Let_def)

text \<open>A field's logical name carries no raw prefix.\<close>

lemma normalized_ident_idem: "normalized_ident (normalized_ident s) = normalized_ident s"
proof (induction s rule: normalized_ident.induct)
  case (1 s)
  show ?case
  proof (cases "\<exists>rest. s = CHR ''r'' # CHR ''#'' # rest")
    case True
    then show ?thesis using 1 by (auto simp: normalized_ident.simps [of "CHR ''r'' # _"])
  next
    case False
    then have "normalized_ident s = s" by (auto simp: normalized_ident.simps [of s] split: list.splits)
    then show ?thesis by simp
  qed
qed

lemma link_from_names: "link_from ks claimed fs = Ok gs \<Longrightarrow> map if_name gs = map if_name fs"
proof (induction ks arbitrary: claimed fs)
  case (Cons k ks)
  have same: "map if_name (fs[k := (fs ! k)\<lparr>if_category := c\<rparr>]) = map if_name fs" for c
    by (cases "k < length fs") (simp_all add: map_update list_update_same_conv list_update_beyond)
  show ?case
    using Cons.prems Cons.IH same by (auto split: if_splits option.splits ir_category.splits bool.splits)
qed simp

lemma accepted_field_names:
  assumes "analyze H pr args it = Ok ir" "f \<in> set (sc_fields ir)"
  shows "normalized_ident (if_name f) = if_name f"
proof -
  have fields: "\<forall>s \<in> set (map if_name fs). normalized_ident s = s" if "analyze_fields H options k ds = Ok fs" for options k ds fs
    using that by (induction ds arbitrary: k fs) (auto simp: analyze_field_def normalized_ident_idem)
  have "\<forall>s \<in> set (map if_name fs). normalized_ident s = s" if struct: "analyze_struct H options body = Ok fs" for options body fs
  proof -
    obtain ds fs0 where "analyze_fields H options 0 ds = Ok fs0" "link_external_tags fs0 = Ok fs"
      using struct by (auto simp: analyze_struct_def split: struct_body.splits if_splits)
    then have "analyze_fields H options 0 ds = Ok fs0" "link_from [0..<length fs0] [] fs0 = Ok fs" by (simp_all add: link_external_tags_def)
    then show ?thesis using fields [of options 0 ds fs0] link_from_names [of "[0..<length fs0]" "[]" fs0 fs] by simp
  qed
  moreover obtain options vs where "analyze_body H options it = Ok (sc_kind ir, sc_fields ir, vs)"
    using assms(1) by (auto simp: analyze_def Let_def)
  ultimately show ?thesis using assms(2) by (auto simp: analyze_body_def split: item.splits)
qed

lemma snake_idents:
  "case ref_accessors vs of
     Ok methods \<Rightarrow> methods = map (\<lambda>v. snake_case (iv_name v)) vs | Err e \<Rightarrow> False
   | Panic \<Rightarrow> \<exists>v \<in> set vs. List.member path_keywords (snake_case (iv_name v))"
  by (induction vs) (auto simp: snake_ident_def split: res.splits)

text \<open>The level of a descriptor constant is what follows its last underscore.\<close>

lemma fmt_decimal_no_underscore: "CHR ''_'' \<notin> set (fmt_decimal n)"
  using digits_no_underscore [of 10 n] by (simp add: fmt_decimal_def filter_id_conv image_iff) metis

lemma descriptor_name_inj:
  assumes "a @ ''_'' @ fmt_decimal m = b @ ''_'' @ fmt_decimal n"
  shows "a = b \<and> m = n"
proof -
  have split: "takeWhile (\<lambda>c. c \<noteq> CHR ''_'') (rev (x @ ''_'' @ fmt_decimal k)) = rev (fmt_decimal k)" for x k
    using fmt_decimal_no_underscore [of k] by (auto simp: takeWhile_tail takeWhile_eq_all_conv)
  have "rev (fmt_decimal m) = rev (fmt_decimal n)" using split [of a m] split [of b n] unfolding assms by (rule trans [OF sym])
  then have "fmt_decimal m = fmt_decimal n" by simp
  then show ?thesis using assms fmt_decimal_inj by auto
qed

lemma descriptor_names_distinct:
  assumes "distinct (map (\<lambda>f. map ascii_uppercase (if_name f)) fs)"
  shows "distinct (concat (map array_descriptor_names fs))"
  using assms
proof (induction fs)
  case (Cons f fs)
  have "distinct (array_descriptor_names f)"
    unfolding array_descriptor_names_def by (auto simp: distinct_map inj_on_def dest: descriptor_name_inj fmt_decimal_inj)
  moreover have "set (array_descriptor_names f) \<inter> set (array_descriptor_names g) = {}" if "g \<in> set fs" for g
  proof -
    have "map ascii_uppercase (if_name f) \<noteq> map ascii_uppercase (if_name g)" using Cons.prems that by auto
    then have "map ascii_uppercase (if_name f) @ ''_'' @ fmt_decimal m \<noteq> map ascii_uppercase (if_name g) @ ''_'' @ fmt_decimal n" for m n
      using descriptor_name_inj by blast
    then show ?thesis unfolding array_descriptor_names_def by auto
  qed
  ultimately show ?case using Cons by fastforce
qed simp


lemma message_item_names:
  "\<exists>ir. analyze x64 tokens [] message_item = Ok ir \<and> sc_kind ir = StructItem \<and> map if_name (sc_fields ir) = [''kind'', ''body'', ''flag'']"
proof -
  have opts: "container_from_tokens_and_attrs [] [] = Ok default_container" by (simp add: container_from_tokens_and_attrs_def zero_groups_def)
  show ?thesis
    unfolding message_item_def analyze_def analyze_body_def item_attrs.simps item_params.simps item.case opts message_item_fields and_then.simps
    by (auto simp: reject_misplaced_zero_attributes_def generic_model_def declared_lifetimes_def direct_lifetimes_def validate_generated_names_def
        List.map_filter_def default_container_def Let_def root_names_def is_tag_sibling_def)
qed


text \<open>A tagged enum with a variant \<open>Super\<close> passes the analysis, and emitting its reference panics.\<close>

definition super_item :: item where
  "super_item = ItemEnum ''Body'' [] []
     [\<lparr>vd_ident = ''Super'', vd_fields = UnitFields, vd_disc = None, vd_attrs =
        [\<lparr>at_path = [''zero''], at_metas = [\<lparr>me_path = [''tag''], me_value = MPath [''Kind'', ''Empty'']\<rparr>]\<rparr>]\<rparr>]"

lemma super_variant_panics: "\<exists>ir. analyze x64 tokens [] super_item = Ok ir \<and> reference_items ir = Panic"
  by (simp add: super_item_def front_defs analyze_enum_def variant_options_of_def parse_variant_meta_def tag_owner_path_def
      tagged_shape_def rebase_path_def tokens_def snake_case_def ascii_upper_def ascii_lowercase_def char_of_def bit_0
      reference_items_def snake_ident_def path_keywords_def)

end
