(* ===== verification/Zs_Corners.thy ===== *)
theory Zs_Corners
  imports Zs_Layout Zs_Record_Patch Zs_Names
begin

text \<open>
  Corner cases, as concrete facts of the model: declarations the analysis accepts although a documented rule
  or its own uniqueness check speaks against them, and states that differ where the documentation says they
  do not.
\<close>

section \<open>Declarations that are accepted\<close>

definition string_field :: "meta list \<Rightarrow> syn_type \<Rightarrow> field_decl" where
  "string_field ms ty = \<lparr>fd_ident = ''text'', fd_ty = ty, fd_attrs = [\<lparr>at_path = [''zero''], at_metas = ms\<rparr>]\<rparr>"

abbreviation "str_ref \<equiv> TyReference (Some ''a'') False (plain ''str'')"
abbreviation "opt_int k s \<equiv> \<lparr>me_path = [k], me_value = MInt (LitInt s [])\<rparr>"
abbreviation "opt_ident k s \<equiv> \<lparr>me_path = [k], me_value = MIdent s\<rparr>"

lemmas field_defs = front_defs plain_def string_field_def classify_field_def primitive_of_def primitive_ident_def bool_type_def borrowed_target_def
  classify_option_field_def apply_field_options_def borrowed_string_def is_single_ident_def required_capacity_def length_type_def
  parse_capacity_def parse_unsigned_def literal_text_def radix_digits_def from_str_radix_def digit_value_def array_length_def
  classify_array_element.simps path_ends_in_option_def

text \<open>A capacity of 300 bytes with a one-byte length prefix.\<close>

lemma oversized_capacity_accepted:
  "\<exists>f. analyze_field x64 default_container 0 (string_field [opt_int ''capacity'' ''300'', opt_ident ''len_type'' ''u8''] str_ref) = Ok f \<and>
     if_category f = IrBorrowedStr 300 ''u8'' Native ''a''"
  by (simp add: field_defs)

text \<open>A fixed array of bounded strings, and of such arrays.\<close>

lemma string_arrays_accepted:
  "\<exists>f. analyze_field x64 default_container 0 (string_field [opt_int ''capacity'' ''4'']
     (TyArray (TyArray str_ref (LenInt (LitInt ''2'' []))) (LenInt (LitInt ''3'' [])))) = Ok f \<and>
     if_category f = IrArray (IrArray (IrBorrowedStr 4 ''u32'' Native ''a'') (Literal 2)) (Literal 3)"
  by (simp add: field_defs)

text \<open>Two variants whose tags are the same variant, once written as a raw identifier.\<close>

definition tagged_variant :: "string \<Rightarrow> string list \<Rightarrow> variant_decl" where
  "tagged_variant s tag = \<lparr>vd_ident = s, vd_fields = UnitFields, vd_disc = None, vd_attrs =
     [\<lparr>at_path = [''zero''], at_metas = [\<lparr>me_path = [''tag''], me_value = MPath tag\<rparr>]\<rparr>]\<rparr>"

lemma raw_tag_accepted:
  "\<exists>vs. analyze_tagged_variants None [] [tagged_variant ''First'' [''Kind'', ''A''], tagged_variant ''Second'' [''Kind'', ''r#A'']] = Ok vs \<and>
     map (\<lambda>v. map normalized_ident (iv_tag v)) vs = [[''Kind'', ''A''], [''Kind'', ''A'']]"
  by (simp add: tagged_variant_def variant_options_of_def zero_groups_def is_zero_attr_def parse_variant_meta_def meta_key_def
      tag_owner_path_def tagged_shape_def rebase_path_def normalized_ident.simps)

text \<open>The constant that holds a field's offset is named after the field in upper case.\<close>

definition byte_field :: "string \<Rightarrow> nat \<Rightarrow> ir_field" where
  "byte_field s k = \<lparr>if_name = s, if_index = k, if_ty = plain ''u8'', if_options = default_field, if_category = IrPrimitive U8, if_endian = Native\<rparr>"

lemma offset_names_collide:
  "validate_generated_names StructItem [byte_field ''a'' 0, byte_field ''A'' 1] [] = Ok () \<and> field_offset_name ''a'' = field_offset_name ''A''"
  by (simp add: validate_generated_names_def root_names_def byte_field_def is_tag_sibling_def field_offset_name_def ascii_uppercase_def
      normalized_ident.simps char_of_def bit_0)

text \<open>The adapter types of a record's fields are named after the fields in Pascal case.\<close>

fun pascal_from :: "bool \<Rightarrow> string \<Rightarrow> string" where
  "pascal_from upper [] = []"
| "pascal_from upper (c # cs) =
     (if c = CHR ''_'' then pascal_from True cs
      else if upper then ascii_uppercase c # pascal_from False cs else c # pascal_from False cs)"

definition pascal :: "string \<Rightarrow> string" where
  "pascal s = pascal_from True s"

definition field_adapter_name :: "ir_field \<Rightarrow> string" where
  "field_adapter_name f = pascal (if_name f) @ ''Adapter''"

definition array_adapter_name :: "ir_field \<Rightarrow> string" where
  "array_adapter_name f = pascal (if_name f) @ ''ArrayAdapter''"

definition option_adapter_name :: "ir_field \<Rightarrow> string" where
  "option_adapter_name f = pascal (if_name f) @ ''OptionAdapter''"

fun scalar_or_string_or_bytes :: "ir_category \<Rightarrow> bool" where
  "scalar_or_string_or_bytes (IrPath tagged t) = False"
| "scalar_or_string_or_bytes (IrArray e n) = False"
| "scalar_or_string_or_bytes (IrOptional ty c) = False"
| "scalar_or_string_or_bytes _ = True"

definition record_adapter_names :: "ir_field list \<Rightarrow> string list" where
  "record_adapter_names fs = map field_adapter_name (filter (\<lambda>f. scalar_or_string_or_bytes (if_category f)) fs) @
     map option_adapter_name (filter (\<lambda>f. case if_category f of IrOptional ty c \<Rightarrow> True | _ \<Rightarrow> False) fs) @
     map array_adapter_name (filter (\<lambda>f. case if_category f of IrArray e n \<Rightarrow> True | _ \<Rightarrow> False) fs)"

lemma adapter_names_collide:
  "validate_generated_names StructItem [(byte_field ''foo'' 0)\<lparr>if_category := IrArray (IrPrimitive U8) (Literal 4)\<rparr>, byte_field ''foo_array'' 1] [] = Ok () \<and>
   \<not> distinct (record_adapter_names [(byte_field ''foo'' 0)\<lparr>if_category := IrArray (IrPrimitive U8) (Literal 4)\<rparr>, byte_field ''foo_array'' 1])"
  by (simp add: validate_generated_names_def root_names_def byte_field_def is_tag_sibling_def record_adapter_names_def
      field_adapter_name_def array_adapter_name_def pascal_def ascii_uppercase_def char_of_def bit_0)

section \<open>States that differ\<close>

text \<open>A record that is not itself a payload, but holds one with a zero-invalid variant.\<close>

definition level_decl :: enum_decl where
  "level_decl = \<lparr>en_name = ''Level'', en_endian = Little, en_repr = ReprU8, en_discs = [1]\<rparr>"

definition holder :: "env \<Rightarrow> record_ir" where
  "holder E = \<lparr>ri_name = ''Holder'', ri_align = None, ri_fields =
    [\<lparr>fi_name = ''kind'', fi_category = PathField (enum_support E kind_decl), fi_align = None\<rparr>,
     \<lparr>fi_name = ''body'', fi_category = TaggedField 0 (tagged_support E ''Body''
        [\<lparr>va_name = ''Empty'', va_tag = 0, va_shape = None\<rparr>, \<lparr>va_name = ''Full'', va_tag = 1, va_shape = Some (enum_support E level_decl)\<rparr>]), fi_align = None\<rparr>]\<rparr>"

lemma record_states_differ:
  "ss_zero_state (record_support E (holder E)) = ZeroValid \<and> ss_clear_state (record_support E (holder E)) = ZeroInvalid"
  by (simp add: wire_type_state_def holder_def tagged_support_def enum_support_def kind_decl_def level_decl_def
      tagged_payload_zero_state_def tagged_payload_clear_state_def)

text \<open>A nul-terminated byte string that is not UTF-8.\<close>

lemma c_str_not_utf8: "(prove_c_str [255, 0] :: (string_proof_error, byte list) res) = Ok [255]"
  by (simp add: prove_c_str_def)

end
