(* ===== verification/Zs_Session.thy ===== *)
theory Zs_Session
  imports Zs_Fields Zs_Record_Patch
begin

text \<open>
  Receiving storage and the life of an exclusive capability: the buffer constructors of \<open>src/src/lib.rs\<close>,
  and the step relation of everything the public interface lets a caller do through one \<open>Mut\<close> - patches,
  clears, enum stores, getters, taking a handle, and every path of field, element, optional and variant
  handles. A step carries the result the caller sees. Rule induction shows that no sequence of steps leaves the schema.
\<close>

section \<open>Receiving storage\<close>

text \<open>
  \<open>make_schema_buffer!\<close> and, where the constant assertion lets it compile, \<open>make_zeroed_schema_buffer!\<close>; the
  boxed forms differ only in where the storage lives. \<open>None\<close> is the failed assertion. Both macros first compare
  the constants of the root with those of its \<open>WireType\<close>, which always agree.
\<close>

record root_constants =
  rc_size :: nat
  rc_align :: nat
  rc_stride :: nat

definition inherent_constants :: "schema_support \<Rightarrow> root_constants" where
  "inherent_constants S = \<lparr>rc_size = wl_size (ss_wire S), rc_align = wl_align (ss_wire S), rc_stride = wl_size (ss_wire S)\<rparr>"

definition wire_type_constants :: "schema_support \<Rightarrow> root_constants" where
  "wire_type_constants S = \<lparr>rc_size = rc_size (inherent_constants S), rc_align = rc_align (inherent_constants S),
     rc_stride = rc_stride (inherent_constants S)\<rparr>"

definition assert_schema_buffer_root :: "schema_support \<Rightarrow> bool" where
  "assert_schema_buffer_root S \<longleftrightarrow> rc_size (inherent_constants S) = rc_size (wire_type_constants S) \<and>
     rc_align (inherent_constants S) = rc_align (wire_type_constants S) \<and>
     rc_stride (inherent_constants S) = rc_stride (wire_type_constants S)"

lemma schema_buffer_root_agrees [simp]: "assert_schema_buffer_root S"
  by (simp add: assert_schema_buffer_root_def wire_type_constants_def)

definition make_schema_buffer :: "schema_support \<Rightarrow> schema_buffer" where
  "make_schema_buffer S = schema_buffer_new (ss_wire S) (wl_size (ss_wire S))"

definition assert_zeroed_schema_buffer_root :: "schema_support \<Rightarrow> bool" where
  "assert_zeroed_schema_buffer_root S \<longleftrightarrow> assert_schema_buffer_root S \<and> ss_zero_is_valid S"

definition make_zeroed_schema_buffer :: "schema_support \<Rightarrow> schema_buffer option" where
  "make_zeroed_schema_buffer S =
     (if assert_zeroed_schema_buffer_root S then Some (make_schema_buffer S) else None)"

lemma zero_buffer_input:
  assumes "env_ok E" "generated E S" "wl_size (ss_wire S) < usize_limit E" "sb_align (make_schema_buffer S) dvd addr"
  defines "i \<equiv> \<lparr>i_addr = addr, i_bytes = as_bytes (make_schema_buffer S), i_wire = ss_wire S\<rparr>"
  shows "input_ok E i" "is_all_zero i" "from_exact E (ss_wire S) addr (as_bytes (make_schema_buffer S)) = Ok i"
proof -
  have "wf_layout (ss_wire S)" using gen.wf_wire assms(1,2) by blast
  then show "input_ok E i" using assms(3,4)
    by (simp add: input_ok_def i_def make_schema_buffer_def schema_buffer_new_def as_bytes_def)
  show "is_all_zero i"
    by (simp add: i_def is_all_zero_def all_zero_def list_all_iff make_schema_buffer_def schema_buffer_new_def as_bytes_def)
  show "from_exact E (ss_wire S) addr (as_bytes (make_schema_buffer S)) = Ok i"
    using assms(4) by (simp add: i_def from_exact_def from_checked_Ok [OF assms(1)] make_schema_buffer_def schema_buffer_new_def as_bytes_def)
qed

section \<open>Steps of a capability\<close>

text \<open>
  A declaration whose children are generated, and the handle \<open>set\<close> of each leaf category. The rules
  name the span a handle holds and write it back into its parent when the handle is dropped.
\<close>

definition declared :: "env \<Rightarrow> record_ir \<Rightarrow> bool" where
  "declared E R \<longleftrightarrow> record_shape E R \<and> (\<forall>k < field_count R.
     (\<forall>S \<in> set (category_children (cat R k)). generated E S) \<and> (\<forall>P \<in> set (category_payloads (cat R k)). generated_payload E P))"

definition leaf_handle_set :: "env \<Rightarrow> leaf_errors \<Rightarrow> leaf \<Rightarrow> input \<Rightarrow> leaf_val \<Rightarrow> (schema_error, unit) res \<times> input" where
  "leaf_handle_set E er l = (case l of
     FixedBytes n \<Rightarrow> bytes_mut_set E (leaf_adapter E er l)
   | _ \<Rightarrow> if is_string l then string_mut_set E (leaf_adapter E er l) else scalar_mut_set E (leaf_adapter E er l))"

definition leaf_handle_get :: "env \<Rightarrow> leaf_errors \<Rightarrow> leaf \<Rightarrow> input \<Rightarrow> (schema_error, leaf_val) res" where
  "leaf_handle_get E er l = (case l of
     FixedBytes n \<Rightarrow> bytes_mut_get E (leaf_adapter E er l)
   | _ \<Rightarrow> if is_string l then string_mut_get E (leaf_adapter E er l) else scalar_mut_get E (leaf_adapter E er l))"

text \<open>
  Methods that return a handle or a value and not a \<open>Result\<close>: \<open>field_mut\<close>, \<open>get\<close>, \<open>get_mut\<close>, the variant
  accessors, \<open>copy_into\<close>. Their step changes no byte, and its result is what the caller sees: the call
  returns or it panics, so that reaching an \<open>unreachable!\<close> is a panicking step and not a missing one.
\<close>

definition outcome :: "(schema_error, 'a) res \<Rightarrow> (schema_error, unit) res" where
  "outcome r = or_unreachable (and_then r (\<lambda>_. Ok ()))"

inductive cap_step :: "env \<Rightarrow> schema_support \<Rightarrow> input \<Rightarrow> (schema_error, unit) res \<Rightarrow> input \<Rightarrow> bool"
  and field_step :: "env \<Rightarrow> record_ir \<Rightarrow> nat \<Rightarrow> input \<Rightarrow> input \<Rightarrow> (schema_error, unit) res \<Rightarrow> input \<Rightarrow> bool"
  and array_step :: "env \<Rightarrow> string \<Rightarrow> string \<Rightarrow> nat list \<Rightarrow> nat \<Rightarrow> element \<Rightarrow> input \<Rightarrow> (schema_error, unit) res \<Rightarrow> input \<Rightarrow> bool"
  and elem_step :: "env \<Rightarrow> string \<Rightarrow> string \<Rightarrow> nat list \<Rightarrow> element \<Rightarrow> input \<Rightarrow> (schema_error, unit) res \<Rightarrow> input \<Rightarrow> bool"
  for E where
  copy_from: "generated E S \<Longrightarrow> pa_ok (ss_patch S) p \<Longrightarrow> ss_copy_from E S i p = (r, j) \<Longrightarrow> cap_step E S i r j"
| clear: "declared E R \<Longrightarrow> ss_clear_state (record_support E R) = ZeroValid \<Longrightarrow>
    cap_step E (record_support E R) i (Ok ()) (record_clear i)"
| enum_set: "enum_ok D \<Longrightarrow> d \<in> set (en_discs D) \<Longrightarrow> enum_mut_set E D i d = (r, j) \<Longrightarrow> cap_step E (enum_support E D) i r j"
| copy_out: "generated E S \<Longrightarrow> cap_step E S i (outcome (ss_logical S i)) i"
| enum_read: "enum_ok D \<Longrightarrow> cap_step E (enum_support E D) i (outcome (enum_get E D i)) i"
| member_get: "declared E R \<Longrightarrow> k < field_count R \<Longrightarrow> cap_step E (record_support E R) i (outcome (field_read E R k i)) i"
| member_take: "declared E R \<Longrightarrow> k < field_count R \<Longrightarrow> \<not> is_external_tag_sibling R k \<Longrightarrow>
    cap_step E (record_support E R) i (outcome (field_mutator E R k i)) i"
| member: "declared E R \<Longrightarrow> k < field_count R \<Longrightarrow> \<not> is_external_tag_sibling R k \<Longrightarrow> field_mutator E R k i = Ok c \<Longrightarrow>
    field_step E R k i c r d \<Longrightarrow> cap_step E (record_support E R) i r (write_back (handle_offset E R k) d i)"

| leaf_set: "cat R k = LeafField l \<Longrightarrow> leaf_val_ok l x \<Longrightarrow>
    leaf_handle_set E (field_errors (ri_name R) (fi_name (fld R k))) l c x = (r, d) \<Longrightarrow> field_step E R k i c r d"
| leaf_get: "cat R k = LeafField l \<Longrightarrow>
    field_step E R k i c (outcome (leaf_handle_get E (field_errors (ri_name R) (fi_name (fld R k))) l c)) c"
| leaf_clear: "cat R k = LeafField l \<Longrightarrow> is_string l \<Longrightarrow> field_step E R k i c (Ok ()) (string_mut_clear c)"
| path: "cat R k = PathField S \<Longrightarrow> cap_step E S c r d \<Longrightarrow> field_step E R k i c r d"
| payload_copy_from: "cat R k = TaggedField t P \<Longrightarrow> read_tag E R t (access_layout (ri_name R)) id i = Ok tag \<Longrightarrow>
    generated_payload E P \<Longrightarrow> pa_ok (ps_patch P) p \<Longrightarrow> tagged_copy_from E P \<lparr>sel_tag = tag, sel_payload = c\<rparr> p = (r, d) \<Longrightarrow>
    field_step E R k i c r d"
| payload_tag: "cat R k = TaggedField t P \<Longrightarrow> field_step E R k i c (outcome (read_tag E R t (access_layout (ri_name R)) id i)) c"
| payload_copy_out: "cat R k = TaggedField t P \<Longrightarrow> read_tag E R t (access_layout (ri_name R)) id i = Ok tag \<Longrightarrow>
    field_step E R k i c (outcome (tagged_copy_into P \<lparr>sel_tag = tag, sel_payload = c\<rparr>)) c"
| variant_read: "cat R k = TaggedField t (tagged_support E nm vs) \<Longrightarrow> read_tag E R t (access_layout (ri_name R)) id i = Ok tag \<Longrightarrow>
    payload_ok E vs \<Longrightarrow> va \<in> set vs \<Longrightarrow> field_step E R k i c (outcome (variant_get E va \<lparr>sel_tag = tag, sel_payload = c\<rparr>)) c"
| variant_take: "cat R k = TaggedField t (tagged_support E nm vs) \<Longrightarrow> read_tag E R t (access_layout (ri_name R)) id i = Ok tag \<Longrightarrow>
    payload_ok E vs \<Longrightarrow> va \<in> set vs \<Longrightarrow> field_step E R k i c (outcome (variant_get_mut E va \<lparr>sel_tag = tag, sel_payload = c\<rparr>)) c"
| variant: "cat R k = TaggedField t (tagged_support E nm vs) \<Longrightarrow> read_tag E R t (access_layout (ri_name R)) id i = Ok tag \<Longrightarrow>
    payload_ok E vs \<Longrightarrow> va \<in> set vs \<Longrightarrow> va_shape va = Some S \<Longrightarrow>
    variant_get_mut E va \<lparr>sel_tag = tag, sel_payload = c\<rparr> = Ok (Some (Some x)) \<Longrightarrow> cap_step E S x r y \<Longrightarrow>
    field_step E R k i c r (write_back 0 y c)"
| option_set: "cat R k = OptionalField x \<Longrightarrow> (\<And>y. v = Some y \<Longrightarrow> inner_val_ok x y) \<Longrightarrow>
    option_mut_set E (option_of E (ri_name R) (fi_name (fld R k)) x (fi_align (fld R k))) c v = (r, d) \<Longrightarrow> field_step E R k i c r d"
| option_get: "cat R k = OptionalField x \<Longrightarrow>
    field_step E R k i c (outcome (option_mut_get E (option_of E (ri_name R) (fi_name (fld R k)) x (fi_align (fld R k))) c)) c"
| option_take: "cat R k = OptionalField x \<Longrightarrow>
    field_step E R k i c (outcome (option_mut_get_mut E (option_of E (ri_name R) (fi_name (fld R k)) x (fi_align (fld R k))) c)) c"
| option_path: "cat R k = OptionalField (OptPath S) \<Longrightarrow>
    option_mut_get_mut E (option_of E (ri_name R) (fi_name (fld R k)) (OptPath S) (fi_align (fld R k))) c = Ok (Some x) \<Longrightarrow>
    cap_step E S x r y \<Longrightarrow> field_step E R k i c r (write_back (value_offset (ss_wire S) (fi_align (fld R k))) y c)"
| option_array: "cat R k = OptionalField (OptArray n S) \<Longrightarrow>
    option_mut_get_mut E (option_of E (ri_name R) (fi_name (fld R k)) (OptArray n S) (fi_align (fld R k))) c = Ok (Some x) \<Longrightarrow>
    array_step E (ri_name R) (fi_name (fld R k)) [n] n (PathElem S) x r y \<Longrightarrow>
    field_step E R k i c r (write_back (value_offset (array_layout n (ss_wire S)) (fi_align (fld R k))) y c)"
| of_array: "cat R k = ArrayField n e \<Longrightarrow>
    array_step E (ri_name R) (fi_name (fld R k)) (n # element_dims e) n e c r d \<Longrightarrow> field_step E R k i c r d"

| elem_set: "elem_val_ok e v \<Longrightarrow>
    array_mut_set E (elem_of E nm f dims e) n \<lparr>am_input = c, am_base = base\<rparr> index v = (r, h) \<Longrightarrow> array_step E nm f dims n e c r (am_input h)"
| elems_copy_from: "\<forall>v \<in> set vs. elem_val_ok e v \<Longrightarrow>
    array_mut_copy_from E (elem_of E nm f dims e) n \<lparr>am_input = c, am_base = base\<rparr> vs = (r, h) \<Longrightarrow> array_step E nm f dims n e c r (am_input h)"
| elem_get: "array_step E nm f dims n e c (outcome (array_mut_get E (elem_of E nm f dims e) n \<lparr>am_input = c, am_base = base\<rparr> index)) c"
| elem_take: "array_step E nm f dims n e c (outcome (array_mut_get_mut E (elem_of E nm f dims e) n \<lparr>am_input = c, am_base = base\<rparr> index)) c"
| elems_copy_out: "array_step E nm f dims n e c (outcome (array_mut_copy_into E (elem_of E nm f dims e) n \<lparr>am_input = c, am_base = base\<rparr>)) c"
| elem_child: "index < n \<Longrightarrow> array_mut_get_mut E (elem_of E nm f dims e) n \<lparr>am_input = c, am_base = base\<rparr> index = Ok (Some x) \<Longrightarrow>
    elem_step E nm f dims e x r y \<Longrightarrow> array_step E nm f dims n e c r (write_back (index * wl_size (element_wire E e)) y c)"

| elem_leaf_set: "leaf_val_ok l x \<Longrightarrow> leaf_handle_set E (elem_handle_errors nm f dims) l c x = (r, d) \<Longrightarrow>
    elem_step E nm f dims (LeafElem l) c r d"
| elem_leaf_get: "elem_step E nm f dims (LeafElem l) c (outcome (leaf_handle_get E (elem_handle_errors nm f dims) l c)) c"
| elem_leaf_clear: "is_string l \<Longrightarrow> elem_step E nm f dims (LeafElem l) c (Ok ()) (string_mut_clear c)"
| elem_path: "cap_step E S c r d \<Longrightarrow> elem_step E nm f dims (PathElem S) c r d"
| elem_row: "array_step E nm f dims n e c r d \<Longrightarrow> elem_step E nm f dims (RowElem n e) c r d"

text \<open>What a caller may rely on after a step: no panic, an error changes nothing, and the span keeps its invariant.\<close>

definition safe_step :: "(input \<Rightarrow> bool) \<Rightarrow> input \<Rightarrow> (schema_error, unit) res \<Rightarrow> input \<Rightarrow> bool" where
  "safe_step valid i r j \<longleftrightarrow> r \<noteq> Panic \<and> (\<forall>e. r = Err e \<longrightarrow> j = i) \<and> same_span i j \<and> valid j"

section \<open>Handles keep their invariant\<close>

lemma safe_stepI [intro?]:
  "r \<noteq> Panic \<Longrightarrow> (\<And>e. r = Err e \<Longrightarrow> j = i) \<Longrightarrow> same_span i j \<Longrightarrow> valid j \<Longrightarrow> safe_step valid i r j"
  by (simp add: safe_step_def)

lemma safe_step_same: "r \<noteq> Panic \<Longrightarrow> valid i \<Longrightarrow> safe_step valid i r i"
  by (simp add: safe_step_def same_span_def)

lemma safe_step_mono: "safe_step P i r j \<Longrightarrow> (same_span i j \<Longrightarrow> P j \<Longrightarrow> Q j) \<Longrightarrow> safe_step Q i r j"
  by (simp add: safe_step_def)

lemma outcome_Ok [simp]: "outcome (Ok x) = Ok ()"
  by (simp add: outcome_def)

lemma observe_safe: "\<exists>x. q = Ok x \<Longrightarrow> valid i \<Longrightarrow> safe_step valid i (outcome q) i"
  using safe_step_same by force

text \<open>A step through a child span is a step of its parent.\<close>

lemma safe_step_child:
  assumes "safe_step P (sub_input w offset i) r d" "offset + wl_size w \<le> length (i_bytes i)"
    and "same_span (sub_input w offset i) d \<Longrightarrow> P d \<Longrightarrow> Q (write_back offset d i)"
  shows "safe_step Q i r (write_back offset d i)"
  using assms write_back_same_span [of w offset i d] write_back_id [OF assms(2)] by (auto simp: safe_step_def)

lemma leaf_handle_set_eq: "env_ok E \<Longrightarrow> input_ok E c \<Longrightarrow> leaf_handle_set E er l c x = scalar_mut_set E (leaf_adapter E er l) c x"
  by (cases l) (simp_all add: leaf_handle_set_def handle_ops_agree string_set_agrees)

lemma leaf_set_safe:
  assumes "env_ok E" "input_ok E c" "i_wire c = leaf_wire E l" "leaf_val_ok l x" "leaf_handle_set E er l c x = (r, d)"
    "\<exists>v. leaf_read E er' l c = Ok v"
  shows "safe_step (\<lambda>d. \<exists>v. leaf_read E er' l d = Ok v) c r d"
proof -
  have set: "scalar_mut_set E (leaf_adapter E er l) c x = (r, d)" using assms(5) leaf_handle_set_eq [OF assms(1,2)] by simp
  show ?thesis
  proof (cases r)
    case (Ok u)
    then have "same_span c d" "leaf_read E er l d = Ok x"
      using leaf.set_cases [OF assms(1-4) refl, of er] set by (auto simp: scalar_mut_set_def leaf_adapter_def)
    then show ?thesis using Ok leaf_read_errors [of E er l d x er'] by (auto simp: safe_step_def)
  next
    case (Err e)
    then show ?thesis using leaf.set_correct [OF assms(1-4), of er] set assms(6) by (auto intro: safe_step_same)
  next
    case Panic
    then show ?thesis using leaf.set_correct [OF assms(1-4), of er] set by auto
  qed
qed

lemma leaf_handle_get_eq: "leaf_handle_get E er l c = scalar_mut_get E (leaf_adapter E er l) c"
  by (cases l) (simp_all add: leaf_handle_get_def handle_ops_agree)

lemma leaf_get_safe:
  assumes "env_ok E" "input_ok E c" "\<exists>v. leaf_read E er' l c = Ok v"
  shows "safe_step (\<lambda>d. \<exists>v. leaf_read E er l d = Ok v) c (outcome (leaf_handle_get E er l c)) c"
proof -
  have "\<exists>v. leaf_read E er l c = Ok v" using assms(3) leaf_read_errors [of E er' l c _ er] by blast
  then show ?thesis
    using assms(1,2) by (auto simp: leaf_handle_get_eq scalar_mut_get_def leaf_adapter_def shared_Ok intro!: observe_safe)
qed

lemma leaf_clear_safe:
  assumes "env_ok E" "input_ok E c" "i_wire c = leaf_wire E l" "leaf_ok l"
  shows "safe_step (\<lambda>d. \<exists>v. leaf_read E er l d = Ok v) c (Ok ()) (string_mut_clear c)"
proof -
  have "input_ok E (clear_all c)" "i_wire (clear_all c) = leaf_wire E l"
    using assms(2,3) same_span_input_ok [OF same_span_clear_all] by (auto simp: clear_all_def)
  then show ?thesis using leaf_read_zero [OF assms(1) _ _ assms(4)] by (simp add: safe_step_def string_mut_clear_def)
qed

lemma enum_set_safe:
  assumes "env_ok E" "enum_ok D" "input_ok E i" "i_wire i = enum_wire E D" "d \<in> set (en_discs D)" "enum_mut_set E D i d = (r, j)"
  shows "safe_step (\<lambda>j. enum_validate E D j = Ok ()) i r j"
proof -
  obtain k where k: "enum_commit E D i d = Ok k" "same_span i k" "enum_of E D k = d"
    using enum_commit_Ok [OF assms(1,3,4,2,5)] by blast
  then have "input_ok E k" "i_wire k = enum_wire E D"
    using assms(3,4) by (auto intro: same_span_input_ok dest: same_span_wire)
  then show ?thesis
    using assms k by (auto simp: safe_step_def enum_mut_set_def preflighted_def reborrow_Ok enum_validate_eq)
qed

lemma clear_safe:
  assumes "env_ok E" "generated E S" "input_ok E i" "i_wire i = ss_wire S" "ss_clear_state S = ZeroValid"
  shows "safe_step (\<lambda>j. ss_validate S j = Ok ()) i (Ok ()) (record_clear i)"
proof -
  have "input_ok E (clear_all i)" "i_wire (clear_all i) = ss_wire S"
    using same_span_input_ok [OF same_span_clear_all assms(3)] same_span_wire [OF same_span_clear_all, of i] assms(4) by simp_all
  then show ?thesis
    using gen.zero_exact [OF conjI [OF assms(1,2)]] gen.clear_state_sound [OF conjI [OF assms(1,2)] assms(5)]
    by (simp add: safe_step_def record_clear_def)
qed

lemma copy_from_safe:
  assumes "env_ok E" "generated E S" "input_ok E i" "i_wire i = ss_wire S" "pa_ok (ss_patch S) p" "ss_copy_from E S i p = (r, j)"
    "ss_validate S i = Ok ()"
  shows "safe_step (\<lambda>j. ss_validate S j = Ok ()) i r j"
  using gen_patch.copy_from_law [OF conjI [OF assms(1,2)] assms(3-5)] assms(6,7)
  by (cases r) (auto simp: safe_step_def same_span_def)

subsection \<open>Fields of a record\<close>

text \<open>The invariant of a field handle over a record: writing it back leaves the field proved.\<close>

abbreviation "handle_span E R k i \<equiv> sub_input (handle_wire E R k) (handle_offset E R k) i"

definition handle_valid :: "env \<Rightarrow> record_ir \<Rightarrow> nat \<Rightarrow> input \<Rightarrow> input \<Rightarrow> bool" where
  "handle_valid E R k i d \<longleftrightarrow> proof_field E R k (write_back (handle_offset E R k) d i) = Ok ()"

lemma handle_span_eqs:
  "\<forall>x. cat R k \<noteq> OptionalField x \<Longrightarrow> handle_span E R k i = vspan E R k i"
  "cat R k = OptionalField x \<Longrightarrow> handle_span E R k i = seg E R k i"
  by (auto simp: handle_wire_def handle_offset_def split: category.splits)

lemma handle_validI:
  assumes "record_ok E R" "record_input E R i" "k < field_count R" "same_span (handle_span E R k i) d"
    and "\<And>j. record_input E R j \<Longrightarrow> handle_span E R k j = d \<Longrightarrow>
      (\<And>t. t < field_count R \<Longrightarrow> t \<noteq> k \<Longrightarrow> seg E R t j = seg E R t i) \<Longrightarrow> proof_field E R k j = Ok ()"
  shows "handle_valid E R k i d"
  unfolding handle_valid_def using handle_write [OF assms(1-4)] assms(5) by blast

text \<open>A field whose proof is a predicate of its own span.\<close>

lemma local_field_safe:
  assumes "record_ok E R" "record_input E R i" "k < field_count R" "safe_step Q (handle_span E R k i) r d"
    and "\<And>j. record_input E R j \<Longrightarrow> Q (handle_span E R k j) \<Longrightarrow> proof_field E R k j = Ok ()"
  shows "safe_step (handle_valid E R k i) (handle_span E R k i) r d"
  using assms(4) by (rule safe_step_mono) (use assms(5) in \<open>auto intro: handle_validI [OF assms(1-3)]\<close>)

lemma leaf_field_safe:
  assumes "record_ok E R" "record_input E R i" "k < field_count R" "cat R k = LeafField l"
    and "safe_step (\<lambda>d. \<exists>v. leaf_read E (field_errors (ri_name R) (fi_name (fld R k))) l d = Ok v) (handle_span E R k i) r d"
  shows "safe_step (handle_valid E R k i) (handle_span E R k i) r d"
  using assms(5) by (rule local_field_safe [OF assms(1-3)])
    (use leaf_field_eqs(1) [OF assms(1) _ assms(3,4)] handle_span_eqs(1) [of R k E] assms(4) in auto)

lemma path_field_safe:
  assumes "record_ok E R" "record_input E R i" "k < field_count R" "cat R k = PathField S"
    and "safe_step (\<lambda>d. ss_validate S d = Ok ()) (handle_span E R k i) r d"
  shows "safe_step (handle_valid E R k i) (handle_span E R k i) r d"
  using assms(5) by (rule local_field_safe [OF assms(1-3)])
    (use path_field_eqs(3) [OF assms(1) _ assms(3,4)] handle_span_eqs(1) [of R k E] assms(4) in auto)

lemma array_field_safe:
  assumes "record_ok E R" "record_input E R i" "k < field_count R" "cat R k = ArrayField n e" "element_ok E e"
    and "safe_step (array_proved E (elem_of E (ri_name R) (fi_name (fld R k)) (n # element_dims e) e) n) (handle_span E R k i) r d"
  shows "safe_step (handle_valid E R k i) (handle_span E R k i) r d"
  using assms(6) by (rule local_field_safe [OF assms(1-3)])
    (use array_field_contract(5) [OF assms(1) _ assms(3-5)] handle_span_eqs(1) [of R k E] assms(4) in auto)

lemma optional_field_iff:
  assumes "record_ok E R" "record_input E R i" "k < field_count R" "cat R k = OptionalField x"
  defines "A \<equiv> option_of E (ri_name R) (fi_name (fld R k)) x (fi_align (fld R k))"
  shows "option_contract E True A (inner_val_ok x) (\<lambda>r v. inner_value E (ri_name R) (fi_name (fld R k)) x r = Ok v)"
    "input_ok E (handle_span E R k i)" "i_wire (handle_span E R k i) = op_storage A"
    "proof_field E R k i = Ok () \<longleftrightarrow> option_proved E A (handle_span E R k i)"
proof -
  note sel = select_field [OF assms(1-3)]
  have h: "handle_span E R k i = seg E R k i" using handle_span_eqs(2) [OF assms(4)] .
  show "option_contract E True A (inner_val_ok x) (\<lambda>r v. inner_value E (ri_name R) (fi_name (fld R k)) x r = Ok v)"
    unfolding A_def using option_of_contract [OF record_okD(1,3) [OF assms(1)]] assms(3) optional_storage(2) [OF assms(1-4)] by blast
  show ok: "input_ok E (handle_span E R k i)" unfolding h by (rule sel(2))
  show w: "i_wire (handle_span E R k i) = op_storage A" unfolding h using assms(4) by (simp add: field_wire_def A_def)
  have "option_value A (seg E R k i) = vspan E R k i"
    using vspan_of_seg [OF assms(1,3)] assms(4) by (simp add: option_value_def A_def)
  then show "proof_field E R k i = Ok () \<longleftrightarrow> option_proved E A (handle_span E R k i)"
    using optional_field_eqs(1) [OF assms(1-4)] ok w unfolding h by (auto simp: option_proved_def A_def)
qed

lemma optional_field_safe:
  assumes "record_ok E R" "record_input E R i" "k < field_count R" "cat R k = OptionalField x"
    and "safe_step (option_proved E (option_of E (ri_name R) (fi_name (fld R k)) x (fi_align (fld R k)))) (handle_span E R k i) r d"
  shows "safe_step (handle_valid E R k i) (handle_span E R k i) r d"
  using assms(5) by (rule local_field_safe [OF assms(1-3)]) (use optional_field_iff(4) [OF assms(1) _ assms(3,4)] in blast)

lemma option_set_safe:
  assumes "option_contract E True A val_ok shows_val" "option_proved E A c" "\<And>y. v = Some y \<Longrightarrow> val_ok y"
    "option_mut_set E A c v = (r, d)"
  shows "safe_step (option_proved E A) c r d"
proof -
  have c: "input_ok E c" "i_wire c = op_storage A" using assms(2) by (simp_all add: option_proved_def)
  show ?thesis
  proof (cases v)
    case None
    then show ?thesis
      using option_contract.set_none(1,2) [OF assms(1) TrueI c] assms(4) by (auto simp: safe_step_def)
  next
    case (Some y)
    then show ?thesis
      using option_contract.set_some [OF assms(1) TrueI c assms(3) [OF Some]] assms(2,4)
      by (cases r) (auto simp: safe_step_def same_span_def)
  qed
qed

lemma option_child_safe:
  assumes "option_contract E True A val_ok shows_val" "option_proved E A c" "option_mut_get_mut E A c = Ok (Some x)"
    "input_ok E x \<Longrightarrow> i_wire x = op_value A \<Longrightarrow> op_validate A x = Ok () \<Longrightarrow> safe_step (\<lambda>y. op_validate A y = Ok ()) x r y"
  shows "safe_step (option_proved E A) c r (write_back (op_offset A) y c)"
proof -
  have c: "input_ok E c" "i_wire c = op_storage A" using assms(2) by (simp_all add: option_proved_def)
  note sel = option_contract.select [OF assms(1) TrueI c]
  have x: "x = option_value A c" "\<not> is_all_zero c"
    using option_contract.get_of_proved(2) [OF assms(1) TrueI assms(2)] assms(3) by (auto split: if_splits)
  then have "op_validate A x = Ok ()" using assms(2) by (simp add: option_proved_def)
  then have "safe_step (\<lambda>y. op_validate A y = Ok ()) (option_value A c) r y" using assms(4) sel(2,3) x(1) by simp
  then show ?thesis
    unfolding option_value_def
    by (rule safe_step_child [OF _ sel(4)]) (rule option_contract.present_write_back(1) [OF assms(1) TrueI c], unfold option_value_def)
qed

subsection \<open>Arrays\<close>

lemma elem_stride_of: "el_stride (elem_of E nm f dims e) = wl_size (element_wire E e)"
  by (induction e) (simp_all add: relabel_def leaf_elem_adapter_def path_elem_adapter_def nested_adapter_def)

lemma elem_set_safe:
  assumes "element_contract E True A val_ok shows_val" "array_proved E A n c" "val_ok v"
    "array_mut_set E A n \<lparr>am_input = c, am_base = base\<rparr> index v = (r, h)"
  shows "safe_step (array_proved E A n) c r (am_input h)"
  using element_contract.set_cases [OF assms(1) TrueI, of n "\<lparr>am_input = c, am_base = base\<rparr>" v index] assms(2-4)
  by (cases r) (auto simp: safe_step_def same_span_def)

lemma elems_copy_from_safe:
  assumes "element_contract E True A val_ok shows_val" "array_proved E A n c" "\<forall>v \<in> set vs. val_ok v"
    "array_mut_copy_from E A n \<lparr>am_input = c, am_base = base\<rparr> vs = (r, h)"
  shows "safe_step (array_proved E A n) c r (am_input h)"
  using element_contract.copy_from_cases [OF assms(1) TrueI, of n "\<lparr>am_input = c, am_base = base\<rparr>" vs] assms(2-4)
  by (cases r) (auto simp: safe_step_def same_span_def)

lemma elem_child_safe:
  assumes "element_contract E True A val_ok shows_val" "array_proved E A n c" "index < n"
    "array_mut_get_mut E A n \<lparr>am_input = c, am_base = base\<rparr> index = Ok (Some x)"
    "input_ok E x \<Longrightarrow> i_wire x = el_wire A \<Longrightarrow> el_prove A index x = Ok () \<Longrightarrow> safe_step (\<lambda>y. el_prove A index y = Ok ()) x r y"
  shows "safe_step (array_proved E A n) c r (write_back (index * el_stride A) y c)"
proof -
  have c: "input_ok E c" "i_wire c = array_layout n (el_wire A)" using assms(2) by (simp_all add: array_proved_def)
  have lay: "element_layout E True A" using assms(1) by (simp add: element_contract_def)
  have x: "x = array_elem A c index"
    using element_contract.get_mut_of_proved [OF assms(1) TrueI, of n "\<lparr>am_input = c, am_base = base\<rparr>" index] assms(2-4) by simp
  have "safe_step (\<lambda>y. el_prove A index y = Ok ()) (array_elem A c index) r y"
    using assms(5) element_contract.proved_elem [OF assms(1) TrueI assms(2,3)] x by simp
  then show ?thesis
    unfolding array_elem_def
    by (rule safe_step_child [OF _ element_layout.select(5) [OF lay TrueI c assms(3)]])
      (rule element_contract.elem_write_back(1) [OF assms(1) TrueI assms(2,3)], unfold array_elem_def)
qed

lemma row_prove_of:
  assumes "env_ok E" "element_ok E e" "input_ok E c" "i_wire c = array_layout n (element_wire E e)"
  shows "el_prove (elem_of E nm f dims (RowElem n e)) k c = Ok () \<longleftrightarrow> array_proved E (elem_of E nm f dims e) n c"
proof -
  have "nested_elements E True (elem_of E nm f dims e) (elem_val_ok e) (\<lambda>r v. elem_value E nm f dims e r = Ok v)"
    using elem_contract [OF assms(1,2)] by (simp add: nested_elements_def)
  from nested_elements.row_prove_iff(1) [OF this TrueI assms(3), of n k] show ?thesis
    using assms(4) by (simp add: relabel_def nested_adapter_def)
qed

subsection \<open>Tagged payloads\<close>

text \<open>The tag a proved payload handle carries, and the field's proof as the payload's.\<close>

lemma tagged_handle:
  assumes "record_ok E R" "record_input E R i" "k < field_count R" "cat R k = TaggedField t P" "proof_field E R k i = Ok ()"
    "read_tag E R t (access_layout (ri_name R)) id i = Ok tag"
  shows "input_ok E (handle_span E R k i)" "i_wire (handle_span E R k i) = ps_wire P"
    "ps_validate_selected P tag (handle_span E R k i) = Ok ()"
    "safe_step (\<lambda>d. ps_validate_selected P tag d = Ok ()) (handle_span E R k i) r d \<Longrightarrow>
       safe_step (handle_valid E R k i) (handle_span E R k i) r d"
proof -
  obtain D where D: "t < field_count R" "cat R t = PathField (enum_support E D)"
    using record_okD(4) [OF assms(1,3)] assms(4) by auto
  have tk: "t \<noteq> k" using assms(4) D(2) by auto
  note sel = select_field [OF assms(1-3)]
  have h: "handle_span E R k j = vspan E R k j" for j using handle_span_eqs(1) [of R k E] assms(4) by simp
  have tag: "tag = tag_at E R D t i" "tag \<in> set (en_discs D)"
    using assms(6) read_tag_eq [OF assms(1,2) D] by (auto split: if_splits)
  show "input_ok E (handle_span E R k i)" "i_wire (handle_span E R k i) = ps_wire P"
    unfolding h using sel(4) assms(4) by simp_all
  show "ps_validate_selected P tag (handle_span E R k i) = Ok ()"
    unfolding h tag(1) using tagged_field_eqs(3) [OF assms(1-4) D(2,1)] assms(5) by blast
  assume step: "safe_step (\<lambda>d. ps_validate_selected P tag d = Ok ()) (handle_span E R k i) r d"
  then show "safe_step (handle_valid E R k i) (handle_span E R k i) r d"
  proof (rule safe_step_mono)
    assume d: "same_span (handle_span E R k i) d" "ps_validate_selected P tag d = Ok ()"
    show "handle_valid E R k i d"
    proof (rule handle_validI [OF assms(1-3) d(1)])
      fix j assume j: "record_input E R j" "handle_span E R k j = d" "\<And>s. s < field_count R \<Longrightarrow> s \<noteq> k \<Longrightarrow> seg E R s j = seg E R s i"
      have "vspan E R t j = vspan E R t i" by (rule same_vspan [OF assms(1) D(1) j(3) [OF D(1) tk]])
      then show "proof_field E R k j = Ok ()"
        using tagged_field_eqs(3) [OF assms(1) j(1) assms(3,4) D(2,1)] d(2) tag j(2) h by simp
    qed
  qed
qed

lemma payload_copy_from_safe:
  assumes "payload_patch_contract E True P" "env_ok E" "input_ok E c" "i_wire c = ps_wire P" "ps_validate_selected P tag c = Ok ()"
    "pa_ok (ps_patch P) p" "tagged_copy_from E P \<lparr>sel_tag = tag, sel_payload = c\<rparr> p = (r, d)"
  shows "safe_step (\<lambda>d. ps_validate_selected P tag d = Ok ()) c r d"
proof -
  obtain t where t: "ps_patch_tag P p = Ok t" using payload_patch_contract.patch_tag_total [OF assms(1) TrueI assms(6)] by blast
  show ?thesis
  proof (cases "t = tag")
    case True
    then have rdy: "ps_patch_tag P p = Ok tag" "ready Replace (ps_validate_selected P tag c)" using t assms(5) by simp_all
    have total: "pa_preflight (ps_patch P) Replace c p \<noteq> Panic"
      using payload_patch_contract.patch_total [OF assms(1) TrueI assms(3,4,6) rdy] .
    have "\<exists>e v. pa_commit (ps_patch P) Replace c p = Ok e \<and> same_span c e \<and> ps_validate_selected P tag e = Ok ()"
      if "pa_preflight (ps_patch P) Replace c p = Ok ()"
      using payload_patch_contract.patch_law [OF assms(1) TrueI assms(3,4,6) rdy _ that] by blast
    then show ?thesis
      using total assms(2,3,5,7) rdy(1)
      by (cases "pa_preflight (ps_patch P) Replace c p")
        (auto simp: tagged_copy_from_def preflighted_def ps_preflight_patch_def shared_Ok reborrow_Ok safe_step_def same_span_def)
  next
    case False
    then show ?thesis
      using assms(5,7) t by (auto simp: tagged_copy_from_def preflighted_def safe_step_def same_span_def)
  qed
qed

lemma variant_child_safe:
  assumes "payload_ok E vs" "va \<in> set vs" "va_shape va = Some S" "input_ok E c" "i_wire c = payload_wire E vs"
    "payload_validate E nm vs tag c = Ok ()" "variant_get_mut E va \<lparr>sel_tag = tag, sel_payload = c\<rparr> = Ok (Some (Some x))"
    "input_ok E x \<Longrightarrow> i_wire x = ss_wire S \<Longrightarrow> ss_validate S x = Ok () \<Longrightarrow> safe_step (\<lambda>y. ss_validate S y = Ok ()) x r y"
  shows "safe_step (\<lambda>d. payload_validate E nm vs tag d = Ok ()) c r (write_back 0 y c)"
proof -
  note ch = child_span_ok [OF assms(1,4,5,2,3)] and E = payload_okD(1) [OF assms(1)]
  obtain k where k: "k < length vs" "vs ! k = va" using assms(2) by (auto simp: in_set_conv_nth)
  have tag: "tag = va_tag (vs ! k)" using assms(7) k(2) by (auto simp: variant_get_mut_def split: if_splits)
  have iff: "payload_validate E nm vs tag j = Ok () \<longleftrightarrow> ss_validate S (child_span S j) = Ok ()"
    if "input_ok E j" "i_wire j = payload_wire E vs" for j
    using payload_validate_iff(1) [OF assms(1) that k(1)] k(2) assms(3) tag by simp
  have valid: "ss_validate S (child_span S c) = Ok ()" using iff [OF assms(4,5)] assms(6) by simp
  have "x = child_span S c"
    using assms(3,7) ch(1,2) tag k(2) E valid by (simp add: variant_get_mut_def subrange_mut_eq ss_prove_mut_def shared_Ok)
  then have "safe_step (\<lambda>y. ss_validate S y = Ok ()) (child_span S c) r y" using assms(8) ch(2) valid by simp
  then show ?thesis
  proof (rule safe_step_child)
    assume y: "same_span (child_span S c) y" "ss_validate S y = Ok ()"
    have b: "0 + wl_size (ss_wire S) \<le> length (i_bytes c)" using ch(3) by simp
    have "same_span c (write_back 0 y c)" using y(1) b by (rule write_back_same_span)
    then have "input_ok E (write_back 0 y c)" "i_wire (write_back 0 y c) = payload_wire E vs"
      using assms(4,5) by (auto intro: same_span_input_ok dest: same_span_wire)
    then show "payload_validate E nm vs tag (write_back 0 y c) = Ok ()"
      using iff sub_input_write_back [OF y(1) b] y(2) by simp
  qed (use ch(3) in simp)
qed

section \<open>No step leaves the schema\<close>

lemma declared_generated:
  assumes "declared E R" "env_ok E"
  shows "generated E (record_support E R)" "record_ok E R"
proof -
  show "generated E (record_support E R)" using assms(1) by (intro of_record) (simp_all add: declared_def)
  show "record_ok E R"
    using assms generated_contracts by (intro record_ok_of_children) (auto simp: declared_def)
qed

definition live :: "env \<Rightarrow> schema_support \<Rightarrow> input \<Rightarrow> bool" where
  "live E S i \<longleftrightarrow> input_ok E i \<and> i_wire i = ss_wire S \<and> ss_validate S i = Ok ()"

definition live_field :: "env \<Rightarrow> record_ir \<Rightarrow> nat \<Rightarrow> input \<Rightarrow> input \<Rightarrow> bool" where
  "live_field E R k i c \<longleftrightarrow> record_ok E R \<and> record_input E R i \<and> k < field_count R \<and> proof_field E R k i = Ok () \<and> c = handle_span E R k i"

lemma live_fieldD:
  assumes "live_field E R k i c"
  shows "record_ok E R" "record_input E R i" "k < field_count R" "proof_field E R k i = Ok ()" "c = handle_span E R k i"
    "env_ok E"
  using assms record_okD(1) by (auto simp: live_field_def)

lemma live_value:
  assumes "live_field E R k i c" "\<forall>x. cat R k \<noteq> OptionalField x"
  shows "c = vspan E R k i" "input_ok E c" "i_wire c = category_wire E (cat R k)"
  using live_fieldD [OF assms(1)] handle_span_eqs(1) [OF assms(2)] select_field(4) by auto

lemma member_safe:
  assumes "declared E R" "env_ok E" "k < field_count R" "\<not> is_external_tag_sibling R k" "field_mutator E R k i = Ok c"
    "live E (record_support E R) i" "live_field E R k i c \<Longrightarrow> safe_step (handle_valid E R k i) c r d"
  shows "safe_step (\<lambda>j. ss_validate (record_support E R) j = Ok ()) i r (write_back (handle_offset E R k) d i)"
proof -
  have i: "record_ok E R" "record_input E R i" "record_validate E R i = Ok ()"
    using assms(6) declared_generated(2) [OF assms(1,2)] by (auto simp: live_def)
  then have proved: "proof_field E R k i = Ok ()" using record_validate_iff(1) assms(3) by blast
  then have c: "c = handle_span E R k i" using field_mutator_proved [OF i(1,2) assms(3)] assms(5) by simp
  then have "safe_step (handle_valid E R k i) (handle_span E R k i) r d" using assms(3,7) i proved by (simp add: live_field_def)
  then show ?thesis
  proof (rule safe_step_child)
    have "field_fits (handle_wire E R k) (handle_offset E R k) (record_wire E R)"
      using field_fits_record [OF i(1) assms(3)] value_fits_record [OF i(1) assms(3)]
      by (auto simp: handle_wire_def handle_offset_def split: category.splits)
    then show "handle_offset E R k + wl_size (handle_wire E R k) \<le> length (i_bytes i)"
      using i(2) by (auto simp: field_fits_def input_ok_length)
    show "ss_validate (record_support E R) (write_back (handle_offset E R k) d i) = Ok ()"
      if "same_span (handle_span E R k i) d" "handle_valid E R k i d"
      using record_of_handle [OF i assms(3,4) that(1)] that(2) by (simp add: handle_valid_def)
  qed
qed

text \<open>The steps of each handle, given what holds of the steps of its children.\<close>

lemma leaf_set_step:
  assumes "live_field E R k i c" "cat R k = LeafField l" "leaf_val_ok l x"
    "leaf_handle_set E (field_errors (ri_name R) (fi_name (fld R k))) l c x = (r, d)"
  shows "safe_step (handle_valid E R k i) c r d"
proof -
  note D = live_fieldD [OF assms(1)] and c = live_value [OF assms(1)]
  have "\<exists>v. leaf_read E (field_errors (ri_name R) (fi_name (fld R k))) l c = Ok v"
    using leaf_field_eqs(1) [OF D(1-3) assms(2)] D(4) c(1) assms(2) by simp
  then show ?thesis
    using leaf_field_safe [OF D(1-3) assms(2)] leaf_set_safe [OF D(6) _ _ assms(3,4)] c(2,3) D(5) assms(2) by simp
qed

lemma live_handle_valid: "live_field E R k i c \<Longrightarrow> handle_valid E R k i c"
proof -
  assume live: "live_field E R k i c"
  note D = live_fieldD [OF live]
  have "field_fits (handle_wire E R k) (handle_offset E R k) (record_wire E R)"
    using field_fits_record [OF D(1,3)] value_fits_record [OF D(1,3)]
    by (auto simp: handle_wire_def handle_offset_def split: category.splits)
  then have "handle_offset E R k + wl_size (handle_wire E R k) \<le> length (i_bytes i)"
    using D(2) by (auto simp: field_fits_def input_ok_length)
  then show "handle_valid E R k i c" using D(4,5) by (simp add: handle_valid_def write_back_id)
qed

lemma observe_field: "live_field E R k i c \<Longrightarrow> \<exists>x. q = Ok x \<Longrightarrow> safe_step (handle_valid E R k i) c (outcome q) c"
  by (intro observe_safe live_handle_valid)

text \<open>No getter and no \<open>field_mut\<close> of a live record panics, and the handles it gives answer.\<close>

lemma live_member_reads:
  assumes "declared E R" "env_ok E" "k < field_count R" "live E (record_support E R) i"
  shows "\<exists>x. field_read E R k i = Ok x" "\<exists>c. field_mutator E R k i = Ok c"
proof -
  have i: "record_ok E R" "record_input E R i" "record_validate E R i = Ok ()"
    using assms(4) declared_generated(2) [OF assms(1,2)] by (auto simp: live_def)
  obtain v where "materialized_field E R k i = Ok v"
    using record_proved_reads [OF i] assms(3) by (auto simp: record_copy_into_def collect_Ok)
  then show "\<exists>x. field_read E R k i = Ok x"
    unfolding getter_materializes [OF i(1,2) assms(3)] by (cases "field_read E R k i") simp_all
  have "proof_field E R k i = Ok ()" using record_validate_iff(1) [OF i(1,2)] i(3) assms(3) by blast
  then show "\<exists>c. field_mutator E R k i = Ok c" using field_mutator_proved [OF i(1,2) assms(3)] by blast
qed

lemma leaf_get_step:
  assumes "live_field E R k i c" "cat R k = LeafField l"
  shows "safe_step (handle_valid E R k i) c (outcome (leaf_handle_get E (field_errors (ri_name R) (fi_name (fld R k))) l c)) c"
proof -
  note D = live_fieldD [OF assms(1)] and c = live_value [OF assms(1)]
  have "\<exists>v. leaf_read E (field_errors (ri_name R) (fi_name (fld R k))) l c = Ok v"
    using leaf_field_eqs(1) [OF D(1-3) assms(2)] D(4) c(1) assms(2) by simp
  then show ?thesis using leaf_field_safe [OF D(1-3) assms(2)] leaf_get_safe [OF D(6)] c(2) D(5) assms(2) by simp
qed

lemma payload_tag_read:
  assumes "live_field E R k i c" "cat R k = TaggedField t P"
  shows "\<exists>tag. read_tag E R t (access_layout (ri_name R)) id i = Ok tag"
proof -
  note D = live_fieldD [OF assms(1)]
  obtain F where F: "t < field_count R" "cat R t = PathField (enum_support E F)"
    using record_okD(4) [OF D(1,3)] assms(2) by auto
  then show ?thesis
    using tagged_field_eqs(3) [OF D(1-3) assms(2) F(2,1)] D(4) read_tag_eq [OF D(1,2) F] by simp
qed

lemma payload_copied_out:
  assumes "live_field E R k i c" "cat R k = TaggedField t P" "read_tag E R t (access_layout (ri_name R)) id i = Ok tag"
  shows "\<exists>v. tagged_copy_into P \<lparr>sel_tag = tag, sel_payload = c\<rparr> = Ok v"
proof -
  note D = live_fieldD [OF assms(1)]
  note h = tagged_handle [OF D(1-3) assms(2) D(4) assms(3)]
  have "payload_contract E True P" using record_okD(4) [OF D(1,3)] assms(2) by simp
  from payload_contract.validated_materializes [OF this TrueI h(1-3)] show ?thesis
    using h(3) D(5) by (auto simp: tagged_copy_into_def ref_prove_selected_def ref_materialize_def)
qed

lemma variant_accessors:
  assumes "live_field E R k i c" "cat R k = TaggedField t (tagged_support E nm vs)"
    "read_tag E R t (access_layout (ri_name R)) id i = Ok tag" "payload_ok E vs" "va \<in> set vs"
  shows "\<exists>x. variant_get E va \<lparr>sel_tag = tag, sel_payload = c\<rparr> = Ok x"
    "\<exists>x. variant_get_mut E va \<lparr>sel_tag = tag, sel_payload = c\<rparr> = Ok x"
proof -
  note D = live_fieldD [OF assms(1)]
  note h = tagged_handle [OF D(1-3) assms(2) D(4) assms(3)] and E = payload_okD(1) [OF assms(4)]
  obtain k where k: "k < length vs" "vs ! k = va" using assms(5) by (auto simp: in_set_conv_nth)
  have c: "input_ok E c" "i_wire c = payload_wire E vs" "payload_validate E nm vs tag c = Ok ()"
    using h(1-3) D(5) by (simp_all add: tagged_support_def)
  have child: "subrange E (ss_wire S) 0 c = Ok (child_span S c)" "ss_validate S (child_span S c) = Ok ()"
    "\<exists>r. ss_make_ref S (child_span S c) = Ok r" "input_ok E (child_span S c)"
    if "va_shape va = Some S" "tag = va_tag va" for S
  proof -
    note ch = child_span_ok [OF assms(4) c(1,2) assms(5) that(1)]
    show valid: "ss_validate S (child_span S c) = Ok ()"
      using payload_validate_iff(1) [OF assms(4) c(1,2) k(1), of nm] c(3) k(2) that by simp
    show "subrange E (ss_wire S) 0 c = Ok (child_span S c)" "input_ok E (child_span S c)" by (rule ch(1,2))+
    show "\<exists>r. ss_make_ref S (child_span S c) = Ok r"
      using schema_contract.proved_reads [OF ch(4) TrueI ch(2) _ valid] by auto
  qed
  show "\<exists>x. variant_get E va \<lparr>sel_tag = tag, sel_payload = c\<rparr> = Ok x"
    using child by (cases "va_shape va") (auto simp: variant_get_def ss_prove_def)
  show "\<exists>x. variant_get_mut E va \<lparr>sel_tag = tag, sel_payload = c\<rparr> = Ok x"
    using child E by (cases "va_shape va") (auto simp: variant_get_mut_def subrange_mut_eq ss_prove_mut_def shared_Ok)
qed

lemma option_accessors:
  assumes "live_field E R k i c" "cat R k = OptionalField x"
  defines "A \<equiv> option_of E (ri_name R) (fi_name (fld R k)) x (fi_align (fld R k))"
  shows "\<exists>r. option_mut_get E A c = Ok r" "\<exists>r. option_mut_get_mut E A c = Ok r"
proof -
  note D = live_fieldD [OF assms(1)]
  note opt = optional_field_iff [OF D(1-3) assms(2)]
  have "option_proved E A c" unfolding A_def using opt(4) D(4,5) by simp
  from option_contract.get_of_proved [OF opt(1) TrueI this [unfolded A_def]]
  show "\<exists>r. option_mut_get E A c = Ok r" "\<exists>r. option_mut_get_mut E A c = Ok r" unfolding A_def by blast+
qed

lemma element_accessors:
  assumes "element_contract E True A val_ok shows_val" "array_proved E A n c"
  shows "\<exists>r. array_mut_get E A n \<lparr>am_input = c, am_base = base\<rparr> index = Ok r"
    "\<exists>r. array_mut_get_mut E A n \<lparr>am_input = c, am_base = base\<rparr> index = Ok r"
    "\<exists>r. array_mut_copy_into E A n \<lparr>am_input = c, am_base = base\<rparr> = Ok r"
proof -
  note get = element_contract.get_of_proved [OF assms(1) TrueI assms(2)] and eq = element_contract.mut_get_eq [OF assms(1)]
  show "\<exists>r. array_mut_get E A n \<lparr>am_input = c, am_base = base\<rparr> index = Ok r"
    using get [of index] by (cases "index < n") (auto simp: eq)
  show "\<exists>r. array_mut_get_mut E A n \<lparr>am_input = c, am_base = base\<rparr> index = Ok r"
    using element_contract.get_mut_of_proved [OF assms(1) TrueI, of n "\<lparr>am_input = c, am_base = base\<rparr>" index] assms(2) by simp
  have "\<forall>k. k < n \<longrightarrow> (\<exists>r. array_ref_get E A n c k = Ok (Some r))" using get(1) by blast
  then obtain r where "k < n \<Longrightarrow> array_ref_get E A n c k = Ok (Some (r k))" for k by metis
  then show "\<exists>r. array_mut_copy_into E A n \<lparr>am_input = c, am_base = base\<rparr> = Ok r"
    by (intro exI [of _ "map r [0..<n]"]) (simp add: array_mut_copy_into_def collect_Ok eq)
qed

lemma leaf_clear_step:
  assumes "live_field E R k i c" "cat R k = LeafField l"
  shows "safe_step (handle_valid E R k i) c (Ok ()) (string_mut_clear c)"
proof -
  note D = live_fieldD [OF assms(1)] and c = live_value [OF assms(1)]
  have "leaf_ok l" using record_okD(4) [OF D(1,3)] assms(2) by simp
  then show ?thesis using leaf_field_safe [OF D(1-3) assms(2)] leaf_clear_safe [OF D(6)] c(2,3) D(5) assms(2) by simp
qed

lemma path_step:
  assumes "live_field E R k i c" "cat R k = PathField S" "live E S c \<Longrightarrow> safe_step (\<lambda>d. ss_validate S d = Ok ()) c r d"
  shows "safe_step (handle_valid E R k i) c r d"
proof -
  note D = live_fieldD [OF assms(1)] and c = live_value [OF assms(1)]
  have "live E S c" using path_field_eqs(3) [OF D(1-3) assms(2)] D(4) c assms(2) by (simp add: live_def)
  then show ?thesis using path_field_safe [OF D(1-3) assms(2)] assms(3) D(5) by simp
qed

lemma payload_copy_from_step:
  assumes "live_field E R k i c" "cat R k = TaggedField t P" "read_tag E R t (access_layout (ri_name R)) id i = Ok tag"
    "generated_payload E P" "pa_ok (ps_patch P) p" "tagged_copy_from E P \<lparr>sel_tag = tag, sel_payload = c\<rparr> p = (r, d)"
  shows "safe_step (handle_valid E R k i) c r d"
proof -
  note D = live_fieldD [OF assms(1)]
  note h = tagged_handle [OF D(1-3) assms(2) D(4) assms(3)]
  have "payload_patch_contract E True P" using generated_patches(2) [OF assms(4)] D(6) by simp
  then show ?thesis using h(4) payload_copy_from_safe [OF _ D(6) h(1-3) assms(5)] assms(6) D(5) by simp
qed

lemma variant_step:
  assumes "live_field E R k i c" "cat R k = TaggedField t (tagged_support E nm vs)"
    "read_tag E R t (access_layout (ri_name R)) id i = Ok tag" "payload_ok E vs" "va \<in> set vs" "va_shape va = Some S"
    "variant_get_mut E va \<lparr>sel_tag = tag, sel_payload = c\<rparr> = Ok (Some (Some x))"
    "live E S x \<Longrightarrow> safe_step (\<lambda>y. ss_validate S y = Ok ()) x r y"
  shows "safe_step (handle_valid E R k i) c r (write_back 0 y c)"
proof -
  note D = live_fieldD [OF assms(1)]
  note h = tagged_handle [OF D(1-3) assms(2) D(4) assms(3)]
  have "safe_step (\<lambda>d. payload_validate E nm vs tag d = Ok ()) (handle_span E R k i) r (write_back 0 y (handle_span E R k i))"
    by (rule variant_child_safe [where x = x, OF assms(4-6)])
      (use h(1-3) assms(7,8) D(5) in \<open>simp_all add: tagged_support_def live_def\<close>)
  then show ?thesis using h(4) D(5) by (simp add: tagged_support_def)
qed

lemma option_set_step:
  assumes "live_field E R k i c" "cat R k = OptionalField x" "\<And>y. v = Some y \<Longrightarrow> inner_val_ok x y"
    "option_mut_set E (option_of E (ri_name R) (fi_name (fld R k)) x (fi_align (fld R k))) c v = (r, d)"
  shows "safe_step (handle_valid E R k i) c r d"
proof -
  note D = live_fieldD [OF assms(1)]
  note opt = optional_field_iff [OF D(1-3) assms(2)]
  show ?thesis
    using optional_field_safe [OF D(1-3) assms(2)] option_set_safe [OF opt(1) _ assms(3,4)] opt(4) D(4,5) by simp
qed

lemma option_child_step:
  assumes "live_field E R k i c" "cat R k = OptionalField x"
    "option_mut_get_mut E (option_of E (ri_name R) (fi_name (fld R k)) x (fi_align (fld R k))) c = Ok (Some a)"
    "\<And>A. A = option_of E (ri_name R) (fi_name (fld R k)) x (fi_align (fld R k)) \<Longrightarrow> input_ok E a \<Longrightarrow> i_wire a = inner_wire x \<Longrightarrow>
       op_validate A a = Ok () \<Longrightarrow> safe_step (\<lambda>y. op_validate A y = Ok ()) a r y"
  shows "safe_step (handle_valid E R k i) c r (write_back (value_offset (inner_wire x) (fi_align (fld R k))) y c)"
proof -
  note D = live_fieldD [OF assms(1)]
  note opt = optional_field_iff [OF D(1-3) assms(2)]
  let ?A = "option_of E (ri_name R) (fi_name (fld R k)) x (fi_align (fld R k))"
  have "safe_step (option_proved E ?A) c r (write_back (op_offset ?A) y c)"
    by (rule option_child_safe [where x = a, OF opt(1)]) (use assms(3) assms(4) [OF refl] D(4,5) opt(4) in simp_all)
  then show ?thesis using optional_field_safe [OF D(1-3) assms(2)] D(5) by simp
qed

text \<open>Invariants that agree on checked spans have the same safe steps.\<close>

lemma safe_step_cong:
  assumes "safe_step P i r j" "input_ok E i" "i_wire i = w" "\<And>j. input_ok E j \<Longrightarrow> i_wire j = w \<Longrightarrow> P j \<longleftrightarrow> Q j"
  shows "safe_step Q i r j"
  using assms(1)
proof (rule safe_step_mono)
  assume "same_span i j" "P j"
  then show "Q j" using assms(4) [OF same_span_input_ok [OF _ assms(2)]] same_span_wire [of i j] assms(3) by simp
qed

lemma option_path_step:
  assumes "live_field E R k i c" "cat R k = OptionalField (OptPath S)"
    "option_mut_get_mut E (option_of E (ri_name R) (fi_name (fld R k)) (OptPath S) (fi_align (fld R k))) c = Ok (Some a)"
    "live E S a \<Longrightarrow> safe_step (\<lambda>y. ss_validate S y = Ok ()) a r y"
  shows "safe_step (handle_valid E R k i) c r (write_back (value_offset (ss_wire S) (fi_align (fld R k))) y c)"
  using option_child_step [OF assms(1-3), of r y] assms(4) by (simp add: option_of_def ss_prove_def live_def)

lemma option_array_step:
  assumes "live_field E R k i c" "cat R k = OptionalField (OptArray n S)"
    "option_mut_get_mut E (option_of E (ri_name R) (fi_name (fld R k)) (OptArray n S) (fi_align (fld R k))) c = Ok (Some a)"
  defines "B \<equiv> elem_of E (ri_name R) (fi_name (fld R k)) [n] (PathElem S)"
  assumes "element_ok E (PathElem S) \<Longrightarrow> array_proved E B n a \<Longrightarrow> safe_step (array_proved E B n) a r y"
  shows "safe_step (handle_valid E R k i) c r (write_back (value_offset (array_layout n (ss_wire S)) (fi_align (fld R k))) y c)"
proof -
  note D = live_fieldD [OF assms(1)]
  have S: "schema_contract E True S" using record_okD(4) [OF D(1,3)] assms(2) by simp
  have iff: "op_validate (option_of E (ri_name R) (fi_name (fld R k)) (OptArray n S) al) z = Ok () \<longleftrightarrow> array_proved E B n z"
    if "input_ok E z" "i_wire z = array_layout n (ss_wire S)" for z al
    using element_contract.ref_prove_iff [OF path_contract [OF S] TrueI that(1), of n "ri_name R" "fi_name (fld R k)" "[n]"] that(2)
    by (auto simp: option_of_def Let_def path_elem_adapter_def B_def)
  have "safe_step (handle_valid E R k i) c r (write_back (value_offset (inner_wire (OptArray n S)) (fi_align (fld R k))) y c)"
  proof (rule option_child_step [OF assms(1-3)])
    fix A assume A: "A = option_of E (ri_name R) (fi_name (fld R k)) (OptArray n S) (fi_align (fld R k))"
    assume a: "input_ok E a" "i_wire a = inner_wire (OptArray n S)" "op_validate A a = Ok ()"
    then have w: "i_wire a = array_layout n (ss_wire S)" by simp
    have "safe_step (array_proved E B n) a r y" using assms(5) S a(3) iff [OF a(1) w] A by simp
    then show "safe_step (\<lambda>y. op_validate A y = Ok ()) a r y"
      unfolding A by (rule safe_step_cong [OF _ a(1) w]) (simp add: iff)
  qed
  then show ?thesis by simp
qed

lemma array_field_step:
  assumes "live_field E R k i c" "cat R k = ArrayField n e"
  defines "B \<equiv> elem_of E (ri_name R) (fi_name (fld R k)) (n # element_dims e) e"
  assumes "element_ok E e \<Longrightarrow> array_proved E B n c \<Longrightarrow> safe_step (array_proved E B n) c r d"
  shows "safe_step (handle_valid E R k i) c r d"
proof -
  note D = live_fieldD [OF assms(1)] and c = live_value [OF assms(1)]
  have e: "element_ok E e" using record_okD(4) [OF D(1,3)] assms(2) by simp
  have "array_proved E B n c"
    using array_field_contract(5) [OF D(1-3) assms(2) e] D(4) c(1) assms(2) by (simp add: B_def)
  then show ?thesis using array_field_safe [OF D(1-3) assms(2) e] assms(4) D(5) e by (simp add: B_def)
qed

text \<open>An element's proof as a predicate of its span: readable leaves, valid children, proved rows.\<close>

lemma leaf_elem_iff:
  assumes "env_ok E" "input_ok E c" "i_wire c = leaf_wire E l"
  shows "el_prove (elem_of E nm f dims (LeafElem l)) k c = Ok () \<longleftrightarrow> (\<exists>v. leaf_read E er l c = Ok v)"
  using leaf_elem_prove_iff(1) [OF assms] by (simp add: relabel_def leaf_elem_adapter_def)

lemma path_elem_iff: "el_prove (elem_of E nm f dims (PathElem S)) k c = Ok () \<longleftrightarrow> ss_validate S c = Ok ()"
  by (auto simp: path_elem_adapter_def ss_prove_def)

lemma elem_leaf_step:
  assumes "env_ok E" "input_ok E c" "i_wire c = leaf_wire E l"
    "(\<exists>v. leaf_read E er l c = Ok v) \<Longrightarrow> safe_step (\<lambda>d. \<exists>v. leaf_read E er l d = Ok v) c r d"
    "el_prove (elem_of E nm f dims (LeafElem l)) k c = Ok ()"
  shows "safe_step (\<lambda>d. el_prove (elem_of E nm f dims (LeafElem l)) k d = Ok ()) c r d"
proof -
  have "safe_step (\<lambda>d. \<exists>v. leaf_read E er l d = Ok v) c r d"
    using assms(4,5) leaf_elem_iff [OF assms(1-3), of nm f dims k er] by blast
  then show ?thesis by (rule safe_step_cong [OF _ assms(2,3)]) (rule leaf_elem_iff [OF assms(1), symmetric])
qed

lemma elem_row_step:
  assumes "env_ok E" "element_ok E e" "input_ok E c" "i_wire c = array_layout n (element_wire E e)"
    "array_proved E (elem_of E nm f dims e) n c \<Longrightarrow> safe_step (array_proved E (elem_of E nm f dims e) n) c r d"
    "el_prove (elem_of E nm f dims (RowElem n e)) k c = Ok ()"
  shows "safe_step (\<lambda>d. el_prove (elem_of E nm f dims (RowElem n e)) k d = Ok ()) c r d"
proof -
  have "safe_step (array_proved E (elem_of E nm f dims e) n) c r d"
    using assms(5,6) row_prove_of [OF assms(1-4), of nm f dims k] by blast
  then show ?thesis by (rule safe_step_cong [OF _ assms(3,4)]) (simp only: row_prove_of [OF assms(1,2)])
qed

lemma steps_safe:
  "cap_step E S i r j \<Longrightarrow> env_ok E \<longrightarrow> live E S i \<longrightarrow> safe_step (\<lambda>j. ss_validate S j = Ok ()) i r j"
  "field_step E R k i c r d \<Longrightarrow> live_field E R k i c \<longrightarrow> safe_step (handle_valid E R k i) c r d"
  "array_step E nm f dims n e c r d \<Longrightarrow> env_ok E \<longrightarrow> element_ok E e \<longrightarrow> array_proved E (elem_of E nm f dims e) n c \<longrightarrow>
     safe_step (array_proved E (elem_of E nm f dims e) n) c r d"
  "elem_step E nm f dims e c r d \<Longrightarrow> env_ok E \<longrightarrow> element_ok E e \<longrightarrow> input_ok E c \<longrightarrow> i_wire c = element_wire E e \<longrightarrow>
     (\<forall>k. el_prove (elem_of E nm f dims e) k c = Ok () \<longrightarrow> safe_step (\<lambda>d. el_prove (elem_of E nm f dims e) k d = Ok ()) c r d)"
proof (induction rule: cap_step_field_step_array_step_elem_step.inducts)
  case (copy_from S p i r j)
  then show ?case using copy_from_safe by (simp add: live_def)
next
  case (clear R i)
  then show ?case using clear_safe [OF _ declared_generated(1)] unfolding live_def by blast
next
  case (enum_set D d i r j)
  then show ?case using enum_set_safe by (simp add: live_def enum_support_def)
next
  case (copy_out S i)
  then show ?case
    using gen.logical_of_proved [of _ S i] by (fastforce simp: live_def intro!: observe_safe)
next
  case (enum_read D i)
  then show ?case
    by (intro impI observe_safe) (auto simp: live_def enum_support_def enum_validate_eq enum_get_eq split: if_splits)
next
  case (member_get R k i)
  then show ?case using live_member_reads(1) by (auto simp: live_def intro!: observe_safe)
next
  case (member_take R k i)
  then show ?case using live_member_reads(2) by (auto simp: live_def intro!: observe_safe)
next
  case (member R k i c r d)
  then show ?case using member_safe by blast
next
  case (leaf_set R k l x c r d i)
  show ?case by (intro impI, rule leaf_set_step) (use leaf_set in simp_all)
next
  case (leaf_get R k l i c)
  then show ?case using leaf_get_step by blast
next
  case (leaf_clear R k l i c)
  show ?case by (intro impI, rule leaf_clear_step) (use leaf_clear in simp_all)
next
  case (path R k S c r d i)
  show ?case
    by (intro impI, rule path_step) (use path live_fieldD(6) in auto)
next
  case (payload_copy_from R k t P i tag p c r d)
  show ?case by (intro impI, rule payload_copy_from_step) (use payload_copy_from in simp_all)
next
  case (payload_tag R k t P i c)
  show ?case by (intro impI observe_field, assumption, rule payload_tag_read) (use payload_tag in simp_all)
next
  case (payload_copy_out R k t P i tag c)
  show ?case by (intro impI observe_field, assumption, rule payload_copied_out) (use payload_copy_out in simp_all)
next
  case (variant_read R k t nm vs i tag va c)
  show ?case by (intro impI observe_field, assumption, rule variant_accessors(1)) (use variant_read in simp_all)
next
  case (variant_take R k t nm vs i tag va c)
  show ?case by (intro impI observe_field, assumption, rule variant_accessors(2)) (use variant_take in simp_all)
next
  case (variant R k t nm vs i tag va S c x r y)
  show ?case
    by (intro impI, rule variant_step) (use variant live_fieldD(6) in auto)
next
  case (option_set R k x v c r d i)
  show ?case by (intro impI, rule option_set_step) (use option_set in simp_all)
next
  case (option_get R k x i c)
  show ?case by (intro impI observe_field, assumption, rule option_accessors(1)) (use option_get in simp_all)
next
  case (option_take R k x i c)
  show ?case by (intro impI observe_field, assumption, rule option_accessors(2)) (use option_take in simp_all)
next
  case (option_path R k S c x r y i)
  show ?case
    by (intro impI, rule option_path_step) (use option_path live_fieldD(6) in auto)
next
  case (option_array R k n S c x r y i)
  show ?case
    by (intro impI, rule option_array_step) (use option_array live_fieldD(6) in auto)
next
  case (of_array R k n e c r d i)
  show ?case
    by (intro impI, rule array_field_step) (use of_array live_fieldD(6) in auto)
next
  case (elem_set e v nm f dims n c base index r h)
  then show ?case using elem_set_safe [OF elem_contract] by simp
next
  case (elems_copy_from vs e nm f dims n c base r h)
  then show ?case using elems_copy_from_safe [OF elem_contract] by simp
next
  case (elem_get nm f dims n e c base index)
  show ?case by (intro impI observe_safe element_accessors(1) [OF elem_contract]) simp_all
next
  case (elem_take nm f dims n e c base index)
  show ?case by (intro impI observe_safe element_accessors(2) [OF elem_contract]) simp_all
next
  case (elems_copy_out nm f dims n e c base)
  show ?case by (intro impI observe_safe element_accessors(3) [OF elem_contract]) simp_all
next
  case (elem_child index n nm f dims e c base x r y)
  then show ?case
    using elem_child_safe [OF elem_contract, of E e nm f dims n c index base x r y] by (simp add: elem_stride_of)
next
  case (elem_leaf_set l x nm f dims c r d)
  then show ?case
    using elem_leaf_step leaf_set_safe [where er = "elem_handle_errors nm f dims"] by (simp del: elem_of.simps) blast
next
  case (elem_leaf_get nm f dims l c)
  then show ?case
    using elem_leaf_step [where l = l and er = "elem_handle_errors nm f dims"] leaf_get_safe
    by (simp del: elem_of.simps)
next
  case (elem_leaf_clear l nm f dims c)
  then show ?case using elem_leaf_step leaf_clear_safe by (simp del: elem_of.simps)
next
  case (elem_path S c r d nm f dims)
  then show ?case by (simp add: path_elem_iff live_def del: elem_of.simps)
next
  case (elem_row nm f dims n e c r d)
  then show ?case using elem_row_step by (simp del: elem_of.simps)
qed

section \<open>Sessions\<close>

text \<open>The spans one exclusive capability passes through, whatever its holder does and however it fares.\<close>

inductive session :: "env \<Rightarrow> schema_support \<Rightarrow> input \<Rightarrow> input \<Rightarrow> bool" for E S i where
  opened: "session E S i i"
| stepped: "session E S i j \<Longrightarrow> cap_step E S j r k \<Longrightarrow> session E S i k"

lemma live_same_span: "live E S i \<Longrightarrow> same_span i j \<Longrightarrow> ss_validate S j = Ok () \<Longrightarrow> live E S j"
  using same_span_input_ok same_span_wire by (fastforce simp: live_def)

lemma session_live:
  assumes "session E S i j" "env_ok E" "live E S i"
  shows "same_span i j \<and> live E S j"
  using assms(1)
proof induction
  case opened
  then show ?case using assms(3) by (simp add: same_span_def)
next
  case (stepped j r k)
  then have j: "same_span i j" "live E S j" by simp_all
  have "safe_step (\<lambda>k. ss_validate S k = Ok ()) j r k" using steps_safe(1) [OF stepped.hyps(2)] assms(2) j(2) by simp
  then have "same_span j k" "ss_validate S k = Ok ()" by (simp_all add: safe_step_def)
  then show ?case using same_span_trans [OF j(1)] live_same_span [OF j(2)] by blast
qed

text \<open>
  C1. The invariant of an exclusive capability: start from a proved span and apply any sequence of patches,
  clears, enum stores, getters, handle acquisitions and handle operations on any path of fields, elements,
  optionals and variants, accepted or refused. The capability still holds the same span, the span is still
  proved and readable, and whatever is done next neither panics - no getter, no \<open>field_mut\<close>, \<open>get_mut\<close> or
  variant accessor reaches its \<open>unreachable!\<close> either - nor, when it returns an error, changes a byte.
\<close>

theorem capability_session_invariant:
  assumes "env_ok E" "generated E S" "input_ok E i" "i_wire i = ss_wire S" "ss_validate S i = Ok ()" "session E S i j"
  shows "same_span i j \<and> ss_validate S j = Ok () \<and> (\<exists>v. ss_logical S j = Ok v) \<and>
    (\<forall>r k. cap_step E S j r k \<longrightarrow> r \<noteq> Panic \<and> ((\<exists>e. r = Err e) \<longrightarrow> k = j) \<and> ss_validate S k = Ok ())"
proof -
  have j: "same_span i j" "live E S j" using session_live [OF assms(6,1)] assms(3-5) by (auto simp: live_def)
  have "\<exists>v. ss_logical S j = Ok v"
    using gen.logical_of_proved [OF conjI [OF assms(1,2)], of j] j(2) by (auto simp: live_def)
  moreover have "r \<noteq> Panic \<and> ((\<exists>e. r = Err e) \<longrightarrow> k = j) \<and> ss_validate S k = Ok ()" if "cap_step E S j r k" for r k
    using steps_safe(1) [OF that] assms(1) j(2) by (auto simp: safe_step_def)
  ultimately show ?thesis using j by (auto simp: live_def)
qed

lemma declared_message: "declared E (message E)"
  using message_shape generated_body of_enum [OF enum_ok_kind]
  by (auto simp: declared_def message_def less_two_cases)

text \<open>Setting the Boolean of a received message through its handle.\<close>

lemma message_flag_session: "session x64 message_schema (message_input 5 0 0 0) (message_input 5 0 0 1)"
proof -
  let ?R = "message x64" and ?i = "message_input 5 0 0 0" and ?v = "vspan x64 (message x64) 2 (message_input 5 0 0 0)"
  let ?er = "field_errors (ri_name (message x64)) (fi_name (fld (message x64) 2))"
  note ok = message_record_ok [OF env_ok_linux_x86_64]
  have i: "record_input x64 ?R ?i" "record_validate x64 ?R ?i = Ok ()" using message_input_ok message_zero_validates by simp_all
  have k: "2 < field_count ?R" "cat ?R 2 = LeafField Bool" "\<not> is_external_tag_sibling ?R 2"
    by (simp_all add: message_def is_external_tag_sibling_def)
  have off: "handle_offset x64 ?R 2 = 2" "field_value_offset x64 ?R 2 = 2"
    using body_wire by (simp_all add: handle_offset_def field_value_offset_def field_offset_def message_def field_wire_def
        enum_support_def enum_wire_def kind_decl_def prim_layout_def tagged_support_def bytes_layout_def round_up_def numeral_2_eq_2)
  have "proof_field x64 ?R 2 ?i = Ok ()" using record_validate_iff(1) [OF ok i(1)] i(2) k(1) by blast
  then have mut: "field_mutator x64 ?R 2 ?i = Ok ?v"
    using field_mutator_proved [OF ok i(1) k(1)] handle_span_eqs(1) [of ?R 2 x64 ?i] k(2) by simp
  have v: "input_ok x64 ?v" "i_wire ?v = leaf_wire x64 Bool" "i_bytes ?v = [0]"
    using select_field(4) [OF ok i(1) k(1)] k(2) off by (simp_all add: slice_def bytes_layout_def)
  have "subrange_bytes_mut x64 0 1 (bool_store_preflighted True) ?v = Ok (?v\<lparr>i_bytes := [1]\<rparr>)"
    using v(1,3) by (intro subrange_bytes_mut_whole) (simp_all add: bool_store_preflighted_def copy_from_slice_def bool_encode_def)
  then have set: "leaf_handle_set x64 ?er Bool ?v (BoolVal True) = (Ok (), ?v\<lparr>i_bytes := [1]\<rparr>)"
    using v(1) by (simp add: leaf_handle_set_eq scalar_mut_set_def leaf_adapter_def preflighted_def leaf_preflight.simps leaf_commit.simps
        reborrow_Ok)
  have "field_step x64 ?R 2 ?i ?v (Ok ()) (?v\<lparr>i_bytes := [1]\<rparr>)"
    using leaf_set [OF k(2) _ set] by simp
  from stepped [OF opened member [OF declared_message k(1,3) mut this]] show ?thesis
    using off by (simp add: write_back_def overwrite_def)
qed

theorem capability_session_invariant_witness:
  "ss_validate message_schema (message_input 5 0 0 1) = Ok () \<and> (\<exists>v. ss_logical message_schema (message_input 5 0 0 1) = Ok v)"
  using capability_session_invariant [OF env_ok_linux_x86_64 generated_message message_input_ok _ message_zero_validates message_flag_session]
  by simp

text \<open>
  C8. Receiving storage gives a working capability: the zeroed constructor compiles exactly for the schemas
  whose all-zero bytes are valid; its buffer, placed at an address with the alignment of its type, is
  accepted by the first \<open>access\<close> and \<open>access_mut\<close>, and after any session through that capability the bytes
  are accepted again. The plain constructor's buffer is accepted only where the zeroed one exists.
\<close>

theorem zeroed_buffer_accessible:
  assumes "env_ok E" "generated E S" "wl_size (ss_wire S) < usize_limit E" "sb_align (make_schema_buffer S) dvd addr"
  shows "case make_zeroed_schema_buffer S of
      Some b \<Rightarrow> \<exists>i. ss_access_mut E S addr (as_bytes b) = Ok i \<and> ss_access E S addr (as_bytes b) = Ok i \<and>
        (\<forall>j. session E S i j \<longrightarrow> ss_access E S addr (i_bytes j) = Ok j)
    | None \<Rightarrow> \<exists>e. ss_access E S addr (as_bytes (make_schema_buffer S)) = Err e"
proof -
  let ?b = "make_schema_buffer S"
  let ?i = "\<lparr>i_addr = addr, i_bytes = as_bytes ?b, i_wire = ss_wire S\<rparr>"
  note ok = conjI [OF assms(1,2)] and z = zero_buffer_input [OF assms]
  have valid: "ss_validate S ?i = Ok () \<longleftrightarrow> ss_zero_is_valid S" using gen.zero_exact [OF ok z(1) _ z(2)] by simp
  show ?thesis
  proof (cases "ss_zero_is_valid S")
    case True
    then have live: "live E S ?i" using valid z(1) by (simp add: live_def)
    have "ss_access E S addr (as_bytes ?b) = Ok ?i" using gen.access_iff [OF ok] z(3) valid True by blast
    moreover have "ss_access E S addr (i_bytes j) = Ok j" if "session E S ?i j" for j
    proof -
      have j: "same_span ?i j" "live E S j" using session_live [OF that assms(1) live] by blast+
      then have "from_exact E (ss_wire S) addr (i_bytes j) = Ok j"
        by (auto simp: from_exact_def from_checked_Ok [OF assms(1)] live_def same_span_def input_ok_def)
      then show ?thesis using gen.access_iff [OF ok] j(2) by (simp add: live_def)
    qed
    ultimately show ?thesis
      using True gen.access_mut_eq [OF ok] by (auto simp: make_zeroed_schema_buffer_def assert_zeroed_schema_buffer_root_def)
  next
    case False
    then show ?thesis
      using valid z(3) gen.validate_total [OF ok z(1)]
      by (cases "ss_validate S ?i") (simp_all add: make_zeroed_schema_buffer_def assert_zeroed_schema_buffer_root_def ss_access_def ss_prove_def)
  qed
qed

theorem zeroed_buffer_accessible_witness:
  "\<exists>i. ss_access_mut x64 message_schema 5 [0, 0, 0] = Ok i"
  using zeroed_buffer_accessible [OF env_ok_linux_x86_64 generated_message, of 5] message_zero_valid
  by (auto simp: make_zeroed_schema_buffer_def assert_zeroed_schema_buffer_root_def make_schema_buffer_def schema_buffer_new_def as_bytes_def
      message_wire numeral_3_eq_3)

end
