(* ===== verification/Zs_Lifetimes.thy ===== *)
theory Zs_Lifetimes
  imports Zs_Analyze
begin

text \<open>
  Source lifetimes in generated items: the visitors of \<open>analyze.rs\<close>, \<open>emit_wire.rs\<close> and \<open>emit_mutation.rs\<close>
  that erase, rebind or look for the lifetimes a declaration introduces, and the generic parameters and
  predicates built with them. A type is the tree the visitors walk: tokens, lifetimes, paths, and the
  scopes a \<open>for<...>\<close> list opens on trait bounds, function pointers and predicates. The visitors override
  the nodes they handle and visit every other child in order.
\<close>

section \<open>Trees with binders\<close>

datatype path_kind = TypePath | ExprPath | BoundPath

type_synonym binders = "(string \<times> string list) list"

datatype node =
    Token string
  | Life string
  | Group "node list"
  | PathNode path_kind "node list" "node list"
  | Segment string "node list"
  | Scope "binders option" "node list"

text \<open>\<open>PathNode kind qself segments\<close>; a binder is a name with the lifetimes it is bounded by.\<close>

definition bound_lifetime_names :: "binders \<Rightarrow> string list" where
  "bound_lifetime_names ls = map fst ls"

definition is_bound :: "string list list \<Rightarrow> string \<Rightarrow> bool" where
  "is_bound scopes l \<longleftrightarrow> list_ex (\<lambda>names. List.member names l) scopes"

fun push_scope :: "binders option \<Rightarrow> string list list \<Rightarrow> string list list" where
  "push_scope None scopes = scopes"
| "push_scope (Some ls) scopes = bound_lifetime_names ls # scopes"

definition walk_binders :: "(string list list \<Rightarrow> string \<Rightarrow> string) \<Rightarrow> string list list \<Rightarrow> binders option \<Rightarrow> binders option" where
  "walk_binders f scopes = map_option (map (\<lambda>(l, bounds). (f scopes l, map (f scopes) bounds)))"

text \<open>
  A mutating visitor: what it does to a lifetime under the open scopes, what it does to the segments of
  a path, and whether the names of a \<open>for\<close> list stay in scope for the node that carries it (\<open>lexical\<close>) or
  only for the list itself.
\<close>

record visit_mut =
  vm_lexical :: bool
  vm_lifetime :: "string list list \<Rightarrow> string \<Rightarrow> string"
  vm_segments :: "node list \<Rightarrow> node list"

fun walk :: "visit_mut \<Rightarrow> string list list \<Rightarrow> node \<Rightarrow> node" where
  "walk v scopes (Token s) = Token s"
| "walk v scopes (Life l) = Life (vm_lifetime v scopes l)"
| "walk v scopes (Group ns) = Group (map (walk v scopes) ns)"
| "walk v scopes (PathNode k qself segs) = PathNode k (map (walk v scopes) qself) (vm_segments v (map (walk v scopes) segs))"
| "walk v scopes (Segment s args) = Segment s (map (walk v scopes) args)"
| "walk v scopes (Scope b ns) = Scope (walk_binders (vm_lifetime v) (push_scope b scopes) b)
     (map (walk v (if vm_lexical v then push_scope b scopes else scopes)) ns)"

text \<open>\<open>visit_path_mut\<close>: a path that starts with \<open>self\<close> or \<open>super\<close> is read from one module further down.\<close>

fun rebase_segments :: "node list \<Rightarrow> node list" where
  "rebase_segments (Segment s args # rest) =
     (if s = ''self'' then Segment ''super'' args # rest
      else if s = ''super'' then Segment ''super'' [] # Segment s args # rest else Segment s args # rest)"
| "rebase_segments segs = segs"

section \<open>The visitors\<close>

definition erase_lifetime :: "string list list \<Rightarrow> string \<Rightarrow> string" where
  "erase_lifetime scopes l = (if l \<noteq> ''static'' \<and> \<not> is_bound scopes l then ''static'' else l)"

definition rebind_lifetime :: "string list \<Rightarrow> string \<Rightarrow> string list list \<Rightarrow> string \<Rightarrow> string" where
  "rebind_lifetime source_lifetimes replacement scopes l =
     (if List.member source_lifetimes l \<and> \<not> is_bound scopes l then replacement else l)"

definition RebaseSupportPaths :: visit_mut where
  "RebaseSupportPaths = \<lparr>vm_lexical = True, vm_lifetime = erase_lifetime, vm_segments = rebase_segments\<rparr>"

definition RebaseLogicalPaths :: visit_mut where
  "RebaseLogicalPaths = \<lparr>vm_lexical = True, vm_lifetime = (\<lambda>scopes l. l), vm_segments = rebase_segments\<rparr>"

definition EraseSourceLifetimes :: visit_mut where
  "EraseSourceLifetimes = \<lparr>vm_lexical = True, vm_lifetime = erase_lifetime, vm_segments = id\<rparr>"

definition DeclaredLifetimeRebinder :: "string list \<Rightarrow> string \<Rightarrow> visit_mut" where
  "DeclaredLifetimeRebinder source_lifetimes replacement =
     \<lparr>vm_lexical = True, vm_lifetime = rebind_lifetime source_lifetimes replacement, vm_segments = id\<rparr>"

text \<open>The rebinder of \<open>emit_mutation.rs\<close> overrides \<open>visit_bound_lifetimes_mut\<close> only.\<close>

definition SourceLifetimeRebinder :: "string list \<Rightarrow> string \<Rightarrow> visit_mut" where
  "SourceLifetimeRebinder source_lifetimes replacement =
     \<lparr>vm_lexical = False, vm_lifetime = rebind_lifetime source_lifetimes replacement, vm_segments = id\<rparr>"

definition support_type :: "node \<Rightarrow> node" where
  "support_type ty = walk RebaseSupportPaths [] ty"

definition logical_source_type :: "node \<Rightarrow> node" where
  "logical_source_type ty = walk RebaseLogicalPaths [] ty"

definition erased_source_type :: "node \<Rightarrow> node" where
  "erased_source_type ty = walk EraseSourceLifetimes [] ty"

text \<open>\<open>DeclaredSourceLifetimeUse\<close>: does a declared lifetime occur outside every scope that binds it?\<close>

fun mentions_source :: "string list \<Rightarrow> string list list \<Rightarrow> node \<Rightarrow> bool" where
  "mentions_source declared scopes (Token s) \<longleftrightarrow> False"
| "mentions_source declared scopes (Life l) \<longleftrightarrow> List.member declared l \<and> \<not> is_bound scopes l"
| "mentions_source declared scopes (Group ns) \<longleftrightarrow> list_ex (mentions_source declared scopes) ns"
| "mentions_source declared scopes (PathNode k qself segs) \<longleftrightarrow>
     list_ex (mentions_source declared scopes) qself \<or> list_ex (mentions_source declared scopes) segs"
| "mentions_source declared scopes (Segment s args) \<longleftrightarrow> list_ex (mentions_source declared scopes) args"
| "mentions_source declared scopes (Scope b ns) \<longleftrightarrow>
     list_ex (\<lambda>l. List.member declared l \<and> \<not> is_bound (push_scope b scopes) l) (case b of None \<Rightarrow> [] | Some ls \<Rightarrow> concat (map (\<lambda>(l, bounds). l # bounds) ls)) \<or>
     list_ex (mentions_source declared (push_scope b scopes)) ns"

text \<open>The token sequence a tree prints as.\<close>

definition binder_tokens :: "binders option \<Rightarrow> string list" where
  "binder_tokens b = (case b of None \<Rightarrow> [] | Some ls \<Rightarrow> ''for'' # concat (map (\<lambda>(l, bounds). map ((#) (CHR 0x27)) (l # bounds)) ls))"

fun tokens_of :: "node \<Rightarrow> string list" where
  "tokens_of (Token s) = [s]"
| "tokens_of (Life l) = [CHR 0x27 # l]"
| "tokens_of (Group ns) = concat (map tokens_of ns)"
| "tokens_of (PathNode k qself segs) = concat (map tokens_of qself) @ concat (map tokens_of segs)"
| "tokens_of (Segment s args) = s # concat (map tokens_of args)"
| "tokens_of (Scope b ns) = binder_tokens b @ concat (map tokens_of ns)"

definition has_source_lifetime :: "node \<Rightarrow> bool" where
  "has_source_lifetime ty \<longleftrightarrow> tokens_of ty \<noteq> tokens_of (erased_source_type ty)"

section \<open>Free lifetimes\<close>

text \<open>The occurrences no enclosing scope binds, and every name some scope binds.\<close>

definition binder_bounds :: "binders option \<Rightarrow> string list" where
  "binder_bounds b = (case b of None \<Rightarrow> [] | Some ls \<Rightarrow> concat (map snd ls))"

fun free_lifetimes :: "string list list \<Rightarrow> node \<Rightarrow> string list" where
  "free_lifetimes scopes (Token s) = []"
| "free_lifetimes scopes (Life l) = (if is_bound scopes l then [] else [l])"
| "free_lifetimes scopes (Group ns) = concat (map (free_lifetimes scopes) ns)"
| "free_lifetimes scopes (PathNode k qself segs) = concat (map (free_lifetimes scopes) qself) @ concat (map (free_lifetimes scopes) segs)"
| "free_lifetimes scopes (Segment s args) = concat (map (free_lifetimes scopes) args)"
| "free_lifetimes scopes (Scope b ns) =
     filter (\<lambda>l. \<not> is_bound (push_scope b scopes) l) (binder_bounds b) @
     concat (map (free_lifetimes (push_scope b scopes)) ns)"

fun binders_of :: "node \<Rightarrow> string list" where
  "binders_of (Token s) = []"
| "binders_of (Life l) = []"
| "binders_of (Group ns) = concat (map binders_of ns)"
| "binders_of (PathNode k qself segs) = concat (map binders_of qself) @ concat (map binders_of segs)"
| "binders_of (Segment s args) = concat (map binders_of args)"
| "binders_of (Scope b ns) = (case b of None \<Rightarrow> [] | Some ls \<Rightarrow> bound_lifetime_names ls) @ concat (map binders_of ns)"

lemma is_bound_push: "is_bound (push_scope b scopes) l \<longleftrightarrow> (\<exists>ls. b = Some ls \<and> l \<in> set (bound_lifetime_names ls)) \<or> is_bound scopes l"
  by (cases b) (auto simp: is_bound_def)

lemma binder_is_bound: "(l, bounds) \<in> set ls \<Longrightarrow> is_bound (push_scope (Some ls) scopes) l"
  unfolding is_bound_push bound_lifetime_names_def by force

lemma mentions_source_iff: "mentions_source declared scopes t \<longleftrightarrow> (\<exists>l \<in> set (free_lifetimes scopes t). l \<in> set declared)"
proof (induction declared scopes t rule: mentions_source.induct)
  case (6 declared scopes b ns)
  have "list_ex (mentions_source declared (push_scope b scopes)) ns \<longleftrightarrow>
      (\<exists>n \<in> set ns. \<exists>l \<in> set (free_lifetimes (push_scope b scopes) n). l \<in> set declared)"
    using 6 by (auto simp: list_ex_iff)
  then show ?case using binder_is_bound by (cases b) (fastforce simp: list_ex_iff binder_bounds_def)+
qed (auto simp: list_ex_iff)

lemma rebase_segments_free: "concat (map (free_lifetimes scopes) (rebase_segments segs)) = concat (map (free_lifetimes scopes) segs)"
  by (cases segs rule: rebase_segments.cases) simp_all

lemma rebase_segments_binders: "concat (map binders_of (rebase_segments segs)) = concat (map binders_of segs)"
  by (cases segs rule: rebase_segments.cases) simp_all

section \<open>Visitors that substitute\<close>

text \<open>
  The contract of a visitor that renames free lifetimes and respects scopes. Its result has the same
  binders, and exactly the renamed free lifetimes whenever no new name is caught by a binder.
\<close>

locale substituting =
  fixes v :: visit_mut and h :: "string \<Rightarrow> string"
  assumes lexical: "vm_lexical v"
    and lifetime: "vm_lifetime v scopes l = (if is_bound scopes l then l else h l)"
    and segments_free: "concat (map (free_lifetimes scopes) (vm_segments v segs)) = concat (map (free_lifetimes scopes) segs)"
    and segments_binders: "concat (map binders_of (vm_segments v segs)) = concat (map binders_of segs)"
begin

lemma walk_binder_names: "map_option bound_lifetime_names (walk_binders (vm_lifetime v) (push_scope b scopes) b) = map_option bound_lifetime_names b"
proof (cases b)
  case (Some ls)
  have "fst (case x of (l, bounds) \<Rightarrow> (vm_lifetime v (push_scope b scopes) l, map (vm_lifetime v (push_scope b scopes)) bounds)) = fst x"
    if "x \<in> set ls" for x
  proof (cases x)
    case (Pair l bounds)
    then have "is_bound (push_scope b scopes) l" using that Some binder_is_bound by blast
    then show ?thesis using Pair by (simp add: lifetime)
  qed
  then show ?thesis using Some by (simp add: walk_binders_def bound_lifetime_names_def)
qed (simp add: walk_binders_def)

lemma push_walk: "push_scope (walk_binders (vm_lifetime v) (push_scope b scopes) b) s = push_scope b s"
  using walk_binder_names [of b scopes] by (cases b) (auto simp: walk_binders_def)

lemma walk_binders_of: "binders_of (walk v scopes t) = binders_of t"
proof (induction t arbitrary: scopes)
  case (Scope b ns)
  have "concat (map (binders_of \<circ> walk v (push_scope b scopes)) ns) = concat (map binders_of ns)"
    using Scope by (simp add: comp_def cong: map_cong)
  then show ?case
    using walk_binder_names [of b scopes] by (cases b) (auto simp: lexical walk_binders_def)
qed (simp_all add: segments_binders comp_def cong: map_cong)

lemma walk_binder_bounds: "binder_bounds (walk_binders f s b) = map (f s) (binder_bounds b)"
proof (cases b)
  case (Some ls)
  have "snd (case x of (l, bounds) \<Rightarrow> (f s l, map (f s) bounds)) = map (f s) (snd x)" for x by (cases x) simp
  then show ?thesis using Some by (simp add: walk_binders_def binder_bounds_def map_concat comp_def)
qed (simp add: walk_binders_def binder_bounds_def)

lemma filter_renamed:
  "(\<And>l. l \<in> set ks \<Longrightarrow> \<not> is_bound s l \<Longrightarrow> \<not> is_bound s (h l)) \<Longrightarrow>
   filter (\<lambda>l. \<not> is_bound s l) (map (vm_lifetime v s) ks) = map h (filter (\<lambda>l. \<not> is_bound s l) ks)"
  by (induction ks) (auto simp: lifetime)

lemma children_free:
  "(\<And>n. n \<in> set ns \<Longrightarrow> free_lifetimes s (walk v s n) = map h (free_lifetimes s n)) \<Longrightarrow>
   concat (map (free_lifetimes s) (map (walk v s) ns)) = map h (concat (map (free_lifetimes s) ns))"
  by (induction ns) simp_all

lemma walk_free:
  assumes "\<forall>l \<in> set (free_lifetimes scopes t). h l = l \<or> \<not> is_bound scopes (h l) \<and> h l \<notin> set (binders_of t)"
  shows "free_lifetimes scopes (walk v scopes t) = map h (free_lifetimes scopes t)"
  using assms
proof (induction t arbitrary: scopes)
  case (Scope b ns)
  let ?s = "push_scope b scopes"
  have new: "h l = l \<or> \<not> is_bound ?s (h l)" if "l \<in> set (free_lifetimes scopes (Scope b ns))" for l
    using Scope.prems that unfolding is_bound_push by (auto simp: is_bound_push)
  have "h l = l \<or> \<not> is_bound ?s (h l) \<and> h l \<notin> set (binders_of n)" if "n \<in> set ns" "l \<in> set (free_lifetimes ?s n)" for n l
    using new [of l] Scope.prems that by auto
  then have "concat (map (free_lifetimes ?s) (map (walk v ?s) ns)) = map h (concat (map (free_lifetimes ?s) ns))"
    by (intro children_free Scope.IH) auto
  moreover have "filter (\<lambda>l. \<not> is_bound ?s l) (map (vm_lifetime v ?s) (binder_bounds b)) = map h (filter (\<lambda>l. \<not> is_bound ?s l) (binder_bounds b))"
    using new by (intro filter_renamed) fastforce
  ultimately show ?case by (simp add: lexical push_walk walk_binder_bounds)
next
  case (PathNode k qself segs)
  have "concat (map (free_lifetimes scopes) (map (walk v scopes) qself)) = map h (concat (map (free_lifetimes scopes) qself))"
    using PathNode.prems by (intro children_free PathNode.IH(1)) auto
  moreover have "concat (map (free_lifetimes scopes) (map (walk v scopes) segs)) = map h (concat (map (free_lifetimes scopes) segs))"
    using PathNode.prems by (intro children_free PathNode.IH(2)) auto
  ultimately show ?case by (simp add: segments_free)
next
  case (Group ns)
  have "concat (map (free_lifetimes scopes) (map (walk v scopes) ns)) = map h (concat (map (free_lifetimes scopes) ns))"
    using Group.prems by (intro children_free Group.IH) auto
  then show ?case by simp
next
  case (Segment s ns)
  have "concat (map (free_lifetimes scopes) (map (walk v scopes) ns)) = map h (concat (map (free_lifetimes scopes) ns))"
    using Segment.prems by (intro children_free Segment.IH) auto
  then show ?case by simp
qed (auto simp: lifetime)

end

text \<open>A visitor that leaves paths alone changes the tokens exactly when it renames a free lifetime.\<close>

lemma children_unchanged:
  assumes "\<And>n. n \<in> set ns \<Longrightarrow> length (tokens_of (w n)) = length (tokens_of n)"
  shows "concat (map tokens_of (map w ns)) = concat (map tokens_of ns) \<longleftrightarrow> (\<forall>n \<in> set ns. tokens_of (w n) = tokens_of n)"
    "length (concat (map tokens_of (map w ns))) = length (concat (map tokens_of ns))"
  using assms by (induction ns) auto

locale substituting_in_place = substituting +
  assumes in_place: "vm_segments v segs = segs"
begin

lemma binder_tokens_unchanged:
  assumes s: "s = push_scope b scopes"
  shows "length (binder_tokens (walk_binders (vm_lifetime v) s b)) = length (binder_tokens b)"
    "binder_tokens (walk_binders (vm_lifetime v) s b) = binder_tokens b \<longleftrightarrow> (\<forall>l \<in> set (filter (\<lambda>l. \<not> is_bound s l) (binder_bounds b)). h l = l)"
proof -
  have "length (binder_tokens (walk_binders (vm_lifetime v) s b)) = length (binder_tokens b) \<and>
    (binder_tokens (walk_binders (vm_lifetime v) s b) = binder_tokens b \<longleftrightarrow> (\<forall>l \<in> set (filter (\<lambda>l. \<not> is_bound s l) (binder_bounds b)). h l = l))"
  proof (cases b)
    case (Some ls)
    let ?w = "\<lambda>(l, bounds). (vm_lifetime v s l, map (vm_lifetime v s) bounds)" and ?t = "\<lambda>(l, bounds). map ((#) (CHR 0x27)) (l # bounds)"
    have bounds: "map (vm_lifetime v s) ks = ks \<longleftrightarrow> (\<forall>l \<in> set ks. \<not> is_bound s l \<longrightarrow> h l = l)" for ks
      by (induction ks) (auto simp: lifetime)
    have names: "is_bound s l" if "(l, bounds) \<in> set ls" for l bounds using binder_is_bound [OF that] Some s by simp
    have "length (concat (map ?t (map ?w ks))) = length (concat (map ?t ks)) \<and>
      (concat (map ?t (map ?w ks)) = concat (map ?t ks) \<longleftrightarrow> (\<forall>l \<in> set (concat (map snd ks)). \<not> is_bound s l \<longrightarrow> h l = l))"
      if "set ks \<subseteq> set ls" for ks
      using that
    proof (induction ks)
      case (Cons x ks)
      obtain l bs where x: "x = (l, bs)" by (cases x)
      then have "vm_lifetime v s l = l" using names Cons.prems by (auto simp: lifetime)
      moreover have "map ((#) (CHR 0x27)) (map (vm_lifetime v s) bs) = map ((#) (CHR 0x27)) bs \<longleftrightarrow> map (vm_lifetime v s) bs = bs"
        by (metis inj_map_eq_map inj_onI list.inject)
      ultimately show ?case using Cons x bounds [of bs] by auto
    qed simp
    from this [of ls] show ?thesis using Some by (auto simp: binder_tokens_def walk_binders_def binder_bounds_def)
  qed (simp add: binder_tokens_def walk_binders_def binder_bounds_def)
  then show "length (binder_tokens (walk_binders (vm_lifetime v) s b)) = length (binder_tokens b)"
    "binder_tokens (walk_binders (vm_lifetime v) s b) = binder_tokens b \<longleftrightarrow> (\<forall>l \<in> set (filter (\<lambda>l. \<not> is_bound s l) (binder_bounds b)). h l = l)"
    by blast+
qed

lemma walk_token_count: "length (tokens_of (walk v scopes t)) = length (tokens_of t)"
proof (induction t arbitrary: scopes)
  case (Scope b ns)
  then show ?case
    using children_unchanged(2) [of ns "walk v (push_scope b scopes)"] binder_tokens_unchanged(1) [OF refl] by (simp add: lexical)
next
  case (PathNode k qself segs)
  then show ?case
    using children_unchanged(2) [of qself "walk v scopes"] children_unchanged(2) [of segs "walk v scopes"] by (simp add: in_place)
next
  case (Group ns)
  then show ?case using children_unchanged(2) [of ns "walk v scopes"] by simp
next
  case (Segment s ns)
  then show ?case using children_unchanged(2) [of ns "walk v scopes"] by simp
qed simp_all

lemma walk_children:
  "concat (map tokens_of (map (walk v s) ns)) = concat (map tokens_of ns) \<longleftrightarrow> (\<forall>n \<in> set ns. tokens_of (walk v s n) = tokens_of n)"
  "length (concat (map tokens_of (map (walk v s) ns))) = length (concat (map tokens_of ns))"
  by (rule children_unchanged, rule walk_token_count)+

lemma walk_tokens: "tokens_of (walk v scopes t) = tokens_of t \<longleftrightarrow> (\<forall>l \<in> set (free_lifetimes scopes t). h l = l)"
proof (induction t arbitrary: scopes)
  case (Scope b ns)
  let ?s = "push_scope b scopes"
  have "tokens_of (walk v scopes (Scope b ns)) = tokens_of (Scope b ns) \<longleftrightarrow>
      binder_tokens (walk_binders (vm_lifetime v) ?s b) = binder_tokens b \<and>
      concat (map tokens_of (map (walk v ?s) ns)) = concat (map tokens_of ns)"
    using binder_tokens_unchanged(1) [OF refl, of b scopes] by (simp add: lexical)
  then show ?case
    using Scope walk_children(1) [of ?s ns] binder_tokens_unchanged(2) [OF refl, of b scopes] by auto
next
  case (PathNode k qself segs)
  have "tokens_of (walk v scopes (PathNode k qself segs)) = tokens_of (PathNode k qself segs) \<longleftrightarrow>
      concat (map tokens_of (map (walk v scopes) qself)) = concat (map tokens_of qself) \<and>
      concat (map tokens_of (map (walk v scopes) segs)) = concat (map tokens_of segs)"
    using walk_children(2) [of scopes qself] by (simp add: in_place)
  then show ?case
    using PathNode walk_children(1) [of scopes qself] walk_children(1) [of scopes segs] by auto
next
  case (Group ns)
  then show ?case using walk_children(1) [of scopes ns] by auto
next
  case (Segment s ns)
  then show ?case using walk_children(1) [of scopes ns] by auto
qed (auto simp: lifetime)

end

interpretation rebase: substituting RebaseSupportPaths "\<lambda>l. ''static''"
  by unfold_locales (simp_all add: RebaseSupportPaths_def erase_lifetime_def rebase_segments_free rebase_segments_binders)

interpretation logical: substituting RebaseLogicalPaths "\<lambda>l. l"
  by unfold_locales (simp_all add: RebaseLogicalPaths_def rebase_segments_free rebase_segments_binders)

interpretation erase: substituting_in_place EraseSourceLifetimes "\<lambda>l. ''static''"
  by unfold_locales (simp_all add: EraseSourceLifetimes_def erase_lifetime_def)

interpretation rebind: substituting_in_place "DeclaredLifetimeRebinder Ds r" "\<lambda>l. if l \<in> set Ds then r else l" for Ds r
  by unfold_locales (auto simp: DeclaredLifetimeRebinder_def rebind_lifetime_def)

section \<open>Generic parameters\<close>

datatype gen_param = GenLifetime string "string list" | GenType string "node list" "node option" | GenConst string node

datatype where_pred = WhereLifetime string "string list" | WhereType "binders option" node "node list"

record generics =
  ge_params :: "gen_param list"
  ge_where :: "where_pred list option"

fun lifetime_param :: "gen_param \<Rightarrow> string option" where
  "lifetime_param (GenLifetime l bounds) = Some l" | "lifetime_param _ = None"

definition source_lifetimes_of :: "generics \<Rightarrow> string list" where
  "source_lifetimes_of G = List.map_filter lifetime_param (ge_params G)"

definition rebind_declared_source_lifetimes :: "generics \<Rightarrow> node \<Rightarrow> string \<Rightarrow> node" where
  "rebind_declared_source_lifetimes G ty replacement = walk (DeclaredLifetimeRebinder (source_lifetimes_of G) replacement) [] ty"

text \<open>\<open>visit_where_predicate_mut\<close> and \<open>visit_type_param_mut\<close>: a predicate opens its scope like a bound does.\<close>

fun walk_predicate :: "visit_mut \<Rightarrow> where_pred \<Rightarrow> where_pred" where
  "walk_predicate v (WhereLifetime l bounds) = WhereLifetime (vm_lifetime v [] l) (map (vm_lifetime v []) bounds)"
| "walk_predicate v (WhereType b ty bounds) = (let inner = (if vm_lexical v then push_scope b [] else []) in
     WhereType (walk_binders (vm_lifetime v) (push_scope b []) b) (walk v inner ty) (map (walk v inner) bounds))"

fun walk_param :: "visit_mut \<Rightarrow> gen_param \<Rightarrow> gen_param" where
  "walk_param v (GenLifetime l bounds) = GenLifetime (vm_lifetime v [] l) (map (vm_lifetime v []) bounds)"
| "walk_param v (GenType s bounds dflt) = GenType s (map (walk v []) bounds) (map_option (walk v []) dflt)"
| "walk_param v (GenConst s ty) = GenConst s (walk v [] ty)"

subsection \<open>Wire support: source lifetimes erased\<close>

definition bound_mentions_declared_source_lifetime :: "generics \<Rightarrow> node \<Rightarrow> bool" where
  "bound_mentions_declared_source_lifetime G bound = mentions_source (source_lifetimes_of G) [] bound"

definition predicate_bounded_type_mentions_source :: "generics \<Rightarrow> binders option \<Rightarrow> node \<Rightarrow> bool" where
  "predicate_bounded_type_mentions_source G b bounded_ty = mentions_source (source_lifetimes_of G) (push_scope b []) bounded_ty"

definition predicate_bound_mentions_source :: "generics \<Rightarrow> binders option \<Rightarrow> node \<Rightarrow> bool" where
  "predicate_bound_mentions_source G b bound = mentions_source (source_lifetimes_of G) (push_scope b []) bound"

fun erased_predicate :: "generics \<Rightarrow> where_pred \<Rightarrow> where_pred option" where
  "erased_predicate G (WhereLifetime l bounds) = None"
| "erased_predicate G (WhereType b ty bounds) =
     (if predicate_bounded_type_mentions_source G b ty then None
      else (let kept = filter (\<lambda>bound. \<not> predicate_bound_mentions_source G b bound) bounds in
        if kept = [] then None else Some (WhereType b ty kept)))"

definition erased_where_predicates :: "generics \<Rightarrow> where_pred list" where
  "erased_where_predicates G = (case ge_where G of None \<Rightarrow> [] | Some ps \<Rightarrow> List.map_filter (erased_predicate G) ps)"

definition source_lifetime_rebinder :: "generics \<Rightarrow> visit_mut" where
  "source_lifetime_rebinder G =
     \<lparr>vm_lexical = True, vm_lifetime = rebind_lifetime (source_lifetimes_of G) ''static'', vm_segments = id\<rparr>"

definition rebind_type_parameter :: "generics \<Rightarrow> string \<Rightarrow> node list \<Rightarrow> node option \<Rightarrow> gen_param" where
  "rebind_type_parameter G s bounds dflt =
     GenType s (filter (\<lambda>bound. \<not> bound_mentions_declared_source_lifetime G bound) bounds)
       (map_option (walk (source_lifetime_rebinder G) []) dflt)"

definition wire_generic_parameters :: "generics \<Rightarrow> gen_param list" where
  "wire_generic_parameters G = List.map_filter (\<lambda>p. case p of
     GenType s bounds dflt \<Rightarrow> Some (rebind_type_parameter G s bounds dflt)
   | GenConst s ty \<Rightarrow> Some (GenConst s ty)
   | GenLifetime l bounds \<Rightarrow> None) (ge_params G)"

definition wire_arguments :: "generics \<Rightarrow> string list" where
  "wire_arguments G = List.map_filter (\<lambda>p. case p of
     GenType s bounds dflt \<Rightarrow> Some s | GenConst s ty \<Rightarrow> Some s | GenLifetime l bounds \<Rightarrow> None) (ge_params G)"

definition source_independent_generics :: "generics \<Rightarrow> generics" where
  "source_independent_generics G =
     \<lparr>ge_params = map (\<lambda>p. case p of
        GenType s bounds dflt \<Rightarrow> GenType s (filter (\<lambda>bound. \<not> bound_mentions_declared_source_lifetime G bound) bounds) dflt
      | _ \<Rightarrow> p) (ge_params G),
      ge_where = (case erased_where_predicates G of [] \<Rightarrow> None | ps \<Rightarrow> Some ps)\<rparr>"

subsection \<open>Logical views: source lifetimes rebound\<close>

definition logical_view_generics :: "generics \<Rightarrow> string \<Rightarrow> generics" where
  "logical_view_generics G lifetime =
     (let v = DeclaredLifetimeRebinder (source_lifetimes_of G) lifetime in
      \<lparr>ge_params = map (walk_param v) (GenLifetime lifetime [] # filter (\<lambda>p. lifetime_param p = None) (ge_params G)),
       ge_where = map_option (map (walk_predicate v)) (ge_where G)\<rparr>)"

definition rebind_source_type :: "generics \<Rightarrow> node \<Rightarrow> string \<Rightarrow> node" where
  "rebind_source_type G ty lifetime = walk (SourceLifetimeRebinder (source_lifetimes_of G) lifetime) [] (logical_source_type ty)"

definition logical_generic_parameters :: "generics \<Rightarrow> string \<Rightarrow> gen_param list" where
  "logical_generic_parameters G source = List.map_filter (\<lambda>p. case p of
     GenLifetime l bounds \<Rightarrow> None
   | GenType s bounds dflt \<Rightarrow> Some (walk_param (SourceLifetimeRebinder (source_lifetimes_of G) source) p)
   | GenConst s ty \<Rightarrow> Some (GenConst s ty)) (ge_params G)"

definition logical_source_predicates :: "generics \<Rightarrow> string \<Rightarrow> where_pred list" where
  "logical_source_predicates G source = (case ge_where G of None \<Rightarrow> [] | Some ps \<Rightarrow> List.map_filter (\<lambda>p. case p of
     WhereLifetime l bounds \<Rightarrow> None
   | WhereType b ty bounds \<Rightarrow> Some (walk_predicate (SourceLifetimeRebinder (source_lifetimes_of G) source) p)) ps)"

text \<open>The declared parameters a type names: the first segment of each type path and constant path.\<close>

fun first_segments :: "node \<Rightarrow> string list" where
  "first_segments (Token s) = []"
| "first_segments (Life l) = []"
| "first_segments (Group ns) = concat (map first_segments ns)"
| "first_segments (PathNode k qself segs) =
     (case segs of Segment s args # rest \<Rightarrow> if k = BoundPath then [] else [s] | _ \<Rightarrow> []) @
     concat (map first_segments qself) @ concat (map first_segments segs)"
| "first_segments (Segment s args) = concat (map first_segments args)"
| "first_segments (Scope b ns) = concat (map first_segments ns)"

definition array_element_parameters :: "generics \<Rightarrow> node \<Rightarrow> string list" where
  "array_element_parameters G ty = filter (\<lambda>s. List.member (wire_arguments G) s) (first_segments ty)"

fun predicate_mentions_parameters :: "where_pred \<Rightarrow> string list \<Rightarrow> bool" where
  "predicate_mentions_parameters (WhereType b ty bounds) parameters \<longleftrightarrow>
     parameters \<noteq> [] \<and> list_ex (\<lambda>s. List.member parameters s) (first_segments ty @ concat (map first_segments bounds))"
| "predicate_mentions_parameters (WhereLifetime l bounds) parameters \<longleftrightarrow> False"

fun bind_predicate_lifetime :: "string \<Rightarrow> where_pred \<Rightarrow> where_pred" where
  "bind_predicate_lifetime source (WhereType b ty bounds) =
     WhereType (Some ((source, []) # (case b of None \<Rightarrow> [] | Some ls \<Rightarrow> ls))) ty bounds"
| "bind_predicate_lifetime source (WhereLifetime l bounds) = WhereLifetime l bounds"

definition hrtb_source_predicates :: "generics \<Rightarrow> string \<Rightarrow> string list \<Rightarrow> where_pred list" where
  "hrtb_source_predicates G source relevant = (case ge_where G of None \<Rightarrow> [] | Some ps \<Rightarrow> List.map_filter (\<lambda>p. case p of
     WhereLifetime l bounds \<Rightarrow> None
   | WhereType b ty bounds \<Rightarrow>
       if \<not> predicate_mentions_parameters p relevant then None
       else Some (bind_predicate_lifetime source (walk_predicate (SourceLifetimeRebinder (source_lifetimes_of G) source) p))) ps)"

definition hrtb_source_type_parameter_predicates :: "generics \<Rightarrow> string \<Rightarrow> string list \<Rightarrow> where_pred list" where
  "hrtb_source_type_parameter_predicates G source relevant = List.map_filter (\<lambda>p. case p of
     GenType s bounds dflt \<Rightarrow>
       if \<not> List.member relevant s then None
       else (case map (walk (SourceLifetimeRebinder (source_lifetimes_of G) source) []) bounds of
           [] \<Rightarrow> None
         | bs \<Rightarrow> Some (bind_predicate_lifetime source (WhereType None (PathNode TypePath [] [Segment s []]) bs)))
   | _ \<Rightarrow> None) (ge_params G)"

definition type_uses_declared_source_lifetime :: "generics \<Rightarrow> node \<Rightarrow> string \<Rightarrow> bool" where
  "type_uses_declared_source_lifetime G ty probe \<longleftrightarrow> tokens_of ty \<noteq> tokens_of (rebind_source_type G ty probe)"

section \<open>What the visitors guarantee\<close>

subsection \<open>Fresh lifetimes\<close>

text \<open>
  \<open>LifetimeNames\<close> collects every lifetime it visits: occurrences, binders and the bounds of binders, in the
  generics, in every field type and in every newtype variant. The search counts suffixes in a \<open>usize\<close>, whose
  overflow panics.
\<close>

definition binder_lifetimes :: "binders option \<Rightarrow> string list" where
  "binder_lifetimes b = (case b of None \<Rightarrow> [] | Some ls \<Rightarrow> concat (map (\<lambda>(l, bounds). l # bounds) ls))"

fun visit_lifetimes :: "node \<Rightarrow> string list" where
  "visit_lifetimes (Token s) = []"
| "visit_lifetimes (Life l) = [l]"
| "visit_lifetimes (Group ns) = concat (map visit_lifetimes ns)"
| "visit_lifetimes (PathNode k qself segs) = concat (map visit_lifetimes qself) @ concat (map visit_lifetimes segs)"
| "visit_lifetimes (Segment s args) = concat (map visit_lifetimes args)"
| "visit_lifetimes (Scope b ns) = binder_lifetimes b @ concat (map visit_lifetimes ns)"

fun visit_param_lifetimes :: "gen_param \<Rightarrow> string list" where
  "visit_param_lifetimes (GenLifetime l bounds) = l # bounds"
| "visit_param_lifetimes (GenType s bounds dflt) =
     concat (map visit_lifetimes bounds) @ (case dflt of None \<Rightarrow> [] | Some ty \<Rightarrow> visit_lifetimes ty)"
| "visit_param_lifetimes (GenConst s ty) = visit_lifetimes ty"

fun visit_predicate_lifetimes :: "where_pred \<Rightarrow> string list" where
  "visit_predicate_lifetimes (WhereLifetime l bounds) = l # bounds"
| "visit_predicate_lifetimes (WhereType b ty bounds) = binder_lifetimes b @ visit_lifetimes ty @ concat (map visit_lifetimes bounds)"

definition lifetime_names :: "generics \<Rightarrow> node list \<Rightarrow> node list \<Rightarrow> string list" where
  "lifetime_names G field_tys newtype_tys =
     concat (map visit_param_lifetimes (ge_params G)) @
     (case ge_where G of None \<Rightarrow> [] | Some ps \<Rightarrow> concat (map visit_predicate_lifetimes ps)) @
     concat (map visit_lifetimes field_tys) @ concat (map visit_lifetimes newtype_tys)"

definition candidate :: "string \<Rightarrow> nat \<Rightarrow> string" where
  "candidate stem suffix = (if suffix = 0 then stem else stem @ ''_'' @ fmt_decimal suffix)"

partial_function (option) fresh_from :: "env \<Rightarrow> string list \<Rightarrow> string \<Rightarrow> nat \<Rightarrow> (diag, string) res option" where
  "fresh_from H names stem suffix =
     (if \<not> List.member names (candidate stem suffix) then Some (Ok (CHR 0x27 # candidate stem suffix))
      else if Suc suffix \<ge> usize_limit H then Some Panic
      else fresh_from H names stem (Suc suffix))"

definition fresh_generated_lifetime :: "env \<Rightarrow> generics \<Rightarrow> node list \<Rightarrow> node list \<Rightarrow> string \<Rightarrow> (diag, string) res option" where
  "fresh_generated_lifetime H G field_tys newtype_tys stem = fresh_from H (lifetime_names G field_tys newtype_tys) stem 0"

lemma rebind_lifetime_unbound:
  "\<forall>l \<in> set Ds. \<not> is_bound s l \<and> \<not> is_bound s' l \<Longrightarrow> rebind_lifetime Ds r s = rebind_lifetime Ds r s'"
  by (auto simp: rebind_lifetime_def fun_eq_iff)

text \<open>Without shadowing, the rebinder that forgets the scopes does what the lexical one does.\<close>

lemma rebinders_agree:
  assumes "set (binders_of t) \<inter> set Ds = {}" "\<forall>l \<in> set Ds. \<not> is_bound s l \<and> \<not> is_bound s' l"
  shows "walk (SourceLifetimeRebinder Ds r) s t = walk (DeclaredLifetimeRebinder Ds r) s' t"
  using assms
proof (induction t arbitrary: s s')
  case (Scope b ns)
  have b: "\<forall>l \<in> set Ds. \<not> is_bound (push_scope b s) l \<and> \<not> is_bound (push_scope b s') l"
    using Scope.prems by (auto simp: is_bound_push split: option.splits)
  have "walk (SourceLifetimeRebinder Ds r) s n = walk (DeclaredLifetimeRebinder Ds r) (push_scope b s') n" if "n \<in> set ns" for n
    using that Scope.prems b by (intro Scope.IH) auto
  then show ?case
    using rebind_lifetime_unbound [OF b] by (simp add: SourceLifetimeRebinder_def DeclaredLifetimeRebinder_def walk_binders_def)
next
  case (PathNode k qself segs)
  have "walk (SourceLifetimeRebinder Ds r) s n = walk (DeclaredLifetimeRebinder Ds r) s' n" if "n \<in> set qself" for n
    using that PathNode.prems by (intro PathNode.IH(1)) auto
  moreover have "walk (SourceLifetimeRebinder Ds r) s n = walk (DeclaredLifetimeRebinder Ds r) s' n" if "n \<in> set segs" for n
    using that PathNode.prems by (intro PathNode.IH(2)) auto
  ultimately show ?case by (simp add: SourceLifetimeRebinder_def DeclaredLifetimeRebinder_def cong: map_cong)
next
  case (Group ns)
  have "walk (SourceLifetimeRebinder Ds r) s n = walk (DeclaredLifetimeRebinder Ds r) s' n" if "n \<in> set ns" for n
    using that Group.prems by (intro Group.IH) auto
  then show ?case by simp
next
  case (Segment x ns)
  have "walk (SourceLifetimeRebinder Ds r) s n = walk (DeclaredLifetimeRebinder Ds r) s' n" if "n \<in> set ns" for n
    using that Segment.prems by (intro Segment.IH) auto
  then show ?case by simp
next
  case (Life l)
  then show ?case
    using rebind_lifetime_unbound [of Ds s s' r] by (simp add: SourceLifetimeRebinder_def DeclaredLifetimeRebinder_def)
qed simp

lemma is_bound_Nil [simp]: "\<not> is_bound [] l"
  by (simp add: is_bound_def)

text \<open>
  C29. Rebinding the source lifetimes of a type is substitution: for a replacement that no binder of the type
  uses, every free occurrence of a declared lifetime becomes the replacement, every other free lifetime
  and every binder stays, and the rebinder of the mutation emitter, which forgets the scopes, agrees
  whenever no binder shadows a declared lifetime.
\<close>

theorem rebinding_is_substitution:
  assumes "r \<notin> set (binders_of ty)"
  shows "free_lifetimes [] (rebind_declared_source_lifetimes G ty r) =
      map (\<lambda>l. if l \<in> set (source_lifetimes_of G) then r else l) (free_lifetimes [] ty) \<and>
    binders_of (rebind_declared_source_lifetimes G ty r) = binders_of ty \<and>
    (set (binders_of ty) \<inter> set (source_lifetimes_of G) = {} \<longrightarrow>
      rebind_source_type G ty r = rebind_declared_source_lifetimes G (logical_source_type ty) r)"
proof -
  have "binders_of (logical_source_type ty) = binders_of ty"
    unfolding logical_source_type_def by (rule logical.walk_binders_of)
  then show ?thesis
    using assms rebinders_agree [of "logical_source_type ty" "source_lifetimes_of G" "[]" "[]" r]
    unfolding rebind_declared_source_lifetimes_def rebind_source_type_def
    by (auto simp: rebind.walk_binders_of intro!: rebind.walk_free split: if_splits)
qed

text \<open>\<open>&'a dyn for<'b> Visit<'a, 'b>\<close>, the sample type of the properties below.\<close>

abbreviation "sample_type \<equiv> Group [Token ''&'', Life ''a'', Token ''dyn'',
  Scope (Some [(''b'', [])]) [PathNode BoundPath [] [Segment ''Visit'' [Life ''a'', Life ''b'']]]]"

abbreviation "sample_generics \<equiv> \<lparr>ge_params = [GenLifetime ''a'' [], GenType ''T'' [Life ''a'', PathNode BoundPath [] [Segment ''Copy'' []]] None],
  ge_where = None\<rparr>"

lemma sample_declared: "source_lifetimes_of sample_generics = [''a'']"
  by (simp add: source_lifetimes_of_def List.map_filter_def)

lemma sample_free: "free_lifetimes [] sample_type = [''a'', ''a'']" "binders_of sample_type = [''b'']"
  by (simp_all add: is_bound_def bound_lifetime_names_def binder_bounds_def)

theorem rebinding_is_substitution_witness:
  "free_lifetimes [] (rebind_declared_source_lifetimes sample_generics sample_type ''view'') = [''view'', ''view'']"
  using rebinding_is_substitution [of "''view''" sample_type sample_generics] by (simp only: sample_free sample_declared) simp

lemma in_map_filter: "y \<in> set (List.map_filter f xs) \<longleftrightarrow> (\<exists>x \<in> set xs. f x = Some y)"
  by (force simp: List.map_filter_def)

lemma fmt_decimal_nonempty: "fmt_decimal n \<noteq> []"
  using digits_in_value [of 10 n] by (simp add: fmt_decimal_def)

lemma candidate_inj: "inj (candidate stem)"
  by (rule injI) (auto simp: candidate_def fmt_decimal_nonempty split: if_splits dest: fmt_decimal_inj)

lemma fresh_from_finds:
  assumes "candidate stem k \<notin> set names" "\<forall>j < k. candidate stem j \<in> set names" "k < usize_limit H" "s \<le> k"
  shows "fresh_from H names stem s = Some (Ok (CHR 0x27 # candidate stem k))"
  using assms(4)
proof (induction "k - s" arbitrary: s)
  case 0
  then show ?case using assms(1) by (subst fresh_from.simps) simp
next
  case (Suc d)
  then have "s < k" "Suc s \<le> k" "d = k - Suc s" by simp_all
  then have "fresh_from H names stem (Suc s) = Some (Ok (CHR 0x27 # candidate stem k))" using Suc by blast
  moreover have "candidate stem s \<in> set names" "\<not> Suc s \<ge> usize_limit H" using assms \<open>s < k\<close> by auto
  ultimately show ?case by (subst fresh_from.simps) simp
qed

lemma some_candidate_free: "\<exists>k \<le> length names. candidate stem k \<notin> set names"
proof (rule ccontr)
  assume "\<not> ?thesis"
  then have "candidate stem ` {0..length names} \<subseteq> set names" by auto
  then have "card (candidate stem ` {0..length names}) \<le> length names"
    by (rule order_trans [OF card_mono [OF finite_set] card_length])
  then show False by (simp add: card_image inj_on_subset [OF candidate_inj])
qed

lemma concat_map_subset: "(\<And>n. n \<in> set ns \<Longrightarrow> set (f n) \<subseteq> set (g n)) \<Longrightarrow> set (concat (map f ns)) \<subseteq> set (concat (map g ns))"
  by (simp add: UN_mono)

lemma binder_lists_visited:
  "set (case b of None \<Rightarrow> [] | Some ls \<Rightarrow> bound_lifetime_names ls) \<subseteq> set (binder_lifetimes b)"
  "set (binder_bounds b) \<subseteq> set (binder_lifetimes b)"
  by (cases b; force simp: binder_lifetimes_def bound_lifetime_names_def binder_bounds_def)+

lemma binders_visited: "set (binders_of t) \<subseteq> set (visit_lifetimes t)"
proof (induction t)
  case (Group ns)
  then show ?case unfolding binders_of.simps visit_lifetimes.simps by (rule concat_map_subset)
next
  case (PathNode k qself segs)
  then show ?case unfolding binders_of.simps visit_lifetimes.simps set_append by (intro Un_mono concat_map_subset)
next
  case (Segment s args)
  then show ?case unfolding binders_of.simps visit_lifetimes.simps by (rule concat_map_subset)
next
  case (Scope b ns)
  then show ?case
    unfolding binders_of.simps visit_lifetimes.simps set_append by (intro Un_mono concat_map_subset binder_lists_visited)
qed simp_all

lemma free_visited: "set (free_lifetimes scopes t) \<subseteq> set (visit_lifetimes t)"
proof (induction t arbitrary: scopes)
  case (Group ns)
  then show ?case unfolding free_lifetimes.simps visit_lifetimes.simps by (rule concat_map_subset)
next
  case (PathNode k qself segs)
  then show ?case unfolding free_lifetimes.simps visit_lifetimes.simps set_append by (intro Un_mono concat_map_subset)
next
  case (Segment s args)
  then show ?case unfolding free_lifetimes.simps visit_lifetimes.simps by (rule concat_map_subset)
next
  case (Scope b ns)
  then show ?case
    unfolding free_lifetimes.simps visit_lifetimes.simps set_append
    by (intro Un_mono concat_map_subset order_trans [OF filter_is_subset binder_lists_visited(2)])
qed simp_all

lemma declared_visited: "set (source_lifetimes_of G) \<subseteq> set (lifetime_names G field_tys newtype_tys)"
proof
  fix l assume "l \<in> set (source_lifetimes_of G)"
  then obtain p where p: "p \<in> set (ge_params G)" "lifetime_param p = Some l" by (auto simp: source_lifetimes_of_def in_map_filter)
  then have "l \<in> set (visit_param_lifetimes p)" by (cases p rule: gen_param.exhaust) simp_all
  then show "l \<in> set (lifetime_names G field_tys newtype_tys)" using p(1) by (auto simp: lifetime_names_def)
qed

lemma fresh_search:
  assumes "length (lifetime_names G field_tys newtype_tys) < usize_limit H"
  shows "\<exists>k. fresh_generated_lifetime H G field_tys newtype_tys stem = Some (Ok (CHR 0x27 # candidate stem k)) \<and>
    candidate stem k \<notin> set (lifetime_names G field_tys newtype_tys) \<and>
    (\<forall>j < k. candidate stem j \<in> set (lifetime_names G field_tys newtype_tys))"
proof -
  let ?names = "lifetime_names G field_tys newtype_tys"
  let ?free = "\<lambda>k. candidate stem k \<notin> set ?names"
  obtain k where k: "k \<le> length ?names" "?free k" using some_candidate_free by blast
  have least: "?free (Least ?free)" "\<forall>j < Least ?free. candidate stem j \<in> set ?names"
    using LeastI [of ?free, OF k(2)] not_less_Least by blast+
  moreover have "Least ?free < usize_limit H" using Least_le [of ?free, OF k(2)] k(1) assms by linarith
  ultimately have "fresh_from H ?names stem 0 = Some (Ok (CHR 0x27 # candidate stem (Least ?free)))"
    by (rule fresh_from_finds) (rule le0)
  then show ?thesis using least unfolding fresh_generated_lifetime_def by blast
qed

text \<open>
  C30. The search for a generated lifetime ends with a name, the first candidate the declaration does not
  mention, when the declaration mentions fewer lifetimes than a \<open>usize\<close> counts. The name is not declared and
  occurs in no field type or variant, free or as a binder, so rebinding to it captures nothing.
\<close>

theorem fresh_lifetime_found:
  assumes "length (lifetime_names G field_tys newtype_tys) < usize_limit H"
  shows "\<exists>k. fresh_generated_lifetime H G field_tys newtype_tys stem = Some (Ok (CHR 0x27 # candidate stem k)) \<and>
    (\<forall>j < k. candidate stem j \<in> set (lifetime_names G field_tys newtype_tys)) \<and>
    candidate stem k \<notin> set (source_lifetimes_of G) \<and>
    (\<forall>ty \<in> set (field_tys @ newtype_tys). candidate stem k \<notin> set (free_lifetimes [] ty) \<union> set (binders_of ty))"
proof -
  have "set (free_lifetimes [] ty) \<union> set (binders_of ty) \<subseteq> set (lifetime_names G field_tys newtype_tys)" if "ty \<in> set (field_tys @ newtype_tys)" for ty
    using that free_visited [of "[]" ty] binders_visited [of ty] by (auto simp: lifetime_names_def)
  then show ?thesis using fresh_search [OF assms, of stem] declared_visited [of G field_tys newtype_tys] by blast
qed

theorem fresh_lifetime_found_witness:
  "fresh_generated_lifetime linux_x86_64 sample_generics [sample_type] [] ''b'' = Some (Ok [CHR 0x27, CHR ''b'', CHR ''_'', CHR ''1''])"
proof -
  have names: "lifetime_names sample_generics [sample_type] [] = [''a'', ''a'', ''a'', ''b'', ''a'', ''b'']"
    by (simp add: lifetime_names_def binder_lifetimes_def)
  have one: "candidate ''b'' 1 = ''b_1''"
    by (simp add: candidate_def fmt_decimal_def digits_in.simps digit_char_def char_of_def bit_0)
  have "length (lifetime_names sample_generics [sample_type] []) < usize_limit linux_x86_64" unfolding names by (simp add: usize_limit_def)
  from fresh_lifetime_found [OF this, of "''b''"] obtain k where
    k: "fresh_generated_lifetime linux_x86_64 sample_generics [sample_type] [] ''b'' = Some (Ok (CHR 0x27 # candidate ''b'' k))"
      "\<forall>j < k. candidate ''b'' j \<in> {''a'', ''b''}" "candidate ''b'' k \<notin> set (binders_of sample_type)" unfolding names by auto
  have "k \<noteq> 0" using k(3) by (cases "k = 0") (simp_all add: candidate_def bound_lifetime_names_def)
  moreover have "\<not> 1 < k" using k(2) one by auto
  ultimately have "k = 1" by simp
  then show ?thesis using k(1) one by simp
qed

lemma ex_other: "\<not> (\<forall>l \<in> A. c = l) \<longleftrightarrow> (\<exists>l \<in> A. l \<noteq> c)"
  by auto

text \<open>
  Support types mention no source lifetime: every free lifetime of a support type and of an erased type
  is \<open>'static\<close>, and the textual test for a source lifetime answers exactly whether the type has a free
  lifetime other than \<open>'static\<close>.
\<close>

lemma support_types_erased:
  assumes "''static'' \<notin> set (binders_of ty)"
  shows "set (free_lifetimes [] (support_type ty)) \<subseteq> {''static''} \<and> set (free_lifetimes [] (erased_source_type ty)) \<subseteq> {''static''} \<and>
    (has_source_lifetime ty \<longleftrightarrow> (\<exists>l \<in> set (free_lifetimes [] ty). l \<noteq> ''static''))"
proof -
  have "free_lifetimes [] (support_type ty) = map (\<lambda>l. ''static'') (free_lifetimes [] ty)"
    unfolding support_type_def using assms by (intro rebase.walk_free) simp
  moreover have "free_lifetimes [] (erased_source_type ty) = map (\<lambda>l. ''static'') (free_lifetimes [] ty)"
    unfolding erased_source_type_def using assms by (intro erase.walk_free) simp
  moreover have "has_source_lifetime ty \<longleftrightarrow> (\<exists>l \<in> set (free_lifetimes [] ty). l \<noteq> ''static'')"
  proof -
    have "has_source_lifetime ty \<longleftrightarrow> \<not> (\<forall>l \<in> set (free_lifetimes [] ty). ''static'' = l)"
      unfolding has_source_lifetime_def erased_source_type_def erase.walk_tokens [symmetric] by (rule arg_cong [where f = Not], rule eq_commute)
    then show ?thesis by (simp only: ex_other)
  qed
  ultimately show ?thesis by (simp add: image_subset_iff)
qed

section \<open>Parameters and predicates of wire support\<close>

lemma map_filter_map_option: "(\<And>x. f x = map_option h (g x)) \<Longrightarrow> List.map_filter f xs = map h (List.map_filter g xs)"
  by (induction xs) (auto simp: List.map_filter_def)

lemma unmentioned_free: "\<not> mentions_source Ds s t \<longleftrightarrow> set (free_lifetimes s t) \<inter> set Ds = {}"
  by (auto simp: mentions_source_iff)

lemma wire_default_free:
  assumes "''static'' \<notin> set (binders_of t)" "''static'' \<notin> set (source_lifetimes_of G)"
  shows "set (free_lifetimes [] (walk (source_lifetime_rebinder G) [] t)) \<inter> set (source_lifetimes_of G) = {}"
proof -
  have "source_lifetime_rebinder G = DeclaredLifetimeRebinder (source_lifetimes_of G) ''static''"
    by (simp add: source_lifetime_rebinder_def DeclaredLifetimeRebinder_def)
  moreover have "free_lifetimes [] (walk (DeclaredLifetimeRebinder (source_lifetimes_of G) ''static'') [] t) =
      map (\<lambda>l. if l \<in> set (source_lifetimes_of G) then ''static'' else l) (free_lifetimes [] t)"
    using assms(1) by (intro rebind.walk_free) (auto split: if_splits)
  ultimately show ?thesis using assms(2) by auto
qed

text \<open>
  Wire support is independent of the source lifetimes: no bound or default of its type parameters and
  no retained \<open>where\<close> predicate has a free declared lifetime, its arguments are its parameters in order,
  and nothing else is lost - a bound that mentions no declared lifetime, on a subject that mentions
  none, is retained.
\<close>

theorem wire_generics_source_independent:
  assumes "''static'' \<notin> set (source_lifetimes_of G)"
    and "\<And>s bounds t. GenType s bounds (Some t) \<in> set (ge_params G) \<Longrightarrow> ''static'' \<notin> set (binders_of t)"
  shows "(\<forall>s bounds dflt. GenType s bounds dflt \<in> set (wire_generic_parameters G) \<longrightarrow>
      (\<forall>t \<in> set bounds \<union> set_option dflt. set (free_lifetimes [] t) \<inter> set (source_lifetimes_of G) = {})) \<and>
    (\<forall>b ty bounds. WhereType b ty bounds \<in> set (erased_where_predicates G) \<longrightarrow> bounds \<noteq> [] \<and>
      (\<forall>t \<in> set (ty # bounds). set (free_lifetimes (push_scope b []) t) \<inter> set (source_lifetimes_of G) = {})) \<and>
    wire_arguments G = map (\<lambda>p. case p of GenType s bounds dflt \<Rightarrow> s | GenConst s ty \<Rightarrow> s | GenLifetime l bounds \<Rightarrow> l) (wire_generic_parameters G) \<and>
    (\<forall>ps b ty bounds x. ge_where G = Some ps \<and> WhereType b ty bounds \<in> set ps \<and> x \<in> set bounds \<and>
      (\<forall>t \<in> {ty, x}. set (free_lifetimes (push_scope b []) t) \<inter> set (source_lifetimes_of G) = {}) \<longrightarrow>
      (\<exists>kept. WhereType b ty kept \<in> set (erased_where_predicates G) \<and> x \<in> set kept))"
proof (intro conjI allI impI)
  fix s bounds dflt assume "GenType s bounds dflt \<in> set (wire_generic_parameters G)"
  then obtain p where "p \<in> set (ge_params G)" "(case p of GenType s bounds dflt \<Rightarrow> Some (rebind_type_parameter G s bounds dflt)
      | GenConst s ty \<Rightarrow> Some (GenConst s ty) | GenLifetime l bounds \<Rightarrow> None) = Some (GenType s bounds dflt)"
    by (auto simp: wire_generic_parameters_def in_map_filter)
  then obtain bs d where p: "GenType s bs d \<in> set (ge_params G)" "GenType s bounds dflt = rebind_type_parameter G s bs d"
    by (cases p rule: gen_param.exhaust) (auto simp: rebind_type_parameter_def)
  then show "\<forall>t \<in> set bounds \<union> set_option dflt. set (free_lifetimes [] t) \<inter> set (source_lifetimes_of G) = {}"
    using wire_default_free [OF _ assms(1)] assms(2)
    by (cases d) (auto simp: rebind_type_parameter_def bound_mentions_declared_source_lifetime_def unmentioned_free)
next
  fix b ty bounds assume "WhereType b ty bounds \<in> set (erased_where_predicates G)"
  then obtain q where q: "erased_predicate G q = Some (WhereType b ty bounds)"
    by (auto simp: erased_where_predicates_def in_map_filter split: option.splits)
  then show "bounds \<noteq> []" "\<forall>t \<in> set (ty # bounds). set (free_lifetimes (push_scope b []) t) \<inter> set (source_lifetimes_of G) = {}"
    by (cases q; auto simp: predicate_bounded_type_mentions_source_def predicate_bound_mentions_source_def unmentioned_free Let_def split: if_splits)+
next
  show "wire_arguments G = map (\<lambda>p. case p of GenType s bounds dflt \<Rightarrow> s | GenConst s ty \<Rightarrow> s | GenLifetime l bounds \<Rightarrow> l) (wire_generic_parameters G)"
    unfolding wire_arguments_def wire_generic_parameters_def
    by (rule map_filter_map_option) (simp add: rebind_type_parameter_def split: gen_param.split)
next
  fix ps b ty bounds x
  assume w: "ge_where G = Some ps \<and> WhereType b ty bounds \<in> set ps \<and> x \<in> set bounds \<and>
      (\<forall>t \<in> {ty, x}. set (free_lifetimes (push_scope b []) t) \<inter> set (source_lifetimes_of G) = {})"
  let ?kept = "filter (\<lambda>bound. \<not> predicate_bound_mentions_source G b bound) bounds"
  have "x \<in> set ?kept" using w by (simp add: predicate_bound_mentions_source_def unmentioned_free)
  moreover have "erased_predicate G (WhereType b ty bounds) = Some (WhereType b ty ?kept)"
    using w \<open>x \<in> set ?kept\<close> by (auto simp: predicate_bounded_type_mentions_source_def unmentioned_free Let_def filter_empty_conv)
  ultimately show "\<exists>kept. WhereType b ty kept \<in> set (erased_where_predicates G) \<and> x \<in> set kept"
    using w by (auto simp: erased_where_predicates_def in_map_filter intro!: bexI [of _ "WhereType b ty bounds"])
qed

theorem wire_generics_source_independent_witness: "wire_arguments sample_generics = [''T'']"
proof -
  have "wire_generic_parameters sample_generics = [GenType ''T'' [PathNode BoundPath [] [Segment ''Copy'' []]] None]"
    unfolding wire_generic_parameters_def rebind_type_parameter_def bound_mentions_declared_source_lifetime_def sample_declared
    by (simp add: List.map_filter_def)
  then show ?thesis using wire_generics_source_independent [of sample_generics] by (simp add: sample_declared)
qed

section \<open>Where the visitors differ\<close>

text \<open>The scope-forgetting rebinder renames a lifetime that a shadowing binder still binds; the lexical one does not.\<close>

lemma shadowed_binder_renamed:
  "walk (SourceLifetimeRebinder [''a''] ''v'') [] (Scope (Some [(''a'', [])]) [Life ''a'']) = Scope (Some [(''a'', [])]) [Life ''v''] \<and>
   walk (DeclaredLifetimeRebinder [''a''] ''v'') [] (Scope (Some [(''a'', [])]) [Life ''a'']) = Scope (Some [(''a'', [])]) [Life ''a'']"
  by (simp add: SourceLifetimeRebinder_def DeclaredLifetimeRebinder_def rebind_lifetime_def walk_binders_def is_bound_def bound_lifetime_names_def)

text \<open>
  The probe for a declared lifetime compares the written type with a rebased one: it is exact for types whose
  paths need no rebasing, and reports a lifetime for a path through \<open>self\<close> that has none.
\<close>

lemma probe_exact:
  assumes "logical_source_type ty = ty" "set (binders_of ty) \<inter> set (source_lifetimes_of G) = {}" "probe \<notin> set (source_lifetimes_of G)"
  shows "type_uses_declared_source_lifetime G ty probe \<longleftrightarrow> (\<exists>l \<in> set (free_lifetimes [] ty). l \<in> set (source_lifetimes_of G))"
proof -
  have "rebind_source_type G ty probe = walk (DeclaredLifetimeRebinder (source_lifetimes_of G) probe) [] ty"
    unfolding rebind_source_type_def assms(1) using assms(2) by (intro rebinders_agree) simp_all
  then have "type_uses_declared_source_lifetime G ty probe \<longleftrightarrow>
      \<not> (\<forall>l \<in> set (free_lifetimes [] ty). (if l \<in> set (source_lifetimes_of G) then probe else l) = l)"
    unfolding type_uses_declared_source_lifetime_def rebind.walk_tokens [symmetric] by auto
  then show ?thesis using assms(3) by (auto split: if_splits)
qed

lemma probe_reports_rebased_path:
  "type_uses_declared_source_lifetime \<lparr>ge_params = [], ge_where = None\<rparr> (PathNode TypePath [] [Segment ''self'' [], Segment ''Kind'' []]) ''probe''"
  by (simp add: type_uses_declared_source_lifetime_def rebind_source_type_def logical_source_type_def RebaseLogicalPaths_def SourceLifetimeRebinder_def)

end
