(* ===== verification/Zs_Bounds.thy ===== *)
theory Zs_Bounds
  imports Zs_Lifetimes Zs_Frontend
begin

text \<open>
  The headers of generated items: their generic parameters and \<open>where\<close> predicates, as \<open>emit_wire.rs\<close>,
  \<open>emit_access.rs\<close>, \<open>emit_mutation.rs\<close> and \<open>emit_patch.rs\<close> assemble them. The analysed declaration gives the
  categories; \<open>src_tree\<close> and \<open>src_len\<close> give the whole tree of a type and of a length expression, of which the
  analysis inspects parts. The theorems show that no generated header mentions a lifetime it does not
  declare.
\<close>

section \<open>Sources and predicates\<close>

record source =
  src_generics :: generics
  src_ir :: schema_ir
  src_tree :: "syn_type \<Rightarrow> node"
  src_len :: "len_expr \<Rightarrow> node"

abbreviation "src_fields S \<equiv> sc_fields (src_ir S)"

abbreviation "src_declared S \<equiv> source_lifetimes_of (src_generics S)"

definition field_trees :: "source \<Rightarrow> node list" where
  "field_trees S = map (\<lambda>f. src_tree S (if_ty f)) (src_fields S)"

definition newtypes :: "schema_ir \<Rightarrow> syn_type list" where
  "newtypes ir = List.map_filter (\<lambda>v. case iv_shape v of UnitShape \<Rightarrow> None | NewtypeShape ty \<Rightarrow> Some ty) (sc_variants ir)"

text \<open>
  The types a predicate is about: a type, its support, its payload support, its patch at a lifetime or its
  reference at a lifetime; and the traits of \<open>__private\<close> that it is bounded by.
\<close>

datatype subject = TypeSub node | SupportSub node | TaggedSupportSub node | PatchSub node string | TaggedPatchSub node string | RefSub node string

datatype bound_trait =
    WireTypeB
  | WireTypeSupportB
  | OptionalWireTypeB
  | SchemaLogicalMutationB node
  | TaggedPayloadTypeSupportB node node
  | TaggedPayloadLogicalMutationB node
  | SchemaPatchTypeB
  | TaggedPayloadPatchTypeB
  | FromB node
  | MaterializeB node

datatype predicate = SourceP where_pred | ParamP string "node list" | BoundP "string option" subject bound_trait

record header =
  hd_params :: "gen_param list"
  hd_where :: "predicate list"

section \<open>Dependencies\<close>

fun dedup_from :: "string list list \<Rightarrow> node list \<Rightarrow> node list" where
  "dedup_from seen [] = []"
| "dedup_from seen (t # ts) =
     (if List.member seen (tokens_of t) then dedup_from seen ts else t # dedup_from (tokens_of t # seen) ts)"

definition deduplicate_types :: "node list \<Rightarrow> node list" where
  "deduplicate_types = dedup_from []"

fun collect_parent_dependencies :: "(syn_type \<Rightarrow> node) \<Rightarrow> ir_category \<Rightarrow> syn_type \<Rightarrow> node list" where
  "collect_parent_dependencies tr (IrPath tagged t) ty =
     (if tagged \<or> has_source_lifetime (tr ty) then [] else [erased_source_type (tr ty)])"
| "collect_parent_dependencies tr (IrArray e n) ty =
     (case ty of TyArray elem len \<Rightarrow> collect_parent_dependencies tr e elem | _ \<Rightarrow> [])"
| "collect_parent_dependencies tr (IrOptional inner c) ty = collect_parent_dependencies tr c inner"
| "collect_parent_dependencies tr _ ty = []"

definition parent_dependency_types :: "source \<Rightarrow> node list" where
  "parent_dependency_types S =
     deduplicate_types (concat (map (\<lambda>f. collect_parent_dependencies (src_tree S) (if_category f) (if_ty f)) (src_fields S)))"

text \<open>The support type of a part of a type is the corresponding part of its support type.\<close>

fun collect_dependencies :: "(syn_type \<Rightarrow> node) \<Rightarrow> ir_category \<Rightarrow> syn_type \<Rightarrow> node list" where
  "collect_dependencies tr (IrPath tagged t) ty =
     (if \<not> tagged \<and> \<not> has_source_lifetime (tr ty) then [support_type (tr ty)] else [])"
| "collect_dependencies tr (IrArray e n) ty =
     (case ty of TyArray elem len \<Rightarrow> collect_dependencies tr e elem | _ \<Rightarrow> [])"
| "collect_dependencies tr (IrOptional inner c) ty = collect_dependencies tr c inner"
| "collect_dependencies tr _ ty = []"

definition dependency_types :: "source \<Rightarrow> node list" where
  "dependency_types S =
     deduplicate_types (concat (map (\<lambda>f. collect_dependencies (src_tree S) (if_category f) (if_ty f)) (src_fields S)))"

definition optional_support_types :: "source \<Rightarrow> node list" where
  "optional_support_types S = deduplicate_types
     (map (\<lambda>ty. support_type (src_tree S ty)) (concat (map (\<lambda>f. collect_optional_dependencies (if_category f)) (src_fields S))))"

definition tagged_dependency_types :: "source \<Rightarrow> node list" where
  "tagged_dependency_types S = deduplicate_types
     (map support_type (filter (\<lambda>t. \<not> has_source_lifetime t) (map (src_tree S) (newtypes (src_ir S)))))"

definition wire_header :: "source \<Rightarrow> header" where
  "wire_header S = \<lparr>hd_params = wire_generic_parameters (src_generics S),
     hd_where = map SourceP (erased_where_predicates (src_generics S)) @ map (\<lambda>t. BoundP None (TypeSub t) WireTypeB) (dependency_types S)\<rparr>"

definition where_list :: "generics \<Rightarrow> predicate list" where
  "where_list G = (case ge_where G of None \<Rightarrow> [] | Some ps \<Rightarrow> map SourceP ps)"

definition impl_generics_with_dependencies :: "generics \<Rightarrow> node list \<Rightarrow> header" where
  "impl_generics_with_dependencies G types =
     \<lparr>hd_params = ge_params G, hd_where = where_list G @ map (\<lambda>t. BoundP None (TypeSub t) WireTypeB) types\<rparr>"

definition impl_generics_with_support_dependencies :: "generics \<Rightarrow> node list \<Rightarrow> header" where
  "impl_generics_with_support_dependencies G types =
     \<lparr>hd_params = ge_params G, hd_where = where_list G @ map (\<lambda>t. BoundP None (TypeSub t) WireTypeSupportB) types\<rparr>"

definition optional_wire_type_bounds :: "source \<Rightarrow> predicate list" where
  "optional_wire_type_bounds S = map (\<lambda>t. BoundP None (TypeSub t) OptionalWireTypeB) (optional_support_types S)"

section \<open>Records\<close>

text \<open>Drawing a generated lifetime; its name is used without the apostrophe.\<close>

definition fresh_bind :: "env \<Rightarrow> source \<Rightarrow> string \<Rightarrow> (string \<Rightarrow> (diag, 'a) res option) \<Rightarrow> (diag, 'a) res option" where
  "fresh_bind H S stem k =
     (case fresh_generated_lifetime H (src_generics S) (field_trees S) (map (src_tree S) (newtypes (src_ir S))) stem of
        None \<Rightarrow> None
      | Some (Ok l) \<Rightarrow> k (tl l)
      | Some (Err e) \<Rightarrow> Some (Err e)
      | Some Panic \<Rightarrow> Some Panic)"

fun filter_map_res :: "('a \<Rightarrow> ('e, 'b option) res) \<Rightarrow> 'a list \<Rightarrow> ('e, 'b list) res" where
  "filter_map_res f [] = Ok []"
| "filter_map_res f (x # xs) = and_then (f x) (\<lambda>y. and_then (filter_map_res f xs) (\<lambda>ys. Ok (case y of None \<Rightarrow> ys | Some z \<Rightarrow> z # ys)))"

definition rebound_support_type :: "source \<Rightarrow> syn_type \<Rightarrow> string \<Rightarrow> node" where
  "rebound_support_type S ty lifetime = rebind_declared_source_lifetimes (src_generics S) (logical_source_type (src_tree S ty)) lifetime"

text \<open>The schema inside an optional field; any other category is \<open>unreachable!\<close>.\<close>

fun optional_child :: "syn_type \<Rightarrow> ir_category \<Rightarrow> (diag, syn_type) res" where
  "optional_child inner_ty (IrPath tagged t) = Ok inner_ty"
| "optional_child inner_ty (IrArray e n) = (case inner_ty of TyArray elem len \<Rightarrow> Ok elem | _ \<Rightarrow> Panic)"
| "optional_child inner_ty _ = Panic"

definition optional_logical_predicate :: "source \<Rightarrow> string \<Rightarrow> ir_field \<Rightarrow> (diag, predicate option) res" where
  "optional_logical_predicate S lifetime f = (case if_category f of
     IrOptional inner_ty inner \<Rightarrow> and_then (optional_child inner_ty inner) (\<lambda>child.
       Ok (Some (BoundP (Some lifetime) (SupportSub (support_type (src_tree S child)))
         (SchemaLogicalMutationB (rebound_support_type S child lifetime)))))
   | _ \<Rightarrow> Ok None)"

definition tagged_type_predicate :: "source \<Rightarrow> string \<Rightarrow> ir_field \<Rightarrow> (diag, predicate option) res" where
  "tagged_type_predicate S lifetime f = (case if_category f of
     IrPath True (Some tag_index) \<Rightarrow>
       if tag_index < length (src_fields S) then
         Ok (Some (BoundP (Some lifetime) (TypeSub (support_type (src_tree S (if_ty f))))
           (TaggedPayloadTypeSupportB (support_type (src_tree S (if_ty (src_fields S ! tag_index)))) (rebound_support_type S (if_ty f) lifetime))))
       else Panic
   | _ \<Rightarrow> Ok None)"

definition record_support_predicates :: "env \<Rightarrow> source \<Rightarrow> (diag, predicate list) res option" where
  "record_support_predicates H S =
     fresh_bind H S ''__zero_schema_optional_logical'' (\<lambda>optional_lifetime.
     fresh_bind H S ''__zero_schema_tag_logical'' (\<lambda>tagged_lifetime. Some (
       and_then (filter_map_res (optional_logical_predicate S optional_lifetime) (src_fields S)) (\<lambda>optional_bounds.
       and_then (filter_map_res (tagged_type_predicate S tagged_lifetime) (src_fields S)) (\<lambda>tag_bounds.
       Ok (map SourceP (erased_where_predicates (src_generics S)) @
         map (\<lambda>t. BoundP None (TypeSub t) WireTypeSupportB) (parent_dependency_types S) @
         optional_wire_type_bounds S @ optional_bounds @ tag_bounds))))))"

text \<open>The wire, support and error types of a record, and the capabilities, are declared over the wire parameters.\<close>

definition record_header :: "env \<Rightarrow> source \<Rightarrow> (diag, header) res option" where
  "record_header H S = map_option (\<lambda>r. and_then r (\<lambda>ps. Ok \<lparr>hd_params = wire_generic_parameters (src_generics S), hd_where = ps\<rparr>))
     (record_support_predicates H S)"

definition optional_materialize_predicate :: "source \<Rightarrow> string \<Rightarrow> ir_field \<Rightarrow> (diag, predicate option) res" where
  "optional_materialize_predicate S lifetime f = (case if_category f of
     IrOptional inner_ty inner \<Rightarrow> and_then (optional_child inner_ty inner) (\<lambda>child.
       Ok (Some (BoundP None (RefSub (support_type (src_tree S child)) lifetime) (MaterializeB (rebound_support_type S child lifetime)))))
   | _ \<Rightarrow> Ok None)"

definition logical_schema_impl :: "env \<Rightarrow> source \<Rightarrow> (diag, header) res option" where
  "logical_schema_impl H S = fresh_bind H S ''__zero_schema_view'' (\<lambda>view.
     let G = logical_view_generics (src_generics S) view in
     map_option (\<lambda>r. and_then r (\<lambda>support.
       and_then (filter_map_res (optional_materialize_predicate S view) (src_fields S)) (\<lambda>materialize.
       Ok \<lparr>hd_params = ge_params G, hd_where = where_list G @ support @ materialize\<rparr>)))
     (record_support_predicates H S))"

text \<open>The surface of a record, over the parameters of the declaration.\<close>

definition record_surface_header :: "env \<Rightarrow> source \<Rightarrow> (diag, header) res option" where
  "record_surface_header H S = (let h = impl_generics_with_support_dependencies (src_generics S) (parent_dependency_types S) in
     map_option (\<lambda>r. and_then r (\<lambda>support. Ok (h\<lparr>hd_where := hd_where h @ optional_wire_type_bounds S @ support\<rparr>)))
     (record_support_predicates H S))"

text \<open>
  The capabilities of a record are declared at the lifetime \<open>'wire\<close> over the wire parameters.
\<close>

definition capability_generics :: "generics \<Rightarrow> gen_param list" where
  "capability_generics G = GenLifetime ''wire'' [] # wire_generic_parameters G"

definition capability_header :: "env \<Rightarrow> source \<Rightarrow> (diag, header) res option" where
  "capability_header H S = map_option (\<lambda>r. and_then r (\<lambda>ps. Ok \<lparr>hd_params = capability_generics (src_generics S), hd_where = ps\<rparr>))
     (record_support_predicates H S)"

text \<open>The bounds of the declaration that depend on a source lifetime, at the lifetime of the view.\<close>

definition changed_bounds :: "node list \<Rightarrow> node list \<Rightarrow> node list" where
  "changed_bounds original logical = map snd (filter (\<lambda>(o', l). tokens_of o' \<noteq> tokens_of l) (zip original logical))"

fun parameter_predicates :: "gen_param \<times> gen_param \<Rightarrow> predicate list" where
  "parameter_predicates (GenType s bounds d, GenType s' bounds' d') = map (\<lambda>b. ParamP s' [b]) (changed_bounds bounds bounds')"
| "parameter_predicates _ = []"

fun clause_predicates :: "where_pred \<times> where_pred \<Rightarrow> predicate list" where
  "clause_predicates (WhereType b ty bounds, WhereType b' ty' bounds') = map (\<lambda>x. SourceP (WhereType b' ty' [x])) (changed_bounds bounds bounds')"
| "clause_predicates _ = []"

definition logical_value_predicates :: "generics \<Rightarrow> string \<Rightarrow> predicate list" where
  "logical_value_predicates G lifetime = (let L = logical_view_generics G lifetime; types = filter (\<lambda>p. case p of GenType _ _ _ \<Rightarrow> True | _ \<Rightarrow> False) in
     concat (map parameter_predicates (zip (types (ge_params G)) (types (ge_params L)))) @
     (case (ge_where G, ge_where L) of (Some ps, Some qs) \<Rightarrow> concat (map clause_predicates (zip ps qs)) | _ \<Rightarrow> []))"

text \<open>
  What the views of a record require besides: \<open>copy_into\<close> of the shared view and its \<open>Materialize\<close> at the
  lifetime \<open>'wire\<close> of the view, \<open>copy_into\<close> of the exclusive view at a lifetime \<open>'view\<close> of its own. A method's
  header stands inside that of its \<open>impl\<close>.
\<close>

definition logical_predicates :: "source \<Rightarrow> string \<Rightarrow> (diag, predicate list) res" where
  "logical_predicates S lifetime = and_then (filter_map_res (optional_materialize_predicate S lifetime) (src_fields S)) (\<lambda>materialize.
     Ok (logical_value_predicates (src_generics S) lifetime @ materialize))"

definition materialize_header :: "env \<Rightarrow> source \<Rightarrow> (diag, header) res option" where
  "materialize_header H S = map_option (\<lambda>r. and_then r (\<lambda>support. and_then (logical_predicates S ''wire'') (\<lambda>logical.
       Ok \<lparr>hd_params = capability_generics (src_generics S), hd_where = support @ logical\<rparr>)))
     (record_support_predicates H S)"

definition copy_into_header :: "env \<Rightarrow> source \<Rightarrow> (diag, header) res option" where
  "copy_into_header H S = map_option (\<lambda>r. and_then r (\<lambda>support. and_then (logical_predicates S ''view'') (\<lambda>logical.
       Ok \<lparr>hd_params = capability_generics (src_generics S) @ [GenLifetime ''view'' []], hd_where = support @ logical\<rparr>)))
     (record_support_predicates H S)"

section \<open>Tagged enums\<close>

text \<open>
  The payload union of a tagged enum; its support, owner and error types, which repeat no clause; its
  capabilities; and the surface of the enum, over the parameters and clauses of the declaration.
\<close>

definition tagged_wire_header :: "source \<Rightarrow> header" where
  "tagged_wire_header S = \<lparr>hd_params = wire_generic_parameters (src_generics S),
     hd_where = map SourceP (erased_where_predicates (src_generics S)) @ map (\<lambda>t. BoundP None (TypeSub t) WireTypeB) (tagged_dependency_types S)\<rparr>"

definition tagged_support_header :: "source \<Rightarrow> header" where
  "tagged_support_header S = \<lparr>hd_params = wire_generic_parameters (src_generics S), hd_where = []\<rparr>"

definition tagged_capability_header :: "source \<Rightarrow> header" where
  "tagged_capability_header S = \<lparr>hd_params = capability_generics (src_generics S), hd_where = []\<rparr>"

definition tagged_surface_header :: "source \<Rightarrow> header" where
  "tagged_surface_header S = \<lparr>hd_params = ge_params (src_generics S), hd_where = where_list (src_generics S)\<rparr>"

section \<open>Logical mutation\<close>

fun array_leaf_type :: "syn_type \<Rightarrow> syn_type" where
  "array_leaf_type (TyArray elem len) = array_leaf_type elem" | "array_leaf_type ty = ty"

definition string_logical_type :: "ir_category \<Rightarrow> string \<Rightarrow> node" where
  "string_logical_type c lifetime = Group [Token ''&'', Life lifetime, Token (case c of
     IrBorrowedStr _ _ _ _ \<Rightarrow> ''::core::primitive::str'' | IrBorrowedCStr _ _ \<Rightarrow> ''::core::ffi::CStr''
   | IrBorrowedU16Str _ _ _ _ \<Rightarrow> ''__private::U16Str'' | _ \<Rightarrow> ''__private::U16CStr'')]"

fun array_value_type :: "source \<Rightarrow> ir_category \<Rightarrow> syn_type \<Rightarrow> string \<Rightarrow> (diag, node) res" where
  "array_value_type S IrBool ty lifetime = Ok (Token ''bool'')"
| "array_value_type S (IrPath tagged t) ty lifetime = Ok (rebind_source_type (src_generics S) (src_tree S ty) lifetime)"
| "array_value_type S (IrArray e n) ty lifetime = (case ty of
     TyArray elem len \<Rightarrow> and_then (array_value_type S e elem lifetime) (\<lambda>inner. Ok (Group [inner, Token '';'', src_len S len]))
   | _ \<Rightarrow> Panic)"
| "array_value_type S c ty lifetime = Ok (if is_string_category c then string_logical_type c lifetime else src_tree S ty)"

definition wire_type_parameter_predicates :: "generics \<Rightarrow> predicate list" where
  "wire_type_parameter_predicates G = List.map_filter (\<lambda>p. case p of
     GenType s bounds dflt \<Rightarrow> (case map (walk (SourceLifetimeRebinder (source_lifetimes_of G) ''static'') []) bounds of
        [] \<Rightarrow> None | bs \<Rightarrow> Some (ParamP s bs))
   | _ \<Rightarrow> None) (ge_params G)"

record field_bounds =
  fb_child :: "predicate list"
  fb_nested :: "predicate list"
  fb_tagged_type :: "predicate list"
  fb_tagged_logical :: "predicate list"

definition schema_field_bounds :: "source \<Rightarrow> syn_type \<Rightarrow> node \<Rightarrow> bound_trait \<Rightarrow> field_bounds" where
  "schema_field_bounds S child logical trait =
     \<lparr>fb_child = [BoundP None (TypeSub (support_type (src_tree S child))) trait],
      fb_nested = [BoundP None (SupportSub (support_type (src_tree S child))) (SchemaLogicalMutationB logical)],
      fb_tagged_type = [], fb_tagged_logical = []\<rparr>"

definition tagged_field_bounds :: "source \<Rightarrow> string \<Rightarrow> string \<Rightarrow> ir_field \<Rightarrow> nat \<Rightarrow> field_bounds" where
  "tagged_field_bounds S src payload_lifetime f tag_index = (let payload = support_type (src_tree S (if_ty f)) in
     \<lparr>fb_child = [], fb_nested = [],
      fb_tagged_type = [BoundP (Some payload_lifetime) (TypeSub payload)
        (TaggedPayloadTypeSupportB (support_type (src_tree S (if_ty (src_fields S ! tag_index))))
          (rebind_source_type (src_generics S) (src_tree S (if_ty f)) payload_lifetime))],
      fb_tagged_logical = [BoundP None (TaggedSupportSub payload)
        (TaggedPayloadLogicalMutationB (rebind_source_type (src_generics S) (src_tree S (if_ty f)) src))]\<rparr>)"

definition no_field_bounds :: field_bounds where
  "no_field_bounds = \<lparr>fb_child = [], fb_nested = [], fb_tagged_type = [], fb_tagged_logical = []\<rparr>"

definition logical_field_bounds :: "source \<Rightarrow> string \<Rightarrow> string \<Rightarrow> ir_field \<Rightarrow> (diag, field_bounds) res" where
  "logical_field_bounds S src payload_lifetime f =
     (if is_tag_sibling (src_fields S) (if_index f) then Ok no_field_bounds else case if_category f of
        IrPath False t \<Rightarrow> Ok (schema_field_bounds S (if_ty f) (rebind_source_type (src_generics S) (src_tree S (if_ty f)) src) WireTypeSupportB)
      | IrPath True (Some tag_index) \<Rightarrow>
          if tag_index < length (src_fields S) then Ok (tagged_field_bounds S src payload_lifetime f tag_index) else Panic
      | IrArray e n \<Rightarrow> (case inner_leaf e of
          IrPath tagged t \<Rightarrow> and_then (array_value_type S (IrPath tagged t) (array_leaf_type (if_ty f)) src) (\<lambda>logical.
            Ok (schema_field_bounds S (array_leaf_type (if_ty f)) logical WireTypeSupportB))
        | _ \<Rightarrow> Ok no_field_bounds)
      | IrOptional inner_ty (IrPath tagged t) \<Rightarrow>
          Ok (schema_field_bounds S inner_ty (rebind_source_type (src_generics S) (src_tree S inner_ty) src) OptionalWireTypeB)
      | IrOptional inner_ty (IrArray e n) \<Rightarrow> (case inner_ty of
          TyArray elem len \<Rightarrow> and_then (array_value_type S e elem src) (\<lambda>logical. Ok (schema_field_bounds S elem logical OptionalWireTypeB))
        | _ \<Rightarrow> Panic)
      | IrOptional inner_ty _ \<Rightarrow> Panic
      | _ \<Rightarrow> Ok no_field_bounds)"

definition logical_mutation_support_where :: "env \<Rightarrow> source \<Rightarrow> string \<Rightarrow> (diag, predicate list) res option" where
  "logical_mutation_support_where H S src = fresh_bind H S ''__zero_schema_payload_logical'' (\<lambda>payload_lifetime. Some (
     and_then (filter_map_res (\<lambda>f. and_then (logical_field_bounds S src payload_lifetime f) (\<lambda>b. Ok (Some b))) (src_fields S)) (\<lambda>bs.
     Ok (map SourceP (logical_source_predicates (src_generics S) src) @
       map SourceP (erased_where_predicates (src_generics S)) @
       wire_type_parameter_predicates (src_generics S) @
       map (\<lambda>t. BoundP None (TypeSub t) WireTypeSupportB) (parent_dependency_types S) @
       optional_wire_type_bounds S @
       concat (map fb_child bs) @ concat (map fb_nested bs) @ concat (map fb_tagged_type bs) @ concat (map fb_tagged_logical bs)))))"

definition source_header :: "source \<Rightarrow> string \<Rightarrow> predicate list \<Rightarrow> header" where
  "source_header S src ps = \<lparr>hd_params = GenLifetime src [] # logical_generic_parameters (src_generics S) src, hd_where = ps\<rparr>"

definition logical_mutation_header :: "env \<Rightarrow> source \<Rightarrow> (diag, header) res option" where
  "logical_mutation_header H S = fresh_bind H S ''__zero_schema_source'' (\<lambda>src.
     map_option (\<lambda>r. and_then r (\<lambda>ps. Ok (source_header S src ps))) (logical_mutation_support_where H S src))"

definition tagged_logical_mutation_support_where :: "source \<Rightarrow> string \<Rightarrow> predicate list" where
  "tagged_logical_mutation_support_where S src =
     map SourceP (logical_source_predicates (src_generics S) src) @
     map SourceP (erased_where_predicates (src_generics S)) @
     wire_type_parameter_predicates (src_generics S) @
     map (\<lambda>t. BoundP None (TypeSub t) WireTypeSupportB) (tagged_dependency_types S) @
     map (\<lambda>ty. BoundP None (SupportSub (support_type (src_tree S ty)))
       (SchemaLogicalMutationB (rebind_source_type (src_generics S) (src_tree S ty) src))) (newtypes (src_ir S))"

definition tagged_logical_mutation_header :: "env \<Rightarrow> source \<Rightarrow> (diag, header) res option" where
  "tagged_logical_mutation_header H S = fresh_bind H S ''__zero_schema_source'' (\<lambda>src.
     Some (Ok (source_header S src (tagged_logical_mutation_support_where S src))))"

text \<open>The adapter of an array field: the bounds of its element type hold at every source lifetime.\<close>

definition array_logical_bound :: "source \<Rightarrow> string \<Rightarrow> ir_field \<Rightarrow> (diag, predicate list) res" where
  "array_logical_bound S array_source f = (case array_leaf (if_category f) of
     Some (IrPath tagged t) \<Rightarrow> and_then (array_value_type S (IrPath tagged t) (array_leaf_type (if_ty f)) array_source) (\<lambda>logical.
       Ok [BoundP (Some array_source) (SupportSub (support_type (src_tree S (array_leaf_type (if_ty f))))) (SchemaLogicalMutationB logical)])
   | _ \<Rightarrow> Ok [])"

definition array_source_bounds :: "source \<Rightarrow> string \<Rightarrow> string \<Rightarrow> ir_field \<Rightarrow> where_pred list" where
  "array_source_bounds S probe array_source f = (case (if_category f, if_ty f) of
     (IrArray e n, TyArray elem len) \<Rightarrow>
       (if type_uses_declared_source_lifetime (src_generics S) (src_tree S elem) probe then
          let relevant = array_element_parameters (src_generics S) (src_tree S elem) in
          hrtb_source_predicates (src_generics S) array_source relevant @
          hrtb_source_type_parameter_predicates (src_generics S) array_source relevant
        else [])
   | _ \<Rightarrow> [])"

definition array_adapter_header :: "env \<Rightarrow> source \<Rightarrow> ir_field \<Rightarrow> (diag, header) res option" where
  "array_adapter_header H S f = fresh_bind H S ''__zero_schema_array_value'' (\<lambda>array_source.
     fresh_bind H S ''__zero_schema_source_probe'' (\<lambda>probe. Some (
     and_then (array_logical_bound S array_source f) (\<lambda>logical_bound.
     Ok \<lparr>hd_params = wire_generic_parameters (src_generics S), hd_where =
       map SourceP (erased_where_predicates (src_generics S)) @
       wire_type_parameter_predicates (src_generics S) @
       map (\<lambda>t. BoundP None (TypeSub t) WireTypeSupportB) (parent_dependency_types S) @
       optional_wire_type_bounds S @
       map SourceP (array_source_bounds S probe array_source f) @ logical_bound\<rparr>))))"

section \<open>Patches\<close>

definition needs_generated_patch_lifetime :: "source \<Rightarrow> bool" where
  "needs_generated_patch_lifetime S \<longleftrightarrow> src_declared S = [] \<and>
     (list_ex (\<lambda>f. case if_category f of IrPath _ _ \<Rightarrow> True | _ \<Rightarrow> False) (src_fields S) \<or> newtypes (src_ir S) \<noteq> [])"

definition with_patch_lifetime :: "env \<Rightarrow> source \<Rightarrow> gen_param list \<Rightarrow> (gen_param list \<Rightarrow> (diag, 'a) res option) \<Rightarrow> (diag, 'a) res option" where
  "with_patch_lifetime H S params k =
     (if needs_generated_patch_lifetime S
      then fresh_bind H S ''__zero_schema_patch_source'' (\<lambda>l. k (GenLifetime l [] # params)) else k params)"

definition patch_source_lifetime :: "env \<Rightarrow> source \<Rightarrow> (string \<Rightarrow> (diag, 'a) res option) \<Rightarrow> (diag, 'a) res option" where
  "patch_source_lifetime H S k = (case src_declared S of
     l # _ \<Rightarrow> k l
   | [] \<Rightarrow> if needs_generated_patch_lifetime S then fresh_bind H S ''__zero_schema_patch_source'' k else k ''static'')"

definition record_patch_dependencies :: "source \<Rightarrow> (node \<times> bool) list" where
  "record_patch_dependencies S = List.map_filter (\<lambda>f.
     if is_tag_sibling (src_fields S) (if_index f) then None else case if_category f of
       IrPath tagged t \<Rightarrow> Some (support_type (src_tree S (if_ty f)), tagged)
     | IrOptional inner_ty (IrPath tagged t) \<Rightarrow> Some (support_type (src_tree S inner_ty), False)
     | _ \<Rightarrow> None) (src_fields S)"

definition tagged_patch_dependencies :: "source \<Rightarrow> (node \<times> bool) list" where
  "tagged_patch_dependencies S = map (\<lambda>ty. (support_type (src_tree S ty), False)) (newtypes (src_ir S))"

definition patch_type_bounds :: "(node \<times> bool) list \<Rightarrow> predicate list" where
  "patch_type_bounds = map (\<lambda>(t, tagged). BoundP None (TypeSub t) (if tagged then TaggedPayloadPatchTypeB else SchemaPatchTypeB))"

definition with_record_tag_bounds :: "env \<Rightarrow> source \<Rightarrow> (predicate list \<Rightarrow> (diag, 'a) res) \<Rightarrow> (diag, 'a) res option" where
  "with_record_tag_bounds H S k = fresh_bind H S ''__zero_schema_tag_logical'' (\<lambda>l. Some (
     and_then (filter_map_res (tagged_type_predicate S l) (src_fields S)) k))"

definition record_patch_header :: "env \<Rightarrow> source \<Rightarrow> (diag, header) res option" where
  "record_patch_header H S = (let G = source_independent_generics (src_generics S) in
     with_patch_lifetime H S (ge_params G) (\<lambda>params.
     with_record_tag_bounds H S (\<lambda>tag_bounds.
     Ok \<lparr>hd_params = params, hd_where = where_list G @ optional_wire_type_bounds S @
       patch_type_bounds (record_patch_dependencies S) @ tag_bounds\<rparr>)))"

text \<open>\<open>SchemaPatch\<close> of a patch demands what the support of the record demands, too.\<close>

definition add_predicates :: "(diag, header) res option \<Rightarrow> (diag, predicate list) res option \<Rightarrow> (diag, header) res option" where
  "add_predicates header predicates = (case header of
     None \<Rightarrow> None | Some h \<Rightarrow> map_option (\<lambda>ps. and_then h (\<lambda>h. and_then ps (\<lambda>ps. Ok (h\<lparr>hd_where := hd_where h @ ps\<rparr>)))) predicates)"

definition record_patch_impl_header :: "env \<Rightarrow> source \<Rightarrow> (diag, header) res option" where
  "record_patch_impl_header H S = add_predicates (record_patch_header H S) (record_support_predicates H S)"

definition tagged_patch_header :: "env \<Rightarrow> source \<Rightarrow> (diag, header) res option" where
  "tagged_patch_header H S = (let G = source_independent_generics (src_generics S) in
     with_patch_lifetime H S (ge_params G) (\<lambda>params.
     Some (Ok \<lparr>hd_params = params, hd_where = where_list G @ patch_type_bounds (tagged_patch_dependencies S)\<rparr>)))"

text \<open>\<open>From<Logical>\<close> of a patch, over the declaration's own parameters.\<close>

definition from_predicate :: "source \<Rightarrow> string \<Rightarrow> ir_field \<Rightarrow> predicate option" where
  "from_predicate S l f =
     (if is_tag_sibling (src_fields S) (if_index f) then None else case if_category f of
        IrPath tagged t \<Rightarrow> Some (BoundP None ((if tagged then TaggedPatchSub else PatchSub) (support_type (src_tree S (if_ty f))) l)
          (FromB (logical_source_type (src_tree S (if_ty f)))))
      | IrOptional inner_ty (IrPath tagged t) \<Rightarrow> Some (BoundP None (PatchSub (support_type (src_tree S inner_ty)) l)
          (FromB (logical_source_type (src_tree S inner_ty))))
      | _ \<Rightarrow> None)"

definition record_from_header :: "env \<Rightarrow> source \<Rightarrow> (diag, header) res option" where
  "record_from_header H S =
     with_patch_lifetime H S (ge_params (src_generics S)) (\<lambda>params.
     patch_source_lifetime H S (\<lambda>l.
     with_record_tag_bounds H S (\<lambda>tag_bounds.
     Ok \<lparr>hd_params = params, hd_where = where_list (src_generics S) @ patch_type_bounds (record_patch_dependencies S) @
       optional_wire_type_bounds S @ tag_bounds @ List.map_filter (from_predicate S l) (src_fields S)\<rparr>)))"

definition tagged_from_header :: "env \<Rightarrow> source \<Rightarrow> (diag, header) res option" where
  "tagged_from_header H S =
     with_patch_lifetime H S (ge_params (src_generics S)) (\<lambda>params.
     patch_source_lifetime H S (\<lambda>l.
     Some (Ok \<lparr>hd_params = params, hd_where = where_list (src_generics S) @ patch_type_bounds (tagged_patch_dependencies S) @
       map (\<lambda>ty. BoundP None (PatchSub (support_type (src_tree S ty)) l) (FromB (logical_source_type (src_tree S ty)))) (newtypes (src_ir S))\<rparr>)))"

section \<open>Scopes\<close>

text \<open>The lifetimes an emitted predicate leaves free, and headers whose free lifetimes are declared.\<close>

fun subject_lifetimes :: "subject \<Rightarrow> string list" where
  "subject_lifetimes (TypeSub t) = free_lifetimes [] t"
| "subject_lifetimes (SupportSub t) = free_lifetimes [] t"
| "subject_lifetimes (TaggedSupportSub t) = free_lifetimes [] t"
| "subject_lifetimes (PatchSub t l) = l # free_lifetimes [] t"
| "subject_lifetimes (TaggedPatchSub t l) = l # free_lifetimes [] t"
| "subject_lifetimes (RefSub t l) = l # free_lifetimes [] t"

fun trait_lifetimes :: "bound_trait \<Rightarrow> string list" where
  "trait_lifetimes (SchemaLogicalMutationB t) = free_lifetimes [] t"
| "trait_lifetimes (TaggedPayloadTypeSupportB tag t) = free_lifetimes [] tag @ free_lifetimes [] t"
| "trait_lifetimes (TaggedPayloadLogicalMutationB t) = free_lifetimes [] t"
| "trait_lifetimes (FromB t) = free_lifetimes [] t"
| "trait_lifetimes (MaterializeB t) = free_lifetimes [] t"
| "trait_lifetimes _ = []"

fun where_lifetimes :: "where_pred \<Rightarrow> string list" where
  "where_lifetimes (WhereLifetime l bounds) = l # bounds"
| "where_lifetimes (WhereType b ty bounds) = filter (\<lambda>l. \<not> is_bound (push_scope b []) l) (binder_bounds b) @
     concat (map (free_lifetimes (push_scope b [])) (ty # bounds))"

fun predicate_lifetimes :: "predicate \<Rightarrow> string list" where
  "predicate_lifetimes (SourceP p) = where_lifetimes p"
| "predicate_lifetimes (ParamP s bounds) = concat (map (free_lifetimes []) bounds)"
| "predicate_lifetimes (BoundP binder s t) = filter (\<lambda>l. Some l \<noteq> binder) (subject_lifetimes s @ trait_lifetimes t)"

fun param_lifetimes :: "gen_param \<Rightarrow> string list" where
  "param_lifetimes (GenLifetime l bounds) = bounds"
| "param_lifetimes (GenType s bounds dflt) = concat (map (free_lifetimes []) bounds) @ (case dflt of None \<Rightarrow> [] | Some t \<Rightarrow> free_lifetimes [] t)"
| "param_lifetimes (GenConst s ty) = free_lifetimes [] ty"

definition header_within :: "string set \<Rightarrow> header \<Rightarrow> bool" where
  "header_within A h \<longleftrightarrow> (\<forall>p \<in> set (hd_params h). set (param_lifetimes p) \<subseteq> A) \<and> (\<forall>q \<in> set (hd_where h). set (predicate_lifetimes q) \<subseteq> A)"

definition well_scoped :: "header \<Rightarrow> bool" where
  "well_scoped h \<longleftrightarrow> header_within (insert ''static'' (set (List.map_filter lifetime_param (hd_params h)))) h"

section \<open>Sources that compile\<close>

text \<open>
  What \<open>rustc\<close> demands of the declaration itself: every free lifetime is declared or \<open>'static\<close>, and no binder
  shadows a declared lifetime or \<open>'static\<close>. The trees of the parts of a field's type occur in its tree.
\<close>

definition tree_scoped :: "string list \<Rightarrow> string list list \<Rightarrow> node \<Rightarrow> bool" where
  "tree_scoped Ds scopes t \<longleftrightarrow> set (free_lifetimes scopes t) \<subseteq> insert ''static'' (set Ds) \<and> set (binders_of t) \<inter> insert ''static'' (set Ds) = {}"

fun param_scoped :: "string list \<Rightarrow> gen_param \<Rightarrow> bool" where
  "param_scoped Ds (GenLifetime l bounds) \<longleftrightarrow> set bounds \<subseteq> insert ''static'' (set Ds)"
| "param_scoped Ds (GenType s bounds dflt) \<longleftrightarrow> list_all (tree_scoped Ds []) (bounds @ (case dflt of None \<Rightarrow> [] | Some t \<Rightarrow> [t]))"
| "param_scoped Ds (GenConst s ty) \<longleftrightarrow> free_lifetimes [] ty = []"

fun clause_scoped :: "string list \<Rightarrow> where_pred \<Rightarrow> bool" where
  "clause_scoped Ds (WhereLifetime l bounds) \<longleftrightarrow> set (l # bounds) \<subseteq> insert ''static'' (set Ds)"
| "clause_scoped Ds (WhereType b ty bounds) \<longleftrightarrow>
     (\<forall>l \<in> insert ''static'' (set Ds). \<not> is_bound (push_scope b []) l) \<and>
     set (filter (\<lambda>l. \<not> is_bound (push_scope b []) l) (binder_bounds b)) \<subseteq> {''static''} \<and>
     list_all (tree_scoped Ds (push_scope b [])) (ty # bounds)"

fun type_parts :: "ir_category \<Rightarrow> syn_type \<Rightarrow> syn_type list" where
  "type_parts (IrArray e n) ty = ty # (case ty of TyArray elem len \<Rightarrow> type_parts e elem | _ \<Rightarrow> [])"
| "type_parts (IrOptional inner c) ty = ty # type_parts c inner"
| "type_parts c ty = [ty]"

definition field_parts :: "ir_field \<Rightarrow> syn_type list" where
  "field_parts f = array_leaf_type (if_ty f) # type_parts (if_category f) (if_ty f)"

definition source_scoped :: "source \<Rightarrow> bool" where
  "source_scoped S \<longleftrightarrow> ''static'' \<notin> set (src_declared S) \<and>
     list_all (param_scoped (src_declared S)) (ge_params (src_generics S)) \<and>
     list_all (clause_scoped (src_declared S)) (case ge_where (src_generics S) of None \<Rightarrow> [] | Some ps \<Rightarrow> ps) \<and>
     (\<forall>f \<in> set (src_fields S). \<forall>ty \<in> set (field_parts f). tree_scoped (src_declared S) [] (src_tree S ty) \<and>
        set (visit_lifetimes (src_tree S ty)) \<subseteq> set (visit_lifetimes (src_tree S (if_ty f)))) \<and>
     (\<forall>ty \<in> set (newtypes (src_ir S)). tree_scoped (src_declared S) [] (src_tree S ty))"

abbreviation "src_names S \<equiv> lifetime_names (src_generics S) (field_trees S) (map (src_tree S) (newtypes (src_ir S)))"

lemma part_self: "ty \<in> set (type_parts c ty)"
  by (cases c) auto

lemma field_part_self: "if_ty f \<in> set (field_parts f)"
  by (simp add: field_parts_def part_self)

lemma field_part_inner: "if_category f = IrOptional inner c \<Longrightarrow> inner \<in> set (field_parts f)"
  by (simp add: field_parts_def part_self)

section \<open>Trees\<close>

lemma erased_within:
  assumes "tree_scoped Ds [] t"
  shows "set (free_lifetimes [] (support_type t)) \<subseteq> {''static''}" "set (free_lifetimes [] (erased_source_type t)) \<subseteq> {''static''}"
  using assms support_types_erased [of t] by (auto simp: tree_scoped_def)

lemma rebind_within:
  assumes "tree_scoped Ds scopes t" "r \<notin> set (binders_of t)" "\<not> is_bound scopes r"
  shows "set (free_lifetimes scopes (walk (DeclaredLifetimeRebinder Ds r) scopes t)) \<subseteq> {''static'', r}"
proof -
  have "free_lifetimes scopes (walk (DeclaredLifetimeRebinder Ds r) scopes t) =
      map (\<lambda>l. if l \<in> set Ds then r else l) (free_lifetimes scopes t)"
    using assms by (intro rebind.walk_free) (auto split: if_splits)
  then show ?thesis using assms(1) by (auto simp: tree_scoped_def)
qed

lemma source_rebind_within:
  assumes "tree_scoped Ds scopes t" "r \<notin> set (binders_of t)" "\<not> is_bound scopes r" "\<forall>l \<in> set Ds. \<not> is_bound scopes l"
  shows "set (free_lifetimes scopes (walk (SourceLifetimeRebinder Ds r) [] t)) \<subseteq> {''static'', r}"
proof -
  have "walk (SourceLifetimeRebinder Ds r) [] t = walk (DeclaredLifetimeRebinder Ds r) scopes t"
    using assms(1,4) by (intro rebinders_agree) (auto simp: tree_scoped_def)
  then show ?thesis using rebind_within [OF assms(1-3)] by simp
qed

lemma logical_source_type_scope:
  "free_lifetimes [] (logical_source_type t) = free_lifetimes [] t" "binders_of (logical_source_type t) = binders_of t"
  using logical.walk_free [of "[]" t] logical.walk_binders_of [of "[]" t] by (simp_all add: logical_source_type_def)

lemma rebound_within:
  assumes "tree_scoped (src_declared S) [] (src_tree S ty)" "r \<notin> set (binders_of (src_tree S ty))"
  shows "set (free_lifetimes [] (rebound_support_type S ty r)) \<subseteq> {''static'', r}"
    "set (free_lifetimes [] (rebind_source_type (src_generics S) (src_tree S ty) r)) \<subseteq> {''static'', r}"
proof -
  have t: "tree_scoped (src_declared S) [] (logical_source_type (src_tree S ty))" "r \<notin> set (binders_of (logical_source_type (src_tree S ty)))"
    using assms by (simp_all add: tree_scoped_def logical_source_type_scope)
  show "set (free_lifetimes [] (rebound_support_type S ty r)) \<subseteq> {''static'', r}"
    unfolding rebound_support_type_def rebind_declared_source_lifetimes_def using t by (intro rebind_within) simp_all
  show "set (free_lifetimes [] (rebind_source_type (src_generics S) (src_tree S ty) r)) \<subseteq> {''static'', r}"
    unfolding rebind_source_type_def using t by (intro source_rebind_within) simp_all
qed

lemma unmentioned_within:
  "tree_scoped Ds scopes t \<Longrightarrow> \<not> mentions_source Ds scopes t \<Longrightarrow> set (free_lifetimes scopes t) \<subseteq> {''static''}"
  unfolding tree_scoped_def unmentioned_free by blast

section \<open>Names a declaration does not mention\<close>

text \<open>
  A lifetime a declaration can be rebound at: one it does not mention, or one of its own, which no binder
  shadows.
\<close>

definition usable :: "source \<Rightarrow> string \<Rightarrow> bool" where
  "usable S r \<longleftrightarrow> r \<notin> set (src_names S) \<or> r \<in> set (src_declared S)"

lemma fresh_exists:
  assumes "length (src_names S) < usize_limit H"
  obtains l where "usable S l"
    "fresh_generated_lifetime H (src_generics S) (field_trees S) (map (src_tree S) (newtypes (src_ir S))) stem = Some (Ok (CHR 0x27 # l))"
  using fresh_search [OF assms, of stem] unfolding usable_def by blast

lemma fresh_bind_eq:
  "fresh_generated_lifetime H (src_generics S) (field_trees S) (map (src_tree S) (newtypes (src_ir S))) stem = Some (Ok (CHR 0x27 # l)) \<Longrightarrow>
   fresh_bind H S stem k = k l"
  by (simp add: fresh_bind_def)

lemma param_names: "p \<in> set (ge_params G) \<Longrightarrow> set (visit_param_lifetimes p) \<subseteq> set (lifetime_names G fs ns)"
  by (auto simp: lifetime_names_def)

lemma clause_names: "ge_where G = Some ps \<Longrightarrow> p \<in> set ps \<Longrightarrow> set (visit_predicate_lifetimes p) \<subseteq> set (lifetime_names G fs ns)"
  by (auto simp: lifetime_names_def)

lemma source_scopedD:
  assumes "source_scoped S"
  shows "''static'' \<notin> set (src_declared S)"
    and "GenType s bounds dflt \<in> set (ge_params (src_generics S)) \<Longrightarrow> t \<in> set bounds \<union> set_option dflt \<Longrightarrow> tree_scoped (src_declared S) [] t"
    and "GenLifetime l ls \<in> set (ge_params (src_generics S)) \<Longrightarrow> set ls \<subseteq> insert ''static'' (set (src_declared S))"
    and "GenConst s ty \<in> set (ge_params (src_generics S)) \<Longrightarrow> free_lifetimes [] ty = []"
    and "ge_where (src_generics S) = Some ps \<Longrightarrow> p \<in> set ps \<Longrightarrow> clause_scoped (src_declared S) p"
    and "f \<in> set (src_fields S) \<Longrightarrow> x \<in> set (field_parts f) \<Longrightarrow> tree_scoped (src_declared S) [] (src_tree S x)"
    and "y \<in> set (newtypes (src_ir S)) \<Longrightarrow> tree_scoped (src_declared S) [] (src_tree S y)"
proof -
  have ps: "\<forall>p \<in> set (ge_params (src_generics S)). param_scoped (src_declared S) p" using assms by (simp add: source_scoped_def list_all_iff)
  show "GenType s bounds dflt \<in> set (ge_params (src_generics S)) \<Longrightarrow> t \<in> set bounds \<union> set_option dflt \<Longrightarrow> tree_scoped (src_declared S) [] t"
    using bspec [OF ps, of "GenType s bounds dflt"] by (cases dflt) (auto simp: list_all_iff)
  show "GenLifetime l ls \<in> set (ge_params (src_generics S)) \<Longrightarrow> set ls \<subseteq> insert ''static'' (set (src_declared S))"
    using bspec [OF ps, of "GenLifetime l ls"] by simp
  show "GenConst s ty \<in> set (ge_params (src_generics S)) \<Longrightarrow> free_lifetimes [] ty = []"
    using bspec [OF ps, of "GenConst s ty"] by simp
qed (use assms in \<open>auto simp: source_scoped_def list_all_iff\<close>)

lemma names_cover:
  assumes "source_scoped S" "usable S r"
  shows "f \<in> set (src_fields S) \<Longrightarrow> ty \<in> set (field_parts f) \<Longrightarrow> r \<notin> set (binders_of (src_tree S ty))"
    and "ty \<in> set (newtypes (src_ir S)) \<Longrightarrow> r \<notin> set (binders_of (src_tree S ty))"
    and "GenType s bounds dflt \<in> set (ge_params (src_generics S)) \<Longrightarrow> t \<in> set bounds \<union> set_option dflt \<Longrightarrow> r \<notin> set (binders_of t)"
    and "ge_where (src_generics S) = Some ps \<Longrightarrow> WhereType b t bounds \<in> set ps \<Longrightarrow> u \<in> set (t # bounds) \<Longrightarrow>
      r \<notin> set (binders_of u) \<and> \<not> is_bound (push_scope b []) r"
proof -
  have own: "r \<notin> set (binders_of t)" if "tree_scoped (src_declared S) sc t" "r \<in> set (src_declared S)" for t sc
    using that by (auto simp: tree_scoped_def)
  have free: "r \<notin> set (binders_of t)" if "set (visit_lifetimes t) \<subseteq> set (src_names S)" "r \<notin> set (src_names S)" for t
    using that binders_visited [of t] by blast
  show "r \<notin> set (binders_of (src_tree S ty))" if f: "f \<in> set (src_fields S)" "ty \<in> set (field_parts f)"
  proof -
    have "set (visit_lifetimes (src_tree S ty)) \<subseteq> set (visit_lifetimes (src_tree S (if_ty f)))" using assms(1) f by (auto simp: source_scoped_def)
    also have "\<dots> \<subseteq> set (src_names S)" using f(1) by (auto simp: lifetime_names_def field_trees_def)
    finally show ?thesis using assms(2) free own [OF source_scopedD(6) [OF assms(1) f]] unfolding usable_def by blast
  qed
  show "r \<notin> set (binders_of (src_tree S ty))" if n: "ty \<in> set (newtypes (src_ir S))"
  proof -
    have "set (visit_lifetimes (src_tree S ty)) \<subseteq> set (src_names S)" using n by (auto simp: lifetime_names_def)
    then show ?thesis using assms(2) free own [OF source_scopedD(7) [OF assms(1) n]] unfolding usable_def by blast
  qed
  show "r \<notin> set (binders_of t)" if g: "GenType s bounds dflt \<in> set (ge_params (src_generics S))" "t \<in> set bounds \<union> set_option dflt"
  proof -
    have "set (visit_lifetimes t) \<subseteq> set (visit_param_lifetimes (GenType s bounds dflt))" using g(2) by auto
    also have "\<dots> \<subseteq> set (src_names S)" using g(1) by (rule param_names)
    finally show ?thesis using assms(2) free own [OF source_scopedD(2) [OF assms(1) g]] unfolding usable_def by blast
  qed
  show "r \<notin> set (binders_of u) \<and> \<not> is_bound (push_scope b []) r"
    if w: "ge_where (src_generics S) = Some ps" "WhereType b t bounds \<in> set ps" "u \<in> set (t # bounds)"
  proof -
    have names: "set (visit_predicate_lifetimes (WhereType b t bounds)) \<subseteq> set (src_names S)"
      using w(1,2) by (rule clause_names)
    moreover have "set (visit_lifetimes u) \<subseteq> set (visit_predicate_lifetimes (WhereType b t bounds))" using w(3) by auto
    moreover have "is_bound (push_scope b []) r \<Longrightarrow> r \<in> set (visit_predicate_lifetimes (WhereType b t bounds))"
      by (force simp: is_bound_push binder_lifetimes_def bound_lifetime_names_def)
    moreover have "tree_scoped (src_declared S) (push_scope b []) u" "\<forall>l \<in> set (src_declared S). \<not> is_bound (push_scope b []) l"
      using source_scopedD(5) [OF assms(1) w(1,2)] w(3) by (auto simp: list_all_iff)
    ultimately show ?thesis using assms(2) free [of u] own [of "push_scope b []" u] unfolding usable_def by blast
  qed
qed

section \<open>Predicates of the declaration\<close>

lemma filter_unbound_renamed:
  assumes "set (filter (\<lambda>l. \<not> is_bound s l) ks) \<subseteq> {''static''}" "''static'' \<notin> set Ds"
  shows "set (filter (\<lambda>l. \<not> is_bound s l) (map (rebind_lifetime Ds r s) ks)) \<subseteq> {''static''}"
  using assms by (auto simp: rebind_lifetime_def split: if_splits)

lemma renamed_scope: "push_scope (walk_binders (rebind_lifetime Ds r) (push_scope b s) b) s' = push_scope b s'"
  using rebind.push_walk [of Ds r b s s'] by (simp add: DeclaredLifetimeRebinder_def)

lemma children_within: "(\<And>n. n \<in> set ns \<Longrightarrow> set (f n) \<subseteq> A) \<Longrightarrow> set (concat (map f ns)) \<subseteq> A"
  by auto

lemma walked_clause_within:
  assumes "clause_scoped Ds (WhereType b ty bounds)" "''static'' \<notin> set Ds"
    and new: "\<And>u. u \<in> set (ty # bounds) \<Longrightarrow> r \<notin> set (binders_of u)" "\<not> is_bound (push_scope b []) r"
    and v: "v = SourceLifetimeRebinder Ds r \<or> v = DeclaredLifetimeRebinder Ds r"
  shows "set (where_lifetimes (walk_predicate v (WhereType b ty bounds))) \<subseteq> {''static'', r}"
proof -
  let ?s = "push_scope b []" and ?inner = "if vm_lexical v then push_scope b [] else []"
  have walk: "set (free_lifetimes ?s (walk v ?inner u)) \<subseteq> {''static'', r}" if "u \<in> set (ty # bounds)" for u
  proof -
    have u: "tree_scoped Ds ?s u" "r \<notin> set (binders_of u)" "\<not> is_bound ?s r" "\<forall>l \<in> set Ds. \<not> is_bound ?s l"
      using assms(1) that new by (auto simp: list_all_iff)
    from v show ?thesis
      using source_rebind_within [OF u] rebind_within [OF u(1-3)]
      by (auto simp: SourceLifetimeRebinder_def DeclaredLifetimeRebinder_def)
  qed
  have lt: "vm_lifetime v = rebind_lifetime Ds r" using v by (auto simp: SourceLifetimeRebinder_def DeclaredLifetimeRebinder_def)
  have bb: "set (filter (\<lambda>l. \<not> is_bound ?s l) (binder_bounds (walk_binders (rebind_lifetime Ds r) ?s b))) \<subseteq> {''static''}"
    unfolding rebind.walk_binder_bounds using assms(1,2) by (intro filter_unbound_renamed) simp_all
  have "set (concat (map (free_lifetimes ?s) (map (walk v ?inner) (ty # bounds)))) \<subseteq> {''static'', r}"
    unfolding map_map by (rule children_within) (simp only: comp_def walk)
  then show ?thesis using bb by (auto simp: lt renamed_scope Let_def)
qed

lemma free_more:
  assumes "\<And>l. is_bound s' l \<longleftrightarrow> is_bound s l \<or> l = r"
  shows "free_lifetimes s' t = filter (\<lambda>l. l \<noteq> r) (free_lifetimes s t)"
  using assms
proof (induction t arbitrary: s s')
  case (Scope b ns)
  have b: "is_bound (push_scope b s') l \<longleftrightarrow> is_bound (push_scope b s) l \<or> l = r" for l
    using Scope.prems by (auto simp: is_bound_push)
  have "free_lifetimes (push_scope b s') n = filter (\<lambda>l. l \<noteq> r) (free_lifetimes (push_scope b s) n)" if "n \<in> set ns" for n
    using Scope.IH [OF that b] .
  then have "concat (map (free_lifetimes (push_scope b s')) ns) = filter (\<lambda>l. l \<noteq> r) (concat (map (free_lifetimes (push_scope b s)) ns))"
    by (simp add: filter_concat comp_def cong: map_cong)
  moreover have "filter (\<lambda>l. \<not> is_bound (push_scope b s') l) (binder_bounds b) = filter (\<lambda>l. l \<noteq> r) (filter (\<lambda>l. \<not> is_bound (push_scope b s) l) (binder_bounds b))"
    by (simp add: b conj_commute)
  ultimately show ?case by simp
qed (simp_all add: filter_concat comp_def cong: map_cong)

lemma bound_clause_within:
  assumes "set (where_lifetimes (WhereType b ty bounds)) \<subseteq> {''static'', r}" "r \<noteq> ''static''"
  shows "set (where_lifetimes (bind_predicate_lifetime r (WhereType b ty bounds))) \<subseteq> {''static''}"
proof -
  let ?b = "Some ((r, []) # (case b of None \<Rightarrow> [] | Some ls \<Rightarrow> ls))"
  have bound: "is_bound (push_scope ?b []) l \<longleftrightarrow> is_bound (push_scope b []) l \<or> l = r" for l
    by (cases b) (auto simp: is_bound_def bound_lifetime_names_def)
  have "binder_bounds ?b = binder_bounds b" by (cases b) (simp_all add: binder_bounds_def)
  then show ?thesis
    using assms free_more [of "push_scope ?b []" "push_scope b []" r, OF bound] by (auto simp: bound [simplified])
qed

lemma erased_clauses_within:
  assumes "source_scoped S" "q \<in> set (erased_where_predicates (src_generics S))"
  shows "set (where_lifetimes q) \<subseteq> {''static''}"
proof -
  let ?Ds = "src_declared S"
  obtain ps where ps: "ge_where (src_generics S) = Some ps"
    using assms(2) by (cases "ge_where (src_generics S)") (simp_all add: erased_where_predicates_def)
  then obtain p where p: "ge_where (src_generics S) = Some ps" "p \<in> set ps" "erased_predicate (src_generics S) p = Some q"
    using assms(2) by (auto simp: erased_where_predicates_def in_map_filter)
  then obtain b ty bounds where P: "p = WhereType b ty bounds" by (cases p rule: where_pred.exhaust) auto
  have cl: "clause_scoped ?Ds (WhereType b ty bounds)" using source_scopedD(5) [OF assms(1) p(1,2)] P by simp
  let ?kept = "filter (\<lambda>bound. \<not> predicate_bound_mentions_source (src_generics S) b bound) bounds"
  have q: "q = WhereType b ty ?kept" "\<not> mentions_source ?Ds (push_scope b []) ty"
    using p(3) P by (auto simp: predicate_bounded_type_mentions_source_def Let_def split: if_splits)
  have "set (free_lifetimes (push_scope b []) u) \<subseteq> {''static''}" if "u \<in> set (ty # ?kept)" for u
    using that cl q(2) by (intro unmentioned_within [of ?Ds]) (auto simp: list_all_iff predicate_bound_mentions_source_def)
  then have "set (concat (map (free_lifetimes (push_scope b [])) (ty # ?kept))) \<subseteq> {''static''}" by (rule children_within)
  then show ?thesis using cl q(1) by simp
qed

lemma source_clauses_within:
  assumes "source_scoped S" "usable S r" "q \<in> set (logical_source_predicates (src_generics S) r)"
  shows "set (where_lifetimes q) \<subseteq> {''static'', r}"
proof -
  obtain ps where ps: "ge_where (src_generics S) = Some ps"
    using assms(3) by (cases "ge_where (src_generics S)") (simp_all add: logical_source_predicates_def)
  obtain p where "p \<in> set ps" "(case p of WhereLifetime l bounds \<Rightarrow> None
      | WhereType b ty bounds \<Rightarrow> Some (walk_predicate (SourceLifetimeRebinder (src_declared S) r) p)) = Some q"
    using assms(3) ps by (auto simp: logical_source_predicates_def in_map_filter simp del: walk_predicate.simps)
  then obtain b ty bounds where p: "ge_where (src_generics S) = Some ps" "WhereType b ty bounds \<in> set ps"
    "q = walk_predicate (SourceLifetimeRebinder (src_declared S) r) (WhereType b ty bounds)"
    using ps by (cases p rule: where_pred.exhaust) (auto simp del: walk_predicate.simps)
  have new: "r \<notin> set (binders_of u) \<and> \<not> is_bound (push_scope b []) r" if "u \<in> set (ty # bounds)" for u
    by (rule names_cover(4) [OF assms(1,2) p(1,2) that])
  show ?thesis unfolding p(3)
    by (rule walked_clause_within [OF source_scopedD(5) [OF assms(1) p(1,2)] source_scopedD(1) [OF assms(1)]]) (use new in auto)
qed

lemma wire_type_bounds_within:
  assumes "source_scoped S" "q \<in> set (wire_type_parameter_predicates (src_generics S))"
  shows "set (predicate_lifetimes q) \<subseteq> {''static''}"
proof -
  let ?w = "walk (SourceLifetimeRebinder (src_declared S) ''static'') []"
  obtain p where "p \<in> set (ge_params (src_generics S))"
    "(case p of GenType s bounds dflt \<Rightarrow> (case map ?w bounds of [] \<Rightarrow> None | bs \<Rightarrow> Some (ParamP s bs)) | _ \<Rightarrow> None) = Some q"
    using assms(2) by (auto simp: wire_type_parameter_predicates_def in_map_filter)
  then obtain s bounds dflt where p: "GenType s bounds dflt \<in> set (ge_params (src_generics S))" "q = ParamP s (map ?w bounds)"
    by (cases p rule: gen_param.exhaust) (auto split: list.splits)
  have "set (free_lifetimes [] (?w t)) \<subseteq> {''static''}" if "t \<in> set bounds" for t
  proof -
    have "tree_scoped (src_declared S) [] t" using source_scopedD(2) [OF assms(1) p(1)] that by blast
    then show ?thesis using source_rebind_within [of "src_declared S" "[]" t "''static''"] by (auto simp: tree_scoped_def)
  qed
  then show ?thesis unfolding p(2) predicate_lifetimes.simps map_map by (intro children_within) (simp only: comp_def)
qed

section \<open>Parameters\<close>

lemma wire_params_within:
  assumes "source_scoped S" "p \<in> set (wire_generic_parameters (src_generics S))"
  shows "set (param_lifetimes p) \<subseteq> {''static''}" "lifetime_param p = None"
proof -
  let ?G = "src_generics S"
  obtain q where q: "q \<in> set (ge_params ?G)" "(case q of GenType s bounds dflt \<Rightarrow> Some (rebind_type_parameter ?G s bounds dflt)
      | GenConst s ty \<Rightarrow> Some (GenConst s ty) | GenLifetime l bounds \<Rightarrow> None) = Some p"
    using assms(2) by (auto simp: wire_generic_parameters_def in_map_filter)
  show "lifetime_param p = None" using q(2) by (cases q rule: gen_param.exhaust) (auto simp: rebind_type_parameter_def)
  show "set (param_lifetimes p) \<subseteq> {''static''}"
  proof (cases q rule: gen_param.exhaust)
    case (GenType s bounds dflt)
    let ?kept = "filter (\<lambda>bound. \<not> bound_mentions_declared_source_lifetime ?G bound) bounds"
    have sc: "tree_scoped (src_declared S) [] t" if "t \<in> set bounds \<union> set_option dflt" for t
      using source_scopedD(2) [OF assms(1)] q(1) GenType that by blast
    have "set (free_lifetimes [] t) \<subseteq> {''static''}" if "t \<in> set ?kept" for t
      using that sc by (intro unmentioned_within [of "src_declared S"]) (auto simp: bound_mentions_declared_source_lifetime_def)
    then have "set (concat (map (free_lifetimes []) ?kept)) \<subseteq> {''static''}" by (rule children_within)
    moreover have "set (free_lifetimes [] (walk (source_lifetime_rebinder ?G) [] t)) \<subseteq> {''static''}" if "dflt = Some t" for t
    proof -
      have "tree_scoped (src_declared S) [] t" using sc that by simp
      moreover have "source_lifetime_rebinder ?G = DeclaredLifetimeRebinder (src_declared S) ''static''"
        by (simp add: source_lifetime_rebinder_def DeclaredLifetimeRebinder_def)
      ultimately show ?thesis using rebind_within [of "src_declared S" "[]" t "''static''"] by (auto simp: tree_scoped_def)
    qed
    moreover have "p = GenType s ?kept (map_option (walk (source_lifetime_rebinder ?G) []) dflt)"
      using q(2) GenType by (simp add: rebind_type_parameter_def)
    ultimately show ?thesis by (cases dflt) simp_all
  next
    case (GenConst s ty)
    then show ?thesis using q source_scopedD(4) [OF assms(1), of s ty] by auto
  qed (use q(2) in simp)
qed

lemma walked_bounds_within:
  assumes "source_scoped S" "usable S r" "GenType s bounds dflt \<in> set (ge_params (src_generics S))"
    and v: "v = SourceLifetimeRebinder (src_declared S) r \<or> v = DeclaredLifetimeRebinder (src_declared S) r"
    and t: "t \<in> set bounds \<union> set_option dflt"
  shows "set (free_lifetimes [] (walk v [] t)) \<subseteq> {''static'', r}"
proof -
  have sc: "tree_scoped (src_declared S) [] t" "r \<notin> set (binders_of t)"
    using source_scopedD(2) [OF assms(1,3) t] names_cover(3) [OF assms(1,2,3) t] .
  from v show ?thesis using source_rebind_within [OF sc] rebind_within [OF sc] by auto
qed

lemma walked_param_within:
  assumes "source_scoped S" "usable S r" "GenType s bounds dflt \<in> set (ge_params (src_generics S))"
    and v: "v = SourceLifetimeRebinder (src_declared S) r \<or> v = DeclaredLifetimeRebinder (src_declared S) r"
  shows "set (param_lifetimes (walk_param v (GenType s bounds dflt))) \<subseteq> {''static'', r}"
proof -
  have "set (concat (map (free_lifetimes [] \<circ> walk v []) bounds)) \<subseteq> {''static'', r}"
    by (rule children_within) (simp only: comp_def, rule walked_bounds_within [OF assms], blast)
  moreover have "set (free_lifetimes [] (walk v [] t)) \<subseteq> {''static'', r}" if "dflt = Some t" for t
    by (rule walked_bounds_within [OF assms]) (simp add: that)
  ultimately show ?thesis by (cases dflt) auto
qed

lemma logical_params_within:
  assumes "source_scoped S" "usable S r" "p \<in> set (logical_generic_parameters (src_generics S) r)"
  shows "set (param_lifetimes p) \<subseteq> {''static'', r}" "lifetime_param p = None"
proof -
  let ?G = "src_generics S"
  obtain q where q: "q \<in> set (ge_params ?G)" "(case q of GenLifetime l bounds \<Rightarrow> None
      | GenType s bounds dflt \<Rightarrow> Some (walk_param (SourceLifetimeRebinder (src_declared S) r) q)
      | GenConst s ty \<Rightarrow> Some (GenConst s ty)) = Some p"
    using assms(3) by (auto simp: logical_generic_parameters_def in_map_filter simp del: walk_param.simps)
  show "lifetime_param p = None" using q(2) by (cases q rule: gen_param.exhaust) auto
  show "set (param_lifetimes p) \<subseteq> {''static'', r}"
  proof (cases q rule: gen_param.exhaust)
    case (GenType s bounds dflt)
    then show ?thesis using q walked_param_within [OF assms(1,2), of s bounds dflt "SourceLifetimeRebinder (src_declared S) r"] by simp
  next
    case (GenConst s ty)
    then show ?thesis using q source_scopedD(4) [OF assms(1), of s ty] by auto
  qed (use q(2) in simp)
qed

section \<open>Dependencies\<close>

lemma dedup_subset: "set (deduplicate_types ts) \<subseteq> set ts"
proof -
  have "set (dedup_from seen ts) \<subseteq> set ts" for seen by (induction ts arbitrary: seen) auto
  then show ?thesis by (simp add: deduplicate_types_def)
qed

lemma collected_part:
  "t \<in> set (collect_parent_dependencies tr c ty) \<Longrightarrow> \<exists>p \<in> set (type_parts c ty). t = erased_source_type (tr p)"
  "t \<in> set (collect_dependencies tr c ty) \<Longrightarrow> \<exists>p \<in> set (type_parts c ty). t = support_type (tr p)"
  by (induction c arbitrary: ty) (force split: if_splits syn_type.splits)+

lemma optional_inner_part: "p \<in> set (collect_optional_inner_dependencies c ty) \<Longrightarrow> p \<in> set (type_parts c ty)"
  by (induction c arbitrary: ty) (auto split: syn_type.splits)

lemma elem_no_optional: "elem_ir ty c \<Longrightarrow> collect_optional_dependencies c = []"
  by (induction c arbitrary: ty) (auto split: syn_type.splits)

lemma optional_part:
  assumes "field_ir_ok (if_ty f) (if_category f)" "p \<in> set (collect_optional_dependencies (if_category f))"
  shows "p \<in> set (field_parts f)"
  using assms elem_no_optional [of "if_ty f" "if_category f"] optional_inner_part [of p]
  by (cases "if_category f") (auto simp: field_parts_def split: syn_type.splits)

lemma dependencies_within:
  assumes "source_scoped S"
  shows "t \<in> set (parent_dependency_types S) \<Longrightarrow> set (free_lifetimes [] t) \<subseteq> {''static''}"
    and "t \<in> set (dependency_types S) \<Longrightarrow> set (free_lifetimes [] t) \<subseteq> {''static''}"
    and "t \<in> set (tagged_dependency_types S) \<Longrightarrow> set (free_lifetimes [] t) \<subseteq> {''static''}"
    and "\<forall>f \<in> set (src_fields S). field_ir_ok (if_ty f) (if_category f) \<Longrightarrow> t \<in> set (optional_support_types S) \<Longrightarrow>
      set (free_lifetimes [] t) \<subseteq> {''static''}"
proof -
  have part: "set (free_lifetimes [] (support_type (src_tree S p))) \<subseteq> {''static''}" "set (free_lifetimes [] (erased_source_type (src_tree S p))) \<subseteq> {''static''}"
    if "f \<in> set (src_fields S)" "p \<in> set (field_parts f)" for f p
    using erased_within [OF source_scopedD(6) [OF assms that]] by simp_all
  show "set (free_lifetimes [] t) \<subseteq> {''static''}" if t: "t \<in> set (parent_dependency_types S)"
  proof -
    obtain f where f: "f \<in> set (src_fields S)" "t \<in> set (collect_parent_dependencies (src_tree S) (if_category f) (if_ty f))"
      using t dedup_subset unfolding parent_dependency_types_def by fastforce
    then show ?thesis using collected_part(1) part by (fastforce simp: field_parts_def)
  qed
  show "set (free_lifetimes [] t) \<subseteq> {''static''}" if t: "t \<in> set (dependency_types S)"
  proof -
    obtain f where f: "f \<in> set (src_fields S)" "t \<in> set (collect_dependencies (src_tree S) (if_category f) (if_ty f))"
      using t dedup_subset unfolding dependency_types_def by fastforce
    then show ?thesis using collected_part(2) part by (fastforce simp: field_parts_def)
  qed
  show "set (free_lifetimes [] t) \<subseteq> {''static''}" if t: "t \<in> set (tagged_dependency_types S)"
  proof -
    obtain ty where "ty \<in> set (newtypes (src_ir S))" "t = support_type (src_tree S ty)"
      using t dedup_subset unfolding tagged_dependency_types_def by fastforce
    then show ?thesis using erased_within(1) [OF source_scopedD(7) [OF assms]] by simp
  qed
  show "set (free_lifetimes [] t) \<subseteq> {''static''}"
    if ok: "\<forall>f \<in> set (src_fields S). field_ir_ok (if_ty f) (if_category f)" and t: "t \<in> set (optional_support_types S)"
  proof -
    obtain f p where f: "f \<in> set (src_fields S)" "p \<in> set (collect_optional_dependencies (if_category f))" "t = support_type (src_tree S p)"
      using t dedup_subset unfolding optional_support_types_def by fastforce
    then show ?thesis using part(1) optional_part ok by blast
  qed
qed

section \<open>Predicates of a record\<close>

lemma filter_map_res_ok:
  "\<forall>x \<in> set xs. \<exists>y. f x = Ok y \<and> (\<forall>q. y = Some q \<longrightarrow> P q) \<Longrightarrow> \<exists>ys. filter_map_res f xs = Ok ys \<and> (\<forall>q \<in> set ys. P q)"
proof (induction xs)
  case (Cons x xs)
  then obtain y ys where "f x = Ok y" "\<forall>q. y = Some q \<longrightarrow> P q" "filter_map_res f xs = Ok ys" "\<forall>q \<in> set ys. P q" by auto
  then show ?case by (cases y) auto
qed simp

lemma bound_within:
  assumes "set (subject_lifetimes s) \<subseteq> A" "set (trait_lifetimes t) \<subseteq> A"
  shows "set (predicate_lifetimes (BoundP b s t)) \<subseteq> A" "A \<subseteq> {''static'', l} \<Longrightarrow> set (predicate_lifetimes (BoundP (Some l) s t)) \<subseteq> {''static''}"
  using assms by auto

text \<open>All predicates of a list stay within a set of lifetimes.\<close>

definition preds_within :: "string set \<Rightarrow> predicate list \<Rightarrow> bool" where
  "preds_within A qs \<longleftrightarrow> (\<forall>q \<in> set qs. set (predicate_lifetimes q) \<subseteq> A)"

lemma preds_within_simps [simp]:
  "preds_within A []" "preds_within A (q # qs) \<longleftrightarrow> set (predicate_lifetimes q) \<subseteq> A \<and> preds_within A qs"
  "preds_within A (qs @ rs) \<longleftrightarrow> preds_within A qs \<and> preds_within A rs"
  "preds_within A (concat qss) \<longleftrightarrow> list_all (preds_within A) qss"
  by (auto simp: preds_within_def list_all_iff)

lemma preds_within_mono: "preds_within A qs \<Longrightarrow> A \<subseteq> B \<Longrightarrow> preds_within B qs"
  unfolding preds_within_def by blast

lemma type_bounds_within:
  "(\<And>t. t \<in> set ts \<Longrightarrow> set (free_lifetimes [] t) \<subseteq> A) \<Longrightarrow> trait_lifetimes b = [] \<Longrightarrow> preds_within A (map (\<lambda>t. BoundP None (TypeSub t) b) ts)"
  by (simp add: preds_within_def)

lemma source_clauses_list: "(\<And>p. p \<in> set ps \<Longrightarrow> set (where_lifetimes p) \<subseteq> A) \<Longrightarrow> preds_within A (map SourceP ps)"
  by (simp add: preds_within_def)

lemma optional_child_part: "optional_ir inner c \<Longrightarrow> \<exists>child \<in> set (type_parts c inner). optional_child inner c = Ok child"
  by (cases "(inner, c)" rule: optional_ir.cases) (auto simp: part_self split: syn_type.splits)

lemma part_within:
  assumes "source_scoped S" "usable S r" "f \<in> set (src_fields S)" "p \<in> set (field_parts f)"
  shows "set (free_lifetimes [] (support_type (src_tree S p))) \<subseteq> {''static''}"
    "set (free_lifetimes [] (rebound_support_type S p r)) \<subseteq> {''static'', r}"
    "set (free_lifetimes [] (rebind_source_type (src_generics S) (src_tree S p) r)) \<subseteq> {''static'', r}"
  using erased_within(1) [OF source_scopedD(6) [OF assms(1,3,4)]]
    rebound_within [OF source_scopedD(6) [OF assms(1,3,4)] names_cover(1) [OF assms]] by simp_all

lemma optional_predicates_ok:
  assumes "source_scoped S" "usable S r" "f \<in> set (src_fields S)" "field_ir_ok (if_ty f) (if_category f)"
  shows "\<exists>y. optional_logical_predicate S r f = Ok y \<and> (\<forall>q. y = Some q \<longrightarrow> set (predicate_lifetimes q) \<subseteq> {''static''})"
    and "\<exists>y. optional_materialize_predicate S r f = Ok y \<and> (\<forall>q. y = Some q \<longrightarrow> set (predicate_lifetimes q) \<subseteq> {''static'', r})"
proof -
  have "\<exists>child \<in> set (field_parts f). optional_child inner c = Ok child" if "if_category f = IrOptional inner c" for inner c
    using assms(4) that optional_child_part [of inner c] by (auto simp: field_parts_def)
  moreover have "set (free_lifetimes [] (support_type (src_tree S p))) \<subseteq> {''static''}"
    "set (free_lifetimes [] (rebound_support_type S p r)) \<subseteq> {''static'', r}" if "p \<in> set (field_parts f)" for p
    using part_within(1,2) [OF assms(1-3) that] .
  ultimately have o: "(\<exists>c. if_category f = c \<and> (\<forall>inner d. c \<noteq> IrOptional inner d)) \<or> (\<exists>inner d child. if_category f = IrOptional inner d \<and>
      optional_child inner d = Ok child \<and> set (free_lifetimes [] (support_type (src_tree S child))) \<subseteq> {''static''} \<and>
      set (free_lifetimes [] (rebound_support_type S child r)) \<subseteq> {''static'', r})"
    by (metis (no_types, lifting))
  then show "\<exists>y. optional_logical_predicate S r f = Ok y \<and> (\<forall>q. y = Some q \<longrightarrow> set (predicate_lifetimes q) \<subseteq> {''static''})"
    by (auto simp: optional_logical_predicate_def split: ir_category.splits)
  from o show "\<exists>y. optional_materialize_predicate S r f = Ok y \<and> (\<forall>q. y = Some q \<longrightarrow> set (predicate_lifetimes q) \<subseteq> {''static'', r})"
    by (auto simp: optional_materialize_predicate_def split: ir_category.splits)
qed

lemma tagged_predicate_ok:
  assumes "source_scoped S" "usable S r" "f \<in> set (src_fields S)" "struct_ready (src_fields S)"
  shows "\<exists>y. tagged_type_predicate S r f = Ok y \<and> (\<forall>q. y = Some q \<longrightarrow> set (predicate_lifetimes q) \<subseteq> {''static''})"
proof (cases "\<exists>t. if_category f = IrPath True (Some t)")
  case True
  then obtain t where t: "if_category f = IrPath True (Some t)" by blast
  obtain k where "k < length (src_fields S)" "src_fields S ! k = f" using assms(3) by (auto simp: in_set_conv_nth)
  then have lt: "t < length (src_fields S)" using assms(4) t by (auto simp: struct_ready_def is_tagged_def)
  then have "src_fields S ! t \<in> set (src_fields S)" by simp
  then have "set (free_lifetimes [] (support_type (src_tree S (if_ty (src_fields S ! t))))) \<subseteq> {''static''}"
    using part_within(1) [OF assms(1,2) _ field_part_self] by blast
  then show ?thesis
    using part_within(1,2) [OF assms(1-3) field_part_self] t lt by (auto simp: tagged_type_predicate_def)
next
  case False
  then have "tagged_type_predicate S r f = Ok None"
    by (auto simp: tagged_type_predicate_def split: ir_category.splits option.splits bool.splits)
  then show ?thesis by simp
qed

lemma fields_ready: "struct_ready fs \<Longrightarrow> f \<in> set fs \<Longrightarrow> field_ir_ok (if_ty f) (if_category f)"
  by (simp add: struct_ready_def)

lemma optional_bounds_within:
  assumes "source_scoped S" "struct_ready (src_fields S)"
  shows "preds_within {''static''} (optional_wire_type_bounds S)"
  unfolding optional_wire_type_bounds_def using dependencies_within(4) [OF assms(1)] fields_ready [OF assms(2)]
  by (intro type_bounds_within) simp_all

lemma erased_predicates_within: "source_scoped S \<Longrightarrow> preds_within {''static''} (map SourceP (erased_where_predicates (src_generics S)))"
  by (intro source_clauses_list) (rule erased_clauses_within)

lemma parent_bounds_within:
  "source_scoped S \<Longrightarrow> preds_within {''static''} (map (\<lambda>t. BoundP None (TypeSub t) WireTypeSupportB) (parent_dependency_types S))"
  by (rule type_bounds_within [OF dependencies_within(1)]) simp_all

lemma tag_bounds_ok:
  assumes "source_scoped S" "usable S r" "struct_ready (src_fields S)"
  shows "\<exists>ts. filter_map_res (tagged_type_predicate S r) (src_fields S) = Ok ts \<and> preds_within {''static''} ts"
  unfolding preds_within_def using tagged_predicate_ok [OF assms(1,2) _ assms(3)] by (intro filter_map_res_ok) blast

lemma record_support_ok:
  assumes "source_scoped S" "struct_ready (src_fields S)" "length (src_names S) < usize_limit H"
  shows "\<exists>ps. record_support_predicates H S = Some (Ok ps) \<and> preds_within {''static''} ps"
proof -
  obtain o' where o': "usable S o'" "fresh_generated_lifetime H (src_generics S) (field_trees S) (map (src_tree S) (newtypes (src_ir S)))
      ''__zero_schema_optional_logical'' = Some (Ok (CHR 0x27 # o'))" by (rule fresh_exists [OF assms(3)])
  obtain t' where t': "usable S t'" "fresh_generated_lifetime H (src_generics S) (field_trees S) (map (src_tree S) (newtypes (src_ir S)))
      ''__zero_schema_tag_logical'' = Some (Ok (CHR 0x27 # t'))" by (rule fresh_exists [OF assms(3)])
  have "\<exists>os. filter_map_res (optional_logical_predicate S o') (src_fields S) = Ok os \<and> preds_within {''static''} os"
    unfolding preds_within_def using optional_predicates_ok(1) [OF assms(1) o'(1)] fields_ready [OF assms(2)] by (intro filter_map_res_ok) blast
  then obtain os where os: "filter_map_res (optional_logical_predicate S o') (src_fields S) = Ok os" "preds_within {''static''} os" by blast
  obtain ts where ts: "filter_map_res (tagged_type_predicate S t') (src_fields S) = Ok ts" "preds_within {''static''} ts"
    using tag_bounds_ok [OF assms(1) t'(1) assms(2)] by blast
  show ?thesis
    unfolding record_support_predicates_def fresh_bind_eq [OF o'(2)] fresh_bind_eq [OF t'(2)] os(1) ts(1)
    using os(2) ts(2) optional_bounds_within [OF assms(1,2)] erased_predicates_within [OF assms(1)] parent_bounds_within [OF assms(1)] by simp
qed

section \<open>Headers\<close>

definition params_within :: "string set \<Rightarrow> gen_param list \<Rightarrow> bool" where
  "params_within A ps \<longleftrightarrow> (\<forall>p \<in> set ps. set (param_lifetimes p) \<subseteq> A)"

lemma well_scopedI:
  assumes "params_within A (hd_params h)" "preds_within A (hd_where h)"
    and "A \<subseteq> insert ''static'' (set (List.map_filter lifetime_param (hd_params h)))"
  shows "well_scoped h"
  using assms unfolding well_scoped_def header_within_def preds_within_def params_within_def by blast

lemma original_params_within:
  assumes "source_scoped S" "p \<in> set (ge_params (src_generics S))"
  shows "set (param_lifetimes p) \<subseteq> insert ''static'' (set (src_declared S))"
proof (cases p rule: gen_param.exhaust)
  case (GenType s bounds dflt)
  have t: "set (free_lifetimes [] t) \<subseteq> insert ''static'' (set (src_declared S))" if "t \<in> set bounds \<union> set_option dflt" for t
    using source_scopedD(2) [OF assms(1), of s bounds dflt t] assms(2) GenType that by (simp add: tree_scoped_def)
  have "set (concat (map (free_lifetimes []) bounds)) \<subseteq> insert ''static'' (set (src_declared S))" by (rule children_within) (simp add: t)
  then show ?thesis using GenType t by (cases dflt) simp_all
qed (use assms source_scopedD(3,4) [OF assms(1)] in auto)

lemma original_clauses_within:
  assumes "source_scoped S"
  shows "preds_within (insert ''static'' (set (src_declared S))) (where_list (src_generics S))"
proof (cases "ge_where (src_generics S)")
  case (Some ps)
  have "set (where_lifetimes p) \<subseteq> insert ''static'' (set (src_declared S))" if "p \<in> set ps" for p
  proof -
    have cl: "clause_scoped (src_declared S) p" by (rule source_scopedD(5) [OF assms Some that])
    show ?thesis
    proof (cases p rule: where_pred.exhaust)
      case (WhereType b ty bounds)
      have "set (concat (map (free_lifetimes (push_scope b [])) (ty # bounds))) \<subseteq> insert ''static'' (set (src_declared S))"
        using cl WhereType by (intro children_within) (auto simp: list_all_iff tree_scoped_def)
      then show ?thesis using cl WhereType by auto
    qed (use cl in simp)
  qed
  then show ?thesis using Some by (simp add: where_list_def preds_within_def)
qed (simp add: where_list_def)

lemma independent_params_within:
  assumes "source_scoped S" "p \<in> set (ge_params (source_independent_generics (src_generics S)))"
  shows "set (param_lifetimes p) \<subseteq> insert ''static'' (set (src_declared S))"
proof -
  obtain q where q: "q \<in> set (ge_params (src_generics S))" "p = (case q of
      GenType s bounds dflt \<Rightarrow> GenType s (filter (\<lambda>bound. \<not> bound_mentions_declared_source_lifetime (src_generics S) bound) bounds) dflt | _ \<Rightarrow> q)"
    using assms(2) by (auto simp: source_independent_generics_def)
  have "set (param_lifetimes p) \<subseteq> set (param_lifetimes q)" unfolding q(2) by (cases q rule: gen_param.exhaust) auto
  then show ?thesis using original_params_within [OF assms(1) q(1)] by blast
qed

lemma map_filter_keep: "(\<And>p. g (f p) = g p) \<Longrightarrow> List.map_filter g (map f ps) = List.map_filter g ps"
  by (simp add: List.map_filter_def comp_def filter_map)

lemma independent_lifetimes: "List.map_filter lifetime_param (ge_params (source_independent_generics G)) = source_lifetimes_of G"
  unfolding source_independent_generics_def source_lifetimes_of_def generics.simps by (rule map_filter_keep) (simp split: gen_param.splits)

lemma independent_clauses_within:
  "source_scoped S \<Longrightarrow> preds_within {''static''} (where_list (source_independent_generics (src_generics S)))"
  using erased_predicates_within [of S]
  by (cases "erased_where_predicates (src_generics S)") (simp_all add: where_list_def source_independent_generics_def)

text \<open>Headers over the wire parameters, and headers over the parameters of the declaration.\<close>

lemma wire_scopedI:
  "source_scoped S \<Longrightarrow> preds_within {''static''} qs \<Longrightarrow> well_scoped \<lparr>hd_params = wire_generic_parameters (src_generics S), hd_where = qs\<rparr>"
  using wire_params_within(1) by (intro well_scopedI [of "{''static''}"]) (simp_all add: params_within_def)

lemma original_scopedI:
  "source_scoped S \<Longrightarrow> preds_within {''static''} qs \<Longrightarrow>
   well_scoped \<lparr>hd_params = ge_params (src_generics S), hd_where = where_list (src_generics S) @ qs\<rparr>"
  using original_params_within original_clauses_within
  by (intro well_scopedI [of "insert ''static'' (set (src_declared S))"])
    (auto simp: params_within_def source_lifetimes_of_def elim: preds_within_mono)

lemma wire_header_scoped: "source_scoped S \<Longrightarrow> well_scoped (wire_header S)"
  unfolding wire_header_def
  by (intro wire_scopedI) (simp_all add: erased_predicates_within type_bounds_within dependencies_within(2))

lemma impl_header_scoped: "source_scoped S \<Longrightarrow> well_scoped (impl_generics_with_dependencies (src_generics S) (parent_dependency_types S))"
  unfolding impl_generics_with_dependencies_def
  by (intro original_scopedI) (simp_all add: type_bounds_within dependencies_within(1))

lemma record_header_scoped:
  assumes "source_scoped S" "struct_ready (src_fields S)" "length (src_names S) < usize_limit H"
  shows "\<exists>h. record_header H S = Some (Ok h) \<and> well_scoped h"
  using record_support_ok [OF assms] wire_scopedI [OF assms(1)] by (auto simp: record_header_def)

lemma record_surface_scoped:
  assumes "source_scoped S" "struct_ready (src_fields S)" "length (src_names S) < usize_limit H"
  shows "\<exists>h. record_surface_header H S = Some (Ok h) \<and> well_scoped h"
proof -
  obtain ps where ps: "record_support_predicates H S = Some (Ok ps)" "preds_within {''static''} ps" using record_support_ok [OF assms] by blast
  then show ?thesis
    using original_scopedI [OF assms(1), of "map (\<lambda>t. BoundP None (TypeSub t) WireTypeSupportB) (parent_dependency_types S) @ optional_wire_type_bounds S @ ps"]
      parent_bounds_within [OF assms(1)] optional_bounds_within [OF assms(1,2)]
    by (simp add: record_surface_header_def impl_generics_with_support_dependencies_def)
qed

lemma view_params_within:
  assumes "source_scoped S" "usable S r"
  shows "params_within {''static'', r} (ge_params (logical_view_generics (src_generics S) r))"
    and "List.map_filter lifetime_param (ge_params (logical_view_generics (src_generics S) r)) = [r]"
proof -
  let ?v = "DeclaredLifetimeRebinder (src_declared S) r" and ?rest = "filter (\<lambda>p. lifetime_param p = None) (ge_params (src_generics S))"
  have same: "walk_param ?v (GenLifetime r []) = GenLifetime r []" by (simp add: DeclaredLifetimeRebinder_def rebind_lifetime_def)
  have "set (param_lifetimes (walk_param ?v p)) \<subseteq> {''static'', r} \<and> lifetime_param (walk_param ?v p) = None" if "p \<in> set ?rest" for p
  proof (cases p rule: gen_param.exhaust)
    case (GenType s bounds dflt)
    then show ?thesis using walked_param_within [OF assms, of s bounds dflt ?v] that by simp
  next
    case (GenConst s ty)
    then have "free_lifetimes [] ty = []" using source_scopedD(4) [OF assms(1)] that by simp
    then show ?thesis using GenConst rebind.walk_free [of "[]" ty] by simp
  qed (use that in simp)
  then show "params_within {''static'', r} (ge_params (logical_view_generics (src_generics S) r))"
    "List.map_filter lifetime_param (ge_params (logical_view_generics (src_generics S) r)) = [r]"
    unfolding logical_view_generics_def Let_def generics.simps list.map same
    by (auto simp: params_within_def List.map_filter_def filter_empty_conv simp del: walk_param.simps)
qed

lemma view_clauses_within:
  assumes "source_scoped S" "usable S r"
  shows "preds_within {''static'', r} (where_list (logical_view_generics (src_generics S) r))"
proof (cases "ge_where (src_generics S)")
  case (Some ps)
  let ?v = "DeclaredLifetimeRebinder (src_declared S) r"
  have "set (where_lifetimes (walk_predicate ?v p)) \<subseteq> {''static'', r}" if p: "p \<in> set ps" for p
  proof (cases p rule: where_pred.exhaust)
    case (WhereLifetime l bounds)
    then show ?thesis using source_scopedD(5) [OF assms(1) Some p] by (auto simp: DeclaredLifetimeRebinder_def rebind_lifetime_def)
  next
    case (WhereType b ty bounds)
    have new: "r \<notin> set (binders_of u) \<and> \<not> is_bound (push_scope b []) r" if "u \<in> set (ty # bounds)" for u
      by (rule names_cover(4) [OF assms Some p [unfolded WhereType] that])
    show ?thesis unfolding WhereType
      by (rule walked_clause_within [OF source_scopedD(5) [OF assms(1) Some p [unfolded WhereType]] source_scopedD(1) [OF assms(1)]]) (use new in auto)
  qed
  then show ?thesis using Some by (simp add: where_list_def logical_view_generics_def preds_within_def Let_def)
qed (simp add: where_list_def logical_view_generics_def Let_def)

lemma logical_schema_scoped:
  assumes "source_scoped S" "struct_ready (src_fields S)" "length (src_names S) < usize_limit H"
  shows "\<exists>h. logical_schema_impl H S = Some (Ok h) \<and> well_scoped h"
proof -
  obtain r where r: "usable S r" "fresh_generated_lifetime H (src_generics S) (field_trees S) (map (src_tree S) (newtypes (src_ir S)))
      ''__zero_schema_view'' = Some (Ok (CHR 0x27 # r))" by (rule fresh_exists [OF assms(3)])
  obtain ps where ps: "record_support_predicates H S = Some (Ok ps)" "preds_within {''static''} ps" using record_support_ok [OF assms] by blast
  have "\<exists>ms. filter_map_res (optional_materialize_predicate S r) (src_fields S) = Ok ms \<and> preds_within {''static'', r} ms"
    unfolding preds_within_def using optional_predicates_ok(2) [OF assms(1) r(1)] fields_ready [OF assms(2)] by (intro filter_map_res_ok) blast
  then obtain ms where ms: "filter_map_res (optional_materialize_predicate S r) (src_fields S) = Ok ms" "preds_within {''static'', r} ms" by blast
  have "preds_within {''static'', r} ps" using ps(2) by (rule preds_within_mono) blast
  then have "well_scoped \<lparr>hd_params = ge_params (logical_view_generics (src_generics S) r),
      hd_where = where_list (logical_view_generics (src_generics S) r) @ ps @ ms\<rparr>"
    using ms(2) view_params_within [OF assms(1) r(1)] view_clauses_within [OF assms(1) r(1)]
    by (intro well_scopedI [of "{''static'', r}"]) simp_all
  then show ?thesis using ps(1) ms(1) by (simp add: logical_schema_impl_def fresh_bind_eq [OF r(2)] Let_def)
qed

section \<open>Headers of views\<close>

lemma changed_subset: "x \<in> set (changed_bounds original logical) \<Longrightarrow> x \<in> set logical"
  by (auto simp: changed_bounds_def dest: set_zip_rightD)

lemma parameter_lifetimes:
  assumes "q \<in> set (parameter_predicates (p, p'))"
  shows "set (predicate_lifetimes q) \<subseteq> set (param_lifetimes p')"
  using assms by (cases "(p, p')" rule: parameter_predicates.cases) (auto dest!: changed_subset)

lemma clause_lifetimes:
  assumes "q \<in> set (clause_predicates (c, c'))"
  shows "set (predicate_lifetimes q) \<subseteq> set (where_lifetimes c')"
  using assms by (cases "(c, c')" rule: clause_predicates.cases) (auto dest!: changed_subset)

lemma value_predicates_within:
  assumes "source_scoped S" "usable S r"
  shows "preds_within {''static'', r} (logical_value_predicates (src_generics S) r)"
proof -
  let ?L = "logical_view_generics (src_generics S) r" and ?types = "filter (\<lambda>p. case p of GenType _ _ _ \<Rightarrow> True | _ \<Rightarrow> False)"
  have "set (predicate_lifetimes q) \<subseteq> {''static'', r}"
    if q: "(p, p') \<in> set (zip (?types (ge_params (src_generics S))) (?types (ge_params ?L)))" "q \<in> set (parameter_predicates (p, p'))" for p p' q
  proof -
    have "p' \<in> set (ge_params ?L)" using set_zip_rightD [OF q(1)] by simp
    then have "set (param_lifetimes p') \<subseteq> {''static'', r}" using view_params_within(1) [OF assms] by (simp add: params_within_def)
    then show ?thesis using parameter_lifetimes [OF q(2)] by blast
  qed
  then have params: "preds_within {''static'', r} (concat (map parameter_predicates (zip (?types (ge_params (src_generics S))) (?types (ge_params ?L)))))"
    by (auto simp: preds_within_def simp del: preds_within_simps)
  have one: "set (predicate_lifetimes q) \<subseteq> {''static'', r}"
    if q: "ge_where ?L = Some qs" "(c, c') \<in> set (zip ps qs)" "q \<in> set (clause_predicates (c, c'))" for ps qs c c' q
  proof -
    have "SourceP c' \<in> set (where_list ?L)" using q(1) set_zip_rightD [OF q(2)] by (simp add: where_list_def)
    then have "set (predicate_lifetimes (SourceP c')) \<subseteq> {''static'', r}"
      using view_clauses_within [OF assms] unfolding preds_within_def by blast
    then show ?thesis using clause_lifetimes [OF q(3)] by simp
  qed
  have clauses: "preds_within {''static'', r} (concat (map clause_predicates (zip ps qs)))" if L: "ge_where ?L = Some qs" for ps qs
    unfolding preds_within_def
  proof
    fix q assume "q \<in> set (concat (map clause_predicates (zip ps qs)))"
    then obtain c c' where "(c, c') \<in> set (zip ps qs)" "q \<in> set (clause_predicates (c, c'))" by auto
    then show "set (predicate_lifetimes q) \<subseteq> {''static'', r}" by (rule one [OF L])
  qed
  show ?thesis unfolding logical_value_predicates_def Let_def preds_within_simps(3)
    using params clauses by (auto simp del: preds_within_simps(4) split: option.splits)
qed

lemma logical_predicates_ok:
  assumes "source_scoped S" "struct_ready (src_fields S)" "usable S r"
  shows "\<exists>ps. logical_predicates S r = Ok ps \<and> preds_within {''static'', r} ps"
proof -
  have "\<exists>ms. filter_map_res (optional_materialize_predicate S r) (src_fields S) = Ok ms \<and> preds_within {''static'', r} ms"
    unfolding preds_within_def using optional_predicates_ok(2) [OF assms(1,3)] fields_ready [OF assms(2)] by (intro filter_map_res_ok) blast
  then show ?thesis using value_predicates_within [OF assms(1,3)] by (auto simp: logical_predicates_def)
qed

lemma capability_params:
  assumes "source_scoped S"
  shows "params_within {''static''} (capability_generics (src_generics S))"
    "''wire'' \<in> set (List.map_filter lifetime_param (capability_generics (src_generics S)))"
  using wire_params_within(1) [OF assms] by (simp_all add: capability_generics_def params_within_def List.map_filter_simps)

lemma capability_scopedI:
  assumes "source_scoped S" "preds_within (insert ''static'' (insert ''wire'' (set (List.map_filter lifetime_param extra)))) qs"
    and "\<forall>p \<in> set extra. param_lifetimes p = []"
  shows "well_scoped \<lparr>hd_params = capability_generics (src_generics S) @ extra, hd_where = qs\<rparr>"
  using assms(2,3) capability_params [OF assms(1)]
  by (intro well_scopedI [of "insert ''static'' (insert ''wire'' (set (List.map_filter lifetime_param extra)))"])
    (auto simp: params_within_def List.map_filter_def)

lemma capability_header_scoped:
  assumes "source_scoped S" "struct_ready (src_fields S)" "length (src_names S) < usize_limit H"
  shows "\<exists>h. capability_header H S = Some (Ok h) \<and> well_scoped h"
proof -
  obtain ps where ps: "record_support_predicates H S = Some (Ok ps)" "preds_within {''static''} ps" using record_support_ok [OF assms] by blast
  have "preds_within {''static'', ''wire''} ps" using ps(2) by (rule preds_within_mono) blast
  then show ?thesis using capability_scopedI [OF assms(1), of "[]" ps] ps(1) by (simp add: capability_header_def List.map_filter_simps)
qed

lemma view_headers_scoped:
  assumes "source_scoped S" "struct_ready (src_fields S)" "length (src_names S) < usize_limit H"
  shows "usable S ''wire'' \<Longrightarrow> \<exists>h. materialize_header H S = Some (Ok h) \<and> well_scoped h"
    and "usable S ''view'' \<Longrightarrow> \<exists>h. copy_into_header H S = Some (Ok h) \<and> well_scoped h"
proof -
  obtain ps where ps: "record_support_predicates H S = Some (Ok ps)" "preds_within {''static''} ps" using record_support_ok [OF assms] by blast
  show "\<exists>h. materialize_header H S = Some (Ok h) \<and> well_scoped h" if u: "usable S ''wire''"
  proof -
    obtain qs where qs: "logical_predicates S ''wire'' = Ok qs" "preds_within {''static'', ''wire''} qs"
      using logical_predicates_ok [OF assms(1,2) u] by blast
    have "preds_within {''static'', ''wire''} ps" using ps(2) by (rule preds_within_mono) blast
    then show ?thesis using capability_scopedI [OF assms(1), of "[]" "ps @ qs"] ps(1) qs by (simp add: materialize_header_def List.map_filter_simps)
  qed
  show "\<exists>h. copy_into_header H S = Some (Ok h) \<and> well_scoped h" if u: "usable S ''view''"
  proof -
    obtain qs where qs: "logical_predicates S ''view'' = Ok qs" "preds_within {''static'', ''view''} qs"
      using logical_predicates_ok [OF assms(1,2) u] by blast
    have "preds_within {''static'', ''wire'', ''view''} ps" using ps(2) by (rule preds_within_mono) blast
    moreover have "preds_within {''static'', ''wire'', ''view''} qs" using qs(2) by (rule preds_within_mono) blast
    ultimately show ?thesis
      using capability_scopedI [OF assms(1), of "[GenLifetime ''view'' []]" "ps @ qs"] ps(1) qs(1) by (simp add: copy_into_header_def List.map_filter_simps)
  qed
qed

lemma tagged_headers_scoped:
  assumes "source_scoped S"
  shows "well_scoped (tagged_wire_header S)" "well_scoped (tagged_support_header S)" "well_scoped (tagged_capability_header S)"
    "well_scoped (tagged_surface_header S)"
proof -
  have "preds_within {''static''} (map (\<lambda>t. BoundP None (TypeSub t) WireTypeB) (tagged_dependency_types S))"
    by (rule type_bounds_within [OF dependencies_within(3) [OF assms]]) simp_all
  then show "well_scoped (tagged_wire_header S)" "well_scoped (tagged_support_header S)"
    unfolding tagged_wire_header_def tagged_support_header_def
    by (simp_all add: wire_scopedI [OF assms] erased_predicates_within [OF assms])
  show "well_scoped (tagged_capability_header S)" using capability_scopedI [OF assms, of "[]" "[]"] by (simp add: tagged_capability_header_def)
  show "well_scoped (tagged_surface_header S)" using original_scopedI [OF assms, of "[]"] by (simp add: tagged_surface_header_def)
qed

section \<open>Headers of logical mutation\<close>

definition bounds_within :: "string set \<Rightarrow> field_bounds \<Rightarrow> bool" where
  "bounds_within A b \<longleftrightarrow> preds_within A (fb_child b @ fb_nested b @ fb_tagged_type b @ fb_tagged_logical b)"

lemma no_bounds_within: "bounds_within A no_field_bounds"
  by (simp add: bounds_within_def no_field_bounds_def)

lemma schema_bounds_within:
  assumes "source_scoped S" "usable S r" "f \<in> set (src_fields S)" "p \<in> set (field_parts f)" "trait_lifetimes b = []"
  shows "bounds_within {''static'', r} (schema_field_bounds S p (rebind_source_type (src_generics S) (src_tree S p) r) b)"
  using part_within(1,3) [OF assms(1-4)] assms(5) by (auto simp: bounds_within_def schema_field_bounds_def)

lemma tagged_bounds_within:
  assumes "source_scoped S" "usable S r" "usable S l" "f \<in> set (src_fields S)" "t < length (src_fields S)"
  shows "bounds_within {''static'', r} (tagged_field_bounds S r l f t)"
proof -
  have "src_fields S ! t \<in> set (src_fields S)" using assms(5) by simp
  from part_within(1) [OF assms(1,2) this field_part_self] part_within(1,3) [OF assms(1,2,4) field_part_self] part_within(3) [OF assms(1,3,4) field_part_self]
  show ?thesis by (auto simp: bounds_within_def tagged_field_bounds_def Let_def)
qed

lemma field_bounds_ok:
  assumes "source_scoped S" "usable S r" "usable S l" "f \<in> set (src_fields S)" "struct_ready (src_fields S)"
  shows "\<exists>b. logical_field_bounds S r l f = Ok b \<and> bounds_within {''static'', r} b"
proof -
  have parts: "if_ty f \<in> set (field_parts f)" "array_leaf_type (if_ty f) \<in> set (field_parts f)"
    by (simp_all add: field_part_self, simp add: field_parts_def)
  note sb = schema_bounds_within [OF assms(1,2,4)]
  have ok: "field_ir_ok (if_ty f) (if_category f)" by (rule fields_ready [OF assms(5,4)])
  obtain k where "k < length (src_fields S)" "src_fields S ! k = f" using assms(4) by (auto simp: in_set_conv_nth)
  then have tag: "if_category f = IrPath True (Some t) \<Longrightarrow> t < length (src_fields S)" for t using assms(5) by (auto simp: struct_ready_def is_tagged_def)
  have untagged: "if_category f \<noteq> IrPath True None"
    using assms(5) \<open>k < length (src_fields S)\<close> \<open>src_fields S ! k = f\<close> by (auto simp: struct_ready_def is_tagged_def)
  show ?thesis
  proof (cases "is_tag_sibling (src_fields S) (if_index f)")
    case False
    show ?thesis
    proof (cases "if_category f")
      case (IrPath tagged t)
      then show ?thesis
        using False tag untagged parts(1) sb [of "if_ty f" WireTypeSupportB] tagged_bounds_within [OF assms(1-4)]
        by (cases tagged; cases t) (auto simp: logical_field_bounds_def)
    next
      case (IrArray e n)
      then show ?thesis
        using False parts(2) sb [of "array_leaf_type (if_ty f)" WireTypeSupportB] no_bounds_within
        by (auto simp: logical_field_bounds_def split: ir_category.splits)
    next
      case (IrOptional inner c)
      then have "optional_ir inner c" using ok by simp
      then consider (path) tg t where "c = IrPath tg t" | (array) tg t n elem len where "c = IrArray (IrPath tg t) n" "inner = TyArray elem len"
        by (cases "(inner, c)" rule: optional_ir.cases) (auto split: syn_type.splits)
      then show ?thesis
      proof cases
        case path
        then have "inner \<in> set (field_parts f)" using IrOptional by (simp add: field_parts_def part_self)
        then show ?thesis using False IrOptional path sb [of inner OptionalWireTypeB] by (auto simp: logical_field_bounds_def)
      next
        case array
        then have "elem \<in> set (field_parts f)" using IrOptional by (simp add: field_parts_def)
        then show ?thesis using False IrOptional array sb [of elem OptionalWireTypeB] by (auto simp: logical_field_bounds_def)
      qed
    qed (use False no_bounds_within in \<open>auto simp: logical_field_bounds_def\<close>)
  qed (simp add: logical_field_bounds_def no_bounds_within)
qed

lemma source_scopedI:
  assumes "source_scoped S" "usable S r" "preds_within {''static'', r} qs"
  shows "well_scoped (source_header S r qs)"
  unfolding source_header_def using assms(3) logical_params_within(1) [OF assms(1,2)]
  by (intro well_scopedI [of "{''static'', r}"]) (simp_all add: params_within_def List.map_filter_simps)

lemma source_clauses_ok:
  "source_scoped S \<Longrightarrow> usable S r \<Longrightarrow> preds_within {''static'', r} (map SourceP (logical_source_predicates (src_generics S) r))"
  by (intro source_clauses_list) (rule source_clauses_within)

lemma wire_type_bounds_ok: "source_scoped S \<Longrightarrow> preds_within {''static''} (wire_type_parameter_predicates (src_generics S))"
  unfolding preds_within_def using wire_type_bounds_within by blast

lemma logical_mutation_scoped:
  assumes "source_scoped S" "struct_ready (src_fields S)" "length (src_names S) < usize_limit H"
  shows "\<exists>h. logical_mutation_header H S = Some (Ok h) \<and> well_scoped h"
proof -
  obtain r where r: "usable S r" "fresh_generated_lifetime H (src_generics S) (field_trees S) (map (src_tree S) (newtypes (src_ir S)))
      ''__zero_schema_source'' = Some (Ok (CHR 0x27 # r))" by (rule fresh_exists [OF assms(3)])
  obtain l where l: "usable S l" "fresh_generated_lifetime H (src_generics S) (field_trees S) (map (src_tree S) (newtypes (src_ir S)))
      ''__zero_schema_payload_logical'' = Some (Ok (CHR 0x27 # l))" by (rule fresh_exists [OF assms(3)])
  have "\<exists>bs. filter_map_res (\<lambda>f. and_then (logical_field_bounds S r l f) (\<lambda>b. Ok (Some b))) (src_fields S) = Ok bs \<and> (\<forall>b \<in> set bs. bounds_within {''static'', r} b)"
    using field_bounds_ok [OF assms(1) r(1) l(1) _ assms(2)] by (intro filter_map_res_ok) fastforce
  then obtain bs where bs: "filter_map_res (\<lambda>f. and_then (logical_field_bounds S r l f) (\<lambda>b. Ok (Some b))) (src_fields S) = Ok bs"
    "\<forall>b \<in> set bs. bounds_within {''static'', r} b" by blast
  have up: "preds_within {''static''} qs \<Longrightarrow> preds_within {''static'', r} qs" for qs by (erule preds_within_mono) blast
  show ?thesis
    unfolding logical_mutation_header_def fresh_bind_eq [OF r(2)] logical_mutation_support_where_def fresh_bind_eq [OF l(2)] bs(1)
    using bs(2) source_clauses_ok [OF assms(1) r(1)] up [OF erased_predicates_within [OF assms(1)]] up [OF wire_type_bounds_ok [OF assms(1)]]
      up [OF parent_bounds_within [OF assms(1)]] up [OF optional_bounds_within [OF assms(1,2)]]
    by (simp add: source_scopedI [OF assms(1) r(1)] bounds_within_def list_all_iff)
qed

lemma newtype_within:
  assumes "source_scoped S" "usable S r" "ty \<in> set (newtypes (src_ir S))"
  shows "set (free_lifetimes [] (support_type (src_tree S ty))) \<subseteq> {''static''}"
    "set (free_lifetimes [] (rebind_source_type (src_generics S) (src_tree S ty) r)) \<subseteq> {''static'', r}"
  using erased_within(1) [OF source_scopedD(7) [OF assms(1,3)]]
    rebound_within(2) [OF source_scopedD(7) [OF assms(1,3)] names_cover(2) [OF assms]] by simp_all

lemma tagged_logical_mutation_scoped:
  assumes "source_scoped S" "length (src_names S) < usize_limit H"
  shows "\<exists>h. tagged_logical_mutation_header H S = Some (Ok h) \<and> well_scoped h"
proof -
  obtain r where r: "usable S r" "fresh_generated_lifetime H (src_generics S) (field_trees S) (map (src_tree S) (newtypes (src_ir S)))
      ''__zero_schema_source'' = Some (Ok (CHR 0x27 # r))" by (rule fresh_exists [OF assms(2)])
  have up: "preds_within {''static''} qs \<Longrightarrow> preds_within {''static'', r} qs" for qs by (erule preds_within_mono) blast
  have "preds_within {''static''} (map (\<lambda>t. BoundP None (TypeSub t) WireTypeSupportB) (tagged_dependency_types S))"
    by (rule type_bounds_within [OF dependencies_within(3) [OF assms(1)]]) simp_all
  moreover have "preds_within {''static'', r} (map (\<lambda>ty. BoundP None (SupportSub (support_type (src_tree S ty)))
      (SchemaLogicalMutationB (rebind_source_type (src_generics S) (src_tree S ty) r))) (newtypes (src_ir S)))"
    using newtype_within [OF assms(1) r(1)] by (fastforce simp: preds_within_def)
  ultimately have "preds_within {''static'', r} (tagged_logical_mutation_support_where S r)"
    unfolding tagged_logical_mutation_support_where_def
    using source_clauses_ok [OF assms(1) r(1)] up [OF erased_predicates_within [OF assms(1)]] up [OF wire_type_bounds_ok [OF assms(1)]] up
    by (simp del: predicate_lifetimes.simps)
  then show ?thesis
    unfolding tagged_logical_mutation_header_def fresh_bind_eq [OF r(2)] using source_scopedI [OF assms(1) r(1)] by simp
qed

lemma bound_param_clause_within:
  assumes "\<And>u. u \<in> set us \<Longrightarrow> set (free_lifetimes [] u) \<subseteq> {''static'', r}" "r \<noteq> ''static''"
  shows "set (where_lifetimes (bind_predicate_lifetime r (WhereType None (PathNode TypePath [] [Segment s []]) us))) \<subseteq> {''static''}"
proof (rule bound_clause_within [OF _ assms(2)])
  have "set (concat (map (free_lifetimes []) us)) \<subseteq> {''static'', r}" by (rule children_within) (rule assms(1))
  then show "set (where_lifetimes (WhereType None (PathNode TypePath [] [Segment s []]) us)) \<subseteq> {''static'', r}"
    by (simp add: binder_bounds_def)
qed

lemma hrtb_within:
  assumes "source_scoped S" "usable S r" "r \<noteq> ''static''"
  shows "q \<in> set (hrtb_source_predicates (src_generics S) r ks) \<Longrightarrow> set (where_lifetimes q) \<subseteq> {''static''}"
    and "q \<in> set (hrtb_source_type_parameter_predicates (src_generics S) r ks) \<Longrightarrow> set (where_lifetimes q) \<subseteq> {''static''}"
proof -
  let ?v = "SourceLifetimeRebinder (src_declared S) r"
  assume q: "q \<in> set (hrtb_source_predicates (src_generics S) r ks)"
  then obtain ps where ps: "ge_where (src_generics S) = Some ps"
    by (cases "ge_where (src_generics S)") (simp_all add: hrtb_source_predicates_def)
  obtain p where p: "p \<in> set ps" "(case p of WhereLifetime l bounds \<Rightarrow> None
      | WhereType b ty bounds \<Rightarrow> if \<not> predicate_mentions_parameters p ks then None
         else Some (bind_predicate_lifetime r (walk_predicate ?v p))) = Some q"
    using q ps by (auto simp: hrtb_source_predicates_def in_map_filter simp del: walk_predicate.simps)
  then obtain b ty bounds where P: "p = WhereType b ty bounds" "q = bind_predicate_lifetime r (walk_predicate ?v p)"
    by (cases p rule: where_pred.exhaust) (auto simp del: walk_predicate.simps split: if_splits)
  have new: "r \<notin> set (binders_of u) \<and> \<not> is_bound (push_scope b []) r" if "u \<in> set (ty # bounds)" for u
    by (rule names_cover(4) [OF assms(1,2) ps p(1) [unfolded P(1)] that])
  have within: "set (where_lifetimes (walk_predicate ?v (WhereType b ty bounds))) \<subseteq> {''static'', r}"
    by (rule walked_clause_within [OF source_scopedD(5) [OF assms(1) ps p(1) [unfolded P(1)]] source_scopedD(1) [OF assms(1)]]) (use new in auto)
  obtain b' ty' bounds' where w: "walk_predicate ?v (WhereType b ty bounds) = WhereType b' ty' bounds'" by (simp add: Let_def)
  show "set (where_lifetimes q) \<subseteq> {''static''}"
    unfolding P w by (rule bound_clause_within [OF within [unfolded w] assms(3)])
next
  let ?w = "walk (SourceLifetimeRebinder (src_declared S) r) []"
  assume q: "q \<in> set (hrtb_source_type_parameter_predicates (src_generics S) r ks)"
  obtain p where p: "p \<in> set (ge_params (src_generics S))" "(case p of
     GenType s bounds dflt \<Rightarrow> if \<not> List.member ks s then None
       else (case map ?w bounds of [] \<Rightarrow> None | bs \<Rightarrow> Some (bind_predicate_lifetime r (WhereType None (PathNode TypePath [] [Segment s []]) bs)))
   | _ \<Rightarrow> None) = Some q"
    using q by (auto simp: hrtb_source_type_parameter_predicates_def in_map_filter simp del: bind_predicate_lifetime.simps)
  then obtain s bounds dflt where P: "GenType s bounds dflt \<in> set (ge_params (src_generics S))"
    "q = bind_predicate_lifetime r (WhereType None (PathNode TypePath [] [Segment s []]) (map ?w bounds))"
    by (cases p rule: gen_param.exhaust) (auto simp del: bind_predicate_lifetime.simps split: if_splits list.splits)
  have "set (free_lifetimes [] u) \<subseteq> {''static'', r}" if "u \<in> set (map ?w bounds)" for u
    using that walked_bounds_within [OF assms(1,2) P(1), of "SourceLifetimeRebinder (src_declared S) r"] by auto
  then show "set (where_lifetimes q) \<subseteq> {''static''}" unfolding P(2) by (rule bound_param_clause_within [OF _ assms(3)])
qed

lemma array_adapter_scoped:
  assumes "source_scoped S" "struct_ready (src_fields S)" "length (src_names S) < usize_limit H" "f \<in> set (src_fields S)"
  shows "\<exists>h. array_adapter_header H S f = Some (Ok h) \<and> well_scoped h"
proof -
  obtain r where r: "usable S r" "fresh_generated_lifetime H (src_generics S) (field_trees S) (map (src_tree S) (newtypes (src_ir S)))
      ''__zero_schema_array_value'' = Some (Ok (CHR 0x27 # r))" by (rule fresh_exists [OF assms(3)])
  obtain l where l: "fresh_generated_lifetime H (src_generics S) (field_trees S) (map (src_tree S) (newtypes (src_ir S)))
      ''__zero_schema_source_probe'' = Some (Ok (CHR 0x27 # l))" by (rule fresh_exists [OF assms(3)])
  have static: "r \<noteq> ''static''"
  proof -
    obtain k where "r = candidate ''__zero_schema_array_value'' k" using fresh_search [OF assms(3), of "''__zero_schema_array_value''"] r(2) by auto
    then show ?thesis by (simp add: candidate_def)
  qed
  have "array_leaf_type (if_ty f) \<in> set (field_parts f)" by (simp add: field_parts_def)
  from part_within(1,3) [OF assms(1) r(1) assms(4) this]
  have "\<exists>bs. array_logical_bound S r f = Ok bs \<and> preds_within {''static''} bs"
    by (auto simp: array_logical_bound_def split: option.splits ir_category.splits)
  then obtain bs where bs: "array_logical_bound S r f = Ok bs" "preds_within {''static''} bs" by blast
  have "preds_within {''static''} (map SourceP (array_source_bounds S l r f))"
  proof (rule source_clauses_list)
    fix p assume "p \<in> set (array_source_bounds S l r f)"
    then have "\<exists>ks. p \<in> set (hrtb_source_predicates (src_generics S) r ks) \<or> p \<in> set (hrtb_source_type_parameter_predicates (src_generics S) r ks)"
      by (auto simp: array_source_bounds_def Let_def split: ir_category.splits syn_type.splits if_splits)
    then show "set (where_lifetimes p) \<subseteq> {''static''}" using hrtb_within [OF assms(1) r(1) static] by blast
  qed
  then show ?thesis
    unfolding array_adapter_header_def fresh_bind_eq [OF r(2)] fresh_bind_eq [OF l] bs(1)
    using bs(2) erased_predicates_within [OF assms(1)] wire_type_bounds_ok [OF assms(1)] parent_bounds_within [OF assms(1)] optional_bounds_within [OF assms(1,2)]
    by (simp add: wire_scopedI [OF assms(1)])
qed

section \<open>Headers of patches\<close>

lemma patch_bounds_within:
  assumes "\<And>t tagged. (t, tagged) \<in> set ds \<Longrightarrow> set (free_lifetimes [] t) \<subseteq> A"
  shows "preds_within A (patch_type_bounds ds)"
  unfolding preds_within_def patch_type_bounds_def
proof
  fix q assume "q \<in> set (map (\<lambda>(t, tagged). BoundP None (TypeSub t) (if tagged then TaggedPayloadPatchTypeB else SchemaPatchTypeB)) ds)"
  then obtain t tagged where "(t, tagged) \<in> set ds" "q = BoundP None (TypeSub t) (if tagged then TaggedPayloadPatchTypeB else SchemaPatchTypeB)" by auto
  then show "set (predicate_lifetimes q) \<subseteq> A" using assms [of t tagged] by simp
qed

lemma record_patch_bounds_within:
  assumes "source_scoped S"
  shows "preds_within {''static''} (patch_type_bounds (record_patch_dependencies S))"
proof (rule patch_bounds_within)
  fix t tagged assume "(t, tagged) \<in> set (record_patch_dependencies S)"
  then obtain f where f: "f \<in> set (src_fields S)" "(case if_category f of IrPath tagged u \<Rightarrow> Some (support_type (src_tree S (if_ty f)), tagged)
      | IrOptional inner_ty (IrPath tg u) \<Rightarrow> Some (support_type (src_tree S inner_ty), False) | _ \<Rightarrow> None) = Some (t, tagged)"
    by (auto simp: record_patch_dependencies_def in_map_filter split: if_splits)
  then have "t = support_type (src_tree S (if_ty f)) \<or> (\<exists>inner c. if_category f = IrOptional inner c \<and> t = support_type (src_tree S inner))"
    by (auto split: ir_category.splits)
  then obtain p where f: "f \<in> set (src_fields S)" "p \<in> set (field_parts f)" "t = support_type (src_tree S p)"
    using f(1) field_part_self [of f] field_part_inner [of f] by blast
  then show "set (free_lifetimes [] t) \<subseteq> {''static''}" using erased_within(1) [OF source_scopedD(6) [OF assms f(1,2)]] by simp
qed

lemma tagged_patch_bounds_within: "source_scoped S \<Longrightarrow> preds_within {''static''} (patch_type_bounds (tagged_patch_dependencies S))"
  using erased_within(1) [OF source_scopedD(7)] by (intro patch_bounds_within) (fastforce simp: tagged_patch_dependencies_def)

text \<open>The lifetime a patch is projected at is declared by the headers that project it.\<close>

lemma patch_lifetime_cases:
  assumes "length (src_names S) < usize_limit H"
  obtains (declared) l ls where "src_declared S = l # ls" "\<And>params (k :: _ \<Rightarrow> (diag, header) res option). with_patch_lifetime H S params k = k params"
      "\<And>k :: _ \<Rightarrow> (diag, header) res option. patch_source_lifetime H S k = k l"
  | (generated) l where "src_declared S = []" "\<And>params (k :: _ \<Rightarrow> (diag, header) res option). with_patch_lifetime H S params k = k (GenLifetime l [] # params)"
      "\<And>k :: _ \<Rightarrow> (diag, header) res option. patch_source_lifetime H S k = k l"
  | (none) "src_declared S = []" "\<And>params (k :: _ \<Rightarrow> (diag, header) res option). with_patch_lifetime H S params k = k params" "\<And>k :: _ \<Rightarrow> (diag, header) res option. patch_source_lifetime H S k = k ''static''"
proof -
  obtain r where r: "fresh_generated_lifetime H (src_generics S) (field_trees S) (map (src_tree S) (newtypes (src_ir S)))
      ''__zero_schema_patch_source'' = Some (Ok (CHR 0x27 # r))" by (rule fresh_exists [OF assms])
  show ?thesis
  proof (cases "src_declared S")
    case (Cons l ls)
    then show ?thesis by (intro declared) (simp_all add: with_patch_lifetime_def needs_generated_patch_lifetime_def patch_source_lifetime_def)
  next
    case Nil
    then show ?thesis
      using generated [of r] none
      by (cases "needs_generated_patch_lifetime S") (simp_all add: with_patch_lifetime_def patch_source_lifetime_def fresh_bind_eq [OF r])
  qed
qed

lemma with_lifetime_scoped:
  assumes "params_within A ps" "preds_within A qs" "A \<subseteq> insert ''static'' (set (List.map_filter lifetime_param (pre @ ps)))"
    and "\<forall>p \<in> set pre. param_lifetimes p = []"
  shows "well_scoped \<lparr>hd_params = pre @ ps, hd_where = qs\<rparr>"
  using assms by (intro well_scopedI [of A]) (auto simp: params_within_def)

lemma with_tag_bounds_ok:
  assumes "source_scoped S" "struct_ready (src_fields S)" "length (src_names S) < usize_limit H"
  obtains ts where "\<And>k :: _ \<Rightarrow> (diag, header) res. with_record_tag_bounds H S k = Some (k ts)" "preds_within {''static''} ts"
proof -
  obtain r where r: "usable S r" "fresh_generated_lifetime H (src_generics S) (field_trees S) (map (src_tree S) (newtypes (src_ir S)))
      ''__zero_schema_tag_logical'' = Some (Ok (CHR 0x27 # r))" by (rule fresh_exists [OF assms(3)])
  obtain ts where ts: "filter_map_res (tagged_type_predicate S r) (src_fields S) = Ok ts" "preds_within {''static''} ts"
    using tag_bounds_ok [OF assms(1) r(1) assms(2)] by blast
  show ?thesis by (rule that [of ts]) (simp_all add: with_record_tag_bounds_def fresh_bind_eq [OF r(2)] ts)
qed

lemma record_patch_scoped:
  assumes "source_scoped S" "struct_ready (src_fields S)" "length (src_names S) < usize_limit H"
  shows "\<exists>h. record_patch_header H S = Some (Ok h) \<and> well_scoped h"
proof -
  let ?G = "source_independent_generics (src_generics S)" and ?A = "insert ''static'' (set (src_declared S))"
  obtain ts where ts: "\<And>k :: _ \<Rightarrow> (diag, header) res. with_record_tag_bounds H S k = Some (k ts)" "preds_within {''static''} ts" using with_tag_bounds_ok [OF assms] by blast
  let ?qs = "where_list ?G @ optional_wire_type_bounds S @ patch_type_bounds (record_patch_dependencies S) @ ts"
  have "preds_within {''static''} ?qs"
    using ts(2) independent_clauses_within [OF assms(1)] optional_bounds_within [OF assms(1,2)] record_patch_bounds_within [OF assms(1)] by simp
  then have qs: "preds_within ?A ?qs" by (rule preds_within_mono) blast
  have ps: "params_within ?A (ge_params ?G)" unfolding params_within_def using independent_params_within [OF assms(1)] by blast
  show ?thesis
    using with_lifetime_scoped [OF ps qs, of "[]"] with_lifetime_scoped [OF ps qs, of "[GenLifetime _ []]"]
    by (cases rule: patch_lifetime_cases [OF assms(3)])
      (auto simp: record_patch_header_def Let_def ts(1) independent_lifetimes List.map_filter_simps)
qed

lemma add_predicates_scoped:
  assumes "\<exists>h. header = Some (Ok h) \<and> well_scoped h" "\<exists>ps. predicates = Some (Ok ps) \<and> preds_within {''static''} ps"
  shows "\<exists>h. add_predicates header predicates = Some (Ok h) \<and> well_scoped h"
proof -
  obtain h ps where h: "header = Some (Ok h)" "well_scoped h" and ps: "predicates = Some (Ok ps)" "preds_within {''static''} ps" using assms by blast
  have "preds_within (insert ''static'' (set (List.map_filter lifetime_param (hd_params h)))) ps" using ps(2) by (rule preds_within_mono) blast
  then have "well_scoped (h\<lparr>hd_where := hd_where h @ ps\<rparr>)"
    using h(2) by (simp add: well_scoped_def header_within_def preds_within_def ball_Un)
  then show ?thesis using h(1) ps(1) by (simp add: add_predicates_def)
qed

lemma record_patch_impl_scoped:
  assumes "source_scoped S" "struct_ready (src_fields S)" "length (src_names S) < usize_limit H"
  shows "\<exists>h. record_patch_impl_header H S = Some (Ok h) \<and> well_scoped h"
  unfolding record_patch_impl_header_def by (rule add_predicates_scoped [OF record_patch_scoped [OF assms] record_support_ok [OF assms]])

lemma tagged_patch_scoped:
  assumes "source_scoped S" "length (src_names S) < usize_limit H"
  shows "\<exists>h. tagged_patch_header H S = Some (Ok h) \<and> well_scoped h"
proof -
  let ?G = "source_independent_generics (src_generics S)" and ?A = "insert ''static'' (set (src_declared S))"
  let ?qs = "where_list ?G @ patch_type_bounds (tagged_patch_dependencies S)"
  have "preds_within {''static''} ?qs" using independent_clauses_within [OF assms(1)] tagged_patch_bounds_within [OF assms(1)] by simp
  then have qs: "preds_within ?A ?qs" by (rule preds_within_mono) blast
  have ps: "params_within ?A (ge_params ?G)" unfolding params_within_def using independent_params_within [OF assms(1)] by blast
  show ?thesis
    using with_lifetime_scoped [OF ps qs, of "[]"] with_lifetime_scoped [OF ps qs, of "[GenLifetime _ []]"]
    by (cases rule: patch_lifetime_cases [OF assms(2)])
      (auto simp: tagged_patch_header_def Let_def independent_lifetimes List.map_filter_simps)
qed

lemma from_bound_within:
  assumes "tree_scoped (src_declared S) [] (src_tree S ty)"
  shows "set (predicate_lifetimes (BoundP None (PatchSub (support_type (src_tree S ty)) l) (FromB (logical_source_type (src_tree S ty)))))
      \<subseteq> insert l (insert ''static'' (set (src_declared S)))"
    "set (predicate_lifetimes (BoundP None (TaggedPatchSub (support_type (src_tree S ty)) l) (FromB (logical_source_type (src_tree S ty)))))
      \<subseteq> insert l (insert ''static'' (set (src_declared S)))"
  using assms erased_within(1) [OF assms] by (auto simp: logical_source_type_scope tree_scoped_def)

lemma from_predicates_within:
  assumes "source_scoped S"
  shows "preds_within (insert l (insert ''static'' (set (src_declared S)))) (List.map_filter (from_predicate S l) (src_fields S))"
  unfolding preds_within_def
proof
  fix q assume "q \<in> set (List.map_filter (from_predicate S l) (src_fields S))"
  then obtain f where f: "f \<in> set (src_fields S)" "from_predicate S l f = Some q" by (auto simp: in_map_filter)
  have "\<exists>ty \<in> set (field_parts f). q = BoundP None (PatchSub (support_type (src_tree S ty)) l) (FromB (logical_source_type (src_tree S ty))) \<or>
      q = BoundP None (TaggedPatchSub (support_type (src_tree S ty)) l) (FromB (logical_source_type (src_tree S ty)))"
    using f(2) field_part_self [of f] field_part_inner [of f]
    by (auto simp: from_predicate_def split: if_splits ir_category.splits)
  then show "set (predicate_lifetimes q) \<subseteq> insert l (insert ''static'' (set (src_declared S)))"
    using from_bound_within [OF source_scopedD(6) [OF assms f(1)]] by blast
qed

lemma from_headers_scoped:
  assumes "source_scoped S" "\<And>l. preds_within (insert l (insert ''static'' (set (src_declared S)))) (qs l)" "length (src_names S) < usize_limit H"
  shows "\<exists>h. with_patch_lifetime H S (ge_params (src_generics S)) (\<lambda>ps.
      patch_source_lifetime H S (\<lambda>l. Some (Ok \<lparr>hd_params = ps, hd_where = where_list (src_generics S) @ qs l\<rparr>))) = Some (Ok h) \<and> well_scoped h"
proof -
  let ?A = "\<lambda>l. insert l (insert ''static'' (set (src_declared S)))"
  have qs: "preds_within (?A l) (where_list (src_generics S) @ qs l)" for l
    using assms(2) preds_within_mono [OF original_clauses_within [OF assms(1)], of "?A l"] by auto
  have ps: "params_within (?A l) (ge_params (src_generics S))" for l
    using original_params_within [OF assms(1)] unfolding params_within_def by blast
  show ?thesis
    using with_lifetime_scoped [OF ps qs, of _ "[]"] with_lifetime_scoped [OF ps qs, of _ "[GenLifetime _ []]"]
    by (cases rule: patch_lifetime_cases [OF assms(3)])
      (auto simp: source_lifetimes_of_def [symmetric] List.map_filter_simps)
qed

lemma record_from_scoped:
  assumes "source_scoped S" "struct_ready (src_fields S)" "length (src_names S) < usize_limit H"
  shows "\<exists>h. record_from_header H S = Some (Ok h) \<and> well_scoped h"
proof -
  obtain ts where ts: "\<And>k :: _ \<Rightarrow> (diag, header) res. with_record_tag_bounds H S k = Some (k ts)" "preds_within {''static''} ts" using with_tag_bounds_ok [OF assms] by blast
  let ?b = "patch_type_bounds (record_patch_dependencies S) @ optional_wire_type_bounds S @ ts"
  have "preds_within {''static''} ?b" using ts(2) optional_bounds_within [OF assms(1,2)] record_patch_bounds_within [OF assms(1)] by simp
  then have "preds_within (insert l (insert ''static'' (set (src_declared S)))) (?b @ List.map_filter (from_predicate S l) (src_fields S))" for l
    using preds_within_mono [of "{''static''}" ?b] from_predicates_within [OF assms(1)] by simp
  from from_headers_scoped [OF assms(1) this assms(3)]
  show ?thesis unfolding record_from_header_def ts(1) by simp
qed

lemma tagged_from_scoped:
  assumes "source_scoped S" "length (src_names S) < usize_limit H"
  shows "\<exists>h. tagged_from_header H S = Some (Ok h) \<and> well_scoped h"
proof -
  let ?b = "patch_type_bounds (tagged_patch_dependencies S)"
  let ?f = "\<lambda>l. map (\<lambda>ty. BoundP None (PatchSub (support_type (src_tree S ty)) l) (FromB (logical_source_type (src_tree S ty)))) (newtypes (src_ir S))"
  have "preds_within (insert l (insert ''static'' (set (src_declared S)))) (?f l)" for l
    using from_bound_within(1) [OF source_scopedD(7) [OF assms(1)]] unfolding preds_within_def by (simp del: predicate_lifetimes.simps)
  then have "preds_within (insert l (insert ''static'' (set (src_declared S)))) (?b @ ?f l)" for l
    using preds_within_mono [OF tagged_patch_bounds_within [OF assms(1)]] by simp
  from from_headers_scoped [OF assms(1) this assms(2)]
  show ?thesis unfolding tagged_from_header_def by simp
qed

section \<open>What the headers guarantee\<close>

text \<open>The header is emitted, and every lifetime it mentions is declared by it or \<open>'static\<close>.\<close>

definition emitted_scoped :: "(diag, header) res option \<Rightarrow> bool" where
  "emitted_scoped r \<longleftrightarrow> (case r of Some (Ok h) \<Rightarrow> well_scoped h | _ \<Rightarrow> False)"

lemma emitted_scopedI: "\<exists>h. r = Some (Ok h) \<and> well_scoped h \<Longrightarrow> emitted_scoped r"
  by (auto simp: emitted_scoped_def)

lemma accepted_struct_ready:
  assumes "analyze H pr args it = Ok ir" "sc_kind ir = StructItem"
  shows "struct_ready (sc_fields ir)"
  using assms analyze_struct_ready by (cases it) (auto simp: analyze_def analyze_body_def analyze_enum_def Let_def split: if_splits option.splits)


abbreviation "path_tree names \<equiv> PathNode TypePath [] (map (\<lambda>s. Segment s []) names)"

abbreviation "sample_source ir \<equiv>
  \<lparr>src_generics = sample_generics, src_ir = ir, src_tree = (\<lambda>ty. path_tree [''Kind'']), src_len = (\<lambda>len. Token ''4'')\<rparr>"

lemma concat_nils: "concat (map (\<lambda>x. []) xs) = []"
  by (induction xs) simp_all

lemma sample_source_scoped: "source_scoped (sample_source ir)" "length (src_names (sample_source ir)) < usize_limit linux_x86_64"
  by (auto simp: source_scoped_def sample_declared tree_scoped_def lifetime_names_def field_trees_def usize_limit_def comp_def concat_nils)

lemma sample_usable: "usable (sample_source ir) ''wire''" "usable (sample_source ir) ''view''"
  by (auto simp: usable_def sample_declared lifetime_names_def field_trees_def comp_def concat_nils)


section \<open>Where the paths of a header lead\<close>

text \<open>
  A relative path in a module, innermost name first: \<open>self\<close> stays, each \<open>super\<close> climbs. The support module lies
  inside the declaring module and imports its items with \<open>use super::*\<close>.
\<close>

fun climb :: "string list \<Rightarrow> string list \<Rightarrow> string list \<times> string list" where
  "climb m [] = (m, [])"
| "climb m (s # rest) = (if s = ''super'' then climb (tl m) rest else (m, s # rest))"

definition resolve :: "string list \<Rightarrow> string list \<Rightarrow> string list \<times> string list" where
  "resolve m path = (case path of [] \<Rightarrow> (m, []) | s # rest \<Rightarrow> if s = ''self'' then climb m rest else climb m path)"

definition resolve_support :: "string \<Rightarrow> string list \<Rightarrow> string list \<Rightarrow> string list \<times> string list" where
  "resolve_support module m path = (let (m', rest) = resolve (module # m) path in if m' = module # m then (m, rest) else (m', rest))"

fun segment_name :: "node \<Rightarrow> string" where
  "segment_name (Segment s args) = s" | "segment_name _ = []"

lemma climb_length: "length (fst (climb m path)) \<le> length m"
  by (induction m path rule: climb.induct) (auto simp: le_diff_conv)

text \<open>A rebased path leads, from the support module, where the written path leads from the declaration.\<close>

lemma rebased_path_resolves:
  assumes "list_all (\<lambda>n. \<exists>s args. n = Segment s args) segs"
  shows "resolve_support module m (map segment_name (rebase_segments segs)) = resolve m (map segment_name segs)"
proof (cases segs)
  case (Cons n rest)
  then obtain s args where n: "n = Segment s args" using assms by auto
  have "fst (climb m' path) \<noteq> x # m'" for m' path x using climb_length [of m' path] by (auto simp: dest: arg_cong [where f = length])
  moreover have "fst (climb (tl m) path) \<noteq> module # m" for path using climb_length [of "tl m" path] by (auto dest!: arg_cong [where f = length])
  ultimately show ?thesis
    using Cons n by (auto simp: resolve_support_def resolve_def Let_def split: prod.splits dest!: arg_cong [where f = fst])
qed (simp add: resolve_support_def resolve_def)

text \<open>
  The predicates of a record are emitted both inside the support module and on the surface beside it. The
  dependencies among them are written as declared and the optional ones are rebased, so a relative path of the
  first kind leads elsewhere inside the module and one of the second kind leads elsewhere outside.
\<close>

lemma dependency_path_as_written:
  assumes "tr ty = path_tree [''super'', ''Child'']"
  shows "collect_parent_dependencies tr (IrPath False t) ty = [path_tree [''super'', ''Child'']]"
    "resolve_support module m [''super'', ''Child''] = (m, [''Child''])" "resolve m [''super'', ''Child''] = (tl m, [''Child''])"
proof -
  have "walk EraseSourceLifetimes [] (path_tree [''super'', ''Child'']) = path_tree [''super'', ''Child'']"
    by (simp add: EraseSourceLifetimes_def)
  then show "collect_parent_dependencies tr (IrPath False t) ty = [path_tree [''super'', ''Child'']]"
    using assms by (simp add: has_source_lifetime_def erased_source_type_def)
qed (simp_all add: resolve_support_def resolve_def)

lemma optional_path_rebased:
  assumes "src_tree S ty = path_tree [''self'', ''Child'']" "src_fields S = [f]" "if_category f = IrOptional ty (IrPath False t)"
  shows "optional_wire_type_bounds S = [BoundP None (TypeSub (path_tree [''super'', ''Child''])) OptionalWireTypeB]"
    "resolve m [''super'', ''Child''] = (tl m, [''Child''])" "resolve m [''self'', ''Child''] = (m, [''Child''])"
proof -
  have "walk RebaseSupportPaths [] (path_tree [''self'', ''Child'']) = path_tree [''super'', ''Child'']"
    by (simp add: RebaseSupportPaths_def)
  then show "optional_wire_type_bounds S = [BoundP None (TypeSub (path_tree [''super'', ''Child''])) OptionalWireTypeB]"
    using assms by (simp add: optional_wire_type_bounds_def optional_support_types_def deduplicate_types_def support_type_def)
qed (simp_all add: resolve_def)

text \<open>
  The views of a record are implemented at the fixed lifetimes \<open>'wire\<close> and \<open>'view\<close>, which are not chosen fresh: a
  binder of that name captures the source lifetime.
\<close>

abbreviation "visit_bound l \<equiv> Scope (Some [(''wire'', [])]) [PathNode BoundPath [] [Segment ''Visit'' [Life l, Life ''wire'']]]"

lemma fixed_lifetime_captured:
  "logical_value_predicates \<lparr>ge_params = [GenLifetime ''a'' [], GenType ''T'' [visit_bound ''a''] None], ge_where = None\<rparr> ''wire'' =
     [ParamP ''T'' [visit_bound ''wire'']]"
  "free_lifetimes [] (visit_bound ''a'') = [''a'']" "free_lifetimes [] (visit_bound ''wire'') = []"
  by (simp_all add: logical_value_predicates_def logical_view_generics_def source_lifetimes_of_def List.map_filter_def DeclaredLifetimeRebinder_def
      rebind_lifetime_def walk_binders_def is_bound_def bound_lifetime_names_def changed_bounds_def binder_tokens_def binder_bounds_def Let_def)

end
