(* ===== verification/Zs_Corpus.thy ===== *)
theory Zs_Corpus
  imports Zs_Analyze
begin

text \<open>
  The corpus half of the conformance front end, \<open>conformance/build/frontend.rs\<close>: it reads the same schema source as
  the macro, with its own smaller grammar, into the model the C++ side is generated from. \<open>die\<close> is a panic. Syntax
  trees are the parts of \<open>syn\<close>'s that the reader inspects; types and literals are those of the macro's model.
\<close>

section \<open>The model\<close>

datatype cstring_kind = Utf8 | CBytes | U16Kind | U16C

datatype ctype =
    CPrimitive primitive
  | CBool
  | CString cstring_kind
  | CFixedBytes nat
  | CArray ctype nat
  | CSchema string
  | COption ctype

record cfield =
  cf_name :: string
  cf_ty :: ctype
  cf_endian :: endian
  cf_align :: "nat option"
  cf_capacity :: "nat option"
  cf_len :: "(scalar_repr \<times> endian) option"
  cf_tag_field :: "string option"

record enum_variant =
  cv_name :: string
  cv_raw :: nat

record ctagged_variant =
  tv_name :: string
  tv_tag_variant :: string
  tv_payload :: "string option"

datatype schema_kind =
    CStruct "cfield list"
  | CScalarEnum scalar_repr endian "enum_variant list"
  | CTaggedEnum string "ctagged_variant list"

record cschema =
  cs_name :: string
  cs_kind :: schema_kind
  cs_align :: "nat option"

record root_registration =
  rr_root_id :: string
  rr_case_id :: nat

section \<open>Syntax\<close>

text \<open>
  An attribute is a bare path, a parenthesised list or a name-value pair. An argument of a list is a path, a path with a
  value, or a path with its own list, which is kept only as the integer literal it consists of, if it does.
\<close>

datatype attr_arg = ArgPath "string list" | ArgValue "string list" meta_value | ArgList "string list" "lit_int option"

datatype attr_meta = AttrPath | AttrList "attr_arg list" | AttrNameValue

record corpus_attr =
  ca_path :: "string list"
  ca_meta :: attr_meta

record field_syntax =
  fs_public :: bool
  fs_ident :: string
  fs_ty :: syn_type
  fs_attrs :: "corpus_attr list"

datatype fields_syntax = FieldsNamed "field_syntax list" | FieldsUnnamed "syn_type list" | FieldsUnit

record variant_syntax =
  vs_ident :: string
  vs_fields :: fields_syntax
  vs_disc :: "disc_expr option"
  vs_attrs :: "corpus_attr list"

record 'a decl_syntax =
  ds_public :: bool
  ds_ident :: string
  ds_attrs :: "corpus_attr list"
  ds_params :: "generic_param list"
  ds_where :: bool
  ds_body :: 'a

datatype use_tree = UsePath string use_tree | UseName string | UseGroup "use_tree list" | UseOther

datatype const_expr = ExprReference const_expr | ExprArray "const_expr list" | ExprTuple "const_expr list" | ExprStr string | ExprInt lit_int | ExprOther

datatype corpus_item =
    CorpusUse "corpus_attr list" use_tree
  | CorpusStruct "fields_syntax decl_syntax"
  | CorpusEnum "variant_syntax list decl_syntax"
  | CorpusConst string "corpus_attr list" bool const_expr
  | CorpusOther

section \<open>Literals and paths\<close>

text \<open>\<open>uint\<close>: an unsuffixed literal that fits a \<open>u64\<close>.\<close>

definition uint_lit :: "lit_int \<Rightarrow> (diag, nat) res" where
  "uint_lit l =
     (if li_suffix l \<noteq> [] then Panic
      else case radix_digits (filter (\<lambda>c. c \<noteq> CHR ''_'') (li_digits l)) of (radix, digits) \<Rightarrow>
        (case from_str_radix (2 ^ 64) digits radix of Some v \<Rightarrow> Ok v | None \<Rightarrow> Panic))"

definition try_u32 :: "nat \<Rightarrow> (diag, nat) res" where
  "try_u32 n = (if n < 2 ^ 32 then Ok n else Panic)"

definition power :: "nat \<Rightarrow> (diag, nat) res" where
  "power n = and_then (try_u32 n) (\<lambda>n. if n = 0 \<or> \<not> is_power_of_two n then Panic else Ok n)"

definition simple_path :: "bool \<Rightarrow> (string \<times> path_args) list \<Rightarrow> (diag, string list) res" where
  "simple_path leading segs =
     (if leading \<or> segs = [] \<or> list_ex (\<lambda>(s, args). args \<noteq> NoArgs) segs then Panic
      else Ok (map (normalized_ident \<circ> fst) segs))"

definition width_path :: "string list \<Rightarrow> (diag, scalar_repr) res" where
  "width_path path = (case map_of [([''u8''], ReprU8), ([''u16''], ReprU16), ([''u32''], ReprU32)] (map normalized_ident path) of
     Some w \<Rightarrow> Ok w | None \<Rightarrow> Panic)"

section \<open>Attributes\<close>

record zero_options =
  zo_endian :: "endian option"
  zo_align :: "nat option"
  zo_capacity :: "nat option"
  zo_len :: "scalar_repr option"
  zo_tag :: "string option"
  zo_tag_field :: "string option"

definition no_options :: zero_options where
  "no_options = \<lparr>zo_endian = None, zo_align = None, zo_capacity = None, zo_len = None, zo_tag = None, zo_tag_field = None\<rparr>"

definition derive_arg :: "attr_arg \<Rightarrow> (diag, unit) res" where
  "derive_arg a = (case a of
     ArgPath [s] \<Rightarrow> if List.member [''Clone'', ''Copy'', ''Debug'', ''PartialEq'', ''Eq''] s then Ok () else Panic
   | _ \<Rightarrow> Panic)"

lemma and_then_cong [fundef_cong]:
  "m = m' \<Longrightarrow> (\<And>x. m' = Ok x \<Longrightarrow> f x = g x) \<Longrightarrow> and_then m f = and_then m' g"
  by (cases m') auto

text \<open>A loop that threads a state and may leave.\<close>

fun try_fold :: "('s \<Rightarrow> 'a \<Rightarrow> ('e, 's) res) \<Rightarrow> 's \<Rightarrow> 'a list \<Rightarrow> ('e, 's) res" where
  "try_fold f s [] = Ok s"
| "try_fold f s (x # xs) = and_then (f s x) (\<lambda>s'. try_fold f s' xs)"

definition repr_arg :: "zero_options \<times> scalar_repr option \<Rightarrow> attr_arg \<Rightarrow> (diag, zero_options \<times> scalar_repr option) res" where
  "repr_arg st a = (case st of (z, repr) \<Rightarrow> (case a of
     ArgPath p \<Rightarrow>
       if p = [''u8''] then Ok (z, Some ReprU8) else if p = [''u16''] then Ok (z, Some ReprU16)
       else if p = [''u32''] then Ok (z, Some ReprU32) else if p = [''C''] then Ok (z, repr) else Panic
   | ArgList p tokens \<Rightarrow>
       if p = [''align''] then (case tokens of
           Some l \<Rightarrow> and_then (uint_lit l) (\<lambda>n. and_then (power n) (\<lambda>n. Ok (z\<lparr>zo_align := Some n\<rparr>, repr)))
         | None \<Rightarrow> Panic)
       else Panic
   | ArgValue p v \<Rightarrow> Panic))"

text \<open>One item of \<open>parse_nested_meta\<close>; its errors die at the end of the attribute.\<close>

definition join_path :: "string list \<Rightarrow> string" where
  "join_path p = concat (case p of [] \<Rightarrow> [] | s # ss \<Rightarrow> s # map (\<lambda>t. ''::'' @ t) ss)"

definition zero_arg :: "zero_options \<Rightarrow> attr_arg \<Rightarrow> (diag, zero_options) res" where
  "zero_arg z a = (case a of
     ArgValue [k] v \<Rightarrow>
       let option = normalized_ident k in
       if option = ''endian'' then (case v of
           MStr s \<Rightarrow>
             if s = ''native'' then Ok (z\<lparr>zo_endian := Some Native\<rparr>) else if s = ''little'' then Ok (z\<lparr>zo_endian := Some Little\<rparr>)
             else if s = ''big'' then Ok (z\<lparr>zo_endian := Some Big\<rparr>) else Panic
         | _ \<Rightarrow> Panic)
       else if option = ''capacity'' then (case v of
           MInt l \<Rightarrow> and_then (uint_lit l) (\<lambda>n. and_then (try_u32 n) (\<lambda>n. Ok (z\<lparr>zo_capacity := Some n\<rparr>))) | _ \<Rightarrow> Panic)
       else if option = ''align'' then (case v of
           MInt l \<Rightarrow> and_then (uint_lit l) (\<lambda>n. and_then (power n) (\<lambda>n. Ok (z\<lparr>zo_align := Some n\<rparr>))) | _ \<Rightarrow> Panic)
       else if option = ''len_type'' then
         and_then (or_unreachable (value_path v)) (\<lambda>p. and_then (width_path p) (\<lambda>w. Ok (z\<lparr>zo_len := Some w\<rparr>)))
       else if option = ''tag'' then
         and_then (or_unreachable (value_path v)) (\<lambda>p. Ok (z\<lparr>zo_tag := Some (join_path (map normalized_ident p))\<rparr>))
       else if option = ''tag_field'' then
         and_then (or_unreachable (value_ident v)) (\<lambda>s. Ok (z\<lparr>zo_tag_field := Some (normalized_ident s)\<rparr>))
       else Panic
   | _ \<Rightarrow> Panic)"

definition one_attr :: "bool \<Rightarrow> zero_options \<times> scalar_repr option \<Rightarrow> corpus_attr \<Rightarrow> (diag, zero_options \<times> scalar_repr option) res" where
  "one_attr allow_naming st a =
     (if ca_path a = [''doc''] then Ok st
      else if ca_path a = [''derive''] then (case ca_meta a of
          AttrList args \<Rightarrow> and_then (for_each derive_arg args) (\<lambda>_. Ok st) | _ \<Rightarrow> Panic)
      else if ca_path a = [''allow''] then
        (if allow_naming \<and> ca_meta a = AttrList [ArgPath [''non_camel_case_types'']] then Ok st else Panic)
      else if ca_path a = [''repr''] then (case ca_meta a of AttrList args \<Rightarrow> try_fold repr_arg st args | _ \<Rightarrow> Panic)
      else if ca_path a = [''zero''] then (case ca_meta a of
          AttrPath \<Rightarrow> Ok st
        | AttrList args \<Rightarrow> and_then (try_fold zero_arg (fst st) args) (\<lambda>z. Ok (z, snd st))
        | AttrNameValue \<Rightarrow> Panic)
      else Panic)"

definition attrs_of :: "corpus_attr list \<Rightarrow> bool \<Rightarrow> (diag, zero_options \<times> scalar_repr option) res" where
  "attrs_of attrs allow_naming = try_fold (one_attr allow_naming) (no_options, None) attrs"

section \<open>Types\<close>

text \<open>The inner type of a canonical \<open>Option\<close> path.\<close>

definition option_inner :: "bool \<Rightarrow> bool \<Rightarrow> (string \<times> path_args) list \<Rightarrow> (diag, syn_type option) res" where
  "option_inner qself leading segs =
     (if qself \<or> leading then Ok None
      else if \<not> (case map (normalized_ident \<circ> fst) segs of
          [s] \<Rightarrow> s = ''Option''
        | [ns, m, s] \<Rightarrow> (ns = ''core'' \<or> ns = ''std'') \<and> m = ''option'' \<and> s = ''Option''
        | _ \<Rightarrow> False) then Ok None
      else if list_ex (\<lambda>(s, args). args \<noteq> NoArgs) (butlast segs) then Panic
      else case snd (last segs) of
        AngleArgs [TypeArg inner] \<Rightarrow> Ok (Some inner)
      | _ \<Rightarrow> Panic)"

lemma option_inner_size: "option_inner qself leading segs = Ok (Some inner) \<Longrightarrow> size inner < size (TyPath qself leading segs)"
proof -
  assume h: "option_inner qself leading segs = Ok (Some inner)"
  then have "segs \<noteq> []" "snd (last segs) = AngleArgs [TypeArg inner]"
    by (auto simp: option_inner_def split: if_splits path_args.splits list.splits generic_arg.splits)
  moreover have "size_prod (\<lambda>_. 0) size (last segs) \<le> size_list (size_prod (\<lambda>_. 0) size) segs"
    if "segs \<noteq> []" using that by (induction segs) auto
  ultimately show ?thesis by (cases "last segs") fastforce
qed

definition primitive_name :: "string \<Rightarrow> primitive option" where
  "primitive_name = map_of
     [(''u8'', U8), (''i8'', I8), (''u16'', U16), (''i16'', I16), (''u32'', U32), (''i32'', I32),
      (''u64'', U64), (''i64'', I64), (''f32'', F32), (''f64'', F64)]"

definition array_len_lit :: "len_expr \<Rightarrow> (diag, nat) res" where
  "array_len_lit len = (case len of
     LenInt l \<Rightarrow> and_then (uint_lit l) (\<lambda>n. and_then (try_u32 n) (\<lambda>n. if n = 0 then Panic else Ok n))
   | _ \<Rightarrow> Panic)"

fun array_element_type :: "ctype \<Rightarrow> bool" where
  "array_element_type (CPrimitive p) = True" | "array_element_type CBool = True" | "array_element_type (CSchema s) = True"
| "array_element_type _ = False"

definition string_ref :: "string \<Rightarrow> (diag, ctype) res" where
  "string_ref s = (case map_of [(''str'', Utf8), (''CStr'', CBytes), (''U16Str'', U16Kind), (''U16CStr'', U16C)] s of
     Some k \<Rightarrow> Ok (CString k) | None \<Rightarrow> Panic)"

definition classify_ref :: "syn_type \<Rightarrow> (diag, ctype) res" where
  "classify_ref target = (case target of
     TyPath False leading segs \<Rightarrow> and_then (simple_path leading segs) (\<lambda>v. case v of [x] \<Rightarrow> string_ref x | _ \<Rightarrow> Panic)
   | TyArray elem len \<Rightarrow>
       (case elem of
          TyPath q leading segs \<Rightarrow>
            if \<not> leading \<and> segs = [(''u8'', NoArgs)] then and_then (array_len_lit len) (\<lambda>n. Ok (CFixedBytes n)) else Panic
        | _ \<Rightarrow> Panic)
   | _ \<Rightarrow> Panic)"

function classify :: "syn_type \<Rightarrow> (diag, ctype) res" where
  "classify (TyPath qself leading segs) =
     (if qself then Panic
      else case option_inner qself leading segs of
        Ok (Some inner) \<Rightarrow> and_then (classify inner) (\<lambda>t. Ok (COption t))
      | Ok None \<Rightarrow> and_then (simple_path leading segs) (\<lambda>v. case v of
          [x] \<Rightarrow> (case primitive_name x of
              Some p \<Rightarrow> Ok (CPrimitive p) | None \<Rightarrow> if x = ''bool'' then Ok CBool else Ok (CSchema x))
        | _ \<Rightarrow> Panic)
      | Err e \<Rightarrow> Err e
      | Panic \<Rightarrow> Panic)"
| "classify (TyArray elem len) =
     and_then (array_len_lit len) (\<lambda>n. and_then (classify elem) (\<lambda>e. if array_element_type e then Ok (CArray e n) else Panic))"
| "classify (TyReference lifetime mutable target) = (if \<not> mutable \<and> lifetime \<noteq> None then classify_ref target else Panic)"
| "classify TyOther = Panic"
  by pat_completeness auto

termination
  by (relation "measure size") (auto dest: option_inner_size)

section \<open>Schema references and zero sentinels\<close>

fun schema_refs :: "ctype \<Rightarrow> string list" where
  "schema_refs (CSchema s) = [s]"
| "schema_refs (CArray t n) = schema_refs t"
| "schema_refs (COption t) = schema_refs t"
| "schema_refs _ = []"

text \<open>\<open>any\<close> over a list whose test may panic.\<close>

fun any_res :: "('a \<Rightarrow> ('e, bool) res) \<Rightarrow> 'a list \<Rightarrow> ('e, bool) res" where
  "any_res f [] = Ok False"
| "any_res f (x # xs) = and_then (f x) (\<lambda>b. if b then Ok True else any_res f xs)"

lemma any_res_cong [fundef_cong]:
  "xs = ys \<Longrightarrow> (\<And>x. x \<in> set ys \<Longrightarrow> f x = g x) \<Longrightarrow> any_res f xs = any_res g ys"
proof (induction ys arbitrary: xs)
  case (Cons y ys)
  then show ?case by (cases "g y") auto
qed simp

text \<open>
  Whether the all-zero bytes of a type are never a value of it. The recursion follows schema references, so it is given as
  many levels as it may descend; running out is the stack overflow of a cyclic corpus.
\<close>

fun type_all_zero_invalid :: "(string \<Rightarrow> (diag, bool) res) \<Rightarrow> ctype \<Rightarrow> (diag, bool) res" where
  "type_all_zero_invalid schema (CSchema s) = schema s"
| "type_all_zero_invalid schema (CArray t n) = (if n = 0 then Ok False else type_all_zero_invalid schema t)"
| "type_all_zero_invalid schema _ = Ok False"

fun schema_all_zero_invalid :: "nat \<Rightarrow> (string \<Rightarrow> cschema option) \<Rightarrow> string \<Rightarrow> (diag, bool) res" where
  "schema_all_zero_invalid 0 schemas s = Panic"
| "schema_all_zero_invalid (Suc levels) schemas s = (case schemas s of
     None \<Rightarrow> Panic
   | Some sc \<Rightarrow> (case cs_kind sc of
       CScalarEnum repr en variants \<Rightarrow> Ok (variants \<noteq> [] \<and> list_all (\<lambda>v. cv_raw v \<noteq> 0) variants)
     | CStruct fs \<Rightarrow> any_res (\<lambda>f. type_all_zero_invalid (schema_all_zero_invalid levels schemas) (cf_ty f)) fs
     | CTaggedEnum tag variants \<Rightarrow> Ok False))"

definition option_eligible :: "nat \<Rightarrow> (string \<Rightarrow> cschema option) \<Rightarrow> ctype \<Rightarrow> (diag, bool) res" where
  "option_eligible levels schemas t = (case t of
     CSchema s \<Rightarrow> schema_all_zero_invalid levels schemas s
   | CArray element n \<Rightarrow>
       if n = 0 then Ok False
       else (case element of CSchema s \<Rightarrow> type_all_zero_invalid (schema_all_zero_invalid levels schemas) element | _ \<Rightarrow> Ok False)
   | _ \<Rightarrow> Ok False)"

section \<open>The corpus\<close>

fun is_cstring :: "ctype \<Rightarrow> bool" where "is_cstring (CString k) = True" | "is_cstring _ = False"

definition corpus_field :: "field_syntax \<Rightarrow> (diag, cfield) res" where
  "corpus_field d =
     (if \<not> fs_public d then Panic
      else and_then (attrs_of (fs_attrs d) False) (\<lambda>(o1, r).
      if r \<noteq> None \<or> zo_tag o1 \<noteq> None then Panic
      else and_then (classify (fs_ty d)) (\<lambda>ty.
      if is_cstring ty \<noteq> (zo_capacity o1 \<noteq> None) then Panic
      else if (case ty of CFixedBytes n \<Rightarrow> True | _ \<Rightarrow> False) \<and> (zo_capacity o1 \<noteq> None \<or> zo_len o1 \<noteq> None \<or> zo_endian o1 \<noteq> None) then Panic
      else if (case ty of CArray t n \<Rightarrow> True | _ \<Rightarrow> False) \<and> (zo_capacity o1 \<noteq> None \<or> zo_len o1 \<noteq> None \<or> zo_endian o1 \<noteq> None) then Panic
      else if (case ty of COption t \<Rightarrow> True | _ \<Rightarrow> False) \<and>
        (zo_capacity o1 \<noteq> None \<or> zo_len o1 \<noteq> None \<or> zo_endian o1 \<noteq> None \<or> zo_tag_field o1 \<noteq> None) then Panic
      else if \<not> (ty = CString Utf8 \<or> ty = CString U16Kind) \<and> zo_len o1 \<noteq> None then Panic
      else let en = (case zo_endian o1 of Some e \<Rightarrow> e | None \<Rightarrow> Native) in
        Ok \<lparr>cf_name = normalized_ident (fs_ident d), cf_ty = ty, cf_endian = en, cf_align = zo_align o1,
          cf_capacity = zo_capacity o1, cf_len = map_option (\<lambda>w. (w, en)) (zo_len o1), cf_tag_field = zo_tag_field o1\<rparr>)))"

definition corpus_struct :: "fields_syntax decl_syntax \<Rightarrow> (diag, cschema) res" where
  "corpus_struct d =
     (if \<not> ds_public d \<or> ds_where d then Panic
      else if list_ex (\<lambda>p. case p of LifetimeParam s as \<Rightarrow> False | _ \<Rightarrow> True) (ds_params d) \<or> length (ds_params d) > 1 then Panic
      else and_then (attrs_of (ds_attrs d) False) (\<lambda>(z, r).
      if r \<noteq> None \<or> zo_tag z \<noteq> None then Panic
      else case ds_body d of
        FieldsNamed fs \<Rightarrow> and_then (try_fold (\<lambda>acc f. and_then (corpus_field f) (\<lambda>c. Ok (acc @ [c]))) [] fs) (\<lambda>cfs.
          Ok \<lparr>cs_name = normalized_ident (ds_ident d), cs_kind = CStruct cfs, cs_align = zo_align z\<rparr>)
      | _ \<Rightarrow> Panic))"

text \<open>\<open>split\<close> of a string at each occurrence of two colons.\<close>

fun split_colons :: "string \<Rightarrow> string list" where
  "split_colons s = (case s of
     c # d # rest \<Rightarrow>
       if c = CHR '':'' \<and> d = CHR '':'' then [] # split_colons rest
       else (case split_colons (d # rest) of w # ws \<Rightarrow> (c # w) # ws | [] \<Rightarrow> [[c]])
   | _ \<Rightarrow> [s])"

declare split_colons.simps [simp del]

definition corpus_tagged_variant ::
    "string option \<times> ctagged_variant list \<Rightarrow> variant_syntax \<Rightarrow> (diag, string option \<times> ctagged_variant list) res" where
  "corpus_tagged_variant st v = (case st of (tag, variants) \<Rightarrow>
     if vs_disc v \<noteq> None then Panic
     else and_then (attrs_of (vs_attrs v) False) (\<lambda>(o1, r).
     if r \<noteq> None \<or> zo_endian o1 \<noteq> None \<or> zo_align o1 \<noteq> None \<or> zo_capacity o1 \<noteq> None \<or> zo_len o1 \<noteq> None \<or> zo_tag_field o1 \<noteq> None
     then Panic
     else case zo_tag o1 of
       None \<Rightarrow> Panic
     | Some path \<Rightarrow> (case split_colons path of
         [owner, name] \<Rightarrow>
           if tag \<noteq> None \<and> tag \<noteq> Some owner then Panic
           else and_then (case vs_fields v of
               FieldsUnit \<Rightarrow> Ok None
             | FieldsUnnamed [t] \<Rightarrow> and_then (classify t) (\<lambda>c. case c of CSchema s \<Rightarrow> Ok (Some s) | _ \<Rightarrow> Panic)
             | _ \<Rightarrow> Panic) (\<lambda>payload.
             Ok (Some owner, variants @ [\<lparr>tv_name = normalized_ident (vs_ident v), tv_tag_variant = name, tv_payload = payload\<rparr>]))
       | _ \<Rightarrow> Panic)))"

fun repr_max :: "scalar_repr \<Rightarrow> nat" where
  "repr_max ReprU8 = 2 ^ 8 - 1" | "repr_max ReprU16 = 2 ^ 16 - 1" | "repr_max ReprU32 = 2 ^ 32 - 1"

definition corpus_scalar_variant :: "scalar_repr \<Rightarrow> enum_variant list \<Rightarrow> variant_syntax \<Rightarrow> (diag, enum_variant list) res" where
  "corpus_scalar_variant repr variants v =
     (if vs_attrs v \<noteq> [] \<or> vs_fields v \<noteq> FieldsUnit then Panic
      else case vs_disc v of
        Some (DiscInt l) \<Rightarrow> and_then (uint_lit l) (\<lambda>raw.
          if raw > repr_max repr then Panic else Ok (variants @ [\<lparr>cv_name = normalized_ident (vs_ident v), cv_raw = raw\<rparr>]))
      | _ \<Rightarrow> Panic)"

definition corpus_enum :: "variant_syntax list decl_syntax \<Rightarrow> (diag, cschema) res" where
  "corpus_enum d =
     (if \<not> ds_public d \<or> ds_params d \<noteq> [] \<or> ds_where d then Panic
      else and_then (attrs_of (ds_attrs d) True) (\<lambda>(z, repr). case repr of
        None \<Rightarrow>
          if zo_tag z \<noteq> None \<or> zo_endian z \<noteq> None then Panic
          else and_then (try_fold corpus_tagged_variant (None, []) (ds_body d)) (\<lambda>(tag, variants). case tag of
              None \<Rightarrow> Panic
            | Some t \<Rightarrow> Ok \<lparr>cs_name = normalized_ident (ds_ident d), cs_kind = CTaggedEnum t variants, cs_align = zo_align z\<rparr>)
      | Some w \<Rightarrow>
          if zo_align z \<noteq> None then Panic
          else and_then (try_fold (corpus_scalar_variant w) [] (ds_body d)) (\<lambda>variants.
            Ok \<lparr>cs_name = normalized_ident (ds_ident d),
              cs_kind = CScalarEnum w (case zo_endian z of Some e \<Rightarrow> e | None \<Rightarrow> Native) variants, cs_align = None\<rparr>)))"

fun quote_use :: "use_tree \<Rightarrow> (diag, string) res" and quote_uses :: "use_tree list \<Rightarrow> (diag, string list) res" where
  "quote_use (UsePath s t) = and_then (quote_use t) (\<lambda>rest. Ok (normalized_ident s @ ''::'' @ rest))"
| "quote_use (UseName s) = Ok (normalized_ident s)"
| "quote_use (UseGroup ts) = and_then (quote_uses ts) (\<lambda>ss.
     Ok (''{'' @ concat (case ss of [] \<Rightarrow> [] | s # rest \<Rightarrow> s # map (\<lambda>t. '','' @ t) rest) @ ''}''))"
| "quote_use UseOther = Panic"
| "quote_uses [] = Ok []"
| "quote_uses (t # ts) = and_then (quote_use t) (\<lambda>s. and_then (quote_uses ts) (\<lambda>ss. Ok (s # ss)))"

definition registry_entry :: "const_expr \<Rightarrow> (diag, root_registration) res" where
  "registry_entry e = (case e of
     ExprTuple [ExprStr s, ExprInt i] \<Rightarrow>
       and_then (uint_lit i) (\<lambda>n. and_then (try_u32 n) (\<lambda>n. Ok \<lparr>rr_root_id = s, rr_case_id = n\<rparr>))
   | _ \<Rightarrow> Panic)"

definition parse_registry :: "const_expr \<Rightarrow> (diag, root_registration list) res" where
  "parse_registry e = (case e of
     ExprReference (ExprArray es) \<Rightarrow> try_fold (\<lambda>acc x. and_then (registry_entry x) (\<lambda>r. Ok (acc @ [r]))) [] es
   | _ \<Rightarrow> Panic)"

record corpus_state =
  co_schemas :: "cschema list"
  co_roots :: "root_registration list option"
  co_imports :: "string set"

definition corpus_step :: "corpus_state \<Rightarrow> corpus_item \<Rightarrow> (diag, corpus_state) res" where
  "corpus_step st item = (case item of
     CorpusUse as tree \<Rightarrow>
       if as \<noteq> [] then Panic else and_then (quote_use tree) (\<lambda>s. Ok (st\<lparr>co_imports := insert s (co_imports st)\<rparr>))
   | CorpusStruct d \<Rightarrow> and_then (corpus_struct d) (\<lambda>sc. Ok (st\<lparr>co_schemas := co_schemas st @ [sc]\<rparr>))
   | CorpusEnum d \<Rightarrow> and_then (corpus_enum d) (\<lambda>sc. Ok (st\<lparr>co_schemas := co_schemas st @ [sc]\<rparr>))
   | CorpusConst name as public e \<Rightarrow>
       if name \<noteq> ''CONFORMANCE_ROOT_IDS'' then Panic
       else if co_roots st \<noteq> None \<or> as \<noteq> [] \<or> \<not> public then Panic
       else and_then (parse_registry e) (\<lambda>rs. Ok (st\<lparr>co_roots := Some rs\<rparr>))
   | CorpusOther \<Rightarrow> Panic)"

definition frozen_imports :: "string set" where
  "frozen_imports = {''core::ffi::CStr'', ''widestring::{U16CStr,U16Str}'', ''zero_schema::zero''}"

definition parse_corpus :: "corpus_item list \<Rightarrow> (diag, cschema list \<times> root_registration list) res" where
  "parse_corpus items =
     and_then (try_fold corpus_step \<lparr>co_schemas = [], co_roots = None, co_imports = {}\<rparr> items) (\<lambda>st.
     if co_imports st \<noteq> frozen_imports then Panic
     else case co_roots st of None \<Rightarrow> Panic | Some roots \<Rightarrow> Ok (co_schemas st, roots))"

end
