(* ===== verification/Zs_Cases.thy ===== *)
theory Zs_Cases
  imports Zs_Corpus
begin

text \<open>
  The case half of the conformance front end, \<open>conformance/build/frontend.rs\<close>: the token parser of
  \<open>conformance_cases!\<close>. A parser takes the tokens that are left and returns what it read and the rest; the \<open>?\<close> errors
  and the panics of \<open>die\<close> are kept apart. Tokens are token trees with two adjacent colons as one token; \<open>TokOther\<close> is
  any token no parser here accepts.
\<close>

section \<open>Cases\<close>

datatype cvalue =
    VRecord "(string \<times> cvalue) list"
  | VUnion string string "(string \<times> cvalue) list"
  | VBits nat
  | VBoolean bool
  | VVariant string string
  | VBytes "byte list"
  | VUnits "16 word list"
  | VArray "cvalue list"
  | VNone
  | VSome cvalue

datatype metric =
    RootSize | RootAlign | RootStride
  | FieldOffset string | FieldSize string | FieldAlign string
  | ArrayLength string | ArrayStride string
  | OptionalSpan string | OptionalIsOptional string | OptionalArrayLength string | OptionalArrayStride string
  | TagOffset | PayloadOffset | PayloadSize | PayloadAlign | TagSize | TagAlign | TagEndian
  | VariantRaw string | VariantPayloadSize string | VariantPayloadAlign string
  | EnumSize string | EnumAlign string | EnumWidth string | EnumEndian string | EnumRaw string
  | StringEncoding string | StringCapacity string | StringUnitWidth string | StringDataOffset string
  | StringLengthWidth string | StringLengthEndian string | StringLengthOffset string

datatype observation =
    ObsScalar "string list"
  | ObsTag "string list"
  | ObsLength "string list"
  | ObsUnit "string list" nat
  | ObsElement "string list" nat
  | ObsOptional "string list"

record metric_entry =
  me_key :: nat
  me_metric :: metric

record observation_entry =
  oe_key :: nat
  oe_source :: observation

text \<open>A root is a schema name.\<close>

record case_decl =
  ca_id :: nat
  ca_root_id :: string
  ca_root :: string
  ca_native :: bool
  ca_value :: cvalue
  ca_layout :: "metric_entry list"
  ca_observe :: "observation_entry list"

section \<open>Tokens\<close>

datatype delim = Paren | Brace | Bracket

datatype tok = TokIdent string | TokInt lit_int | TokStr string | TokColon | TokColon2 | TokComma | TokDot | TokGroup delim "tok list" | TokOther

text \<open>The words an identifier cannot be, unless written raw.\<close>

definition reserved :: "string \<Rightarrow> bool" where
  "reserved s \<longleftrightarrow> List.member
     [''_'', ''abstract'', ''as'', ''async'', ''await'', ''become'', ''box'', ''break'', ''const'', ''continue'', ''crate'', ''do'',
      ''dyn'', ''else'', ''enum'', ''extern'', ''false'', ''final'', ''fn'', ''for'', ''if'', ''impl'', ''in'', ''let'', ''loop'',
      ''macro'', ''match'', ''mod'', ''move'', ''mut'', ''override'', ''priv'', ''pub'', ''ref'', ''return'', ''Self'', ''self'',
      ''static'', ''struct'', ''super'', ''trait'', ''true'', ''try'', ''type'', ''typeof'', ''unsafe'', ''unsized'', ''use'',
      ''virtual'', ''where'', ''while'', ''yield''] s"

fun p_ident :: "tok list \<Rightarrow> (diag, string \<times> tok list) res" where
  "p_ident (TokIdent s # ts) = (if reserved s then Err SynDiag else Ok (s, ts))"
| "p_ident _ = Err SynDiag"

fun p_int :: "tok list \<Rightarrow> (diag, lit_int \<times> tok list) res" where
  "p_int (TokInt l # ts) = Ok (l, ts)" | "p_int _ = Err SynDiag"

fun p_str :: "tok list \<Rightarrow> (diag, string \<times> tok list) res" where
  "p_str (TokStr s # ts) = Ok (s, ts)" | "p_str _ = Err SynDiag"

fun p_bool :: "tok list \<Rightarrow> (diag, bool \<times> tok list) res" where
  "p_bool (TokIdent s # ts) = (if s = ''true'' then Ok (True, ts) else if s = ''false'' then Ok (False, ts) else Err SynDiag)"
| "p_bool _ = Err SynDiag"

definition p_token :: "tok \<Rightarrow> tok list \<Rightarrow> (diag, tok list) res" where
  "p_token t ts = (case ts of x # rest \<Rightarrow> if x = t then Ok rest else Err SynDiag | [] \<Rightarrow> Err SynDiag)"

fun p_group :: "delim \<Rightarrow> tok list \<Rightarrow> (diag, tok list \<times> tok list) res" where
  "p_group d (TokGroup d' inner # ts) = (if d = d' then Ok (inner, ts) else Err SynDiag)"
| "p_group d _ = Err SynDiag"

definition peek :: "tok \<Rightarrow> tok list \<Rightarrow> bool" where
  "peek t ts \<longleftrightarrow> (case ts of x # rest \<Rightarrow> x = t | [] \<Rightarrow> False)"

text \<open>The segments of a path; the words for modules and the own type are segments too.\<close>

fun p_segments :: "tok list \<Rightarrow> (diag, string list \<times> tok list) res" where
  "p_segments (TokIdent s # ts) =
     (if reserved s \<and> \<not> List.member [''super'', ''self'', ''Self'', ''crate''] s then Err SynDiag
      else case ts of
        TokColon2 # rest \<Rightarrow> and_then (p_segments rest) (\<lambda>(ss, rest'). Ok (s # ss, rest'))
      | _ \<Rightarrow> Ok ([s], ts))"
| "p_segments _ = Err SynDiag"

text \<open>A path and \<open>simple_path\<close> of it.\<close>

definition p_simple_path :: "tok list \<Rightarrow> (diag, string list \<times> tok list) res" where
  "p_simple_path ts = (if peek TokColon2 ts then and_then (p_segments (tl ts)) (\<lambda>_. Panic)
     else and_then (p_segments ts) (\<lambda>(ss, rest). Ok (map normalized_ident ss, rest)))"

text \<open>\<open>field\<close>: a keyword and a colon.\<close>

definition p_field :: "string \<Rightarrow> tok list \<Rightarrow> (diag, tok list) res" where
  "p_field s ts = and_then (p_ident ts) (\<lambda>(k, ts). if k \<noteq> s then Err (Diag (''expected '' @ s)) else p_token TokColon ts)"

definition p_end :: "string \<Rightarrow> tok list \<Rightarrow> (diag, unit) res" where
  "p_end message ts = (if ts = [] then Ok () else Err (Diag message))"

section \<open>Values\<close>

fun p_ints :: "tok list \<Rightarrow> (diag, lit_int list) res" where
  "p_ints [] = Ok []"
| "p_ints (TokInt l # ts) = (case ts of
     [] \<Rightarrow> Ok [l]
   | t # rest \<Rightarrow> if t = TokComma then and_then (p_ints rest) (\<lambda>ls. Ok (l # ls)) else Err SynDiag)"
| "p_ints ts = Err SynDiag"

text \<open>Every literal must fit; the first that does not panics.\<close>

definition ints_below :: "nat \<Rightarrow> lit_int list \<Rightarrow> (diag, nat list) res" where
  "ints_below limit ls = try_fold (\<lambda>acc l. and_then (uint_lit l) (\<lambda>n. if n < limit then Ok (acc @ [n]) else Panic)) [] ls"

definition p_bracketed_ints :: "tok list \<Rightarrow> (diag, lit_int list) res" where
  "p_bracketed_ints p = and_then (p_group Bracket p) (\<lambda>(a, p'). and_then (p_ints a) (\<lambda>xs.
     and_then (p_end ''array trailing'' p') (\<lambda>_. Ok xs)))"

text \<open>The forms whose parenthesised argument holds no further value.\<close>

definition leaf_value :: "string \<Rightarrow> tok list \<Rightarrow> (diag, cvalue) res" where
  "leaf_value k p =
     (if k = ''bits'' then
        and_then (p_int p) (\<lambda>(l, p'). and_then (p_end ''bits trailing'' p') (\<lambda>_. and_then (uint_lit l) (\<lambda>n. Ok (VBits n))))
      else if k = ''boolean'' then
        and_then (p_bool p) (\<lambda>(b, p'). and_then (p_end ''boolean trailing'' p') (\<lambda>_. Ok (VBoolean b)))
      else if k = ''variant'' then
        and_then (p_simple_path p) (\<lambda>(x, p'). case x of
            [ty, variant] \<Rightarrow> and_then (p_end ''variant path'' p') (\<lambda>_. Ok (VVariant ty variant))
          | _ \<Rightarrow> Err (Diag ''variant path''))
      else if k = ''bytes'' then
        and_then (p_bracketed_ints p) (\<lambda>xs. and_then (ints_below (2 ^ 8) xs) (\<lambda>ns. Ok (VBytes (map of_nat ns))))
      else if k = ''units'' then
        and_then (p_bracketed_ints p) (\<lambda>xs. and_then (ints_below (2 ^ 16) xs) (\<lambda>ns. Ok (VUnits (map of_nat ns))))
      else Err (Diag ''unknown value form''))"

text \<open>The path of a union and the group of its fields.\<close>

definition union_path :: "tok list \<Rightarrow> (diag, string \<times> string) res" where
  "union_path p = and_then (p_simple_path p) (\<lambda>(x, p'). and_then (p_end ''union path trailing'' p') (\<lambda>_. case x of
     [ty, variant] \<Rightarrow> Ok (ty, variant) | _ \<Rightarrow> Err (Diag ''union path type::variant'')))"

lemma p_ident_shrinks: "p_ident ts = Ok (s, rest) \<Longrightarrow> size_list size rest < size_list size ts"
  by (cases ts rule: p_ident.cases) (auto split: if_splits)

lemma p_token_shrinks: "p_token t ts = Ok rest \<Longrightarrow> size_list size rest < size_list size ts"
  by (auto simp: p_token_def split: list.splits if_splits)

lemma p_group_shrinks: "p_group d ts = Ok (p, rest) \<Longrightarrow> size_list size p < size_list size ts \<and> size_list size rest < size_list size ts"
  by (cases "(d, ts)" rule: p_group.cases) (auto split: if_splits)

lemma peek_shrinks: "peek t ts \<Longrightarrow> size_list size (tl ts) < size_list size ts"
  by (auto simp: peek_def split: list.splits)

text \<open>A parser that leaves fewer than \<open>n\<close> tokens, whatever it reads.\<close>

definition leaves_less :: "nat \<Rightarrow> (diag, 'a \<times> tok list) res \<Rightarrow> bool" where
  "leaves_less n r \<longleftrightarrow> (\<forall>v rest. r = Ok (v, rest) \<longrightarrow> size_list size rest < n)"

lemma leaves_less_intros:
  "size_list size rest < n \<Longrightarrow> leaves_less n (Ok (v, rest))"
  "leaves_less n (Err e)"
  "leaves_less n r \<Longrightarrow> leaves_less n r' \<Longrightarrow> leaves_less n (if c then r else r')"
  by (simp_all add: leaves_less_def)

lemma leaves_less_bind: "(\<And>x y. m = Ok (x, y) \<Longrightarrow> leaves_less n (f x y)) \<Longrightarrow> leaves_less n (and_then m (\<lambda>(x, y). f x y))"
  by (auto simp: leaves_less_def)

lemma leaves_less_after: "(\<And>x. leaves_less n (f x)) \<Longrightarrow> leaves_less n (and_then m f)"
  by (auto simp: leaves_less_def)

function (domintros) parse_value :: "tok list \<Rightarrow> (diag, cvalue \<times> tok list) res"
  and named_list :: "tok list \<Rightarrow> (diag, (string \<times> cvalue) list) res"
  and value_list :: "tok list \<Rightarrow> (diag, cvalue list) res" where
  "parse_value ts =
     and_then (p_ident ts) (\<lambda>(k, i).
     if k = ''none'' then Ok (VNone, i)
     else if k = ''some'' then
       and_then (p_group Paren i) (\<lambda>(p, i'). and_then (parse_value p) (\<lambda>(v, p').
         and_then (p_end ''some trailing'' p') (\<lambda>_. Ok (VSome v, i'))))
     else if k = ''record'' then
       and_then (p_group Brace i) (\<lambda>(b, i'). and_then (named_list b) (\<lambda>fs. Ok (VRecord fs, i')))
     else if k = ''union'' then
       and_then (p_group Paren i) (\<lambda>(p, i'). and_then (union_path p) (\<lambda>(ty, variant).
         and_then (p_group Brace i') (\<lambda>(b, i''). and_then (named_list b) (\<lambda>fs. Ok (VUnion ty variant fs, i'')))))
     else if k = ''array'' then
       and_then (p_group Paren i) (\<lambda>(p, i'). and_then (p_group Bracket p) (\<lambda>(b, p'). and_then (value_list b) (\<lambda>vs.
         and_then (p_end ''array trailing'' p') (\<lambda>_. Ok (VArray vs, i')))))
     else if List.member [''bits'', ''boolean'', ''variant'', ''bytes'', ''units''] k then
       and_then (p_group Paren i) (\<lambda>(p, i'). and_then (leaf_value k p) (\<lambda>v. Ok (v, i')))
     else Err (Diag ''unknown value form''))"
| "named_list ts = (if ts = [] then Ok []
     else and_then (p_ident ts) (\<lambda>(n, ts1). and_then (p_token TokColon ts1) (\<lambda>ts2. and_then (parse_value ts2) (\<lambda>(v, ts3).
       if peek TokComma ts3 then and_then (named_list (tl ts3)) (\<lambda>fs. Ok ((normalized_ident n, v) # fs))
       else if ts3 = [] then Ok [(normalized_ident n, v)] else Err (Diag ''comma required'')))))"
| "value_list ts = (if ts = [] then Ok []
     else and_then (parse_value ts) (\<lambda>(v, ts1).
       if peek TokComma ts1 then and_then (value_list (tl ts1)) (\<lambda>vs. Ok (v # vs))
       else if ts1 = [] then Ok [v] else Err (Diag ''array comma required'')))"
  by pat_completeness auto

lemma parse_value_shrinks:
  assumes "parse_value_named_list_value_list_dom (Inl ts)" "parse_value ts = Ok (v, rest)"
  shows "size_list size rest < size_list size ts"
proof -
  have "leaves_less (size_list size ts) (parse_value ts)"
    unfolding parse_value.psimps [OF assms(1)]
    apply (intro leaves_less_bind leaves_less_intros leaves_less_after)
    apply (auto dest!: p_ident_shrinks p_group_shrinks)
    done
  then show ?thesis using assms(2) by (simp add: leaves_less_def)
qed

termination parse_value
proof (relation "measure (\<lambda>x. case x of Inl ts \<Rightarrow> size_list size ts | Inr (Inl ts) \<Rightarrow> size_list size ts | Inr (Inr ts) \<Rightarrow> Suc (size_list size ts))")
qed (auto dest!: p_ident_shrinks p_token_shrinks p_group_shrinks parse_value_shrinks peek_shrinks)

section \<open>Metrics and observations\<close>

fun p_call_args :: "tok list \<Rightarrow> (diag, string list) res" where
  "p_call_args [] = Ok []"
| "p_call_args (TokIdent s # ts) =
     (if reserved s then Err SynDiag
      else case ts of
        TokDot # rest \<Rightarrow> and_then (p_call_args rest) (\<lambda>as. Ok (normalized_ident s # as))
      | [] \<Rightarrow> Ok [normalized_ident s]
      | _ \<Rightarrow> Err (Diag ''invalid call args''))"
| "p_call_args _ = Err SynDiag"

definition p_call :: "tok list \<Rightarrow> (diag, (string \<times> string list) \<times> tok list) res" where
  "p_call ts = and_then (p_ident ts) (\<lambda>(n, ts1). and_then (p_group Paren ts1) (\<lambda>(p, rest).
     and_then (p_call_args p) (\<lambda>as. Ok ((normalized_ident n, as), rest))))"

definition plain_metrics :: "(string \<times> metric) list" where
  "plain_metrics =
     [(''root_size'', RootSize), (''root_align'', RootAlign), (''root_stride'', RootStride), (''tag_offset'', TagOffset),
      (''payload_offset'', PayloadOffset), (''payload_size'', PayloadSize), (''payload_align'', PayloadAlign),
      (''tag_size'', TagSize), (''tag_align'', TagAlign), (''tag_endian'', TagEndian)]"

definition named_metrics :: "(string \<times> (string \<Rightarrow> metric)) list" where
  "named_metrics =
     [(''field_offset'', FieldOffset), (''field_size'', FieldSize), (''field_align'', FieldAlign), (''array_length'', ArrayLength),
      (''array_stride'', ArrayStride), (''optional_span'', OptionalSpan), (''optional_is_optional'', OptionalIsOptional),
      (''optional_array_length'', OptionalArrayLength), (''optional_array_stride'', OptionalArrayStride),
      (''variant_raw'', VariantRaw), (''variant_payload_size'', VariantPayloadSize), (''variant_payload_align'', VariantPayloadAlign),
      (''enum_size'', EnumSize), (''enum_align'', EnumAlign), (''enum_width'', EnumWidth), (''enum_endian'', EnumEndian),
      (''enum_raw'', EnumRaw), (''string_encoding'', StringEncoding), (''string_capacity'', StringCapacity),
      (''string_unit_width'', StringUnitWidth), (''string_data_offset'', StringDataOffset),
      (''string_length_width'', StringLengthWidth), (''string_length_endian'', StringLengthEndian),
      (''string_length_offset'', StringLengthOffset)]"

definition metric_of :: "string \<Rightarrow> string list \<Rightarrow> (diag, metric) res" where
  "metric_of n as = (case map_of named_metrics n of
     Some f \<Rightarrow> (case as of [a] \<Rightarrow> Ok (f a) | _ \<Rightarrow> Panic)
   | None \<Rightarrow> (case map_of plain_metrics n of Some m \<Rightarrow> if as = [] then Ok m else Panic | None \<Rightarrow> Panic))"

text \<open>Commas between the entries of a list are optional.\<close>

definition skip_comma :: "tok list \<Rightarrow> tok list" where
  "skip_comma ts = (if peek TokComma ts then tl ts else ts)"

definition p_metric_entry :: "tok list \<Rightarrow> (diag, metric_entry) res" where
  "p_metric_entry e =
     and_then (p_field ''key'' e) (\<lambda>e. and_then (p_int e) (\<lambda>(k, e). and_then (p_token TokComma e) (\<lambda>e.
     and_then (p_field ''metric'' e) (\<lambda>e. and_then (p_call e) (\<lambda>((n, as), e).
     and_then (p_end ''metric trailing'' (skip_comma e)) (\<lambda>_.
     and_then (uint_lit k) (\<lambda>key. and_then (metric_of n as) (\<lambda>m. Ok \<lparr>me_key = key, me_metric = m\<rparr>))))))))"

lemma skip_comma_size: "size_list size (skip_comma ts) \<le> size_list size ts"
  by (auto simp: skip_comma_def dest: peek_shrinks)

text \<open>The entries of a bracketed list, each in braces.\<close>

function p_entries :: "(tok list \<Rightarrow> (diag, 'a) res) \<Rightarrow> tok list \<Rightarrow> (diag, 'a list) res" where
  "p_entries entry b = (if b = [] then Ok []
     else and_then (p_group Brace b) (\<lambda>(e, b'). and_then (entry e) (\<lambda>x.
       and_then (p_entries entry (skip_comma b')) (\<lambda>xs. Ok (x # xs)))))"
  by pat_completeness auto

termination p_entries
  by (relation "measure (\<lambda>(entry, b). size_list size b)") (auto dest!: p_group_shrinks intro: le_less_trans [OF skip_comma_size])

declare p_entries.simps [simp del]

definition p_metrics :: "tok list \<Rightarrow> (diag, metric_entry list \<times> tok list) res" where
  "p_metrics ts = and_then (p_group Bracket ts) (\<lambda>(b, rest). and_then (p_entries p_metric_entry b) (\<lambda>xs. Ok (xs, rest)))"

fun p_dotted_rest :: "tok list \<Rightarrow> (diag, string list \<times> tok list) res" where
  "p_dotted_rest (TokDot # ts) = (case ts of
     TokIdent s # rest \<Rightarrow> if reserved s then Err SynDiag else and_then (p_dotted_rest rest) (\<lambda>(ss, left). Ok (normalized_ident s # ss, left))
   | _ \<Rightarrow> Err SynDiag)"
| "p_dotted_rest ts = Ok ([], ts)"

definition p_dotted :: "tok list \<Rightarrow> (diag, string list \<times> tok list) res" where
  "p_dotted ts = and_then (p_ident ts) (\<lambda>(s, rest). and_then (p_dotted_rest rest) (\<lambda>(ss, left). Ok (normalized_ident s # ss, left)))"

definition p_observation :: "string \<Rightarrow> tok list \<Rightarrow> (diag, observation \<times> tok list) res" where
  "p_observation n p =
     (if n = ''unit'' \<or> n = ''element'' then
        and_then (p_dotted p) (\<lambda>(path, p). and_then (p_token TokComma p) (\<lambda>p. and_then (p_int p) (\<lambda>(l, p).
        and_then (uint_lit l) (\<lambda>v. and_then (try_u32 v) (\<lambda>index.
        Ok (if n = ''unit'' then ObsUnit path index else ObsElement path index, p))))))
      else and_then (p_dotted p) (\<lambda>(path, p).
        if n = ''scalar'' then Ok (ObsScalar path, p) else if n = ''tag'' then Ok (ObsTag path, p)
        else if n = ''length'' then Ok (ObsLength path, p) else if n = ''optional'' then Ok (ObsOptional path, p)
        else Err (Diag ''unknown observation'')))"

definition p_observation_entry :: "tok list \<Rightarrow> (diag, observation_entry) res" where
  "p_observation_entry e =
     and_then (p_field ''key'' e) (\<lambda>e. and_then (p_int e) (\<lambda>(k, e). and_then (p_token TokComma e) (\<lambda>e.
     and_then (p_field ''source'' e) (\<lambda>e. and_then (p_ident e) (\<lambda>(n, e). and_then (p_group Paren e) (\<lambda>(p, e).
     and_then (p_observation n p) (\<lambda>(source, p). and_then (p_end ''observation trailing'' p) (\<lambda>_.
     and_then (p_end ''observation entry trailing'' (skip_comma e)) (\<lambda>_.
     and_then (uint_lit k) (\<lambda>key. Ok \<lparr>oe_key = key, oe_source = source\<rparr>))))))))))"

definition p_observations :: "tok list \<Rightarrow> (diag, observation_entry list \<times> tok list) res" where
  "p_observations ts = and_then (p_group Bracket ts) (\<lambda>(b, rest). and_then (p_entries p_observation_entry b) (\<lambda>xs. Ok (xs, rest)))"

section \<open>The macro\<close>

text \<open>The optional marker \<open>native: true\<close>, looked up one token ahead.\<close>

definition p_native :: "tok list \<Rightarrow> (diag, bool \<times> tok list) res" where
  "p_native b = and_then (p_ident b) (\<lambda>(next, _).
     if next = ''native'' then
       and_then (p_field ''native'' b) (\<lambda>b. and_then (p_bool b) (\<lambda>(enabled, b).
         if \<not> enabled then Err (Diag ''native marker must be true'')
         else and_then (p_token TokComma b) (\<lambda>b. Ok (True, b))))
     else Ok (False, b))"

definition p_root :: "tok list \<Rightarrow> (diag, string \<times> tok list) res" where
  "p_root b = and_then (p_ident b) (\<lambda>(rk, b). and_then (p_simple_path b) (\<lambda>(pn, b). case pn of
     [s] \<Rightarrow> if rk \<noteq> ''schema'' then Err (Diag ''conformance root must be a schema'') else Ok (s, b)
   | _ \<Rightarrow> Err (Diag ''simple root required'')))"

definition p_case :: "tok list \<Rightarrow> (diag, case_decl) res" where
  "p_case b =
     and_then (p_field ''id'' b) (\<lambda>b. and_then (p_int b) (\<lambda>(idl, b). and_then (p_token TokComma b) (\<lambda>b.
     and_then (p_field ''root_id'' b) (\<lambda>b. and_then (p_str b) (\<lambda>(rid, b). and_then (p_token TokComma b) (\<lambda>b.
     and_then (p_field ''root'' b) (\<lambda>b. and_then (p_root b) (\<lambda>(root, b). and_then (p_token TokComma b) (\<lambda>b.
     and_then (p_native b) (\<lambda>(native, b).
     and_then (p_field ''value'' b) (\<lambda>b. and_then (parse_value b) (\<lambda>(v, b). and_then (p_token TokComma b) (\<lambda>b.
     and_then (p_field ''layout'' b) (\<lambda>b. and_then (p_metrics b) (\<lambda>(layout, b). and_then (p_token TokComma b) (\<lambda>b.
     and_then (p_field ''observe'' b) (\<lambda>b. and_then (p_observations b) (\<lambda>(observe, b).
     and_then (p_end ''trailing case syntax'' (skip_comma b)) (\<lambda>_.
     and_then (uint_lit idl) (\<lambda>n. and_then (try_u32 n) (\<lambda>n.
     Ok \<lparr>ca_id = n, ca_root_id = rid, ca_root = root, ca_native = native, ca_value = v, ca_layout = layout, ca_observe = observe\<rparr>)))))))))))))))))))))"

fun p_cases :: "tok list \<Rightarrow> (diag, case_decl list) res" where
  "p_cases [] = Ok []"
| "p_cases (TokIdent k # ts) =
     (if reserved k then Err SynDiag
      else if k \<noteq> ''case'' then Err (Diag ''expected case'')
      else case ts of
        TokGroup d b # rest \<Rightarrow>
          if d \<noteq> Brace then Err SynDiag
          else and_then (p_case b) (\<lambda>c. and_then (p_cases rest) (\<lambda>cs. Ok (c # cs)))
      | _ \<Rightarrow> Err SynDiag)"
| "p_cases _ = Err SynDiag"

text \<open>An item of the case file: a macro call, or anything else.\<close>

record macro_syntax =
  ms_path :: "string list"
  ms_attrs :: "corpus_attr list"
  ms_ident :: "string option"
  ms_semi :: bool
  ms_tokens :: "tok list"

definition case_item :: "case_decl list option \<Rightarrow> macro_syntax option \<Rightarrow> (diag, case_decl list option) res" where
  "case_item cases item = (case item of
     None \<Rightarrow> Panic
   | Some m \<Rightarrow>
       if ms_path m \<noteq> [''conformance_cases''] \<or> cases \<noteq> None \<or> ms_attrs m \<noteq> [] \<or> ms_ident m \<noteq> None \<or> ms_semi m then Panic
       else and_then (or_unreachable (p_cases (ms_tokens m))) (\<lambda>cs. Ok (Some cs)))"

definition parse_cases :: "macro_syntax option list \<Rightarrow> (diag, case_decl list) res" where
  "parse_cases items = and_then (try_fold case_item None items) (\<lambda>cases. case cases of Some cs \<Rightarrow> Ok cs | None \<Rightarrow> Panic)"

section \<open>Cases as they are written\<close>

declare parse_value.simps [simp del] named_list.simps [simp del] value_list.simps [simp del]

definition int_tok :: "nat \<Rightarrow> tok" where
  "int_tok n = TokInt (LitInt (fmt_decimal n) [])"

definition plain_name :: "string \<Rightarrow> bool" where
  "plain_name s \<longleftrightarrow> \<not> reserved s \<and> normalized_ident s = s"

fun write_value :: "cvalue \<Rightarrow> tok list"
  and write_fields :: "(string \<times> cvalue) list \<Rightarrow> tok list"
  and write_values :: "cvalue list \<Rightarrow> tok list" where
  "write_value (VRecord fs) = [TokIdent ''record'', TokGroup Brace (write_fields fs)]"
| "write_value (VUnion ty variant fs) =
     [TokIdent ''union'', TokGroup Paren [TokIdent ty, TokColon2, TokIdent variant], TokGroup Brace (write_fields fs)]"
| "write_value (VBits n) = [TokIdent ''bits'', TokGroup Paren [int_tok n]]"
| "write_value (VBoolean b) = [TokIdent ''boolean'', TokGroup Paren [TokIdent (if b then ''true'' else ''false'')]]"
| "write_value (VVariant ty variant) = [TokIdent ''variant'', TokGroup Paren [TokIdent ty, TokColon2, TokIdent variant]]"
| "write_value (VBytes bs) =
     [TokIdent ''bytes'', TokGroup Paren [TokGroup Bracket (concat (map (\<lambda>b. [int_tok (unat b), TokComma]) bs))]]"
| "write_value (VUnits us) =
     [TokIdent ''units'', TokGroup Paren [TokGroup Bracket (concat (map (\<lambda>u. [int_tok (unat u), TokComma]) us))]]"
| "write_value (VArray vs) = [TokIdent ''array'', TokGroup Paren [TokGroup Bracket (write_values vs)]]"
| "write_value VNone = [TokIdent ''none'']"
| "write_value (VSome v) = [TokIdent ''some'', TokGroup Paren (write_value v)]"
| "write_fields [] = []"
| "write_fields ((n, v) # fs) = TokIdent n # TokColon # write_value v @ TokComma # write_fields fs"
| "write_values [] = []"
| "write_values (v # vs) = write_value v @ TokComma # write_values vs"

fun plain_value :: "cvalue \<Rightarrow> bool"
  and plain_fields :: "(string \<times> cvalue) list \<Rightarrow> bool"
  and plain_values :: "cvalue list \<Rightarrow> bool" where
  "plain_value (VRecord fs) = plain_fields fs"
| "plain_value (VUnion ty variant fs) \<longleftrightarrow> plain_name ty \<and> plain_name variant \<and> plain_fields fs"
| "plain_value (VBits n) \<longleftrightarrow> n < 2 ^ 64"
| "plain_value (VVariant ty variant) \<longleftrightarrow> plain_name ty \<and> plain_name variant"
| "plain_value (VArray vs) = plain_values vs"
| "plain_value (VSome v) = plain_value v"
| "plain_value v = True"
| "plain_fields [] = True"
| "plain_fields ((n, v) # fs) \<longleftrightarrow> plain_name n \<and> plain_value v \<and> plain_fields fs"
| "plain_values [] = True"
| "plain_values (v # vs) \<longleftrightarrow> plain_value v \<and> plain_values vs"

lemma uint_lit_decimal: "uint_lit (LitInt (fmt_decimal n) []) = (if n < 2 ^ 64 then Ok n else Panic)"
proof -
  have "filter (\<lambda>c. c \<noteq> CHR ''_'') (fmt_decimal n) = fmt_decimal n"
    using digits_no_underscore [of 10 n] by (simp add: fmt_decimal_def)
  moreover have "from_str_radix (2 ^ 64) (fmt_decimal n) 10 = (if n < 2 ^ 64 then Some n else None)"
    unfolding fmt_decimal_def by (rule literal_digits) simp_all
  ultimately show ?thesis using decimal_prefix [of n] by (simp add: uint_lit_def)
qed

lemma keywords_plain:
  "\<not> reserved ''record''" "\<not> reserved ''union''" "\<not> reserved ''bits''" "\<not> reserved ''boolean''" "\<not> reserved ''variant''"
  "\<not> reserved ''bytes''" "\<not> reserved ''units''" "\<not> reserved ''array''" "\<not> reserved ''none''" "\<not> reserved ''some''"
  by (simp_all add: reserved_def)

lemma p_ident_plain [simp]: "plain_name s \<Longrightarrow> p_ident (TokIdent s # ts) = Ok (s, ts)"
  by (simp add: plain_name_def)

lemma p_token_same [simp]: "p_token t (t # ts) = Ok ts"
  by (simp add: p_token_def)

lemma peek_same [simp]: "peek t (x # ts) \<longleftrightarrow> x = t" "\<not> peek t []"
  by (simp_all add: peek_def)

lemma p_path_plain: "plain_name a \<Longrightarrow> plain_name b \<Longrightarrow> p_simple_path [TokIdent a, TokColon2, TokIdent b] = Ok ([a, b], [])"
  by (simp add: p_simple_path_def plain_name_def)

lemma p_ints_written: "p_ints (concat (map (\<lambda>n. [int_tok n, TokComma]) ns)) = Ok (map (\<lambda>n. LitInt (fmt_decimal n) []) ns)"
  by (induction ns) (simp_all add: int_tok_def)

lemma ints_below_written:
  assumes "limit \<le> 2 ^ 64" "\<forall>n \<in> set ns. n < limit"
  shows "ints_below limit (map (\<lambda>n. LitInt (fmt_decimal n) []) ns) = Ok ns"
proof -
  have "try_fold (\<lambda>acc l. and_then (uint_lit l) (\<lambda>n. if n < limit then Ok (acc @ [n]) else Panic)) acc
      (map (\<lambda>n. LitInt (fmt_decimal n) []) ns) = Ok (acc @ ns)" for acc
    using assms(2)
  proof (induction ns arbitrary: acc)
    case (Cons n ns)
    then have "n < 2 ^ 64" using assms(1) by simp
    with Cons show ?case by (simp add: uint_lit_decimal)
  qed simp
  then show ?thesis by (simp add: ints_below_def)
qed

lemma p_bracketed_written:
  "p_bracketed_ints [TokGroup Bracket (concat (map (\<lambda>w. [int_tok (unat w), TokComma]) ws))] =
     Ok (map (\<lambda>n. LitInt (fmt_decimal n) []) (map unat ws))"
  using p_ints_written [of "map unat ws"] by (simp add: p_bracketed_ints_def p_end_def comp_def)

lemma words_written:
  fixes ws :: "'a::len word list"
  assumes "2 ^ LENGTH('a) \<le> (2 :: nat) ^ 64"
  shows "ints_below (2 ^ LENGTH('a)) (map (\<lambda>n. LitInt (fmt_decimal n) []) (map unat ws)) = Ok (map unat ws)"
  by (rule ints_below_written [OF assms]) (auto intro: unsigned_less)

lemmas parse_written = parse_value.simps [of "TokIdent k # ts" for k ts] keywords_plain p_end_def int_tok_def

lemma write_parse_leaf:
  "plain_value (VBits n) \<Longrightarrow> parse_value (write_value (VBits n) @ rest) = Ok (VBits n, rest)"
  "parse_value (write_value (VBoolean b) @ rest) = Ok (VBoolean b, rest)"
  "plain_value (VVariant ty variant) \<Longrightarrow> parse_value (write_value (VVariant ty variant) @ rest) = Ok (VVariant ty variant, rest)"
  "parse_value (write_value (VBytes bs) @ rest) = Ok (VBytes bs, rest)"
  "parse_value (write_value (VUnits us) @ rest) = Ok (VUnits us, rest)"
  "parse_value (write_value VNone @ rest) = Ok (VNone, rest)"
  using words_written [of bs] words_written [of us] p_bracketed_written [of bs] p_bracketed_written [of us]
  by (simp_all add: parse_written leaf_value_def uint_lit_decimal p_path_plain comp_def)

lemma parse_written_value:
  "plain_value v \<Longrightarrow> parse_value (write_value v @ rest) = Ok (v, rest)"
  "plain_fields fs \<Longrightarrow> named_list (write_fields fs) = Ok fs"
  "plain_values vs \<Longrightarrow> value_list (write_values vs) = Ok vs"
proof (induction v and fs and vs arbitrary: rest rule: write_value_write_fields_write_values.induct)
  case (12 n v fs)
  then show ?case
    by (simp add: named_list.simps [of "TokIdent n # ts" for ts] plain_name_def)
next
  case (14 v vs)
  then show ?case by (subst value_list.simps) simp
next
  case (11)
  show ?case by (simp add: named_list.simps)
next
  case (13)
  show ?case by (simp add: value_list.simps)
next
  case (1 fs)
  then show ?case by (simp add: parse_written)
next
  case (2 ty variant fs)
  then show ?case by (simp add: parse_written union_path_def p_path_plain)
next
  case (8 vs)
  then show ?case by (simp add: parse_written)
next
  case (10 v)
  from 10(1) [of "[]"] 10(2) have "parse_value (write_value v) = Ok (v, [])" by simp
  then show ?case by (simp add: parse_written)
qed (use write_parse_leaf in \<open>simp_all del: write_value.simps\<close>)

text \<open>Metrics, observations and whole cases.\<close>

definition metric_call :: "metric \<Rightarrow> string \<times> string list" where
  "metric_call m = (case find (\<lambda>(n, m'). m' = m) plain_metrics of
     Some (n, m') \<Rightarrow> (n, [])
   | None \<Rightarrow> (case m of
       FieldOffset a \<Rightarrow> (''field_offset'', [a]) | FieldSize a \<Rightarrow> (''field_size'', [a]) | FieldAlign a \<Rightarrow> (''field_align'', [a])
     | ArrayLength a \<Rightarrow> (''array_length'', [a]) | ArrayStride a \<Rightarrow> (''array_stride'', [a])
     | OptionalSpan a \<Rightarrow> (''optional_span'', [a]) | OptionalIsOptional a \<Rightarrow> (''optional_is_optional'', [a])
     | OptionalArrayLength a \<Rightarrow> (''optional_array_length'', [a]) | OptionalArrayStride a \<Rightarrow> (''optional_array_stride'', [a])
     | VariantRaw a \<Rightarrow> (''variant_raw'', [a]) | VariantPayloadSize a \<Rightarrow> (''variant_payload_size'', [a])
     | VariantPayloadAlign a \<Rightarrow> (''variant_payload_align'', [a])
     | EnumSize a \<Rightarrow> (''enum_size'', [a]) | EnumAlign a \<Rightarrow> (''enum_align'', [a]) | EnumWidth a \<Rightarrow> (''enum_width'', [a])
     | EnumEndian a \<Rightarrow> (''enum_endian'', [a]) | EnumRaw a \<Rightarrow> (''enum_raw'', [a])
     | StringEncoding a \<Rightarrow> (''string_encoding'', [a]) | StringCapacity a \<Rightarrow> (''string_capacity'', [a])
     | StringUnitWidth a \<Rightarrow> (''string_unit_width'', [a]) | StringDataOffset a \<Rightarrow> (''string_data_offset'', [a])
     | StringLengthWidth a \<Rightarrow> (''string_length_width'', [a]) | StringLengthEndian a \<Rightarrow> (''string_length_endian'', [a])
     | StringLengthOffset a \<Rightarrow> (''string_length_offset'', [a]) | _ \<Rightarrow> ([], [])))"

lemma metric_call_read:
  "metric_of (fst (metric_call m)) (snd (metric_call m)) = Ok m"
  "plain_name (fst (metric_call m))"
  "length (snd (metric_call m)) \<le> 1"
  by (cases m; simp add: metric_call_def metric_of_def plain_metrics_def named_metrics_def plain_name_def reserved_def
    normalized_ident.simps)+

definition write_entry :: "string \<Rightarrow> nat \<Rightarrow> string \<Rightarrow> tok list \<Rightarrow> tok list" where
  "write_entry what key n args = [TokGroup Brace
     [TokIdent ''key'', TokColon, int_tok key, TokComma, TokIdent what, TokColon, TokIdent n, TokGroup Paren args], TokComma]"

definition write_metric :: "metric_entry \<Rightarrow> tok list" where
  "write_metric e = write_entry ''metric'' (me_key e) (fst (metric_call (me_metric e))) (map TokIdent (snd (metric_call (me_metric e))))"

fun write_dotted :: "string list \<Rightarrow> tok list" where
  "write_dotted [] = []" | "write_dotted [s] = [TokIdent s]" | "write_dotted (s # ss) = TokIdent s # TokDot # write_dotted ss"

fun write_source :: "observation \<Rightarrow> string \<times> tok list" where
  "write_source (ObsScalar p) = (''scalar'', write_dotted p)"
| "write_source (ObsTag p) = (''tag'', write_dotted p)"
| "write_source (ObsLength p) = (''length'', write_dotted p)"
| "write_source (ObsUnit p i) = (''unit'', write_dotted p @ [TokComma, int_tok i])"
| "write_source (ObsElement p i) = (''element'', write_dotted p @ [TokComma, int_tok i])"
| "write_source (ObsOptional p) = (''optional'', write_dotted p)"

definition write_observation :: "observation_entry \<Rightarrow> tok list" where
  "write_observation e = write_entry ''source'' (oe_key e) (fst (write_source (oe_source e))) (snd (write_source (oe_source e)))"

definition write_case :: "case_decl \<Rightarrow> tok list" where
  "write_case c = [TokIdent ''case'', TokGroup Brace (
     TokIdent ''id'' # TokColon # int_tok (ca_id c) # TokComma # TokIdent ''root_id'' # TokColon # TokStr (ca_root_id c) # TokComma #
     TokIdent ''root'' # TokColon # TokIdent ''schema'' # TokIdent (ca_root c) # TokComma #
     (if ca_native c then [TokIdent ''native'', TokColon, TokIdent ''true'', TokComma] else []) @
     TokIdent ''value'' # TokColon # write_value (ca_value c) @ TokComma #
     TokIdent ''layout'' # TokColon # TokGroup Bracket (concat (map write_metric (ca_layout c))) # TokComma #
     TokIdent ''observe'' # TokColon # TokGroup Bracket (concat (map write_observation (ca_observe c))) # [TokComma])]"

fun plain_source :: "observation \<Rightarrow> bool" where
  "plain_source (ObsScalar p) \<longleftrightarrow> p \<noteq> [] \<and> list_all plain_name p"
| "plain_source (ObsTag p) \<longleftrightarrow> p \<noteq> [] \<and> list_all plain_name p"
| "plain_source (ObsLength p) \<longleftrightarrow> p \<noteq> [] \<and> list_all plain_name p"
| "plain_source (ObsUnit p i) \<longleftrightarrow> p \<noteq> [] \<and> list_all plain_name p \<and> i < 2 ^ 32"
| "plain_source (ObsElement p i) \<longleftrightarrow> p \<noteq> [] \<and> list_all plain_name p \<and> i < 2 ^ 32"
| "plain_source (ObsOptional p) \<longleftrightarrow> p \<noteq> [] \<and> list_all plain_name p"

definition plain_case :: "case_decl \<Rightarrow> bool" where
  "plain_case c \<longleftrightarrow> ca_id c < 2 ^ 32 \<and> plain_name (ca_root c) \<and> plain_value (ca_value c) \<and>
     list_all (\<lambda>e. me_key e < 2 ^ 64 \<and> list_all plain_name (snd (metric_call (me_metric e)))) (ca_layout c) \<and>
     list_all (\<lambda>e. oe_key e < 2 ^ 64 \<and> plain_source (oe_source e)) (ca_observe c)"

lemma plain_names_simps [simp]: "plain_name s \<Longrightarrow> \<not> reserved s" "plain_name s \<Longrightarrow> normalized_ident s = s"
  unfolding plain_name_def by blast+

lemma p_field_written [simp]: "plain_name s \<Longrightarrow> p_field s (TokIdent s # TokColon # ts) = Ok ts"
  by (simp add: p_field_def)

lemma field_names_plain [simp]:
  "plain_name ''id''" "plain_name ''root_id''" "plain_name ''root''" "plain_name ''schema''" "plain_name ''native''" "plain_name ''value''"
  "plain_name ''layout''" "plain_name ''observe''" "plain_name ''key''" "plain_name ''metric''" "plain_name ''source''" "plain_name ''case''"
  by (simp_all add: plain_name_def reserved_def normalized_ident.simps)

lemma p_metric_written:
  assumes "me_key e < 2 ^ 64" "list_all plain_name (snd (metric_call (me_metric e)))"
  shows "p_metric_entry [TokIdent ''key'', TokColon, int_tok (me_key e), TokComma, TokIdent ''metric'', TokColon,
      TokIdent (fst (metric_call (me_metric e))), TokGroup Paren (map TokIdent (snd (metric_call (me_metric e))))] = Ok e"
proof -
  have "p_call_args (map TokIdent (snd (metric_call (me_metric e)))) = Ok (snd (metric_call (me_metric e)))"
    using assms(2) metric_call_read(3) [of "me_metric e"] by (cases "snd (metric_call (me_metric e))") (auto simp: le_Suc_eq)
  then show ?thesis
    using assms(1) metric_call_read [of "me_metric e"]
    by (cases "metric_call (me_metric e)") (simp add: p_metric_entry_def p_call_def int_tok_def uint_lit_decimal p_end_def skip_comma_def)
qed

lemma p_dotted_rest_written:
  "list_all plain_name p \<Longrightarrow> \<not> peek TokDot rest \<Longrightarrow> p_dotted_rest (concat (map (\<lambda>s. [TokDot, TokIdent s]) p) @ rest) = Ok (p, rest)"
proof (induction p)
  case Nil
  then show ?case by (cases rest rule: p_dotted_rest.cases) auto
qed simp

lemma write_dotted_eq: "write_dotted (s # ss) = TokIdent s # concat (map (\<lambda>s. [TokDot, TokIdent s]) ss)"
  by (induction ss arbitrary: s) simp_all

lemma p_dotted_written:
  "p \<noteq> [] \<Longrightarrow> list_all plain_name p \<Longrightarrow> \<not> peek TokDot rest \<Longrightarrow> p_dotted (write_dotted p @ rest) = Ok (p, rest)"
  by (cases p) (simp_all add: p_dotted_def write_dotted_eq p_dotted_rest_written del: write_dotted.simps)

lemma p_source_written:
  assumes "plain_source s"
  shows "p_observation (fst (write_source s)) (snd (write_source s)) = Ok (s, [])" "plain_name (fst (write_source s))"
proof -
  show "p_observation (fst (write_source s)) (snd (write_source s)) = Ok (s, [])"
    using assms p_dotted_written [where rest = "[]"] p_dotted_written [where rest = "[TokComma, int_tok i]" for i]
    by (cases s) (simp_all add: p_observation_def int_tok_def uint_lit_decimal try_u32_def)
  show "plain_name (fst (write_source s))"
    by (cases s) (simp_all add: plain_name_def reserved_def normalized_ident.simps)
qed

lemma p_observation_written:
  assumes "oe_key e < 2 ^ 64" "plain_source (oe_source e)"
  shows "p_observation_entry [TokIdent ''key'', TokColon, int_tok (oe_key e), TokComma, TokIdent ''source'', TokColon,
      TokIdent (fst (write_source (oe_source e))), TokGroup Paren (snd (write_source (oe_source e)))] = Ok e"
  using assms p_source_written [OF assms(2)]
  by (simp add: p_observation_entry_def int_tok_def uint_lit_decimal p_end_def skip_comma_def)

lemma p_entries_written:
  assumes "\<And>e. e \<in> set es \<Longrightarrow> \<exists>inner. write e = [TokGroup Brace inner, TokComma] \<and> entry inner = Ok e"
  shows "p_entries entry (concat (map write es)) = Ok es"
  using assms
proof (induction es)
  case (Cons e es)
  then obtain inner where "write e = [TokGroup Brace inner, TokComma]" "entry inner = Ok e" by (meson list.set_intros(1))
  with Cons show ?case by (subst p_entries.simps) (simp add: skip_comma_def)
qed (simp add: p_entries.simps)

lemma p_case_written:
  assumes "plain_case c"
  shows "\<exists>b. write_case c = [TokIdent ''case'', TokGroup Brace b] \<and> p_case b = Ok c"
proof -
  have metrics: "p_entries p_metric_entry (concat (map write_metric (ca_layout c))) = Ok (ca_layout c)"
    by (rule p_entries_written) (use assms in \<open>auto simp: write_metric_def write_entry_def plain_case_def list_all_iff intro!: p_metric_written [unfolded list_all_iff]\<close>)
  have observations: "p_entries p_observation_entry (concat (map write_observation (ca_observe c))) = Ok (ca_observe c)"
    by (rule p_entries_written) (use assms in \<open>auto simp: write_observation_def write_entry_def plain_case_def list_all_iff intro!: p_observation_written\<close>)
  have segments: "p_simple_path (TokIdent (ca_root c) # TokComma # ts) = Ok ([ca_root c], TokComma # ts)" for ts
    using assms by (simp add: p_simple_path_def plain_case_def)
  show ?thesis
    using assms metrics observations segments
    by (cases c; cases "ca_native c")
      (auto simp: write_case_def p_case_def int_tok_def uint_lit_decimal try_u32_def p_root_def p_native_def
        parse_written_value p_metrics_def p_observations_def skip_comma_def p_end_def plain_case_def)
qed

text \<open>
  C34. The case file is read back exactly: the tokens of any list of cases, written in the notation of the fixture file,
  parse to those cases, with every value, metric and observation; names are plain identifiers and numbers fit the width the
  reader gives them.
\<close>

theorem cases_roundtrip:
  assumes "list_all plain_case cs"
  shows "parse_cases [Some \<lparr>ms_path = [''conformance_cases''], ms_attrs = [], ms_ident = None, ms_semi = False,
    ms_tokens = concat (map write_case cs)\<rparr>] = Ok cs"
proof -
  have "p_cases (concat (map write_case cs)) = Ok cs"
    using assms
  proof (induction cs)
    case (Cons c cs)
    then obtain b where "write_case c = [TokIdent ''case'', TokGroup Brace b]" "p_case b = Ok c" using p_case_written [of c] by auto
    with Cons show ?case by simp
  qed simp
  then show ?thesis by (simp add: parse_cases_def case_item_def)
qed

definition sample_case :: case_decl where
  "sample_case = \<lparr>ca_id = 1012, ca_root_id = ''conformance-native'', ca_root = ''Native'', ca_native = True,
     ca_value = VRecord [(''marker'', VBits 165), (''maybe'', VSome (VVariant ''Kind'' ''Data'')), (''bytes'', VBytes [1, 255])],
     ca_layout = [\<lparr>me_key = 1012001, me_metric = RootSize\<rparr>, \<lparr>me_key = 1012010, me_metric = FieldOffset ''marker''\<rparr>],
     ca_observe = [\<lparr>oe_key = 1012501, oe_source = ObsElement [''inner'', ''bytes''] 1\<rparr>]\<rparr>"

theorem cases_roundtrip_witness:
  "list_all plain_case [sample_case] \<and>
   parse_cases [Some \<lparr>ms_path = [''conformance_cases''], ms_attrs = [], ms_ident = None, ms_semi = False,
     ms_tokens = concat (map write_case [sample_case])\<rparr>] = Ok [sample_case]"
proof -
  have "list_all plain_case [sample_case]"
    by (simp add: sample_case_def plain_case_def plain_name_def reserved_def normalized_ident.simps metric_call_def plain_metrics_def)
  then show ?thesis using cases_roundtrip [of "[sample_case]"] by blast
qed

end
