(* ===== verification/Zs_Conformance.thy ===== *)
theory Zs_Conformance
  imports Zs_Cases "HOL-Library.List_Lexorder" "HOL-Library.Char_ord"
begin

text \<open>
  The checks of the conformance front end, \<open>parse\<close> in \<open>conformance/build/frontend.rs\<close>: references and external tags of
  the corpus, absence of cycles, eligibility of optional fields, case ids, roots and report keys, and that every schema is
  used. The corpus and the cases come from the two readers.
\<close>

section \<open>Tables\<close>

definition case_ids :: "nat list" where
  "case_ids = [1001, 1002, 1003, 1004, 1005, 1006, 1007, 1008, 1010, 1011, 1012, 1013, 1014, 1015, 1016]"

text \<open>A table collected from a list keeps the last entry of a key; \<open>Model::schema\<close> finds the first.\<close>

definition last_of :: "('a \<Rightarrow> 'k) \<Rightarrow> 'a list \<Rightarrow> 'k \<Rightarrow> 'a option" where
  "last_of key xs k = find (\<lambda>x. key x = k) (rev xs)"

abbreviation schema_by_name :: "cschema list \<Rightarrow> string \<Rightarrow> cschema option" where
  "schema_by_name \<equiv> last_of cs_name"

record model =
  md_schemas :: "cschema list"
  md_cases :: "case_decl list"

definition model_schema :: "model \<Rightarrow> string \<Rightarrow> (diag, cschema) res" where
  "model_schema m n = (case find (\<lambda>s. cs_name s = n) (md_schemas m) of Some s \<Rightarrow> Ok s | None \<Rightarrow> Panic)"

fun is_tagged_kind :: "schema_kind \<Rightarrow> bool" where "is_tagged_kind (CTaggedEnum t vs) = True" | "is_tagged_kind _ = False"

fun is_scalar_kind :: "schema_kind \<Rightarrow> bool" where "is_scalar_kind (CScalarEnum r e vs) = True" | "is_scalar_kind _ = False"

text \<open>\<open>die\<close> unless the condition holds.\<close>

definition require :: "bool \<Rightarrow> (diag, unit) res" where
  "require b = (if b then Ok () else Panic)"

section \<open>References and external tags\<close>

text \<open>One field, with the tag fields its predecessors claimed.\<close>

definition check_field :: "cschema list \<Rightarrow> cfield list \<Rightarrow> string set \<Rightarrow> cfield \<Rightarrow> (diag, string set) res" where
  "check_field schemas fs external_tags f =
     and_then (require (\<forall>s \<in> set (schema_refs (cf_ty f)). schema_by_name schemas s \<noteq> None)) (\<lambda>_.
     case cf_tag_field f of
       None \<Rightarrow> (case cf_ty f of
           CSchema s \<Rightarrow> (case schema_by_name schemas s of
               Some sc \<Rightarrow> if is_tagged_kind (cs_kind sc) then Panic else Ok external_tags | None \<Rightarrow> Panic)
         | _ \<Rightarrow> Ok external_tags)
     | Some tag_field \<Rightarrow>
         if tag_field \<in> external_tags then Panic
         else (case cf_ty f of
           CSchema payload_name \<Rightarrow> (case schema_by_name schemas payload_name of
             Some payload \<Rightarrow> (case cs_kind payload of
               CTaggedEnum tag vs \<Rightarrow> (case find (\<lambda>c. cf_name c = tag_field) fs of
                 Some sibling \<Rightarrow> (case cf_ty sibling of
                   CSchema sibling_name \<Rightarrow> (case schema_by_name schemas sibling_name of
                     Some sibling_schema \<Rightarrow>
                       if sibling_name \<noteq> tag \<or> \<not> is_scalar_kind (cs_kind sibling_schema) then Panic
                       else Ok (insert tag_field external_tags)
                   | None \<Rightarrow> Panic)
                 | _ \<Rightarrow> Panic)
               | None \<Rightarrow> Panic)
             | _ \<Rightarrow> Panic)
           | None \<Rightarrow> Panic)
         | _ \<Rightarrow> Panic))"

definition check_schema :: "cschema list \<Rightarrow> cschema \<Rightarrow> (diag, unit) res" where
  "check_schema schemas sc = (case cs_kind sc of
     CStruct fs \<Rightarrow> and_then (try_fold (check_field schemas fs) {} fs) (\<lambda>_. Ok ())
   | CTaggedEnum tag variants \<Rightarrow>
       and_then (require (case schema_by_name schemas tag of Some t \<Rightarrow> is_scalar_kind (cs_kind t) | None \<Rightarrow> False)) (\<lambda>_.
       for_each (\<lambda>v. require (case tv_payload v of None \<Rightarrow> True | Some p \<Rightarrow> schema_by_name schemas p \<noteq> None)) variants)
   | CScalarEnum repr en variants \<Rightarrow> Ok ())"

section \<open>Cycles\<close>

fun schema_edges :: "schema_kind \<Rightarrow> string list" where
  "schema_edges (CStruct fs) = concat (map (\<lambda>f. schema_refs (cf_ty f)) fs)"
| "schema_edges (CTaggedEnum tag variants) = List.map_filter tv_payload variants"
| "schema_edges (CScalarEnum repr en variants) = []"

text \<open>The map from names to references, in the order of its keys.\<close>

type_synonym edges = "(string \<times> string list) list"

definition edges_of :: "cschema list \<Rightarrow> edges" where
  "edges_of schemas = map (\<lambda>n. (n, case schema_by_name schemas n of Some sc \<Rightarrow> schema_edges (cs_kind sc) | None \<Rightarrow> []))
     (sort (remdups (map cs_name schemas)))"

text \<open>
  \<open>visit\<close> on each name of a list in turn: the loop over the children of a schema and the loop over the keys. The state is
  \<open>temporary\<close>, the schemas being visited, and \<open>complete\<close>, the finished ones.
\<close>

function (domintros) visit_each :: "edges \<Rightarrow> string list \<Rightarrow> string set \<times> string set \<Rightarrow> (diag, string set \<times> string set) res" where
  "visit_each edges [] st = Ok st"
| "visit_each edges (name # names) st =
     (if name \<in> snd st then visit_each edges names st
      else if name \<in> fst st then Panic
      else case map_of edges name of
        None \<Rightarrow> Panic
      | Some children \<Rightarrow>
          and_then (visit_each edges children (insert name (fst st), snd st)) (\<lambda>st'.
          visit_each edges names (fst st' - {name}, insert name (snd st'))))"
  by pat_completeness auto

lemma visit_each_restores:
  "visit_each_dom (edges, names, st) \<Longrightarrow> visit_each edges names st = Ok st' \<Longrightarrow> fst st' = fst st"
proof (induction edges names st arbitrary: st' rule: visit_each.pinduct)
  case (1 edges st)
  then show ?case by (simp add: visit_each.psimps)
next
  case (2 edges name names st)
  show ?case
  proof (cases "name \<in> snd st")
    case True
    then show ?thesis using 2(2,5) visit_each.psimps(2) [OF 2(1)] by simp
  next
    case False
    then have new: "name \<notin> fst st" using 2(5) visit_each.psimps(2) [OF 2(1)] by auto
    then obtain children where edge: "map_of edges name = Some children"
      using 2(5) False visit_each.psimps(2) [OF 2(1)] by (cases "map_of edges name") auto
    then obtain st1 where st1: "visit_each edges children (insert name (fst st), snd st) = Ok st1"
        "visit_each edges names (fst st1 - {name}, insert name (snd st1)) = Ok st'"
      using 2(5) False new visit_each.psimps(2) [OF 2(1)] by auto
    have "fst st1 = insert name (fst st)" using 2(3) [OF False new edge st1(1)] by simp
    moreover have "fst st' = fst st1 - {name}" using 2(4) [OF False new edge st1] by simp
    ultimately show ?thesis using new by simp
  qed
qed

termination visit_each
proof (relation "measures [\<lambda>(edges, names, st). card (fst ` set edges - fst st), \<lambda>(edges, names, st). length names]")
  fix edges :: edges and name names st children
  assume st: "name \<notin> fst (st :: string set \<times> string set)" and edge: "map_of edges name = Some children"
  have "name \<in> fst ` set edges" using edge by (metis domI dom_map_of_conv_image_fst)
  then have "card (fst ` set edges - insert name (fst st)) < card (fst ` set edges - fst st)"
    using st by (intro psubset_card_mono) auto
  then show "((edges, children, insert name (fst st), snd st), edges, name # names, st)
      \<in> measures [\<lambda>(edges, names, st). card (fst ` set edges - fst st), \<lambda>(edges, names, st). length names]"
    by simp
  fix st'
  assume "visit_each edges children (insert name (fst st), snd st) = Ok st'" "visit_each_dom (edges, children, insert name (fst st), snd st)"
  then have "fst st' = insert name (fst st)" by (auto dest: visit_each_restores)
  then show "((edges, names, fst st' - {name}, insert name (snd st')), edges, name # names, st)
      \<in> measures [\<lambda>(edges, names, st). card (fst ` set edges - fst st), \<lambda>(edges, names, st). length names]"
    using st by simp
qed simp_all

lemma visit_each_total: "visit_each_dom (edges, names, st)"
  by (induction edges names st rule: visit_each.induct) (rule visit_each.domintros; force)+

lemma visit_each_temporary: "visit_each edges names st = Ok st' \<Longrightarrow> fst st' = fst st"
  by (rule visit_each_restores [OF visit_each_total])

text \<open>The whole check, from empty sets.\<close>

definition check_cycles :: "edges \<Rightarrow> (diag, unit) res" where
  "check_cycles edges = and_then (visit_each edges (map fst edges) ({}, {})) (\<lambda>_. Ok ())"

section \<open>Optional fields\<close>

definition check_options :: "cschema list \<Rightarrow> (diag, unit) res" where
  "check_options schemas = for_each (\<lambda>sc. case cs_kind sc of
     CStruct fs \<Rightarrow> for_each (\<lambda>f. case cf_ty f of
         COption inner \<Rightarrow> and_then (option_eligible (Suc (length schemas)) (schema_by_name schemas) inner) require
       | _ \<Rightarrow> Ok ()) fs
   | _ \<Rightarrow> Ok ()) schemas"

section \<open>Cases\<close>

record case_state =
  st_ids :: "nat set"
  st_keys :: "nat set"
  st_used_roots :: "string set"

text \<open>The keys of one list: not empty, ascending, none zero and none seen before.\<close>

definition check_key :: "nat set \<Rightarrow> nat \<Rightarrow> (diag, nat set) res" where
  "check_key seen key = (if key = 0 \<or> key \<in> seen then Panic else Ok (insert key seen))"

fun ascending :: "nat list \<Rightarrow> bool" where
  "ascending (a # b # rest) \<longleftrightarrow> a < b \<and> ascending (b # rest)" | "ascending _ = True"

definition check_keys :: "nat set \<Rightarrow> nat list \<Rightarrow> (diag, nat set) res" where
  "check_keys seen ks = and_then (require (ks \<noteq> [] \<and> ascending ks)) (\<lambda>_. try_fold check_key seen ks)"

definition layout_keys :: "case_decl \<Rightarrow> nat list" where "layout_keys c = map me_key (ca_layout c)"

definition observe_keys :: "case_decl \<Rightarrow> nat list" where "observe_keys c = map oe_key (ca_observe c)"

definition check_case :: "cschema list \<Rightarrow> root_registration list \<Rightarrow> case_state \<Rightarrow> case_decl \<Rightarrow> (diag, case_state) res" where
  "check_case schemas roots st c =
     and_then (require (List.member case_ids (ca_id c) \<and> ca_id c \<notin> st_ids st)) (\<lambda>_.
     and_then (require (ca_native c = (1012 \<le> ca_id c \<and> ca_id c \<le> 1016))) (\<lambda>_.
     and_then (require (map_option rr_root_id (last_of rr_case_id roots (ca_id c)) = Some (ca_root_id c))) (\<lambda>_.
     case schema_by_name schemas (ca_root c) of
       None \<Rightarrow> Panic
     | Some root \<Rightarrow>
         and_then (require (\<not> is_tagged_kind (cs_kind root))) (\<lambda>_.
         and_then (try_fold check_keys (st_keys st) [layout_keys c, observe_keys c]) (\<lambda>seen.
         let namespace = ca_id c * 1000 in
         and_then (require (list_all (\<lambda>k. namespace + 1 \<le> k \<and> k \<le> namespace + 499) (layout_keys c) \<and>
           list_all (\<lambda>k. namespace + 501 \<le> k \<and> k \<le> namespace + 999) (observe_keys c))) (\<lambda>_.
         Ok \<lparr>st_ids = insert (ca_id c) (st_ids st), st_keys = seen, st_used_roots = insert (ca_root c) (st_used_roots st)\<rparr>))))))"

section \<open>Unused schemas\<close>

definition children :: "edges \<Rightarrow> string set \<Rightarrow> string set" where
  "children edges names = (\<Union>n \<in> names. case map_of edges n of Some cs \<Rightarrow> set cs | None \<Rightarrow> {})"

lemma children_bound: "children edges names \<subseteq> set (concat (map snd edges))"
  by (auto simp: children_def split: option.splits dest!: map_of_SomeD) (metis snd_conv)

text \<open>The loop that adds the references of every name until none is new; an unknown name panics.\<close>

function reach_loop :: "edges \<Rightarrow> string set \<Rightarrow> (diag, string set) res" where
  "reach_loop edges reachable =
     (if \<exists>n \<in> reachable. map_of edges n = None then Panic
      else if card (reachable \<union> children edges reachable) = card reachable then Ok (reachable \<union> children edges reachable)
      else reach_loop edges (reachable \<union> children edges reachable))"
  by pat_completeness auto

termination reach_loop
proof (relation "measure (\<lambda>(edges, reachable). card (set (concat (map snd edges)) - reachable))")
  fix edges :: edges and reachable :: "string set"
  let ?all = "set (concat (map snd edges))" and ?new = "reachable \<union> children edges reachable"
  assume "card ?new \<noteq> card reachable"
  then have "children edges reachable - reachable \<noteq> {}" by (metis Diff_eq_empty_iff Un_absorb2)
  then have "?all - ?new \<subset> ?all - reachable" using children_bound [of edges reachable] by blast
  moreover have "finite ?all" by auto
  ultimately have "card (?all - ?new) < card (?all - reachable)" by (simp add: psubset_card_mono)
  then show "((edges, ?new), edges, reachable) \<in> measure (\<lambda>(edges, reachable). card (set (concat (map snd edges)) - reachable))"
    by simp
qed simp

declare reach_loop.simps [simp del]

section \<open>The front end\<close>

definition check_model :: "cschema list \<Rightarrow> root_registration list \<Rightarrow> case_decl list \<Rightarrow> (diag, model) res" where
  "check_model schemas roots cases =
     and_then (require (length cases = length case_ids \<and> length roots = length case_ids)) (\<lambda>_.
     and_then (require (card (set (map rr_case_id roots)) = length roots)) (\<lambda>_.
     and_then (for_each (check_schema schemas) schemas) (\<lambda>_.
     let edges = edges_of schemas in
     and_then (check_cycles edges) (\<lambda>_.
     and_then (check_options schemas) (\<lambda>_.
     and_then (try_fold (check_case schemas roots) \<lparr>st_ids = {}, st_keys = {}, st_used_roots = {}\<rparr> cases) (\<lambda>st.
     and_then (require (card (st_ids st) = length case_ids \<and> (\<forall>i \<in> set case_ids. i \<in> st_ids st))) (\<lambda>_.
     and_then (reach_loop edges (st_used_roots st)) (\<lambda>reachable.
     and_then (require (\<forall>s \<in> set schemas. cs_name s \<in> reachable)) (\<lambda>_.
     Ok \<lparr>md_schemas = schemas, md_cases = cases\<rparr>)))))))))"

definition parse :: "corpus_item list \<Rightarrow> macro_syntax option list \<Rightarrow> (diag, model) res" where
  "parse corpus cases_file =
     and_then (parse_corpus corpus) (\<lambda>(schemas, roots). and_then (parse_cases cases_file) (\<lambda>cases. check_model schemas roots cases))"

section \<open>The cycle check is exact\<close>

definition refers :: "edges \<Rightarrow> (string \<times> string) set" where
  "refers edges = {(a, b). \<exists>cs. map_of edges a = Some cs \<and> b \<in> set cs}"

definition closed_edges :: "edges \<Rightarrow> bool" where
  "closed_edges edges \<longleftrightarrow> (\<forall>(n, cs) \<in> set edges. set cs \<subseteq> fst ` set edges)"

lemma closed_edgesD: "closed_edges edges \<Longrightarrow> map_of edges a = Some cs \<Longrightarrow> b \<in> set cs \<Longrightarrow> b \<in> fst ` set edges"
  by (auto simp: closed_edges_def dest!: map_of_SomeD)

text \<open>A finished set keeps its references and holds no cycle.\<close>

definition finished :: "edges \<Rightarrow> string set \<Rightarrow> bool" where
  "finished edges C \<longleftrightarrow> (\<forall>(a, b) \<in> refers edges. a \<in> C \<longrightarrow> b \<in> C) \<and> (\<forall>a \<in> C. (a, a) \<notin> (refers edges)\<^sup>+)"

lemma finished_reach: "(a, b) \<in> (refers edges)\<^sup>* \<Longrightarrow> finished edges C \<Longrightarrow> a \<in> C \<Longrightarrow> b \<in> C"
  by (induction rule: rtrancl_induct) (auto simp: finished_def)

lemma finished_insert:
  assumes "finished edges C" "map_of edges name = Some cs" "set cs \<subseteq> C" "name \<notin> C"
  shows "finished edges (insert name C)"
proof -
  have "(name, name) \<notin> (refers edges)\<^sup>+"
  proof
    assume "(name, name) \<in> (refers edges)\<^sup>+"
    then obtain c where "(name, c) \<in> refers edges" "(c, name) \<in> (refers edges)\<^sup>*" by (meson tranclD)
    then show False using assms finished_reach [OF _ assms(1)] by (auto simp: refers_def)
  qed
  then show ?thesis using assms by (auto simp: finished_def refers_def)
qed

lemma visit_each_Ok:
  assumes "visit_each edges names st = Ok st'" "finished edges (snd st)" "fst st \<inter> snd st = {}"
  shows "fst st' = fst st \<and> finished edges (snd st') \<and> snd st \<subseteq> snd st' \<and> set names \<subseteq> snd st' \<and> fst st' \<inter> snd st' = {}"
  using assms
proof (induction edges names st arbitrary: st' rule: visit_each.induct)
  case (2 edges name names st)
  show ?case
  proof (cases "name \<in> snd st")
    case True
    with 2(1,4-6) show ?thesis by auto
  next
    case False
    then have new: "name \<notin> fst st" using 2(4) by auto
    then obtain cs where edge: "map_of edges name = Some cs" using 2(4) False by (cases "map_of edges name") auto
    then obtain st1 where st1: "visit_each edges cs (insert name (fst st), snd st) = Ok st1"
        "visit_each edges names (fst st1 - {name}, insert name (snd st1)) = Ok st'"
      using 2(4) False new by auto
    have inner: "fst st1 = insert name (fst st) \<and> finished edges (snd st1) \<and> snd st \<subseteq> snd st1 \<and> set cs \<subseteq> snd st1 \<and> fst st1 \<inter> snd st1 = {}"
      using 2(2) [OF False new edge st1(1)] 2(5,6) False by auto
    then have "finished edges (insert name (snd st1))" by (intro finished_insert [OF _ edge]) auto
    moreover have "(fst st1 - {name}) \<inter> insert name (snd st1) = {}" using inner by auto
    ultimately have "fst st' = fst st1 - {name} \<and> finished edges (snd st') \<and> insert name (snd st1) \<subseteq> snd st' \<and>
        set names \<subseteq> snd st' \<and> fst st' \<inter> snd st' = {}"
      using 2(3) [OF False new edge st1, unfolded fst_conv snd_conv] by blast
    note rest = this [THEN conjunct1] this [THEN conjunct2, THEN conjunct1] this [THEN conjunct2, THEN conjunct2, THEN conjunct1]
      this [THEN conjunct2, THEN conjunct2, THEN conjunct2, THEN conjunct1] this [THEN conjunct2, THEN conjunct2, THEN conjunct2, THEN conjunct2]
    have "fst st1 - {name} = fst st" using inner new by auto
    moreover have "snd st \<subseteq> snd st'" using inner rest(3) by blast
    ultimately show ?thesis using rest by simp
  qed
qed simp

lemma visit_each_Panic:
  assumes "visit_each edges names st = Panic" "closed_edges edges" "set names \<subseteq> fst ` set edges"
    "\<And>t n. t \<in> fst st \<Longrightarrow> n \<in> set names \<Longrightarrow> (t, n) \<in> (refers edges)\<^sup>+"
  shows "\<exists>a. (a, a) \<in> (refers edges)\<^sup>+"
  using assms
proof (induction edges names st rule: visit_each.induct)
  case (2 edges name names st)
  show ?case
  proof (cases "name \<in> snd st")
    case True
    with 2(1,4-7) show ?thesis by auto
  next
    case False
    show ?thesis
    proof (cases "name \<in> fst st")
      case True
      then show ?thesis using 2(7) [of name name] by auto
    next
      case new: False
      obtain cs where edge: "map_of edges name = Some cs"
        using 2(6) by (cases "map_of edges name") (auto simp: map_of_eq_None_iff)
      have step: "(t, n) \<in> (refers edges)\<^sup>+" if "t \<in> insert name (fst st)" "n \<in> set cs" for t n
      proof -
        have "(name, n) \<in> refers edges" using edge that(2) by (auto simp: refers_def)
        then show ?thesis using that(1) 2(7) [of t name] by (auto intro: trancl_into_trancl)
      qed
      show ?thesis
      proof (cases "visit_each edges cs (insert name (fst st), snd st)")
        case (Ok st1)
        then have "fst st1 - {name} = fst st" using visit_each_temporary new by auto
        moreover have "visit_each edges names (fst st1 - {name}, insert name (snd st1)) = Panic"
          using 2(4) False new edge Ok by simp
        ultimately show ?thesis using 2(3) [OF False new edge Ok] 2(5-7) by simp
      next
        case Panic
        then show ?thesis using 2(2) [OF False new edge _ 2(5)] step closed_edgesD [OF 2(5) edge] by (simp add: subset_iff)
      next
        case (Err e)
        then show ?thesis using 2(4) False new edge by simp
      qed
    qed
  qed
qed simp

lemma require_Ok [simp]: "require b = Ok () \<longleftrightarrow> b"
  by (simp add: require_def)

lemma refers_keys: "(a, b) \<in> refers edges \<Longrightarrow> a \<in> fst ` set edges"
  using map_of_eq_None_iff [of edges a] by (cases "map_of edges a") (simp_all add: refers_def)

lemma refers_closed: "closed_edges edges \<Longrightarrow> (a, b) \<in> refers edges \<Longrightarrow> b \<in> fst ` set edges"
  using closed_edgesD [of edges a _ b] by (auto simp: refers_def)

lemma visit_each_no_Err: "visit_each edges names st \<noteq> Err e"
  by (induction edges names st rule: visit_each.induct) (auto split: option.splits)

lemma check_cycles_iff:
  assumes "closed_edges edges"
  shows "check_cycles edges = Ok () \<longleftrightarrow> acyclic (refers edges)"
proof
  assume "check_cycles edges = Ok ()"
  then obtain st' where run: "visit_each edges (map fst edges) ({}, {}) = Ok st'" by (auto simp: check_cycles_def)
  have "finished edges {}" by (simp add: finished_def)
  with visit_each_Ok [OF run] have "finished edges (snd st')" "fst ` set edges \<subseteq> snd st'" by simp_all
  then have "(a, a) \<notin> (refers edges)\<^sup>+" if "a \<in> fst ` set edges" for a using that by (auto simp: finished_def)
  moreover have "a \<in> fst ` set edges" if loop: "(a, a) \<in> (refers edges)\<^sup>+" for a
  proof -
    obtain c where "(a, c) \<in> refers edges" using tranclD [OF loop] by blast
    then show ?thesis by (rule refers_keys)
  qed
  ultimately show "acyclic (refers edges)" unfolding acyclic_def by metis
next
  assume "acyclic (refers edges)"
  then have "visit_each edges (map fst edges) ({}, {}) \<noteq> Panic"
    using visit_each_Panic [OF _ assms, of "map fst edges" "({}, {})"] by (auto simp: acyclic_def)
  then show "check_cycles edges = Ok ()"
    using visit_each_no_Err by (cases "visit_each edges (map fst edges) ({}, {})") (auto simp: check_cycles_def)
qed

section \<open>The unused-schema loop is the reachable set\<close>

lemma children_eq: "children edges R = refers edges `` R"
  by (auto simp: children_def refers_def split: option.splits) blast

lemma reach_loop_closed:
  assumes "closed_edges edges" "finite R" "R \<subseteq> fst ` set edges"
  shows "reach_loop edges R = Ok ((refers edges)\<^sup>* `` R)"
  using assms
proof (induction edges R rule: reach_loop.induct)
  case (1 edges R)
  let ?new = "R \<union> children edges R"
  have keys: "?new \<subseteq> fst ` set edges" using 1(4) refers_closed [OF 1(2)] by (auto simp: children_eq)
  then have fin: "finite ?new" using finite_subset [OF keys] by simp
  have known: "\<not> (\<exists>n \<in> R. map_of edges n = None)" using 1(4) by (auto simp: map_of_eq_None_iff)
  have same: "(refers edges)\<^sup>* `` ?new = (refers edges)\<^sup>* `` R"
    by (auto simp: children_eq intro: converse_rtrancl_into_rtrancl)
  show ?case
  proof (cases "card ?new = card R")
    case True
    then have new: "?new = R" using fin by (metis card_subset_eq sup_ge1)
    then have "refers edges `` R \<subseteq> R" by (auto simp: children_eq)
    then have "(refers edges)\<^sup>* `` R = R" by (rule Image_closed_trancl)
    with True new known show ?thesis by (simp add: reach_loop.simps [of edges R])
  next
    case False
    with 1(1) [OF known False 1(2) fin keys] known same show ?thesis by (simp add: reach_loop.simps [of edges R])
  qed
qed

section \<open>What is accepted\<close>

text \<open>The references whose zero bytes decide those of a type.\<close>

fun sentinel_refs :: "ctype \<Rightarrow> string list" where
  "sentinel_refs (CSchema s) = [s]"
| "sentinel_refs (CArray t n) = (if n = 0 then [] else sentinel_refs t)"
| "sentinel_refs _ = []"

text \<open>A schema none of whose values is all zero: a scalar enum without a zero discriminant, or a struct with such a part.\<close>

inductive zero_invalid :: "(string \<Rightarrow> cschema option) \<Rightarrow> string \<Rightarrow> bool" for schemas where
  zero_invalid_scalar: "schemas s = Some sc \<Longrightarrow> cs_kind sc = CScalarEnum repr en variants \<Longrightarrow> variants \<noteq> [] \<Longrightarrow>
    list_all (\<lambda>v. cv_raw v \<noteq> 0) variants \<Longrightarrow> zero_invalid schemas s"
| zero_invalid_struct: "schemas s = Some sc \<Longrightarrow> cs_kind sc = CStruct fs \<Longrightarrow> f \<in> set fs \<Longrightarrow> t \<in> set (sentinel_refs (cf_ty f)) \<Longrightarrow>
    zero_invalid schemas t \<Longrightarrow> zero_invalid schemas s"

inductive_simps zero_invalid_unfold: "zero_invalid schemas s"

definition eligible :: "(string \<Rightarrow> cschema option) \<Rightarrow> ctype \<Rightarrow> bool" where
  "eligible schemas t = (case t of
     CSchema s \<Rightarrow> zero_invalid schemas s
   | CArray (CSchema s) n \<Rightarrow> n \<noteq> 0 \<and> zero_invalid schemas s
   | _ \<Rightarrow> False)"

text \<open>A payload names a sibling scalar enum, the enum of its variants; no other field is a payload.\<close>

definition tag_ok :: "cschema list \<Rightarrow> cfield list \<Rightarrow> cfield \<Rightarrow> bool" where
  "tag_ok schemas fs f = (case cf_tag_field f of
     None \<Rightarrow> (case cf_ty f of
         CSchema s \<Rightarrow> (case schema_by_name schemas s of Some sc \<Rightarrow> \<not> is_tagged_kind (cs_kind sc) | None \<Rightarrow> False) | _ \<Rightarrow> True)
   | Some tag_field \<Rightarrow> (\<exists>payload_name payload tag vs sibling sibling_schema.
       cf_ty f = CSchema payload_name \<and> schema_by_name schemas payload_name = Some payload \<and> cs_kind payload = CTaggedEnum tag vs \<and>
       find (\<lambda>c. cf_name c = tag_field) fs = Some sibling \<and> cf_ty sibling = CSchema tag \<and>
       schema_by_name schemas tag = Some sibling_schema \<and> is_scalar_kind (cs_kind sibling_schema)))"

definition schema_ok :: "cschema list \<Rightarrow> cschema \<Rightarrow> bool" where
  "schema_ok schemas sc = (case cs_kind sc of
     CStruct fs \<Rightarrow> (\<forall>f \<in> set fs. tag_ok schemas fs f \<and> (\<forall>s \<in> set (schema_refs (cf_ty f)). schema_by_name schemas s \<noteq> None)) \<and>
       distinct (List.map_filter cf_tag_field fs)
   | CTaggedEnum tag variants \<Rightarrow> (\<exists>t. schema_by_name schemas tag = Some t \<and> is_scalar_kind (cs_kind t)) \<and>
       (\<forall>p \<in> set (List.map_filter tv_payload variants). schema_by_name schemas p \<noteq> None)
   | CScalarEnum repr en variants \<Rightarrow> True)"

definition options_ok :: "cschema list \<Rightarrow> bool" where
  "options_ok schemas \<longleftrightarrow> (\<forall>sc \<in> set schemas. \<forall>fs f inner. cs_kind sc = CStruct fs \<and> f \<in> set fs \<and> cf_ty f = COption inner \<longrightarrow>
     eligible (schema_by_name schemas) inner)"

definition case_ok :: "cschema list \<Rightarrow> root_registration list \<Rightarrow> case_decl \<Rightarrow> bool" where
  "case_ok schemas roots c \<longleftrightarrow>
     ca_native c = (1012 \<le> ca_id c \<and> ca_id c \<le> 1016) \<and>
     map_option rr_root_id (last_of rr_case_id roots (ca_id c)) = Some (ca_root_id c) \<and>
     (\<exists>root. schema_by_name schemas (ca_root c) = Some root \<and> \<not> is_tagged_kind (cs_kind root)) \<and>
     layout_keys c \<noteq> [] \<and> sorted_wrt (<) (layout_keys c) \<and> observe_keys c \<noteq> [] \<and> sorted_wrt (<) (observe_keys c) \<and>
     (\<forall>k \<in> set (layout_keys c). ca_id c * 1000 + 1 \<le> k \<and> k \<le> ca_id c * 1000 + 499) \<and>
     (\<forall>k \<in> set (observe_keys c). ca_id c * 1000 + 501 \<le> k \<and> k \<le> ca_id c * 1000 + 999)"

definition model_ok :: "cschema list \<Rightarrow> root_registration list \<Rightarrow> case_decl list \<Rightarrow> bool" where
  "model_ok schemas roots cases \<longleftrightarrow>
     length roots = 15 \<and> distinct (map rr_case_id roots) \<and> list_all (schema_ok schemas) schemas \<and>
     acyclic (refers (edges_of schemas)) \<and> options_ok schemas \<and>
     set (map ca_id cases) = set case_ids \<and> distinct (map ca_id cases) \<and> list_all (case_ok schemas roots) cases \<and>
     (\<forall>s \<in> set schemas. \<exists>c \<in> set cases. (ca_root c, cs_name s) \<in> (refers (edges_of schemas))\<^sup>*)"

section \<open>References\<close>

lemma last_of_None: "last_of key xs k = None \<longleftrightarrow> k \<notin> key ` set xs"
  by (auto simp: last_of_def find_None_iff)

lemma last_of_Some: "last_of key xs k = Some x \<Longrightarrow> x \<in> set xs \<and> key x = k"
  unfolding last_of_def find_Some_iff by (metis length_rev nth_mem set_rev)

lemma edges_of_keys: "fst ` set (edges_of schemas) = cs_name ` set schemas"
  by (force simp: edges_of_def)

lemma map_of_edges: "map_of (edges_of schemas) n = map_option (\<lambda>sc. schema_edges (cs_kind sc)) (schema_by_name schemas n)"
proof (cases "schema_by_name schemas n")
  case None
  then have "n \<notin> fst ` set (edges_of schemas)" by (simp only: edges_of_keys last_of_None not_False_eq_True)
  then show ?thesis using None by (simp add: map_of_eq_None_iff)
next
  case (Some sc)
  then have "n \<in> set (sort (remdups (map cs_name schemas)))" using last_of_None [of cs_name schemas n] by auto
  then have "map_of (edges_of schemas) n = Some (case schema_by_name schemas n of Some sc \<Rightarrow> schema_edges (cs_kind sc) | None \<Rightarrow> [])"
    by (simp only: edges_of_def map_of_map_restrict restrict_in comp_def)
  then show ?thesis using Some by simp
qed

lemma refers_iff: "(a, b) \<in> refers (edges_of schemas) \<longleftrightarrow>
    (\<exists>sc. schema_by_name schemas a = Some sc \<and> b \<in> set (schema_edges (cs_kind sc)))"
  by (auto simp: refers_def map_of_edges)

lemma check_field_iff:
  "check_field schemas fs claimed f = Ok claimed' \<longleftrightarrow>
     (\<forall>s \<in> set (schema_refs (cf_ty f)). schema_by_name schemas s \<noteq> None) \<and> tag_ok schemas fs f \<and>
     (case cf_tag_field f of None \<Rightarrow> claimed' = claimed | Some t \<Rightarrow> t \<notin> claimed \<and> claimed' = insert t claimed)"
proof (cases "cf_tag_field f")
  case None
  then show ?thesis by (cases "cf_ty f") (auto simp: check_field_def tag_ok_def split: option.splits)
next
  case (Some t)
  then show ?thesis
    by (cases "cf_ty f") (auto simp: check_field_def tag_ok_def split: option.splits schema_kind.splits ctype.splits if_splits)
qed

lemma check_fields_iff:
  "try_fold (check_field schemas fs) claimed gs = Ok claimed' \<longleftrightarrow>
     (\<forall>f \<in> set gs. tag_ok schemas fs f \<and> (\<forall>s \<in> set (schema_refs (cf_ty f)). schema_by_name schemas s \<noteq> None)) \<and>
     distinct (List.map_filter cf_tag_field gs) \<and> set (List.map_filter cf_tag_field gs) \<inter> claimed = {} \<and>
     claimed' = claimed \<union> set (List.map_filter cf_tag_field gs)"
proof (induction gs arbitrary: claimed)
  case (Cons f gs)
  show ?case
  proof (cases "cf_tag_field f")
    case None
    then show ?thesis by (auto simp: check_field_iff Cons.IH map_filter_simps)
  next
    case (Some t)
    then show ?thesis by (auto simp: check_field_iff Cons.IH map_filter_simps)
  qed
qed (auto simp: map_filter_simps)

lemma schema_ok_iff: "check_schema schemas sc = Ok () \<longleftrightarrow> schema_ok schemas sc"
proof (cases "cs_kind sc")
  case (CStruct fs)
  then show ?thesis by (auto simp: check_schema_def schema_ok_def check_fields_iff)
next
  case (CTaggedEnum tag variants)
  have "(\<forall>v \<in> set variants. case tv_payload v of None \<Rightarrow> True | Some p \<Rightarrow> schema_by_name schemas p \<noteq> None) \<longleftrightarrow>
      (\<forall>p \<in> set (List.map_filter tv_payload variants). schema_by_name schemas p \<noteq> None)"
    by (force simp: List.map_filter_def split: option.splits)
  then show ?thesis using CTaggedEnum by (auto simp: check_schema_def schema_ok_def split: option.splits)
qed (simp add: check_schema_def schema_ok_def)

lemma schemas_closed:
  assumes "list_all (schema_ok schemas) schemas"
  shows "closed_edges (edges_of schemas)"
proof -
  have "b \<in> fst ` set (edges_of schemas)" if ab: "(a, b) \<in> refers (edges_of schemas)" for a b
  proof -
    obtain sc where sc: "schema_by_name schemas a = Some sc" "b \<in> set (schema_edges (cs_kind sc))"
      using ab by (auto simp: refers_iff)
    then have "schema_ok schemas sc" using assms last_of_Some [OF sc(1)] by (simp add: list_all_iff)
    then have "schema_by_name schemas b \<noteq> None"
      using sc(2) by (cases "cs_kind sc") (auto simp: schema_ok_def)
    then show ?thesis by (simp only: edges_of_keys last_of_None not_not)
  qed
  moreover have "map_of (edges_of schemas) n = Some cs" if "(n, cs) \<in> set (edges_of schemas)" for n cs
    using that by (intro map_of_is_SomeI) (auto simp: edges_of_def comp_def)
  ultimately show ?thesis unfolding closed_edges_def refers_def by blast
qed

section \<open>Zero sentinels\<close>

lemma any_res_Ok: "(\<And>x. x \<in> set xs \<Longrightarrow> f x = Ok (P x)) \<Longrightarrow> any_res f xs = Ok (\<exists>x \<in> set xs. P x)"
  by (induction xs) auto

lemma sentinel_refs_subset: "set (sentinel_refs t) \<subseteq> set (schema_refs t)"
  by (induction t) auto

lemma type_zero_invalid_eq:
  "(\<And>s. s \<in> set (sentinel_refs t) \<Longrightarrow> f s = Ok (P s)) \<Longrightarrow> type_all_zero_invalid f t = Ok (\<exists>s \<in> set (sentinel_refs t). P s)"
  by (induction t) auto

text \<open>The levels a schema needs: as many as there are schemas reachable from it.\<close>

lemma schema_zero_invalid_eq:
  assumes "acyclic (refers (edges_of schemas))" "list_all (schema_ok schemas) schemas"
    and "schema_by_name schemas s \<noteq> None" "card ((refers (edges_of schemas))\<^sup>* `` {s}) \<le> n"
  shows "schema_all_zero_invalid n (schema_by_name schemas) s = Ok (zero_invalid (schema_by_name schemas) s)"
  using assms(3,4)
proof (induction n arbitrary: s)
  let ?R = "refers (edges_of schemas)"
  have closed: "closed_edges (edges_of schemas)" by (rule schemas_closed) (rule assms(2))
  have reach: "?R\<^sup>* `` {s} \<subseteq> insert s (fst ` set (edges_of schemas))" for s
  proof
    fix t assume "t \<in> ?R\<^sup>* `` {s}"
    then have "(s, t) \<in> ?R\<^sup>*" by simp
    then show "t \<in> insert s (fst ` set (edges_of schemas))"
      by (cases rule: rtranclE) (auto dest: refers_closed [OF closed])
  qed
  then have fin: "finite (?R\<^sup>* `` {s})" for s by (rule finite_subset) simp
  {
    case 0
    have "s \<in> ?R\<^sup>* `` {s}" by simp
    with 0(2) fin show ?case by (metis card_gt_0_iff empty_iff le_zero_eq less_numeral_extra(3))
  next
    case (Suc n)
    obtain sc where sc: "schema_by_name schemas s = Some sc" using Suc(2) by blast
    show ?case
    proof (cases "cs_kind sc")
      case (CStruct fs)
      have child: "schema_all_zero_invalid n (schema_by_name schemas) t = Ok (zero_invalid (schema_by_name schemas) t)"
        if f: "f \<in> set fs" "t \<in> set (sentinel_refs (cf_ty f))" for f t
      proof -
        have edge: "(s, t) \<in> ?R" using sc CStruct f sentinel_refs_subset by (force simp: refers_iff)
        then have "t \<in> fst ` set (edges_of schemas)" by (rule refers_closed [OF closed])
        then have "schema_by_name schemas t \<noteq> None" by (simp only: edges_of_keys last_of_None not_not)
        moreover have "s \<notin> ?R\<^sup>* `` {t}" using assms(1) edge by (auto simp: acyclic_def dest: rtrancl_into_trancl2)
        moreover have "?R\<^sup>* `` {t} \<subseteq> ?R\<^sup>* `` {s}" using edge by (auto intro: converse_rtrancl_into_rtrancl)
        ultimately have "card (?R\<^sup>* `` {t}) < card (?R\<^sup>* `` {s})" by (intro psubset_card_mono [OF fin]) blast
        then show ?thesis using Suc(1) [OF \<open>schema_by_name schemas t \<noteq> None\<close>] Suc(3) by simp
      qed
      have "type_all_zero_invalid (schema_all_zero_invalid n (schema_by_name schemas)) (cf_ty f) =
          Ok (\<exists>t \<in> set (sentinel_refs (cf_ty f)). zero_invalid (schema_by_name schemas) t)" if "f \<in> set fs" for f
        by (rule type_zero_invalid_eq) (rule child [OF that])
      then have "any_res (\<lambda>f. type_all_zero_invalid (schema_all_zero_invalid n (schema_by_name schemas)) (cf_ty f)) fs =
          Ok (\<exists>f \<in> set fs. \<exists>t \<in> set (sentinel_refs (cf_ty f)). zero_invalid (schema_by_name schemas) t)"
        by (rule any_res_Ok)
      then show ?thesis using sc CStruct by (auto simp: zero_invalid_unfold [of _ s])
    qed (use sc in \<open>simp_all add: zero_invalid_unfold [of _ s]\<close>)
  }
qed

lemma reach_card: "closed_edges edges \<Longrightarrow> s \<in> fst ` set edges \<Longrightarrow> card ((refers edges)\<^sup>* `` {s}) \<le> length edges"
proof -
  assume closed: "closed_edges edges" and s: "s \<in> fst ` set edges"
  have "(refers edges)\<^sup>* `` {s} \<subseteq> fst ` set edges"
  proof
    fix t assume "t \<in> (refers edges)\<^sup>* `` {s}"
    then have "(s, t) \<in> (refers edges)\<^sup>*" by simp
    then show "t \<in> fst ` set edges" by (cases rule: rtranclE) (use s in \<open>auto intro: refers_closed [OF closed]\<close>)
  qed
  then have "card ((refers edges)\<^sup>* `` {s}) \<le> card (fst ` set edges)" by (intro card_mono) auto
  also have "\<dots> \<le> length edges" by (metis card_image_le card_length finite_set le_trans)
  finally show ?thesis .
qed

lemma option_eligible_eq:
  assumes "acyclic (refers (edges_of schemas))" "list_all (schema_ok schemas) schemas"
    and "\<forall>s \<in> set (schema_refs t). schema_by_name schemas s \<noteq> None"
  shows "option_eligible (Suc (length schemas)) (schema_by_name schemas) t = Ok (eligible (schema_by_name schemas) t)"
proof -
  have "schema_all_zero_invalid (Suc (length schemas)) (schema_by_name schemas) s = Ok (zero_invalid (schema_by_name schemas) s)"
    if "schema_by_name schemas s \<noteq> None" for s
  proof (rule schema_zero_invalid_eq [OF assms(1,2) that])
    have "s \<in> fst ` set (edges_of schemas)" using that by (simp only: edges_of_keys last_of_None not_not)
    then have "card ((refers (edges_of schemas))\<^sup>* `` {s}) \<le> length (edges_of schemas)"
      by (rule reach_card [OF schemas_closed [OF assms(2)]])
    also have "\<dots> \<le> length schemas" unfolding edges_of_def by (simp add: length_remdups_leq [of "map cs_name schemas", simplified])
    finally show "card ((refers (edges_of schemas))\<^sup>* `` {s}) \<le> Suc (length schemas)" by simp
  qed
  then show ?thesis
    using assms(3) by (cases t) (auto simp: option_eligible_def eligible_def split: ctype.splits)
qed

lemma check_options_iff:
  assumes "acyclic (refers (edges_of schemas))" "list_all (schema_ok schemas) schemas"
  shows "check_options schemas = Ok () \<longleftrightarrow> options_ok schemas"
proof -
  have field: "(case cf_ty f of COption inner \<Rightarrow> and_then (option_eligible (Suc (length schemas)) (schema_by_name schemas) inner) require
        | _ \<Rightarrow> Ok ()) = Ok () \<longleftrightarrow> (\<forall>inner. cf_ty f = COption inner \<longrightarrow> eligible (schema_by_name schemas) inner)"
    if "sc \<in> set schemas" "cs_kind sc = CStruct fs" "f \<in> set fs" for sc fs f
  proof (cases "cf_ty f")
    case (COption inner)
    have "schema_ok schemas sc" using assms(2) that(1) by (simp add: list_all_iff)
    then have "\<forall>s \<in> set (schema_refs inner). schema_by_name schemas s \<noteq> None"
      using that(2,3) COption by (auto simp: schema_ok_def)
    with COption show ?thesis by (simp add: option_eligible_eq [OF assms])
  qed simp_all
  have schema: "(case cs_kind sc of CStruct fs \<Rightarrow> for_each (\<lambda>f. case cf_ty f of
         COption inner \<Rightarrow> and_then (option_eligible (Suc (length schemas)) (schema_by_name schemas) inner) require
       | _ \<Rightarrow> Ok ()) fs | _ \<Rightarrow> Ok ()) = Ok () \<longleftrightarrow>
      (\<forall>fs f inner. cs_kind sc = CStruct fs \<and> f \<in> set fs \<and> cf_ty f = COption inner \<longrightarrow> eligible (schema_by_name schemas) inner)"
    if "sc \<in> set schemas" for sc
    using field [OF that] by (cases "cs_kind sc") auto
  then show ?thesis by (simp add: check_options_def options_ok_def)
qed

section \<open>Cases\<close>

lemma ascending_iff: "ascending ks \<longleftrightarrow> sorted_wrt (<) ks"
  by (induction ks rule: ascending.induct) (auto intro: less_trans)

lemma check_key_Ok: "check_key seen key = Ok seen' \<longleftrightarrow> key \<noteq> 0 \<and> key \<notin> seen \<and> seen' = insert key seen"
  by (auto simp: check_key_def)

lemma check_key_fold:
  "try_fold check_key seen ks = Ok seen' \<longleftrightarrow> 0 \<notin> set ks \<and> distinct ks \<and> set ks \<inter> seen = {} \<and> seen' = seen \<union> set ks"
proof (induction ks arbitrary: seen)
  case (Cons k ks)
  show ?case by (auto simp: check_key_Ok Cons.IH)
qed auto

lemma check_keys_iff:
  "check_keys seen ks = Ok seen' \<longleftrightarrow> ks \<noteq> [] \<and> sorted_wrt (<) ks \<and> 0 \<notin> set ks \<and> set ks \<inter> seen = {} \<and> seen' = seen \<union> set ks"
  by (auto simp: check_keys_def ascending_iff check_key_fold strict_sorted_iff)

definition case_keys :: "case_decl \<Rightarrow> nat set" where
  "case_keys c = set (layout_keys c) \<union> set (observe_keys c)"

lemma case_keys_namespace: "case_ok schemas roots c \<Longrightarrow> k \<in> case_keys c \<Longrightarrow> k div 1000 = ca_id c \<and> k \<noteq> 0"
  by (auto simp: case_ok_def case_keys_def)

lemma check_case_iff:
  "check_case schemas roots st c = Ok st' \<longleftrightarrow>
     ca_id c \<in> set case_ids \<and> ca_id c \<notin> st_ids st \<and> case_ok schemas roots c \<and> case_keys c \<inter> st_keys st = {} \<and>
     st' = \<lparr>st_ids = insert (ca_id c) (st_ids st), st_keys = st_keys st \<union> case_keys c, st_used_roots = insert (ca_root c) (st_used_roots st)\<rparr>"
proof -
  have keys: "set (layout_keys c) \<inter> set (observe_keys c) = {} \<and> 0 \<notin> set (layout_keys c) \<and> 0 \<notin> set (observe_keys c)"
    if "\<forall>k \<in> set (layout_keys c). ca_id c * 1000 + 1 \<le> k \<and> k \<le> ca_id c * 1000 + 499"
      "\<forall>k \<in> set (observe_keys c). ca_id c * 1000 + 501 \<le> k \<and> k \<le> ca_id c * 1000 + 999"
    using that by fastforce
  show ?thesis
  proof (cases "schema_by_name schemas (ca_root c)")
    case None
    then show ?thesis by (auto simp: check_case_def case_ok_def)
  next
    case (Some root)
    then show ?thesis
      using keys by (auto simp: check_case_def case_ok_def check_keys_iff list_all_iff case_keys_def Let_def)
  qed
qed

text \<open>Keys of different cases never meet, so only the ids and the cases themselves decide.\<close>

definition keys_known :: "case_state \<Rightarrow> bool" where
  "keys_known st \<longleftrightarrow> (\<forall>k \<in> st_keys st. k div 1000 \<in> st_ids st)"

definition after_case :: "case_state \<Rightarrow> case_decl \<Rightarrow> case_state" where
  "after_case st c = \<lparr>st_ids = insert (ca_id c) (st_ids st), st_keys = st_keys st \<union> case_keys c,
     st_used_roots = insert (ca_root c) (st_used_roots st)\<rparr>"

lemma check_case_known:
  assumes "keys_known st"
  shows "check_case schemas roots st c = Ok st' \<longleftrightarrow>
      ca_id c \<in> set case_ids \<and> ca_id c \<notin> st_ids st \<and> case_ok schemas roots c \<and> st' = after_case st c"
    and "case_ok schemas roots c \<Longrightarrow> keys_known (after_case st c)"
proof -
  have "case_keys c \<inter> st_keys st = {}" if "ca_id c \<notin> st_ids st" "case_ok schemas roots c"
    using assms case_keys_namespace [OF that(2)] that(1) unfolding keys_known_def by (metis disjoint_iff)
  then show "check_case schemas roots st c = Ok st' \<longleftrightarrow>
      ca_id c \<in> set case_ids \<and> ca_id c \<notin> st_ids st \<and> case_ok schemas roots c \<and> st' = after_case st c"
    unfolding check_case_iff after_case_def by blast
  show "keys_known (after_case st c)" if "case_ok schemas roots c"
    using assms case_keys_namespace [OF that] by (auto simp: keys_known_def after_case_def)
qed

lemma check_cases_iff:
  assumes "keys_known st"
  shows "try_fold (check_case schemas roots) st cases = Ok st' \<longleftrightarrow>
     set (map ca_id cases) \<subseteq> set case_ids \<and> distinct (map ca_id cases) \<and> set (map ca_id cases) \<inter> st_ids st = {} \<and>
     list_all (case_ok schemas roots) cases \<and> st' = foldl after_case st cases"
  using assms
proof (induction cases arbitrary: st)
  case (Cons c cs)
  have "try_fold (check_case schemas roots) st (c # cs) = Ok st' \<longleftrightarrow>
      (ca_id c \<in> set case_ids \<and> ca_id c \<notin> st_ids st \<and> case_ok schemas roots c) \<and>
      try_fold (check_case schemas roots) (after_case st c) cs = Ok st'"
    by (auto simp: check_case_known [OF Cons.prems])
  also have "\<dots> \<longleftrightarrow> (ca_id c \<in> set case_ids \<and> ca_id c \<notin> st_ids st \<and> case_ok schemas roots c) \<and>
      set (map ca_id cs) \<subseteq> set case_ids \<and> distinct (map ca_id cs) \<and> set (map ca_id cs) \<inter> st_ids (after_case st c) = {} \<and>
      list_all (case_ok schemas roots) cs \<and> st' = foldl after_case (after_case st c) cs"
    using Cons.IH [OF check_case_known(2) [OF Cons.prems]] by blast
  also have "\<dots> \<longleftrightarrow> set (map ca_id (c # cs)) \<subseteq> set case_ids \<and> distinct (map ca_id (c # cs)) \<and>
      set (map ca_id (c # cs)) \<inter> st_ids st = {} \<and> list_all (case_ok schemas roots) (c # cs) \<and> st' = foldl after_case st (c # cs)"
    by (auto simp: after_case_def)
  finally show ?case .
qed auto

lemma after_cases:
  "st_ids (foldl after_case st cases) = st_ids st \<union> ca_id ` set cases"
  "st_used_roots (foldl after_case st cases) = st_used_roots st \<union> ca_root ` set cases"
  by (induction cases arbitrary: st) (auto simp: after_case_def)

lemma card_distinct_map: "card (set xs) = length xs \<longleftrightarrow> distinct xs"
  by (meson card_distinct distinct_card)

lemma length_case_ids: "length case_ids = 15" "distinct case_ids"
  by (simp_all add: case_ids_def)

lemma check_model_steps:
  "check_model schemas roots cases = Ok m \<longleftrightarrow>
     length cases = 15 \<and> length roots = 15 \<and> distinct (map rr_case_id roots) \<and> list_all (schema_ok schemas) schemas \<and>
     check_cycles (edges_of schemas) = Ok () \<and> check_options schemas = Ok () \<and>
     (\<exists>st reachable. try_fold (check_case schemas roots) \<lparr>st_ids = {}, st_keys = {}, st_used_roots = {}\<rparr> cases = Ok st \<and>
       card (st_ids st) = 15 \<and> set case_ids \<subseteq> st_ids st \<and> reach_loop (edges_of schemas) (st_used_roots st) = Ok reachable \<and>
       (\<forall>s \<in> set schemas. cs_name s \<in> reachable)) \<and>
     m = \<lparr>md_schemas = schemas, md_cases = cases\<rparr>"
  using card_distinct_map [of "map rr_case_id roots"]
  by (auto simp: check_model_def Let_def schema_ok_iff list_all_iff length_case_ids subset_iff)

lemma frozen_ids:
  "length cases = 15 \<and> set (map ca_id cases) \<subseteq> set case_ids \<and> distinct (map ca_id cases) \<longleftrightarrow>
   set (map ca_id cases) = set case_ids \<and> distinct (map ca_id cases)"
proof -
  have "card (set case_ids) = 15" by (simp add: case_ids_def)
  then show ?thesis
    by (metis (no_types, lifting) List.finite_set card_subset_eq distinct_card length_map order_refl)
qed

lemma check_model_iff:
  "check_model schemas roots cases = Ok m \<longleftrightarrow> model_ok schemas roots cases \<and> m = \<lparr>md_schemas = schemas, md_cases = cases\<rparr>"
proof (cases "list_all (schema_ok schemas) schemas \<and> list_all (case_ok schemas roots) cases")
  let ?st = "\<lparr>st_ids = {}, st_keys = {}, st_used_roots = {}\<rparr> :: case_state"
  have known: "keys_known ?st" by (simp add: keys_known_def)
  case True
  then have closed: "closed_edges (edges_of schemas)" by (simp add: schemas_closed)
  have "ca_root ` set cases \<subseteq> fst ` set (edges_of schemas)"
  proof
    fix s assume "s \<in> ca_root ` set cases"
    then have "schema_by_name schemas s \<noteq> None" using True by (auto simp: list_all_iff case_ok_def)
    then show "s \<in> fst ` set (edges_of schemas)" by (simp only: edges_of_keys last_of_None not_not)
  qed
  from reach_loop_closed [OF closed _ this]
  have reach: "reach_loop (edges_of schemas) (ca_root ` set cases) = Ok ((refers (edges_of schemas))\<^sup>* `` (ca_root ` set cases))" by simp
  have options: "acyclic (refers (edges_of schemas)) \<Longrightarrow> check_options schemas = Ok () \<longleftrightarrow> options_ok schemas"
    using True by (simp add: check_options_iff)
  have card: "card (ca_id ` set cases) = 15 \<longleftrightarrow> length cases = 15" if "distinct (map ca_id cases)"
    using distinct_card [OF that] by simp
  have "check_model schemas roots cases = Ok m \<longleftrightarrow> length cases = 15 \<and> length roots = 15 \<and> distinct (map rr_case_id roots) \<and>
      acyclic (refers (edges_of schemas)) \<and> options_ok schemas \<and> set (map ca_id cases) \<subseteq> set case_ids \<and> distinct (map ca_id cases) \<and>
      set case_ids \<subseteq> ca_id ` set cases \<and> (\<forall>s \<in> set schemas. cs_name s \<in> (refers (edges_of schemas))\<^sup>* `` (ca_root ` set cases)) \<and>
      m = \<lparr>md_schemas = schemas, md_cases = cases\<rparr>"
    unfolding check_model_steps check_cycles_iff [OF closed] check_cases_iff [OF known]
    using True options card by (auto simp: after_cases reach)
  also have "\<dots> \<longleftrightarrow> model_ok schemas roots cases \<and> m = \<lparr>md_schemas = schemas, md_cases = cases\<rparr>"
    using True frozen_ids [of cases] by (auto simp: model_ok_def Image_iff)
  finally show ?thesis .
next
  case False
  have known: "keys_known (\<lparr>st_ids = {}, st_keys = {}, st_used_roots = {}\<rparr> :: case_state)" by (simp add: keys_known_def)
  show ?thesis
    using False unfolding check_model_steps check_cases_iff [OF known] model_ok_def by blast
qed

text \<open>
  C32. The front end accepts exactly the models it documents. Both files must parse; there are fifteen roots and cases with the frozen ids, each
  registered and with a struct or scalar enum as root, report keys ascending inside their namespace; every reference
  resolves and every payload names its own sibling tag; no schema refers to itself through others; every optional field
  holds a schema or schema array that is never all zero; every schema is reachable from a case.
\<close>

theorem front_end_exact:
  "parse corpus cases_file = Ok m \<longleftrightarrow> (\<exists>schemas roots cases.
     parse_corpus corpus = Ok (schemas, roots) \<and> parse_cases cases_file = Ok cases \<and> model_ok schemas roots cases \<and>
     m = \<lparr>md_schemas = schemas, md_cases = cases\<rparr>)"
  by (auto simp: parse_def check_model_iff)

text \<open>
  C33. The cycle check of the corpus is a decision procedure: the depth-first visit ends on every reference table, finds a
  cycle exactly when there is one, and panics on it; on a table whose references all resolve nothing else stops it.
\<close>

theorem cycle_check_exact:
  assumes "closed_edges edges"
  shows "check_cycles edges = (if acyclic (refers edges) then Ok () else Panic)"
proof -
  have "check_cycles edges \<noteq> Err e" for e
    using visit_each_no_Err by (auto simp: check_cycles_def)
  then show ?thesis using check_cycles_iff [OF assms] by (cases "check_cycles edges") auto
qed

definition sample_edges :: edges where
  "sample_edges = [(''A'', [''B'', ''B'']), (''B'', [''C'']), (''C'', [])]"

theorem cycle_check_exact_witness:
  "closed_edges sample_edges \<and> closed_edges (sample_edges @ [(''D'', [''D''])]) \<and>
   check_cycles sample_edges = Ok () \<and> check_cycles (sample_edges @ [(''D'', [''D''])]) = Panic"
proof -
  have closed: "closed_edges sample_edges" "closed_edges (sample_edges @ [(''D'', [''D''])])"
    by (simp_all add: closed_edges_def sample_edges_def)
  have loop: "(''D'', ''D'') \<in> refers (sample_edges @ [(''D'', [''D''])])" by (simp add: refers_def sample_edges_def)
  have cyclic: "\<not> acyclic (refers (sample_edges @ [(''D'', [''D''])]))" using loop by (auto simp: acyclic_def)
  have "check_cycles sample_edges = Ok ()" by (simp add: check_cycles_def sample_edges_def)
  with closed cyclic show ?thesis using cycle_check_exact [OF closed(2)] by simp
qed

end
