(* ===== verification/Zs_Cpp.thy ===== *)
theory Zs_Cpp
  imports Zs_Conformance
begin

text \<open>
  The C++ layout generator of the conformance harness, \<open>conformance/build/layout_cpp.rs\<close>: for every schema of the model
  it writes a C++ declaration, \<open>static_assert\<close>s about it, the paths of its fields as C++ expressions, and for every case
  the expressions of its layout metrics. Declarations, assertions and expressions are their syntax trees; the \<open>show\<close>
  functions give the text the generator writes for them, up to white space.
\<close>

section \<open>C++ syntax\<close>

datatype cexpr =
    CNum nat
  | CSizeof string
  | CAlignof string
  | COffsetof string string
  | CSizeofElement string
  | CAlignofMember string string
  | CSum cexpr cexpr
  | CDifference cexpr cexpr
  | CMaximum cexpr cexpr

fun show_cexpr :: "cexpr \<Rightarrow> string" where
  "show_cexpr (CNum n) = fmt_decimal n"
| "show_cexpr (CSizeof t) = ''sizeof('' @ t @ '')''"
| "show_cexpr (CAlignof t) = ''alignof('' @ t @ '')''"
| "show_cexpr (COffsetof t member) = ''offsetof('' @ t @ '', '' @ member @ '')''"
| "show_cexpr (CSizeofElement t) = ''sizeof('' @ t @ ''::m0[0])''"
| "show_cexpr (CAlignofMember t member) = ''alignof(decltype('' @ t @ ''::'' @ member @ ''))''"
| "show_cexpr (CSum a b) = ''('' @ show_cexpr a @ '')+('' @ show_cexpr b @ '')''"
| "show_cexpr (CDifference a b) = ''('' @ show_cexpr a @ '')-('' @ show_cexpr b @ '')''"
| "show_cexpr (CMaximum a b) = (let a = show_cexpr a; b = show_cexpr b in
     ''(('' @ a @ '') > ('' @ b @ '') ? ('' @ a @ '') : ('' @ b @ ''))'')"

text \<open>A member is a type, a name and the length of an array member; a unit variant declares its own struct of one byte.\<close>

type_synonym cmember = "string \<times> string \<times> nat option"

datatype union_member = PayloadMember string string | UnitMember string string

datatype cdecl =
    StructDecl "cexpr option" string "cmember list"
  | UsingDecl string string
  | UnionDecl "cexpr option" string "union_member list"

datatype cassert =
    SizeIs string nat
  | AlignIs string cexpr
  | SizeIsAligned string
  | OffsetIsZero string string
  | OffsetAfter string string string
  | OffsetInside string string
  | MemberIs string string string
  | MemberSizeIs string string string
  | MemberAlignIs string string string
  | SizeIsPositive string
  | PlainData string

fun show_alignas :: "cexpr option \<Rightarrow> string" where
  "show_alignas None = []"
| "show_alignas (Some e) = '' alignas('' @ show_cexpr e @ '')''"

fun show_member :: "cmember \<Rightarrow> string" where
  "show_member (t, n, None) = t @ '' '' @ n @ '';''"
| "show_member (t, n, Some extent) = t @ '' '' @ n @ ''['' @ fmt_decimal extent @ ''];''"

fun show_union_member :: "union_member \<Rightarrow> string" where
  "show_union_member (PayloadMember t n) = t @ '' '' @ n @ '';''"
| "show_union_member (UnitMember unit n) = ''struct '' @ unit @ '' { std::uint8_t value; } '' @ n @ '';''"

fun show_cdecl :: "cdecl \<Rightarrow> string" where
  "show_cdecl (StructDecl a n ms) = ''struct'' @ show_alignas a @ '' '' @ n @ '' { '' @ concat (map (\<lambda>m. show_member m @ '' '') ms) @ ''};''"
| "show_cdecl (UsingDecl n t) = ''using '' @ n @ '' = '' @ t @ '';''"
| "show_cdecl (UnionDecl a n ms) = ''union'' @ show_alignas a @ '' '' @ n @ '' { '' @ concat (map (\<lambda>m. show_union_member m @ '' '') ms) @ ''};''"

text \<open>One condition of a \<open>static_assert\<close>; the conditions one assertion joins with \<open>&&\<close> are listed one after the other.\<close>

fun show_cassert :: "cassert \<Rightarrow> string" where
  "show_cassert (SizeIs t n) = ''sizeof('' @ t @ '')=='' @ fmt_decimal n"
| "show_cassert (AlignIs t e) = ''alignof('' @ t @ '')=='' @ show_cexpr e"
| "show_cassert (SizeIsAligned t) = ''sizeof('' @ t @ '')%alignof('' @ t @ '')==0''"
| "show_cassert (OffsetIsZero t n) = ''offsetof('' @ t @ '','' @ n @ '')==0''"
| "show_cassert (OffsetAfter t n u) = ''offsetof('' @ t @ '','' @ n @ '')>=sizeof('' @ u @ '')''"
| "show_cassert (OffsetInside t n) = ''offsetof('' @ t @ '','' @ n @ '') < sizeof('' @ t @ '')''"
| "show_cassert (MemberIs t n u) = ''std::is_same<decltype('' @ t @ ''::'' @ n @ ''),'' @ u @ ''>::value''"
| "show_cassert (MemberSizeIs t n u) = ''sizeof(decltype('' @ t @ ''::'' @ n @ ''))==sizeof('' @ u @ '')''"
| "show_cassert (MemberAlignIs t n u) = ''alignof(decltype('' @ t @ ''::'' @ n @ ''))==alignof('' @ u @ '')''"
| "show_cassert (SizeIsPositive t) = ''sizeof('' @ t @ '')>0''"
| "show_cassert (PlainData t) =
     ''std::is_standard_layout<'' @ t @ ''>::value && std::is_trivially_copyable<'' @ t @ ''>::value''"

section \<open>Metadata\<close>

datatype cpp_path_kind = PkScalar | PkBool | PkString cstring_kind | PkFixedBytes | PkArray | PkNested | PkTag | PkPayload

record path_meta =
  pm_schema :: string
  pm_path :: "string list"
  pm_offset :: cexpr
  pm_width :: cexpr
  pm_endian :: endian
  pm_kind :: cpp_path_kind
  pm_data_offset :: "cexpr option"
  pm_len_offset :: "cexpr option"
  pm_len_width :: "scalar_repr option"
  pm_capacity :: "nat option"
  pm_len_endian :: "endian option"
  pm_unit_width :: nat
  pm_array_length :: "nat option"
  pm_array_stride :: "cexpr option"
  pm_optional :: bool

record type_meta =
  tm_schema :: string
  tm_cpp :: string
  tm_size :: cexpr
  tm_align :: cexpr
  tm_paths :: "path_meta list"

definition unwrap :: "'a option \<Rightarrow> (diag, 'a) res" where
  "unwrap x = (case x of Some y \<Rightarrow> Ok y | None \<Rightarrow> Panic)"

definition md_ty :: "type_meta list \<Rightarrow> string \<Rightarrow> (diag, type_meta) res" where
  "md_ty md n = unwrap (find (\<lambda>t. tm_schema t = n) md)"

definition md_path :: "type_meta list \<Rightarrow> string \<Rightarrow> string list \<Rightarrow> (diag, path_meta) res" where
  "md_path md schema path = and_then (md_ty md schema) (\<lambda>t.
     unwrap (find (\<lambda>p. pm_path p = path) (tm_paths t)))"

section \<open>Names and widths\<close>

fun iw :: "scalar_repr \<Rightarrow> nat" where
  "iw ReprU8 = 1" | "iw ReprU16 = 2" | "iw ReprU32 = 4"

fun en :: "endian \<Rightarrow> nat" where
  "en Native = 0" | "en Little = 1" | "en Big = 2"

fun cpp_primitive :: "primitive \<Rightarrow> string \<times> nat" where
  "cpp_primitive U8 = (''std::uint8_t'', 1)" | "cpp_primitive I8 = (''std::int8_t'', 1)"
| "cpp_primitive U16 = (''std::uint16_t'', 2)" | "cpp_primitive I16 = (''std::int16_t'', 2)"
| "cpp_primitive U32 = (''std::uint32_t'', 4)" | "cpp_primitive I32 = (''std::int32_t'', 4)"
| "cpp_primitive U64 = (''std::uint64_t'', 8)" | "cpp_primitive I64 = (''std::int64_t'', 8)"
| "cpp_primitive F32 = (''float'', 4)" | "cpp_primitive F64 = (''double'', 8)"

definition raw_primitive :: "nat \<Rightarrow> (diag, string) res" where
  "raw_primitive width =
     (if width = 1 then Ok ''std::uint8_t'' else if width = 2 then Ok ''std::uint16_t''
      else if width = 4 then Ok ''std::uint32_t'' else if width = 8 then Ok ''std::uint64_t'' else Panic)"

definition cfield_of :: "model \<Rightarrow> string \<Rightarrow> string \<Rightarrow> (diag, cfield) res" where
  "cfield_of m s n = and_then (model_schema m s) (\<lambda>sc. case cs_kind sc of
     CStruct fs \<Rightarrow> unwrap (find (\<lambda>f. cf_name f = n) fs) | _ \<Rightarrow> Panic)"

fun optional_inner_of :: "ctype \<Rightarrow> ctype \<times> bool" where
  "optional_inner_of (COption inner) = (inner, True)"
| "optional_inner_of t = (t, False)"

section \<open>The generator\<close>

record gen =
  g_helpers :: nat
  g_decl :: "cdecl list"
  g_asserts :: "cassert list"
  g_metas :: "type_meta list"

definition fresh :: "gen \<Rightarrow> string \<times> gen" where
  "fresh g = (''z'' @ fmt_decimal (g_helpers g), g\<lparr>g_helpers := g_helpers g + 1\<rparr>)"

definition declare_cpp :: "cdecl \<Rightarrow> gen \<Rightarrow> gen" where
  "declare_cpp d g = g\<lparr>g_decl := g_decl g @ [d]\<rparr>"

definition static_assert :: "cassert list \<Rightarrow> gen \<Rightarrow> gen" where
  "static_assert as g = g\<lparr>g_asserts := g_asserts g @ as\<rparr>"

text \<open>The names are collected into a map, so the last schema of a name gives it.\<close>

definition typename :: "model \<Rightarrow> string \<Rightarrow> (diag, string) res" where
  "typename m n = (case last_of (cs_name \<circ> snd) (enumerate 0 (md_schemas m)) n of
     Some (i, s) \<Rightarrow> Ok (''t'' @ fmt_decimal i) | None \<Rightarrow> Panic)"

definition raw :: "nat \<Rightarrow> endian \<Rightarrow> gen \<Rightarrow> (diag, string \<times> gen) res" where
  "raw width e g = and_then (raw_primitive width) (\<lambda>primitive.
     if width = 1 \<or> e = Native then Ok (primitive, g)
     else case fresh g of (n, g) \<Rightarrow> let align = CAlignof primitive in
       Ok (n, static_assert [SizeIs n width, AlignIs n align]
         (declare_cpp (StructDecl (Some align) n [(''std::uint8_t'', ''m0'', Some width)]) g)))"

fun element_cpp_type :: "model \<Rightarrow> ctype \<Rightarrow> endian \<Rightarrow> gen \<Rightarrow> (diag, (string \<times> nat) \<times> gen) res" where
  "element_cpp_type m (CPrimitive p) e g = (case cpp_primitive p of (base, width) \<Rightarrow>
     if width = 1 \<or> e = Native then Ok ((base, width), g)
     else and_then (raw width e g) (\<lambda>(t, g). Ok ((t, width), g)))"
| "element_cpp_type m CBool e g = Ok ((''std::uint8_t'', 1), g)"
| "element_cpp_type m (CSchema n) e g = and_then (model_schema m n) (\<lambda>sc. case cs_kind sc of
     CScalarEnum repr ee vs \<Rightarrow> and_then (raw (iw repr) ee g) (\<lambda>(t, g). Ok ((t, iw repr), g))
   | CStruct fs \<Rightarrow> and_then (typename m n) (\<lambda>t. Ok ((t, 1), g))
   | CTaggedEnum tag vs \<Rightarrow> Panic)"
| "element_cpp_type m (COption inner) e g = element_cpp_type m inner e g"
| "element_cpp_type m _ e g = Panic"

text \<open>The type of a field before its own alignment, with the kind, the unit width, the data and length offsets and the length width.\<close>

type_synonym lowered = "string \<times> cpp_path_kind \<times> nat \<times> cexpr option \<times> cexpr option \<times> scalar_repr option"

definition lower_string :: "cstring_kind \<Rightarrow> cfield \<Rightarrow> gen \<Rightarrow> (diag, lowered \<times> gen) res" where
  "lower_string k f g = and_then (unwrap (cf_capacity f)) (\<lambda>cap.
     let unit = (if k = U16C \<or> k = U16Kind then 2 else 1);
         dt = (if k = U16C \<or> k = U16Kind then ''std::uint16_t'' else ''std::uint8_t'') in
     if k = CBytes \<or> k = U16C then
       (case fresh g of (h, g) \<Rightarrow>
          Ok ((h, PkString k, unit, Some (CNum 0), None, None), declare_cpp (StructDecl None h [(dt, ''m0'', Some cap)]) g))
     else and_then (unwrap (cf_len f)) (\<lambda>(lw, le). case fresh g of (h, g) \<Rightarrow>
       and_then (raw (iw lw) le g) (\<lambda>(lt, g).
       Ok ((h, PkString k, unit, Some (COffsetof h ''m1''), Some (CNum 0), Some lw),
         static_assert [OffsetIsZero h ''m0'', OffsetAfter h ''m1'' lt]
           (declare_cpp (StructDecl None h [(lt, ''m0'', None), (dt, ''m1'', Some cap)]) g)))))"

definition lower_type :: "model \<Rightarrow> cfield \<Rightarrow> ctype \<Rightarrow> gen \<Rightarrow> (diag, lowered \<times> gen) res" where
  "lower_type m f ty g = (case ty of
     CPrimitive p \<Rightarrow> (case cpp_primitive p of (base, w) \<Rightarrow>
       if w = 1 \<or> cf_endian f = Native then Ok ((base, PkScalar, w, None, None, None), g)
       else and_then (raw w (cf_endian f) g) (\<lambda>(t, g). Ok ((t, PkScalar, w, None, None, None), g)))
   | CBool \<Rightarrow> Ok ((''std::uint8_t'', PkBool, 1, None, None, None), g)
   | CFixedBytes n \<Rightarrow> (case fresh g of (h, g) \<Rightarrow>
       Ok ((h, PkFixedBytes, 1, None, None, None), declare_cpp (StructDecl None h [(''std::uint8_t'', ''m0'', Some n)]) g))
   | CArray element n \<Rightarrow> and_then (element_cpp_type m element (cf_endian f) g) (\<lambda>((t, width), g). case fresh g of (h, g) \<Rightarrow>
       Ok ((h, PkArray, width, None, None, None), declare_cpp (StructDecl None h [(t, ''m0'', Some n)]) g))
   | CSchema n \<Rightarrow> and_then (model_schema m n) (\<lambda>child. case cs_kind child of
       CScalarEnum repr e vs \<Rightarrow> and_then (raw (iw repr) e g) (\<lambda>(t, g). Ok ((t, PkScalar, iw repr, None, None, None), g))
     | CTaggedEnum tag vs \<Rightarrow> and_then (typename m n) (\<lambda>t.
         Ok ((t, if cf_tag_field f \<noteq> None then PkPayload else PkNested, 1, None, None, None), g))
     | CStruct fs \<Rightarrow> and_then (typename m n) (\<lambda>t. Ok ((t, PkNested, 1, None, None, None), g)))
   | CString k \<Rightarrow> lower_string k f g
   | COption inner \<Rightarrow> Panic)"

definition member_name :: "nat \<Rightarrow> string" where
  "member_name index = ''m'' @ fmt_decimal index"

definition align_field :: "cfield \<Rightarrow> string \<Rightarrow> gen \<Rightarrow> string \<times> gen" where
  "align_field f ty g = (case cf_align f of
     None \<Rightarrow> (ty, g)
   | Some a \<Rightarrow> (case fresh g of (w, g) \<Rightarrow> let al = CMaximum (CNum a) (CAlignof ty) in
       (w, static_assert [AlignIs w al, SizeIsAligned w, OffsetIsZero w ''m0'']
         (declare_cpp (StructDecl (Some al) w [(ty, ''m0'', None)]) g))))"

definition lower_field :: "model \<Rightarrow> string \<Rightarrow> nat \<Rightarrow> cfield \<Rightarrow> gen \<Rightarrow> (diag, (string \<times> string \<times> path_meta) \<times> gen) res" where
  "lower_field m schema index f g = (case optional_inner_of (cf_ty f) of (field_ty, opt) \<Rightarrow>
     and_then (lower_type m f field_ty g) (\<lambda>((ty, kind, unit, data, lenoff, lenw), g).
     case align_field f ty g of (aligned, g) \<Rightarrow>
     and_then (typename m schema) (\<lambda>cpp.
     let base = COffsetof cpp (member_name index) in
     Ok ((member_name index, aligned,
       \<lparr>pm_schema = schema, pm_path = [cf_name f], pm_offset = base, pm_width = CSizeof aligned, pm_endian = cf_endian f,
        pm_kind = kind, pm_data_offset = map_option (CSum base) data, pm_len_offset = map_option (CSum base) lenoff,
        pm_len_width = lenw, pm_capacity = cf_capacity f, pm_len_endian = map_option snd (cf_len f), pm_unit_width = unit,
        pm_array_length = (case field_ty of CArray e n \<Rightarrow> Some n | _ \<Rightarrow> None),
        pm_array_stride = (case field_ty of CArray e n \<Rightarrow> Some (CSizeofElement ty) | _ \<Rightarrow> None), pm_optional = opt\<rparr>), g))))"

fun lower_fields :: "model \<Rightarrow> string \<Rightarrow> nat \<Rightarrow> cfield list \<Rightarrow> gen \<Rightarrow> (diag, (string \<times> string \<times> path_meta) list \<times> gen) res" where
  "lower_fields m schema index [] g = Ok ([], g)"
| "lower_fields m schema index (f # fs) g = and_then (lower_field m schema index f g) (\<lambda>(l, g).
     and_then (lower_fields m schema (index + 1) fs g) (\<lambda>(ls, g). Ok (l # ls, g)))"

fun union_members :: "model \<Rightarrow> nat \<Rightarrow> ctagged_variant list \<Rightarrow> gen \<Rightarrow> (diag, union_member list \<times> gen) res" where
  "union_members m index [] g = Ok ([], g)"
| "union_members m index (v # vs) g =
     and_then (case tv_payload v of
         Some payload \<Rightarrow> and_then (typename m payload) (\<lambda>t. Ok (PayloadMember t (member_name index), g))
       | None \<Rightarrow> (case fresh g of (unit, g) \<Rightarrow> Ok (UnitMember unit (member_name index), g))) (\<lambda>(u, g).
     and_then (union_members m (index + 1) vs g) (\<lambda>(us, g). Ok (u # us, g)))"

definition push_meta :: "string \<Rightarrow> string \<Rightarrow> path_meta list \<Rightarrow> gen \<Rightarrow> gen" where
  "push_meta n cpp paths g = g\<lparr>g_metas := g_metas g @
     [\<lparr>tm_schema = n, tm_cpp = cpp, tm_size = CSizeof cpp, tm_align = CAlignof cpp, tm_paths = paths\<rparr>]\<rparr>"

definition member_asserts :: "string \<Rightarrow> string \<times> string \<times> path_meta \<Rightarrow> cassert list" where
  "member_asserts cpp l = (case l of (member, ty, meta) \<Rightarrow>
     OffsetInside cpp member # (if pm_optional meta then [MemberIs cpp member ty, MemberSizeIs cpp member ty, MemberAlignIs cpp member ty] else []))"

definition payload_path :: "string \<Rightarrow> string \<Rightarrow> path_meta" where
  "payload_path n cpp = \<lparr>pm_schema = n, pm_path = [''$payload''], pm_offset = CNum 0, pm_width = CSizeof cpp, pm_endian = Native,
     pm_kind = PkPayload, pm_data_offset = None, pm_len_offset = None, pm_len_width = None, pm_capacity = None,
     pm_len_endian = None, pm_unit_width = 1, pm_array_length = None, pm_array_stride = None, pm_optional = False\<rparr>"

definition gen_schema :: "model \<Rightarrow> gen \<Rightarrow> string \<Rightarrow> (diag, gen) res" where
  "gen_schema m g n = and_then (model_schema m n) (\<lambda>s. and_then (typename m n) (\<lambda>cpp. case cs_kind s of
     CScalarEnum repr e vs \<Rightarrow> and_then (raw (iw repr) e g) (\<lambda>(r, g). Ok (push_meta n cpp [] (declare_cpp (UsingDecl cpp r) g)))
   | CStruct fs \<Rightarrow> and_then (lower_fields m n 0 fs g) (\<lambda>(lowered, g).
       let alignment = (case cs_align s of Some a \<Rightarrow> a | None \<Rightarrow> 1) in
       Ok (push_meta n cpp (map (snd \<circ> snd) lowered)
         (static_assert (concat (map (member_asserts cpp) lowered) @ [PlainData cpp])
           (declare_cpp (StructDecl (if alignment > 1 then Some (CNum alignment) else None) cpp
             (map (\<lambda>(member, ty, meta). (ty, member, None)) lowered)) g))))
   | CTaggedEnum tag vs \<Rightarrow> and_then (union_members m 0 vs g) (\<lambda>(us, g).
       Ok (push_meta n cpp [payload_path n cpp]
         (static_assert [SizeIsPositive cpp, PlainData cpp]
           (declare_cpp (UnionDecl (map_option CNum (cs_align s)) cpp us) g))))))"

text \<open>The fields of a nested schema under the field's name; only one level is listed.\<close>

definition nested_path :: "string \<Rightarrow> cfield \<Rightarrow> path_meta \<Rightarrow> path_meta \<Rightarrow> path_meta" where
  "nested_path schema f base cp = cp\<lparr>pm_schema := schema, pm_path := cf_name f # pm_path cp,
     pm_offset := CSum (pm_offset base) (pm_offset cp),
     pm_data_offset := map_option (CSum (pm_offset base)) (pm_data_offset cp),
     pm_len_offset := map_option (CSum (pm_offset base)) (pm_len_offset cp),
     pm_optional := pm_optional base \<or> pm_optional cp\<rparr>"

definition nested_paths :: "model \<Rightarrow> type_meta list \<Rightarrow> type_meta \<Rightarrow> path_meta list" where
  "nested_paths m snapshot tm = (case find (\<lambda>s. cs_name s = tm_schema tm) (md_schemas m) of
     None \<Rightarrow> []
   | Some schema \<Rightarrow> (case cs_kind schema of
       CStruct fs \<Rightarrow> concat (map (\<lambda>f. case fst (optional_inner_of (cf_ty f)) of
         CSchema child \<Rightarrow>
           if cf_tag_field f \<noteq> None then []
           else (case find (\<lambda>p. pm_path p = [cf_name f]) (tm_paths tm) of
             None \<Rightarrow> []
           | Some base \<Rightarrow> (case find (\<lambda>x. tm_schema x = child) snapshot of
               None \<Rightarrow> []
             | Some cm \<Rightarrow> map (nested_path (tm_schema tm) f base) (filter (\<lambda>cp. pm_path cp \<noteq> []) (tm_paths cm))))
       | _ \<Rightarrow> []) fs)
     | _ \<Rightarrow> []))"

section \<open>Metrics\<close>

text \<open>The schema name of a field, which must be of a schema type.\<close>

definition enum_field :: "model \<Rightarrow> string \<Rightarrow> string \<Rightarrow> (diag, string) res" where
  "enum_field m s n = and_then (cfield_of m s n) (\<lambda>f. case cf_ty f of CSchema e \<Rightarrow> Ok e | _ \<Rightarrow> Panic)"

definition field_index :: "model \<Rightarrow> string \<Rightarrow> string \<Rightarrow> (diag, nat) res" where
  "field_index m s n = and_then (model_schema m s) (\<lambda>sc. case cs_kind sc of
     CStruct fs \<Rightarrow> and_then (unwrap (find (\<lambda>(k, f). cf_name f = n) (enumerate 0 fs))) (\<lambda>(k, f). Ok k) | _ \<Rightarrow> Panic)"

definition tagged_context :: "model \<Rightarrow> string \<Rightarrow> (diag, string \<times> string) res" where
  "tagged_context m s = and_then (model_schema m s) (\<lambda>sc. case cs_kind sc of
     CStruct fs \<Rightarrow> and_then (unwrap (find (\<lambda>f. cf_tag_field f \<noteq> None) fs)) (\<lambda>payload. case cf_ty payload of
       CSchema tagged \<Rightarrow> and_then (unwrap (cf_tag_field payload)) (\<lambda>tag_field. Ok (tagged, tag_field)) | _ \<Rightarrow> Panic)
   | _ \<Rightarrow> Panic)"

definition enum_parts :: "model \<Rightarrow> string \<Rightarrow> (diag, scalar_repr \<times> endian \<times> enum_variant list) res" where
  "enum_parts m n = and_then (model_schema m n) (\<lambda>sc. case cs_kind sc of CScalarEnum r e vs \<Rightarrow> Ok (r, e, vs) | _ \<Rightarrow> Panic)"

definition tagged_parts :: "model \<Rightarrow> string \<Rightarrow> (diag, string \<times> ctagged_variant list) res" where
  "tagged_parts m n = and_then (model_schema m n) (\<lambda>sc. case cs_kind sc of CTaggedEnum t vs \<Rightarrow> Ok (t, vs) | _ \<Rightarrow> Panic)"

definition first_payload :: "type_meta \<Rightarrow> (diag, path_meta) res" where
  "first_payload root = unwrap (find (\<lambda>p. pm_kind p = PkPayload) (tm_paths root))"

text \<open>The alignment of a field: the one it declares, or that of the member.\<close>

definition field_align_expr :: "model \<Rightarrow> type_meta \<Rightarrow> string \<Rightarrow> (diag, cexpr) res" where
  "field_align_expr m root n = and_then (cfield_of m (tm_schema root) n) (\<lambda>f. case cf_align f of
     Some a \<Rightarrow> Ok (CNum a)
   | None \<Rightarrow> and_then (field_index m (tm_schema root) n) (\<lambda>k. Ok (CAlignofMember (tm_cpp root) (member_name k))))"

definition payload_align_expr :: "model \<Rightarrow> type_meta \<Rightarrow> (diag, cexpr) res" where
  "payload_align_expr m root = and_then (first_payload root) (\<lambda>p. field_align_expr m root (hd (pm_path p)))"

definition variant_payload :: "model \<Rightarrow> type_meta list \<Rightarrow> string \<Rightarrow> string \<Rightarrow> bool \<Rightarrow> (diag, cexpr) res" where
  "variant_payload m md s v align = and_then (tagged_parts m s) (\<lambda>(tag, vs).
     and_then (unwrap (find (\<lambda>x. tv_name x = v) vs)) (\<lambda>x. case tv_payload x of
       None \<Rightarrow> Ok (CNum 1)
     | Some p \<Rightarrow> and_then (md_ty md p) (\<lambda>t. Ok (if align then tm_align t else tm_size t))))"

fun encoding_number :: "cstring_kind \<Rightarrow> nat" where
  "encoding_number Utf8 = 1" | "encoding_number CBytes = 2" | "encoding_number U16Kind = 3" | "encoding_number U16C = 4"

definition optional_path :: "type_meta list \<Rightarrow> string \<Rightarrow> string \<Rightarrow> (diag, path_meta) res" where
  "optional_path md s n = and_then (md_path md s [n]) (\<lambda>p. if pm_optional p then Ok p else Panic)"

fun metric_expr :: "model \<Rightarrow> type_meta list \<Rightarrow> type_meta \<Rightarrow> metric \<Rightarrow> (diag, cexpr) res" where
  "metric_expr m md root RootSize = Ok (tm_size root)"
| "metric_expr m md root RootStride = Ok (tm_size root)"
| "metric_expr m md root RootAlign = Ok (tm_align root)"
| "metric_expr m md root (FieldOffset n) = and_then (md_path md (tm_schema root) [n]) (\<lambda>p. Ok (pm_offset p))"
| "metric_expr m md root (FieldSize n) = and_then (md_path md (tm_schema root) [n]) (\<lambda>p. Ok (pm_width p))"
| "metric_expr m md root (FieldAlign n) = field_align_expr m root n"
| "metric_expr m md root (ArrayLength n) = and_then (cfield_of m (tm_schema root) n) (\<lambda>f.
     case cf_ty f of CArray e len \<Rightarrow> Ok (CNum len) | _ \<Rightarrow> Panic)"
| "metric_expr m md root (ArrayStride n) = and_then (md_path md (tm_schema root) [n]) (\<lambda>p. unwrap (pm_array_stride p))"
| "metric_expr m md root (OptionalSpan n) = and_then (md_path md (tm_schema root) [n]) (\<lambda>p. Ok (pm_width p))"
| "metric_expr m md root (OptionalIsOptional n) =
     and_then (md_path md (tm_schema root) [n]) (\<lambda>p. Ok (CNum (if pm_optional p then 1 else 0)))"
| "metric_expr m md root (OptionalArrayLength n) =
     and_then (optional_path md (tm_schema root) n) (\<lambda>p. and_then (unwrap (pm_array_length p)) (\<lambda>len. Ok (CNum len)))"
| "metric_expr m md root (OptionalArrayStride n) =
     and_then (optional_path md (tm_schema root) n) (\<lambda>p. unwrap (pm_array_stride p))"
| "metric_expr m md root (EnumSize n) = and_then (enum_field m (tm_schema root) n) (\<lambda>e. and_then (md_ty md e) (\<lambda>t. Ok (tm_size t)))"
| "metric_expr m md root (EnumAlign n) = and_then (enum_field m (tm_schema root) n) (\<lambda>e. and_then (md_ty md e) (\<lambda>t. Ok (tm_align t)))"
| "metric_expr m md root (EnumWidth n) =
     and_then (enum_field m (tm_schema root) n) (\<lambda>e. and_then (enum_parts m e) (\<lambda>(r, ee, vs). Ok (CNum (iw r))))"
| "metric_expr m md root (EnumEndian n) =
     and_then (enum_field m (tm_schema root) n) (\<lambda>e. and_then (enum_parts m e) (\<lambda>(r, ee, vs). Ok (CNum (en ee))))"
| "metric_expr m md root (EnumRaw n) =
     and_then (enum_field m (tm_schema root) n) (\<lambda>e. and_then (enum_parts m e) (\<lambda>(r, ee, vs).
     case vs of v # _ \<Rightarrow> Ok (CNum (cv_raw v)) | [] \<Rightarrow> Panic))"
| "metric_expr m md root (StringEncoding n) = and_then (cfield_of m (tm_schema root) n) (\<lambda>f.
     case cf_ty f of CString k \<Rightarrow> Ok (CNum (encoding_number k)) | _ \<Rightarrow> Panic)"
| "metric_expr m md root (StringCapacity n) =
     and_then (cfield_of m (tm_schema root) n) (\<lambda>f. and_then (unwrap (cf_capacity f)) (\<lambda>cap. Ok (CNum cap)))"
| "metric_expr m md root (StringUnitWidth n) = and_then (md_path md (tm_schema root) [n]) (\<lambda>p. Ok (CNum (pm_unit_width p)))"
| "metric_expr m md root (StringDataOffset n) =
     and_then (md_path md (tm_schema root) [n]) (\<lambda>p. and_then (unwrap (pm_data_offset p)) (\<lambda>d. Ok (CDifference d (pm_offset p))))"
| "metric_expr m md root (StringLengthWidth n) =
     and_then (cfield_of m (tm_schema root) n) (\<lambda>f. Ok (CNum (case cf_len f of Some x \<Rightarrow> iw (fst x) | None \<Rightarrow> 0)))"
| "metric_expr m md root (StringLengthEndian n) =
     and_then (cfield_of m (tm_schema root) n) (\<lambda>f. Ok (CNum (case cf_len f of Some x \<Rightarrow> en (snd x) | None \<Rightarrow> 0)))"
| "metric_expr m md root (StringLengthOffset n) = Ok (CNum 0)"
| "metric_expr m md root TagOffset = and_then (tagged_context m (tm_schema root)) (\<lambda>(t, tag_field).
     and_then (md_path md (tm_schema root) [tag_field]) (\<lambda>p. Ok (pm_offset p)))"
| "metric_expr m md root PayloadOffset = and_then (first_payload root) (\<lambda>p. Ok (pm_offset p))"
| "metric_expr m md root PayloadSize = and_then (first_payload root) (\<lambda>p. Ok (pm_width p))"
| "metric_expr m md root PayloadAlign = payload_align_expr m root"
| "metric_expr m md root TagSize = and_then (tagged_context m (tm_schema root)) (\<lambda>(t, tag_field).
     and_then (md_path md (tm_schema root) [tag_field]) (\<lambda>p. Ok (pm_width p)))"
| "metric_expr m md root TagAlign = and_then (tagged_context m (tm_schema root)) (\<lambda>(t, tag_field).
     and_then (field_index m (tm_schema root) tag_field) (\<lambda>k. Ok (CAlignofMember (tm_cpp root) (member_name k))))"
| "metric_expr m md root TagEndian = and_then (tagged_context m (tm_schema root)) (\<lambda>(tagged, f).
     and_then (tagged_parts m tagged) (\<lambda>(tag, vs). and_then (enum_parts m tag) (\<lambda>(r, e, xs). Ok (CNum (en e)))))"
| "metric_expr m md root (VariantRaw v) = and_then (tagged_context m (tm_schema root)) (\<lambda>(tagged, f).
     and_then (tagged_parts m tagged) (\<lambda>(tag, vs). and_then (enum_parts m tag) (\<lambda>(r, e, xs).
     and_then (unwrap (find (\<lambda>x. cv_name x = v) xs)) (\<lambda>x. Ok (CNum (cv_raw x))))))"
| "metric_expr m md root (VariantPayloadSize v) =
     and_then (tagged_context m (tm_schema root)) (\<lambda>(tagged, f). variant_payload m md tagged v False)"
| "metric_expr m md root (VariantPayloadAlign v) =
     and_then (tagged_context m (tm_schema root)) (\<lambda>(tagged, f). variant_payload m md tagged v True)"

text \<open>One arm per case: the pairs it appends, in order.\<close>

fun metric_arm :: "model \<Rightarrow> type_meta list \<Rightarrow> type_meta \<Rightarrow> metric_entry list \<Rightarrow> (diag, (nat \<times> cexpr) list) res" where
  "metric_arm m md root [] = Ok []"
| "metric_arm m md root (e # es) = and_then (metric_expr m md root (me_metric e)) (\<lambda>v.
     and_then (metric_arm m md root es) (\<lambda>vs. Ok ((me_key e, v) # vs)))"

record layout_output =
  lo_declarations :: "cdecl list"
  lo_assertions :: "cassert list"
  lo_case_arms :: "(nat \<times> (nat \<times> cexpr) list) list"
  lo_metadata :: "type_meta list"

definition emit_cpp :: "model \<Rightarrow> (diag, layout_output) res" where
  "emit_cpp m =
     and_then (try_fold (gen_schema m) \<lparr>g_helpers = 0, g_decl = [], g_asserts = [], g_metas = []\<rparr> (map cs_name (md_schemas m))) (\<lambda>g.
     let metadata = map (\<lambda>tm. tm\<lparr>tm_paths := tm_paths tm @ nested_paths m (g_metas g) tm\<rparr>) (g_metas g) in
     and_then (try_fold (\<lambda>arms c. and_then (md_ty metadata (ca_root c)) (\<lambda>root.
         and_then (metric_arm m metadata root (ca_layout c)) (\<lambda>arm. Ok (arms @ [(ca_id c, arm)])))) [] (md_cases m)) (\<lambda>arms.
     Ok \<lparr>lo_declarations = g_decl g, lo_assertions = g_asserts g, lo_case_arms = arms, lo_metadata = metadata\<rparr>))"

end
