(* ===== verification/Zs_Cpp_Layout.thy ===== *)
theory Zs_Cpp_Layout
  imports Zs_Cpp Zs_Layout
begin

text \<open>
  What a C++ compiler for the target computes from the generated declarations: scopes, the layout of a class, the value of
  a constant expression and of an assertion, and that a declaration keeps its meaning in every later scope.
  The rules are those of C++ for the classes the generator writes: standard-layout structs and unions placed as in C,
  \<open>alignas\<close> that may not weaken an alignment, arrays that may not be empty, and names declared before they are used.
\<close>

section \<open>The compiler\<close>

text \<open>A member of a class: its offset, its type and its length if it is an array.\<close>

record cpp_type =
  ct_layout :: wlayout
  ct_members :: "(string \<times> nat \<times> string \<times> nat option) list"

type_synonym cpp_scope = "(string \<times> cpp_type) list"

definition builtin_types :: "env \<Rightarrow> (string \<times> wlayout) list" where
  "builtin_types E =
     [(''std::uint8_t'', prim_layout E U8), (''std::int8_t'', prim_layout E I8), (''std::uint16_t'', prim_layout E U16),
      (''std::int16_t'', prim_layout E I16), (''std::uint32_t'', prim_layout E U32), (''std::int32_t'', prim_layout E I32),
      (''std::uint64_t'', prim_layout E U64), (''std::int64_t'', prim_layout E I64), (''float'', prim_layout E F32),
      (''double'', prim_layout E F64)]"

definition cpp_lookup :: "env \<Rightarrow> cpp_scope \<Rightarrow> string \<Rightarrow> cpp_type option" where
  "cpp_lookup E sc n = (case map_of sc n of Some t \<Rightarrow> Some t
     | None \<Rightarrow> map_option (\<lambda>l. \<lparr>ct_layout = l, ct_members = []\<rparr>) (map_of (builtin_types E) n))"

definition cpp_layout :: "env \<Rightarrow> cpp_scope \<Rightarrow> string \<Rightarrow> wlayout option" where
  "cpp_layout E sc n = map_option ct_layout (cpp_lookup E sc n)"

definition cpp_member :: "env \<Rightarrow> cpp_scope \<Rightarrow> string \<Rightarrow> string \<Rightarrow> (nat \<times> string \<times> nat option) option" where
  "cpp_member E sc t n = Option.bind (cpp_lookup E sc t) (\<lambda>c. map_of (ct_members c) n)"

text \<open>Sizes and offsets are \<open>std::size_t\<close>, whose arithmetic wraps.\<close>

fun cpp_eval :: "env \<Rightarrow> cpp_scope \<Rightarrow> cexpr \<Rightarrow> nat option" where
  "cpp_eval E sc (CNum n) = Some n"
| "cpp_eval E sc (CSizeof t) = map_option wl_size (cpp_layout E sc t)"
| "cpp_eval E sc (CAlignof t) = map_option wl_align (cpp_layout E sc t)"
| "cpp_eval E sc (COffsetof t n) = map_option fst (cpp_member E sc t n)"
| "cpp_eval E sc (CSizeofElement t) = (case cpp_member E sc t ''m0'' of
     Some (off, u, Some len) \<Rightarrow> map_option wl_size (cpp_layout E sc u) | _ \<Rightarrow> None)"
| "cpp_eval E sc (CAlignofMember t n) = (case cpp_member E sc t n of
     Some (off, u, len) \<Rightarrow> map_option wl_align (cpp_layout E sc u) | None \<Rightarrow> None)"
| "cpp_eval E sc (CSum a b) = Option.bind (cpp_eval E sc a) (\<lambda>x. map_option (\<lambda>y. (x + y) mod usize_limit E) (cpp_eval E sc b))"
| "cpp_eval E sc (CDifference a b) =
     Option.bind (cpp_eval E sc a) (\<lambda>x. map_option (\<lambda>y. (x + (usize_limit E - y)) mod usize_limit E) (cpp_eval E sc b))"
| "cpp_eval E sc (CMaximum a b) = Option.bind (cpp_eval E sc a) (\<lambda>x. map_option (\<lambda>y. if x > y then x else y) (cpp_eval E sc b))"

fun member_layout :: "env \<Rightarrow> cpp_scope \<Rightarrow> cmember \<Rightarrow> wlayout option" where
  "member_layout E sc (t, n, None) = cpp_layout E sc t"
| "member_layout E sc (t, n, Some len) = (if len = 0 then None else map_option (array_layout len) (cpp_layout E sc t))"

text \<open>An \<open>alignas\<close> that is no power of two or weaker than the members is ill-formed.\<close>

definition with_alignas :: "env \<Rightarrow> cpp_scope \<Rightarrow> cexpr option \<Rightarrow> wlayout \<Rightarrow> wlayout option" where
  "with_alignas E sc al w = (case al of
     None \<Rightarrow> Some w
   | Some e \<Rightarrow> Option.bind (cpp_eval E sc e) (\<lambda>a.
       if is_power_of_two a \<and> wl_align w \<le> a then Some \<lparr>wl_size = round_up (wl_size w) a, wl_align = a\<rparr> else None))"

text \<open>A class without members has size one.\<close>

definition class_layout :: "(wlayout list \<Rightarrow> wlayout) \<Rightarrow> wlayout list \<Rightarrow> wlayout" where
  "class_layout repr ls = (if ls = [] then \<lparr>wl_size = 1, wl_align = 1\<rparr> else repr ls)"

definition struct_type :: "env \<Rightarrow> cpp_scope \<Rightarrow> cexpr option \<Rightarrow> cmember list \<Rightarrow> cpp_type option" where
  "struct_type E sc al ms = (if \<not> distinct (map (fst \<circ> snd) ms) then None else
     Option.bind (those (map (member_layout E sc) ms)) (\<lambda>ls.
     map_option (\<lambda>w. \<lparr>ct_layout = w, ct_members = map2 (\<lambda>(t, n, len) off. (n, off, t, len)) ms (place 0 ls)\<rparr>)
       (with_alignas E sc al (class_layout repr_c ls))))"

fun union_member_name :: "union_member \<Rightarrow> string" where
  "union_member_name (PayloadMember t n) = n" | "union_member_name (UnitMember u n) = n"

fun union_member_layout :: "env \<Rightarrow> cpp_scope \<Rightarrow> union_member \<Rightarrow> wlayout option" where
  "union_member_layout E sc (PayloadMember t n) = cpp_layout E sc t"
| "union_member_layout E sc (UnitMember u n) = map_option (\<lambda>l. repr_c [l]) (cpp_layout E sc ''std::uint8_t'')"

fun union_member_type :: "union_member \<Rightarrow> string" where
  "union_member_type (PayloadMember t n) = t" | "union_member_type (UnitMember u n) = u"

definition union_type :: "env \<Rightarrow> cpp_scope \<Rightarrow> cexpr option \<Rightarrow> union_member list \<Rightarrow> cpp_type option" where
  "union_type E sc al us = (if \<not> distinct (map union_member_name us) then None else
     Option.bind (those (map (union_member_layout E sc) us)) (\<lambda>ls.
     map_option (\<lambda>w. \<lparr>ct_layout = w, ct_members = map (\<lambda>u. (union_member_name u, 0, union_member_type u, None)) us\<rparr>)
       (with_alignas E sc al (class_layout repr_c_union ls))))"

fun decl_name :: "cdecl \<Rightarrow> string" where
  "decl_name (StructDecl al n ms) = n" | "decl_name (UsingDecl n t) = n" | "decl_name (UnionDecl al n us) = n"

fun decl_type :: "env \<Rightarrow> cpp_scope \<Rightarrow> cdecl \<Rightarrow> cpp_type option" where
  "decl_type E sc (StructDecl al n ms) = struct_type E sc al ms"
| "decl_type E sc (UsingDecl n t) = cpp_lookup E sc t"
| "decl_type E sc (UnionDecl al n us) = union_type E sc al us"

text \<open>A declaration is refused when its name is taken, its type is ill-formed or no object of the type could be addressed.\<close>

definition compile_decl :: "env \<Rightarrow> cpp_scope \<Rightarrow> cdecl \<Rightarrow> cpp_scope option" where
  "compile_decl E sc d = (if cpp_lookup E sc (decl_name d) \<noteq> None then None else
     Option.bind (decl_type E sc d) (\<lambda>t. if wl_size (ct_layout t) < usize_limit E then Some ((decl_name d, t) # sc) else None))"

fun compile_decls :: "env \<Rightarrow> cpp_scope \<Rightarrow> cdecl list \<Rightarrow> cpp_scope option" where
  "compile_decls E sc [] = Some sc"
| "compile_decls E sc (d # ds) = Option.bind (compile_decl E sc d) (\<lambda>sc'. compile_decls E sc' ds)"

text \<open>The classes of this grammar are all standard layout and trivially copyable.\<close>

fun assert_holds :: "env \<Rightarrow> cpp_scope \<Rightarrow> cassert \<Rightarrow> bool" where
  "assert_holds E sc (SizeIs t n) \<longleftrightarrow> cpp_eval E sc (CSizeof t) = Some n"
| "assert_holds E sc (AlignIs t e) \<longleftrightarrow> cpp_eval E sc (CAlignof t) \<noteq> None \<and> cpp_eval E sc (CAlignof t) = cpp_eval E sc e"
| "assert_holds E sc (SizeIsAligned t) \<longleftrightarrow> (case cpp_layout E sc t of Some l \<Rightarrow> wl_size l mod wl_align l = 0 | None \<Rightarrow> False)"
| "assert_holds E sc (OffsetIsZero t n) \<longleftrightarrow> cpp_eval E sc (COffsetof t n) = Some 0"
| "assert_holds E sc (OffsetAfter t n u) \<longleftrightarrow> (case (cpp_eval E sc (COffsetof t n), cpp_eval E sc (CSizeof u)) of
     (Some off, Some sz) \<Rightarrow> sz \<le> off | _ \<Rightarrow> False)"
| "assert_holds E sc (OffsetInside t n) \<longleftrightarrow> (case (cpp_eval E sc (COffsetof t n), cpp_eval E sc (CSizeof t)) of
     (Some off, Some sz) \<Rightarrow> off < sz | _ \<Rightarrow> False)"
| "assert_holds E sc (MemberIs t n u) \<longleftrightarrow> (case cpp_member E sc t n of Some (off, v, len) \<Rightarrow> v = u \<and> len = None | None \<Rightarrow> False)"
| "assert_holds E sc (MemberSizeIs t n u) \<longleftrightarrow> (case cpp_member E sc t n of
     Some (off, v, len) \<Rightarrow> (case (cpp_layout E sc v, cpp_layout E sc u) of (Some k, Some l) \<Rightarrow> wl_size k = wl_size l | _ \<Rightarrow> False) | None \<Rightarrow> False)"
| "assert_holds E sc (MemberAlignIs t n u) \<longleftrightarrow> (case cpp_member E sc t n of
     Some (off, v, len) \<Rightarrow> (case (cpp_layout E sc v, cpp_layout E sc u) of (Some k, Some l) \<Rightarrow> wl_align k = wl_align l | _ \<Rightarrow> False) | None \<Rightarrow> False)"
| "assert_holds E sc (SizeIsPositive t) \<longleftrightarrow> (case cpp_layout E sc t of Some l \<Rightarrow> 0 < wl_size l | None \<Rightarrow> False)"
| "assert_holds E sc (PlainData t) \<longleftrightarrow> cpp_lookup E sc t \<noteq> None"

section \<open>Declarations keep their meaning\<close>

definition extends :: "env \<Rightarrow> cpp_scope \<Rightarrow> cpp_scope \<Rightarrow> bool" where
  "extends E sc sc' \<longleftrightarrow> (\<forall>n t. cpp_lookup E sc n = Some t \<longrightarrow> cpp_lookup E sc' n = Some t)"

lemma extends_refl [simp]: "extends E sc sc"
  by (simp add: extends_def)

lemma extends_trans: "extends E a b \<Longrightarrow> extends E b c \<Longrightarrow> extends E a c"
  by (simp add: extends_def)

lemma compile_decl_extends: "compile_decl E sc d = Some sc' \<Longrightarrow> extends E sc sc'"
  by (auto simp: compile_decl_def extends_def cpp_lookup_def bind_eq_Some_conv split: if_splits option.splits)

lemma compile_decls_extends: "compile_decls E sc ds = Some sc' \<Longrightarrow> extends E sc sc'"
  by (induction ds arbitrary: sc) (auto simp: bind_eq_Some_conv intro: extends_trans compile_decl_extends)

lemma cpp_layout_mono: "extends E sc sc' \<Longrightarrow> cpp_layout E sc n = Some l \<Longrightarrow> cpp_layout E sc' n = Some l"
  by (auto simp: cpp_layout_def extends_def)

lemma cpp_member_mono: "extends E sc sc' \<Longrightarrow> cpp_member E sc t n = Some x \<Longrightarrow> cpp_member E sc' t n = Some x"
  by (auto simp: cpp_member_def extends_def bind_eq_Some_conv)

lemma cpp_eval_mono: "extends E sc sc' \<Longrightarrow> cpp_eval E sc e = Some v \<Longrightarrow> cpp_eval E sc' e = Some v"
proof (induction e arbitrary: v)
  case (CSizeof t)
  then show ?case using cpp_layout_mono by auto
next
  case (CAlignof t)
  then show ?case using cpp_layout_mono by auto
next
  case (COffsetof t n)
  then show ?case using cpp_member_mono by fastforce
next
  case (CSizeofElement t)
  then obtain off u len l where h: "cpp_member E sc t ''m0'' = Some (off, u, Some len)" "cpp_layout E sc u = Some l" "v = wl_size l"
    by (auto split: option.splits)
  show ?case using cpp_member_mono [OF CSizeofElement.prems(1) h(1)] cpp_layout_mono [OF CSizeofElement.prems(1) h(2)] h(3) by simp
next
  case (CAlignofMember t n)
  then obtain off u len l where h: "cpp_member E sc t n = Some (off, u, len)" "cpp_layout E sc u = Some l" "v = wl_align l"
    by (auto split: option.splits)
  show ?case using cpp_member_mono [OF CAlignofMember.prems(1) h(1)] cpp_layout_mono [OF CAlignofMember.prems(1) h(2)] h(3) by simp
qed (auto simp: bind_eq_Some_conv)

lemma those_Some_iff: "those xs = Some ys \<longleftrightarrow> xs = map Some ys"
  by (induction xs arbitrary: ys) (auto split: option.splits)

lemma those_map_iff: "those (map f xs) = Some ys \<longleftrightarrow> length ys = length xs \<and> (\<forall>i < length xs. f (xs ! i) = Some (ys ! i))"
  by (auto simp: those_Some_iff list_eq_iff_nth_eq)

lemma member_layout_mono: "extends E sc sc' \<Longrightarrow> member_layout E sc m = Some l \<Longrightarrow> member_layout E sc' m = Some l"
  by (cases "(E, sc, m)" rule: member_layout.cases) (auto split: if_splits dest: cpp_layout_mono)

lemma union_member_layout_mono:
  "extends E sc sc' \<Longrightarrow> union_member_layout E sc u = Some l \<Longrightarrow> union_member_layout E sc' u = Some l"
  by (cases u) (auto dest: cpp_layout_mono)

lemma with_alignas_mono: "extends E sc sc' \<Longrightarrow> with_alignas E sc al w = Some l \<Longrightarrow> with_alignas E sc' al w = Some l"
  by (auto simp: with_alignas_def bind_eq_Some_conv split: option.splits if_splits dest: cpp_eval_mono)

lemma those_map_mono:
  "(\<And>x y. x \<in> set xs \<Longrightarrow> f x = Some y \<Longrightarrow> g x = Some y) \<Longrightarrow> those (map f xs) = Some ys \<Longrightarrow> those (map g xs) = Some ys"
  by (auto simp: those_map_iff)

lemma struct_type_mono:
  assumes "extends E sc sc'" "struct_type E sc al ms = Some t"
  shows "struct_type E sc' al ms = Some t"
proof -
  obtain ls w where h: "distinct (map (fst \<circ> snd) ms)" "those (map (member_layout E sc) ms) = Some ls"
      "with_alignas E sc al (class_layout repr_c ls) = Some w"
      "t = \<lparr>ct_layout = w, ct_members = map2 (\<lambda>(t, n, len) off. (n, off, t, len)) ms (place 0 ls)\<rparr>"
    using assms(2) by (auto simp: struct_type_def bind_eq_Some_conv split: if_splits)
  have "those (map (member_layout E sc') ms) = Some ls" using member_layout_mono [OF assms(1)] h(2) by (rule those_map_mono)
  then show ?thesis using h with_alignas_mono [OF assms(1) h(3)] by (simp add: struct_type_def)
qed

lemma union_type_mono:
  assumes "extends E sc sc'" "union_type E sc al us = Some t"
  shows "union_type E sc' al us = Some t"
proof -
  obtain ls w where h: "distinct (map union_member_name us)" "those (map (union_member_layout E sc) us) = Some ls"
      "with_alignas E sc al (class_layout repr_c_union ls) = Some w"
      "t = \<lparr>ct_layout = w, ct_members = map (\<lambda>u. (union_member_name u, 0, union_member_type u, None)) us\<rparr>"
    using assms(2) by (auto simp: union_type_def bind_eq_Some_conv split: if_splits)
  have "those (map (union_member_layout E sc') us) = Some ls" using union_member_layout_mono [OF assms(1)] h(2) by (rule those_map_mono)
  then show ?thesis using h with_alignas_mono [OF assms(1) h(3)] by (simp add: union_type_def)
qed

lemma decl_type_mono: "extends E sc sc' \<Longrightarrow> decl_type E sc d = Some t \<Longrightarrow> decl_type E sc' d = Some t"
  by (cases d) (auto intro: struct_type_mono union_type_mono simp: extends_def)

text \<open>In the scope after all declarations, every one of them names its type.\<close>

definition cpp_declared :: "env \<Rightarrow> cpp_scope \<Rightarrow> cdecl \<Rightarrow> bool" where
  "cpp_declared E sc d \<longleftrightarrow> (\<exists>t. decl_type E sc d = Some t \<and> cpp_lookup E sc (decl_name d) = Some t \<and> wl_size (ct_layout t) < usize_limit E)"

lemma compile_decls_declared:
  "compile_decls E sc ds = Some sc' \<Longrightarrow> d \<in> set ds \<Longrightarrow> cpp_declared E sc' d"
proof (induction ds arbitrary: sc)
  case (Cons e ds)
  then obtain sc1 where sc1: "compile_decl E sc e = Some sc1" "compile_decls E sc1 ds = Some sc'"
    by (auto simp: bind_eq_Some_conv)
  show ?case
  proof (cases "d \<in> set ds")
    case True
    then show ?thesis using Cons.IH sc1(2) by blast
  next
    case False
    then have d: "d = e" using Cons.prems(2) by simp
    have ext: "extends E sc sc'" "extends E sc1 sc'"
      using compile_decls_extends [OF sc1(2)] compile_decl_extends [OF sc1(1)] by (auto intro: extends_trans)
    obtain t where t: "decl_type E sc e = Some t" "wl_size (ct_layout t) < usize_limit E" "sc1 = (decl_name e, t) # sc"
      using sc1(1) by (auto simp: compile_decl_def bind_eq_Some_conv split: if_splits)
    have "cpp_lookup E sc1 (decl_name e) = Some t" by (simp add: t(3) cpp_lookup_def)
    then show ?thesis using ext t d decl_type_mono [OF ext(1) t(1)] by (auto simp: cpp_declared_def extends_def)
  qed
qed simp

end
