(* ===== verification/Zs_Cpp_Agree.thy ===== *)
theory Zs_Cpp_Agree
  imports Zs_Cpp_Layout
begin

text \<open>
  The generated C++ and the generated Rust lay the same schemas out: for every schema of the model, the class declared for
  it has the size and alignment of the wire the macro emits, and its members the offsets of the record's fields.
\<close>

section \<open>Class layouts and wires\<close>

lemma round_up_least: "0 < a \<Longrightarrow> a dvd y \<Longrightarrow> x \<le> y \<Longrightarrow> round_up x a \<le> y"
proof -
  assume a: "0 < a" "a dvd y" "x \<le> y"
  have "(x + a - 1) div a \<le> (y + a - 1) div a" using a(3) by (simp add: div_le_mono)
  then show "round_up x a \<le> y" using round_up_id [OF a(1,2)] by (metis mult_le_mono1 round_up_def)
qed

lemma round_up_twice: "0 < n \<Longrightarrow> 0 < m \<Longrightarrow> n dvd m \<Longrightarrow> round_up (round_up x n) m = round_up x m"
proof (rule antisym)
  assume h: "0 < n" "0 < m" "n dvd m"
  have "n dvd round_up x m" using h(3) round_up_dvd by (rule dvd_trans)
  from round_up_least [OF h(1) this round_up_ge [OF h(2)]] have "round_up x n \<le> round_up x m" .
  with h(2) round_up_dvd show "round_up (round_up x n) m \<le> round_up x m" by (rule round_up_least)
  have "x \<le> round_up (round_up x n) m" using round_up_ge [OF h(1), of x] round_up_ge [OF h(2), of "round_up x n"] by simp
  with h(2) round_up_dvd show "round_up x m \<le> round_up (round_up x n) m" by (rule round_up_least)
qed

lemma wlayout_eqI: "wl_size a = wl_size b \<Longrightarrow> wl_align a = wl_align b \<Longrightarrow> a = (b :: wlayout)"
  by simp

lemma max_Suc_0: "0 < n \<Longrightarrow> max n (Suc 0) = n"
  by simp

lemma repr_c_single: "wf_layout l \<Longrightarrow> repr_c [l] = l"
  by (rule wlayout_eqI) (auto simp: repr_c_def max_Suc_0 wf_layout_def)

lemma aligned_layout_eq:
  assumes "wf_layout w" "a = 2 ^ k"
  shows "aligned_layout w a = \<lparr>wl_size = round_up (wl_size w) (max a (wl_align w)), wl_align = max a (wl_align w)\<rparr>"
proof -
  have pos: "0 < a" "0 < wl_align w" using assms by simp_all
  then show ?thesis
    by (simp add: aligned_layout_def aligned_members_def repr_c_def align_marker_def array_layout_def max_Suc_0)
qed

lemma with_alignas_Some:
  assumes "with_alignas E sc (Some e) w = Some l"
  obtains a k where "cpp_eval E sc e = Some a" "a = 2 ^ k" "k < 32" "wl_align w \<le> a" "l = \<lparr>wl_size = round_up (wl_size w) a, wl_align = a\<rparr>"
  using assms by (auto simp: with_alignas_def bind_eq_Some_conv is_power_of_two_def list_ex_iff split: if_splits)

text \<open>An \<open>alignas\<close> that the compiler accepts gives the layout of the macro's alignment wrapper.\<close>

lemma alignas_storage:
  assumes "with_alignas E sc (map_option CNum a) w = Some l" "wf_layout w"
  shows "l = storage_wire w a"
proof (cases a)
  case None
  then show ?thesis using assms(1) by (simp add: with_alignas_def)
next
  case (Some n)
  with assms(1) have "with_alignas E sc (Some (CNum n)) w = Some l" by simp
  obtain b k where b: "cpp_eval E sc (CNum n) = Some b" "b = 2 ^ k" "wl_align w \<le> b"
      "l = \<lparr>wl_size = round_up (wl_size w) b, wl_align = b\<rparr>"
    using with_alignas_Some [OF \<open>with_alignas E sc (Some (CNum n)) w = Some l\<close>] by metis
  then have "n = 2 ^ k" "max n (wl_align w) = n" by simp_all
  then show ?thesis using aligned_layout_eq [OF assms(2), of n k] Some b by simp
qed

lemma alignas_maximum:
  assumes "with_alignas E sc (Some (CMaximum (CNum a) (CAlignof t))) w = Some l" "cpp_layout E sc t = Some w" "wf_layout w" "a = 2 ^ k"
  shows "l = aligned_layout w a"
proof -
  obtain b where b: "cpp_eval E sc (CMaximum (CNum a) (CAlignof t)) = Some b" "l = \<lparr>wl_size = round_up (wl_size w) b, wl_align = b\<rparr>"
    using with_alignas_Some [OF assms(1)] by metis
  have "b = max a (wl_align w)" using b(1) assms(2) by (simp add: max_def split: if_splits)
  then show ?thesis using b(2) aligned_layout_eq [OF assms(3,4)] by simp
qed

section \<open>The header\<close>

text \<open>
  The two targets agree on the sizes of the built-in types, which is what \<open>repr(C)\<close> promises, and align scalars of the same
  width alike: the generator takes the unsigned type for every scalar of an explicit byte order.
\<close>

definition uniform_align :: "env \<Rightarrow> bool" where
  "uniform_align E \<longleftrightarrow> (\<forall>p q. prim_size p = prim_size q \<longrightarrow> prim_align E p = prim_align E q)"

definition cpp_header :: "env \<Rightarrow> cpp_scope \<Rightarrow> cdecl set \<Rightarrow> bool" where
  "cpp_header E sc D \<longleftrightarrow> env_ok E \<and> uniform_align E \<and> extends E [] sc \<and> (\<forall>d \<in> D. cpp_declared E sc d)"

lemma header_of_compile:
  "env_ok E \<Longrightarrow> uniform_align E \<Longrightarrow> compile_decls E [] ds = Some sc \<Longrightarrow> cpp_header E sc (set ds)"
  by (auto simp: cpp_header_def intro: compile_decls_extends compile_decls_declared)

lemma headerD: "cpp_header E sc D \<Longrightarrow> env_ok E" "cpp_header E sc D \<Longrightarrow> uniform_align E"
  "cpp_header E sc D \<Longrightarrow> extends E [] sc" "cpp_header E sc D \<Longrightarrow> d \<in> D \<Longrightarrow> cpp_declared E sc d"
  by (simp_all add: cpp_header_def)

lemma cpp_primitive_width: "cpp_primitive p = (t, w) \<Longrightarrow> w = prim_size p"
  by (cases p) auto

lemma builtin_empty: "cpp_layout E [] (fst (cpp_primitive p)) = Some (prim_layout E p)"
  by (cases p) (simp_all add: cpp_layout_def cpp_lookup_def builtin_types_def)

lemma builtin_layout: "cpp_header E sc D \<Longrightarrow> cpp_primitive p = (t, w) \<Longrightarrow> cpp_layout E sc t = Some (prim_layout E p)"
  using cpp_layout_mono [OF headerD(3) builtin_empty, of E sc D p] by simp

lemma byte_layout: "cpp_header E sc D \<Longrightarrow> cpp_layout E sc ''std::uint8_t'' = Some (prim_layout E U8)"
  by (rule builtin_layout [where p = U8]) simp_all

lemma u16_layout: "cpp_header E sc D \<Longrightarrow> cpp_layout E sc ''std::uint16_t'' = Some (prim_layout E U16)"
  by (rule builtin_layout [where p = U16]) simp_all

lemma raw_primitive_unsigned: "raw_primitive (prim_size p) = Ok t \<Longrightarrow> \<exists>q. cpp_primitive q = (t, prim_size p)"
proof -
  assume t: "raw_primitive (prim_size p) = Ok t"
  have "prim_size p \<in> {1, 2, 4, 8}" by (cases p) simp_all
  then consider "t = fst (cpp_primitive U8)" "prim_size p = 1" | "t = fst (cpp_primitive U16)" "prim_size p = 2"
    | "t = fst (cpp_primitive U32)" "prim_size p = 4" | "t = fst (cpp_primitive U64)" "prim_size p = 8"
    using t by (auto simp: raw_primitive_def)
  then show "\<exists>q. cpp_primitive q = (t, prim_size p)" by cases (metis cpp_primitive.simps fst_conv)+
qed

lemma raw_primitive_layout:
  assumes "cpp_header E sc D" "raw_primitive (prim_size p) = Ok t"
  shows "cpp_layout E sc t = Some (prim_layout E p)"
proof -
  obtain q where q: "cpp_primitive q = (t, prim_size p)" using raw_primitive_unsigned [OF assms(2)] by blast
  then have "prim_size p = prim_size q" by (rule cpp_primitive_width)
  then have "prim_layout E q = prim_layout E p"
    using headerD(2) [OF assms(1), unfolded uniform_align_def, rule_format, of p q] by (simp add: prim_layout_def)
  then show ?thesis using builtin_layout [OF assms(1) q] by simp
qed

lemma byte_align [simp]: "env_ok E \<Longrightarrow> prim_size p = 1 \<Longrightarrow> prim_align E p = 1"
  using env_prim_align_dvd [of E p] by simp

lemma prim_byte_layout [simp]: "env_ok E \<Longrightarrow> prim_layout E U8 = bytes_layout 1"
  by (simp add: prim_layout_def bytes_layout_def)

lemma array_bytes [simp]: "array_layout n (bytes_layout (Suc 0)) = bytes_layout n"
  by (simp add: array_layout_def bytes_layout_def)

text \<open>A struct of one member and no \<open>alignas\<close> has the layout of the member.\<close>

lemma declared_struct:
  assumes "cpp_header E sc D" "StructDecl al n ms \<in> D"
  obtains ls w where "distinct (map (fst \<circ> snd) ms)" "map (member_layout E sc) ms = map Some ls"
    "with_alignas E sc al (class_layout repr_c ls) = Some w" "cpp_layout E sc n = Some w" "wl_size w < usize_limit E"
    "cpp_member E sc n = map_of (map2 (\<lambda>(t, n, len) off. (n, off, t, len)) ms (place 0 ls))"
proof -
  obtain t where t: "struct_type E sc al ms = Some t" "cpp_lookup E sc n = Some t" "wl_size (ct_layout t) < usize_limit E"
    using headerD(4) [OF assms] by (auto simp: cpp_declared_def)
  then obtain ls w where ls: "distinct (map (fst \<circ> snd) ms)" "those (map (member_layout E sc) ms) = Some ls"
      "with_alignas E sc al (class_layout repr_c ls) = Some w"
      "t = \<lparr>ct_layout = w, ct_members = map2 (\<lambda>(t, n, len) off. (n, off, t, len)) ms (place 0 ls)\<rparr>"
    by (auto simp: struct_type_def bind_eq_Some_conv split: if_splits)
  show ?thesis
    by (rule that [of ls w]) (use t ls in \<open>simp_all add: those_Some_iff cpp_layout_def cpp_member_def fun_eq_iff\<close>)
qed

lemma declared_box:
  assumes "cpp_header E sc D" "StructDecl None n [(t, ''m0'', Some len)] \<in> D" "cpp_layout E sc t = Some l" "wf_layout l"
  shows "cpp_layout E sc n = Some (array_layout len l)" "0 < len" "cpp_member E sc n ''m0'' = Some (0, t, Some len)"
proof -
  obtain ls w where "distinct (map (fst \<circ> snd) [(t, ''m0'', Some len)])"
    and h: "map (member_layout E sc) [(t, ''m0'', Some len)] = map Some ls"
    "with_alignas E sc None (class_layout repr_c ls) = Some w" "cpp_layout E sc n = Some w" and "wl_size w < usize_limit E"
    and member: "cpp_member E sc n = map_of (map2 (\<lambda>(t, n, len) off. (n, off, t, len)) [(t, ''m0'', Some len)] (place 0 ls))"
    by (rule declared_struct [OF assms(1,2)])
  from h(1) have ls: "ls = [array_layout len l]" "0 < len" using assms(3) by (auto split: if_splits)
  then show "cpp_layout E sc n = Some (array_layout len l)" "0 < len"
    using h(2,3) repr_c_single [of "array_layout len l"] assms(4) by (simp_all add: class_layout_def with_alignas_def)
  show "cpp_member E sc n ''m0'' = Some (0, t, Some len)" using member assms(4) by (simp add: ls Let_def array_layout_def)
qed

section \<open>The generator's output\<close>

definition grows :: "gen \<Rightarrow> gen \<Rightarrow> bool" where
  "grows g g' \<longleftrightarrow> set (g_decl g) \<subseteq> set (g_decl g') \<and> set (g_asserts g) \<subseteq> set (g_asserts g') \<and> g_metas g' = g_metas g"

lemma grows_refl [simp]: "grows g g"
  by (simp add: grows_def)

lemma grows_trans [trans]: "grows a b \<Longrightarrow> grows b c \<Longrightarrow> grows a c"
  by (auto simp: grows_def)

lemma grows_steps [intro]:
  "grows a b \<Longrightarrow> grows a (declare_cpp d b)" "grows a b \<Longrightarrow> grows a (static_assert as b)"
  by (auto simp: grows_def declare_cpp_def static_assert_def)

lemma grows_fresh [intro]: "fresh g = (n, g') \<Longrightarrow> grows g g'"
  by (auto simp: grows_def fresh_def)

lemma declare_cpp_mem [simp]:
  "g_decl (static_assert as g) = g_decl g" "g_decl (declare_cpp d g) = g_decl g @ [d]" "g_decl (push_meta n cpp ps g) = g_decl g"
  "g_asserts (static_assert as g) = g_asserts g @ as" "g_asserts (declare_cpp d g) = g_asserts g" "g_asserts (push_meta n cpp ps g) = g_asserts g"
  "g_metas (static_assert as g) = g_metas g" "g_metas (declare_cpp d g) = g_metas g"
  by (simp_all add: declare_cpp_def static_assert_def push_meta_def)

lemma fresh_sel [simp]: "fresh g = (n, g') \<Longrightarrow> g_decl g' = g_decl g" "fresh g = (n, g') \<Longrightarrow> g_asserts g' = g_asserts g"
    "fresh g = (n, g') \<Longrightarrow> g_metas g' = g_metas g"
  by (auto simp: fresh_def)

lemma raw_cases:
  assumes "raw w e g = Ok (t, g')"
  obtains "raw_primitive w = Ok t" "g' = g"
  | p g1 where "raw_primitive w = Ok p" "fresh g = (t, g1)"
      "g' = static_assert [SizeIs t w, AlignIs t (CAlignof p)] (declare_cpp (StructDecl (Some (CAlignof p)) t [(''std::uint8_t'', ''m0'', Some w)]) g1)"
  using assms by (auto simp: raw_def Let_def split: if_splits prod.splits)

lemma raw_grows: "raw w e g = Ok (t, g') \<Longrightarrow> grows g g'"
  by (erule raw_cases) (auto intro!: grows_steps intro: grows_fresh)

lemma raw_layout:
  assumes "cpp_header E sc D" "raw w e g = Ok (t, g')" "w = prim_size p" "set (g_decl g') \<subseteq> D"
  shows "cpp_layout E sc t = Some (prim_layout E p)"
  using assms(2)
proof (cases rule: raw_cases)
  case 1
  then show ?thesis using raw_primitive_layout [OF assms(1)] assms(3) by simp
next
  case (2 q g1)
  have E: "env_ok E" by (rule headerD(1) [OF assms(1)])
  have q: "cpp_layout E sc q = Some (prim_layout E p)" using raw_primitive_layout [OF assms(1)] 2(1) assms(3) by simp
  have "StructDecl (Some (CAlignof q)) t [(''std::uint8_t'', ''m0'', Some w)] \<in> D" using assms(4) 2(3) by auto
  from declared_struct [OF assms(1) this] obtain ls l where "distinct (map (fst \<circ> snd) [(''std::uint8_t'', ''m0'', Some w)])"
    and ls: "map (member_layout E sc) [(''std::uint8_t'', ''m0'', Some w)] = map Some ls"
    and l: "with_alignas E sc (Some (CAlignof q)) (class_layout repr_c ls) = Some l" "cpp_layout E sc t = Some l"
    by blast
  have "ls = [bytes_layout w]" using ls byte_layout [OF assms(1)] E by (auto split: if_splits)
  then have box: "class_layout repr_c ls = bytes_layout w" by (simp add: class_layout_def repr_c_single)
  from with_alignas_Some [OF l(1)] obtain a k where a: "cpp_eval E sc (CAlignof q) = Some a" "a = 2 ^ k"
      "l = \<lparr>wl_size = round_up (wl_size (bytes_layout w)) a, wl_align = a\<rparr>"
    unfolding box by blast
  have "a = prim_align E p" using a(1) q by (simp add: prim_layout_def)
  moreover have "prim_align E p dvd w" using env_prim_align_dvd [OF E, of p] assms(3) by simp
  moreover have "0 < a" using a(2) by simp
  ultimately have "l = prim_layout E p" using a(3) assms(3) by (simp add: bytes_layout_def prim_layout_def)
  then show ?thesis using l(2) by simp
qed

lemma iw_width: "iw r = prim_size (repr_prim r)"
  by (cases r) simp_all

section \<open>The Rust declarations\<close>

text \<open>
  What the macro emits for the same schemas: the category of each field, with the supports \<open>T\<close> of the schemas and
  \<open>P\<close> of the payloads the fields name, and the supports of the schemas themselves.
\<close>

fun rust_element :: "(string \<Rightarrow> schema_support) \<Rightarrow> endian \<Rightarrow> ctype \<Rightarrow> element option" where
  "rust_element T e (CPrimitive p) = Some (LeafElem (Primitive e p))"
| "rust_element T e CBool = Some (LeafElem Bool)"
| "rust_element T e (CSchema n) = Some (PathElem (T n))"
| "rust_element T e _ = None"

fun rust_string :: "cstring_kind \<Rightarrow> nat \<Rightarrow> scalar_repr \<times> endian \<Rightarrow> leaf" where
  "rust_string Utf8 cap (r, e) = BorrowedStr r e cap"
| "rust_string CBytes cap len = BorrowedCStr cap"
| "rust_string U16Kind cap (r, e) = BorrowedU16Str r e cap"
| "rust_string U16C cap len = BorrowedU16CStr cap"

definition rust_category :: "(string \<Rightarrow> schema_support) \<Rightarrow> (string \<Rightarrow> payload_support) \<Rightarrow> cfield list \<Rightarrow> cfield \<Rightarrow> category option" where
  "rust_category T P fs f = (case cf_ty f of
     CPrimitive p \<Rightarrow> Some (LeafField (Primitive (cf_endian f) p))
   | CBool \<Rightarrow> Some (LeafField Bool)
   | CString k \<Rightarrow> map_option (\<lambda>cap. LeafField (rust_string k cap (case cf_len f of Some l \<Rightarrow> l | None \<Rightarrow> (ReprU32, cf_endian f)))) (cf_capacity f)
   | CFixedBytes n \<Rightarrow> Some (LeafField (FixedBytes n))
   | CArray e n \<Rightarrow> map_option (ArrayField n) (rust_element T (cf_endian f) e)
   | CSchema n \<Rightarrow> (case cf_tag_field f of
       None \<Rightarrow> Some (PathField (T n))
     | Some tag \<Rightarrow> map_option (\<lambda>(k, c). TaggedField k (P n)) (find (\<lambda>(k, c). cf_name c = tag) (enumerate 0 fs)))
   | COption (CSchema n) \<Rightarrow> Some (OptionalField (OptPath (T n)))
   | COption (CArray (CSchema n) len) \<Rightarrow> Some (OptionalField (OptArray len (T n)))
   | COption t \<Rightarrow> None)"

definition rust_field :: "(string \<Rightarrow> schema_support) \<Rightarrow> (string \<Rightarrow> payload_support) \<Rightarrow> cfield list \<Rightarrow> cfield \<Rightarrow> field_ir option" where
  "rust_field T P fs f = map_option (\<lambda>c. \<lparr>fi_name = cf_name f, fi_category = c, fi_align = cf_align f\<rparr>) (rust_category T P fs f)"

definition rust_record :: "(string \<Rightarrow> schema_support) \<Rightarrow> (string \<Rightarrow> payload_support) \<Rightarrow> cschema \<Rightarrow> cfield list \<Rightarrow> record_ir option" where
  "rust_record T P sc fs = map_option (\<lambda>gs. \<lparr>ri_name = cs_name sc, ri_align = cs_align sc, ri_fields = gs\<rparr>)
     (those (map (rust_field T P fs) fs))"

definition rust_enum :: "string \<Rightarrow> scalar_repr \<Rightarrow> endian \<Rightarrow> enum_variant list \<Rightarrow> enum_decl" where
  "rust_enum n r e vs = \<lparr>en_name = n, en_endian = e, en_repr = r, en_discs = map cv_raw vs\<rparr>"

text \<open>The tag of a variant is the discriminant of the tag enum's variant of the name it gives.\<close>

definition rust_variants :: "model \<Rightarrow> (string \<Rightarrow> schema_support) \<Rightarrow> string \<Rightarrow> ctagged_variant list \<Rightarrow> variant_ir list option" where
  "rust_variants m T tag vs = (case enum_parts m tag of
     Ok (r, e, xs) \<Rightarrow> those (map (\<lambda>v. map_option (\<lambda>x.
       \<lparr>va_name = tv_name v, va_tag = cv_raw x, va_shape = map_option T (tv_payload v)\<rparr>) (find (\<lambda>x. cv_name x = tv_tag_variant v) xs)) vs)
   | _ \<Rightarrow> None)"

text \<open>
  A schema whose Rust declaration compiles, with the support the macro gives it. A payload variant holds a type with a
  wire of its own, which tagged enums do not have.
\<close>

definition rust_declared :: "env \<Rightarrow> model \<Rightarrow> (string \<Rightarrow> schema_support) \<Rightarrow> (string \<Rightarrow> payload_support) \<Rightarrow> cschema \<Rightarrow> bool" where
  "rust_declared E m T P sc = (case cs_kind sc of
     CScalarEnum r e vs \<Rightarrow> T (cs_name sc) = enum_support E (rust_enum (cs_name sc) r e vs)
   | CStruct fs \<Rightarrow> (\<exists>R. rust_record T P sc fs = Some R \<and> record_shape E R \<and> T (cs_name sc) = record_support E R)
   | CTaggedEnum tag vs \<Rightarrow> cs_align sc = None \<and> vs \<noteq> [] \<and>
       (\<forall>p \<in> set (List.map_filter tv_payload vs). \<exists>s. model_schema m p = Ok s \<and> \<not> is_tagged_kind (cs_kind s)) \<and>
       (\<exists>ws. rust_variants m T tag vs = Some ws \<and> P (cs_name sc) = tagged_support E (cs_name sc) ws))"

text \<open>The model as the front end accepts it and as Rust compiles it; Rust has no two items or fields of one name.\<close>

definition rust_accepts :: "env \<Rightarrow> model \<Rightarrow> (string \<Rightarrow> schema_support) \<Rightarrow> (string \<Rightarrow> payload_support) \<Rightarrow> bool" where
  "rust_accepts E m T P \<longleftrightarrow> distinct (map cs_name (md_schemas m)) \<and> (\<forall>sc \<in> set (md_schemas m). rust_declared E m T P sc \<and>
     (\<forall>fs. cs_kind sc = CStruct fs \<longrightarrow> distinct (map cf_name fs)))"

section \<open>Fields\<close>

text \<open>A schema that fields may name: enums by their scalar, the others by the class declared for them.\<close>

definition child_ok :: "env \<Rightarrow> cpp_scope \<Rightarrow> model \<Rightarrow> (string \<Rightarrow> schema_support) \<Rightarrow> (string \<Rightarrow> payload_support) \<Rightarrow> string \<Rightarrow> bool" where
  "child_ok E sc m T P n \<longleftrightarrow> (\<exists>s. model_schema m n = Ok s \<and> (case cs_kind s of
     CScalarEnum r e vs \<Rightarrow> ss_wire (T n) = prim_layout E (repr_prim r) \<and> (\<exists>t. typename m n = Ok t \<and> cpp_layout E sc t = Some (ss_wire (T n)))
   | CStruct fs \<Rightarrow> wf_layout (ss_wire (T n)) \<and> (\<exists>t. typename m n = Ok t \<and> cpp_layout E sc t = Some (ss_wire (T n)))
   | CTaggedEnum tag vs \<Rightarrow> wf_layout (ps_wire (P n)) \<and> (\<exists>t. typename m n = Ok t \<and> cpp_layout E sc t = Some (ps_wire (P n)))))"

lemma raw_scalar:
  "cpp_header E sc D \<Longrightarrow> cpp_primitive p = (t, w) \<Longrightarrow> (if w = 1 \<or> e = Native then Ok ((t, x), g) else and_then (raw w e g) (\<lambda>(t, g). Ok ((t, x), g))) =
     Ok ((u, x'), g') \<Longrightarrow> set (g_decl g') \<subseteq> D \<Longrightarrow> cpp_layout E sc u = Some (prim_layout E p) \<and> grows g g'"
  by (auto split: if_splits prod.splits dest: builtin_layout raw_layout raw_grows cpp_primitive_width)

lemma element_layout:
  assumes "cpp_header E sc D" "element_cpp_type m ty e g = Ok ((t, w), g')" "set (g_decl g') \<subseteq> D"
    "rust_element T e ty = Some el" "\<forall>n \<in> set (schema_refs ty). child_ok E sc m T P n"
  shows "cpp_layout E sc t = Some (element_wire E el) \<and> wf_layout (element_wire E el) \<and> grows g g'"
proof -
  have E: "env_ok E" by (rule headerD(1) [OF assms(1)])
  show ?thesis
  proof (cases ty)
    case (CPrimitive p)
    obtain b wd where p: "cpp_primitive p = (b, wd)" by fastforce
    have "cpp_layout E sc t = Some (prim_layout E p) \<and> grows g g'"
      by (rule raw_scalar [OF assms(1) p _ assms(3), where e = e and x = wd and x' = w and g = g]) (use assms(2) CPrimitive p in simp)
    then show ?thesis using assms(4) CPrimitive E by auto
  next
    case CBool
    then show ?thesis using assms(2,4) E byte_layout [OF assms(1)] by auto
  next
    case (CSchema n)
    then obtain s where s: "model_schema m n = Ok s" and c: "child_ok E sc m T P n" and el: "el = PathElem (T n)"
      using assms(4,5) by (auto simp: child_ok_def)
    show ?thesis
    proof (cases "cs_kind s")
      case (CScalarEnum r ee vs)
      then obtain g1 where "raw (iw r) ee g = Ok (t, g')" using assms(2) CSchema s by (auto split: prod.splits)
      moreover have "ss_wire (T n) = prim_layout E (repr_prim r)" using c s CScalarEnum by (simp add: child_ok_def)
      ultimately show ?thesis using raw_layout [OF assms(1) _ iw_width assms(3)] raw_grows el E by auto
    qed (use assms(2) CSchema s c el in \<open>auto simp: child_ok_def split: schema_kind.splits\<close>)
  qed (use assms(4) in auto)
qed

lemma declared_pair:
  assumes "cpp_header E sc D" "StructDecl None n [(t, ''m0'', None), (u, ''m1'', Some len)] \<in> D"
    "cpp_layout E sc t = Some l" "cpp_layout E sc u = Some k"
  shows "cpp_layout E sc n = Some (repr_c [l, array_layout len k])" "0 < len"
    "cpp_member E sc n ''m0'' = Some (place 0 [l, array_layout len k] ! 0, t, None)"
    "cpp_member E sc n ''m1'' = Some (place 0 [l, array_layout len k] ! 1, u, Some len)"
proof -
  obtain ls w where "distinct (map (fst \<circ> snd) [(t, ''m0'', None), (u, ''m1'', Some len)])"
    and h: "map (member_layout E sc) [(t, ''m0'', None), (u, ''m1'', Some len)] = map Some ls"
    "with_alignas E sc None (class_layout repr_c ls) = Some w" "cpp_layout E sc n = Some w" and "wl_size w < usize_limit E"
    and member: "cpp_member E sc n = map_of (map2 (\<lambda>(t, n, len) off. (n, off, t, len)) [(t, ''m0'', None), (u, ''m1'', Some len)] (place 0 ls))"
    by (rule declared_struct [OF assms(1,2)])
  from h(1) have ls: "ls = [l, array_layout len k]" "0 < len" using assms(3,4) by (auto split: if_splits)
  then show "cpp_layout E sc n = Some (repr_c [l, array_layout len k])" "0 < len"
    using h(2,3) by (simp_all add: class_layout_def with_alignas_def)
  show "cpp_member E sc n ''m0'' = Some (place 0 [l, array_layout len k] ! 0, t, None)"
    "cpp_member E sc n ''m1'' = Some (place 0 [l, array_layout len k] ! 1, u, Some len)"
    using member ls by (simp_all add: Let_def)
qed

fun string_data_offset :: "env \<Rightarrow> leaf \<Rightarrow> nat" where
  "string_data_offset E (BorrowedStr r e n) = str_data_offset E r n"
| "string_data_offset E (BorrowedU16Str r e n) = u16_str_data_offset E r n"
| "string_data_offset E l = 0"

lemma string_layout:
  assumes "cpp_header E sc D" "lower_string k f g = Ok ((t, kind, w, data, lo, lw), g')" "set (g_decl g') \<subseteq> D" "cf_capacity f = Some cap"
  shows "cpp_layout E sc t = Some (leaf_wire E (rust_string k cap (case cf_len f of Some l \<Rightarrow> l | None \<Rightarrow> (ReprU32, cf_endian f))))"
    "(\<exists>d. data = Some d \<and> cpp_eval E sc d = Some (string_data_offset E (rust_string k cap (case cf_len f of Some l \<Rightarrow> l | None \<Rightarrow> (ReprU32, cf_endian f)))))"
    "grows g g'"
proof -
  have E: "env_ok E" by (rule headerD(1) [OF assms(1)])
  let ?leaf = "rust_string k cap (case cf_len f of Some l \<Rightarrow> l | None \<Rightarrow> (ReprU32, cf_endian f))"
  have "cpp_layout E sc t = Some (leaf_wire E ?leaf) \<and> (\<exists>d. data = Some d \<and> cpp_eval E sc d = Some (string_data_offset E ?leaf)) \<and> grows g g'"
  proof (cases "k = CBytes \<or> k = U16C")
    case True
    obtain h g1 where g1: "fresh g = (h, g1)" by fastforce
    define p where "p = (if k = U16C then U16 else U8)"
    define dt where "dt = (if k = U16C then ''std::uint16_t'' else ''std::uint8_t'')"
    have r: "t = h" "data = Some (CNum 0)" "g' = declare_cpp (StructDecl None h [(dt, ''m0'', Some cap)]) g1"
      using True assms(2,4) g1 by (auto simp: lower_string_def Let_def unwrap_def dt_def)
    have l: "cpp_layout E sc dt = Some (prim_layout E p)"
      using byte_layout [OF assms(1)] u16_layout [OF assms(1)] by (simp add: dt_def p_def)
    have "StructDecl None h [(dt, ''m0'', Some cap)] \<in> D" using assms(3) r(3) by auto
    from declared_box(1) [OF assms(1) this l] have t: "cpp_layout E sc t = Some (array_layout cap (prim_layout E p))" using E r(1) by simp
    have "wf_layout (array_layout cap (prim_layout E p))" using E by simp
    from repr_c_single [OF this] have "leaf_wire E ?leaf = array_layout cap (prim_layout E p)"
      using True E by (auto simp: p_def c_str_layout_def u16_c_str_layout_def)
    then show ?thesis using t r True g1 by (auto intro: grows_fresh)
  next
    case False
    then obtain lw' le where len: "cf_len f = Some (lw', le)" using assms(2,4) by (auto simp: lower_string_def unwrap_def Let_def split: option.splits)
    obtain h g1 where g1: "fresh g = (h, g1)" by fastforce
    define p where "p = (if k = U16Kind then U16 else U8)"
    define dt where "dt = (if k = U16Kind then ''std::uint16_t'' else ''std::uint8_t'')"
    obtain lt g2 where raw: "raw (iw lw') le g1 = Ok (lt, g2)"
      and r: "t = h" "data = Some (COffsetof h ''m1'')"
      "g' = static_assert [OffsetIsZero h ''m0'', OffsetAfter h ''m1'' lt] (declare_cpp (StructDecl None h [(lt, ''m0'', None), (dt, ''m1'', Some cap)]) g2)"
      using False assms(2,4) len g1 by (auto simp: lower_string_def Let_def unwrap_def dt_def)
    have sub: "set (g_decl g2) \<subseteq> D" "StructDecl None h [(lt, ''m0'', None), (dt, ''m1'', Some cap)] \<in> D" using assms(3) r(3) by auto
    have l: "cpp_layout E sc lt = Some (prim_layout E (repr_prim lw'))" by (rule raw_layout [OF assms(1) raw iw_width sub(1)])
    have d: "cpp_layout E sc dt = Some (prim_layout E p)"
      using byte_layout [OF assms(1)] u16_layout [OF assms(1)] by (simp add: dt_def p_def)
    note pair = declared_pair [OF assms(1) sub(2) l d]
    have k: "k = Utf8 \<or> k = U16Kind" using False by (cases k) auto
    have "leaf_wire E ?leaf = repr_c [prim_layout E (repr_prim lw'), array_layout cap (prim_layout E p)]"
      "string_data_offset E ?leaf = place 0 [prim_layout E (repr_prim lw'), array_layout cap (prim_layout E p)] ! 1"
      using k E len
      by (auto simp: p_def str_layout_def str_members_def u16_str_layout_def u16_str_members_def str_data_offset_def u16_str_data_offset_def
          simp del: str_data_offset_eq)
    then show ?thesis using pair(1,4) r raw_grows [OF raw] g1 by (auto intro!: grows_steps intro: grows_trans [OF grows_fresh])
  qed
  then show "cpp_layout E sc t = Some (leaf_wire E ?leaf)" "\<exists>d. data = Some d \<and> cpp_eval E sc d = Some (string_data_offset E ?leaf)" "grows g g'"
    by simp_all
qed

text \<open>What a lowered field must give: the wire of its category, and the offsets and strides its metadata speaks of.\<close>

definition lowered_ok :: "env \<Rightarrow> cpp_scope \<Rightarrow> category \<Rightarrow> string \<Rightarrow> cexpr option \<Rightarrow> bool" where
  "lowered_ok E sc c t data \<longleftrightarrow> cpp_layout E sc t = Some (category_wire E c) \<and> wf_layout (category_wire E c) \<and> (case c of
     LeafField l \<Rightarrow> is_string l \<longrightarrow> (\<exists>d. data = Some d \<and> cpp_eval E sc d = Some (string_data_offset E l))
   | ArrayField n e \<Rightarrow> cpp_eval E sc (CSizeofElement t) = Some (wl_size (element_wire E e))
   | OptionalField (OptArray n S) \<Rightarrow> cpp_eval E sc (CSizeofElement t) = Some (wl_size (ss_wire S))
   | _ \<Rightarrow> True)"

text \<open>What the front end's checks of tags and optionals leave of a field of schema type.\<close>

definition field_checked :: "model \<Rightarrow> cfield \<Rightarrow> bool" where
  "field_checked m f \<longleftrightarrow> (case cf_ty f of
     CSchema n \<Rightarrow> (\<exists>s. model_schema m n = Ok s \<and> (is_tagged_kind (cs_kind s) \<longleftrightarrow> cf_tag_field f \<noteq> None))
   | COption (CSchema n) \<Rightarrow> (\<exists>s. model_schema m n = Ok s \<and> \<not> is_tagged_kind (cs_kind s))
   | _ \<Rightarrow> True)"

lemma array_lowered:
  assumes "cpp_header E sc D" "lower_type m f (CArray ty n) g = Ok ((t, kind, w, data, lo, lw), g')" "set (g_decl g') \<subseteq> D"
    "rust_element T (cf_endian f) ty = Some el" "\<forall>n \<in> set (schema_refs ty). child_ok E sc m T P n"
  shows "cpp_layout E sc t = Some (array_layout n (element_wire E el)) \<and> wf_layout (element_wire E el) \<and>
    cpp_eval E sc (CSizeofElement t) = Some (wl_size (element_wire E el)) \<and> grows g g'"
proof -
  obtain u wd g1 where e: "element_cpp_type m ty (cf_endian f) g = Ok ((u, wd), g1)"
    using assms(2) by (auto simp: lower_type_def)
  obtain b g2 where b: "fresh g1 = (b, g2)" by fastforce
  have h: "element_cpp_type m ty (cf_endian f) g = Ok ((u, wd), g1)" "fresh g1 = (t, g2)"
      "g' = declare_cpp (StructDecl None t [(u, ''m0'', Some n)]) g2"
    using assms(2) e b by (auto simp: lower_type_def)
  have sub: "set (g_decl g1) \<subseteq> D" "StructDecl None t [(u, ''m0'', Some n)] \<in> D" using assms(3) h(2,3) by auto
  have el: "cpp_layout E sc u = Some (element_wire E el)" "wf_layout (element_wire E el)" "grows g g1"
    using element_layout [OF assms(1) h(1) sub(1) assms(4,5)] by auto
  note box = declared_box [OF assms(1) sub(2) el(1,2)]
  have "grows g g'" using h el(3) by (auto intro!: grows_steps intro: grows_trans grows_fresh)
  then show ?thesis using box el by simp
qed

lemma schema_lowered:
  assumes "cpp_header E sc D" "lower_type m f (CSchema n) g = Ok ((t, kind, w, data, lo, lw), g')" "set (g_decl g') \<subseteq> D"
    "child_ok E sc m T P n" "model_schema m n = Ok s"
  shows "cpp_layout E sc t = Some (if is_tagged_kind (cs_kind s) then ps_wire (P n) else ss_wire (T n)) \<and>
    wf_layout (if is_tagged_kind (cs_kind s) then ps_wire (P n) else ss_wire (T n)) \<and> grows g g'"
proof (cases "cs_kind s")
  case (CScalarEnum r e vs)
  then have "raw (iw r) e g = Ok (t, g')" using assms(2,5) by (auto simp: lower_type_def split: prod.splits)
  moreover have "ss_wire (T n) = prim_layout E (repr_prim r)" using assms(4,5) CScalarEnum by (simp add: child_ok_def)
  ultimately show ?thesis
    using raw_layout [OF assms(1) _ iw_width assms(3)] raw_grows headerD(1) [OF assms(1)] CScalarEnum by auto
qed (use assms(2,4,5) in \<open>auto simp: child_ok_def lower_type_def split: if_splits\<close>)

lemma type_lowered:
  assumes "cpp_header E sc D" "lower_type m f ty g = Ok ((t, kind, w, data, lo, lw), g')" "set (g_decl g') \<subseteq> D"
    "fst (optional_inner_of (cf_ty f)) = ty" "rust_category T P fs f = Some c" "\<forall>n \<in> set (schema_refs (cf_ty f)). child_ok E sc m T P n"
    "field_checked m f"
  shows "lowered_ok E sc c t data \<and> grows g g'"
proof -
  have E: "env_ok E" by (rule headerD(1) [OF assms(1)])
  show ?thesis
  proof (cases "cf_ty f")
    case (CPrimitive p)
    obtain b wd where p: "cpp_primitive p = (b, wd)" by fastforce
    have "ty = CPrimitive p" using assms(4) CPrimitive by simp
    then have "cpp_layout E sc t = Some (prim_layout E p) \<and> grows g g'"
      by (intro raw_scalar [OF assms(1) p _ assms(3), where e = "cf_endian f" and x = "(PkScalar, wd, None, None, None)"
            and x' = "(kind, w, data, lo, lw)" and g = g])
        (use assms(2) p in \<open>simp add: lower_type_def\<close>)
    then show ?thesis using assms(5) CPrimitive E by (auto simp: rust_category_def lowered_ok_def)
  next
    case CBool
    then show ?thesis using assms(2,4,5) E byte_layout [OF assms(1)] by (auto simp: rust_category_def lowered_ok_def lower_type_def)
  next
    case (CString k)
    then obtain cap where cap: "cf_capacity f = Some cap" using assms(5) by (auto simp: rust_category_def)
    have lower: "lower_string k f g = Ok ((t, kind, w, data, lo, lw), g')" using assms(2,4) CString by (auto simp: lower_type_def)
    show ?thesis using string_layout [OF assms(1) lower assms(3) cap] assms(5) CString cap E
      by (auto simp: rust_category_def lowered_ok_def)
  next
    case (CFixedBytes n)
    obtain h g1 where g1: "fresh g = (h, g1)" by fastforce
    have r: "t = h" "g' = declare_cpp (StructDecl None h [(''std::uint8_t'', ''m0'', Some n)]) g1"
      using assms(2,4) CFixedBytes g1 by (auto simp: lower_type_def)
    have "StructDecl None h [(''std::uint8_t'', ''m0'', Some n)] \<in> D" using assms(3) r by auto
    from declared_box(1) [OF assms(1) this byte_layout [OF assms(1)]] have "cpp_layout E sc t = Some (bytes_layout n)" using E r by simp
    then show ?thesis using assms(5) CFixedBytes r g1 by (auto simp: rust_category_def lowered_ok_def intro: grows_fresh)
  next
    case (CArray e n)
    then obtain el where el: "rust_element T (cf_endian f) e = Some el" "c = ArrayField n el" using assms(5) by (auto simp: rust_category_def)
    have "lower_type m f (CArray e n) g = Ok ((t, kind, w, data, lo, lw), g')" using assms(2,4) CArray by simp
    from array_lowered [OF assms(1) this assms(3) el(1)] show ?thesis using assms(6) CArray el(2) by (auto simp: lowered_ok_def)
  next
    case (CSchema n)
    then obtain s where s: "model_schema m n = Ok s" "is_tagged_kind (cs_kind s) \<longleftrightarrow> cf_tag_field f \<noteq> None"
      using assms(7) by (auto simp: field_checked_def)
    have "lower_type m f (CSchema n) g = Ok ((t, kind, w, data, lo, lw), g')" using assms(2,4) CSchema by simp
    from schema_lowered [OF assms(1) this assms(3) _ s(1)] show ?thesis
      using assms(5,6) CSchema s(2) by (auto simp: lowered_ok_def rust_category_def split: option.splits)
  next
    case (COption inner)
    show ?thesis
    proof (cases inner)
      case (CSchema n)
      then obtain s where s: "model_schema m n = Ok s" "\<not> is_tagged_kind (cs_kind s)"
        using assms(7) COption by (auto simp: field_checked_def)
      have "lower_type m f (CSchema n) g = Ok ((t, kind, w, data, lo, lw), g')" using assms(2,4) CSchema COption by simp
      from schema_lowered [OF assms(1) this assms(3) _ s(1)] show ?thesis
        using assms(5,6) CSchema COption s(2) by (auto simp: lowered_ok_def rust_category_def)
    next
      case (CArray e len)
      then obtain n where e: "e = CSchema n" "c = OptionalField (OptArray len (T n))"
        using assms(5) COption by (auto simp: rust_category_def split: ctype.splits)
      have el: "rust_element T (cf_endian f) e = Some (PathElem (T n))" using e by simp
      have "lower_type m f (CArray e len) g = Ok ((t, kind, w, data, lo, lw), g')" using assms(2,4) CArray COption by simp
      from array_lowered [OF assms(1) this assms(3) el] show ?thesis using assms(6) CArray COption e by (auto simp: lowered_ok_def)
    qed (use assms(5) COption in \<open>auto simp: rust_category_def\<close>)
  qed
qed

text \<open>What the metadata of a field promises, with the C++ expressions evaluated.\<close>

fun leaf_unit :: "leaf \<Rightarrow> nat" where
  "leaf_unit (BorrowedU16Str r e n) = 2" | "leaf_unit (BorrowedU16CStr n) = 2" | "leaf_unit l = 1"

lemma rust_string_unit: "leaf_unit (rust_string k cap len) = (if k = U16C \<or> k = U16Kind then 2 else 1)"
  by (cases len, cases k) auto

definition elements_of :: "env \<Rightarrow> category \<Rightarrow> (nat \<times> nat) option" where
  "elements_of E c = (case c of
     ArrayField n e \<Rightarrow> Some (n, wl_size (element_wire E e)) | OptionalField (OptArray n S) \<Rightarrow> Some (n, wl_size (ss_wire S)) | _ \<Rightarrow> None)"

definition meta_ok :: "env \<Rightarrow> cpp_scope \<Rightarrow> string \<Rightarrow> nat \<Rightarrow> field_ir \<Rightarrow> path_meta \<Rightarrow> bool" where
  "meta_ok E sc cpp k fi meta \<longleftrightarrow> pm_path meta = [fi_name fi] \<and> pm_offset meta = COffsetof cpp (member_name k) \<and>
     cpp_eval E sc (pm_width meta) = Some (wl_size (field_wire E fi)) \<and> (pm_optional meta \<longleftrightarrow> is_optional_category (fi_category fi)) \<and>
     (pm_kind meta = PkPayload \<longleftrightarrow> (\<exists>t Q. fi_category fi = TaggedField t Q)) \<and>
     (\<forall>l. fi_category fi = LeafField l \<and> is_string l \<longrightarrow> pm_unit_width meta = leaf_unit l \<and>
       (\<exists>d. pm_data_offset meta = Some (CSum (pm_offset meta) d) \<and> cpp_eval E sc d = Some (string_data_offset E l))) \<and>
     (\<forall>n stride. elements_of E (fi_category fi) = Some (n, stride) \<longrightarrow> pm_array_length meta = Some n \<and>
       (\<exists>x. pm_array_stride meta = Some x \<and> cpp_eval E sc x = Some stride))"

lemma lower_string_unit:
  "lower_string k f g = Ok ((t, kind, w, data, lo, lw), g') \<Longrightarrow> kind = PkString k \<and> w = (if k = U16C \<or> k = U16Kind then 2 else 1)"
  by (auto simp: lower_string_def Let_def unwrap_def fresh_def split: option.splits if_splits)

lemma lower_type_kind:
  assumes "lower_type m f ty g = Ok ((t, kind, w, data, lo, lw), g')"
  shows "kind = PkPayload \<longleftrightarrow> (\<exists>n s. ty = CSchema n \<and> model_schema m n = Ok s \<and> is_tagged_kind (cs_kind s) \<and> cf_tag_field f \<noteq> None)"
proof (cases ty)
  case (CString k)
  then show ?thesis using assms lower_string_unit by (fastforce simp: lower_type_def)
next
  case (CSchema n)
  then show ?thesis using assms by (cases "model_schema m n") (auto simp: lower_type_def split: schema_kind.splits if_splits)
next
  case (CArray e n)
  then show ?thesis using assms by (auto simp: lower_type_def fresh_def)
qed (use assms in \<open>auto simp: lower_type_def fresh_def split: prod.splits if_splits\<close>)

lemma align_lowered:
  assumes "cpp_header E sc D" "align_field f t g = (u, g')" "set (g_decl g') \<subseteq> D" "cpp_layout E sc t = Some l" "wf_layout l" "align_ok (cf_align f)"
  shows "cpp_layout E sc u = Some (storage_wire l (cf_align f)) \<and> grows g g'"
proof (cases "cf_align f")
  case None
  then show ?thesis using assms(2,4) by (auto simp: align_field_def)
next
  case (Some a)
  obtain h g1 where g1: "fresh g = (h, g1)" by fastforce
  let ?al = "CMaximum (CNum a) (CAlignof t)"
  have r: "u = h" "g' = static_assert [AlignIs h ?al, SizeIsAligned h, OffsetIsZero h ''m0''] (declare_cpp (StructDecl (Some ?al) h [(t, ''m0'', None)]) g1)"
    using assms(2) Some g1 by (auto simp: align_field_def Let_def)
  have "StructDecl (Some ?al) h [(t, ''m0'', None)] \<in> D" using assms(3) r(2) by auto
  from declared_struct [OF assms(1) this] obtain ls w where
    ls: "map (member_layout E sc) [(t, ''m0'', None)] = map Some ls" and
    w: "with_alignas E sc (Some ?al) (class_layout repr_c ls) = Some w" "cpp_layout E sc h = Some w" by blast
  have "ls = [l]" using ls assms(4) by auto
  then have box: "class_layout repr_c ls = l" using assms(5) by (simp add: class_layout_def repr_c_single)
  obtain k where "a = 2 ^ k" using assms(6) Some align_okD by auto
  from alignas_maximum [OF w(1) [unfolded box] assms(4,5) this] show ?thesis
    using w(2) r g1 Some by (auto intro!: grows_steps intro: grows_fresh)
qed

lemma field_lowered:
  assumes "cpp_header E sc D" "lower_field m schema k f g = Ok ((mem, al, meta), g')" "set (g_decl g') \<subseteq> D" "rust_field T P fs f = Some fi"
    "\<forall>n \<in> set (schema_refs (cf_ty f)). child_ok E sc m T P n" "field_checked m f" "align_ok (fi_align fi)" "typename m schema = Ok cpp"
  shows "mem = member_name k \<and> cpp_layout E sc al = Some (field_wire E fi) \<and> wf_layout (field_wire E fi) \<and> meta_ok E sc cpp k fi meta \<and> grows g g'"
proof -
  obtain c where c: "rust_category T P fs f = Some c" "fi = \<lparr>fi_name = cf_name f, fi_category = c, fi_align = cf_align f\<rparr>"
    using assms(4) by (auto simp: rust_field_def)
  obtain ty opt where ty: "optional_inner_of (cf_ty f) = (ty, opt)" by fastforce
  have "\<exists>x. lower_type m f ty g = Ok x" using assms(2) ty by (cases "lower_type m f ty g") (auto simp: lower_field_def)
  then obtain t kind w data lo lw g1 where low: "lower_type m f ty g = Ok ((t, kind, w, data, lo, lw), g1)" by auto
  obtain u g2 where al: "align_field f t g1 = (u, g2)" by fastforce
  have r: "mem = member_name k" "al = u" "g' = g2"
    "meta = \<lparr>pm_schema = schema, pm_path = [cf_name f], pm_offset = COffsetof cpp (member_name k), pm_width = CSizeof u, pm_endian = cf_endian f,
        pm_kind = kind, pm_data_offset = map_option (CSum (COffsetof cpp (member_name k))) data,
        pm_len_offset = map_option (CSum (COffsetof cpp (member_name k))) lo,
        pm_len_width = lw, pm_capacity = cf_capacity f, pm_len_endian = map_option snd (cf_len f), pm_unit_width = w,
        pm_array_length = (case ty of CArray e n \<Rightarrow> Some n | _ \<Rightarrow> None),
        pm_array_stride = (case ty of CArray e n \<Rightarrow> Some (CSizeofElement t) | _ \<Rightarrow> None), pm_optional = opt\<rparr>"
    using assms(2,8) ty low al by (auto simp: lower_field_def Let_def)
  have "grows g1 g2" using al by (auto simp: align_field_def Let_def split: option.splits prod.splits intro!: grows_steps intro: grows_fresh)
  then have sub: "set (g_decl g1) \<subseteq> D" "set (g_decl g2) \<subseteq> D" using assms(3) r(3) by (auto simp: grows_def)
  have "fst (optional_inner_of (cf_ty f)) = ty" using ty by simp
  from type_lowered [OF assms(1) low sub(1) this c(1) assms(5,6)] have low_ok: "lowered_ok E sc c t data" "grows g g1" by auto
  have base: "cpp_layout E sc t = Some (category_wire E c)" "wf_layout (category_wire E c)" using low_ok(1) by (auto simp: lowered_ok_def)
  have align: "align_ok (cf_align f)" using assms(7) c(2) by simp
  note stored = align_lowered [OF assms(1) al sub(2) base align]
  have wire: "field_wire E fi = storage_wire (category_wire E c) (cf_align f)" by (simp add: field_wire_def c(2))
  have "opt \<longleftrightarrow> is_optional_category c"
    using ty c(1) by (cases "cf_ty f") (auto simp: rust_category_def is_optional_category_def split: option.splits ctype.splits)
  moreover have "kind = PkPayload \<longleftrightarrow> (\<exists>t Q. c = TaggedField t Q)"
    using lower_type_kind [OF low] ty c(1) assms(6)
    by (cases "cf_ty f") (auto simp: rust_category_def field_checked_def split: option.splits ctype.splits)
  moreover have "w = leaf_unit l \<and> (\<exists>d. data = Some d \<and> cpp_eval E sc d = Some (string_data_offset E l))"
    if leaf: "c = LeafField l" "is_string l" for l
  proof -
    obtain n where k: "cf_ty f = CString n" using leaf c(1)
      by (cases "cf_ty f") (auto simp: rust_category_def split: option.splits ctype.splits)
    then have "ty = CString n" using ty by simp
    then have "lower_string n f g = Ok ((t, kind, w, data, lo, lw), g1)" using low by (simp add: lower_type_def)
    from lower_string_unit [OF this] have "w = (if n = U16C \<or> n = U16Kind then 2 else 1)" by simp
    then have "w = leaf_unit l" using c(1) k leaf(1) by (auto simp: rust_category_def rust_string_unit)
    then show ?thesis using low_ok(1) leaf by (simp add: lowered_ok_def)
  qed
  moreover have "(\<exists>e. ty = CArray e n) \<and> cpp_eval E sc (CSizeofElement t) = Some stride" if "elements_of E c = Some (n, stride)" for n stride
    using that low_ok(1) ty c(1)
    by (cases "cf_ty f")
      (auto simp: rust_category_def elements_of_def lowered_ok_def simp del: cpp_eval.simps split: option.splits ctype.splits)
  ultimately have "meta_ok E sc cpp k fi meta"
    using stored wire unfolding meta_ok_def by (auto simp: r(2,4) c(2) cpp_layout_def)
  moreover have "wf_layout (field_wire E fi)" using wf_storage_wire [OF base(2) align] wire by simp
  ultimately show ?thesis using r(1-3) stored wire low_ok(2) by (auto intro: grows_trans)
qed

section \<open>Schemas\<close>

lemma element_grows: "element_cpp_type m ty e g = Ok ((t, w), g') \<Longrightarrow> grows g g'"
proof (induction m ty e g arbitrary: t w g' rule: element_cpp_type.induct)
  case (3 m n e g)
  then obtain s where "model_schema m n = Ok s" by auto
  then show ?case using 3 by (cases "cs_kind s") (auto dest: raw_grows)
qed (auto split: if_splits prod.splits dest: raw_grows)

lemma lower_string_grows: "lower_string k f g = Ok (x, g') \<Longrightarrow> grows g g'"
  by (cases "fresh g") (auto simp: lower_string_def Let_def split: if_splits dest!: raw_grows intro!: grows_steps intro: grows_fresh grows_trans)

lemma lower_type_grows: "lower_type m f ty g = Ok (x, g') \<Longrightarrow> grows g g'"
proof (cases ty)
  case (CArray e n)
  assume "lower_type m f ty g = Ok (x, g')"
  moreover from this obtain t w g1 where g1: "element_cpp_type m e (cf_endian f) g = Ok ((t, w), g1)"
    using CArray by (auto simp: lower_type_def)
  moreover obtain h g2 where g2: "fresh g1 = (h, g2)" by fastforce
  ultimately have "grows g1 g'" using CArray by (auto simp: lower_type_def intro!: grows_steps intro: grows_fresh)
  then show ?thesis using element_grows [OF g1] by (auto intro: grows_trans)
next
  case (CFixedBytes n)
  assume "lower_type m f ty g = Ok (x, g')"
  then show ?thesis using CFixedBytes by (cases "fresh g") (auto simp: lower_type_def intro!: grows_steps intro: grows_fresh)
next
  case (CSchema n)
  assume "lower_type m f ty g = Ok (x, g')"
  moreover from this obtain s where "model_schema m n = Ok s" using CSchema by (auto simp: lower_type_def)
  ultimately show ?thesis using CSchema by (cases "cs_kind s") (auto simp: lower_type_def dest: raw_grows)
qed (auto simp: lower_type_def split: prod.splits if_splits dest: raw_grows lower_string_grows)

lemma align_grows: "align_field f t g = (u, g') \<Longrightarrow> grows g g'"
  by (cases "fresh g") (auto simp: align_field_def Let_def split: option.splits intro!: grows_steps intro: grows_fresh)

lemma lower_field_grows: "lower_field m n k f g = Ok (x, g') \<Longrightarrow> grows g g'"
proof -
  assume l: "lower_field m n k f g = Ok (x, g')"
  obtain ty opt where ty: "optional_inner_of (cf_ty f) = (ty, opt)" by fastforce
  obtain t kind w data lo lw g1 where low: "lower_type m f ty g = Ok ((t, kind, w, data, lo, lw), g1)"
    using l ty by (cases "lower_type m f ty g") (auto simp: lower_field_def)
  obtain u g2 where al: "align_field f t g1 = (u, g2)" by fastforce
  have "g' = g2" using l ty low al by (auto simp: lower_field_def Let_def)
  then show ?thesis using lower_type_grows [OF low] align_grows [OF al] by (auto intro: grows_trans)
qed

lemma lower_fields_grows: "lower_fields m n k fs g = Ok (ls, g') \<Longrightarrow> grows g g'"
proof (induction fs arbitrary: k g ls)
  case (Cons f fs)
  then obtain l g1 ls' where h: "lower_field m n k f g = Ok (l, g1)" "lower_fields m n (k + 1) fs g1 = Ok (ls', g')" by auto
  then show ?case using Cons.IH lower_field_grows by (blast intro: grows_trans)
qed simp

lemma union_members_grows: "union_members m k vs g = Ok (us, g') \<Longrightarrow> grows g g'"
  by (induction m k vs g arbitrary: us g' rule: union_members.induct)
    (auto split: option.splits prod.splits intro: grows_trans grows_fresh)

lemma gen_struct:
  assumes "gen_schema m g n = Ok g'" "model_schema m n = Ok s" "cs_kind s = CStruct fs" "typename m n = Ok t"
  obtains ls g1 where "lower_fields m n 0 fs g = Ok (ls, g1)"
    "g' = push_meta n t (map (snd \<circ> snd) ls) (static_assert (concat (map (member_asserts t) ls) @ [PlainData t])
      (declare_cpp (StructDecl (if (case cs_align s of Some a \<Rightarrow> a | None \<Rightarrow> 1) > 1
         then Some (CNum (case cs_align s of Some a \<Rightarrow> a | None \<Rightarrow> 1)) else None) t (map (\<lambda>(member, ty, meta). (ty, member, None)) ls)) g1))"
proof -
  obtain ls g1 where "lower_fields m n 0 fs g = Ok (ls, g1)" using assms by (auto simp: gen_schema_def)
  then show ?thesis using assms by (intro that [of ls g1]) (simp_all add: gen_schema_def Let_def)
qed

lemma gen_union:
  assumes "gen_schema m g n = Ok g'" "model_schema m n = Ok s" "cs_kind s = CTaggedEnum tag vs" "typename m n = Ok t"
  obtains us g1 where "union_members m 0 vs g = Ok (us, g1)"
    "g' = push_meta n t [payload_path n t] (static_assert [SizeIsPositive t, PlainData t]
      (declare_cpp (UnionDecl (map_option CNum (cs_align s)) t us) g1))"
proof -
  obtain us g1 where "union_members m 0 vs g = Ok (us, g1)" using assms by (auto simp: gen_schema_def)
  then show ?thesis using assms by (intro that [of us g1]) (simp_all add: gen_schema_def)
qed

lemma gen_schema_steps:
  "gen_schema m g n = Ok g' \<Longrightarrow> \<exists>t paths g1. typename m n = Ok t \<and> grows g g1 \<and> g' = push_meta n t paths g1"
proof -
  assume h: "gen_schema m g n = Ok g'"
  then obtain s t where st: "model_schema m n = Ok s" "typename m n = Ok t" by (auto simp: gen_schema_def)
  have "\<exists>paths g1. grows g g1 \<and> g' = push_meta n t paths g1"
  proof (cases "cs_kind s")
    case (CStruct fs)
    from gen_struct [OF h st(1) CStruct st(2)] obtain ls as d g1 where
      "lower_fields m n 0 fs g = Ok (ls, g1)" "g' = push_meta n t (map (snd \<circ> snd) ls) (static_assert as (declare_cpp d g1))" by metis
    then show ?thesis using lower_fields_grows grows_steps by blast
  next
    case (CScalarEnum r e vs)
    then obtain u g1 where u: "raw (iw r) e g = Ok (u, g1)" using h st by (auto simp: gen_schema_def)
    then have "g' = push_meta n t [] (declare_cpp (UsingDecl t u) g1)" using h st CScalarEnum by (simp add: gen_schema_def)
    moreover have "grows g (declare_cpp (UsingDecl t u) g1)" using raw_grows [OF u] by (intro grows_steps)
    ultimately show ?thesis by blast
  next
    case (CTaggedEnum tag vs)
    from gen_union [OF h st(1) CTaggedEnum st(2)] obtain us as d g1 where
      "union_members m 0 vs g = Ok (us, g1)" "g' = push_meta n t [payload_path n t] (static_assert as (declare_cpp d g1))" by metis
    then show ?thesis using union_members_grows grows_steps by blast
  qed
  with st(2) show ?thesis by blast
qed

text \<open>The whole run: every schema is generated once, and what it declares stays.\<close>

definition kept :: "gen \<Rightarrow> gen \<Rightarrow> bool" where
  "kept g g' \<longleftrightarrow> set (g_decl g) \<subseteq> set (g_decl g') \<and> set (g_asserts g) \<subseteq> set (g_asserts g') \<and> set (g_metas g) \<subseteq> set (g_metas g')"

lemma gen_schemas:
  "try_fold (gen_schema m) g ns = Ok g' \<Longrightarrow> kept g g' \<and> map tm_schema (g_metas g') = map tm_schema (g_metas g) @ ns \<and>
     (\<forall>n \<in> set ns. \<exists>a b. gen_schema m a n = Ok b \<and> kept b g')"
proof (induction ns arbitrary: g)
  case (Cons n ns)
  then obtain g1 where g1: "gen_schema m g n = Ok g1" "try_fold (gen_schema m) g1 ns = Ok g'" by auto
  obtain t paths g2 where g2: "grows g g2" "g1 = push_meta n t paths g2" using gen_schema_steps [OF g1(1)] by blast
  have step: "kept g g1" "map tm_schema (g_metas g1) = map tm_schema (g_metas g) @ [n]"
    using g2 by (auto simp: kept_def grows_def push_meta_def)
  note rest = Cons.IH [OF g1(2)]
  show ?case
  proof (intro conjI ballI)
    show "kept g g'" using step(1) rest by (auto simp: kept_def)
    fix k assume "k \<in> set (n # ns)"
    then show "\<exists>a b. gen_schema m a k = Ok b \<and> kept b g'" using rest g1(1) by auto
  qed (use step(2) rest in simp)
qed (simp add: kept_def)

lemma fields_lowered:
  assumes "cpp_header E sc D" "typename m n = Ok cpp"
  shows "lower_fields m n k fs' g = Ok (ls, g') \<Longrightarrow> set (g_decl g') \<subseteq> D \<Longrightarrow> those (map (rust_field T P fs) fs') = Some gs \<Longrightarrow>
    \<forall>f \<in> set fs'. field_checked m f \<and> (\<forall>n \<in> set (schema_refs (cf_ty f)). child_ok E sc m T P n) \<Longrightarrow> \<forall>fi \<in> set gs. align_ok (fi_align fi) \<Longrightarrow>
    length ls = length fs' \<and> length gs = length fs' \<and> (\<forall>i < length fs'. fst (ls ! i) = member_name (k + i) \<and>
      cpp_layout E sc (fst (snd (ls ! i))) = Some (field_wire E (gs ! i)) \<and> wf_layout (field_wire E (gs ! i)) \<and>
      meta_ok E sc cpp (k + i) (gs ! i) (snd (snd (ls ! i))))"
proof (induction fs' arbitrary: k g ls gs)
  case (Cons f fs')
  obtain mem ty meta g1 ls' where h: "lower_field m n k f g = Ok ((mem, ty, meta), g1)" "lower_fields m n (k + 1) fs' g1 = Ok (ls', g')"
      "ls = (mem, ty, meta) # ls'"
    using Cons.prems(1) by auto
  obtain fi gs' where gs: "rust_field T P fs f = Some fi" "those (map (rust_field T P fs) fs') = Some gs'" "gs = fi # gs'"
    using Cons.prems(3) by (auto split: option.splits)
  have sub: "set (g_decl g1) \<subseteq> D" using lower_fields_grows [OF h(2)] Cons.prems(2) by (auto simp: grows_def)
  have one: "mem = member_name k \<and> cpp_layout E sc ty = Some (field_wire E fi) \<and> wf_layout (field_wire E fi) \<and> meta_ok E sc cpp k fi meta"
    using field_lowered [OF assms(1) h(1) sub gs(1) _ _ _ assms(2)] Cons.prems(4,5) gs(3) by auto
  have rest: "length ls' = length fs' \<and> length gs' = length fs' \<and> (\<forall>i < length fs'. fst (ls' ! i) = member_name (k + 1 + i) \<and>
      cpp_layout E sc (fst (snd (ls' ! i))) = Some (field_wire E (gs' ! i)) \<and> wf_layout (field_wire E (gs' ! i)) \<and>
      meta_ok E sc cpp (k + 1 + i) (gs' ! i) (snd (snd (ls' ! i))))"
    using Cons.IH [OF h(2) Cons.prems(2) gs(2)] Cons.prems(4,5) gs(3) by auto
  show ?case
  proof (intro conjI allI impI)
    fix i assume "i < length (f # fs')"
    then show "fst (ls ! i) = member_name (k + i)" "cpp_layout E sc (fst (snd (ls ! i))) = Some (field_wire E (gs ! i))"
      "wf_layout (field_wire E (gs ! i))" "meta_ok E sc cpp (k + i) (gs ! i) (snd (snd (ls ! i)))"
      using one rest h(3) gs(3) by (cases i; simp)+
  qed (use rest h(3) gs(3) in auto)
qed auto

lemma member_name_inj: "member_name i = member_name j \<Longrightarrow> i = j"
  by (auto simp: member_name_def dest: fmt_decimal_inj)

text \<open>The layout of a struct: that of the record's wire, with the members at the offsets of the fields.\<close>

definition struct_placed :: "env \<Rightarrow> cpp_scope \<Rightarrow> string \<Rightarrow> record_ir \<Rightarrow> bool" where
  "struct_placed E sc t R \<longleftrightarrow> cpp_layout E sc t = Some (record_wire E R) \<and> wf_layout (record_wire E R) \<and>
     wl_size (record_wire E R) < usize_limit E \<and> (\<forall>k < field_count R. \<exists>u. cpp_member E sc t (member_name k) = Some (field_offset E R k, u, None) \<and>
       cpp_layout E sc u = Some (field_wire E (fld R k)) \<and> wf_layout (field_wire E (fld R k)))"

lemma alignas_struct:
  assumes "with_alignas E sc (if a' > 1 then Some (CNum a') else None) w = Some l" "wf_layout w" "align_ok a"
    "a' = (case a of Some b \<Rightarrow> b | None \<Rightarrow> 1)"
  shows "l = storage_wire w a"
proof (cases "a' > 1")
  case True
  then show ?thesis using assms alignas_storage [of E sc a w l] by (cases a) auto
next
  case False
  then have l: "l = w" using assms(1) by (simp add: with_alignas_def)
  show ?thesis
  proof (cases a)
    case (Some b)
    obtain k where k: "b = 2 ^ k" using assms(3) Some align_okD by auto
    then have "0 < b" by simp
    then have "b = 1" using False assms(4) Some by simp
    moreover have "max 1 (wl_align w) = wl_align w" using wf_layout_align_pos [OF assms(2)] by simp
    ultimately show ?thesis using l Some aligned_layout_eq [OF assms(2) k] assms(2) by (auto simp: wf_layout_def intro!: wlayout_eqI)
  qed (use l in simp)
qed

lemma struct_lowered:
  assumes "cpp_header E sc D" "gen_schema m g n = Ok g'" "set (g_decl g') \<subseteq> D" "model_schema m n = Ok s" "cs_kind s = CStruct fs"
    "rust_record T P s fs = Some R" "record_shape E R" "\<forall>f \<in> set fs. field_checked m f \<and> (\<forall>n \<in> set (schema_refs (cf_ty f)). child_ok E sc m T P n)"
  shows "\<exists>t tm. typename m n = Ok t \<and> struct_placed E sc t R \<and> tm \<in> set (g_metas g') \<and> tm_schema tm = n \<and> tm_cpp tm = t \<and>
    tm_size tm = CSizeof t \<and> tm_align tm = CAlignof t \<and> length (tm_paths tm) = field_count R \<and>
    (\<forall>k < field_count R. meta_ok E sc t k (fld R k) (tm_paths tm ! k))"
proof -
  let ?a = "case cs_align s of Some a \<Rightarrow> a | None \<Rightarrow> 1"
  let ?al = "if ?a > 1 then Some (CNum ?a) else None"
  obtain t where t: "typename m n = Ok t" using assms(2,4) by (auto simp: gen_schema_def)
  obtain ls g1 where ls: "lower_fields m n 0 fs g = Ok (ls, g1)"
    and g': "g' = push_meta n t (map (snd \<circ> snd) ls) (static_assert (concat (map (member_asserts t) ls) @ [PlainData t])
      (declare_cpp (StructDecl ?al t (map (\<lambda>(member, ty, meta). (ty, member, None)) ls)) g1))"
    by (rule gen_struct [OF assms(2,4,5) t])
  let ?ms = "map (\<lambda>(member, ty, meta). (ty, member, None)) ls :: cmember list"
  have sub: "set (g_decl g1) \<subseteq> D" "StructDecl ?al t ?ms \<in> D" using assms(3) g' by auto
  obtain gs where gs: "those (map (rust_field T P fs) fs) = Some gs" "R = \<lparr>ri_name = cs_name s, ri_align = cs_align s, ri_fields = gs\<rparr>"
    using assms(6) by (auto simp: rust_record_def)
  have aligns: "\<forall>fi \<in> set gs. align_ok (fi_align fi)" "align_ok (cs_align s)" "gs \<noteq> []"
    using assms(7) gs(2) by (auto simp: record_shape_def in_set_conv_nth)
  have low: "length ls = length gs" "length gs = length fs" "\<And>i. i < length gs \<Longrightarrow> fst (ls ! i) = member_name i"
      "\<And>i. i < length gs \<Longrightarrow> cpp_layout E sc (fst (snd (ls ! i))) = Some (field_wire E (gs ! i))"
      "\<And>i. i < length gs \<Longrightarrow> wf_layout (field_wire E (gs ! i))" "\<And>i. i < length gs \<Longrightarrow> meta_ok E sc t i (gs ! i) (snd (snd (ls ! i)))"
    using fields_lowered [OF assms(1) t ls sub(1) gs(1) assms(8) aligns(1)] by auto
  obtain ws w where ws: "distinct (map (fst \<circ> snd) ?ms)" "map (member_layout E sc) ?ms = map Some ws"
    "with_alignas E sc ?al (class_layout repr_c ws) = Some w" "cpp_layout E sc t = Some w" "wl_size w < usize_limit E"
    "cpp_member E sc t = map_of (map2 (\<lambda>(t, n, len) off. (n, off, t, len)) ?ms (place 0 ws))"
    by (rule declared_struct [OF assms(1) sub(2)])
  have "map (member_layout E sc) ?ms = map Some (map (field_wire E) gs)"
    using low(1,4) by (auto simp: list_eq_iff_nth_eq split_beta)
  then have ws_eq: "ws = map (field_wire E) gs" using ws(2) by (metis list.inj_map_strong option.inject)
  have base: "class_layout repr_c ws = base_wire E R" using aligns(3) gs(2) by (simp add: ws_eq class_layout_def base_wire_def)
  have wf: "wf_layout (base_wire E R)"
    unfolding base_wire_def using low(5) gs(2) by (intro wf_repr_c) (auto simp: in_set_conv_nth)
  have w: "w = record_wire E R"
    using alignas_struct [OF ws(3) [unfolded base] wf aligns(2)] gs(2) by (simp add: record_wire_def)
  have member: "cpp_member E sc t (member_name k) = Some (field_offset E R k, fst (snd (ls ! k)), None)" if k: "k < field_count R" for k
  proof -
    have len: "k < length ls" "k < length (place 0 ws)" using k low(1) gs(2) ws_eq by simp_all
    have "(member_name k, place 0 ws ! k, fst (snd (ls ! k)), None) \<in> set (map2 (\<lambda>(t, n, len) off. (n, off, t, len)) ?ms (place 0 ws))"
      using len low(3) [of k] k gs(2) by (force simp: set_zip split_beta)
    moreover have "map fst (map2 (\<lambda>(t, n, len) off. (n, off, t, len)) ?ms (place 0 ws)) = map (fst \<circ> snd) ?ms"
      using low(1) ws_eq by (auto simp: list_eq_iff_nth_eq split_beta)
    ultimately have "cpp_member E sc t (member_name k) = Some (place 0 ws ! k, fst (snd (ls ! k)), None)"
      using ws(1,6) by (metis map_of_is_SomeI)
    moreover have "value_offset (base_wire E R) (ri_align R) = 0" using value_offset_0 [OF wf] aligns(2) gs(2) by simp
    ultimately show ?thesis by (simp add: field_offset_def gs(2) ws_eq)
  qed
  have placed: "struct_placed E sc t R"
    using ws(4,5) w member low(4,5) gs(2) wf_storage_wire [OF wf, of "ri_align R"] aligns(2)
    by (auto simp: struct_placed_def record_wire_def)
  let ?tm = "\<lparr>tm_schema = n, tm_cpp = t, tm_size = CSizeof t, tm_align = CAlignof t, tm_paths = map (snd \<circ> snd) ls\<rparr>"
  have "?tm \<in> set (g_metas g')" using g' by (simp add: push_meta_def)
  then show ?thesis using t placed low(1,6) gs(2) by (intro exI [of _ t] exI [of _ ?tm]) auto
qed

lemma union_members_Ok:
  "union_members m k vs g = Ok (us, g') \<Longrightarrow> length us = length vs \<and> (\<forall>i < length vs. case tv_payload (vs ! i) of
     Some p \<Rightarrow> (\<exists>t. typename m p = Ok t \<and> us ! i = PayloadMember t (member_name (k + i)))
   | None \<Rightarrow> (\<exists>u. us ! i = UnitMember u (member_name (k + i))))"
proof (induction vs arbitrary: k us g)
  case (Cons v vs)
  obtain u g1 us' where h: "(case tv_payload v of
         Some payload \<Rightarrow> and_then (typename m payload) (\<lambda>t. Ok (PayloadMember t (member_name k), g))
       | None \<Rightarrow> (case fresh g of (unit, g) \<Rightarrow> Ok (UnitMember unit (member_name k), g))) = Ok (u, g1)"
      "union_members m (k + 1) vs g1 = Ok (us', g')" "us = u # us'"
    using Cons.prems by auto
  have "case tv_payload v of Some p \<Rightarrow> (\<exists>t. typename m p = Ok t \<and> u = PayloadMember t (member_name k))
      | None \<Rightarrow> (\<exists>n. u = UnitMember n (member_name k))"
    using h(1) by (auto simp: fresh_def split: option.splits)
  moreover note rest = Cons.IH [OF h(2)]
  have "case tv_payload ((v # vs) ! i) of Some p \<Rightarrow> (\<exists>t. typename m p = Ok t \<and> us ! i = PayloadMember t (member_name (k + i)))
      | None \<Rightarrow> (\<exists>u. us ! i = UnitMember u (member_name (k + i)))" if "i < length (v # vs)" for i
    using calculation rest h(3) that by (cases i) (auto split: option.splits)
  then show ?case using rest h(3) by simp
qed auto

lemma rust_variants_shapes:
  "rust_variants m T tag vs = Some ws \<Longrightarrow> length ws = length vs \<and> (\<forall>i < length vs. va_shape (ws ! i) = map_option T (tv_payload (vs ! i)))"
  by (auto simp: rust_variants_def those_map_iff split: res.splits) (metis variant_ir.select_convs(3))

lemma union_lowered:
  assumes "cpp_header E sc D" "gen_schema m g n = Ok g'" "set (g_decl g') \<subseteq> D" "model_schema m n = Ok s" "cs_kind s = CTaggedEnum tag vs"
    "rust_declared E m T P s" "cs_name s = n" "\<forall>p \<in> set (List.map_filter tv_payload vs). child_ok E sc m T P p"
  shows "\<exists>t. typename m n = Ok t \<and> cpp_layout E sc t = Some (ps_wire (P n)) \<and> wf_layout (ps_wire (P n))"
proof -
  obtain t where t: "typename m n = Ok t" using assms(2,4) by (auto simp: gen_schema_def)
  have al: "cs_align s = None" and vs: "vs \<noteq> []" and kinds: "\<forall>p \<in> set (List.map_filter tv_payload vs). \<exists>s. model_schema m p = Ok s \<and> \<not> is_tagged_kind (cs_kind s)"
    using assms(5,6) by (auto simp: rust_declared_def)
  obtain ws where ws: "rust_variants m T tag vs = Some ws" "P n = tagged_support E n ws"
    using assms(5-7) by (auto simp: rust_declared_def)
  obtain us g1 where us: "union_members m 0 vs g = Ok (us, g1)"
    and g': "g' = push_meta n t [payload_path n t] (static_assert [SizeIsPositive t, PlainData t]
      (declare_cpp (UnionDecl (map_option CNum (cs_align s)) t us) g1))"
    by (rule gen_union [OF assms(2,4,5) t])
  have "UnionDecl None t us \<in> D" using assms(3) g' al by auto
  from headerD(4) [OF assms(1) this] obtain ls where
    ls: "those (map (union_member_layout E sc) us) = Some ls" "cpp_layout E sc t = Some (class_layout repr_c_union ls)"
    by (auto simp: cpp_declared_def union_type_def bind_eq_Some_conv with_alignas_def cpp_layout_def split: if_splits)
  note mem = union_members_Ok [OF us] and shapes = rust_variants_shapes [OF ws(1)]
  have E: "env_ok E" by (rule headerD(1) [OF assms(1)])
  have one: "union_member_layout E sc (us ! i) = Some (variant_wire E (ws ! i)) \<and> wf_layout (variant_wire E (ws ! i))" if i: "i < length vs" for i
  proof (cases "tv_payload (vs ! i)")
    case None
    then obtain u where "us ! i = UnitMember u (member_name i)" using mem i by fastforce
    then show ?thesis using None shapes i byte_layout [OF assms(1)] E by (auto simp: variant_wire_def)
  next
    case (Some p)
    then have p: "p \<in> set (List.map_filter tv_payload vs)" using i by (force simp: List.map_filter_def)
    obtain s' where s': "model_schema m p = Ok s'" "\<not> is_tagged_kind (cs_kind s')" using kinds p by blast
    have "child_ok E sc m T P p" using assms(8) p by blast
    then have "\<exists>t. typename m p = Ok t \<and> cpp_layout E sc t = Some (ss_wire (T p))" "wf_layout (ss_wire (T p))"
      using s' E by (auto simp: child_ok_def split: schema_kind.splits)
    moreover have "\<exists>t. typename m p = Ok t \<and> us ! i = PayloadMember t (member_name i)" using mem i Some by fastforce
    ultimately show ?thesis using shapes i Some by (auto simp: variant_wire_def)
  qed
  have "those (map (union_member_layout E sc) us) = Some (map (variant_wire E) ws)"
    using one mem shapes by (auto simp: those_map_iff)
  then have "ls = map (variant_wire E) ws" using ls(1) by simp
  moreover have "ws \<noteq> []" using vs shapes by auto
  ultimately have "cpp_layout E sc t = Some (payload_wire E ws)" using ls(2) by (simp add: class_layout_def payload_wire_def)
  moreover have "wf_layout (payload_wire E ws)"
    unfolding payload_wire_def using one shapes by (intro wf_repr_c_union) (auto simp: in_set_conv_nth)
  moreover have "ps_wire (P n) = payload_wire E ws" using ws(2) by (simp add: tagged_support_def)
  ultimately show ?thesis using t by simp
qed

lemma enum_lowered:
  assumes "cpp_header E sc D" "gen_schema m g n = Ok g'" "set (g_decl g') \<subseteq> D" "model_schema m n = Ok s" "cs_kind s = CScalarEnum r e vs"
    "rust_declared E m T P s" "cs_name s = n"
  shows "ss_wire (T n) = prim_layout E (repr_prim r) \<and> (\<exists>t. typename m n = Ok t \<and> cpp_layout E sc t = Some (ss_wire (T n)))"
proof -
  obtain t where t: "typename m n = Ok t" using assms(2,4) by (auto simp: gen_schema_def)
  obtain u g1 where u: "raw (iw r) e g = Ok (u, g1)" using assms(2,4,5) t by (auto simp: gen_schema_def)
  have g': "g' = push_meta n t [] (declare_cpp (UsingDecl t u) g1)" using assms(2,4,5) t u by (simp add: gen_schema_def)
  then have sub: "set (g_decl g1) \<subseteq> D" "UsingDecl t u \<in> D" using assms(3) by auto
  have "cpp_layout E sc u = Some (prim_layout E (repr_prim r))" by (rule raw_layout [OF assms(1) u iw_width sub(1)])
  moreover have "cpp_layout E sc t = cpp_layout E sc u"
    using headerD(4) [OF assms(1) sub(2)] by (auto simp: cpp_declared_def cpp_layout_def)
  moreover have "ss_wire (T n) = prim_layout E (repr_prim r)"
    using assms(5-7) by (simp add: rust_declared_def rust_enum_def enum_support_def enum_wire_def)
  ultimately show ?thesis using t by simp
qed

end
