(* ===== verification/Zs_Cpp_Schemas.thy ===== *)
theory Zs_Cpp_Schemas
  imports Zs_Cpp_Agree
begin

text \<open>
  The C++ generator on a whole model: in a header that compiles, every schema is laid out as the macro lays it out, by
  induction over the acyclic references between schemas.
\<close>

section \<open>Every schema\<close>

text \<open>What the front end has checked of the schemas, see \<open>model_ok\<close>.\<close>

definition corpus_ok :: "model \<Rightarrow> bool" where
  "corpus_ok m \<longleftrightarrow> list_all (schema_ok (md_schemas m)) (md_schemas m) \<and> acyclic (refers (edges_of (md_schemas m))) \<and>
     options_ok (md_schemas m)"

lemma parsed_corpus_ok: "parse corpus cases_file = Ok m \<Longrightarrow> corpus_ok m"
  by (auto simp: parse_def check_model_iff model_ok_def corpus_ok_def)

lemma find_unique: "distinct (map key xs) \<Longrightarrow> find (\<lambda>x. key x = k) xs = Some x \<longleftrightarrow> x \<in> set xs \<and> key x = k"
  by (induction xs) auto

lemma model_schema_iff:
  "distinct (map cs_name (md_schemas m)) \<Longrightarrow> model_schema m n = Ok s \<longleftrightarrow> s \<in> set (md_schemas m) \<and> cs_name s = n"
  using find_unique [of cs_name "md_schemas m" n s] by (auto simp: model_schema_def split: option.splits)

lemma schema_by_name_iff:
  "distinct (map cs_name schemas) \<Longrightarrow> schema_by_name schemas n = Some s \<longleftrightarrow> s \<in> set schemas \<and> cs_name s = n"
  using find_unique [of cs_name "rev schemas" n s] by (auto simp: last_of_def rev_map [symmetric])

lemma zero_invalid_kind: "zero_invalid schemas n \<Longrightarrow> \<exists>s. schemas n = Some s \<and> \<not> is_tagged_kind (cs_kind s)"
  by (cases rule: zero_invalid.cases) auto

lemma fields_checked:
  assumes "corpus_ok m" "distinct (map cs_name (md_schemas m))" "s \<in> set (md_schemas m)" "cs_kind s = CStruct fs" "f \<in> set fs"
  shows "field_checked m f"
proof -
  have ok: "schema_ok (md_schemas m) s" using assms(1,3) by (simp add: corpus_ok_def list_all_iff)
  have tag: "tag_ok (md_schemas m) fs f" using ok assms(4,5) by (simp add: schema_ok_def)
  have by_name: "schema_by_name (md_schemas m) n = Some x \<longleftrightarrow> model_schema m n = Ok x" for n x
    using assms(2) by (simp add: model_schema_iff schema_by_name_iff)
  show ?thesis
  proof (cases "cf_ty f")
    case (CSchema n)
    then show ?thesis using tag by (auto simp: tag_ok_def field_checked_def by_name split: option.splits)
  next
    case (COption inner)
    have elig: "eligible (schema_by_name (md_schemas m)) inner"
      using assms(1,3-5) COption by (auto simp: corpus_ok_def options_ok_def)
    show ?thesis
    proof (cases inner)
      case (CSchema n)
      then have "zero_invalid (schema_by_name (md_schemas m)) n" using elig by (simp add: eligible_def)
      from zero_invalid_kind [OF this] show ?thesis using COption CSchema by (auto simp: field_checked_def by_name)
    qed (use COption in \<open>auto simp: field_checked_def\<close>)
  qed (auto simp: field_checked_def)
qed

lemma finite_refers: "finite (refers edges)"
proof (rule finite_subset)
  show "refers edges \<subseteq> fst ` set edges \<times> \<Union> (set ` snd ` set edges)"
    by (auto simp: refers_def dest!: map_of_SomeD) force+
qed auto

text \<open>A run of the generator whose declarations compiled.\<close>

definition generated_cpp :: "env \<Rightarrow> model \<Rightarrow> (string \<Rightarrow> schema_support) \<Rightarrow> (string \<Rightarrow> payload_support) \<Rightarrow> cpp_scope \<Rightarrow> gen \<Rightarrow> bool" where
  "generated_cpp E m T P sc g \<longleftrightarrow> corpus_ok m \<and> rust_accepts E m T P \<and> cpp_header E sc (set (g_decl g)) \<and>
     try_fold (gen_schema m) \<lparr>g_helpers = 0, g_decl = [], g_asserts = [], g_metas = []\<rparr> (map cs_name (md_schemas m)) = Ok g"

lemma generated_schema:
  assumes "generated_cpp E m T P sc g" "s \<in> set (md_schemas m)"
  obtains a b where "gen_schema m a (cs_name s) = Ok b" "set (g_decl b) \<subseteq> set (g_decl g)" "set (g_metas b) \<subseteq> set (g_metas g)"
    "set (g_asserts b) \<subseteq> set (g_asserts g)" "model_schema m (cs_name s) = Ok s" "rust_declared E m T P s"
proof -
  have "cs_name s \<in> set (map cs_name (md_schemas m))" using assms(2) by simp
  then obtain a b where "gen_schema m a (cs_name s) = Ok b" "kept b g"
    using gen_schemas [of m _ "map cs_name (md_schemas m)" g] assms(1) unfolding generated_cpp_def by blast
  moreover have "distinct (map cs_name (md_schemas m))" "rust_declared E m T P s"
    using assms by (auto simp: generated_cpp_def rust_accepts_def)
  ultimately show ?thesis using assms(2) by (intro that [of a b]) (auto simp: kept_def model_schema_iff)
qed

lemma schemas_child_ok:
  assumes "generated_cpp E m T P sc g"
  shows "s \<in> set (md_schemas m) \<Longrightarrow> child_ok E sc m T P (cs_name s)"
proof -
  let ?edges = "edges_of (md_schemas m)"
  have hd: "cpp_header E sc (set (g_decl g))" and ok: "corpus_ok m" and dist: "distinct (map cs_name (md_schemas m))"
    using assms by (auto simp: generated_cpp_def rust_accepts_def)
  have wf: "wf ((refers ?edges)\<inverse>)" using ok finite_refers finite_acyclic_wf_converse by (auto simp: corpus_ok_def)
  have "\<forall>s \<in> set (md_schemas m). cs_name s = n \<longrightarrow> child_ok E sc m T P n" for n
  proof (induction n rule: wf_induct_rule [OF wf])
    case (1 n)
    show ?case
    proof (intro ballI impI)
      fix s assume s: "s \<in> set (md_schemas m)" "cs_name s = n"
      have children: "child_ok E sc m T P c" if c: "c \<in> set (schema_edges (cs_kind s))" for c
      proof -
        have "schema_by_name (md_schemas m) n = Some s" using s dist by (simp add: schema_by_name_iff)
        then have ref: "(n, c) \<in> refers ?edges" using c by (auto simp: refers_iff)
        have "schema_ok (md_schemas m) s" using ok s(1) by (simp add: corpus_ok_def list_all_iff)
        then have "schema_by_name (md_schemas m) c \<noteq> None" using c by (cases "cs_kind s") (auto simp: schema_ok_def)
        then obtain s' where "s' \<in> set (md_schemas m)" "cs_name s' = c" using dist by (auto simp: schema_by_name_iff)
        then show ?thesis using 1 ref by blast
      qed
      obtain a b where gen: "gen_schema m a n = Ok b" "set (g_decl b) \<subseteq> set (g_decl g)" "model_schema m n = Ok s" "rust_declared E m T P s"
        using generated_schema [OF assms s(1)] s(2) by metis
      show "child_ok E sc m T P n"
      proof (cases "cs_kind s")
        case (CStruct fs)
        then obtain R where R: "rust_record T P s fs = Some R" "record_shape E R" "T n = record_support E R"
          using gen(4) s(2) by (auto simp: rust_declared_def)
        have "\<forall>f \<in> set fs. field_checked m f \<and> (\<forall>n \<in> set (schema_refs (cf_ty f)). child_ok E sc m T P n)"
          using fields_checked [OF ok dist s(1) CStruct] children CStruct by auto
        from struct_lowered [OF hd gen(1,2,3) CStruct R(1,2) this] show ?thesis
          using gen(3) CStruct R(3) by (auto simp: child_ok_def struct_placed_def)
      next
        case (CScalarEnum r e vs)
        then show ?thesis using enum_lowered [OF hd gen(1,2,3) CScalarEnum gen(4) s(2)] gen(3) by (auto simp: child_ok_def)
      next
        case (CTaggedEnum tag vs)
        have "\<exists>t. typename m n = Ok t \<and> cpp_layout E sc t = Some (ps_wire (P n)) \<and> wf_layout (ps_wire (P n))"
          by (rule union_lowered [OF hd gen(1,2,3) CTaggedEnum gen(4) s(2)]) (use children CTaggedEnum in simp)
        then show ?thesis using gen(3) CTaggedEnum by (auto simp: child_ok_def)
      qed
    qed
  qed
  then show "s \<in> set (md_schemas m) \<Longrightarrow> child_ok E sc m T P (cs_name s)" by blast
qed

text \<open>A struct of the model, with the metadata the generator wrote for it.\<close>

lemma generated_struct:
  assumes "generated_cpp E m T P sc g" "s \<in> set (md_schemas m)" "cs_kind s = CStruct fs"
  obtains R t tm where "rust_record T P s fs = Some R" "record_shape E R" "T (cs_name s) = record_support E R"
    "typename m (cs_name s) = Ok t" "struct_placed E sc t R" "tm \<in> set (g_metas g)" "tm_schema tm = cs_name s" "tm_cpp tm = t"
    "tm_size tm = CSizeof t" "tm_align tm = CAlignof t" "length (tm_paths tm) = field_count R"
    "\<And>k. k < field_count R \<Longrightarrow> meta_ok E sc t k (fld R k) (tm_paths tm ! k)"
proof -
  have hd: "cpp_header E sc (set (g_decl g))" and ok: "corpus_ok m" and dist: "distinct (map cs_name (md_schemas m))"
    using assms(1) by (auto simp: generated_cpp_def rust_accepts_def)
  obtain a b where gen: "gen_schema m a (cs_name s) = Ok b" "set (g_decl b) \<subseteq> set (g_decl g)" "set (g_metas b) \<subseteq> set (g_metas g)"
      "model_schema m (cs_name s) = Ok s" "rust_declared E m T P s"
    using generated_schema [OF assms(1,2)] by metis
  obtain R where R: "rust_record T P s fs = Some R" "record_shape E R" "T (cs_name s) = record_support E R"
    using gen(5) assms(3) by (auto simp: rust_declared_def)
  have refs: "child_ok E sc m T P c" if f: "f \<in> set fs" "c \<in> set (schema_refs (cf_ty f))" for f c
  proof -
    have "schema_ok (md_schemas m) s" using ok assms(2) by (simp add: corpus_ok_def list_all_iff)
    then have "schema_by_name (md_schemas m) c \<noteq> None" using f assms(3) by (auto simp: schema_ok_def)
    then obtain s' where "s' \<in> set (md_schemas m)" "cs_name s' = c" using dist by (auto simp: schema_by_name_iff)
    then show ?thesis using schemas_child_ok [OF assms(1)] by blast
  qed
  then have "\<forall>f \<in> set fs. field_checked m f \<and> (\<forall>n \<in> set (schema_refs (cf_ty f)). child_ok E sc m T P n)"
    using fields_checked [OF ok dist assms(2,3)] by blast
  from struct_lowered [OF hd gen(1,2,4) assms(3) R(1,2) this] obtain t tm where
    "typename m (cs_name s) = Ok t" "struct_placed E sc t R" "tm \<in> set (g_metas b)" "tm_schema tm = cs_name s" "tm_cpp tm = t"
    "tm_size tm = CSizeof t" "tm_align tm = CAlignof t" "length (tm_paths tm) = field_count R"
    "\<forall>k < field_count R. meta_ok E sc t k (fld R k) (tm_paths tm ! k)" by blast
  then show ?thesis using R gen(3) by (intro that [of R t tm]) auto
qed

definition laid_out :: "env \<Rightarrow> cpp_scope \<Rightarrow> model \<Rightarrow> (string \<Rightarrow> schema_support) \<Rightarrow> (string \<Rightarrow> payload_support) \<Rightarrow> cschema \<Rightarrow> bool" where
  "laid_out E sc m T P s \<longleftrightarrow> (\<exists>t. typename m (cs_name s) = Ok t \<and> (case cs_kind s of
     CStruct fs \<Rightarrow> (\<exists>R. rust_record T P s fs = Some R \<and> T (cs_name s) = record_support E R \<and> struct_placed E sc t R)
   | CScalarEnum r e vs \<Rightarrow> cpp_layout E sc t = Some (ss_wire (T (cs_name s)))
   | CTaggedEnum tag vs \<Rightarrow> cpp_layout E sc t = Some (ps_wire (P (cs_name s)))))"

lemma generated_laid_out:
  assumes "generated_cpp E m T P sc g" "s \<in> set (md_schemas m)"
  shows "laid_out E sc m T P s"
proof -
  have "distinct (map cs_name (md_schemas m))" using assms(1) by (auto simp: generated_cpp_def rust_accepts_def)
  then have ms: "model_schema m (cs_name s) = Ok s" using assms(2) by (simp add: model_schema_iff)
  note child = schemas_child_ok [OF assms]
  show ?thesis
  proof (cases "cs_kind s")
    case (CStruct fs)
    then show ?thesis using generated_struct [OF assms CStruct] by (simp add: laid_out_def) metis
  qed (use child ms in \<open>auto simp: child_ok_def laid_out_def\<close>)
qed

lemma emitted_generated:
  assumes "env_ok E" "uniform_align E" "corpus_ok m" "rust_accepts E m T P" "emit_cpp m = Ok out" "compile_decls E [] (lo_declarations out) = Some sc"
  obtains g where "generated_cpp E m T P sc g" "lo_declarations out = g_decl g" "lo_assertions out = g_asserts g"
    "lo_metadata out = map (\<lambda>tm. tm\<lparr>tm_paths := tm_paths tm @ nested_paths m (g_metas g) tm\<rparr>) (g_metas g)"
proof -
  obtain g where g: "try_fold (gen_schema m) \<lparr>g_helpers = 0, g_decl = [], g_asserts = [], g_metas = []\<rparr> (map cs_name (md_schemas m)) = Ok g"
    using assms(5) by (auto simp: emit_cpp_def)
  then have out: "lo_declarations out = g_decl g" "lo_assertions out = g_asserts g"
    "lo_metadata out = map (\<lambda>tm. tm\<lparr>tm_paths := tm_paths tm @ nested_paths m (g_metas g) tm\<rparr>) (g_metas g)"
    using assms(5) by (auto simp: emit_cpp_def Let_def)
  have "cpp_header E sc (set (g_decl g))" using header_of_compile [OF assms(1,2)] assms(6) out(1) by simp
  then show ?thesis using assms(3,4) g out by (intro that [of g]) (simp_all add: generated_cpp_def)
qed

end
