(* ===== verification/Zs_Cpp_Metrics.thy ===== *)
theory Zs_Cpp_Metrics
  imports Zs_Cpp_Schemas
begin

text \<open>
  The layout metrics of the cases: the Rust value of every metric that speaks of sizes, alignments, offsets or counts, and
  the lookups by which the generator finds the C++ expression it appends for the metric.
\<close>

section \<open>Rust values\<close>

definition field_named :: "record_ir \<Rightarrow> string \<Rightarrow> nat option" where
  "field_named R n = find (\<lambda>k. fi_name (fld R k) = n) [0..<field_count R]"

text \<open>The field with a tagged payload, with the field of its tag.\<close>

fun payload_tag :: "category \<Rightarrow> nat option" where
  "payload_tag (TaggedField t Q) = Some t" | "payload_tag _ = None"

definition payload_field :: "record_ir \<Rightarrow> (nat \<times> nat) option" where
  "payload_field R = Option.bind (find (\<lambda>k. payload_tag (cat R k) \<noteq> None) [0..<field_count R])
     (\<lambda>k. map_option (Pair k) (payload_tag (cat R k)))"

fun leaf_capacity :: "leaf \<Rightarrow> nat" where
  "leaf_capacity (BorrowedStr r e n) = n" | "leaf_capacity (BorrowedCStr n) = n"
| "leaf_capacity (BorrowedU16Str r e n) = n" | "leaf_capacity (BorrowedU16CStr n) = n"
| "leaf_capacity l = 0"

definition string_metric :: "(leaf \<Rightarrow> nat) \<Rightarrow> category \<Rightarrow> nat option" where
  "string_metric h c = (case c of LeafField l \<Rightarrow> if is_string l then Some (h l) else None | _ \<Rightarrow> None)"

definition path_metric :: "(wlayout \<Rightarrow> nat) \<Rightarrow> category \<Rightarrow> nat option" where
  "path_metric h c = (case c of PathField S \<Rightarrow> Some (h (ss_wire S)) | _ \<Rightarrow> None)"

fun array_extent :: "category \<Rightarrow> nat option" where
  "array_extent (ArrayField n e) = Some n" | "array_extent _ = None"

text \<open>The other metrics name discriminants and byte orders, which the generator prints as numbers.\<close>

fun rust_metric :: "env \<Rightarrow> record_ir \<Rightarrow> metric \<Rightarrow> nat option" where
  "rust_metric E R RootSize = Some (wl_size (record_wire E R))"
| "rust_metric E R RootStride = Some (wl_size (record_wire E R))"
| "rust_metric E R RootAlign = Some (wl_align (record_wire E R))"
| "rust_metric E R (FieldOffset n) = map_option (field_offset E R) (field_named R n)"
| "rust_metric E R (FieldSize n) = map_option (\<lambda>k. wl_size (field_wire E (fld R k))) (field_named R n)"
| "rust_metric E R (FieldAlign n) = map_option (\<lambda>k. wl_align (field_wire E (fld R k))) (field_named R n)"
| "rust_metric E R (ArrayLength n) = Option.bind (field_named R n) (\<lambda>k. array_extent (cat R k))"
| "rust_metric E R (ArrayStride n) = Option.bind (field_named R n) (\<lambda>k. map_option snd (elements_of E (cat R k)))"
| "rust_metric E R (OptionalSpan n) = map_option (\<lambda>k. wl_size (field_wire E (fld R k))) (field_named R n)"
| "rust_metric E R (OptionalIsOptional n) = map_option (\<lambda>k. if is_optional_category (cat R k) then 1 else 0) (field_named R n)"
| "rust_metric E R (OptionalArrayLength n) = Option.bind (field_named R n) (\<lambda>k. map_option fst (elements_of E (cat R k)))"
| "rust_metric E R (OptionalArrayStride n) = Option.bind (field_named R n) (\<lambda>k. map_option snd (elements_of E (cat R k)))"
| "rust_metric E R (EnumSize n) = Option.bind (field_named R n) (\<lambda>k. path_metric wl_size (cat R k))"
| "rust_metric E R (EnumAlign n) = Option.bind (field_named R n) (\<lambda>k. path_metric wl_align (cat R k))"
| "rust_metric E R (StringCapacity n) = Option.bind (field_named R n) (\<lambda>k. string_metric leaf_capacity (cat R k))"
| "rust_metric E R (StringUnitWidth n) = Option.bind (field_named R n) (\<lambda>k. string_metric leaf_unit (cat R k))"
| "rust_metric E R (StringDataOffset n) = Option.bind (field_named R n) (\<lambda>k. string_metric (string_data_offset E) (cat R k))"
| "rust_metric E R TagOffset = map_option (\<lambda>(k, t). field_offset E R t) (payload_field R)"
| "rust_metric E R TagSize = map_option (\<lambda>(k, t). wl_size (field_wire E (fld R t))) (payload_field R)"
| "rust_metric E R TagAlign = map_option (\<lambda>(k, t). wl_align (field_wire E (fld R t))) (payload_field R)"
| "rust_metric E R PayloadOffset = map_option (\<lambda>(k, t). field_offset E R k) (payload_field R)"
| "rust_metric E R PayloadSize = map_option (\<lambda>(k, t). wl_size (field_wire E (fld R k))) (payload_field R)"
| "rust_metric E R PayloadAlign = map_option (\<lambda>(k, t). wl_align (field_wire E (fld R k))) (payload_field R)"
| "rust_metric E R _ = None"

text \<open>
  The two metrics that report a declared alignment as it is written, which is the alignment of the field unless its type
  is aligned more.
\<close>

fun reports_alignment :: "metric \<Rightarrow> bool" where
  "reports_alignment (FieldAlign n) = True" | "reports_alignment PayloadAlign = True" | "reports_alignment _ = False"

definition align_kept :: "env \<Rightarrow> record_ir \<Rightarrow> nat \<Rightarrow> bool" where
  "align_kept E R k \<longleftrightarrow> (case fi_align (fld R k) of Some a \<Rightarrow> wl_align (field_wire E (fld R k)) = a | None \<Rightarrow> True)"

section \<open>Lookups\<close>

lemma find_append: "find Q (xs @ ys) = (case find Q xs of Some x \<Rightarrow> Some x | None \<Rightarrow> find Q ys)"
  by (induction xs) auto

lemma find_nth_iff:
  "find Q xs = Some x \<longleftrightarrow> (\<exists>k. (k < length xs \<and> Q (xs ! k) \<and> (\<forall>j<k. \<not> Q (xs ! j))) \<and> x = xs ! k)"
  by (auto simp: find_Some_iff)

lemma find_enumerate_iff:
  "find (\<lambda>(k, x). Q x) (enumerate 0 xs) = Some (k, x) \<longleftrightarrow> k < length xs \<and> x = xs ! k \<and> Q x \<and> (\<forall>j<k. \<not> Q (xs ! j))"
  by (auto simp: find_Some_iff nth_enumerate_eq)

lemma field_named_iff:
  assumes "distinct (map fi_name (ri_fields R))"
  shows "field_named R n = Some k \<longleftrightarrow> k < field_count R \<and> fi_name (fld R k) = n"
proof -
  have "fi_name (fld R j) = fi_name (fld R k) \<Longrightarrow> j < field_count R \<Longrightarrow> k < field_count R \<Longrightarrow> j = k" for j
    using assms by (metis distinct_conv_nth length_map nth_map)
  then show ?thesis by (fastforce simp: field_named_def find_Some_iff)
qed

lemma child_paths_long:
  assumes "p \<in> set (case ty of
     CSchema child \<Rightarrow> if tagged then [] else (case base of None \<Rightarrow> [] | Some b \<Rightarrow> (case metas child of
       None \<Rightarrow> [] | Some cm \<Rightarrow> map (nested_path schema f b) (filter (\<lambda>cp. pm_path cp \<noteq> []) (tm_paths cm))))
   | _ \<Rightarrow> [])"
  shows "\<exists>a b q. pm_path p = a # b # q"
proof (cases ty)
  case (CSchema child)
  then obtain b cm where "base = Some b" "metas child = Some cm"
    and "p \<in> nested_path schema f b ` {cp \<in> set (tm_paths cm). pm_path cp \<noteq> []}"
    using assms by (cases tagged; cases base; cases "metas child") auto
  then show ?thesis by (auto simp: nested_path_def neq_Nil_conv)
qed (use assms in simp_all)

lemma in_concat_map: "p \<in> set (concat (map h xs)) \<Longrightarrow> (\<And>x. p \<in> set (h x) \<Longrightarrow> Q) \<Longrightarrow> Q"
  by auto

lemma nested_paths_long:
  assumes "p \<in> set (nested_paths m snapshot tm)"
  shows "\<exists>a b q. pm_path p = a # b # q"
proof (cases "find (\<lambda>s. cs_name s = tm_schema tm) (md_schemas m)")
  case (Some schema)
  show ?thesis
  proof (cases "cs_kind schema")
    case (CStruct fs)
    note h = assms [unfolded nested_paths_def Some option.case CStruct schema_kind.case]
    show ?thesis by (rule in_concat_map [OF h], rule child_paths_long)
  qed (use assms Some in \<open>simp_all add: nested_paths_def\<close>)
qed (use assms in \<open>simp add: nested_paths_def\<close>)

definition final_metas :: "model \<Rightarrow> gen \<Rightarrow> type_meta list" where
  "final_metas m g = map (\<lambda>tm. tm\<lparr>tm_paths := tm_paths tm @ nested_paths m (g_metas g) tm\<rparr>) (g_metas g)"

lemma metas_named:
  assumes "generated_cpp E m T P sc g"
  shows "map tm_schema (final_metas m g) = map cs_name (md_schemas m)"
proof -
  have "map tm_schema (g_metas g) = map cs_name (md_schemas m)"
    using assms gen_schemas [of m _ "map cs_name (md_schemas m)" g] by (auto simp: generated_cpp_def)
  then show ?thesis by (simp add: final_metas_def comp_def)
qed

lemma md_ty_iff:
  assumes "generated_cpp E m T P sc g"
  shows "md_ty (final_metas m g) n = Ok x \<longleftrightarrow> x \<in> set (final_metas m g) \<and> tm_schema x = n"
proof -
  have "distinct (map tm_schema (final_metas m g))"
    using metas_named [OF assms] assms by (auto simp: generated_cpp_def rust_accepts_def)
  from find_unique [OF this, of n x] show ?thesis by (auto simp: md_ty_def unwrap_def split: option.splits)
qed

lemma final_ty:
  "generated_cpp E m T P sc g \<Longrightarrow> tm \<in> set (g_metas g) \<Longrightarrow>
     md_ty (final_metas m g) (tm_schema tm) = Ok (tm\<lparr>tm_paths := tm_paths tm @ nested_paths m (g_metas g) tm\<rparr>)"
  by (subst md_ty_iff) (auto simp: final_metas_def)

lemma md_path_iff:
  assumes "generated_cpp E m T P sc g" "tm \<in> set (g_metas g)" "distinct (map fi_name (ri_fields R))"
    "length (tm_paths tm) = field_count R" "\<And>k. k < field_count R \<Longrightarrow> pm_path (tm_paths tm ! k) = [fi_name (fld R k)]"
  shows "md_path (final_metas m g) (tm_schema tm) [n] = Ok p \<longleftrightarrow> (\<exists>k. field_named R n = Some k \<and> p = tm_paths tm ! k)"
proof -
  let ?nested = "nested_paths m (g_metas g) tm"
  have "md_ty (final_metas m g) (tm_schema tm) = Ok (tm\<lparr>tm_paths := tm_paths tm @ ?nested\<rparr>)"
    by (rule final_ty [OF assms(1,2)])
  moreover have "find (\<lambda>p. pm_path p = [n]) ?nested = None" using nested_paths_long by (fastforce simp: find_None_iff)
  moreover have "find (\<lambda>p. pm_path p = [n]) (tm_paths tm) = map_option ((!) (tm_paths tm)) (field_named R n)"
  proof (cases "field_named R n")
    case None
    then have "find (\<lambda>p. pm_path p = [n]) (tm_paths tm) = None"
      using assms(4,5) by (auto simp: field_named_def find_None_iff in_set_conv_nth)
    then show ?thesis using None by simp
  next
    case (Some k)
    then have k: "k < field_count R" "fi_name (fld R k) = n"
      using field_named_iff [OF assms(3)] by auto
    have "\<forall>j<k. fi_name (fld R j) \<noteq> n"
    proof (intro allI impI notI)
      fix j assume "j < k" "fi_name (fld R j) = n"
      then have "field_named R n = Some j" using field_named_iff [OF assms(3)] k(1) by auto
      then show False using Some \<open>j < k\<close> by simp
    qed
    with k have "find (\<lambda>p. pm_path p = [n]) (tm_paths tm) = Some (tm_paths tm ! k)"
      unfolding find_Some_iff using assms(4,5) by (intro exI [of _ k]) auto
    then show ?thesis using Some by simp
  qed
  ultimately show ?thesis by (auto simp: md_path_def find_append unwrap_def split: option.splits)
qed

lemma fields_named:
  assumes "rust_record T P s fs = Some R"
  shows "field_count R = length fs" "k < length fs \<Longrightarrow> rust_field T P fs (fs ! k) = Some (fld R k)"
    "k < length fs \<Longrightarrow> fi_name (fld R k) = cf_name (fs ! k)" "map fi_name (ri_fields R) = map cf_name fs"
proof -
  obtain gs where gs: "those (map (rust_field T P fs) fs) = Some gs" "ri_fields R = gs" using assms by (auto simp: rust_record_def)
  then have nth: "\<forall>i < length fs. rust_field T P fs (fs ! i) = Some (gs ! i)" and len: "length gs = length fs" by (auto simp: those_map_iff)
  have "rust_field T P fs f = Some fi \<Longrightarrow> fi_name fi = cf_name f" for f fi by (auto simp: rust_field_def)
  then have names: "\<forall>i < length fs. fi_name (gs ! i) = cf_name (fs ! i)" using nth by blast
  show "field_count R = length fs" "k < length fs \<Longrightarrow> rust_field T P fs (fs ! k) = Some (fld R k)"
    "k < length fs \<Longrightarrow> fi_name (fld R k) = cf_name (fs ! k)" "map fi_name (ri_fields R) = map cf_name fs"
    using nth len gs(2) names by (auto simp: list_eq_iff_nth_eq)
qed

text \<open>A struct of the model in the generator's output, with the metadata that speaks of it.\<close>

definition struct_reported ::
  "env \<Rightarrow> cpp_scope \<Rightarrow> model \<Rightarrow> (string \<Rightarrow> schema_support) \<Rightarrow> (string \<Rightarrow> payload_support) \<Rightarrow> gen \<Rightarrow> cschema \<Rightarrow> cfield list \<Rightarrow> record_ir \<Rightarrow> type_meta \<Rightarrow> bool" where
  "struct_reported E sc m T P g s fs R root \<longleftrightarrow> model_schema m (cs_name s) = Ok s \<and> cs_kind s = CStruct fs \<and> rust_record T P s fs = Some R \<and>
     record_shape E R \<and> distinct (map fi_name (ri_fields R)) \<and> struct_placed E sc (tm_cpp root) R \<and>
     md_ty (final_metas m g) (cs_name s) = Ok root \<and> tm_schema root = cs_name s \<and> tm_size root = CSizeof (tm_cpp root) \<and>
     tm_align root = CAlignof (tm_cpp root) \<and> field_count R \<le> length (tm_paths root) \<and>
     (\<forall>k < field_count R. meta_ok E sc (tm_cpp root) k (fld R k) (tm_paths root ! k)) \<and>
     (\<forall>n p. md_path (final_metas m g) (cs_name s) [n] = Ok p \<longleftrightarrow> (\<exists>k. field_named R n = Some k \<and> p = tm_paths root ! k))"

lemma struct_reportedI:
  assumes "generated_cpp E m T P sc g" "s \<in> set (md_schemas m)" "cs_kind s = CStruct fs"
  obtains R root where "struct_reported E sc m T P g s fs R root"
proof -
  have dist: "distinct (map cs_name (md_schemas m))" "distinct (map cf_name fs)"
    using assms by (auto simp: generated_cpp_def rust_accepts_def)
  obtain R t tm where R: "rust_record T P s fs = Some R" "record_shape E R"
    and t: "struct_placed E sc t R" "tm \<in> set (g_metas g)" "tm_schema tm = cs_name s" "tm_cpp tm = t"
      "tm_size tm = CSizeof t" "tm_align tm = CAlignof t"
    and paths: "length (tm_paths tm) = field_count R" "\<And>k. k < field_count R \<Longrightarrow> meta_ok E sc t k (fld R k) (tm_paths tm ! k)"
    using generated_struct [OF assms] by metis
  have names: "distinct (map fi_name (ri_fields R))" using fields_named(4) [OF R(1)] dist(2) by simp
  let ?root = "tm\<lparr>tm_paths := tm_paths tm @ nested_paths m (g_metas g) tm\<rparr>"
  have "md_ty (final_metas m g) (cs_name s) = Ok ?root" using final_ty [OF assms(1) t(2)] t(3) by simp
  moreover have "md_path (final_metas m g) (cs_name s) [n] = Ok p \<longleftrightarrow> (\<exists>k. field_named R n = Some k \<and> p = tm_paths tm ! k)" for n p
    using md_path_iff [OF assms(1) t(2) names paths(1)] paths(2) t(3) by (auto simp: meta_ok_def)
  moreover have "field_named R n = Some k \<Longrightarrow> k < field_count R" for n k using field_named_iff [OF names] by simp
  ultimately have "struct_reported E sc m T P g s fs R ?root"
    using R t names paths dist assms(2,3) unfolding struct_reported_def
    by (auto simp: model_schema_iff nth_append)
  then show ?thesis by (rule that)
qed

lemma reported_fields:
  assumes "struct_reported E sc m T P g s fs R root"
  shows "cfield_of m (cs_name s) n = Ok f \<longleftrightarrow> (\<exists>k. field_named R n = Some k \<and> f = fs ! k)"
    "field_index m (cs_name s) n = Ok k \<longleftrightarrow> field_named R n = Some k"
proof -
  have R: "rust_record T P s fs = Some R" "distinct (map fi_name (ri_fields R))" "model_schema m (cs_name s) = Ok s" "cs_kind s = CStruct fs"
    using assms by (auto simp: struct_reported_def)
  have names: "field_named R n = Some k \<longleftrightarrow> k < length fs \<and> cf_name (fs ! k) = n" for k
    using field_named_iff [OF R(2)] fields_named [OF R(1)] by auto
  have first: "field_named R n = Some k \<longleftrightarrow> k < length fs \<and> cf_name (fs ! k) = n \<and> (\<forall>j<k. cf_name (fs ! j) \<noteq> n)" for k
  proof -
    have "cf_name (fs ! j) = n \<Longrightarrow> k < length fs \<Longrightarrow> cf_name (fs ! k) = n \<Longrightarrow> \<not> j < k" for j
      using names [of j] names [of k] by auto
    then show ?thesis using names [of k] by blast
  qed
  show "cfield_of m (cs_name s) n = Ok f \<longleftrightarrow> (\<exists>k. field_named R n = Some k \<and> f = fs ! k)"
  proof -
    have "find (\<lambda>f. cf_name f = n) fs = Some f \<longleftrightarrow> (\<exists>k. field_named R n = Some k \<and> f = fs ! k)"
      by (simp only: find_nth_iff first)
    moreover have "cfield_of m (cs_name s) n = Ok f \<longleftrightarrow> find (\<lambda>f. cf_name f = n) fs = Some f"
      using R(3,4) by (cases "find (\<lambda>f. cf_name f = n) fs") (simp_all add: cfield_of_def unwrap_def)
    ultimately show ?thesis by simp
  qed
  show "field_index m (cs_name s) n = Ok k \<longleftrightarrow> field_named R n = Some k"
  proof -
    have "(\<exists>f. find (\<lambda>(k, f). cf_name f = n) (enumerate 0 fs) = Some (k, f)) \<longleftrightarrow> field_named R n = Some k"
      unfolding find_enumerate_iff first by blast
    moreover have "field_index m (cs_name s) n = Ok k \<longleftrightarrow> (\<exists>f. find (\<lambda>(k, f). cf_name f = n) (enumerate 0 fs) = Some (k, f))"
      using R(3,4) by (cases "find (\<lambda>(k, f). cf_name f = n) (enumerate 0 fs)") (auto simp: field_index_def unwrap_def)
    ultimately show ?thesis by simp
  qed
qed

section \<open>Values\<close>

lemma placed_values:
  assumes "struct_placed E sc t R" "k < field_count R"
  shows "cpp_eval E sc (COffsetof t (member_name k)) = Some (field_offset E R k)"
    "cpp_eval E sc (CAlignofMember t (member_name k)) = Some (wl_align (field_wire E (fld R k)))"
  using assms by (auto simp: struct_placed_def)

lemma placed_root:
  "struct_placed E sc t R \<Longrightarrow> cpp_eval E sc (CSizeof t) = Some (wl_size (record_wire E R)) \<and> cpp_eval E sc (CAlignof t) = Some (wl_align (record_wire E R))"
  by (simp add: struct_placed_def)

lemma placed_bound:
  assumes "struct_placed E sc t R" "record_shape E R" "k < field_count R"
  shows "field_offset E R k + wl_size (field_wire E (fld R k)) < usize_limit E"
proof -
  have wf: "\<forall>l \<in> set (map (field_wire E) (ri_fields R)). wf_layout l"
    using assms(1) by (auto simp: struct_placed_def in_set_conv_nth)
  have "field_fits (field_wire E (fld R k)) (place 0 (map (field_wire E) (ri_fields R)) ! k) (base_wire E R)"
    using repr_c_field_fits [OF wf, of k] assms(3) by (simp add: base_wire_def)
  moreover have "wf_layout (base_wire E R)" using wf_repr_c [OF wf] by (simp add: base_wire_def)
  ultimately have "field_fits (field_wire E (fld R k)) (field_offset E R k) (record_wire E R)"
    using field_fits_trans value_fits_storage assms(2) by (simp add: field_offset_def record_wire_def record_shape_def)
  then show ?thesis using assms(1) by (simp add: field_fits_def struct_placed_def)
qed

lemma string_data_inside:
  assumes "env_ok E"
  shows "string_data_offset E l \<le> wl_size (leaf_wire E l)"
proof (cases l)
  case (BorrowedStr r e n)
  then show ?thesis using str_layout_bound [OF assms, of r n] assms by simp
next
  case (BorrowedU16Str r e n)
  then show ?thesis using u16_str_layout_bound [OF assms, of r n] by simp
qed simp_all

lemma rust_field_parts:
  "rust_field T P fs f = Some fi \<Longrightarrow> rust_category T P fs f = Some (fi_category fi) \<and> fi_align fi = cf_align f \<and> fi_name fi = cf_name f"
  by (auto simp: rust_field_def)

lemma path_reported:
  assumes "struct_reported E sc m T P g s fs R root" "md_path (final_metas m g) (tm_schema root) [n] = Ok p"
  obtains k where "field_named R n = Some k" "k < field_count R" "meta_ok E sc (tm_cpp root) k (fld R k) p"
    "cpp_eval E sc (pm_offset p) = Some (field_offset E R k)"
proof -
  have names: "distinct (map fi_name (ri_fields R))" "struct_placed E sc (tm_cpp root) R" using assms(1) by (simp_all add: struct_reported_def)
  obtain k where k: "field_named R n = Some k" "p = tm_paths root ! k" using assms by (auto simp: struct_reported_def)
  then have "k < field_count R" using field_named_iff [OF names(1)] by simp
  moreover from this have "meta_ok E sc (tm_cpp root) k (fld R k) p" using assms(1) k(2) by (simp add: struct_reported_def)
  moreover from this have "pm_offset p = COffsetof (tm_cpp root) (member_name k)" by (simp add: meta_ok_def)
  ultimately show ?thesis using k placed_values(1) [OF names(2)] by (intro that [of k]) simp_all
qed

lemma field_reported:
  assumes "struct_reported E sc m T P g s fs R root" "cfield_of m (tm_schema root) n = Ok f"
  obtains k where "field_named R n = Some k" "k < field_count R" "rust_category T P fs f = Some (cat R k)" "fi_align (fld R k) = cf_align f"
    "f \<in> set fs"
proof -
  have R: "rust_record T P s fs = Some R" "tm_schema root = cs_name s" "distinct (map fi_name (ri_fields R))"
    using assms(1) by (simp_all add: struct_reported_def)
  obtain k where k: "field_named R n = Some k" "f = fs ! k" using assms reported_fields(1) [OF assms(1)] R(2) by auto
  then have len: "k < length fs" using field_named_iff [OF R(3)] fields_named(1) [OF R(1)] by simp
  then have "rust_field T P fs f = Some (fld R k)" using fields_named(2) [OF R(1)] k(2) by simp
  from rust_field_parts [OF this] show ?thesis using k len fields_named(1) [OF R(1)] by (intro that [of k]) auto
qed

text \<open>The first payload: the two languages name the same field and the same tag.\<close>

lemma payload_tag_iff: "payload_tag c = Some t \<longleftrightarrow> (\<exists>Q. c = TaggedField t Q)"
  by (cases c) auto

lemma payload_field_iff:
  "payload_field R = Some (k, t) \<longleftrightarrow> k < field_count R \<and> payload_tag (cat R k) = Some t \<and> (\<forall>j<k. payload_tag (cat R j) = None)"
proof -
  have "find (\<lambda>k. payload_tag (cat R k) \<noteq> None) [0..<field_count R] = Some k \<longleftrightarrow>
      k < field_count R \<and> payload_tag (cat R k) \<noteq> None \<and> (\<forall>j<k. payload_tag (cat R j) = None)" for k
    by (auto simp: find_Some_iff)
  then show ?thesis by (auto simp: payload_field_def bind_eq_Some_conv)
qed

lemma tag_reported:
  assumes "struct_reported E sc m T P g s fs R root" "tagged_context m (tm_schema root) = Ok (tagged, n)" "payload_field R = Some (k, t)"
  shows "field_named R n = Some t"
proof -
  have R: "rust_record T P s fs = Some R" "tm_schema root = cs_name s" "distinct (map fi_name (ri_fields R))"
      "model_schema m (cs_name s) = Ok s" "cs_kind s = CStruct fs" using assms(1) by (simp_all add: struct_reported_def)
  obtain f where f: "find (\<lambda>f. cf_tag_field f \<noteq> None) fs = Some f" "cf_ty f = CSchema tagged" "cf_tag_field f = Some n"
    using assms(2) R by (auto simp: tagged_context_def unwrap_def split: option.splits ctype.splits)
  obtain j where j: "j < length fs" "f = fs ! j" "\<forall>i<j. cf_tag_field (fs ! i) = None" using f(1) by (auto simp: find_Some_iff)
  have cats: "i < length fs \<Longrightarrow> rust_category T P fs (fs ! i) = Some (cat R i)" for i
    using rust_field_parts fields_named(2) [OF R(1)] by blast
  obtain u c where u: "find (\<lambda>(k, c). cf_name c = n) (enumerate 0 fs) = Some (u, c)" "cat R j = TaggedField u (P tagged)"
    using cats [OF j(1)] f(2,3) j(2) by (auto simp: rust_category_def)
  have k: "k < length fs" "\<exists>Q. cat R k = TaggedField t Q" "\<forall>j<k. payload_tag (cat R j) = None"
    using assms(3) fields_named(1) [OF R(1)] by (auto simp: payload_field_iff payload_tag_iff)
  have "cf_tag_field (fs ! k) \<noteq> None"
    using cats [OF k(1)] k(2) by (cases "cf_ty (fs ! k)") (auto simp: rust_category_def split: option.splits ctype.splits)
  then have "k = j" using j(3) k(3) u(2) by (metis payload_tag.simps(1) linorder_neqE_nat option.distinct(1))
  then have "u = t" using k(2) u(2) by auto
  then have "t < length fs" "cf_name (fs ! t) = n" using u(1) by (auto simp: find_enumerate_iff)
  then show ?thesis using field_named_iff [OF R(3)] fields_named [OF R(1)] by auto
qed

lemma payload_reported:
  assumes "struct_reported E sc m T P g s fs R root" "first_payload root = Ok p" "payload_field R = Some (k, t)"
  shows "p = tm_paths root ! k" "k < field_count R" "meta_ok E sc (tm_cpp root) k (fld R k) p"
proof -
  have k: "k < field_count R" "\<exists>Q. cat R k = TaggedField t Q" "\<forall>j<k. payload_tag (cat R j) = None"
    using assms(3) by (auto simp: payload_field_iff payload_tag_iff)
  have meta: "\<forall>k < field_count R. meta_ok E sc (tm_cpp root) k (fld R k) (tm_paths root ! k)" "field_count R \<le> length (tm_paths root)"
    using assms(1) by (simp_all add: struct_reported_def)
  have "find (\<lambda>p. pm_kind p = PkPayload) (tm_paths root) = Some (tm_paths root ! k)"
    unfolding find_Some_iff using meta k by (intro exI [of _ k]) (auto simp: meta_ok_def)
  then show "p = tm_paths root ! k" using assms(2) by (simp add: first_payload_def unwrap_def)
  then show "k < field_count R" "meta_ok E sc (tm_cpp root) k (fld R k) p" using meta k by auto
qed

lemma meta_reported:
  assumes "generated_cpp E m T P sc g" "md_ty (final_metas m g) n = Ok tm"
  shows "tm_size tm = CSizeof (tm_cpp tm)" "tm_align tm = CAlignof (tm_cpp tm)" "typename m n = Ok (tm_cpp tm)"
proof -
  have tm: "tm \<in> set (final_metas m g)" "tm_schema tm = n" using assms(2) md_ty_iff [OF assms(1)] by simp_all
  then have "n \<in> set (map tm_schema (final_metas m g))" by auto
  then obtain s where s: "s \<in> set (md_schemas m)" "cs_name s = n" using metas_named [OF assms(1)] by auto
  obtain a b where b: "gen_schema m a n = Ok b" "set (g_metas b) \<subseteq> set (g_metas g)"
    using generated_schema [OF assms(1) s(1)] s(2) by metis
  obtain t paths g1 where t: "typename m n = Ok t" "b = push_meta n t paths g1" using gen_schema_steps [OF b(1)] by blast
  let ?tm = "\<lparr>tm_schema = n, tm_cpp = t, tm_size = CSizeof t, tm_align = CAlignof t, tm_paths = paths\<rparr>"
  have "?tm \<in> set (g_metas g)" using b(2) t(2) by (auto simp: push_meta_def)
  from final_ty [OF assms(1) this] have "tm = ?tm\<lparr>tm_paths := paths @ nested_paths m (g_metas g) ?tm\<rparr>" using assms(2) by simp
  then show "tm_size tm = CSizeof (tm_cpp tm)" "tm_align tm = CAlignof (tm_cpp tm)" "typename m n = Ok (tm_cpp tm)"
    using t(1) by simp_all
qed

text \<open>A field of schema type without a tag: its metadata gives the layout of the schema.\<close>

lemma path_schema_reported:
  assumes "generated_cpp E m T P sc g" "struct_reported E sc m T P g s fs R root" "s \<in> set (md_schemas m)"
    "enum_field m (tm_schema root) n = Ok e" "md_ty (final_metas m g) e = Ok tm"
  obtains k where "field_named R n = Some k" "\<And>S. cat R k = PathField S \<Longrightarrow> cpp_layout E sc (tm_cpp tm) = Some (ss_wire S)"
proof -
  obtain f where f: "cfield_of m (tm_schema root) n = Ok f" "cf_ty f = CSchema e"
    using assms(4) by (cases "cfield_of m (tm_schema root) n") (auto simp: enum_field_def split: ctype.split_asm)
  obtain k where k: "field_named R n = Some k" "rust_category T P fs f = Some (cat R k)" "f \<in> set fs"
    using field_reported [OF assms(2) f(1)] by metis
  have kind: "cs_kind s = CStruct fs" and dist: "distinct (map cs_name (md_schemas m))" and ok: "corpus_ok m"
    using assms(1,2) by (auto simp: struct_reported_def generated_cpp_def rust_accepts_def)
  obtain c where c: "model_schema m e = Ok c" "is_tagged_kind (cs_kind c) \<longleftrightarrow> cf_tag_field f \<noteq> None"
    using fields_checked [OF ok dist assms(3) kind k(3)] f(2) by (auto simp: field_checked_def)
  then have "c \<in> set (md_schemas m)" "cs_name c = e" using dist by (simp_all add: model_schema_iff)
  then have child: "child_ok E sc m T P e" using schemas_child_ok [OF assms(1)] by metis
  have "cpp_layout E sc (tm_cpp tm) = Some (ss_wire S)" if S: "cat R k = PathField S" for S
  proof -
    have tag: "cf_tag_field f = None" "S = T e" using k(2) f(2) S by (auto simp: rust_category_def split: option.splits)
    then have "\<not> is_tagged_kind (cs_kind c)" using c(2) by simp
    then have "\<exists>t. typename m e = Ok t \<and> cpp_layout E sc t = Some (ss_wire (T e))"
      using child c(1) by (cases "cs_kind c") (auto simp: child_ok_def)
    then show ?thesis using meta_reported(3) [OF assms(1,5)] tag by simp
  qed
  with k(1) show ?thesis by (rule that)
qed

lemma data_offset_value:
  assumes "env_ok E" "struct_placed E sc t R" "record_shape E R" "k < field_count R" "cat R k = LeafField l"
    "cpp_eval E sc base = Some (field_offset E R k)" "cpp_eval E sc d = Some (string_data_offset E l)"
  shows "cpp_eval E sc (CDifference (CSum base d) base) = Some (string_data_offset E l)"
proof -
  have "align_ok (fi_align (fld R k))" using assms(3,4) by (simp add: record_shape_def)
  moreover have "wf_layout (leaf_wire E l)" using assms(1) by simp
  ultimately have "wl_size (leaf_wire E l) \<le> wl_size (field_wire E (fld R k))"
    using value_fits_storage [of "leaf_wire E l" "fi_align (fld R k)"] assms(5) by (simp add: field_fits_def field_wire_def)
  then have "field_offset E R k + string_data_offset E l < usize_limit E"
    using placed_bound [OF assms(2-4)] string_data_inside [OF assms(1), of l] by linarith
  then show ?thesis using assms(6,7) by simp
qed

lemma array_length_value:
  assumes "struct_reported E sc m T P g s fs R root" "metric_expr m md root (ArrayLength n) = Ok e" "rust_metric E R (ArrayLength n) = Some v"
  shows "cpp_eval E sc e = Some v"
proof -
  obtain f where f: "cfield_of m (tm_schema root) n = Ok f" using assms(2) by auto
  obtain k where k: "field_named R n = Some k" "rust_category T P fs f = Some (cat R k)" using field_reported [OF assms(1) f] by metis
  obtain el len where "cf_ty f = CArray el len" "e = CNum len" using assms(2) f by (auto split: ctype.split_asm)
  moreover from this have "\<exists>z. cat R k = ArrayField len z" using k(2) by (auto simp: rust_category_def intro: sym)
  ultimately show ?thesis using k(1) assms(3) by auto
qed

lemma string_capacity_value:
  assumes "struct_reported E sc m T P g s fs R root" "metric_expr m md root (StringCapacity n) = Ok e" "rust_metric E R (StringCapacity n) = Some v"
  shows "cpp_eval E sc e = Some v"
proof -
  obtain f cap where f: "cfield_of m (tm_schema root) n = Ok f" "cf_capacity f = Some cap" "e = CNum cap"
    using assms(2) by (auto simp: unwrap_def split: option.split_asm)
  obtain k where k: "field_named R n = Some k" "rust_category T P fs f = Some (cat R k)" using field_reported [OF assms(1) f(1)] by metis
  obtain l where l: "cat R k = LeafField l" "is_string l" "v = leaf_capacity l"
    using assms(3) k(1) by (auto simp: string_metric_def split: category.split_asm if_split_asm)
  obtain kind len where "l = rust_string kind cap len"
    using l(1,2) k(2) f(2) by (cases "cf_ty f") (auto simp: rust_category_def split: option.split_asm ctype.split_asm)
  then have "leaf_capacity l = cap" by (cases kind; cases len) simp_all
  then show ?thesis using f(3) l(3) by simp
qed

lemma field_align_value:
  assumes "struct_reported E sc m T P g s fs R root" "field_align_expr m root n = Ok e" "\<forall>k < field_count R. align_kept E R k"
  obtains k where "field_named R n = Some k" "cpp_eval E sc e = Some (wl_align (field_wire E (fld R k)))"
proof -
  have root: "tm_schema root = cs_name s" "struct_placed E sc (tm_cpp root) R" using assms(1) by (simp_all add: struct_reported_def)
  obtain f where f: "cfield_of m (tm_schema root) n = Ok f" using assms(2) by (auto simp: field_align_expr_def)
  obtain k where k: "field_named R n = Some k" "k < field_count R" "fi_align (fld R k) = cf_align f" using field_reported [OF assms(1) f] by metis
  have "cpp_eval E sc e = Some (wl_align (field_wire E (fld R k)))"
  proof (cases "cf_align f")
    case (Some a)
    then show ?thesis using assms(2,3) f k by (auto simp: field_align_expr_def align_kept_def)
  next
    case None
    then have "e = CAlignofMember (tm_cpp root) (member_name k)"
      using assms(2) f k(1) reported_fields(2) [OF assms(1), of n] root(1) by (auto simp: field_align_expr_def)
    then show ?thesis using placed_values(2) [OF root(2) k(2)] by simp
  qed
  with k(1) show ?thesis by (rule that)
qed

text \<open>Metrics that read the path of a field.\<close>

lemma path_metric_value:
  assumes "env_ok E" "struct_reported E sc m T P g s fs R root"
    "x \<in> {FieldOffset n, FieldSize n, OptionalSpan n, OptionalIsOptional n, ArrayStride n, OptionalArrayLength n, OptionalArrayStride n,
       StringUnitWidth n, StringDataOffset n}"
    "metric_expr m (final_metas m g) root x = Ok e" "rust_metric E R x = Some v"
  shows "cpp_eval E sc e = Some v"
proof -
  obtain p where p: "md_path (final_metas m g) (tm_schema root) [n] = Ok p" using assms(3,4) by (auto simp: optional_path_def)
  obtain k where k: "field_named R n = Some k" "k < field_count R" "meta_ok E sc (tm_cpp root) k (fld R k) p"
    "cpp_eval E sc (pm_offset p) = Some (field_offset E R k)" by (rule path_reported [OF assms(2) p])
  have width: "cpp_eval E sc (pm_width p) = Some (wl_size (field_wire E (fld R k)))" and opt: "pm_optional p \<longleftrightarrow> is_optional_category (cat R k)"
    and elems: "\<And>len stride. elements_of E (cat R k) = Some (len, stride) \<Longrightarrow>
      pm_array_length p = Some len \<and> (\<exists>y. pm_array_stride p = Some y \<and> cpp_eval E sc y = Some stride)"
    and strs: "\<And>l. cat R k = LeafField l \<Longrightarrow> is_string l \<Longrightarrow> pm_unit_width p = leaf_unit l \<and>
      (\<exists>d. pm_data_offset p = Some (CSum (pm_offset p) d) \<and> cpp_eval E sc d = Some (string_data_offset E l))"
    using k(3) unfolding meta_ok_def by blast+
  have R: "struct_placed E sc (tm_cpp root) R" "record_shape E R" using assms(2) by (simp_all add: struct_reported_def)
  consider "x = FieldOffset n" | "x = FieldSize n \<or> x = OptionalSpan n" | "x = OptionalIsOptional n"
    | "x = ArrayStride n \<or> x = OptionalArrayLength n \<or> x = OptionalArrayStride n" | "x = StringUnitWidth n \<or> x = StringDataOffset n"
    using assms(3) by auto
  then show ?thesis
  proof cases
    case 4
    then obtain len stride where "elements_of E (cat R k) = Some (len, stride)" using assms(5) k(1) by auto
    from elems [OF this] this show ?thesis using 4 assms(4,5) p k(1) by (auto simp: optional_path_def unwrap_def split: if_splits)
  next
    case 5
    then obtain l where l: "cat R k = LeafField l" "is_string l"
      using assms(5) k(1) by (auto simp: string_metric_def split: category.split_asm if_split_asm)
    obtain d where d: "pm_data_offset p = Some (CSum (pm_offset p) d)" "cpp_eval E sc d = Some (string_data_offset E l)" using strs [OF l] by blast
    show ?thesis using 5 assms(4,5) p k(1) l strs [OF l] d(1) data_offset_value [OF assms(1) R k(2) l(1) k(4) d(2)]
      by (auto simp: string_metric_def unwrap_def simp del: cpp_eval.simps(7,8))
  qed (use assms(4,5) p k(1,4) width opt in auto)
qed

text \<open>Metrics of the tag and the payload.\<close>

lemma tag_metric_value:
  assumes "struct_reported E sc m T P g s fs R root" "x \<in> {TagOffset, TagSize, TagAlign}"
    "metric_expr m (final_metas m g) root x = Ok e" "rust_metric E R x = Some v"
  shows "cpp_eval E sc e = Some v"
proof -
  obtain tagged n where tag: "tagged_context m (tm_schema root) = Ok (tagged, n)" using assms(2,3) by auto
  obtain k t where kt: "payload_field R = Some (k, t)" using assms(2,4) by auto
  have n: "field_named R n = Some t" by (rule tag_reported [OF assms(1) tag kt])
  have root: "tm_schema root = cs_name s" "struct_placed E sc (tm_cpp root) R" "distinct (map fi_name (ri_fields R))"
    using assms(1) by (simp_all add: struct_reported_def)
  show ?thesis
  proof (cases "x = TagAlign")
    case True
    have "field_index m (tm_schema root) n = Ok t" using n reported_fields(2) [OF assms(1)] root(1) by simp
    moreover have "t < field_count R" using n field_named_iff [OF root(3)] by simp
    ultimately show ?thesis using True assms(3,4) tag kt placed_values(2) [OF root(2)] by (auto simp del: cpp_eval.simps)
  next
    case False
    then obtain p where p: "md_path (final_metas m g) (tm_schema root) [n] = Ok p" using assms(2,3) tag by auto
    obtain "meta_ok E sc (tm_cpp root) t (fld R t) p" "cpp_eval E sc (pm_offset p) = Some (field_offset E R t)"
      using path_reported [OF assms(1) p] n by (metis option.inject)
    then show ?thesis using False assms(2-4) tag kt p by (auto simp: meta_ok_def simp del: cpp_eval.simps)
  qed
qed

lemma payload_metric_value:
  assumes "struct_reported E sc m T P g s fs R root" "x \<in> {PayloadOffset, PayloadSize, PayloadAlign}"
    "metric_expr m md root x = Ok e" "rust_metric E R x = Some v" "reports_alignment x \<Longrightarrow> \<forall>k < field_count R. align_kept E R k"
  shows "cpp_eval E sc e = Some v"
proof -
  obtain p where p: "first_payload root = Ok p" using assms(2,3) by (auto simp: payload_align_expr_def)
  obtain k t where kt: "payload_field R = Some (k, t)" using assms(2,4) by auto
  note pk = payload_reported [OF assms(1) p kt]
  have root: "struct_placed E sc (tm_cpp root) R" "distinct (map fi_name (ri_fields R))" using assms(1) by (simp_all add: struct_reported_def)
  show ?thesis
  proof (cases "x = PayloadAlign")
    case True
    have "field_align_expr m root (fi_name (fld R k)) = Ok e"
      using assms(3) True p pk(3) by (auto simp: payload_align_expr_def meta_ok_def)
    moreover have "\<forall>k < field_count R. align_kept E R k" using True assms(5) by simp
    moreover have "field_named R (fi_name (fld R k)) = Some k" using field_named_iff [OF root(2)] pk(2) by simp
    ultimately obtain j where "Some k = Some j" "cpp_eval E sc e = Some (wl_align (field_wire E (fld R j)))"
      by (metis field_align_value [OF assms(1)])
    then have "cpp_eval E sc e = Some (wl_align (field_wire E (fld R k)))" by simp
    then show ?thesis using True assms(4) kt by simp
  next
    case False
    then show ?thesis using assms(2-4) p kt pk(2,3) placed_values(1) [OF root(1) pk(2)]
      by (auto simp: meta_ok_def simp del: cpp_eval.simps)
  qed
qed

text \<open>Every metric with a Rust value is reported as that value.\<close>

lemma metric_value:
  assumes "generated_cpp E m T P sc g" "struct_reported E sc m T P g s fs R root" "s \<in> set (md_schemas m)"
    "metric_expr m (final_metas m g) root x = Ok e" "rust_metric E R x = Some v"
    "reports_alignment x \<Longrightarrow> \<forall>k < field_count R. align_kept E R k"
  shows "cpp_eval E sc e = Some v"
proof -
  have E: "env_ok E" using assms(1) headerD(1) by (auto simp: generated_cpp_def)
  have root: "struct_placed E sc (tm_cpp root) R" "tm_size root = CSizeof (tm_cpp root)" "tm_align root = CAlignof (tm_cpp root)"
    using assms(2) by (simp_all add: struct_reported_def)
  note path = path_metric_value [OF E assms(2) _ assms(4,5)]
  note tag = tag_metric_value [OF assms(2) _ assms(4,5)]
  note payload = payload_metric_value [OF assms(2) _ assms(4-6)]
  have enum: "cpp_eval E sc e = Some v" if x: "x = EnumSize n \<or> x = EnumAlign n" for n
  proof -
    obtain c tm where tm: "enum_field m (tm_schema root) n = Ok c" "md_ty (final_metas m g) c = Ok tm" using x assms(4) by auto
    obtain k where k: "field_named R n = Some k" "\<And>S. cat R k = PathField S \<Longrightarrow> cpp_layout E sc (tm_cpp tm) = Some (ss_wire S)"
      using path_schema_reported [OF assms(1-3) tm] by metis
    obtain S where "cat R k = PathField S" using x assms(5) k(1) by (cases "cat R k") (auto simp: path_metric_def)
    then show ?thesis using x assms(4,5) tm k meta_reported [OF assms(1) tm(2)] by (auto simp: path_metric_def)
  qed
  show ?thesis
  proof (cases x)
    case (FieldAlign n)
    then have "field_align_expr m root n = Ok e" "\<forall>k < field_count R. align_kept E R k" using assms(4,6) by simp_all
    then obtain k where "field_named R n = Some k" "cpp_eval E sc e = Some (wl_align (field_wire E (fld R k)))"
      using field_align_value [OF assms(2)] by metis
    then show ?thesis using FieldAlign assms(5) by simp
  next
    case (ArrayLength n)
    then show ?thesis using array_length_value [OF assms(2)] assms(4,5) by blast
  next
    case (StringCapacity n)
    then show ?thesis using string_capacity_value [OF assms(2)] assms(4,5) by blast
  qed (use assms(4,5) root placed_root [OF root(1)] path tag payload enum in \<open>auto simp del: metric_expr.simps(4-) cpp_eval.simps\<close>)
qed

section \<open>Case arms\<close>

text \<open>The arm of a case appends the keys of its metrics in order, each with the Rust value where the metric has one.\<close>

definition arm_agrees :: "env \<Rightarrow> cpp_scope \<Rightarrow> record_ir \<Rightarrow> metric_entry list \<Rightarrow> (nat \<times> cexpr) list \<Rightarrow> bool" where
  "arm_agrees E sc R entries arm \<longleftrightarrow> list_all2 (\<lambda>x (key, e). key = me_key x \<and>
     (\<forall>v. rust_metric E R (me_metric x) = Some v \<longrightarrow> cpp_eval E sc e = Some v)) entries arm"

lemma metric_arm_agrees:
  assumes "generated_cpp E m T P sc g" "struct_reported E sc m T P g s fs R root" "s \<in> set (md_schemas m)"
    "metric_arm m (final_metas m g) root entries = Ok arm"
    "\<forall>x \<in> set entries. reports_alignment (me_metric x) \<longrightarrow> (\<forall>k < field_count R. align_kept E R k)"
  shows "arm_agrees E sc R entries arm"
  using assms(4,5)
proof (induction entries arbitrary: arm)
  case (Cons x entries)
  then obtain e rest where e: "metric_expr m (final_metas m g) root (me_metric x) = Ok e" "metric_arm m (final_metas m g) root entries = Ok rest"
    "arm = (me_key x, e) # rest" by auto
  have "cpp_eval E sc e = Some v" if "rust_metric E R (me_metric x) = Some v" for v
    using metric_value [OF assms(1-3) e(1) that] Cons.prems(2) by simp
  then show ?case using Cons.IH [OF e(2)] Cons.prems(2) e(3) by (simp add: arm_agrees_def)
qed (simp add: arm_agrees_def)

lemma case_arms:
  "try_fold (\<lambda>arms c. and_then (md_ty md (ca_root c)) (\<lambda>root. and_then (metric_arm m md root (ca_layout c)) (\<lambda>arm. Ok (arms @ [(ca_id c, arm)])))) xs cs = Ok ys \<Longrightarrow>
     \<exists>zs. ys = xs @ zs \<and> list_all2 (\<lambda>c (n, arm). n = ca_id c \<and> (\<exists>root. md_ty md (ca_root c) = Ok root \<and> metric_arm m md root (ca_layout c) = Ok arm)) cs zs"
proof (induction cs arbitrary: xs)
  case (Cons c cs)
  then obtain root arm where r: "md_ty md (ca_root c) = Ok root" "metric_arm m md root (ca_layout c) = Ok arm"
    "try_fold (\<lambda>arms c. and_then (md_ty md (ca_root c)) (\<lambda>root. and_then (metric_arm m md root (ca_layout c)) (\<lambda>arm. Ok (arms @ [(ca_id c, arm)]))))
       (xs @ [(ca_id c, arm)]) cs = Ok ys" by auto
  from Cons.IH [OF r(3)] obtain zs where "ys = xs @ [(ca_id c, arm)] @ zs"
    "list_all2 (\<lambda>c (n, arm). n = ca_id c \<and> (\<exists>root. md_ty md (ca_root c) = Ok root \<and> metric_arm m md root (ca_layout c) = Ok arm)) cs zs" by auto
  then show ?case using r(1,2) by (intro exI [of _ "(ca_id c, arm) # zs"]) simp
qed simp

lemma emitted_arm:
  assumes "generated_cpp E m T P sc g" "emit_cpp m = Ok out" "c \<in> set (md_cases m)"
  obtains root arm where "(ca_id c, arm) \<in> set (lo_case_arms out)" "md_ty (final_metas m g) (ca_root c) = Ok root"
    "metric_arm m (final_metas m g) root (ca_layout c) = Ok arm"
proof -
  have g: "try_fold (gen_schema m) \<lparr>g_helpers = 0, g_decl = [], g_asserts = [], g_metas = []\<rparr> (map cs_name (md_schemas m)) = Ok g"
    using assms(1) by (simp add: generated_cpp_def)
  let ?fold = "try_fold (\<lambda>arms c. and_then (md_ty (final_metas m g) (ca_root c)) (\<lambda>root.
      and_then (metric_arm m (final_metas m g) root (ca_layout c)) (\<lambda>arm. Ok (arms @ [(ca_id c, arm)])))) [] (md_cases m)"
  obtain arms where arms: "?fold = Ok arms" "lo_case_arms out = arms"
    using assms(2) g by (auto simp: emit_cpp_def Let_def final_metas_def)
  from case_arms [OF arms(1)] obtain zs where "arms = zs"
    "list_all2 (\<lambda>c (n, arm). n = ca_id c \<and> (\<exists>root. md_ty (final_metas m g) (ca_root c) = Ok root \<and>
       metric_arm m (final_metas m g) root (ca_layout c) = Ok arm)) (md_cases m) zs" by auto
  then show ?thesis using arms(2) assms(3) by (fastforce simp: list_all2_conv_all_nth in_set_conv_nth intro: that)
qed

end
