(* ===== verification/Zs_Cpp_Reports.thy ===== *)
theory Zs_Cpp_Reports
  imports Zs_Cpp_Metrics
begin

text \<open>
  What both sides of the harness report: a model of three schemas for which the generator's header is computed, and the
  agreement of the two languages on every layout and on every geometric metric of a case.
\<close>

section \<open>A sample model\<close>

text \<open>A model of an enum, a payload tagged by it and a record with an aligned big-endian field, and its Rust supports.\<close>

definition sample_field :: "string \<Rightarrow> ctype \<Rightarrow> cfield" where
  "sample_field n t = \<lparr>cf_name = n, cf_ty = t, cf_endian = Native, cf_align = None, cf_capacity = None, cf_len = None, cf_tag_field = None\<rparr>"

definition sample_fields :: "cfield list" where
  "sample_fields = [sample_field ''kind'' (CSchema ''Kind''), (sample_field ''body'' (CSchema ''Body''))\<lparr>cf_tag_field := Some ''kind''\<rparr>,
     (sample_field ''value'' (CPrimitive U32))\<lparr>cf_endian := Big, cf_align := Some 8\<rparr>]"

definition sample_kind :: "enum_variant list" where
  "sample_kind = [\<lparr>cv_name = ''Data'', cv_raw = 7\<rparr>]"

definition sample_message :: cschema where
  "sample_message = \<lparr>cs_name = ''Message'', cs_kind = CStruct sample_fields, cs_align = Some 16\<rparr>"

definition sample_layout :: "metric_entry list" where
  "sample_layout = [\<lparr>me_key = 1, me_metric = RootSize\<rparr>, \<lparr>me_key = 2, me_metric = FieldOffset ''value''\<rparr>,
     \<lparr>me_key = 3, me_metric = FieldAlign ''value''\<rparr>, \<lparr>me_key = 4, me_metric = TagOffset\<rparr>, \<lparr>me_key = 5, me_metric = PayloadOffset\<rparr>]"

definition sample_case :: case_decl where
  "sample_case = \<lparr>ca_id = 7, ca_root_id = ''message'', ca_root = ''Message'', ca_native = False, ca_value = VNone,
     ca_layout = sample_layout, ca_observe = []\<rparr>"

definition sample_model :: model where
  "sample_model = \<lparr>md_schemas =
     [\<lparr>cs_name = ''Kind'', cs_kind = CScalarEnum ReprU16 Big sample_kind, cs_align = None\<rparr>,
      \<lparr>cs_name = ''Body'', cs_kind = CTaggedEnum ''Kind'' [\<lparr>tv_name = ''Data'', tv_tag_variant = ''Data'', tv_payload = None\<rparr>], cs_align = None\<rparr>,
      sample_message], md_cases = [sample_case]\<rparr>"

abbreviation "sample_enum \<equiv> enum_support linux_x86_64 (rust_enum ''Kind'' ReprU16 Big sample_kind)"
abbreviation "sample_payload \<equiv> tagged_support linux_x86_64 ''Body'' [\<lparr>va_name = ''Data'', va_tag = 7, va_shape = None\<rparr>]"

definition sample_record :: record_ir where
  "sample_record = \<lparr>ri_name = ''Message'', ri_align = Some 16, ri_fields =
     [\<lparr>fi_name = ''kind'', fi_category = PathField sample_enum, fi_align = None\<rparr>,
      \<lparr>fi_name = ''body'', fi_category = TaggedField 0 sample_payload, fi_align = None\<rparr>,
      \<lparr>fi_name = ''value'', fi_category = LeafField (Primitive Big U32), fi_align = Some 8\<rparr>]\<rparr>"

definition sample_schemas :: "string \<Rightarrow> schema_support" where
  "sample_schemas n = (if n = ''Message'' then record_support linux_x86_64 sample_record else sample_enum)"

definition sample_payloads :: "string \<Rightarrow> payload_support" where
  "sample_payloads n = sample_payload"

lemma sample_record_eq: "rust_record sample_schemas sample_payloads sample_message sample_fields = Some sample_record"
  by (simp add: rust_record_def sample_message_def sample_fields_def sample_field_def rust_field_def rust_category_def
      sample_schemas_def sample_payloads_def sample_record_def)

lemma sample_shape: "record_shape linux_x86_64 sample_record"
proof -
  have "enum_ok (rust_enum ''Kind'' ReprU16 Big sample_kind)" by (simp add: enum_ok_def rust_enum_def sample_kind_def scalar_width_def)
  moreover have "align_ok (Some 16)" "align_ok (Some 8)" "align_ok None" by (simp_all add: align_ok_def upt_rec)
  ultimately show ?thesis
    by (auto simp: record_shape_def sample_record_def less_Suc_eq numeral_3_eq_3 tagged_support_def rust_enum_def sample_kind_def nth_Cons')
qed

lemma sample_accepted: "rust_accepts linux_x86_64 sample_model sample_schemas sample_payloads"
proof -
  have "enum_parts sample_model ''Kind'' = Ok (ReprU16, Big, sample_kind)"
    by (simp add: enum_parts_def model_schema_def sample_model_def)
  then show ?thesis
    using sample_record_eq sample_shape
    by (auto simp: rust_accepts_def sample_model_def rust_declared_def sample_message_def sample_schemas_def sample_payloads_def
        rust_variants_def sample_kind_def List.map_filter_def) (simp_all add: sample_fields_def sample_field_def)
qed

lemma sample_corpus: "corpus_ok sample_model"
proof -
  have ok: "list_all (schema_ok (md_schemas sample_model)) (md_schemas sample_model)" 
    by (auto simp: sample_model_def sample_message_def schema_ok_def sample_fields_def sample_field_def tag_ok_def last_of_def List.map_filter_def)
  have "check_cycles (edges_of (md_schemas sample_model)) = Ok ()" by code_simp
  then have "acyclic (refers (edges_of (md_schemas sample_model)))" using check_cycles_iff [OF schemas_closed [OF ok]] by simp
  moreover have "options_ok (md_schemas sample_model)"
    by (auto simp: options_ok_def sample_model_def sample_message_def sample_fields_def sample_field_def)
  ultimately show ?thesis using ok by (simp add: corpus_ok_def)
qed

definition sample_decls :: "cdecl list" where
  "sample_decls =
    [StructDecl (Some (CAlignof ''std::uint16_t'')) ''z0'' [(''std::uint8_t'', ''m0'', Some 2)],
     UsingDecl ''t0'' ''z0'', UnionDecl None ''t1'' [UnitMember ''z1'' ''m0''],
     StructDecl (Some (CAlignof ''std::uint16_t'')) ''z2'' [(''std::uint8_t'', ''m0'', Some 2)],
     StructDecl (Some (CAlignof ''std::uint32_t'')) ''z3'' [(''std::uint8_t'', ''m0'', Some 4)],
     StructDecl (Some (CMaximum (CNum 8) (CAlignof ''z3''))) ''z4'' [(''z3'', ''m0'', None)],
     StructDecl (Some (CNum 16)) ''t2'' [(''z2'', ''m0'', None), (''t1'', ''m1'', None), (''z4'', ''m2'', None)]]"

lemma sample_digits: "fmt_decimal 0 = ''0''" "fmt_decimal (Suc 0) = ''1''" "fmt_decimal (Suc (Suc 0)) = ''2''"
    "fmt_decimal (Suc (Suc (Suc 0))) = ''3''" "fmt_decimal (Suc (Suc (Suc (Suc 0)))) = ''4''"
    "fmt_decimal 2 = ''2''" "fmt_decimal 3 = ''3''" "fmt_decimal 4 = ''4''"
  by code_simp+

lemma sample_names: "typename sample_model ''Kind'' = Ok ''t0''" "typename sample_model ''Body'' = Ok ''t1''" "typename sample_model ''Message'' = Ok ''t2''"
  by (simp_all add: typename_def last_of_def sample_model_def sample_message_def sample_digits)

lemma sample_lookup: "model_schema sample_model ''Kind'' = Ok (md_schemas sample_model ! 0)"
    "model_schema sample_model ''Body'' = Ok (md_schemas sample_model ! 1)" "model_schema sample_model ''Message'' = Ok sample_message"
  by (simp_all add: model_schema_def sample_model_def sample_message_def)

lemma sample_parts:
  "cs_kind (md_schemas sample_model ! 0) = CScalarEnum ReprU16 Big sample_kind"
  "cs_kind (md_schemas sample_model ! 1) = CTaggedEnum ''Kind'' [\<lparr>tv_name = ''Data'', tv_tag_variant = ''Data'', tv_payload = None\<rparr>]"
  "cs_kind (md_schemas sample_model ! Suc 0) = CTaggedEnum ''Kind'' [\<lparr>tv_name = ''Data'', tv_tag_variant = ''Data'', tv_payload = None\<rparr>]"
  "cs_align (md_schemas sample_model ! 1) = None" "cs_align (md_schemas sample_model ! Suc 0) = None" "cs_kind sample_message = CStruct sample_fields" "cs_align sample_message = Some 16"
  "md_cases sample_model = [sample_case]" "map cs_name (md_schemas sample_model) = [''Kind'', ''Body'', ''Message'']"
  by (simp_all add: sample_model_def sample_message_def)

lemma kind_written: "\<exists>bs ns. gen_schema sample_model \<lparr>g_helpers = 0, g_decl = ds, g_asserts = as, g_metas = ms\<rparr> ''Kind'' =
   Ok \<lparr>g_helpers = 1, g_decl = ds @ take 2 sample_decls, g_asserts = bs, g_metas = ns\<rparr>"
  by (simp add: gen_schema_def sample_names sample_lookup raw_def raw_primitive_def fresh_def declare_cpp_def static_assert_def push_meta_def
        sample_digits sample_parts Let_def sample_decls_def)

lemma body_written: "\<exists>bs ns. gen_schema sample_model \<lparr>g_helpers = 1, g_decl = ds, g_asserts = as, g_metas = ms\<rparr> ''Body'' =
   Ok \<lparr>g_helpers = 2, g_decl = ds @ take 1 (drop 2 sample_decls), g_asserts = bs, g_metas = ns\<rparr>"
  by (simp add: gen_schema_def sample_names sample_lookup fresh_def declare_cpp_def static_assert_def push_meta_def
        sample_digits sample_parts member_name_def sample_decls_def numeral_2_eq_2)

lemma kind_field_written: "\<exists>x bs. lower_field sample_model ''Message'' 0 (sample_field ''kind'' (CSchema ''Kind'')) \<lparr>g_helpers = 2, g_decl = ds, g_asserts = as, g_metas = ms\<rparr> =
   Ok ((''m0'', ''z2'', x), \<lparr>g_helpers = 3, g_decl = ds @ take 1 (drop 3 sample_decls), g_asserts = bs, g_metas = ms\<rparr>)"
  by (simp add: lower_field_def lower_type_def align_field_def member_name_def sample_names sample_lookup raw_def raw_primitive_def fresh_def
        declare_cpp_def static_assert_def sample_digits sample_parts sample_field_def Let_def sample_decls_def numeral_2_eq_2)

lemma body_field_written: "\<exists>x bs. lower_field sample_model ''Message'' 1 ((sample_field ''body'' (CSchema ''Body''))\<lparr>cf_tag_field := Some ''kind''\<rparr>) \<lparr>g_helpers = 3, g_decl = ds, g_asserts = as, g_metas = ms\<rparr> =
   Ok ((''m1'', ''t1'', x), \<lparr>g_helpers = 3, g_decl = ds, g_asserts = bs, g_metas = ms\<rparr>)"
  by (simp add: lower_field_def lower_type_def align_field_def member_name_def sample_names sample_lookup sample_digits sample_parts sample_field_def Let_def)

lemma value_type_written: "\<exists>bs. lower_type sample_model ((sample_field ''value'' (CPrimitive U32))\<lparr>cf_endian := Big, cf_align := Some 8\<rparr>) (CPrimitive U32) \<lparr>g_helpers = 3, g_decl = ds, g_asserts = as, g_metas = ms\<rparr> =
   Ok ((''z3'', PkScalar, 4, None, None, None), \<lparr>g_helpers = 4, g_decl = ds @ take 1 (drop 4 sample_decls), g_asserts = bs, g_metas = ms\<rparr>)"
  by (simp add: lower_type_def raw_def raw_primitive_def fresh_def
        declare_cpp_def static_assert_def sample_digits sample_field_def Let_def sample_decls_def)

lemma value_align_written: "\<exists>bs. align_field ((sample_field ''value'' (CPrimitive U32))\<lparr>cf_endian := Big, cf_align := Some 8\<rparr>) ''z3'' \<lparr>g_helpers = 4, g_decl = ds, g_asserts = as, g_metas = ms\<rparr> =
   (''z4'', \<lparr>g_helpers = 5, g_decl = ds @ take 1 (drop 5 sample_decls), g_asserts = bs, g_metas = ms\<rparr>)"
  by (simp add: align_field_def fresh_def declare_cpp_def static_assert_def sample_digits sample_field_def Let_def sample_decls_def)

lemma value_field_written: "\<exists>x bs. lower_field sample_model ''Message'' 2 ((sample_field ''value'' (CPrimitive U32))\<lparr>cf_endian := Big, cf_align := Some 8\<rparr>) \<lparr>g_helpers = 3, g_decl = ds, g_asserts = as, g_metas = ms\<rparr> =
   Ok ((''m2'', ''z4'', x), \<lparr>g_helpers = 5, g_decl = ds @ take 1 (drop 4 sample_decls) @ take 1 (drop 5 sample_decls), g_asserts = bs, g_metas = ms\<rparr>)"
proof -
  let ?f = "(sample_field ''value'' (CPrimitive U32))\<lparr>cf_endian := Big, cf_align := Some 8\<rparr>"
  obtain bs where bs: "lower_type sample_model ?f (CPrimitive U32) \<lparr>g_helpers = 3, g_decl = ds, g_asserts = as, g_metas = ms\<rparr> =
     Ok ((''z3'', PkScalar, 4, None, None, None), \<lparr>g_helpers = 4, g_decl = ds @ take 1 (drop 4 sample_decls), g_asserts = bs, g_metas = ms\<rparr>)"
    using value_type_written by blast
  obtain cs where cs: "align_field ?f ''z3'' \<lparr>g_helpers = 4, g_decl = ds @ take 1 (drop 4 sample_decls), g_asserts = bs, g_metas = ms\<rparr> =
     (''z4'', \<lparr>g_helpers = 5, g_decl = (ds @ take 1 (drop 4 sample_decls)) @ take 1 (drop 5 sample_decls), g_asserts = cs, g_metas = ms\<rparr>)"
    using value_align_written by blast
  have "optional_inner_of (cf_ty ?f) = (CPrimitive U32, False)" by (simp add: sample_field_def)
  then show ?thesis using sample_names(3) by (simp add: lower_field_def bs cs Let_def member_name_def sample_digits del: One_nat_def take_Suc)
qed

lemma message_written: "\<exists>bs ns. gen_schema sample_model \<lparr>g_helpers = 2, g_decl = ds, g_asserts = as, g_metas = ms\<rparr> ''Message'' =
   Ok \<lparr>g_helpers = 5, g_decl = ds @ drop 3 sample_decls, g_asserts = bs, g_metas = ns\<rparr>"
proof -
  obtain x bs where x: "lower_field sample_model ''Message'' 0 (sample_field ''kind'' (CSchema ''Kind'')) \<lparr>g_helpers = 2, g_decl = ds, g_asserts = as, g_metas = ms\<rparr> =
     Ok ((''m0'', ''z2'', x), \<lparr>g_helpers = 3, g_decl = ds @ take 1 (drop 3 sample_decls), g_asserts = bs, g_metas = ms\<rparr>)"
    using kind_field_written by blast
  obtain y cs where y: "lower_field sample_model ''Message'' 1 ((sample_field ''body'' (CSchema ''Body''))\<lparr>cf_tag_field := Some ''kind''\<rparr>)
       \<lparr>g_helpers = 3, g_decl = ds @ take 1 (drop 3 sample_decls), g_asserts = bs, g_metas = ms\<rparr> =
     Ok ((''m1'', ''t1'', y), \<lparr>g_helpers = 3, g_decl = ds @ take 1 (drop 3 sample_decls), g_asserts = cs, g_metas = ms\<rparr>)"
    using body_field_written by blast
  obtain z es where z: "lower_field sample_model ''Message'' 2 ((sample_field ''value'' (CPrimitive U32))\<lparr>cf_endian := Big, cf_align := Some 8\<rparr>)
       \<lparr>g_helpers = 3, g_decl = ds @ take 1 (drop 3 sample_decls), g_asserts = cs, g_metas = ms\<rparr> =
     Ok ((''m2'', ''z4'', z), \<lparr>g_helpers = 5, g_decl = (ds @ take 1 (drop 3 sample_decls)) @ take 1 (drop 4 sample_decls) @ take 1 (drop 5 sample_decls),
       g_asserts = es, g_metas = ms\<rparr>)"
    using value_field_written by blast
  have "lower_fields sample_model ''Message'' 0 sample_fields \<lparr>g_helpers = 2, g_decl = ds, g_asserts = as, g_metas = ms\<rparr> =
     Ok ([(''m0'', ''z2'', x), (''m1'', ''t1'', y), (''m2'', ''z4'', z)], \<lparr>g_helpers = 5,
       g_decl = (ds @ take 1 (drop 3 sample_decls)) @ take 1 (drop 4 sample_decls) @ take 1 (drop 5 sample_decls), g_asserts = es, g_metas = ms\<rparr>)"
    using x y z by (simp add: sample_fields_def numeral_2_eq_2 del: take_Suc)
  then show ?thesis
    by (simp add: gen_schema_def sample_lookup sample_names sample_parts push_meta_def static_assert_def declare_cpp_def sample_decls_def)
qed

lemma sample_run: "\<exists>g. try_fold (gen_schema sample_model) \<lparr>g_helpers = 0, g_decl = [], g_asserts = [], g_metas = []\<rparr>
    (map cs_name (md_schemas sample_model)) = Ok g \<and> g_decl g = sample_decls"
proof -
  obtain as ms where k: "gen_schema sample_model \<lparr>g_helpers = 0, g_decl = [], g_asserts = [], g_metas = []\<rparr> ''Kind'' =
      Ok \<lparr>g_helpers = 1, g_decl = [] @ take 2 sample_decls, g_asserts = as, g_metas = ms\<rparr>"
    using kind_written by blast
  obtain bs ns where b: "gen_schema sample_model \<lparr>g_helpers = 1, g_decl = [] @ take 2 sample_decls, g_asserts = as, g_metas = ms\<rparr> ''Body'' =
      Ok \<lparr>g_helpers = 2, g_decl = ([] @ take 2 sample_decls) @ take 1 (drop 2 sample_decls), g_asserts = bs, g_metas = ns\<rparr>"
    using body_written by blast
  obtain cs os where c: "gen_schema sample_model \<lparr>g_helpers = 2, g_decl = ([] @ take 2 sample_decls) @ take 1 (drop 2 sample_decls), g_asserts = bs, g_metas = ns\<rparr>
      ''Message'' = Ok \<lparr>g_helpers = 5, g_decl = (([] @ take 2 sample_decls) @ take 1 (drop 2 sample_decls)) @ drop 3 sample_decls, g_asserts = cs, g_metas = os\<rparr>"
    using message_written by blast
  have "(([] @ take 2 sample_decls) @ take 1 (drop 2 sample_decls)) @ drop 3 sample_decls = sample_decls" by (simp add: sample_decls_def)
  then show ?thesis using k b c sample_parts by simp
qed

lemma sample_powers: "is_power_of_two 2" "is_power_of_two 4" "is_power_of_two 8" "is_power_of_two 16"
  by (simp_all add: is_power_of_two_def upt_rec)

lemma sample_compiled: "\<exists>sc. compile_decls linux_x86_64 [] sample_decls = Some sc"
  by (simp add: sample_decls_def compile_decl_def cpp_lookup_def cpp_layout_def builtin_types_def struct_type_def union_type_def with_alignas_def
      class_layout_def prim_layout_def array_layout_def repr_c_def repr_c_union_def round_up_def bytes_layout_def sample_powers)

lemma sample_uniform: "uniform_align linux_x86_64"
  by (simp add: uniform_align_def)

lemma sample_generated: "\<exists>g sc. generated_cpp linux_x86_64 sample_model sample_schemas sample_payloads sc g \<and>
    compile_decls linux_x86_64 [] (g_decl g) = Some sc"
  using sample_run sample_compiled sample_corpus sample_accepted header_of_compile [OF env_ok_linux_x86_64 sample_uniform]
  unfolding generated_cpp_def by metis

lemma sample_named: "field_named sample_record ''value'' = Some 2" "field_named sample_record ''kind'' = Some 0"
  "payload_field sample_record = Some (1, 0)" "tagged_context sample_model ''Message'' = Ok (''Body'', ''kind'')"
  by (simp_all add: field_named_def payload_field_def sample_record_def upt_rec tagged_context_def sample_lookup sample_parts sample_fields_def
      sample_field_def unwrap_def)

lemma sample_arm:
  assumes "generated_cpp linux_x86_64 sample_model sample_schemas sample_payloads sc g"
  shows "\<exists>root arm. md_ty (final_metas sample_model g) ''Message'' = Ok root \<and> metric_arm sample_model (final_metas sample_model g) root sample_layout = Ok arm"
proof -
  have kind: "sample_message \<in> set (md_schemas sample_model)" "cs_kind sample_message = CStruct sample_fields" "cs_name sample_message = ''Message''"
    by (simp_all add: sample_model_def sample_message_def)
  obtain R root where r: "struct_reported linux_x86_64 sc sample_model sample_schemas sample_payloads g sample_message sample_fields R root"
    by (rule struct_reportedI [OF assms kind(1,2)])
  then have R: "R = sample_record" using sample_record_eq by (simp add: struct_reported_def)
  note r = r [unfolded R]
  have root: "md_ty (final_metas sample_model g) ''Message'' = Ok root" "tm_schema root = ''Message''"
    using r kind(3) by (simp_all add: struct_reported_def)
  have path: "md_path (final_metas sample_model g) ''Message'' [''value''] = Ok (tm_paths root ! 2)"
    "md_path (final_metas sample_model g) ''Message'' [''kind''] = Ok (tm_paths root ! 0)"
    using r kind(3) sample_named by (auto simp: struct_reported_def)
  have field: "cfield_of sample_model ''Message'' ''value'' = Ok (sample_fields ! 2)"
    using reported_fields(1) [OF r, of "''value''"] kind(3) sample_named(1) by simp
  have "1 < field_count sample_record" by (simp add: sample_record_def)
  moreover from this have "field_count sample_record \<le> length (tm_paths root)"
    "meta_ok linux_x86_64 sc (tm_cpp root) 1 (fld sample_record 1) (tm_paths root ! 1)"
    using r unfolding struct_reported_def by blast+
  moreover have "cat sample_record 1 = TaggedField 0 sample_payload" by (simp add: sample_record_def)
  ultimately have "tm_paths root ! 1 \<in> set (tm_paths root)" "pm_kind (tm_paths root ! 1) = PkPayload"
    unfolding meta_ok_def by (intro nth_mem, linarith, blast)
  then have "find (\<lambda>p. pm_kind p = PkPayload) (tm_paths root) \<noteq> None" unfolding find_None_iff by blast
  then have "\<exists>p. first_payload root = Ok p" by (auto simp: first_payload_def unwrap_def)
  then show ?thesis
    using root path field sample_named(4) by (auto simp: sample_layout_def field_align_expr_def sample_fields_def sample_field_def)
qed

lemma sample_emitted: "\<exists>out sc. emit_cpp sample_model = Ok out \<and> compile_decls linux_x86_64 [] (lo_declarations out) = Some sc"
proof -
  obtain g sc where g: "generated_cpp linux_x86_64 sample_model sample_schemas sample_payloads sc g" "compile_decls linux_x86_64 [] (g_decl g) = Some sc"
    using sample_generated by blast
  obtain root arm where arm: "md_ty (final_metas sample_model g) ''Message'' = Ok root" "metric_arm sample_model (final_metas sample_model g) root sample_layout = Ok arm"
    using sample_arm [OF g(1)] by blast
  have "try_fold (gen_schema sample_model) \<lparr>g_helpers = 0, g_decl = [], g_asserts = [], g_metas = []\<rparr> (map cs_name (md_schemas sample_model)) = Ok g"
    using g(1) by (simp add: generated_cpp_def)
  note run = this
  have cases: "md_cases sample_model = [sample_case]" "ca_root sample_case = ''Message''" "ca_layout sample_case = sample_layout"
    by (simp_all add: sample_model_def sample_case_def)
  have "emit_cpp sample_model = Ok \<lparr>lo_declarations = g_decl g, lo_assertions = g_asserts g, lo_case_arms = [(ca_id sample_case, arm)],
      lo_metadata = final_metas sample_model g\<rparr>"
    unfolding emit_cpp_def run and_then.simps Let_def final_metas_def [symmetric] cases(1) using arm cases(2,3) by simp
  then show ?thesis using g(2) by simp
qed

section \<open>Agreement\<close>

text \<open>
  C36. The two languages agree on every layout. Take a corpus the front end accepts, with Rust declarations the macro
  compiles: if the C++ header the generator writes compiles, then every schema has the size and alignment of its Rust wire
  in it, and every member of a struct the offset, size and alignment of the record's field.
\<close>

theorem cpp_layouts_agree:
  assumes "env_ok E" "uniform_align E" "corpus_ok m" "rust_accepts E m T P" "emit_cpp m = Ok out"
    "compile_decls E [] (lo_declarations out) = Some sc" "s \<in> set (md_schemas m)"
  shows "laid_out E sc m T P s"
  using emitted_generated [OF assms(1-6)] generated_laid_out assms(7) by metis

theorem cpp_layouts_agree_witness:
  "\<exists>out sc t. emit_cpp sample_model = Ok out \<and> compile_decls linux_x86_64 [] (lo_declarations out) = Some sc \<and>
     typename sample_model ''Message'' = Ok t \<and> struct_placed linux_x86_64 sc t sample_record"
proof -
  obtain out sc where h: "emit_cpp sample_model = Ok out" "compile_decls linux_x86_64 [] (lo_declarations out) = Some sc"
    using sample_emitted by blast
  have "sample_message \<in> set (md_schemas sample_model)" by (simp add: sample_model_def)
  then have "laid_out linux_x86_64 sc sample_model sample_schemas sample_payloads sample_message"
    using cpp_layouts_agree [OF env_ok_linux_x86_64 sample_uniform sample_corpus sample_accepted h] by blast
  moreover have "cs_kind sample_message = CStruct sample_fields" "cs_name sample_message = ''Message''" by (simp_all add: sample_message_def)
  ultimately show ?thesis using h sample_record_eq by (auto simp: laid_out_def)
qed


lemma sample_wires:
  "field_wire linux_x86_64 (fld sample_record 0) = \<lparr>wl_size = 2, wl_align = 2\<rparr>"
  "field_wire linux_x86_64 (fld sample_record 1) = \<lparr>wl_size = 1, wl_align = 1\<rparr>"
  "field_wire linux_x86_64 (fld sample_record 2) = \<lparr>wl_size = 8, wl_align = 8\<rparr>"
  by (simp_all add: sample_record_def field_wire_def enum_support_def enum_wire_def rust_enum_def tagged_support_def payload_wire_def variant_wire_def
      repr_c_union_def repr_c_def bytes_layout_def prim_layout_def round_up_def aligned_layout_def aligned_members_def align_marker_def array_layout_def)

lemma sample_base: "base_wire linux_x86_64 sample_record = \<lparr>wl_size = 16, wl_align = 8\<rparr>"
  "place 0 (map (field_wire linux_x86_64) (ri_fields sample_record)) = [0, 2, 8]"
proof -
  have wires: "map (field_wire linux_x86_64) (ri_fields sample_record) = [\<lparr>wl_size = 2, wl_align = 2\<rparr>, \<lparr>wl_size = 1, wl_align = 1\<rparr>, \<lparr>wl_size = 8, wl_align = 8\<rparr>]"
    using sample_wires by (simp add: sample_record_def)
  show "base_wire linux_x86_64 sample_record = \<lparr>wl_size = 16, wl_align = 8\<rparr>"
    "place 0 (map (field_wire linux_x86_64) (ri_fields sample_record)) = [0, 2, 8]"
    unfolding base_wire_def wires by (simp_all add: repr_c_def round_up_def)
qed

lemma sample_record_wire: "record_wire linux_x86_64 sample_record = \<lparr>wl_size = 16, wl_align = 16\<rparr>"
proof -
  have "ri_align sample_record = Some 16" by (simp add: sample_record_def)
  then show ?thesis
    unfolding record_wire_def sample_base
    by (simp add: aligned_layout_def aligned_members_def align_marker_def array_layout_def repr_c_def round_up_def)
qed

lemma sample_offset: "k < field_count sample_record \<Longrightarrow> field_offset linux_x86_64 sample_record k = [0, 2, 8] ! k"
  by (simp add: field_offset_def sample_base)
    (simp add: sample_record_def aligned_value_offset_def aligned_members_def align_marker_def array_layout_def Let_def round_up_def)

lemma sample_aligns: "field_count sample_record = 3" "fi_align (fld sample_record 0) = None" "fi_align (fld sample_record 1) = None"
    "fi_align (fld sample_record 2) = Some 8"
  by (simp_all add: sample_record_def)

lemma sample_kept: "k < field_count sample_record \<Longrightarrow> align_kept linux_x86_64 sample_record k"
proof -
  assume "k < field_count sample_record"
  then consider "k = 0" | "k = 1" | "k = 2" using sample_aligns(1) by linarith
  then show ?thesis by cases (simp_all only: align_kept_def sample_aligns sample_wires option.case wlayout.select_convs)
qed


end
