(* ===== verification/Zs_Report.thy ===== *)
theory Zs_Report
  imports Zs_Error
begin

text \<open>
  The report frames of the conformance harness, \<open>conformance/src/report.rs\<close>, and the wrappers around the three
  C++ functions that produce them, \<open>conformance/src/ffi.rs\<close>. A frame is a version, a case id, a pair count and
  the key-value pairs, in \<open>u64\<close> slots. The C++ functions are parameters: each is given what Rust passes and
  answers with a status byte, the contents of the output slice after the call and the count it wrote.
\<close>

type_synonym u64 = "64 word"
type_synonym u32 = "32 word"

section \<open>Errors\<close>

datatype status =
    StatusOk | NullWritten | UnknownId | InvalidInputLength | NullInput | NullOutput | InsufficientCapacity
  | CountOverflowOrInternal

datatype ffi_error = FfiStatus status | UnknownStatus byte

datatype harness_error =
    Ffi ffi_error
  | ReportSlotOverflow usize
  | WrittenExceedsCapacity usize usize
  | InvalidReportLength usize usize
  | InvalidReportVersion u64
  | ReportCaseIdOutOfRange u64
  | UnexpectedReportCaseId u32 u32
  | ReportPairCountOutOfRange u64
  | UnexpectedReportPairCount usize usize
  | ZeroReportKey usize
  | DuplicateReportKey u64
  | UnexpectedReportKey usize u64 u64
  | ValueOutOfRange string usize
  | InvalidByteLength usize usize
  | InvalidData string

definition status_try_from :: "byte \<Rightarrow> (ffi_error, status) res" where
  "status_try_from raw = (case unat raw of
     0 \<Rightarrow> Ok StatusOk | Suc n \<Rightarrow>
       if n < 7 then Ok ([NullWritten, UnknownId, InvalidInputLength, NullInput, NullOutput, InsufficientCapacity,
         CountOverflowOrInternal] ! n) else Err (UnknownStatus raw))"

text \<open>\<open>*status as u8\<close>.\<close>

fun status_code :: "status \<Rightarrow> byte" where
  "status_code StatusOk = 0" | "status_code NullWritten = 1" | "status_code UnknownId = 2"
| "status_code InvalidInputLength = 3" | "status_code NullInput = 4" | "status_code NullOutput = 5"
| "status_code InsufficientCapacity = 6" | "status_code CountOverflowOrInternal = 7"

fun fmt_status :: "status \<Rightarrow> string" where
  "fmt_status StatusOk = ''success''"
| "fmt_status NullWritten = ''null or misaligned written pointer''"
| "fmt_status UnknownId = ''unknown case ID''"
| "fmt_status InvalidInputLength = ''invalid input length''"
| "fmt_status NullInput = ''null input pointer''"
| "fmt_status NullOutput = ''null output pointer''"
| "fmt_status InsufficientCapacity = ''insufficient output capacity''"
| "fmt_status CountOverflowOrInternal = ''count overflow or internal error''"

fun fmt_ffi_error :: "ffi_error \<Rightarrow> string" where
  "fmt_ffi_error (FfiStatus s) =
     ''conformance FFI returned status '' @ fmt_decimal (unat (status_code s)) @ '' ('' @ fmt_status s @ '')''"
| "fmt_ffi_error (UnknownStatus raw) = ''conformance FFI returned unknown status '' @ fmt_decimal (unat raw)"

fun fmt_harness_error :: "harness_error \<Rightarrow> string" where
  "fmt_harness_error (Ffi e) = fmt_ffi_error e"
| "fmt_harness_error (ReportSlotOverflow n) = ''report slot count overflows for '' @ fmt_decimal n @ '' pairs''"
| "fmt_harness_error (WrittenExceedsCapacity w c) =
     ''FFI reported '' @ fmt_decimal w @ '' slots written into capacity '' @ fmt_decimal c"
| "fmt_harness_error (InvalidReportLength ex ac) =
     ''invalid report length: expected '' @ fmt_decimal ex @ '' slots, got '' @ fmt_decimal ac"
| "fmt_harness_error (InvalidReportVersion v) = ''unsupported report version '' @ fmt_decimal (unat v)"
| "fmt_harness_error (ReportCaseIdOutOfRange v) = ''report case ID '' @ fmt_decimal (unat v) @ '' does not fit u32''"
| "fmt_harness_error (UnexpectedReportCaseId ex ac) =
     ''unexpected report case ID: expected '' @ fmt_decimal (unat ex) @ '', got '' @ fmt_decimal (unat ac)"
| "fmt_harness_error (ReportPairCountOutOfRange v) = ''report pair count '' @ fmt_decimal (unat v) @ '' does not fit usize''"
| "fmt_harness_error (UnexpectedReportPairCount ex ac) =
     ''unexpected report pair count: expected '' @ fmt_decimal ex @ '', got '' @ fmt_decimal ac"
| "fmt_harness_error (ZeroReportKey i) = ''report key at pair '' @ fmt_decimal i @ '' is zero''"
| "fmt_harness_error (DuplicateReportKey k) = ''duplicate report key '' @ fmt_decimal (unat k)"
| "fmt_harness_error (UnexpectedReportKey i ex ac) =
     ''unexpected report key at pair '' @ fmt_decimal i @ '': expected '' @ fmt_decimal (unat ex) @ '', got '' @ fmt_decimal (unat ac)"
| "fmt_harness_error (ValueOutOfRange what v) = what @ '' value '' @ fmt_decimal v @ '' does not fit the report representation''"
| "fmt_harness_error (InvalidByteLength ex ac) = ''invalid byte length: expected '' @ fmt_decimal ex @ '', got '' @ fmt_decimal ac"
| "fmt_harness_error (InvalidData s) = s"

section \<open>Frames\<close>

record report =
  rp_pairs :: "(u64 \<times> u64) list"

definition checked_report_slots :: "env \<Rightarrow> usize \<Rightarrow> (harness_error, usize) res" where
  "checked_report_slots E n =
     (if n * 2 < usize_limit E \<and> n * 2 + 3 < usize_limit E then Ok (n * 2 + 3) else Err (ReportSlotOverflow n))"

text \<open>\<open>chunks_exact(2)\<close>.\<close>

fun chunk_pairs :: "'a list \<Rightarrow> ('a \<times> 'a) list" where
  "chunk_pairs (k # v # rest) = (k, v) # chunk_pairs rest"
| "chunk_pairs _ = []"

text \<open>The loop over the expected keys and the pairs of the frame.\<close>

fun parse_pairs :: "nat \<Rightarrow> (u64 \<times> (u64 \<times> u64)) list \<Rightarrow> (u64 \<times> u64) list \<Rightarrow> (harness_error, (u64 \<times> u64) list) res" where
  "parse_pairs index [] pairs = Ok pairs"
| "parse_pairs index ((want, (key, v)) # rest) pairs =
     (if key = 0 then Err (ZeroReportKey index)
      else if list_ex (\<lambda>(seen, _). seen = key) pairs then Err (DuplicateReportKey key)
      else if key \<noteq> want then Err (UnexpectedReportKey index want key)
      else parse_pairs (Suc index) rest (pairs @ [(key, v)]))"

text \<open>\<open>u32::try_from\<close> and \<open>usize::try_from\<close> of a slot.\<close>

definition slot_u32 :: "u64 \<Rightarrow> (harness_error, u32) res" where
  "slot_u32 v = (if unat v < 2 ^ 32 then Ok (ucast v) else Err (ReportCaseIdOutOfRange v))"

definition slot_usize :: "env \<Rightarrow> u64 \<Rightarrow> (harness_error, usize) res" where
  "slot_usize E v = (if unat v < usize_limit E then Ok (unat v) else Err (ReportPairCountOutOfRange v))"

definition report_parse :: "env \<Rightarrow> u32 \<Rightarrow> u64 list \<Rightarrow> u64 list \<Rightarrow> usize \<Rightarrow> (harness_error, report) res" where
  "report_parse E expected_case_id expected_keys slots written =
     (if written > length slots then Err (WrittenExceedsCapacity written (length slots))
      else and_then (checked_report_slots E (length expected_keys)) (\<lambda>expected_len.
      if written \<noteq> expected_len then Err (InvalidReportLength expected_len written)
      else let frame = take written slots in
      if frame ! 0 \<noteq> 1 then Err (InvalidReportVersion (frame ! 0))
      else and_then (slot_u32 (frame ! 1)) (\<lambda>actual_case_id.
      if actual_case_id \<noteq> expected_case_id then Err (UnexpectedReportCaseId expected_case_id actual_case_id)
      else and_then (slot_usize E (frame ! 2)) (\<lambda>actual_count.
      if actual_count \<noteq> length expected_keys then Err (UnexpectedReportPairCount (length expected_keys) actual_count)
      else and_then (checked_report_slots E actual_count) (\<lambda>actual_len.
      if actual_len \<noteq> written then Err (InvalidReportLength actual_len written)
      else and_then (parse_pairs 0 (zip expected_keys (chunk_pairs (drop 3 frame))) []) (\<lambda>pairs.
      Ok \<lparr>rp_pairs = pairs\<rparr>))))))"

section \<open>The foreign functions\<close>

text \<open>\<open>BuildCaseContract\<close>: what the build script records of each case.\<close>

record case_contract =
  cc_case_id :: u32
  cc_root_id :: string
  cc_layout_keys :: "u64 list"
  cc_observation_keys :: "u64 list"

definition ffi_status :: "byte \<Rightarrow> (ffi_error, unit) res" where
  "ffi_status raw = and_then (status_try_from raw) (\<lambda>s. case s of StatusOk \<Rightarrow> Ok () | other \<Rightarrow> Err (FfiStatus other))"

definition contract :: "case_contract list \<Rightarrow> u32 \<Rightarrow> (ffi_error, case_contract) res" where
  "contract cases cid = (case find (\<lambda>c. cc_case_id c = cid) cases of Some c \<Rightarrow> Ok c | None \<Rightarrow> Err (FfiStatus UnknownId))"

definition frame_capacity :: "env \<Rightarrow> u64 list \<Rightarrow> (ffi_error, usize) res" where
  "frame_capacity E ks =
     (if length ks * 2 < usize_limit E \<and> length ks * 2 + 3 < usize_limit E then Ok (length ks * 2 + 3)
      else Err (FfiStatus CountOverflowOrInternal))"

text \<open>\<open>zs_layout_report(case_id, output, capacity, written)\<close> and \<open>zs_write_fixture\<close> on an output slice.\<close>

type_synonym 'a zs_output = "u32 \<Rightarrow> 'a list \<Rightarrow> byte \<times> 'a list \<times> usize"

text \<open>\<open>zs_inspect_fixture\<close>, which also reads input bytes.\<close>

type_synonym zs_inspect = "u32 \<Rightarrow> byte list \<Rightarrow> u64 list \<Rightarrow> byte \<times> u64 list \<times> usize"

definition cpp_layout_report :: "env \<Rightarrow> case_contract list \<Rightarrow> u64 zs_output \<Rightarrow> u32 \<Rightarrow> (harness_error, report) res" where
  "cpp_layout_report E cases zs_layout_report cid =
     and_then (map_err Ffi (contract cases cid)) (\<lambda>c.
     and_then (map_err Ffi (frame_capacity E (cc_layout_keys c))) (\<lambda>capacity.
     case zs_layout_report cid (replicate capacity 0) of (raw, slots, written) \<Rightarrow>
     and_then (map_err Ffi (ffi_status raw)) (\<lambda>_.
     report_parse E cid (cc_layout_keys c) slots written)))"

definition cpp_write_fixture_into :: "byte zs_output \<Rightarrow> u32 \<Rightarrow> byte list \<Rightarrow> (ffi_error, usize) res \<times> byte list" where
  "cpp_write_fixture_into zs_write_fixture cid output =
     (case zs_write_fixture cid output of (raw, output', written) \<Rightarrow>
        (and_then (ffi_status raw) (\<lambda>_.
           if written > length output' then Err (FfiStatus CountOverflowOrInternal) else Ok written), output'))"

definition cpp_inspect_fixture_into ::
    "env \<Rightarrow> case_contract list \<Rightarrow> zs_inspect \<Rightarrow> u32 \<Rightarrow> byte list \<Rightarrow> u64 list \<Rightarrow> (ffi_error, usize) res \<times> u64 list" where
  "cpp_inspect_fixture_into E cases zs_inspect_fixture cid input output =
     (case and_then (contract cases cid) (\<lambda>c. and_then (frame_capacity E (cc_observation_keys c)) (\<lambda>needed.
        if length output < needed then Err (FfiStatus InsufficientCapacity) else Ok needed)) of
        Ok needed \<Rightarrow> (case zs_inspect_fixture cid input output of (raw, output', written) \<Rightarrow>
          (and_then (ffi_status raw) (\<lambda>_.
             if written \<noteq> needed \<or> written > length output' then Err (FfiStatus CountOverflowOrInternal) else Ok written), output'))
      | Err e \<Rightarrow> (Err e, output)
      | Panic \<Rightarrow> (Panic, output))"

definition cpp_write_fixture :: "byte zs_output \<Rightarrow> u32 \<Rightarrow> usize \<Rightarrow> (ffi_error, byte list) res" where
  "cpp_write_fixture zs_write_fixture cid expected_len =
     (case cpp_write_fixture_into zs_write_fixture cid (replicate expected_len 0) of (r, output) \<Rightarrow>
        and_then r (\<lambda>written.
          if written \<noteq> expected_len then Err (FfiStatus CountOverflowOrInternal) else Ok output))"

definition cpp_inspect_fixture ::
    "env \<Rightarrow> case_contract list \<Rightarrow> zs_inspect \<Rightarrow> u32 \<Rightarrow> byte list \<Rightarrow> (harness_error, report) res" where
  "cpp_inspect_fixture E cases zs_inspect_fixture cid input =
     and_then (map_err Ffi (contract cases cid)) (\<lambda>c.
     and_then (map_err Ffi (frame_capacity E (cc_observation_keys c))) (\<lambda>capacity.
     case zs_inspect_fixture cid input (replicate capacity 0) of (raw, slots, written) \<Rightarrow>
     and_then (map_err Ffi (ffi_status raw)) (\<lambda>_.
     report_parse E cid (cc_observation_keys c) slots written)))"

section \<open>What an accepted frame is\<close>

text \<open>The frame of a list of pairs, as \<open>zs_layout_report\<close> and \<open>zs_inspect_fixture\<close> document it.\<close>

definition report_frame :: "u32 \<Rightarrow> (u64 \<times> u64) list \<Rightarrow> u64 list" where
  "report_frame cid pairs = 1 # ucast cid # of_nat (length pairs) # concat (map (\<lambda>(k, v). [k, v]) pairs)"

lemma length_pair_slots [simp]: "length (concat (map (\<lambda>(k, v). [k, v]) ps)) = length ps * 2"
  by (induction ps) auto

lemma chunk_pairs_slots [simp]: "chunk_pairs (concat (map (\<lambda>(k, v). [k, v]) ps)) = ps"
  by (induction ps) auto

lemma slots_chunk_pairs: "length xs = n * 2 \<Longrightarrow> concat (map (\<lambda>(k, v). [k, v]) (chunk_pairs xs)) = xs \<and> length (chunk_pairs xs) = n"
proof (induction xs arbitrary: n rule: chunk_pairs.induct)
  case (1 k v rest)
  then show ?case by (cases n) auto
qed auto

lemma parse_pairs_Ok:
  assumes "length ks = length ps"
  shows "parse_pairs i (zip ks ps) acc = Ok r \<longleftrightarrow>
    map fst ps = ks \<and> r = acc @ ps \<and> 0 \<notin> set ks \<and> distinct ks \<and> set (map fst acc) \<inter> set ks = {}"
  using assms
proof (induction ks ps arbitrary: i acc rule: list_induct2)
  case (Cons k ks p ps)
  show ?case
    using Cons.IH [of "Suc i" "acc @ [p]"] by (cases p) (auto simp: list_ex_iff rev_image_eqI)
qed auto

lemma parse_pairs_total: "parse_pairs i kps acc \<noteq> Panic"
  by (induction i kps acc rule: parse_pairs.induct) auto

lemma slot_u32_Ok: "slot_u32 v = Ok cid \<longleftrightarrow> v = ucast cid"
proof
  assume "slot_u32 v = Ok cid"
  then have "unat v < 2 ^ 32" "cid = ucast v" by (auto simp: slot_u32_def split: if_splits)
  then show "v = ucast cid" by (simp add: word_unat_eq_iff unsigned_ucast_eq take_bit_nat_eq_self)
next
  assume "v = ucast cid"
  moreover have "unat (ucast cid :: u64) = unat cid" using unsigned_less [of cid, where 'a = nat] by (simp add: unsigned_ucast_eq take_bit_nat_eq_self)
  moreover have "unat cid < 2 ^ 32" using unsigned_less [of cid, where 'a = nat] by simp
  ultimately show "slot_u32 v = Ok cid" by (simp add: slot_u32_def word_unat_eq_iff unsigned_ucast_eq take_bit_nat_eq_self)
qed

definition frame_holds :: "env \<Rightarrow> u32 \<Rightarrow> u64 list \<Rightarrow> u64 list \<Rightarrow> usize \<Rightarrow> report \<Rightarrow> bool" where
  "frame_holds E cid ks slots written r \<longleftrightarrow>
     written \<le> length slots \<and> written < usize_limit E \<and> take written slots = report_frame cid (rp_pairs r) \<and>
     map fst (rp_pairs r) = ks \<and> distinct ks \<and> 0 \<notin> set ks"

lemma report_parse_total: "report_parse E cid ks slots written \<noteq> Panic"
  by (auto simp: report_parse_def checked_report_slots_def slot_u32_def slot_usize_def Let_def parse_pairs_total split: if_splits)

lemma report_parse_Ok:
  assumes "env_ok E"
  shows "report_parse E cid ks slots written = Ok r \<longleftrightarrow> frame_holds E cid ks slots written r"
proof -
  have limit: "usize_limit E \<le> 2 ^ 64" using assms by (auto simp: env_ok_def target_ok_def usize_limit_def)
  show ?thesis
  proof (cases "written \<le> length slots \<and> written = length ks * 2 + 3 \<and> written < usize_limit E")
    case True
    define frame where "frame = take written slots"
    have "length frame = Suc (Suc (Suc (length ks * 2)))" using True by (simp add: frame_def)
    then obtain v i n rest where frame: "frame = v # i # n # rest" "length rest = length ks * 2"
      by (auto simp: length_Suc_conv)
    have chunks: "concat (map (\<lambda>(k, v). [k, v]) (chunk_pairs rest)) = rest" "length (chunk_pairs rest) = length ks"
      using slots_chunk_pairs [OF frame(2)] by simp_all
    have count: "unat n = length ks \<longleftrightarrow> n = of_nat (length ks)"
      using True limit by (auto simp: word_unat_eq_iff unat_of_nat)
    have "report_parse E cid ks slots written = Ok r \<longleftrightarrow>
        v = 1 \<and> slot_u32 i = Ok cid \<and> unat n = length ks \<and> parse_pairs 0 (zip ks (chunk_pairs rest)) [] = Ok (rp_pairs r)"
      unfolding report_parse_def Let_def frame_def [symmetric] frame(1)
      using True by (cases r) (auto simp: checked_report_slots_def slot_usize_def)
    also have "\<dots> \<longleftrightarrow> v = 1 \<and> i = ucast cid \<and> n = of_nat (length ks) \<and> rp_pairs r = chunk_pairs rest \<and>
        map fst (rp_pairs r) = ks \<and> distinct ks \<and> 0 \<notin> set ks"
      unfolding slot_u32_Ok count using chunks(2) by (auto simp: parse_pairs_Ok)
    also have "\<dots> \<longleftrightarrow> frame = report_frame cid (rp_pairs r) \<and> map fst (rp_pairs r) = ks \<and> distinct ks \<and> 0 \<notin> set ks"
      using chunks frame(1) by (auto simp: report_frame_def)
    finally show ?thesis using True by (simp add: frame_def frame_holds_def)
  next
    case False
    have "length (report_frame cid (rp_pairs r)) = length (rp_pairs r) * 2 + 3" by (simp add: report_frame_def)
    then have "\<not> frame_holds E cid ks slots written r" using False unfolding frame_holds_def by (metis length_map length_take min.absorb2)
    moreover have "report_parse E cid ks slots written \<noteq> Ok r"
      using False by (auto simp: report_parse_def checked_report_slots_def)
    ultimately show ?thesis by simp
  qed
qed

section \<open>What the wrappers return\<close>

lemma status_try_from_code: "status_try_from (status_code s) = Ok s"
  by (cases s) (simp_all add: status_try_from_def)

lemma ffi_status_Ok: "ffi_status raw = Ok () \<longleftrightarrow> raw = 0"
  by (auto simp: ffi_status_def status_try_from_def unat_eq_0 nth_Cons split: nat.splits if_splits status.splits)

lemma ffi_status_code: "s \<noteq> StatusOk \<Longrightarrow> ffi_status (status_code s) = Err (FfiStatus s)"
  by (simp add: ffi_status_def status_try_from_code split: status.split)

lemma contract_Ok: "contract cases cid = Ok c \<longleftrightarrow> find (\<lambda>c. cc_case_id c = cid) cases = Some c"
  by (simp add: contract_def split: option.split)

lemma frame_capacity_Ok: "frame_capacity E ks = Ok n \<longleftrightarrow> n = length ks * 2 + 3 \<and> n < usize_limit E"
  by (auto simp: frame_capacity_def)

lemma wrappers_total:
  "contract cases cid \<noteq> Panic" "frame_capacity E ks \<noteq> Panic" "ffi_status raw \<noteq> Panic"
  by (simp_all add: contract_def frame_capacity_def ffi_status_def status_try_from_def split: option.split nat.split status.split)

lemma frame_holds_length: "frame_holds E cid ks slots written r \<Longrightarrow> written = length ks * 2 + 3 \<and> written < usize_limit E"
proof -
  assume h: "frame_holds E cid ks slots written r"
  then have "length (take written slots) = length (rp_pairs r) * 2 + 3" by (simp add: frame_holds_def report_frame_def)
  then show ?thesis using h by (auto simp: frame_holds_def)
qed

lemma exchange_Ok:
  assumes "env_ok E"
  shows "(case answer of (raw, slots, written) \<Rightarrow> and_then (map_err Ffi (ffi_status raw)) (\<lambda>_. report_parse E cid ks slots written)) = Ok r \<longleftrightarrow>
    (\<exists>slots written. answer = (0, slots, written) \<and> frame_holds E cid ks slots written r)"
  by (cases answer) (auto simp: ffi_status_Ok report_parse_Ok [OF assms])

text \<open>
  C35. A conformance report is accepted exactly when it is the frame of its case: the case is one of the build's, the C++
  function answered with status 0, and the slots it says it wrote are the version, the case id, the pair count and the
  pairs, with the case's keys in order, all different and none zero; the report then holds those pairs. Any other status
  the C++ side defines is returned as that status, and neither wrapper panics. A fixture is accepted exactly when the C++
  side filled the whole requested length.
\<close>

theorem report_exchange_exact:
  assumes "env_ok E"
  shows "(cpp_layout_report E cases f cid = Ok r \<longleftrightarrow> (\<exists>c slots written. find (\<lambda>c. cc_case_id c = cid) cases = Some c \<and>
        f cid (replicate (length (cc_layout_keys c) * 2 + 3) 0) = (0, slots, written) \<and> frame_holds E cid (cc_layout_keys c) slots written r)) \<and>
    (cpp_inspect_fixture E cases g cid input = Ok r \<longleftrightarrow> (\<exists>c slots written. find (\<lambda>c. cc_case_id c = cid) cases = Some c \<and>
        g cid input (replicate (length (cc_observation_keys c) * 2 + 3) 0) = (0, slots, written) \<and>
        frame_holds E cid (cc_observation_keys c) slots written r)) \<and>
    (cpp_write_fixture w cid len = Ok bytes \<longleftrightarrow> w cid (replicate len 0) = (0, bytes, len) \<and> len \<le> length bytes) \<and>
    (s \<noteq> StatusOk \<longrightarrow> ffi_status (status_code s) = Err (FfiStatus s)) \<and>
    cpp_layout_report E cases f cid \<noteq> Panic \<and> cpp_inspect_fixture E cases g cid input \<noteq> Panic \<and> cpp_write_fixture w cid len \<noteq> Panic"
proof (intro conjI)
  show "cpp_layout_report E cases f cid = Ok r \<longleftrightarrow> (\<exists>c slots written. find (\<lambda>c. cc_case_id c = cid) cases = Some c \<and>
        f cid (replicate (length (cc_layout_keys c) * 2 + 3) 0) = (0, slots, written) \<and> frame_holds E cid (cc_layout_keys c) slots written r)"
    using frame_holds_length by (fastforce simp: cpp_layout_report_def contract_Ok frame_capacity_Ok exchange_Ok [OF assms])
  show "cpp_inspect_fixture E cases g cid input = Ok r \<longleftrightarrow> (\<exists>c slots written. find (\<lambda>c. cc_case_id c = cid) cases = Some c \<and>
        g cid input (replicate (length (cc_observation_keys c) * 2 + 3) 0) = (0, slots, written) \<and>
        frame_holds E cid (cc_observation_keys c) slots written r)"
    using frame_holds_length by (fastforce simp: cpp_inspect_fixture_def contract_Ok frame_capacity_Ok exchange_Ok [OF assms])
  show "cpp_write_fixture w cid len = Ok bytes \<longleftrightarrow> w cid (replicate len 0) = (0, bytes, len) \<and> len \<le> length bytes"
    by (auto simp: cpp_write_fixture_def cpp_write_fixture_into_def ffi_status_Ok split: prod.splits if_splits)
  show "s \<noteq> StatusOk \<longrightarrow> ffi_status (status_code s) = Err (FfiStatus s)" by (simp add: ffi_status_code)
qed (auto simp: cpp_layout_report_def cpp_inspect_fixture_def cpp_write_fixture_def cpp_write_fixture_into_def wrappers_total
  report_parse_total split: prod.splits if_splits)

text \<open>The exchange on a little-endian 64-bit target, with a layout report of two entries.\<close>

definition sample_contract :: case_contract where
  "sample_contract = \<lparr>cc_case_id = 1001, cc_root_id = ''conformance-scalars'', cc_layout_keys = [1001001, 1001002], cc_observation_keys = [1001501]\<rparr>"

definition sample_layout :: "u64 zs_output" where
  "sample_layout cid out = (0, [1, 1001, 2, 1001001, 8, 1001002, 4], 7)"

theorem report_exchange_exact_witness:
  "env_ok linux_x86_64 \<and> cpp_layout_report linux_x86_64 [sample_contract] sample_layout 1001 = Ok \<lparr>rp_pairs = [(1001001, 8), (1001002, 4)]\<rparr> \<and>
   ffi_status (status_code NullInput) = Err (FfiStatus NullInput)"
  using report_exchange_exact [of linux_x86_64 "[sample_contract]" sample_layout 1001 "\<lparr>rp_pairs = [(1001001, 8), (1001002, 4)]\<rparr>"
    "\<lambda>cid input out. (7, out, 0)" "[]" "\<lambda>cid out. (7, out, 0)" 0 "[]" NullInput]
  by (simp add: sample_contract_def sample_layout_def frame_holds_def report_frame_def)

end
