(* ===== verification/Spec2Isabelle.thy ===== *)
theory Spec2Isabelle
  imports Zs_Corners Zs_Session Zs_Bounds Zs_Cpp_Reports Zs_Report
begin

text \<open>
  zero-schema: checked zero-copy binary schemas.

  \<^bold>\<open>The program.\<close> zero-schema lets a Rust declaration describe bytes that arrive from elsewhere. The attribute
  macro (\<open>zero-schema-macros/src\<close>) analyses a struct, scalar enum or tagged enum and emits a \<open>repr(C)\<close> wire
  type, an eager proof, getters, mutation handles, a patch type and a layout descriptor. The runtime crate
  (\<open>src/src\<close>) holds what generated code calls: checked inputs, wire primitives, bounded strings, array views,
  handles, the zero-state protocol and the error model. A caller hands bytes to \<open>access\<close> or \<open>access_mut\<close>;
  size and alignment are checked, every field is proved, and from then on getters and handles rely on the
  proof. Every mutation is a preflight that may refuse followed by a commit that must not, so a refused
  mutation leaves the bytes as they were.

  \<^bold>\<open>Modelling conventions.\<close> A fallible operation returns \<open>res\<close>: \<open>Ok\<close>, \<open>Err\<close>, or \<open>Panic\<close> where the Rust code
  panics (an \<open>expect\<close>, an index, a checked \<open>usize\<close> operation). An input is its address, its bytes and the
  layout of its wire type. A mutating call returns the input as the call leaves it; an exclusive reborrow of
  a field is a copy of the field's span that is written back (\<open>write_back\<close>, which stands for no line of the code).
  A closure is a function from the input and the state it shares to what it leaves of both. Bytes are \<open>8 word\<close>; a primitive value is its
  bit pattern. \<open>env\<close> collects what the code is compiled against: byte order, pointer width, primitive
  alignments, the reference cast of \<open>zerocopy\<close> and the terminator scan of \<open>widestring\<close>; the documented behaviour
  of these two crates and of the target is the hypothesis \<open>env_ok\<close>. Error values are the chain of nodes their \<open>SchemaError\<close> implementation reports. Spans
  of source text, token identity and Rust lifetimes of borrows are not data of the model.

  \<^bold>\<open>The runtime.\<close>
  \<^item> \<open>Zs_Prelude\<close>: results, the environment, \<open>usize\<close> arithmetic, and the lemmas on byte spans that all
    components share.
  \<^item> \<open>Zs_Error\<close> (\<open>error.rs\<close>): chains, both formatters, index nodes. The display is the path and the leaf; an
    index chain reports every index.
  \<^item> \<open>Zs_Wire\<close> (\<open>wire.rs\<close>): primitive, Boolean and length wires as codecs, string and aligned wires as
    \<open>repr(C)\<close> layouts. Encoding and decoding are inverse, a decoder accepts exactly what the encoder writes.
  \<^item> \<open>Zs_Access\<close> (\<open>access.rs\<close>, the range helpers of \<open>mutation.rs\<close>): which inputs are accepted, with which
    error, and that a reborrow changes its own span only.
  \<^item> \<open>Zs_Strings\<close> (\<open>strings.rs\<close>): proof, preflight and commit of the four string forms. The UTF-8 scan is
    a total function with its termination proof. A committed string reads back; unused capacity does not
    matter.
  \<^item> \<open>Zs_Owner\<close>: the error enums generated for a declaration.
  \<^item> \<open>Zs_Mutation\<close> (\<open>mutation.rs\<close>): the scalar, string and byte handles. Locale \<open>field_adapter\<close> is the
    interface between a handle and a generated adapter, interpreted for every leaf category.
  \<^item> \<open>Zs_Optional\<close>: scalar enums and \<open>OptionMut\<close>; locale \<open>option_contract\<close> says what the zero sentinel needs.
  \<^item> \<open>Zs_Array\<close> (\<open>array.rs\<close>): views, iterators, \<open>copy_from\<close>, nested rows. Locale \<open>element_contract\<close>; rows meet
    it whenever their elements do (a \<open>sublocale\<close>), so every nesting depth is covered by one argument.
  \<^item> \<open>Zs_Support\<close> (\<open>__private.rs\<close>): the generated traits as one record of operations, and the zero-state
    protocol. Locale \<open>schema_contract\<close> is all a parent relies on of a child.
  \<^item> \<open>Zs_Tagged\<close> (\<open>tagged.rs\<close>): selections, and the commit that writes a payload before its tag, for closures
    that share state and may unwind. Locale \<open>payload_contract\<close>.

  \<^bold>\<open>Generated code.\<close>
  \<^item> \<open>Zs_Element\<close>, \<open>Zs_Record\<close> (\<open>emit_access.rs\<close>, \<open>emit_mutation.rs\<close>, \<open>emit_patch.rs\<close>, \<open>emit_wire.rs\<close>): what the
    macro emits for array elements and records, field by field: offsets, proofs, getters, materialization,
    logical mutation in replacing and initializing mode, patches, zero states.
  \<^item> \<open>Zs_Record_Laws\<close>: a record over children that meet \<open>schema_contract\<close> meets it too.
  \<^item> \<open>Zs_Schema\<close>: \<open>generated\<close>, the least set of supports closed under the macro's constructions, and by rule
    induction the contract for all of them: proofs are total and exact, proved spans read, mutations are
    atomic and read back, all-zero bytes are valid exactly when declared so.
  \<^item> \<open>Zs_Fields\<close>: getters and field handles of a proved record, the placement of its fields, the tag check.
  \<^item> \<open>Zs_Patch\<close>, \<open>Zs_Record_Patch\<close>: patches. The abstract specification is the intended value of each leaf
    after a patch; \<open>copy_from\<close> refines it, refuses with the documented errors, and frames what it does not
    name.
  \<^item> \<open>Zs_Session\<close> (\<open>lib.rs\<close>): the buffer constructors, and the step relation of everything a caller may do
    through one exclusive capability, reading and taking handles included; a panic there is the result of a step. No
    sequence of steps leaves the schema or panics; a zeroed buffer that compiles is accessible.

  \<^bold>\<open>The macro's front end.\<close>
  \<^item> \<open>Zs_Parse\<close> (\<open>parse.rs\<close>): the attribute grammar with its diagnostics; no option parser panics.
  \<^item> \<open>Zs_Analyze\<close> (\<open>analyze.rs\<close>): classification, field options, tag linking, enums, generated names.
  \<^item> \<open>Zs_Frontend\<close> (\<open>emit_wire.rs\<close>): from an accepted declaration to a schema of \<open>generated\<close>. This is where
    the front end meets the runtime: an accepted declaration whose generated code compiles has every
    guarantee above. Analysis itself is total.
  \<^item> \<open>Zs_Names\<close>: the items of the generated inherent impls, against the names the analysis reserves.
  \<^item> \<open>Zs_Lifetimes\<close>: the visitors that erase and rebind source lifetimes. Locale \<open>substituting\<close>: each is a
    substitution on the free lifetimes of a type when no binder captures the replacement. The search for a
    fresh lifetime is a \<open>partial_function\<close>; it returns a name the declaration does not mention, after at most
    as many collisions as it mentions lifetimes. Only an overflow of its counter panics.
  \<^item> \<open>Zs_Bounds\<close>: the generic parameters and \<open>where\<close> predicates of the generated structs, enums, unions and impls, and
    of \<open>copy_into\<close>. Each header is emitted and mentions only lifetimes it declares, and rebased paths lead where the written
    ones do.
  \<^item> \<open>Zs_Layout\<close> (\<open>layout.rs\<close>): the diagnostic descriptors. They describe the offsets the code uses, and the
    padding ranges are exactly the bytes no value covers.
  \<^item> \<open>Zs_Corners\<close>: declarations the analysis accepts against a documented rule, and states that differ from
    their documentation, each as a concrete fact.

  \<^bold>\<open>The conformance harness\<close> (\<open>conformance/\<close>) reads the same schema source as the macro, generates a C++ program
  from it and compares what both sides report.
  \<^item> \<open>Zs_Corpus\<close> (\<open>frontend.rs\<close>): the reader of the schema corpus, its attributes, types and items.
  \<^item> \<open>Zs_Cases\<close>: the token parser of the case file. A case written in its notation parses back to itself.
  \<^item> \<open>Zs_Conformance\<close>: the checks on the whole model. They accept exactly the models the abstract specification
    \<open>model_ok\<close> describes; the cycle search, whose recursion is nested, ends and is a decision procedure, and the
    loop that looks for unused schemas computes reachability.
  \<^item> \<open>Zs_Report\<close> (\<open>report.rs\<close>, \<open>ffi.rs\<close>): report frames and the calls of the C++ side, which is a parameter.
  \<^item> \<open>Zs_Cpp\<close> (\<open>layout_cpp.rs\<close>): the generator of the C++ declarations, their assertions and the layout metrics of
    every case. Its output is syntax trees, with the functions that print them.
  \<^item> \<open>Zs_Cpp_Layout\<close>: the C++ side of the abstract specification, which is what a compiler makes of such a declaration, with
    the rules for standard-layout structs, unions, arrays and \<open>alignas\<close>.
  \<^item> \<open>Zs_Cpp_Agree\<close> (one declaration), \<open>Zs_Cpp_Schemas\<close> (all of them, along the acyclic references), \<open>Zs_Cpp_Metrics\<close>
    (the layout metrics of a case) and \<open>Zs_Cpp_Reports\<close>: both sides of the harness agree. In a header that compiles, every
    schema has the size and alignment of the wire the macro emits for it, every member the place of the record's field,
    and the arm of every case on a struct evaluates to the geometry of that record.

  \<^bold>\<open>Bounds.\<close> One definition has a depth bound, the zero-sentinel test of the conformance front end; the bound is the
  number of schemas and is proved enough wherever the cycle check has passed. No other uses fuel. Offsets and lengths the runtime helpers compute are checked \<open>usize\<close>
  operations and their overflow is a branch. Sizes of wire types are natural numbers; \<open>valid_wire\<close> and \<open>input_ok\<close>
  say that they fit \<open>usize\<close>, which holds of every type \<open>rustc\<close> lays out, and a theorem that starts from a schema
  alone has this bound as a hypothesis.

  \<^bold>\<open>Not modelled.\<close> The argument lists after a type name and the token templates of impl blocks decide only
  whether \<open>rustc\<close> accepts the generated items; the headers they stand under are modelled. The macro entry
  point, spans and token printing are glue over \<open>syn\<close> and \<open>proc_macro2\<close>; their printer is a parameter where
  its output is compared, and the default traversal of their visitors is the documented one, child by child
  in order. Access tokens and lifetimes of borrows are compile-time facts of Rust. The boxed buffer
  constructors differ from the plain ones in allocation only. The C++ codec generator
  (\<open>codec_cpp.rs\<close>) and the build script of the conformance harness write C++ function bodies and run a compiler.
  The expressions of all layout metrics are modelled; their values are related to the Rust side for the geometric metrics of
  structs, not for tags, encodings and enums. The inventory of expected values, the fuzz
  targets, benchmarks, examples and target tests exercise the program and are not part of it.
\<close>

end
